(* ===== verification/NP_Prelude.thy ===== *)
theory NP_Prelude
  imports Main "HOL-Library.Word" "HOL-Library.Monad_Syntax"
begin

text \<open>
  Shared vocabulary of the development: bytes and C strings, the C integer conversions the
  sources rely on (\<open>int\<close> of 32 bits, \<open>size_t\<close> and \<open>unsigned long\<close> of 64 bits, an LP64
  platform), bounds-checked memory reads and writes, big-endian decoding, decimal formatting and
  the ring-buffer lemmas that both FIFOs use.

  A C access outside its object is undefined behaviour. Operations that can do one return an
  \<open>option\<close>; \<open>None\<close> stands for the out-of-bounds access, never for an error the code
  reports itself.
\<close>

unbundle bit_operations_syntax

named_theorems cmem \<open>rules for bounds-checked memory operations\<close>
named_theorems csize \<open>rules for wrap-free size arithmetic\<close>
named_theorems ring \<open>rules for ring buffers\<close>

section \<open>Bytes, strings and integers\<close>

type_synonym byte = "8 word"
type_synonym cstr = "byte list" \<comment> \<open>a C string without its terminating NUL\<close>

definition str :: "string \<Rightarrow> cstr" where
  "str s = map of_char s"

lemma str_Nil [simp]: "str [] = []"
  by (simp add: str_def)

lemma str_Cons [simp]: "str (c # s) = of_char c # str s"
  by (simp add: str_def)

lemma length_str [simp]: "length (str s) = length s"
  by (simp add: str_def)

text \<open>Conversion to a 32-bit \<open>int\<close>: reduction to the two's complement range.\<close>

definition i32 :: "int \<Rightarrow> int" where
  "i32 x = signed_take_bit 31 x"

lemma i32_id [csize]: "- (2 ^ 31) \<le> x \<Longrightarrow> x < 2 ^ 31 \<Longrightarrow> i32 x = x"
  unfolding i32_def by (rule signed_take_bit_int_eq_self) simp_all

lemma i32_range: "- (2 ^ 31) \<le> i32 x \<and> i32 x < 2 ^ 31"
proof -
  have "- (2 ^ 31) \<le> signed_take_bit 31 x"
    by (rule signed_take_bit_int_greater_eq_minus_exp)
  moreover have "signed_take_bit 31 x < 2 ^ 31"
    by (rule signed_take_bit_int_less_exp)
  ultimately show ?thesis unfolding i32_def ..
qed

definition s64 :: "int \<Rightarrow> int" where
  "s64 x = signed_take_bit 63 x"

lemma s64_id [csize]: "- (2 ^ 63) \<le> x \<Longrightarrow> x < 2 ^ 63 \<Longrightarrow> s64 x = x"
  unfolding s64_def by (rule signed_take_bit_int_eq_self) simp_all

text \<open>\<open>size_t\<close> subtraction and addition on \<open>nat\<close> with the 64-bit wrap-around written out.\<close>

definition sz_sub :: "nat \<Rightarrow> nat \<Rightarrow> nat" where
  "sz_sub a b = nat ((int a - int b) mod 2 ^ 64)"

definition sz_add :: "nat \<Rightarrow> nat \<Rightarrow> nat" where
  "sz_add a b = (a + b) mod 2 ^ 64"

lemma sz_sub_eq [csize]: "b \<le> a \<Longrightarrow> a < 2 ^ 64 \<Longrightarrow> sz_sub a b = a - b"
proof -
  assume "b \<le> a" and "a < 2 ^ 64"
  then have "int (a - b) mod 2 ^ 64 = int (a - b)"
    by (intro mod_pos_pos_trivial) auto
  with \<open>b \<le> a\<close> show ?thesis by (simp add: sz_sub_def of_nat_diff)
qed

lemma sz_add_eq [csize]: "a + b < 2 ^ 64 \<Longrightarrow> sz_add a b = a + b"
  by (simp add: sz_add_def)

text \<open>Conversion of an \<open>int\<close> argument to \<open>size_t\<close>.\<close>

definition to_size :: "int \<Rightarrow> nat" where
  "to_size x = nat (x mod 2 ^ 64)"

lemma to_size_id [csize]: "0 \<le> x \<Longrightarrow> x < 2 ^ 64 \<Longrightarrow> to_size x = nat x"
  by (simp add: to_size_def)

lemma to_size_neg: "- (2 ^ 63) \<le> x \<Longrightarrow> x < 0 \<Longrightarrow> 2 ^ 63 \<le> to_size x"
proof -
  assume a: "- (2 ^ 63) \<le> x" "x < 0"
  have "x mod 2 ^ 64 = x + 2 ^ 64"
    using a by (intro int_mod_pos_eq [of _ _ "-1"]) auto
  with a show ?thesis by (simp add: to_size_def)
qed

text \<open>Division and remainder of C for a positive divisor: truncation towards 0.\<close>

definition quot :: "int \<Rightarrow> int \<Rightarrow> int" where
  "quot a b = (if a < 0 then - ((- a) div b) else a div b)"

definition c_rem :: "int \<Rightarrow> int \<Rightarrow> int" where
  "c_rem a b = a - b * quot a b"

lemma quot_pos [csize]: "0 \<le> a \<Longrightarrow> quot a b = a div b"
  by (simp add: quot_def)

lemma c_rem_pos [csize]: "0 \<le> a \<Longrightarrow> c_rem a b = a mod b"
  by (simp add: c_rem_def quot_def minus_mult_div_eq_mod)

section \<open>Bounds-checked memory\<close>

definition rd :: "'a list \<Rightarrow> nat \<Rightarrow> 'a option" where
  "rd m i = (if i < length m then Some (m ! i) else None)"

definition mem_read :: "'a list \<Rightarrow> nat \<Rightarrow> nat \<Rightarrow> 'a list option" where
  "mem_read m off n = (if off + n \<le> length m then Some (take n (drop off m)) else None)"

definition blit :: "'a list \<Rightarrow> nat \<Rightarrow> 'a list \<Rightarrow> 'a list" where
  "blit m off src = take off m @ src @ drop (off + length src) m"

definition mem_write :: "'a list \<Rightarrow> nat \<Rightarrow> 'a list \<Rightarrow> 'a list option" where
  "mem_write m off src = (if off + length src \<le> length m then Some (blit m off src) else None)"

lemma rd_Some [cmem]: "i < length m \<Longrightarrow> rd m i = Some (m ! i)"
  by (simp add: rd_def)

lemma rd_None_iff: "rd m i = None \<longleftrightarrow> length m \<le> i"
  by (auto simp: rd_def)

lemma mem_read_Some [cmem]: "off + n \<le> length m \<Longrightarrow> mem_read m off n = Some (take n (drop off m))"
  by (simp add: mem_read_def)

lemma mem_read_length: "mem_read m off n = Some d \<Longrightarrow> length d = n"
  by (auto simp: mem_read_def split: if_splits)

lemma mem_write_Some [cmem]: "off + length src \<le> length m \<Longrightarrow> mem_write m off src = Some (blit m off src)"
  by (simp add: mem_write_def)

lemma length_blit [simp]: "off + length src \<le> length m \<Longrightarrow> length (blit m off src) = length m"
  by (simp add: blit_def)

lemma blit_Nil [simp]: "off \<le> length m \<Longrightarrow> blit m off [] = m"
  by (simp add: blit_def)

lemma nth_blit:
  "off + length src \<le> length m \<Longrightarrow> j < length m \<Longrightarrow>
   blit m off src ! j = (if off \<le> j \<and> j < off + length src then src ! (j - off) else m ! j)"
  by (auto simp: blit_def nth_append min_def)

lemma take_blit: "off + length src \<le> length m \<Longrightarrow> take (off + length src) (blit m off src) = take off m @ src"
  by (cases src) (auto simp: blit_def min_def)

lemma take_blit_le: "off \<le> length m \<Longrightarrow> k \<le> off \<Longrightarrow> take k (blit m off src) = take k m"
  by (simp add: blit_def min_def)


section \<open>Ring buffers\<close>

text \<open>
  Both FIFOs keep their bytes in a ring: \<open>n\<close> bytes starting at index \<open>s\<close>, index arithmetic
  modulo the length of the buffer. \<open>ring_put\<close> and \<open>ring_get\<close> are the two-\<open>memcpy\<close> idiom of
  the sources.
\<close>

definition ring_list :: "'a list \<Rightarrow> nat \<Rightarrow> nat \<Rightarrow> 'a list" where
  "ring_list b s n = map (\<lambda>i. b ! ((s + i) mod length b)) [0..<n]"

definition ring_get :: "'a list \<Rightarrow> nat \<Rightarrow> nat \<Rightarrow> 'a list" where
  "ring_get b s n =
     (let k = min (length b - s) n in take k (drop s b) @ take (n - k) b)"

definition ring_put :: "'a list \<Rightarrow> nat \<Rightarrow> 'a list \<Rightarrow> 'a list" where
  "ring_put b e d =
     (let k = min (length b - e) (length d) in blit (blit b e (take k d)) 0 (drop k d))"

lemma length_ring_list [simp]: "length (ring_list b s n) = n"
  by (simp add: ring_list_def)

lemma nth_ring_list: "i < n \<Longrightarrow> ring_list b s n ! i = b ! ((s + i) mod length b)"
  by (simp add: ring_list_def)

lemma ring_list_0 [simp]: "ring_list b s 0 = []"
  by (simp add: ring_list_def)

lemma take_ring_list [ring]: "k \<le> n \<Longrightarrow> take k (ring_list b s n) = ring_list b s k"
  by (rule nth_equalityI) (auto simp: nth_ring_list)

lemma drop_ring_list [ring]: "drop k (ring_list b s n) = ring_list b (s + k) (n - k)"
  by (rule nth_equalityI) (auto simp: nth_ring_list add.assoc)

lemma ring_list_mod [ring]: "ring_list b (s mod length b) n = ring_list b s n"
  by (rule nth_equalityI) (auto simp: nth_ring_list mod_simps)

lemma ring_get_eq: "s < length b \<Longrightarrow> n \<le> length b \<Longrightarrow> ring_get b s n = ring_list b s n"
proof (rule nth_equalityI)
  assume "s < length b" "n \<le> length b"
  then show "length (ring_get b s n) = length (ring_list b s n)"
    by (auto simp: ring_get_def Let_def)
next
  fix i
  assume a: "s < length b" "n \<le> length b" and i: "i < length (ring_get b s n)"
  from a have l: "length (ring_get b s n) = n"
    by (auto simp: ring_get_def Let_def)
  show "ring_get b s n ! i = ring_list b s n ! i"
  proof (cases "i < length b - s")
    case True
    then have "(s + i) mod length b = s + i"
      using a by simp
    with a i l True show ?thesis
      by (auto simp: ring_get_def Let_def nth_ring_list nth_append min_def)
  next
    case False
    then have "(s + i) mod length b = s + i - length b"
      using a i l by (subst mod_if) (auto simp: mod_if)
    with a i l False show ?thesis
      by (auto simp: ring_get_def Let_def nth_ring_list nth_append min_def add.commute)
  qed
qed

lemma length_ring_put [simp]:
  "e < length b \<Longrightarrow> length d \<le> length b \<Longrightarrow> length (ring_put b e d) = length b"
  by (auto simp: ring_put_def Let_def min_def)

lemma nth_ring_put:
  assumes "e < length b" "length d \<le> length b" "j < length b"
  shows "ring_put b e d ! j =
    (if (if e \<le> j then j - e else j + length b - e) < length d
     then d ! (if e \<le> j then j - e else j + length b - e) else b ! j)"
proof -
  define k where k_def: "k = min (length b - e) (length d)"
  let ?b1 = "blit b e (take k d)"
  have k: "k \<le> length b - e" "k \<le> length d" by (simp_all add: k_def)
  then have l1: "e + length (take k d) \<le> length b"
    using assms by simp
  have l2: "0 + length (drop k d) \<le> length ?b1"
    using assms k l1 by simp
  have "ring_put b e d ! j = (if 0 \<le> j \<and> j < 0 + length (drop k d) then drop k d ! (j - 0) else ?b1 ! j)"
    unfolding ring_put_def Let_def k_def [symmetric] using l2 assms(3) l1 by (intro nth_blit) simp_all
  moreover have "?b1 ! j = (if e \<le> j \<and> j < e + length (take k d) then take k d ! (j - e) else b ! j)"
    using l1 assms(3) by (rule nth_blit)
  ultimately have "ring_put b e d ! j =
      (if j < length d - k then drop k d ! j
       else if e \<le> j \<and> j < e + k then take k d ! (j - e) else b ! j)"
    using k by (simp only: length_drop length_take min.absorb2) simp
  also have "\<dots> = (if e \<le> j \<and> j < e + length d then d ! (j - e)
      else if j + length b - e < length d \<and> j < e then d ! (j + length b - e) else b ! j)"
  proof (cases "length b - e \<le> length d")
    case True
    with assms show ?thesis by (auto simp: k_def min_def add.commute)
  next
    case False
    with assms show ?thesis by (auto simp: k_def min_def)
  qed
  finally show ?thesis using assms by auto
qed

lemma ring_put_append [ring]:
  assumes "s < length b" "n + length d \<le> length b"
  shows "ring_list (ring_put b ((s + n) mod length b) d) s (n + length d) = ring_list b s n @ d"
proof (rule nth_equalityI)
  show "length (ring_list (ring_put b ((s + n) mod length b) d) s (n + length d)) =
        length (ring_list b s n @ d)" by simp
next
  fix i
  let ?L = "length b" and ?e = "(s + n) mod length b"
  assume "i < length (ring_list (ring_put b ?e d) s (n + length d))"
  then have i: "i < n + length d" by simp
  have L: "0 < ?L" using assms by auto
  have e: "?e = (if s + n < ?L then s + n else s + n - ?L)"
    using assms by (auto simp: mod_if)
  have j: "(s + i) mod ?L = (if s + i < ?L then s + i else s + i - ?L)"
    using assms i by (auto simp: mod_if)
  show "ring_list (ring_put b ?e d) s (n + length d) ! i = (ring_list b s n @ d) ! i"
  proof (cases "i < n")
    case True
    have "\<not> (if ?e \<le> (s + i) mod ?L then (s + i) mod ?L - ?e else (s + i) mod ?L + ?L - ?e) < length d"
      using True assms unfolding e j by auto
    then show ?thesis
      using True assms L i by (simp add: nth_ring_list nth_append nth_ring_put)
  next
    case False
    have "(if ?e \<le> (s + i) mod ?L then (s + i) mod ?L - ?e else (s + i) mod ?L + ?L - ?e) = i - n"
      using False assms i unfolding e j by auto
    then show ?thesis
      using False assms L i by (auto simp: nth_ring_list nth_append nth_ring_put)
  qed
qed


section \<open>Integers in memory\<close>

text \<open>Little-endian 32-bit integers, as the hosts of the shared-memory FIFO store them.\<close>

definition le32 :: "int \<Rightarrow> byte list" where
  "le32 x = [word_of_int x, word_of_int (x div 256), word_of_int (x div 65536), word_of_int (x div 16777216)]"

fun le_uint :: "byte list \<Rightarrow> int" where
  "le_uint [] = 0"
| "le_uint (b # bs) = uint b + 256 * le_uint bs"

lemma length_le32 [simp]: "length (le32 x) = 4"
  by (simp add: le32_def)

lemma uint_byte [simp]: "uint (word_of_int x :: byte) = x mod 256"
  by (simp add: uint_word_of_int)

lemma uint_byte_bounds: "0 \<le> uint (b::byte) \<and> uint b < 256"
  using uint_ge_0 [of b] uint_lt2p [of b] by simp

lemma le_sum: "x = 256 * q1 + m0 \<Longrightarrow> q1 = 256 * q2 + m1 \<Longrightarrow> q2 = 256 * q3 + m2 \<Longrightarrow>
   m0 + 256 * (m1 + 256 * (m2 + 256 * q3)) = (x::int)"
  by simp

lemma le_uint_le32: "0 \<le> x \<Longrightarrow> x < 2 ^ 32 \<Longrightarrow> le_uint (le32 x) = x"
proof -
  assume x: "0 \<le> x" "x < 2 ^ 32"
  have 1: "x = 256 * (x div 256) + x mod 256" by simp
  have 2: "x div 256 = 256 * (x div 65536) + (x div 256) mod 256"
    using zdiv_zmult2_eq [of 256 x 256] by simp
  have 3: "x div 65536 = 256 * (x div 16777216) + (x div 65536) mod 256"
    using zdiv_zmult2_eq [of 256 x 65536] by simp
  have 4: "(x div 16777216) mod 256 = x div 16777216"
  proof (rule mod_pos_pos_trivial)
    show "0 \<le> x div 16777216" using x by simp
    from x have "x < 256 * 16777216" by simp
    then show "x div 16777216 < 256" by (simp add: div_less_iff_less_mult)
  qed
  have "le_uint (le32 x) = x mod 256 + 256 * ((x div 256) mod 256 + 256 * ((x div 65536) mod 256 +
      256 * ((x div 16777216) mod 256 + 256 * 0)))"
    by (simp only: le32_def le_uint.simps uint_byte)
  also have "\<dots> = x"
    using 4 by (simp only: le_sum [OF 1 2 3] mult_zero_right add_0_right)
  finally show ?thesis .
qed

text \<open>
  Big-endian fields as the header parsers assemble them: \<open>int\<close> shifts and additions. The 32-bit
  form computes in \<open>int\<close>, so it wraps to a negative value when the top byte is 128 or more.
\<close>

definition be16 :: "byte \<Rightarrow> byte \<Rightarrow> int" where
  "be16 b1 b2 = uint b1 * 256 + uint b2"

definition be32 :: "byte \<Rightarrow> byte \<Rightarrow> byte \<Rightarrow> byte \<Rightarrow> int" where
  "be32 b1 b2 b3 b4 = i32 (((uint b1 * 256 + uint b2) * 256 + uint b3) * 256 + uint b4)"

lemma i32_mod: "i32 x mod 2 ^ 32 = x mod 2 ^ 32"
  unfolding i32_def take_bit_eq_mod [symmetric] by (simp add: take_bit_signed_take_bit)

lemmas byte_ge_0 = uint_ge_0 [where 'a = 8]

lemma byte_lt: "uint (b::byte) < 256"
  using uint_lt2p [of b] by simp

lemma be16_bounds: "0 \<le> be16 b1 b2 \<and> be16 b1 b2 < 65536"
  using uint_byte_bounds [of b1] uint_byte_bounds [of b2] by (auto simp: be16_def)

lemma be32_small: "uint b1 < 128 \<Longrightarrow>
  be32 b1 b2 b3 b4 = ((uint b1 * 256 + uint b2) * 256 + uint b3) * 256 + uint b4"
proof -
  assume "uint b1 < 128"
  then have "((uint b1 * 256 + uint b2) * 256 + uint b3) * 256 + uint b4 < 2147483648"
    using byte_lt [of b2] byte_lt [of b3] byte_lt [of b4] by simp
  moreover have "0 \<le> ((uint b1 * 256 + uint b2) * 256 + uint b3) * 256 + uint b4"
    by (intro add_nonneg_nonneg mult_nonneg_nonneg byte_ge_0) simp_all
  then have "- 2147483648 \<le> ((uint b1 * 256 + uint b2) * 256 + uint b3) * 256 + uint b4"
    by (rule order_trans [rotated]) simp
  ultimately show ?thesis
    unfolding be32_def by (intro i32_id) (simp_all only: power_numeral_even power_numeral_odd, simp_all)
qed

text \<open>\<open>memcpy\<close>/\<open>memmove\<close> helpers on \<open>int\<close> offsets are written with \<^const>\<open>to_size\<close>.\<close>

section \<open>Decimal output\<close>

text \<open>The digits \<open>printf\<close> produces for \<open>%d\<close> and \<open>%0nd\<close>.\<close>

fun digits :: "nat \<Rightarrow> byte list" where
  "digits n = (if n < 10 then [of_nat (48 + n)] else digits (n div 10) @ [of_nat (48 + n mod 10)])"

declare digits.simps [simp del]

definition dec :: "int \<Rightarrow> byte list" where
  "dec x = (if x < 0 then 45 # digits (nat (- x)) else digits (nat x))"

definition dec_pad :: "nat \<Rightarrow> int \<Rightarrow> byte list" where
  "dec_pad w x =
     (if x < 0 then 45 # replicate (w - 1 - length (digits (nat (- x)))) 48 @ digits (nat (- x))
      else replicate (w - length (digits (nat x))) 48 @ digits (nat x))"

lemma digits_nonempty [simp]: "digits n \<noteq> []"
  by (subst digits.simps) simp

lemma length_digits_le: "n < 10 ^ k \<Longrightarrow> 0 < k \<Longrightarrow> length (digits n) \<le> k"
proof (induction n arbitrary: k rule: digits.induct)
  case (1 n)
  show ?case
  proof (cases "n < 10")
    case True
    with "1.prems" show ?thesis by (subst digits.simps) simp
  next
    case False
    from "1.prems" obtain m where k: "k = Suc m" by (cases k) auto
    have "0 < m"
    proof (rule ccontr)
      assume "\<not> 0 < m"
      with k "1.prems" False show False by simp
    qed
    with k have m: "k = Suc m" "0 < m" by simp_all
    with "1.prems" have "n div 10 < 10 ^ m" by (simp add: less_mult_imp_div_less mult.commute)
    from "1.IH" [OF False this m(2)] m False show ?thesis by (subst digits.simps) simp
  qed
qed

lemma length_dec_pad: "0 \<le> x \<Longrightarrow> x < 10 ^ k \<Longrightarrow> 0 < k \<Longrightarrow> length (dec_pad k x) = k"
proof -
  assume x: "0 \<le> x" "x < 10 ^ k" "0 < k"
  then have "nat x < 10 ^ k" by (simp add: nat_less_iff)
  with x length_digits_le [of "nat x" k] show ?thesis by (simp add: dec_pad_def)
qed

lemma length_dec_byte: "length (dec (uint (b::byte))) \<le> 3"
proof -
  have "unat b < 10 ^ 3"
    by (rule less_le_trans [OF unsigned_less]) simp
  then show ?thesis
    using length_digits_le [of "unat b" 3] by (simp add: dec_def)
qed

text \<open>\<open>sprintf\<close> or \<open>strcpy\<close> into an array of \<open>n\<close> bytes.\<close>

definition fits_buf :: "nat \<Rightarrow> cstr \<Rightarrow> cstr option" where
  "fits_buf n s = (if length s < n then Some s else None)"

lemma fits_bufD: "fits_buf n s = Some s' \<Longrightarrow> s' = s \<and> length s < n"
  by (simp add: fits_buf_def split: if_splits)

text \<open>C strings: the bytes up to the first NUL.\<close>

definition cstr_of :: "byte list \<Rightarrow> cstr" where
  "cstr_of m = takeWhile (\<lambda>b. b \<noteq> 0) m"

definition is_digit :: "byte \<Rightarrow> bool" where
  "is_digit b \<longleftrightarrow> 48 \<le> b \<and> b \<le> 57"

definition is_alnum :: "byte \<Rightarrow> bool" where
  "is_alnum b \<longleftrightarrow> is_digit b \<or> (65 \<le> b \<and> b \<le> 90) \<or> (97 \<le> b \<and> b \<le> 122)"

end
