(* ===== verification/Byte_Queue.thy ===== *)
theory Byte_Queue
  imports NP_Prelude
begin

text \<open>
  The contract of a bounded byte queue, as the clients of \<open>fifo.c\<close> and \<open>shmfifo.c\<close> rely on it:
  a refused \<open>put\<close> or \<open>get\<close> is \<open>None\<close>, an accepted one acts on the abstract byte list. What a
  client may conclude about a whole run of operations is proved once here; the two FIFOs
  interpret the locales with their own operations.
\<close>

datatype qop = Put "byte list" | Get nat

text \<open>The bytes offered by a run of operations.\<close>

fun put_bytes :: "qop list \<Rightarrow> byte list" where
  "put_bytes [] = []"
| "put_bytes (Put d # ops) = d @ put_bytes ops"
| "put_bytes (Get n # ops) = put_bytes ops"

locale byte_queue =
  fixes inv :: "'q \<Rightarrow> bool"
    and content :: "'q \<Rightarrow> byte list"
    and cap :: "'q \<Rightarrow> nat"
    and put :: "'q \<Rightarrow> byte list \<Rightarrow> 'q option"
    and get :: "'q \<Rightarrow> nat \<Rightarrow> (byte list \<times> 'q) option"
  assumes put_ok: "inv q \<Longrightarrow> length (content q) + length d \<le> cap q \<Longrightarrow>
      \<exists>q'. put q d = Some q' \<and> inv q' \<and> content q' = content q @ d \<and> cap q' = cap q"
    and get_ok: "inv q \<Longrightarrow> 0 < n \<Longrightarrow> n \<le> length (content q) \<Longrightarrow>
      \<exists>q'. get q n = Some (take n (content q), q') \<and> inv q' \<and>
           content q' = drop n (content q) \<and> cap q' = cap q"
    and get_short: "inv q \<Longrightarrow> length (content q) < n \<Longrightarrow> get q n = None"
begin

lemma putE:
  assumes "inv q" "length (content q) + length d \<le> cap q"
  obtains q' where "put q d = Some q'" "inv q'" "content q' = content q @ d" "cap q' = cap q"
  using put_ok [OF assms] by blast

lemma getE:
  assumes "inv q" "0 < n" "n \<le> length (content q)"
  obtains q' where "get q n = Some (take n (content q), q')" "inv q'"
    "content q' = drop n (content q)" "cap q' = cap q"
  using get_ok [OF assms] by blast

text \<open>
  A run performs the operations in order; a put is attempted only when it fits, a get only when
  enough bytes are there (the clients wait otherwise). The result carries the bytes taken out.
\<close>

fun run :: "'q \<Rightarrow> qop list \<Rightarrow> (byte list \<times> 'q) option" where
  "run q [] = Some ([], q)"
| "run q (Put d # ops) =
     (if length (content q) + length d \<le> cap q
      then Option.bind (put q d) (\<lambda>q'. run q' ops) else None)"
| "run q (Get n # ops) =
     (if 0 < n then Option.bind (get q n) (\<lambda>(d, q'). map_option (\<lambda>(out, q''). (d @ out, q'')) (run q' ops))
      else None)"

text \<open>First in, first out: what comes out is a prefix of what went in, and the rest is still there.\<close>

lemma run_fifo:
  "inv q \<Longrightarrow> run q ops = Some (out, q') \<Longrightarrow>
   inv q' \<and> cap q' = cap q \<and> out @ content q' = content q @ put_bytes ops"
proof (induction ops arbitrary: q out)
  case Nil
  then show ?case by simp
next
  case (Cons op ops)
  show ?case
  proof (cases op)
    case (Put d)
    with Cons.prems have fit: "length (content q) + length d \<le> cap q"
      by (auto split: if_splits)
    obtain q1 where q1: "put q d = Some q1" "inv q1" "content q1 = content q @ d" "cap q1 = cap q"
      using putE [OF Cons.prems(1) fit] .
    with Put fit Cons.prems(2) have "run q1 ops = Some (out, q')" by simp
    from Cons.IH [OF q1(2) this] q1 Put show ?thesis by simp
  next
    case (Get n)
    with Cons.prems have n: "0 < n" "n \<le> length (content q)"
      using get_short [OF Cons.prems(1), of n] by (auto split: if_splits simp: not_less [symmetric])
    obtain q1 where q1: "get q n = Some (take n (content q), q1)" "inv q1"
      "content q1 = drop n (content q)" "cap q1 = cap q"
      using getE [OF Cons.prems(1) n] .
    with Get n Cons.prems(2) obtain o1 where r: "run q1 ops = Some (o1, q')" and o: "out = take n (content q) @ o1"
      by auto
    from Cons.IH [OF q1(2) r] q1 Get o show ?thesis by simp
  qed
qed

text \<open>A record of a header and a payload, put back to back, comes out as it went in.\<close>

lemma record_roundtrip:
  assumes q: "inv q" and emp: "content q = []" and fit: "length h + length d \<le> cap q"
    and ne: "h \<noteq> []" "d \<noteq> []"
  shows "\<exists>q1 q2 q3 q4. put q h = Some q1 \<and> put q1 d = Some q2 \<and>
      get q2 (length h) = Some (h, q3) \<and> get q3 (length d) = Some (d, q4) \<and> inv q4 \<and> content q4 = []"
proof -
  obtain q1 where q1: "put q h = Some q1" "inv q1" "content q1 = h" "cap q1 = cap q"
    using putE [OF q, of h] emp fit by auto
  obtain q2 where q2: "put q1 d = Some q2" "inv q2" "content q2 = h @ d"
    using putE [OF q1(2), of d] q1 fit by auto
  obtain q3 where q3: "get q2 (length h) = Some (h, q3)" "inv q3" "content q3 = d"
    using getE [OF q2(2), of "length h"] q2(3) ne by auto
  obtain q4 where "get q3 (length d) = Some (d, q4)" "inv q4" "content q4 = []"
    using getE [OF q3(2), of "length d"] q3(3) ne by auto
  with q1 q2 q3 show ?thesis by blast
qed

end

text \<open>A queue that also refuses every put that does not fit.\<close>

locale strict_byte_queue = byte_queue +
  assumes put_full: "inv q \<Longrightarrow> cap q < length (content q) + length d \<Longrightarrow> put q d = None"
begin

lemma put_iff: "inv q \<Longrightarrow> put q d \<noteq> None \<longleftrightarrow> length (content q) + length d \<le> cap q"
  using put_full [of q d] put_ok [of q d] by (metis linorder_not_less option.discI)

lemma put_bounded: "inv q \<Longrightarrow> put q d = Some q' \<Longrightarrow> length (content q') \<le> cap q'"
  using put_full [of q d] put_ok [of q d] by (metis length_append linorder_not_less option.discI option.inject)

end

end
