(* ===== verification/Fifo.thy ===== *)
theory Fifo
  imports Byte_Queue
begin

text \<open>
  The in-process FIFO of \<open>fifo.c\<close>. A call holds \<open>fifo->mutex\<close> for its whole critical section, so
  each critical section is one function here; where the code waits on a condition variable the
  function answers \<open>CondWait\<close> and the loop body is the function that a wake-up runs again.
  The results of the pthread calls are an argument \<open>os\<close>, one result for each call site; the two
  error-checking mutexes that outlive a call are part of the state with their owners.
\<close>

section \<open>State\<close>

type_synonym tid = nat

record fifo =
  fbuf :: "byte list"
  nextWrite :: nat
  nbytes :: nat
  nreserved :: nat
  fsize :: nat
  writeMutex :: "tid option"
  readMutex :: "tid option"
  closeIfEmpty :: int

text \<open>The pthread call sites of the file, and what they return (0 is success).\<close>

datatype pcall =
  MutexAttrInit | InitWriteMutex | InitReadMutex | InitMutex | InitReadCond | InitWriteCond
  | LockWrite | LockRead | LockMutex | SignalRead | SignalWrite | WaitRead | WaitWrite | UnlockWrite

type_synonym pthr = "pcall \<Rightarrow> int"

definition all_ok :: pthr where
  "all_ok = (\<lambda>_. 0)"

lemma all_ok_apply [simp]: "all_ok c = 0"
  by (simp add: all_ok_def)

definition EDEADLK :: int where "EDEADLK = 35"
definition EPERM :: int where "EPERM = 1"

text \<open>Error-checking mutexes: \<open>None\<close> is a caller that blocks.\<close>

definition mutex_lock :: "int \<Rightarrow> tid \<Rightarrow> tid option \<Rightarrow> (int \<times> tid option) option" where
  "mutex_lock res t owner =
     (if res \<noteq> 0 then Some (res, owner)
      else case owner of None \<Rightarrow> Some (0, Some t)
           | Some u \<Rightarrow> if u = t then Some (EDEADLK, owner) else None)"

definition mutex_unlock :: "int \<Rightarrow> tid \<Rightarrow> tid option \<Rightarrow> int \<times> tid option" where
  "mutex_unlock res t owner =
     (if res \<noteq> 0 then (res, owner)
      else if owner = Some t then (0, None) else (EPERM, owner))"

text \<open>What a blocking call does: return, wait on a condition variable, wait for a mutex, or fault.\<close>

datatype 'r outcome = Done 'r fifo | CondWait fifo | LockWait | Fault

section \<open>Creation\<close>

datatype pobj = MutexAttr | WriteMutex | ReadMutex | Mutex | ReadCond | WriteCond

text \<open>
  \<open>initializeFifo\<close> returns the status, the pthread objects that are still initialised when it
  returns, and the FIFO when it succeeds.
\<close>

definition initializeFifo :: "pthr \<Rightarrow> byte list \<Rightarrow> nat \<Rightarrow> int \<times> pobj list \<times> fifo option" where
  "initializeFifo os buf sz =
     (if os MutexAttrInit \<noteq> 0 then (2, [], None)
      else if os InitWriteMutex \<noteq> 0 then (2, [], None)
      else if os InitReadMutex \<noteq> 0 then (2, [], None)
      else if os InitMutex \<noteq> 0 then (2, [ReadMutex], None)
      else if os InitReadCond \<noteq> 0 then (2, [ReadMutex], None)
      else if os InitWriteCond \<noteq> 0 then (2, [ReadMutex], None)
      else (0, [WriteMutex, ReadMutex, Mutex, ReadCond, WriteCond],
            Some \<lparr>fbuf = buf, nextWrite = 0, nbytes = 0, nreserved = 0, fsize = sz,
                  writeMutex = None, readMutex = None, closeIfEmpty = 0\<rparr>))"

text \<open>
  \<open>fifoNew\<close>: \<open>malloc f\<close> and \<open>malloc b\<close> are the results of the two allocations (\<open>None\<close> is NULL, a
  buffer comes with its indeterminate contents).
\<close>

definition fifoNew :: "pthr \<Rightarrow> bool \<Rightarrow> (nat \<Rightarrow> byte list option) \<Rightarrow> nat \<Rightarrow> nat \<Rightarrow> int \<times> fifo option" where
  "fifoNew os mallocF mallocB pagesize npages =
     (if \<not> mallocF then (2, None)
      else let size = (npages * pagesize) mod 2 ^ 64
           in case mallocB size of
                None \<Rightarrow> (2, None)
              | Some buf \<Rightarrow> (case initializeFifo os buf size of (st, live, f) \<Rightarrow> (st, f)))"

section \<open>Writing\<close>

text \<open>
  One evaluation of the wait loop of \<open>fifoWriteReserve\<close>, with \<open>writeMutex\<close> and \<open>mutex\<close> held. The
  reserved region is its offset in the buffer and the size stored through \<open>size\<close>.
\<close>

definition write_wait :: "pthr \<Rightarrow> tid \<Rightarrow> fifo \<Rightarrow> nat \<Rightarrow> (int \<times> (nat \<times> nat) option) outcome" where
  "write_wait os t f n =
     (let released = f\<lparr>writeMutex := snd (mutex_unlock (os UnlockWrite) t (writeMutex f))\<rparr>
      in if closeIfEmpty f \<noteq> 0 \<and> nbytes f = 0 then Done (3, None) released
         else if n \<le> sz_sub (fsize f) (nbytes f)
         then Done (0, Some (nextWrite f, sz_sub (fsize f) (nextWrite f))) (f\<lparr>nreserved := n\<rparr>)
         else if os WaitWrite \<noteq> 0 then Done (2, None) released
         else CondWait f)"

definition fifoWriteReserve :: "pthr \<Rightarrow> tid \<Rightarrow> fifo \<Rightarrow> nat \<Rightarrow> (int \<times> (nat \<times> nat) option) outcome" where
  "fifoWriteReserve os t f n =
     (if fsize f < n then Done (1, None) f
      else case mutex_lock (os LockWrite) t (writeMutex f) of
             None \<Rightarrow> LockWait
           | Some (st, w) \<Rightarrow>
               if st \<noteq> 0 then Done (2, None) f
               else let f1 = f\<lparr>writeMutex := w\<rparr>
                    in if os LockMutex \<noteq> 0
                       then Done (2, None)
                              (f1\<lparr>writeMutex := snd (mutex_unlock (os UnlockWrite) t (writeMutex f1))\<rparr>)
                       else write_wait os t f1 n)"

text \<open>The update shared by \<open>fifoWriteUpdate\<close> and \<open>fifoCopy\<close>, after the signal has been sent.\<close>

definition commit :: "pthr \<Rightarrow> tid \<Rightarrow> fifo \<Rightarrow> nat \<Rightarrow> int \<times> fifo" where
  "commit os t f n =
     (case mutex_unlock (os UnlockWrite) t (writeMutex f) of
        (st, w) \<Rightarrow>
          (if st \<noteq> 0 then 1 else 0,
           f\<lparr>nextWrite := sz_add (nextWrite f) n mod fsize f, nbytes := sz_add (nbytes f) n,
             nreserved := 0, writeMutex := w\<rparr>))"

definition fifoWriteUpdate :: "pthr \<Rightarrow> tid \<Rightarrow> fifo \<Rightarrow> nat \<Rightarrow> int \<times> fifo" where
  "fifoWriteUpdate os t f n =
     (if os LockMutex \<noteq> 0 then (2, f)
      else if nreserved f < n then (1, f)
      else if os SignalRead \<noteq> 0 then (2, f)
      else commit os t f n)"

definition fifoCopy :: "pthr \<Rightarrow> tid \<Rightarrow> fifo \<Rightarrow> byte list \<Rightarrow> (int \<times> fifo) option" where
  "fifoCopy os t f d =
     (if os LockMutex \<noteq> 0 then Some (2, f)
      else if nreserved f < length d then Some (1, f)
      else let avail = sz_sub (fsize f) (nextWrite f);
               n = (if avail < length d then avail else length d)
           in do {
                b1 \<leftarrow> mem_write (fbuf f) (nextWrite f) (take n d);
                b2 \<leftarrow> (if n < length d then mem_write b1 0 (drop n d) else Some b1);
                let f1 = f\<lparr>fbuf := b2\<rparr>;
                if os SignalRead \<noteq> 0 then Some (2, f1) else Some (commit os t f1 (length d))
              })"

section \<open>Reading and closing\<close>

definition fifo_take :: "fifo \<Rightarrow> nat \<Rightarrow> (byte list \<times> fifo) option" where
  "fifo_take f n =
     (let r0 = s64 (int (nextWrite f) - int (nbytes f));
          r = (if r0 < 0 then s64 (r0 + int (fsize f)) else r0);
          avail = sz_sub (fsize f) (to_size r);
          k = (if avail < n then avail else n)
      in do {
           d1 \<leftarrow> mem_read (fbuf f) (to_size r) k;
           d2 \<leftarrow> (if k < n then mem_read (fbuf f) 0 (n - k) else Some []);
           Some (d1 @ d2, f\<lparr>nbytes := sz_sub (nbytes f) n\<rparr>)
         })"

text \<open>One evaluation of the wait loop of \<open>fifoRead\<close>, with \<open>readMutex\<close> and \<open>mutex\<close> held.\<close>

definition read_wait :: "pthr \<Rightarrow> tid \<Rightarrow> fifo \<Rightarrow> nat \<Rightarrow> (int \<times> byte list option) outcome" where
  "read_wait os t f n =
     (let released = (\<lambda>g. g\<lparr>readMutex := snd (mutex_unlock 0 t (readMutex g))\<rparr>)
      in if closeIfEmpty f \<noteq> 0 \<and> nbytes f = 0 then Done (3, None) (released f)
         else if n \<le> nbytes f
         then if os SignalWrite \<noteq> 0 then Done (2, None) (released f)
              else (case fifo_take f n of
                      None \<Rightarrow> Fault
                    | Some (d, f1) \<Rightarrow> Done (0, Some d) (released f1))
         else if os WaitRead \<noteq> 0 then Done (2, None) (released f)
         else CondWait f)"

definition fifoRead :: "pthr \<Rightarrow> tid \<Rightarrow> fifo \<Rightarrow> nat \<Rightarrow> (int \<times> byte list option) outcome" where
  "fifoRead os t f n =
     (if fsize f < n then Done (1, None) f
      else case mutex_lock (os LockRead) t (readMutex f) of
             None \<Rightarrow> LockWait
           | Some (st, w) \<Rightarrow>
               if st \<noteq> 0 then Done (2, None) f
               else let f1 = f\<lparr>readMutex := w\<rparr>
                    in if os LockMutex \<noteq> 0
                       then Done (2, None) (f1\<lparr>readMutex := snd (mutex_unlock 0 t (readMutex f1))\<rparr>)
                       else read_wait os t f1 n)"

text \<open>The second signal's result overwrites the first one's, as in the code.\<close>

definition fifoCloseWhenEmpty :: "pthr \<Rightarrow> fifo \<Rightarrow> int \<times> fifo" where
  "fifoCloseWhenEmpty os f =
     (if os LockMutex \<noteq> 0 then (2, f)
      else let f1 = f\<lparr>closeIfEmpty := 1\<rparr>;
               st = (if os SignalWrite \<noteq> 0 then (2::int) else 0);
               st = (if os SignalRead \<noteq> 0 then 2 else 0)
           in (st, f1))"


section \<open>Invariant and abstraction\<close>

definition fifo_inv :: "fifo \<Rightarrow> bool" where
  "fifo_inv f \<longleftrightarrow> length (fbuf f) = fsize f \<and> 0 < fsize f \<and> fsize f < 2 ^ 63 \<and>
     nextWrite f < fsize f \<and> nbytes f + nreserved f \<le> fsize f"

definition read_pos :: "fifo \<Rightarrow> nat" where
  "read_pos f = (nextWrite f + fsize f - nbytes f) mod fsize f"

text \<open>The bytes in the FIFO, oldest first.\<close>

definition fifo_content :: "fifo \<Rightarrow> byte list" where
  "fifo_content f = ring_list (fbuf f) (read_pos f) (nbytes f)"

lemma length_fifo_content [simp]: "length (fifo_content f) = nbytes f"
  by (simp add: fifo_content_def)

lemma fifo_invD:
  assumes "fifo_inv f"
  shows "length (fbuf f) = fsize f" "0 < fsize f" "nextWrite f < fsize f"
    "nbytes f + nreserved f \<le> fsize f" "nbytes f \<le> fsize f" "fsize f < 2 ^ 63" "fsize f < 2 ^ 64"
  using assms by (auto simp: fifo_inv_def)

lemma fifo_frame [simp]:
  "fifo_content (f\<lparr>writeMutex := w\<rparr>) = fifo_content f"
  "fifo_content (f\<lparr>readMutex := w\<rparr>) = fifo_content f"
  "fifo_content (f\<lparr>nreserved := n\<rparr>) = fifo_content f"
  "fifo_content (f\<lparr>closeIfEmpty := c\<rparr>) = fifo_content f"
  "fifo_inv (f\<lparr>writeMutex := w\<rparr>) = fifo_inv f"
  "fifo_inv (f\<lparr>readMutex := w\<rparr>) = fifo_inv f"
  "fifo_inv (f\<lparr>closeIfEmpty := c\<rparr>) = fifo_inv f"
  by (simp_all add: fifo_content_def read_pos_def fifo_inv_def)

lemma free_space [csize]: "fifo_inv f \<Longrightarrow> sz_sub (fsize f) (nbytes f) = fsize f - nbytes f"
  by (rule sz_sub_eq) (auto dest: fifo_invD)

lemma tail_space [csize]: "fifo_inv f \<Longrightarrow> sz_sub (fsize f) (nextWrite f) = fsize f - nextWrite f"
  by (rule sz_sub_eq) (auto dest: fifo_invD(3) fifo_invD(7))

lemma read_pos_lt: "fifo_inv f \<Longrightarrow> read_pos f < fsize f"
  by (simp add: read_pos_def fifo_inv_def)

lemma write_pos: "fifo_inv f \<Longrightarrow> (read_pos f + nbytes f) mod fsize f = nextWrite f"
  using fifo_invD [of f] by (simp add: read_pos_def mod_simps)

text \<open>What \<open>fifo_take\<close> computes through \<open>ssize_t\<close> arithmetic is the read position.\<close>

lemma fifo_take_eq:
  assumes f: "fifo_inv f" and n: "n \<le> nbytes f"
  shows "fifo_take f n = Some (take n (fifo_content f), f\<lparr>nbytes := nbytes f - n\<rparr>)"
proof -
  note b = fifo_invD [OF f]
  let ?r0 = "int (nextWrite f) - int (nbytes f)"
  have r0: "s64 ?r0 = ?r0"
    using b by (intro s64_id) auto
  have rp: "int (read_pos f) = (if ?r0 < 0 then ?r0 + int (fsize f) else ?r0)"
    using b by (auto simp: read_pos_def mod_if)
  have r1: "(if ?r0 < 0 then s64 (?r0 + int (fsize f)) else ?r0) = int (read_pos f)"
    using b unfolding rp by (auto intro: s64_id)
  have pos: "to_size (int (read_pos f)) = read_pos f"
    using read_pos_lt [OF f] b by (subst to_size_id) auto
  have av: "sz_sub (fsize f) (read_pos f) = fsize f - read_pos f"
    using read_pos_lt [OF f] b by (intro sz_sub_eq) auto
  have sub: "sz_sub (nbytes f) n = nbytes f - n"
    using n b by (intro sz_sub_eq) auto
  have get: "take n (fifo_content f) = ring_get (fbuf f) (read_pos f) n"
    using n read_pos_lt [OF f] b by (simp add: fifo_content_def ring ring_get_eq)
  show ?thesis
    using n b read_pos_lt [OF f]
    unfolding fifo_take_def Let_def r0 r1 pos av sub get ring_get_def
    by (auto simp: mem_read_def min_def)
qed

lemma content_after_take:
  assumes f: "fifo_inv f" and n: "n \<le> nbytes f"
  shows "fifo_content (f\<lparr>nbytes := nbytes f - n\<rparr>) = drop n (fifo_content f)"
proof -
  note b = fifo_invD [OF f]
  have "(nextWrite f + fsize f - (nbytes f - n)) mod fsize f = (read_pos f + n) mod fsize f"
    using n b by (simp add: read_pos_def mod_simps)
  then have "ring_list (fbuf f) ((nextWrite f + fsize f - (nbytes f - n)) mod fsize f) (nbytes f - n) =
      ring_list (fbuf f) (read_pos f + n) (nbytes f - n)"
    using ring_list_mod [of "fbuf f" "read_pos f + n"] b(1) by simp
  then show ?thesis
    by (simp add: fifo_content_def read_pos_def ring)
qed

lemma inv_after_take: "fifo_inv f \<Longrightarrow> fifo_inv (f\<lparr>nbytes := nbytes f - n\<rparr>)"
  by (auto simp: fifo_inv_def)


section \<open>What the operations do\<close>

text \<open>Advancing the write position over bytes already placed in the ring.\<close>

lemma commit_eq:
  assumes f: "fifo_inv f" and n: "n \<le> nreserved f"
  shows "commit os t f n =
    (let u = mutex_unlock (os UnlockWrite) t (writeMutex f)
     in (if fst u \<noteq> 0 then 1 else 0,
         f\<lparr>nextWrite := (nextWrite f + n) mod fsize f, nbytes := nbytes f + n,
           nreserved := 0, writeMutex := snd u\<rparr>))"
  using fifo_invD [OF f] n by (simp add: commit_def csize Let_def split: prod.splits)

lemma ring_advance:
  assumes f: "fifo_inv f" and d: "length d \<le> nreserved f"
  defines "f' \<equiv> f\<lparr>fbuf := ring_put (fbuf f) (nextWrite f) d,
    nextWrite := (nextWrite f + length d) mod fsize f, nbytes := nbytes f + length d, nreserved := 0\<rparr>"
  shows "fifo_inv f'" "fifo_content f' = fifo_content f @ d"
proof -
  note b = fifo_invD [OF f]
  show inv: "fifo_inv f'"
    using b d by (auto simp: fifo_inv_def f'_def)
  have "(nextWrite f + length d) mod fsize f =
      (if nextWrite f + length d < fsize f then nextWrite f + length d else nextWrite f + length d - fsize f)"
    using b d by (auto simp: mod_if)
  then have "read_pos f' = read_pos f"
    using b d by (auto simp: read_pos_def f'_def mod_if)
  moreover have "fsize f' = fsize f" "fbuf f' = ring_put (fbuf f) (nextWrite f) d"
    "nbytes f' = nbytes f + length d"
    by (simp_all add: f'_def)
  ultimately show "fifo_content f' = fifo_content f @ d"
    using ring_put_append [of "read_pos f" "fbuf f" "nbytes f" d] b d read_pos_lt [OF f]
    by (simp add: fifo_content_def write_pos [OF f])
qed

text \<open>The two bounds-checked copies of \<open>fifoCopy\<close> are the ring write.\<close>

lemma fifoCopy_eq:
  assumes f: "fifo_inv f" and d: "length d \<le> nreserved f"
    and ok: "os LockMutex = 0" "os SignalRead = 0"
  shows "fifoCopy os t f d =
    Some (commit os t (f\<lparr>fbuf := ring_put (fbuf f) (nextWrite f) d\<rparr>) (length d))"
proof -
  note b = fifo_invD [OF f]
  have av: "sz_sub (fsize f) (nextWrite f) = fsize f - nextWrite f"
    using b by (intro sz_sub_eq) auto
  show ?thesis
  proof (cases "fsize f - nextWrite f < length d")
    case True
    with b d ok show ?thesis
      by (auto simp: fifoCopy_def av Let_def mem_write_def ring_put_def min_def)
  next
    case False
    with b d ok show ?thesis
      by (auto simp: fifoCopy_def av Let_def mem_write_def ring_put_def min_def)
  qed
qed

lemma fifoCopy_ok:
  assumes f: "fifo_inv f" and d: "length d \<le> nreserved f"
    and ok: "os LockMutex = 0" "os SignalRead = 0"
  shows "\<exists>f'. fifoCopy os t f d = Some (if fst (mutex_unlock (os UnlockWrite) t (writeMutex f)) \<noteq> 0 then 1 else 0, f') \<and>
    fifo_inv f' \<and> fifo_content f' = fifo_content f @ d \<and> fsize f' = fsize f \<and>
    nbytes f' = nbytes f + length d \<and> closeIfEmpty f' = closeIfEmpty f \<and> readMutex f' = readMutex f \<and>
    writeMutex f' = snd (mutex_unlock (os UnlockWrite) t (writeMutex f)) \<and> nreserved f' = 0"
proof -
  note b = fifo_invD [OF f]
  let ?g = "f\<lparr>fbuf := ring_put (fbuf f) (nextWrite f) d\<rparr>"
  let ?h = "?g\<lparr>nextWrite := (nextWrite f + length d) mod fsize f, nbytes := nbytes f + length d, nreserved := 0\<rparr>"
  have g: "fifo_inv ?g"
    using b d f by (auto simp: fifo_inv_def)
  have h: "fifo_inv ?h" "fifo_content ?h = fifo_content f @ d"
    using ring_advance [OF f d] by simp_all
  have "fifoCopy os t f d =
      Some (if fst (mutex_unlock (os UnlockWrite) t (writeMutex f)) \<noteq> 0 then 1 else 0,
            ?h\<lparr>writeMutex := snd (mutex_unlock (os UnlockWrite) t (writeMutex f))\<rparr>)"
    using fifoCopy_eq [of f d os t] commit_eq [OF g, of "length d" os t] f d ok by (simp add: Let_def)
  with h show ?thesis by (intro exI conjI) (assumption | simp)+
qed

text \<open>
  Writing straight into a reserved region that does not wrap and then calling \<open>fifoWriteUpdate\<close>,
  as \<open>reader.c\<close> does when the region is big enough.
\<close>

lemma ring_put_blit:
  "e + length d \<le> length b \<Longrightarrow> ring_put b e d = blit b e d"
  by (cases "e \<le> length b") (auto simp: ring_put_def Let_def min_def)

lemma fifoWriteUpdate_ok:
  assumes f: "fifo_inv f" and d: "length d \<le> nreserved f" "nextWrite f + length d \<le> fsize f"
    and ok: "os LockMutex = 0" "os SignalRead = 0"
  shows "\<exists>f'. fifoWriteUpdate os t (f\<lparr>fbuf := blit (fbuf f) (nextWrite f) d\<rparr>) (length d) =
      (if fst (mutex_unlock (os UnlockWrite) t (writeMutex f)) \<noteq> 0 then 1 else 0, f') \<and>
    fifo_inv f' \<and> fifo_content f' = fifo_content f @ d \<and> fsize f' = fsize f \<and>
    closeIfEmpty f' = closeIfEmpty f \<and> readMutex f' = readMutex f \<and>
    writeMutex f' = snd (mutex_unlock (os UnlockWrite) t (writeMutex f))"
proof -
  have "fifoCopy os t f d =
      Some (fifoWriteUpdate os t (f\<lparr>fbuf := blit (fbuf f) (nextWrite f) d\<rparr>) (length d))"
    using fifoCopy_eq [OF f d(1) ok, of t] ring_put_blit [of "nextWrite f" d "fbuf f"] d ok fifo_invD(1) [OF f]
    by (simp add: fifoWriteUpdate_def)
  moreover obtain f' where "fifoCopy os t f d =
      Some (if fst (mutex_unlock (os UnlockWrite) t (writeMutex f)) \<noteq> 0 then 1 else 0, f')"
    "fifo_inv f'" "fifo_content f' = fifo_content f @ d" "fsize f' = fsize f"
    "closeIfEmpty f' = closeIfEmpty f" "readMutex f' = readMutex f"
    "writeMutex f' = snd (mutex_unlock (os UnlockWrite) t (writeMutex f))"
    using fifoCopy_ok [OF f d(1) ok, of t] by blast
  ultimately show ?thesis by (intro exI [of _ f']) simp
qed

lemma write_wait_cases:
  assumes f: "fifo_inv f"
  shows "write_wait os t f n =
    (let released = f\<lparr>writeMutex := snd (mutex_unlock (os UnlockWrite) t (writeMutex f))\<rparr>
     in if closeIfEmpty f \<noteq> 0 \<and> nbytes f = 0 then Done (3, None) released
        else if nbytes f + n \<le> fsize f
        then Done (0, Some (nextWrite f, fsize f - nextWrite f)) (f\<lparr>nreserved := n\<rparr>)
        else if os WaitWrite \<noteq> 0 then Done (2, None) released else CondWait f)"
proof -
  have "n \<le> fsize f - nbytes f \<longleftrightarrow> nbytes f + n \<le> fsize f"
    using fifo_invD(5) [OF f] by auto
  then show ?thesis
    unfolding write_wait_def Let_def free_space [OF f] tail_space [OF f] by simp
qed

lemma read_wait_cases:
  assumes f: "fifo_inv f"
  shows "read_wait os t f n =
    (let released = (\<lambda>g. g\<lparr>readMutex := snd (mutex_unlock 0 t (readMutex g))\<rparr>)
     in if closeIfEmpty f \<noteq> 0 \<and> nbytes f = 0 then Done (3, None) (released f)
        else if n \<le> nbytes f
        then if os SignalWrite \<noteq> 0 then Done (2, None) (released f)
             else Done (0, Some (take n (fifo_content f))) (released (f\<lparr>nbytes := nbytes f - n\<rparr>))
        else if os WaitRead \<noteq> 0 then Done (2, None) (released f) else CondWait f)"
  by (simp add: read_wait_def fifo_take_eq f Let_def)


section \<open>The FIFO as a byte queue\<close>

text \<open>
  A client's write is \<open>fifoWriteReserve\<close> followed by \<open>fifoCopy\<close>, its read is \<open>fifoRead\<close>. With
  nobody holding a lock and pthread calls that succeed they satisfy the queue contract; a call that
  would block is \<open>None\<close>.
\<close>

definition idle :: "fifo \<Rightarrow> bool" where
  "idle f \<longleftrightarrow> fifo_inv f \<and> writeMutex f = None \<and> readMutex f = None \<and> closeIfEmpty f = 0"

definition fifo_put :: "fifo \<Rightarrow> byte list \<Rightarrow> fifo option" where
  "fifo_put f d =
     (case fifoWriteReserve all_ok 1 f (length d) of
        Done (st, Some r) f1 \<Rightarrow>
          (case fifoCopy all_ok 1 f1 d of Some (st', f2) \<Rightarrow> if st' = 0 then Some f2 else None | None \<Rightarrow> None)
      | _ \<Rightarrow> None)"

definition fifo_get :: "fifo \<Rightarrow> nat \<Rightarrow> (byte list \<times> fifo) option" where
  "fifo_get f n =
     (case fifoRead all_ok 2 f n of Done (st, Some d) f1 \<Rightarrow> Some (d, f1) | _ \<Rightarrow> None)"

lemma fifo_put_ok:
  assumes "idle f" and fit: "nbytes f + length d \<le> fsize f"
  shows "\<exists>f'. fifo_put f d = Some f' \<and> idle f' \<and> fifo_content f' = fifo_content f @ d \<and> fsize f' = fsize f"
proof -
  from assms(1) have f: "fifo_inv f" and w: "writeMutex f = None" "readMutex f = None" "closeIfEmpty f = 0"
    by (auto simp: idle_def)
  let ?f1 = "f\<lparr>writeMutex := Some 1, nreserved := length d\<rparr>"
  have i1: "fifo_inv ?f1"
    using f fit by (auto simp: fifo_inv_def)
  have c1: "fifo_content ?f1 = fifo_content f"
    by (simp add: fifo_content_def read_pos_def)
  have "fifoWriteReserve all_ok 1 f (length d) = Done (0, Some (nextWrite f, fsize f - nextWrite f)) ?f1"
    using fit w f write_wait_cases [of "f\<lparr>writeMutex := Some 1\<rparr>" all_ok 1 "length d"]
    by (simp add: fifoWriteReserve_def mutex_lock_def Let_def)
  moreover obtain f' where "fifoCopy all_ok 1 ?f1 d = Some (0, f')" "fifo_inv f'"
    "fifo_content f' = fifo_content f @ d" "fsize f' = fsize f" "closeIfEmpty f' = 0"
    "readMutex f' = None" "writeMutex f' = None"
    using fifoCopy_ok [OF i1, of d all_ok 1] w c1 by (auto simp: mutex_unlock_def)
  ultimately show ?thesis
    by (intro exI [of _ f']) (simp add: fifo_put_def idle_def)
qed

lemma fifo_put_full: "idle f \<Longrightarrow> fsize f < nbytes f + length d \<Longrightarrow> fifo_put f d = None"
  using write_wait_cases [of "f\<lparr>writeMutex := Some 1\<rparr>" all_ok 1 "length d"]
  by (auto simp: fifo_put_def fifoWriteReserve_def mutex_lock_def idle_def Let_def)

lemma fifo_get_ok:
  assumes "idle f" and n: "n \<le> nbytes f"
  shows "\<exists>f'. fifo_get f n = Some (take n (fifo_content f), f') \<and> idle f' \<and>
    fifo_content f' = drop n (fifo_content f) \<and> fsize f' = fsize f"
proof -
  from assms(1) have f: "fifo_inv f" and w: "writeMutex f = None" "readMutex f = None" "closeIfEmpty f = 0"
    by (auto simp: idle_def)
  let ?f1 = "f\<lparr>nbytes := nbytes f - n\<rparr>"
  have "fifoRead all_ok 2 f n = Done (0, Some (take n (fifo_content f))) (?f1\<lparr>readMutex := None\<rparr>)"
    using n w f fifo_invD(5) [OF f] read_wait_cases [of "f\<lparr>readMutex := Some 2\<rparr>" all_ok 2 n]
    by (simp add: fifoRead_def mutex_lock_def mutex_unlock_def Let_def)
  moreover have "fifo_content ?f1 = drop n (fifo_content f)" "fifo_inv ?f1"
    using content_after_take [OF f n] inv_after_take [OF f] by simp_all
  ultimately show ?thesis
    using w by (intro exI [of _ "?f1\<lparr>readMutex := None\<rparr>"]) (simp add: fifo_get_def idle_def)
qed

lemma fifo_get_short: "idle f \<Longrightarrow> nbytes f < n \<Longrightarrow> fifo_get f n = None"
  using read_wait_cases [of "f\<lparr>readMutex := Some 2\<rparr>" all_ok 2 n]
  by (auto simp: fifo_get_def fifoRead_def mutex_lock_def mutex_unlock_def idle_def Let_def)

interpretation fq: strict_byte_queue idle fifo_content fsize fifo_put fifo_get
  by unfold_locales (simp_all add: fifo_put_ok fifo_put_full fifo_get_ok fifo_get_short)

end
