(* ===== verification/Fifo_Threads.thy ===== *)
theory Fifo_Threads
  imports Fifo
begin

text \<open>
  Any number of threads sharing one FIFO of \<open>fifo.c\<close>: each is idle, waits on a condition variable
  inside \<open>fifoWriteReserve\<close> or \<open>fifoRead\<close>, or holds a reservation. A step is one critical section
  of one thread, in any order; \<open>written\<close> and \<open>consumed\<close> are the bytes committed and the bytes
  returned so far. The pthread calls succeed here (\<open>all_ok\<close>); waiting and spurious wake-ups are
  steps of their own.
\<close>

datatype fpc = Idle | WaitW nat | Reserved nat nat | WaitR nat

record fsys =
  ff :: fifo
  pcs :: "tid \<Rightarrow> fpc"
  written :: "byte list"
  consumed :: "byte list"

definition init_fsys :: "byte list \<Rightarrow> fsys" where
  "init_fsys buf = \<lparr>ff = \<lparr>fbuf = buf, nextWrite = 0, nbytes = 0, nreserved = 0, fsize = length buf,
      writeMutex = None, readMutex = None, closeIfEmpty = 0\<rparr>,
    pcs = (\<lambda>_. Idle), written = [], consumed = []\<rparr>"

text \<open>Where a thread is after (a part of) \<open>fifoWriteReserve\<close>, and after (a part of) \<open>fifoRead\<close>.\<close>

fun after_reserve :: "nat \<Rightarrow> (int \<times> (nat \<times> nat) option) outcome \<Rightarrow> (fpc \<times> fifo) option" where
  "after_reserve n (Done (st, Some (off, sz)) f) = Some (Reserved n sz, f)"
| "after_reserve n (Done (st, None) f) = Some (Idle, f)"
| "after_reserve n (CondWait f) = Some (WaitW n, f)"
| "after_reserve n LockWait = None"
| "after_reserve n Fault = None"

fun after_read :: "nat \<Rightarrow> (int \<times> byte list option) outcome \<Rightarrow> (fpc \<times> byte list \<times> fifo) option" where
  "after_read n (Done (st, Some d) f) = Some (Idle, d, f)"
| "after_read n (Done (st, None) f) = Some (Idle, [], f)"
| "after_read n (CondWait f) = Some (WaitR n, [], f)"
| "after_read n LockWait = None"
| "after_read n Fault = None"

inductive fstep :: "fsys \<Rightarrow> fsys \<Rightarrow> bool" where
  reserve: "pcs s t = Idle \<Longrightarrow> after_reserve n (fifoWriteReserve all_ok t (ff s) n) = Some (p, f) \<Longrightarrow>
    fstep s (s\<lparr>ff := f, pcs := (pcs s)(t := p)\<rparr>)"
| wake_w: "pcs s t = WaitW n \<Longrightarrow> after_reserve n (write_wait all_ok t (ff s) n) = Some (p, f) \<Longrightarrow>
    fstep s (s\<lparr>ff := f, pcs := (pcs s)(t := p)\<rparr>)"
| copy: "pcs s t = Reserved n sz \<Longrightarrow> fifoCopy all_ok t (ff s) d = Some (0, f) \<Longrightarrow>
    fstep s (s\<lparr>ff := f, pcs := (pcs s)(t := Idle), written := written s @ d\<rparr>)"
| update: "pcs s t = Reserved n sz \<Longrightarrow> length d \<le> sz \<Longrightarrow>
    fifoWriteUpdate all_ok t ((ff s)\<lparr>fbuf := blit (fbuf (ff s)) (nextWrite (ff s)) d\<rparr>) (length d) = (0, f) \<Longrightarrow>
    fstep s (s\<lparr>ff := f, pcs := (pcs s)(t := Idle), written := written s @ d\<rparr>)"
| read: "pcs s t = Idle \<Longrightarrow> after_read n (fifoRead all_ok t (ff s) n) = Some (p, d, f) \<Longrightarrow>
    fstep s (s\<lparr>ff := f, pcs := (pcs s)(t := p), consumed := consumed s @ d\<rparr>)"
| wake_r: "pcs s t = WaitR n \<Longrightarrow> after_read n (read_wait all_ok t (ff s) n) = Some (p, d, f) \<Longrightarrow>
    fstep s (s\<lparr>ff := f, pcs := (pcs s)(t := p), consumed := consumed s @ d\<rparr>)"
| close: "fifoCloseWhenEmpty all_ok (ff s) = (st, f) \<Longrightarrow> fstep s (s\<lparr>ff := f\<rparr>)"

inductive freach :: "byte list \<Rightarrow> fsys \<Rightarrow> bool" for buf where
  start: "freach buf (init_fsys buf)"
| step: "freach buf s \<Longrightarrow> fstep s s' \<Longrightarrow> freach buf s'"

text \<open>
  The invariant that makes the first-in-first-out property inductive: who holds which mutex, and
  what a reservation still guarantees after the readers have moved on.
\<close>

definition writing :: "fpc \<Rightarrow> bool" where
  "writing p \<longleftrightarrow> (case p of WaitW _ \<Rightarrow> True | Reserved _ _ \<Rightarrow> True | _ \<Rightarrow> False)"

definition reading :: "fpc \<Rightarrow> bool" where
  "reading p \<longleftrightarrow> (case p of WaitR _ \<Rightarrow> True | _ \<Rightarrow> False)"

lemma pc_simps [simp]:
  "\<not> writing Idle" "writing (WaitW n)" "writing (Reserved n sz)" "\<not> writing (WaitR n)"
  "\<not> reading Idle" "\<not> reading (WaitW n)" "\<not> reading (Reserved n sz)" "reading (WaitR n)"
  by (simp_all add: writing_def reading_def)

definition locks_ok :: "fsys \<Rightarrow> bool" where
  "locks_ok s \<longleftrightarrow> (\<forall>t. (writing (pcs s t) \<longleftrightarrow> writeMutex (ff s) = Some t) \<and>
                        (reading (pcs s t) \<longleftrightarrow> readMutex (ff s) = Some t))"

definition reservations_ok :: "fsys \<Rightarrow> bool" where
  "reservations_ok s \<longleftrightarrow> (\<forall>t n sz. pcs s t = Reserved n sz \<longrightarrow>
     nreserved (ff s) = n \<and> sz = fsize (ff s) - nextWrite (ff s))"

definition fsys_inv :: "nat \<Rightarrow> fsys \<Rightarrow> bool" where
  "fsys_inv L s \<longleftrightarrow> fifo_inv (ff s) \<and> fsize (ff s) = L \<and>
     consumed s @ fifo_content (ff s) = written s \<and> locks_ok s \<and> reservations_ok s"


section \<open>Effects of the steps\<close>

lemma write_wait_effect:
  assumes f: "fifo_inv f" and w: "writeMutex f = Some t"
    and s: "after_reserve n (write_wait all_ok t f n) = Some (p, f')"
  shows "(p = Idle \<and> f' = f\<lparr>writeMutex := None\<rparr>) \<or>
    (p = Reserved n (fsize f - nextWrite f) \<and> nbytes f + n \<le> fsize f \<and> f' = f\<lparr>nreserved := n\<rparr>) \<or>
    (p = WaitW n \<and> f' = f)"
  using s w unfolding write_wait_cases [OF f] by (auto simp: Let_def mutex_unlock_def split: if_splits)

lemma reserve_effect:
  assumes f: "fifo_inv f" and w: "writeMutex f \<noteq> Some t"
    and s: "after_reserve n (fifoWriteReserve all_ok t f n) = Some (p, f')"
  shows "(p = Idle \<and> f' = f) \<or> (writeMutex f = None \<and>
     (p = Reserved n (fsize f - nextWrite f) \<and> nbytes f + n \<le> fsize f \<and>
        f' = f\<lparr>writeMutex := Some t, nreserved := n\<rparr> \<or>
      p = WaitW n \<and> f' = f\<lparr>writeMutex := Some t\<rparr>))"
proof (cases "fsize f < n")
  case True
  with s show ?thesis by (simp add: fifoWriteReserve_def)
next
  case False
  with s w have n: "writeMutex f = None"
    by (auto simp: fifoWriteReserve_def mutex_lock_def split: option.splits if_splits)
  with False s have "after_reserve n (write_wait all_ok t (f\<lparr>writeMutex := Some t\<rparr>) n) = Some (p, f')"
    by (simp add: fifoWriteReserve_def mutex_lock_def)
  from write_wait_effect [OF _ _ this] f n show ?thesis by auto
qed

lemma read_wait_effect:
  assumes f: "fifo_inv f" and w: "readMutex f = Some t"
    and s: "after_read n (read_wait all_ok t f n) = Some (p, d, f')"
  shows "(p = Idle \<and> d = [] \<and> f' = f\<lparr>readMutex := None\<rparr>) \<or>
    (p = Idle \<and> n \<le> nbytes f \<and> d = take n (fifo_content f) \<and>
       f' = f\<lparr>nbytes := nbytes f - n, readMutex := None\<rparr>) \<or>
    (p = WaitR n \<and> d = [] \<and> f' = f)"
  using s w unfolding read_wait_cases [OF f] by (auto simp: Let_def mutex_unlock_def split: if_splits)

lemma read_effect:
  assumes f: "fifo_inv f" and w: "readMutex f \<noteq> Some t"
    and s: "after_read n (fifoRead all_ok t f n) = Some (p, d, f')"
  shows "(p = Idle \<and> d = [] \<and> f' = f) \<or> (readMutex f = None \<and>
     (p = Idle \<and> n \<le> nbytes f \<and> d = take n (fifo_content f) \<and> f' = f\<lparr>nbytes := nbytes f - n\<rparr> \<or>
      p = WaitR n \<and> d = [] \<and> f' = f\<lparr>readMutex := Some t\<rparr>))"
proof (cases "fsize f < n")
  case True
  with s show ?thesis by (simp add: fifoRead_def)
next
  case False
  with s w have n: "readMutex f = None"
    by (auto simp: fifoRead_def mutex_lock_def split: option.splits if_splits)
  with False s have "after_read n (read_wait all_ok t (f\<lparr>readMutex := Some t\<rparr>) n) = Some (p, d, f')"
    by (simp add: fifoRead_def mutex_lock_def)
  from read_wait_effect [OF _ _ this] f n show ?thesis by auto
qed

lemma copy_effect:
  assumes f: "fifo_inv f" and c: "fifoCopy all_ok t f d = Some (0, f')"
  shows "fifo_inv f' \<and> fifo_content f' = fifo_content f @ d \<and> fsize f' = fsize f \<and>
    readMutex f' = readMutex f \<and> writeMutex f = Some t \<and> writeMutex f' = None"
proof -
  have d: "length d \<le> nreserved f"
    using c by (auto simp: fifoCopy_def split: if_splits)
  show ?thesis
    using fifoCopy_ok [OF f d, of all_ok t] c by (auto simp: mutex_unlock_def EPERM_def split: if_splits)
qed

lemma update_effect:
  assumes f: "fifo_inv f" and sz: "length d \<le> fsize f - nextWrite f"
    and c: "fifoWriteUpdate all_ok t (f\<lparr>fbuf := blit (fbuf f) (nextWrite f) d\<rparr>) (length d) = (0, f')"
  shows "fifo_inv f' \<and> fifo_content f' = fifo_content f @ d \<and> fsize f' = fsize f \<and>
    readMutex f' = readMutex f \<and> writeMutex f = Some t \<and> writeMutex f' = None"
proof -
  have d: "length d \<le> nreserved f"
    using c by (auto simp: fifoWriteUpdate_def split: if_splits)
  moreover have "nextWrite f + length d \<le> fsize f"
    using sz fifo_invD(3) [OF f] by simp
  ultimately show ?thesis
    using fifoWriteUpdate_ok [OF f d, of all_ok t] c by (auto simp: mutex_unlock_def EPERM_def split: if_splits)
qed

section \<open>Preservation\<close>

lemma fsys_invD:
  assumes "fsys_inv L s"
  shows "fifo_inv (ff s)" "fsize (ff s) = L" "consumed s @ fifo_content (ff s) = written s"
    "writing (pcs s t) \<longleftrightarrow> writeMutex (ff s) = Some t" "reading (pcs s t) \<longleftrightarrow> readMutex (ff s) = Some t"
    "pcs s t = Reserved n sz \<Longrightarrow> nreserved (ff s) = n \<and> sz = fsize (ff s) - nextWrite (ff s)"
  using assms by (auto simp only: fsys_inv_def locks_ok_def reservations_ok_def)

lemma fsys_invI:
  assumes "fifo_inv (ff s)" "fsize (ff s) = L" "consumed s @ fifo_content (ff s) = written s"
    and "\<And>t. writing (pcs s t) \<longleftrightarrow> writeMutex (ff s) = Some t"
    and "\<And>t. reading (pcs s t) \<longleftrightarrow> readMutex (ff s) = Some t"
    and "\<And>t n sz. pcs s t = Reserved n sz \<Longrightarrow> nreserved (ff s) = n \<and> sz = fsize (ff s) - nextWrite (ff s)"
  shows "fsys_inv L s"
  using assms by (simp only: fsys_inv_def locks_ok_def reservations_ok_def) blast


lemma Reserved_writing: "pcs s u = Reserved n sz \<Longrightarrow> writing (pcs s u)"
  by simp

lemma inv_reserve:
  assumes i: "fsys_inv L s" and pc: "pcs s t = Idle"
    and st: "after_reserve n (fifoWriteReserve all_ok t (ff s) n) = Some (p, f)"
  shows "fsys_inv L (s\<lparr>ff := f, pcs := (pcs s)(t := p)\<rparr>)"
proof -
  note d = fsys_invD [OF i]
  have w: "writeMutex (ff s) \<noteq> Some t" and r: "readMutex (ff s) \<noteq> Some t"
    using d(4,5) [of t] pc by simp_all
  have old: "writeMutex (ff s) = None \<Longrightarrow> \<not> writing (pcs s u)" for u
    using d(4) [of u] by simp
  have f: "fifo_inv (f::fifo)" "fsize f = L" "fifo_content f = fifo_content (ff s)"
    and p: "(p = Idle \<and> f = ff s) \<or> (writeMutex (ff s) = None \<and> writeMutex f = Some t \<and>
       readMutex f = readMutex (ff s) \<and>
       (p = Reserved n (fsize f - nextWrite f) \<and> nreserved f = n \<or> p = WaitW n))"
    using reserve_effect [OF d(1) w st] d(1,2) by (auto simp: fifo_inv_def)
  from p show ?thesis
  proof (elim disjE conjE)
    assume "p = Idle" "f = ff s"
    with pc have "s\<lparr>ff := f, pcs := (pcs s)(t := p)\<rparr> = s"
      by (cases s) auto
    with i show ?thesis by simp
  qed (rule fsys_invI; use f d pc r old Reserved_writing [of s] in \<open>fastforce split: if_splits\<close>)+
qed

lemma inv_wake_w:
  assumes i: "fsys_inv L s" and pc: "pcs s t = WaitW m"
    and st: "after_reserve n (write_wait all_ok t (ff s) n) = Some (p, f)"
  shows "fsys_inv L (s\<lparr>ff := f, pcs := (pcs s)(t := p)\<rparr>)"
proof -
  note d = fsys_invD [OF i]
  have w: "writeMutex (ff s) = Some t" and r: "readMutex (ff s) \<noteq> Some t"
    using d(4,5) [of t] pc by simp_all
  have old: "u \<noteq> t \<Longrightarrow> \<not> writing (pcs s u)" for u
    using d(4) [of u] w by simp
  have f: "fifo_inv (f::fifo)" "fsize f = L" "fifo_content f = fifo_content (ff s)"
    and p: "readMutex f = readMutex (ff s) \<and> (p = Idle \<and> writeMutex f = None \<or>
       writeMutex f = Some t \<and> (p = Reserved n (fsize f - nextWrite f) \<and> nreserved f = n \<or> p = WaitW n))"
    using write_wait_effect [OF d(1) w st] d(1,2) w by (auto simp: fifo_inv_def)
  show ?thesis
    by (rule fsys_invI) (use p f d r old Reserved_writing [of s] in \<open>fastforce split: if_splits\<close>)+
qed

lemma inv_commit:
  assumes i: "fsys_inv L s" and pc: "pcs s t = Reserved n sz"
    and e: "fifo_inv f \<and> fifo_content f = fifo_content (ff s) @ d \<and> fsize f = fsize (ff s) \<and>
      readMutex f = readMutex (ff s) \<and> writeMutex (ff s) = Some t \<and> writeMutex f = None"
  shows "fsys_inv L (s\<lparr>ff := f, pcs := (pcs s)(t := Idle), written := written s @ d\<rparr>)"
proof -
  note d = fsys_invD [OF i]
  have r: "readMutex (ff s) \<noteq> Some t"
    using d(5) [of t] pc by simp
  have old: "u \<noteq> t \<Longrightarrow> \<not> writing (pcs s u)" for u
    using d(4) [of u] e by simp
  have "consumed s @ fifo_content f = written s @ d"
    using d(3) e by simp
  then show ?thesis
    by (intro fsys_invI) (use e d r old Reserved_writing [of s] in \<open>fastforce split: if_splits\<close>)+
qed

lemma inv_read:
  assumes i: "fsys_inv L s" and pc: "pcs s t = Idle"
    and st: "after_read n (fifoRead all_ok t (ff s) n) = Some (p, d, f)"
  shows "fsys_inv L (s\<lparr>ff := f, pcs := (pcs s)(t := p), consumed := consumed s @ d\<rparr>)"
proof -
  note e = fsys_invD [OF i]
  have r: "readMutex (ff s) \<noteq> Some t" and w: "writeMutex (ff s) \<noteq> Some t"
    using e(4,5) [of t] pc by simp_all
  have old: "readMutex (ff s) = None \<Longrightarrow> \<not> reading (pcs s u)" for u
    using e(5) [of u] by simp
  have f: "fifo_inv (f::fifo)" "fsize f = L" "d @ fifo_content f = fifo_content (ff s)"
    and p: "nextWrite f = nextWrite (ff s)" "nreserved f = nreserved (ff s)" "writeMutex f = writeMutex (ff s)"
      "(p = Idle \<and> readMutex f = readMutex (ff s)) \<or>
       (p = WaitR n \<and> readMutex (ff s) = None \<and> readMutex f = Some t)"
    using read_effect [OF e(1) r st] e(1,2) content_after_take [OF e(1)] inv_after_take [OF e(1)] by auto
  have "(consumed s @ d) @ fifo_content f = written s"
    using e(3) f(3) by simp
  with f(1,2) p e w r old pc show ?thesis
    by (intro fsys_invI) (fastforce split: if_splits)+
qed

lemma inv_wake_r:
  assumes i: "fsys_inv L s" and pc: "pcs s t = WaitR m"
    and st: "after_read n (read_wait all_ok t (ff s) n) = Some (p, d, f)"
  shows "fsys_inv L (s\<lparr>ff := f, pcs := (pcs s)(t := p), consumed := consumed s @ d\<rparr>)"
proof -
  note e = fsys_invD [OF i]
  have r: "readMutex (ff s) = Some t" and w: "writeMutex (ff s) \<noteq> Some t"
    using e(4,5) [of t] pc by simp_all
  have old: "u \<noteq> t \<Longrightarrow> \<not> reading (pcs s u)" for u
    using e(5) [of u] r by simp
  have f: "fifo_inv (f::fifo)" "fsize f = L" "d @ fifo_content f = fifo_content (ff s)"
    and p: "nextWrite f = nextWrite (ff s)" "nreserved f = nreserved (ff s)" "writeMutex f = writeMutex (ff s)"
      "(p = Idle \<and> readMutex f = None) \<or> (p = WaitR n \<and> readMutex f = Some t)"
    using read_wait_effect [OF e(1) r st] e(1,2) r content_after_take [OF e(1)] inv_after_take [OF e(1)] by auto
  have "(consumed s @ d) @ fifo_content f = written s"
    using e(3) f(3) by simp
  with f(1,2) p e w r old pc show ?thesis
    by (intro fsys_invI) (fastforce split: if_splits)+
qed

lemma fstep_inv: "fstep s s' \<Longrightarrow> fsys_inv L s \<Longrightarrow> fsys_inv L s'"
proof (induction rule: fstep.induct)
  case (reserve s t n p f)
  then show ?case by (blast intro: inv_reserve)
next
  case (wake_w s t n p f)
  then show ?case by (blast intro: inv_wake_w)
next
  case (copy s t n sz d f)
  then show ?case
    using copy_effect [OF fsys_invD(1) [OF copy.prems] copy.hyps(2)] by (intro inv_commit)
next
  case (update s t n sz d f)
  have "length d \<le> fsize (ff s) - nextWrite (ff s)"
    using fsys_invD(6) [OF update.prems update.hyps(1)] update.hyps(2) by simp
  with update show ?case
    using update_effect [OF fsys_invD(1) [OF update.prems] _ update.hyps(3)] by (intro inv_commit)
next
  case (read s t n p d f)
  then show ?case by (blast intro: inv_read)
next
  case (wake_r s t n p d f)
  then show ?case by (blast intro: inv_wake_r)
next
  case (close s st f)
  then show ?case
    by (auto simp: fifoCloseWhenEmpty_def fsys_inv_def locks_ok_def reservations_ok_def)
qed

lemma init_fsys_inv: "0 < length buf \<Longrightarrow> length buf < 2 ^ 63 \<Longrightarrow> fsys_inv (length buf) (init_fsys buf)"
  by (simp add: fsys_inv_def locks_ok_def reservations_ok_def init_fsys_def fifo_inv_def fifo_content_def)

lemma freach_inv:
  "freach buf s \<Longrightarrow> 0 < length buf \<Longrightarrow> length buf < 2 ^ 63 \<Longrightarrow> fsys_inv (length buf) s"
  by (induction rule: freach.induct) (auto intro: init_fsys_inv fstep_inv)


section \<open>Properties\<close>

text \<open>
  C6: In every interleaving of threads that reserve, copy or write in place, read, wait, wake up and
  close, the bytes returned so far followed by the bytes still in the FIFO are exactly the bytes
  committed so far: nothing is lost, duplicated or reordered by \<open>fifo.c\<close>.
\<close>

theorem fifo_threads_order:
  assumes "freach buf s" and "0 < length buf" and "length buf < 2 ^ 63"
  shows "consumed s @ fifo_content (ff s) = written s"
  using fsys_invD(3) [OF freach_inv [OF assms]] .

text \<open>
  At most one thread at a time is between \<open>fifoWriteReserve\<close> and the commit of its reservation
  (\<open>writeMutex\<close> is kept across the calls), and the reserved bytes are free and inside the buffer as
  long as it is, whatever the readers do meanwhile.
\<close>

theorem fifo_reservation_exclusive:
  assumes "freach buf s" and "0 < length buf" and "length buf < 2 ^ 63"
    and "pcs s t = Reserved n sz" and "pcs s u = Reserved m sz'"
  shows "t = u \<and> nbytes (ff s) + n \<le> length buf \<and> nextWrite (ff s) + sz = length buf"
proof -
  note i = freach_inv [OF assms(1-3)]
  have "writeMutex (ff s) = Some t" "writeMutex (ff s) = Some u"
    using fsys_invD(4) [OF i, of t] fsys_invD(4) [OF i, of u] assms(4,5) by simp_all
  moreover have "nreserved (ff s) = n" "sz = fsize (ff s) - nextWrite (ff s)"
    using fsys_invD(6) [OF i assms(4)] by simp_all
  ultimately show ?thesis
    using fsys_invD(1,2) [OF i] fifo_invD(3,4) [OF fsys_invD(1) [OF i]] by auto
qed

text \<open>A reachable state for the witnesses: one thread has written three bytes into four.\<close>

definition demo_buf :: "byte list" where
  "demo_buf = [0, 0, 0, 0]"

definition demo_f1 :: fifo where
  "demo_f1 = \<lparr>fbuf = demo_buf, nextWrite = 0, nbytes = 0, nreserved = 3, fsize = 4,
     writeMutex = Some 1, readMutex = None, closeIfEmpty = 0\<rparr>"

definition demo_s1 :: fsys where
  "demo_s1 = (init_fsys demo_buf)\<lparr>ff := demo_f1, pcs := (pcs (init_fsys demo_buf))(1 := Reserved 3 4)\<rparr>"

definition demo_f2 :: fifo where
  "demo_f2 = \<lparr>fbuf = [7, 8, 9, 0], nextWrite = 3, nbytes = 3, nreserved = 0, fsize = 4,
     writeMutex = None, readMutex = None, closeIfEmpty = 0\<rparr>"

definition demo_s2 :: fsys where
  "demo_s2 = demo_s1\<lparr>ff := demo_f2, pcs := (pcs demo_s1)(1 := Idle), written := written demo_s1 @ [7, 8, 9]\<rparr>"

lemma demo_f2_content: "fifo_inv demo_f2" "fifo_content demo_f2 = [7, 8, 9]"
proof -
  have "[0..<3::nat] = [0, 1, 2]" by (simp add: upt_rec)
  then show "fifo_inv demo_f2" "fifo_content demo_f2 = [7, 8, 9]"
    by (simp_all add: demo_f2_def fifo_inv_def fifo_content_def read_pos_def ring_list_def)
qed

lemma demo_s1_reach: "freach demo_buf demo_s1"
proof (rule freach.step [OF freach.start])
  show "fstep (init_fsys demo_buf) demo_s1"
    unfolding demo_s1_def
    by (rule fstep.reserve [of _ _ 3])
      (simp_all add: init_fsys_def demo_buf_def demo_f1_def fifoWriteReserve_def mutex_lock_def write_wait_def
        sz_sub_def Let_def)
qed

lemma demo_s2_reach: "freach demo_buf demo_s2"
proof (rule freach.step [OF demo_s1_reach])
  show "fstep demo_s1 demo_s2"
    unfolding demo_s2_def
    by (rule fstep.copy [of _ _ 3 4])
      (simp_all add: demo_s1_def demo_buf_def demo_f1_def demo_f2_def fifoCopy_def sz_sub_def sz_add_def
        mem_write_def blit_def commit_def mutex_unlock_def)
qed

theorem fifo_threads_order_witness:
  "consumed demo_s2 @ fifo_content (ff demo_s2) = written demo_s2 \<and> written demo_s2 = [7, 8, 9]"
  using fifo_threads_order [OF demo_s2_reach]
  by (simp add: demo_buf_def demo_s2_def demo_s1_def init_fsys_def)

theorem fifo_reservation_exclusive_witness:
  "(1::tid) = 1 \<and> nbytes (ff demo_s1) + 3 \<le> length demo_buf \<and> nextWrite (ff demo_s1) + 4 = length demo_buf"
  using fifo_reservation_exclusive [OF demo_s1_reach, of 1 3 4 1 3 4]
  by (simp add: demo_buf_def demo_s1_def)

text \<open>
  Reading a closed FIFO that still holds some bytes, but fewer than asked for, never returns:
  the call waits, and every wake-up finds the same state and waits again. The \<open>closeIfEmpty\<close> test
  only covers the empty FIFO.
\<close>

theorem closed_short_read_waits:
  assumes "closeIfEmpty f \<noteq> 0" and "0 < nbytes f" and "nbytes f < n" and "n \<le> fsize f"
    and "readMutex f = None"
  shows "fifoRead all_ok t f n = CondWait (f\<lparr>readMutex := Some t\<rparr>) \<and>
    read_wait all_ok t (f\<lparr>readMutex := Some t\<rparr>) n = CondWait (f\<lparr>readMutex := Some t\<rparr>)"
  using assms by (simp add: fifoRead_def mutex_lock_def read_wait_def)

theorem closed_short_read_waits_witness:
  "fifoRead all_ok 2 (demo_f2\<lparr>closeIfEmpty := 1\<rparr>) 4 = CondWait (demo_f2\<lparr>closeIfEmpty := 1, readMutex := Some 2\<rparr>) \<and>
   read_wait all_ok 2 (demo_f2\<lparr>closeIfEmpty := 1, readMutex := Some 2\<rparr>) 4 =
     CondWait (demo_f2\<lparr>closeIfEmpty := 1, readMutex := Some 2\<rparr>)"
  using closed_short_read_waits [of "demo_f2\<lparr>closeIfEmpty := 1\<rparr>" 4 2] by (simp add: demo_f2_def)

text \<open>
  C12: A write of \<open>d\<close> bytes followed by reads through the public calls behaves as a bounded queue:
  for every run of writes that fit and reads that are served, the bytes read followed by the bytes
  left are the bytes present at the start followed by the bytes written, and the FIFO is again
  consistent and unlocked.
\<close>

theorem fifo_run_order:
  assumes "idle f" and "fq.run f ops = Some (out, f')"
  shows "idle f' \<and> fsize f' = fsize f \<and> out @ fifo_content f' = fifo_content f @ put_bytes ops"
  using fq.run_fifo [OF assms] .

theorem fifo_run_order_witness:
  "idle demo_f2 \<and> map_option (\<lambda>(out, f'). out @ fifo_content f') (fq.run demo_f2 [Get 2, Put [5]]) = Some [7, 8, 9, 5]"
proof -
  have i: "idle demo_f2" and c: "fifo_content demo_f2 = [7, 8, 9]"
    using demo_f2_content by (simp_all add: idle_def demo_f2_def)
  have "\<exists>f1. fifo_get demo_f2 2 = Some ([7, 8], f1) \<and> idle f1 \<and> fifo_content f1 = [9] \<and> fsize f1 = 4"
    using fifo_get_ok [OF i, of 2] c by (simp add: demo_f2_def)
  then obtain f1 where f1: "fifo_get demo_f2 2 = Some ([7, 8], f1)" "idle f1" "fifo_content f1 = [9]" "fsize f1 = 4"
    by blast
  have n1: "nbytes f1 = 1"
    using f1(3) length_fifo_content [of f1] by simp
  then have "fifo_put f1 [5] \<noteq> None"
    using fifo_put_ok [OF f1(2), of "[5]"] f1(4) by auto
  with f1 n1 have "fq.run demo_f2 [Get 2, Put [5]] \<noteq> None"
    by auto
  then obtain out f' where r: "fq.run demo_f2 [Get 2, Put [5]] = Some (out, f')" by auto
  from fifo_run_order [OF i r] i r c show ?thesis by simp
qed

text \<open>
  \<open>fifoRead\<close> on a consistent FIFO whose read mutex is free: the result for every case. A
  request bigger than the FIFO is a usage error, a closed empty FIFO is reported as closed, enough
  bytes are returned oldest first and removed, and otherwise the caller waits holding the read mutex.
\<close>

theorem fifoRead_result:
  assumes "fifo_inv f" and "readMutex f = None"
  shows "fifoRead all_ok t f n =
    (if fsize f < n then Done (1, None) f
     else if closeIfEmpty f \<noteq> 0 \<and> nbytes f = 0 then Done (3, None) f
     else if n \<le> nbytes f then Done (0, Some (take n (fifo_content f))) (f\<lparr>nbytes := nbytes f - n\<rparr>)
     else CondWait (f\<lparr>readMutex := Some t\<rparr>)) \<and>
    (n \<le> nbytes f \<longrightarrow> fifo_content (f\<lparr>nbytes := nbytes f - n\<rparr>) = drop n (fifo_content f))"
  using assms read_wait_cases [of "f\<lparr>readMutex := Some t\<rparr>" all_ok t n] content_after_take [of f n]
  by (simp add: fifoRead_def mutex_lock_def mutex_unlock_def Let_def)

theorem fifoRead_result_witness:
  "fifoRead all_ok 2 demo_f2 2 = Done (0, Some [7, 8]) (demo_f2\<lparr>nbytes := 1\<rparr>)"
  using fifoRead_result [OF demo_f2_content(1), of 2 2] demo_f2_content(2)
  by (simp add: demo_f2_def)

text \<open>
  \<open>fifoCloseWhenEmpty\<close> always sets the flag once it has the mutex, but reports only the second
  of its two signals: a failure to wake the writers is overwritten by a successful wake-up of the
  readers.
\<close>

theorem fifoCloseWhenEmpty_status:
  assumes "os LockMutex = 0"
  shows "fifoCloseWhenEmpty os f = (if os SignalRead \<noteq> 0 then 2 else 0, f\<lparr>closeIfEmpty := 1\<rparr>)"
  using assms by (simp add: fifoCloseWhenEmpty_def)

theorem fifoCloseWhenEmpty_status_witness:
  "fifoCloseWhenEmpty (all_ok(SignalWrite := 22)) demo_f2 = (0, demo_f2\<lparr>closeIfEmpty := 1\<rparr>)"
  using fifoCloseWhenEmpty_status [of "all_ok(SignalWrite := 22)" demo_f2] by simp

text \<open>
  \<open>initializeFifo\<close> succeeds only with every pthread object created, and when it fails after the
  read mutex has been created it returns with that mutex still initialised: each later failure
  destroys the other objects but not \<open>readMutex\<close>.
\<close>

theorem initializeFifo_outcome:
  "initializeFifo os buf sz = (st, live, fo) \<Longrightarrow>
   (st = 0 \<longleftrightarrow> fo \<noteq> None) \<and> (st = 0 \<or> st = 2) \<and>
   (st = 0 \<longrightarrow> set live = {WriteMutex, ReadMutex, Mutex, ReadCond, WriteCond}) \<and>
   (st \<noteq> 0 \<longrightarrow> (ReadMutex \<in> set live \<longleftrightarrow>
       os MutexAttrInit = 0 \<and> os InitWriteMutex = 0 \<and> os InitReadMutex = 0) \<and> set live \<subseteq> {ReadMutex})"
  by (auto simp: initializeFifo_def split: if_splits)

theorem initializeFifo_outcome_witness:
  "initializeFifo (all_ok(InitReadCond := 12)) [0] 1 = (2, [ReadMutex], None) \<and> ReadMutex \<in> set [ReadMutex]"
  using initializeFifo_outcome [of "all_ok(InitReadCond := 12)" "[0]" 1 2 "[ReadMutex]" None]
  by (simp add: initializeFifo_def)

end
