(* ===== verification/Shm_Fifo.thy ===== *)
theory Shm_Fifo
  imports Byte_Queue
begin

text \<open>
  The shared-memory FIFO of \<open>shmfifo.c\<close>: a ring of bytes behind a control prefix and a private
  area, records framed by a length and a sentinel, and a set of three semaphores (lock, writer,
  reader) through which the writing and the reading process exclude and wake each other.

  The segment is its control words and its bytes; offsets are relative to the start of the segment
  as in the source, the ring occupies \<open>[base, sz)\<close>. The results of the semaphore calls that can
  fail are an argument \<open>os\<close> (\<open>True\<close>: the call fails).
\<close>

section \<open>Data\<close>

definition prefix_size :: nat where "prefix_size = 20" \<comment> \<open>\<open>sizeof(struct shmprefix)\<close>\<close>
definition bh_size :: nat where "bh_size = 8" \<comment> \<open>\<open>sizeof(struct shmbh)\<close>\<close>

record shmhandle =
  h_sid :: int
  h_mem :: bool \<comment> \<open>attached\<close>
  h_privsz :: nat
  h_semid :: int
  h_sz :: nat

record segment =
  counter :: int
  s_read :: nat
  s_write :: nat
  s_sz :: nat
  s_privsz :: nat
  mem :: "byte list"

datatype SemIndex = SI_LOCK | SI_WRITER | SI_READER

record sems =
  lockVal :: nat
  lockPid :: int
  writerVal :: nat
  readerVal :: nat

definition EIO :: int where "EIO = 5"
definition E2BIG :: int where "E2BIG = 7"
definition EINVAL :: int where "EINVAL = 22"
definition ECANCELED :: int where "ECANCELED = 125"

lemmas errno_simps [simp] = EIO_def E2BIG_def EINVAL_def ECANCELED_def

definition base :: "shmhandle \<Rightarrow> nat" where
  "base h = prefix_size + h_privsz h"

section \<open>The byte ring\<close>

definition shmfifo_ll_memfree :: "shmhandle \<Rightarrow> segment \<Rightarrow> int" where
  "shmfifo_ll_memfree h s =
     (if s_read s \<le> s_write s
      then (int (h_sz h) - int (s_write s)) + (int (s_read s) - int prefix_size - int (h_privsz h))
      else int (s_read s) - int (s_write s))"

definition shmfifo_ll_memused :: "shmhandle \<Rightarrow> segment \<Rightarrow> int" where
  "shmfifo_ll_memused h s =
     (if s_read s \<le> s_write s then int (s_write s) - int (s_read s)
      else int (h_sz h) - int prefix_size - int (h_privsz h) - int (s_read s) + int (s_write s))"

definition shmfifo_ll_hrewind :: "shmhandle \<Rightarrow> segment \<Rightarrow> segment" where
  "shmfifo_ll_hrewind h s =
     (let r = int (s_read s) - int bh_size
      in s\<lparr>s_read := nat (if r < int (prefix_size + h_privsz h)
                          then int (h_sz h) + r - int prefix_size - int (h_privsz h) else r)\<rparr>)"

text \<open>\<open>None\<close> is an access outside the segment; a refused put is \<open>-1\<close> with nothing changed.\<close>

definition shmfifo_ll_put :: "shmhandle \<Rightarrow> segment \<Rightarrow> byte list \<Rightarrow> (int \<times> segment) option" where
  "shmfifo_ll_put h s data =
     (if shmfifo_ll_memfree h s < int (length data) then Some (- 1, s)
      else let sz = length data; copysz = min (h_sz h - s_write s) sz
           in do {
                m1 \<leftarrow> mem_write (mem s) (s_write s) (take copysz data);
                let w1 = s_write s + copysz;
                let w2 = (if w1 = h_sz h then h_privsz h + prefix_size else w1);
                if copysz < sz
                then do {
                  m2 \<leftarrow> mem_write m1 w2 (drop copysz data);
                  Some (int sz, s\<lparr>counter := i32 (counter s + 1), mem := m2, s_write := w2 + (sz - copysz)\<rparr>)
                }
                else Some (int sz, s\<lparr>counter := i32 (counter s + 1), mem := m1, s_write := w2\<rparr>)
              })"

datatype ll_result = Abort | Bad | Short segment | Got "byte list" segment

text \<open>
  \<open>shmfifo_ll_get\<close>: a non-positive size aborts the process (after unlocking), too few bytes are
  \<open>Short\<close> (the return value -1, with the counter already incremented), \<open>Bad\<close> is an access outside
  the segment.
\<close>

definition shmfifo_ll_get :: "shmhandle \<Rightarrow> segment \<Rightarrow> int \<Rightarrow> ll_result" where
  "shmfifo_ll_get h s0 n =
     (let s = s0\<lparr>counter := i32 (counter s0 + 1)\<rparr>
      in if n \<le> 0 then Abort
         else if shmfifo_ll_memused h s < n then Short s
         else let sz = nat n;
                  copysz = min (if s_read s < s_write s then s_write s - s_read s else h_sz h - s_read s) sz;
                  r1 = s_read s + copysz;
                  r2 = (if r1 = h_sz h then h_privsz h + prefix_size else r1)
              in case mem_read (mem s) (s_read s) copysz of
                   None \<Rightarrow> Bad
                 | Some d1 \<Rightarrow>
                     if copysz < sz
                     then (case mem_read (mem s) r2 (sz - copysz) of
                             None \<Rightarrow> Bad
                           | Some d2 \<Rightarrow> Got (d1 @ d2) (s\<lparr>s_read := r2 + (sz - copysz)\<rparr>))
                     else Got d1 (s\<lparr>s_read := r2\<rparr>))"

subsection \<open>Invariant, contents and the queue contract\<close>

definition shm_inv :: "shmhandle \<Rightarrow> segment \<Rightarrow> bool" where
  "shm_inv h s \<longleftrightarrow> length (mem s) = h_sz h \<and> base h < h_sz h \<and> h_sz h < 2 ^ 31 \<and>
     base h \<le> s_read s \<and> s_read s < h_sz h \<and> base h \<le> s_write s \<and> s_write s < h_sz h"

definition ringsz :: "shmhandle \<Rightarrow> nat" where
  "ringsz h = h_sz h - base h"

definition shm_used :: "shmhandle \<Rightarrow> segment \<Rightarrow> nat" where
  "shm_used h s = (if s_read s \<le> s_write s then s_write s - s_read s else ringsz h + s_write s - s_read s)"

definition shm_content :: "shmhandle \<Rightarrow> segment \<Rightarrow> byte list" where
  "shm_content h s = ring_list (drop (base h) (mem s)) (s_read s - base h) (shm_used h s)"

lemma length_shm_content [simp]: "length (shm_content h s) = shm_used h s"
  by (simp add: shm_content_def)

lemma shm_invD:
  assumes "shm_inv h s"
  shows "length (mem s) = h_sz h" "base h < h_sz h" "base h \<le> s_read s" "s_read s < h_sz h"
    "base h \<le> s_write s" "s_write s < h_sz h" "length (drop (base h) (mem s)) = ringsz h"
    "shm_used h s < ringsz h" "h_sz h < 2 ^ 31"
  using assms by (auto simp: shm_inv_def ringsz_def shm_used_def)

lemma memused_eq: "shm_inv h s \<Longrightarrow> shmfifo_ll_memused h s = int (shm_used h s)"
  by (auto simp: shmfifo_ll_memused_def shm_used_def shm_inv_def ringsz_def base_def of_nat_diff)

lemma memfree_eq: "shm_inv h s \<Longrightarrow> shmfifo_ll_memfree h s = int (ringsz h) - int (shm_used h s)"
  by (auto simp: shmfifo_ll_memfree_def shm_used_def shm_inv_def ringsz_def base_def of_nat_diff)

lemma shm_write_pos:
  "shm_inv h s \<Longrightarrow> (s_read s - base h + shm_used h s) mod ringsz h = s_write s - base h"
  by (auto simp: shm_used_def shm_inv_def ringsz_def mod_if)


lemma blit_base:
  "base' \<le> off \<Longrightarrow> off \<le> length m \<Longrightarrow> blit m off d = take base' m @ blit (drop base' m) (off - base') d"
  by (simp add: blit_def min_def) (metis append.assoc append_take_drop_id le_add_diff_inverse take_add)

text \<open>The two-\<open>memcpy\<close> put is \<^const>\<open>ring_put\<close> on the ring part of the segment.\<close>

lemma ll_put_Some:
  assumes i: "shm_inv h s" and fit: "length d \<le> ringsz h - shm_used h s"
  shows "\<exists>s'. shmfifo_ll_put h s d = Some (int (length d), s') \<and> s_read s' = s_read s \<and>
    s_write s' = base h + (s_write s - base h + length d) mod ringsz h \<and>
    s_sz s' = s_sz s \<and> s_privsz s' = s_privsz s \<and>
    mem s' = take (base h) (mem s) @ ring_put (drop (base h) (mem s)) (s_write s - base h) d"
proof -
  note D = shm_invD [OF i]
  have b: "h_privsz h + prefix_size = base h" by (simp add: base_def)
  have free: "\<not> shmfifo_ll_memfree h s < int (length d)"
    using memfree_eq [OF i] fit D(8) by simp
  define k where "k = min (h_sz h - s_write s) (length d)"
  have lr: "length (drop (base h) (mem s)) = h_sz h - base h" and rz: "ringsz h = h_sz h - base h"
    using D(1) by (simp_all add: ringsz_def)
  have kk: "k = min (length (drop (base h) (mem s)) - (s_write s - base h)) (length d)"
    using D lr by (simp add: k_def)
  have kle: "k \<le> length d" "s_write s + k \<le> h_sz h" using D(6) by (auto simp: k_def)
  have rp: "ring_put (drop (base h) (mem s)) (s_write s - base h) d =
      blit (blit (drop (base h) (mem s)) (s_write s - base h) (take k d)) 0 (drop k d)"
    unfolding ring_put_def Let_def kk [symmetric] by (rule refl)
  let ?m1 = "blit (mem s) (s_write s) (take k d)"
  have w1: "mem_write (mem s) (s_write s) (take k d) = Some ?m1"
    using kle D(1) by (simp add: mem_write_def)
  have m1: "?m1 = take (base h) (mem s) @ blit (drop (base h) (mem s)) (s_write s - base h) (take k d)"
    using D by (intro blit_base) simp_all
  have lm1: "length ?m1 = h_sz h" using kle D(1) by simp
  show ?thesis
  proof (cases "k < length d")
    case True
    then have ks: "k = h_sz h - s_write s" by (auto simp: k_def)
    with D have wrap: "s_write s + k = h_sz h" by simp
    have dl: "length d - k + base h \<le> h_sz h"
      using fit D(8) rz ks D(5,6) True by (simp add: k_def)
    have w2: "mem_write ?m1 (base h) (drop k d) = Some (blit ?m1 (base h) (drop k d))"
      using dl lm1 by (simp add: mem_write_def add.commute)
    have tb: "take (base h) ?m1 = take (base h) (mem s)" "drop (base h) ?m1 = blit (drop (base h) (mem s)) (s_write s - base h) (take k d)"
      using m1 D(1,2) by simp_all
    have m2: "blit ?m1 (base h) (drop k d) =
        take (base h) (mem s) @ ring_put (drop (base h) (mem s)) (s_write s - base h) d"
      using blit_base [of "base h" "base h" ?m1 "drop k d"] lm1 D(2) tb
      by (simp add: rp)
    have ws: "(s_write s - base h + length d) mod ringsz h = length d - k"
    proof -
      have "s_write s - base h + length d = ringsz h + (length d - k)"
        using wrap D(5,6) True rz by simp
      moreover have "length d - k < ringsz h"
        using fit rz D(5,6) D(8) ks True by simp
      ultimately show ?thesis by simp
    qed
    show ?thesis
      unfolding shmfifo_ll_put_def Let_def k_def [symmetric] b
      using free w1 w2 True wrap m2 ws by simp
  next
    case False
    with kle have kd: "k = length d" by simp
    then have d0: "drop k d = []" "take k d = d" by simp_all
    have m2: "?m1 = take (base h) (mem s) @ ring_put (drop (base h) (mem s)) (s_write s - base h) d"
      using m1 d0 kle D lr by (simp add: rp blit_def)
    have ws: "(if s_write s + k = h_sz h then base h else s_write s + k) =
        base h + (s_write s - base h + length d) mod ringsz h"
      using kle D(5,6) rz kd by (auto simp: mod_if)
    show ?thesis
      unfolding shmfifo_ll_put_def Let_def k_def [symmetric] b
      using free w1 False m2 ws by simp
  qed
qed

lemma mod_add_unique:
  "(a + x) mod r = (a + y) mod r \<Longrightarrow> x < r \<Longrightarrow> y < r \<Longrightarrow> x = (y::nat)"
proof (induction x y rule: linorder_wlog)
  case (le x y)
  then have "r dvd (a + y) - (a + x)" by (metis mod_eq_dvd_iff_nat add_le_cancel_left)
  then have "r dvd y - x" by simp
  with le show ?case by (auto dest: dvd_imp_le)
next
  case (sym x y)
  then show ?case by metis
qed

lemma shm_put_ok:
  assumes i: "shm_inv h s" and fit: "shm_used h s + length d < ringsz h"
  shows "\<exists>s'. shmfifo_ll_put h s d = Some (int (length d), s') \<and> shm_inv h s' \<and>
    shm_content h s' = shm_content h s @ d \<and> s_read s' = s_read s"
proof -
  note D = shm_invD [OF i]
  have "length d \<le> ringsz h - shm_used h s" using fit by simp
  from ll_put_Some [OF i this]
  obtain s' where s': "shmfifo_ll_put h s d = Some (int (length d), s')" "s_read s' = s_read s"
    "s_write s' = base h + (s_write s - base h + length d) mod ringsz h"
    "mem s' = take (base h) (mem s) @ ring_put (drop (base h) (mem s)) (s_write s - base h) d"
    by (elim exE conjE) (rule that)
  have dr: "drop (base h) (mem s') = ring_put (drop (base h) (mem s)) (s_write s - base h) d"
    using s'(4) D(1,2) by simp
  have wl: "s_write s - base h < length (drop (base h) (mem s))" using D by simp
  have lm: "length (mem s') = h_sz h"
    using s'(4) D wl fit by simp
  have R: "0 < ringsz h" using D(8) by simp
  have wlt: "s_write s' < h_sz h"
  proof -
    have "(s_write s - base h + length d) mod ringsz h < ringsz h" using R by simp
    moreover have "base h + ringsz h = h_sz h" using D(2) by (simp add: ringsz_def)
    ultimately show ?thesis using s'(3) by linarith
  qed
  have i': "shm_inv h s'"
    using lm wlt s'(2,3) D by (simp add: shm_inv_def)
  have wp: "s_write s - base h = (s_read s - base h + shm_used h s) mod length (drop (base h) (mem s))"
    using shm_write_pos [OF i] D(7) by simp
  have u: "shm_used h s' = shm_used h s + length d"
  proof (rule mod_add_unique)
    have "(s_read s - base h + shm_used h s') mod ringsz h = (s_write s - base h + length d) mod ringsz h"
      using shm_write_pos [OF i'] s'(2,3) by simp
    also have "\<dots> = ((s_read s - base h + shm_used h s) mod ringsz h + length d) mod ringsz h"
      using shm_write_pos [OF i] by simp
    finally show "(s_read s - base h + shm_used h s') mod ringsz h =
        (s_read s - base h + (shm_used h s + length d)) mod ringsz h"
      by (simp add: mod_simps add.assoc)
  qed (use shm_invD(8) [OF i'] fit in simp_all)
  have "shm_content h s' = ring_list (ring_put (drop (base h) (mem s))
      ((s_read s - base h + shm_used h s) mod length (drop (base h) (mem s))) d) (s_read s - base h) (shm_used h s + length d)"
    unfolding shm_content_def dr u wp [symmetric] s'(2) by (rule refl)
  also have "\<dots> = shm_content h s @ d"
    unfolding shm_content_def using D fit by (intro ring_put_append) auto
  finally show ?thesis using s' i' by blast
qed


lemma shm_get_ok:
  assumes i: "shm_inv h s" and n: "0 < n" "n \<le> int (shm_used h s)"
  shows "\<exists>s'. shmfifo_ll_get h s n = Got (take (nat n) (shm_content h s)) s' \<and> shm_inv h s' \<and>
    shm_content h s' = drop (nat n) (shm_content h s) \<and> s_write s' = s_write s \<and>
    shm_used h s' = shm_used h s - nat n \<and> mem s' = mem s \<and>
    s_read s' = base h + (s_read s - base h + nat n) mod ringsz h"
proof -
  note D = shm_invD [OF i]
  define s1 where "s1 = s\<lparr>counter := i32 (counter s + 1)\<rparr>"
  have s1: "s_read s1 = s_read s" "s_write s1 = s_write s" "mem s1 = mem s" "shm_used h s1 = shm_used h s"
    by (simp_all add: s1_def shm_used_def)
  have i1: "shm_inv h s1" using i by (simp add: s1_def shm_inv_def)
  define sz where "sz = nat n"
  have szn: "int sz = n" "0 < sz" "sz \<le> shm_used h s" using n by (auto simp: sz_def)
  have b: "h_privsz h + prefix_size = base h" by (simp add: base_def)
  have enough: "\<not> n \<le> 0" "\<not> shmfifo_ll_memused h s1 < n"
    using memused_eq [OF i1] n s1 by simp_all
  let ?R = "drop (base h) (mem s)"
  have lr: "length ?R = ringsz h" and rz: "ringsz h = h_sz h - base h"
    using D by (simp_all add: ringsz_def)
  define k where "k = min (if s_read s < s_write s then s_write s - s_read s else h_sz h - s_read s) sz"
  have kk: "k = min (length ?R - (s_read s - base h)) sz"
    unfolding lr rz k_def using szn D by (auto simp: shm_used_def min_def rz)
  have kle: "k \<le> sz" "s_read s + k \<le> h_sz h" using D kk lr rz by auto
  define w where "w = (s_read s - base h + sz) mod ringsz h"
  have R: "0 < ringsz h" using D(8) by simp
  have wl: "base h + w < h_sz h"
  proof -
    have "w < ringsz h" using R by (simp add: w_def)
    moreover have "base h + ringsz h = h_sz h" using D(2) by (simp add: ringsz_def)
    ultimately show ?thesis by linarith
  qed
  define s' where "s' = s1\<lparr>s_read := base h + w\<rparr>"
  have d: "ring_get ?R (s_read s - base h) sz = take sz (shm_content h s)"
    unfolding shm_content_def using D szn lr
    by (subst ring_get_eq) (auto simp: take_ring_list)
  have g: "shmfifo_ll_get h s n = Got (ring_get ?R (s_read s - base h) sz) s'"
  proof (cases "k < sz")
    case True
    then have ks: "k = ringsz h - (s_read s - base h)" using kk lr by (simp add: min_def split: if_splits)
    with D rz have wrap: "s_read s + k = h_sz h" by simp
    have wv: "w = sz - k"
    proof -
      have "s_read s - base h + sz = ringsz h + (sz - k)" using ks True D rz by simp
      moreover have "sz - k < ringsz h" using szn D(8) ks True D by linarith
      ultimately show ?thesis by (simp add: w_def)
    qed
    have m1: "mem_read (mem s1) (s_read s1) k = Some (take k (drop (s_read s - base h) ?R))"
      using kle D s1 by (simp add: mem_read_def)
    have m2: "mem_read (mem s1) (base h) (sz - k) = Some (take (sz - k) ?R)"
      using wv wl D s1 by (simp add: mem_read_def)
    have rg: "ring_get ?R (s_read s - base h) sz = take k (drop (s_read s - base h) ?R) @ take (sz - k) ?R"
      unfolding ring_get_def Let_def kk [symmetric] ..
    show ?thesis
      unfolding shmfifo_ll_get_def Let_def s1_def [symmetric] sz_def [symmetric]
      unfolding s1(1,2) k_def [symmetric] b
      using enough m1 m2 True wrap rg by (simp add: s'_def wv s1)
  next
    case False
    with kle have ks: "k = sz" by simp
    have m1: "mem_read (mem s1) (s_read s1) k = Some (take k (drop (s_read s - base h) ?R))"
      using kle D s1 by (simp add: mem_read_def)
    have rg: "ring_get ?R (s_read s - base h) sz = take k (drop (s_read s - base h) ?R)"
      unfolding ring_get_def Let_def kk [symmetric] by (simp add: ks)
    have wv: "(if s_read s + k = h_sz h then base h else s_read s + k) = base h + w"
      using kle D rz ks by (auto simp: w_def mod_if)
    show ?thesis
      unfolding shmfifo_ll_get_def Let_def s1_def [symmetric] sz_def [symmetric]
      unfolding s1(1,2) k_def [symmetric] b
      using enough m1 False rg by (simp add: s'_def wv s1)
  qed
  have i': "shm_inv h s'" using i1 wl by (simp add: s'_def shm_inv_def)
  have u: "shm_used h s' = shm_used h s - sz"
  proof -
    have "(s_read s' - base h + shm_used h s') mod ringsz h = (s_read s - base h + shm_used h s) mod ringsz h"
      using shm_write_pos [OF i'] shm_write_pos [OF i] by (simp add: s'_def s1)
    moreover have "s_read s' - base h = w" by (simp add: s'_def)
    ultimately have "(s_read s - base h + sz + shm_used h s') mod ringsz h = (s_read s - base h + sz + (shm_used h s - sz)) mod ringsz h"
      using szn by (simp add: w_def mod_simps)
    moreover have "shm_used h s' < ringsz h" "shm_used h s - sz < ringsz h" using shm_invD(8) [OF i'] D(8) by auto
    ultimately show ?thesis
      by (rule mod_add_unique)
  qed
  have "shm_content h s' = drop sz (shm_content h s)"
    unfolding shm_content_def u drop_ring_list using lr ring_list_mod [of ?R "s_read s - base h + sz" "shm_used h s - sz"]
    by (simp add: s'_def s1 w_def)
  with g d i' u show ?thesis
    by (intro exI [of _ s']) (simp add: sz_def s'_def s1 w_def)
qed

lemma shm_get_short:
  "shm_inv h s \<Longrightarrow> int (shm_used h s) < n \<Longrightarrow>
   shmfifo_ll_get h s n = Short (s\<lparr>counter := i32 (counter s + 1)\<rparr>)"
proof -
  assume i: "shm_inv h s" and n: "int (shm_used h s) < n"
  let ?s = "s\<lparr>counter := i32 (counter s + 1)\<rparr>"
  have "shm_inv h ?s" using i by (simp add: shm_inv_def)
  moreover have "shm_used h ?s = shm_used h s" by (simp add: shm_used_def)
  ultimately have "shmfifo_ll_memused h ?s < n" using n memused_eq [of h ?s] by simp
  with n show ?thesis by (simp add: shmfifo_ll_get_def Let_def)
qed

definition shm_put :: "shmhandle \<Rightarrow> segment \<Rightarrow> byte list \<Rightarrow> segment option" where
  "shm_put h s d = (case shmfifo_ll_put h s d of Some (r, s') \<Rightarrow> if r = int (length d) then Some s' else None | None \<Rightarrow> None)"

definition shm_get :: "shmhandle \<Rightarrow> segment \<Rightarrow> nat \<Rightarrow> (byte list \<times> segment) option" where
  "shm_get h s n = (case shmfifo_ll_get h s (int n) of Got d s' \<Rightarrow> Some (d, s') | _ \<Rightarrow> None)"

interpretation sq: byte_queue "shm_inv h" "shm_content h" "\<lambda>_. ringsz h - 1" "shm_put h" "shm_get h" for h
proof unfold_locales
  fix q and d :: "byte list"
  assume i: "shm_inv h q" and l: "length (shm_content h q) + length d \<le> ringsz h - 1"
  have "shm_used h q + length d < ringsz h" using l shm_invD(8) [OF i] by simp
  from shm_put_ok [OF i this]
  show "\<exists>q'. shm_put h q d = Some q' \<and> shm_inv h q' \<and> shm_content h q' = shm_content h q @ d \<and> ringsz h - 1 = ringsz h - 1"
    by (auto simp: shm_put_def)
next
  fix q and n :: nat
  assume i: "shm_inv h q" and n: "0 < n" "n \<le> length (shm_content h q)"
  have "0 < int n" "int n \<le> int (shm_used h q)" using n by simp_all
  from shm_get_ok [OF i this]
  show "\<exists>q'. shm_get h q n = Some (take n (shm_content h q), q') \<and> shm_inv h q' \<and>
     shm_content h q' = drop n (shm_content h q) \<and> ringsz h - 1 = ringsz h - 1"
    by (auto simp: shm_get_def)
next
  fix q and n :: nat
  assume "shm_inv h q" "length (shm_content h q) < n"
  then show "shm_get h q n = None"
    using shm_get_short [of h q "int n"] by (simp add: shm_get_def)
qed


text \<open>\<open>shmfifo_ll_hrewind\<close> puts the header bytes back: it undoes a get of \<open>sizeof(struct shmbh)\<close>.\<close>

lemma hrewind_get:
  assumes i: "shm_inv h s" and u: "bh_size \<le> shm_used h s"
    and g: "shmfifo_ll_get h s (int bh_size) = Got hdr s1"
  shows "shm_inv h (shmfifo_ll_hrewind h s1) \<and> shm_content h (shmfifo_ll_hrewind h s1) = shm_content h s \<and>
    s_read (shmfifo_ll_hrewind h s1) = s_read s"
proof -
  note D = shm_invD [OF i]
  have "0 < int bh_size" "int bh_size \<le> int (shm_used h s)" using u by (simp_all add: bh_size_def)
  from shm_get_ok [OF i this] g have s1: "shm_inv h s1" "s_write s1 = s_write s" "mem s1 = mem s"
    "s_read s1 = base h + (s_read s - base h + 8) mod ringsz h"
    by (auto simp: bh_size_def)
  have R: "8 < ringsz h" using u D(8) by (simp add: bh_size_def)
  have rz: "ringsz h = h_sz h - base h" by (simp add: ringsz_def)
  have bh: "prefix_size + h_privsz h = base h" by (simp add: base_def)
  have b2: "int (h_privsz h) = int (base h) - int prefix_size" by (simp add: base_def)
  define x where "x = s_read s - base h"
  have x: "s_read s = base h + x" "x < ringsz h" using D(3,4) rz by (auto simp: x_def)
  have r1: "s_read s1 = base h + (if x + 8 < ringsz h then x + 8 else x + 8 - ringsz h)"
    using s1(4) x R by (simp add: x_def [symmetric] mod_if)
  have hz: "int (h_sz h) = int (base h) + int (ringsz h)" using D(2) rz by simp
  have r: "s_read (shmfifo_ll_hrewind h s1) = s_read s"
    unfolding shmfifo_ll_hrewind_def Let_def bh
    using r1 x R by (auto simp: bh_size_def hz b2 nat_eq_iff)
  have o: "s_write (shmfifo_ll_hrewind h s1) = s_write s1" "mem (shmfifo_ll_hrewind h s1) = mem s1"
    by (simp_all add: shmfifo_ll_hrewind_def Let_def)
  show ?thesis
    using r o s1(2,3) i by (simp add: shm_inv_def shm_content_def shm_used_def)
qed

end
