(* ===== verification/Shm_Sync.thy ===== *)
theory Shm_Sync
  imports Shm_Fifo
begin

text \<open>
  The locking and notification layer of \<open>shmfifo.c\<close> and its two record operations,
  \<open>shmfifo_get\<close> and \<open>shmfifo_put\<close>.

  The state \<open>shmst\<close> is the semaphore set, the segment and the results of the coming semaphore
  calls: each \<open>semctl\<close> or \<open>semop\<close> takes the next element of \<open>fails\<close> (\<open>True\<close>: it returns -1; an
  exhausted list stands for calls that succeed). A \<open>semop\<close> that has to wait ends the modelled call with
  \<open>Blocked i st\<close>: the process sleeps on semaphore \<open>i\<close> in state \<open>st\<close>; what it does when it wakes is
  the operation named at its resume point. \<open>dbg\<close> is \<open>ulogIsDebug()\<close>. Log output itself is not
  modelled, what the logging helper does to the lock is.
\<close>

section \<open>State and outcomes\<close>

record shmst =
  sem :: sems
  seg :: segment
  fails :: "bool list"

datatype 'r shm_out = Ret 'r shmst | Blocked SemIndex shmst | Aborted shmst | BadMem

definition sys :: "shmst \<Rightarrow> bool \<times> shmst" where
  "sys st = (case fails st of [] \<Rightarrow> (False, st) | b # bs \<Rightarrow> (b, st\<lparr>fails := bs\<rparr>))"

lemma sys_ok [simp]: "fails st = [] \<Longrightarrow> sys st = (False, st)"
  by (simp add: sys_def)

fun semval :: "SemIndex \<Rightarrow> sems \<Rightarrow> nat" where
  "semval SI_LOCK s = lockVal s"
| "semval SI_WRITER s = writerVal s"
| "semval SI_READER s = readerVal s"

fun set_semval :: "SemIndex \<Rightarrow> nat \<Rightarrow> sems \<Rightarrow> sems" where
  "set_semval SI_LOCK v s = s\<lparr>lockVal := v\<rparr>"
| "set_semval SI_WRITER v s = s\<lparr>writerVal := v\<rparr>"
| "set_semval SI_READER v s = s\<lparr>readerVal := v\<rparr>"

section \<open>The lock\<close>

definition checkUnlocked :: "int \<Rightarrow> shmhandle \<Rightarrow> shmst \<Rightarrow> int \<times> shmst" where
  "checkUnlocked pid h st =
     (if h_semid h < 0 then (EINVAL, st)
      else let (f1, st1) = sys st; (f2, st2) = sys st1
           in if f1 \<or> f2 then (ECANCELED, st2)
              else if lockVal (sem st2) = 0 \<and> pid = lockPid (sem st2) then (EINVAL, st2)
              else (0, st2))"

definition shmfifo_lock :: "int \<Rightarrow> shmhandle \<Rightarrow> shmst \<Rightarrow> int shm_out" where
  "shmfifo_lock pid h st =
     (case checkUnlocked pid h st of (status, st1) \<Rightarrow>
        if status = 0
        then (let (f, st2) = sys st1
              in if f then Ret ECANCELED st2
                 else if lockVal (sem st2) = 0 then Blocked SI_LOCK st2
                 else Ret 0 (st2\<lparr>sem := sem st2\<lparr>lockVal := lockVal (sem st2) - 1, lockPid := pid\<rparr>\<rparr>))
        else Ret status st1)"

definition checkLocked :: "int \<Rightarrow> shmhandle \<Rightarrow> shmst \<Rightarrow> int \<times> shmst" where
  "checkLocked pid h st =
     (if h_semid h < 0 then (EINVAL, st)
      else let (f1, st1) = sys st; (f2, st2) = sys st1
           in if f1 \<or> f2 then (ECANCELED, st2)
              else if lockVal (sem st2) \<noteq> 0 then (EINVAL, st2)
              else if pid \<noteq> lockPid (sem st2) then (EINVAL, st2)
              else (0, st2))"

definition shmfifo_unlock :: "int \<Rightarrow> shmhandle \<Rightarrow> shmst \<Rightarrow> int \<times> shmst" where
  "shmfifo_unlock pid h st =
     (case checkLocked pid h st of (status, st1) \<Rightarrow>
        if status = 0
        then (let (f, st2) = sys st1
              in if f then (ECANCELED, st2)
                 else (0, st2\<lparr>sem := sem st2\<lparr>lockVal := lockVal (sem st2) + 1, lockPid := pid\<rparr>\<rparr>))
        else (status, st1))"

text \<open>
  \<open>shmfifo_printmemstatus\<close> locks and unlocks around its message when debug logging is on, and
  ignores both results.
\<close>

definition shmfifo_printmemstatus :: "bool \<Rightarrow> int \<Rightarrow> shmhandle \<Rightarrow> shmst \<Rightarrow> unit shm_out" where
  "shmfifo_printmemstatus dbg pid h st =
     (if dbg
      then (case shmfifo_lock pid h st of
              Ret _ st1 \<Rightarrow> Ret () (snd (shmfifo_unlock pid h st1))
            | Blocked i st1 \<Rightarrow> Blocked i st1 | Aborted st1 \<Rightarrow> Aborted st1 | BadMem \<Rightarrow> BadMem)
      else Ret () st)"

section \<open>Waiting and notifying\<close>

definition vetSemIndex :: "SemIndex \<Rightarrow> int" where
  "vetSemIndex i = (if i = SI_READER \<or> i = SI_WRITER then 0 else EINVAL)"

text \<open>A process that sleeps in \<open>shmfifo_wait\<close> resumes at \<open>wait_wake\<close>.\<close>

definition wait_wake :: "int \<Rightarrow> shmhandle \<Rightarrow> shmst \<Rightarrow> SemIndex \<Rightarrow> int shm_out" where
  "wait_wake pid h st i =
     (if semval i (sem st) = 0 then Blocked i st
      else shmfifo_lock pid h (st\<lparr>sem := set_semval i (semval i (sem st) - 1) (sem st)\<rparr>))"

definition shmfifo_wait :: "int \<Rightarrow> shmhandle \<Rightarrow> shmst \<Rightarrow> SemIndex \<Rightarrow> int shm_out" where
  "shmfifo_wait pid h st i =
     (if vetSemIndex i \<noteq> 0 then Ret (vetSemIndex i) st
      else case shmfifo_unlock pid h st of (status, st1) \<Rightarrow>
        if status = 0
        then (let (f, st2) = sys st1 in if f then Ret ECANCELED st2 else wait_wake pid h st2 i)
        else Ret status st1)"

definition shmfifo_wait_reader :: "int \<Rightarrow> shmhandle \<Rightarrow> shmst \<Rightarrow> int shm_out" where
  "shmfifo_wait_reader pid h st = shmfifo_wait pid h st SI_READER"

definition shmfifo_wait_writer :: "int \<Rightarrow> shmhandle \<Rightarrow> shmst \<Rightarrow> int shm_out" where
  "shmfifo_wait_writer pid h st = shmfifo_wait pid h st SI_WRITER"

definition shmfifo_notify :: "int \<Rightarrow> shmhandle \<Rightarrow> shmst \<Rightarrow> SemIndex \<Rightarrow> int \<times> shmst" where
  "shmfifo_notify pid h st which =
     (case checkLocked pid h st of (status, st1) \<Rightarrow>
        if status = 0
        then (if vetSemIndex which = 0
              then (let (f, st2) = sys st1
                    in if f then (ECANCELED, st2)
                       else (0, st2\<lparr>sem := set_semval which 1 (sem st2)\<rparr>))
              else (vetSemIndex which, st1))
        else (status, st1))"

definition shmfifo_notify_writer :: "int \<Rightarrow> shmhandle \<Rightarrow> shmst \<Rightarrow> int \<times> shmst" where
  "shmfifo_notify_writer pid h st = shmfifo_notify pid h st SI_WRITER"

definition shmfifo_notify_reader :: "int \<Rightarrow> shmhandle \<Rightarrow> shmst \<Rightarrow> int \<times> shmst" where
  "shmfifo_notify_reader pid h st = shmfifo_notify pid h st SI_READER"

text \<open>
  The waiting loops of \<open>shmfifo_get\<close> and \<open>shmfifo_put\<close>. Each turn that does not sleep uses up a
  pending notification, so the semaphore value bounds the turns.
\<close>

lemma shmfifo_lock_sem:
  "shmfifo_lock pid h st = Ret v st' \<Longrightarrow> readerVal (sem st') = readerVal (sem st) \<and> writerVal (sem st') = writerVal (sem st)"
  by (auto simp: shmfifo_lock_def checkUnlocked_def sys_def Let_def split: if_splits list.splits)

lemma shmfifo_unlock_sem:
  "shmfifo_unlock pid h st = (v, st') \<Longrightarrow> readerVal (sem st') = readerVal (sem st) \<and> writerVal (sem st') = writerVal (sem st)"
  by (auto simp: shmfifo_unlock_def checkLocked_def sys_def Let_def split: if_splits list.splits)

lemma sys_sem: "sys st = (f, st') \<Longrightarrow> sem st' = sem st"
  by (auto simp: sys_def split: list.splits)

lemma shmfifo_wait_decreases:
  assumes "shmfifo_wait pid h st i = Ret 0 st'"
  shows "semval i (sem st') < semval i (sem st)"
proof -
  obtain u st1 where u: "shmfifo_unlock pid h st = (u, st1)" by fastforce
  obtain f st2 where f: "sys st1 = (f, st2)" by fastforce
  have i: "i = SI_READER \<or> i = SI_WRITER"
    using assms by (cases i) (auto simp: shmfifo_wait_def vetSemIndex_def)
  have w: "wait_wake pid h st2 i = Ret 0 st'"
    using assms u f i by (auto simp: shmfifo_wait_def vetSemIndex_def split: if_splits)
  then have pos: "0 < semval i (sem st2)" by (auto simp: wait_wake_def split: if_splits)
  with w have "shmfifo_lock pid h (st2\<lparr>sem := set_semval i (semval i (sem st2) - 1) (sem st2)\<rparr>) = Ret 0 st'"
    by (simp add: wait_wake_def)
  from shmfifo_lock_sem [OF this] pos i shmfifo_unlock_sem [OF u] sys_sem [OF f]
  show ?thesis by auto
qed

function get_wait :: "int \<Rightarrow> shmhandle \<Rightarrow> shmst \<Rightarrow> int shm_out" where
  "get_wait pid h st =
     (if shmfifo_ll_memused h (seg st) = 0
      then (case shmfifo_wait_reader pid h st of
              Ret v st' \<Rightarrow> if v = 0 then get_wait pid h st' else Ret v st'
            | Blocked i st' \<Rightarrow> Blocked i st' | Aborted st' \<Rightarrow> Aborted st' | BadMem \<Rightarrow> BadMem)
      else Ret 0 st)"
  by pat_completeness auto

termination
  by (relation "measure (\<lambda>(pid, h, st). readerVal (sem st))")
    (use shmfifo_wait_decreases [of _ _ _ SI_READER] in \<open>auto simp: shmfifo_wait_reader_def\<close>)

function put_wait :: "int \<Rightarrow> shmhandle \<Rightarrow> shmst \<Rightarrow> nat \<Rightarrow> int shm_out" where
  "put_wait pid h st need =
     (if to_size (shmfifo_ll_memfree h (seg st)) \<le> need
      then (case shmfifo_wait_writer pid h st of
              Ret v st' \<Rightarrow> if v = 0 then put_wait pid h st' need else Ret v st'
            | Blocked i st' \<Rightarrow> Blocked i st' | Aborted st' \<Rightarrow> Aborted st' | BadMem \<Rightarrow> BadMem)
      else Ret 0 st)"
  by pat_completeness auto

termination
  by (relation "measure (\<lambda>(pid, h, st, need). writerVal (sem st))")
    (use shmfifo_wait_decreases [of _ _ _ SI_WRITER] in \<open>auto simp: shmfifo_wait_writer_def\<close>)

declare get_wait.simps [simp del] put_wait.simps [simp del]

end
