(* ===== verification/Shm_Records.thy ===== *)
theory Shm_Records
  imports Shm_Sync
begin

text \<open>
  The record operations of \<open>shmfifo.c\<close>: \<open>shmfifo_put\<close> frames a record by its length and the sentinel
  \<open>0xDEADBEEF\<close>, \<open>shmfifo_get\<close> takes one record out. Both are split where they can sleep: the part up
  to the lock, the part that holds it (\<open>get_locked\<close>, \<open>put_locked\<close>, also the resume point of a sleeper),
  and the body that moves the bytes. The refinement lemmas relate them to a list of records.
\<close>

section \<open>Operations\<close>

definition canary :: int where "canary = 0xDEADBEEF"

text \<open>Result of a get: the status, \<open>*nbytes\<close> if it is set, and what is in the client's buffer.\<close>

type_synonym get_result = "int \<times> int option \<times> byte list option"

definition get_body :: "bool \<Rightarrow> int \<Rightarrow> shmhandle \<Rightarrow> shmst \<Rightarrow> int \<Rightarrow> get_result shm_out" where
  "get_body dbg pid h st sz =
     (if shmfifo_ll_memused h (seg st) < int bh_size then Ret (EINVAL, None, None) st
      else case shmfifo_ll_get h (seg st) (int bh_size) of
        Got hdr s1 \<Rightarrow>
          (let st1 = st\<lparr>seg := s1\<rparr>;
               hsz = i32 (le_uint (take 4 hdr)); hcanary = le_uint (drop 4 hdr)
           in if hcanary \<noteq> canary then Ret (EIO, None, None) st1
              else if shmfifo_ll_memused h s1 < hsz then Ret (EIO, None, None) st1
              else if sz < hsz then Ret (EINVAL, None, None) (st1\<lparr>seg := shmfifo_ll_hrewind h s1\<rparr>)
              else case shmfifo_ll_get h s1 hsz of
                Abort \<Rightarrow> Aborted (snd (shmfifo_unlock pid h (st1\<lparr>seg := s1\<lparr>counter := i32 (counter s1 + 1)\<rparr>\<rparr>)))
              | Got d s2 \<Rightarrow>
                  (case shmfifo_printmemstatus dbg pid h (st1\<lparr>seg := s2\<rparr>) of
                     Ret _ st2 \<Rightarrow>
                       (case shmfifo_notify_writer pid h st2 of (v, st3) \<Rightarrow>
                          Ret (v, if v = 0 then Some hsz else None, Some d) st3)
                   | Blocked i st2 \<Rightarrow> Blocked i st2 | Aborted st2 \<Rightarrow> Aborted st2 | BadMem \<Rightarrow> BadMem)
              | _ \<Rightarrow> BadMem)
      | _ \<Rightarrow> BadMem)"

text \<open>The status of the final unlock replaces the one computed before.\<close>

definition get_locked :: "bool \<Rightarrow> int \<Rightarrow> shmhandle \<Rightarrow> shmst \<Rightarrow> int \<Rightarrow> get_result shm_out" where
  "get_locked dbg pid h st sz =
     (case get_wait pid h st of
        Ret v st1 \<Rightarrow>
          (case (if v = 0 then get_body dbg pid h st1 sz else Ret (v, None, None) st1) of
             Ret (v', nb, d) st2 \<Rightarrow>
               (case shmfifo_unlock pid h st2 of (status, st3) \<Rightarrow> Ret (status, nb, d) st3)
           | Blocked i st2 \<Rightarrow> Blocked i st2 | Aborted st2 \<Rightarrow> Aborted st2 | BadMem \<Rightarrow> BadMem)
      | Blocked i st1 \<Rightarrow> Blocked i st1 | Aborted st1 \<Rightarrow> Aborted st1 | BadMem \<Rightarrow> BadMem)"

definition shmfifo_get :: "bool \<Rightarrow> int \<Rightarrow> shmhandle \<Rightarrow> shmst \<Rightarrow> int \<Rightarrow> get_result shm_out" where
  "shmfifo_get dbg pid h st sz =
     (if sz \<le> 0 then Ret (EINVAL, None, None) st
      else case shmfifo_printmemstatus dbg pid h st of
        Ret _ st0 \<Rightarrow>
          (case shmfifo_lock pid h st0 of
             Ret v st1 \<Rightarrow> if v = 0 then get_locked dbg pid h st1 sz else Ret (v, None, None) st1
           | Blocked i st1 \<Rightarrow> Blocked i st1 | Aborted st1 \<Rightarrow> Aborted st1 | BadMem \<Rightarrow> BadMem)
      | Blocked i st0 \<Rightarrow> Blocked i st0 | Aborted st0 \<Rightarrow> Aborted st0 | BadMem \<Rightarrow> BadMem)"

definition put_body :: "int \<Rightarrow> shmhandle \<Rightarrow> shmst \<Rightarrow> byte list \<Rightarrow> int shm_out" where
  "put_body pid h st data =
     (case shmfifo_ll_put h (seg st) (le32 (int (length data)) @ le32 canary) of
        None \<Rightarrow> BadMem
      | Some (_, s1) \<Rightarrow>
          (case shmfifo_ll_put h s1 data of
             None \<Rightarrow> BadMem
           | Some (_, s2) \<Rightarrow>
               (case shmfifo_notify_reader pid h (st\<lparr>seg := s2\<rparr>) of (v, st3) \<Rightarrow> Ret v st3)))"

definition put_tail :: "int \<Rightarrow> shmhandle \<Rightarrow> int shm_out \<Rightarrow> byte list \<Rightarrow> int shm_out" where
  "put_tail pid h waited data =
     (case waited of
        Ret v st1 \<Rightarrow>
          (case (if v = 0 then put_body pid h st1 data else Ret v st1) of
             Ret _ st2 \<Rightarrow> (case shmfifo_unlock pid h st2 of (status, st3) \<Rightarrow> Ret status st3)
           | Blocked i st2 \<Rightarrow> Blocked i st2 | Aborted st2 \<Rightarrow> Aborted st2 | BadMem \<Rightarrow> BadMem)
      | Blocked i st1 \<Rightarrow> Blocked i st1 | Aborted st1 \<Rightarrow> Aborted st1 | BadMem \<Rightarrow> BadMem)"

text \<open>
  With the lock held: a record bigger than the ring sets \<open>E2BIG\<close>, which the unlock that follows
  overwrites; otherwise wait for room and write. A sleeper resumes at the waiting loop.
\<close>

definition put_locked :: "int \<Rightarrow> shmhandle \<Rightarrow> shmst \<Rightarrow> byte list \<Rightarrow> int shm_out" where
  "put_locked pid h st data =
     (let need = length data + bh_size;
          maxSize = to_size (shmfifo_ll_memused h (seg st) + shmfifo_ll_memfree h (seg st))
      in if maxSize < need
         then put_tail pid h (Ret E2BIG st) data
         else put_tail pid h (put_wait pid h st need) data)"

text \<open>A negative size argument is the first branch of the source; \<open>data\<close> here has its true size.\<close>

definition shmfifo_put :: "bool \<Rightarrow> int \<Rightarrow> shmhandle \<Rightarrow> shmst \<Rightarrow> byte list \<Rightarrow> int \<Rightarrow> int shm_out" where
  "shmfifo_put dbg pid h st buf sz =
     (if sz < 0 then Ret EINVAL st
      else if length buf < nat sz then BadMem
      else case shmfifo_printmemstatus dbg pid h st of
        Ret _ st0 \<Rightarrow>
          (case shmfifo_lock pid h st0 of
             Ret v st1 \<Rightarrow> if v = 0 then put_locked pid h st1 (take (nat sz) buf) else Ret v st1
           | Blocked i st1 \<Rightarrow> Blocked i st1 | Aborted st1 \<Rightarrow> Aborted st1 | BadMem \<Rightarrow> BadMem)
      | Blocked i st0 \<Rightarrow> Blocked i st0 | Aborted st0 \<Rightarrow> Aborted st0 | BadMem \<Rightarrow> BadMem)"

section \<open>Lock lemmas\<close>

text \<open>A handle with a semaphore set, no failing semaphore calls and the lock free.\<close>

definition ready :: "shmhandle \<Rightarrow> shmst \<Rightarrow> bool" where
  "ready h st \<longleftrightarrow> 0 \<le> h_semid h \<and> fails st = [] \<and> lockVal (sem st) = 1"

definition held :: "int \<Rightarrow> shmhandle \<Rightarrow> shmst \<Rightarrow> bool" where
  "held pid h st \<longleftrightarrow> 0 \<le> h_semid h \<and> fails st = [] \<and> lockVal (sem st) = 0 \<and> lockPid (sem st) = pid"

definition take_lock :: "int \<Rightarrow> shmst \<Rightarrow> shmst" where
  "take_lock pid st = st\<lparr>sem := sem st\<lparr>lockVal := 0, lockPid := pid\<rparr>\<rparr>"

definition drop_lock :: "shmst \<Rightarrow> shmst" where
  "drop_lock st = st\<lparr>sem := sem st\<lparr>lockVal := 1\<rparr>\<rparr>"

named_theorems lk \<open>effect of the semaphore operations when no call fails\<close>

lemma lock_ready [lk]: "ready h st \<Longrightarrow> shmfifo_lock pid h st = Ret 0 (take_lock pid st)"
  by (simp add: ready_def shmfifo_lock_def checkUnlocked_def take_lock_def)

lemma held_take_lock [lk]: "ready h st \<Longrightarrow> held pid h (take_lock pid st)"
  by (simp add: ready_def held_def take_lock_def)

lemma unlock_held [lk]: "held pid h st \<Longrightarrow> shmfifo_unlock pid h st = (0, drop_lock st)"
  by (simp add: held_def shmfifo_unlock_def checkLocked_def drop_lock_def)

lemma ready_drop_lock [lk]: "held pid h st \<Longrightarrow> ready h (drop_lock st)"
  by (simp add: ready_def held_def drop_lock_def)

lemma notify_held [lk]:
  "held pid h st \<Longrightarrow> shmfifo_notify_writer pid h st = (0, st\<lparr>sem := sem st\<lparr>writerVal := 1\<rparr>\<rparr>)"
  "held pid h st \<Longrightarrow> shmfifo_notify_reader pid h st = (0, st\<lparr>sem := sem st\<lparr>readerVal := 1\<rparr>\<rparr>)"
  by (simp_all add: held_def shmfifo_notify_writer_def shmfifo_notify_reader_def shmfifo_notify_def
      checkLocked_def vetSemIndex_def)

lemma held_seg [simp]: "held pid h (st\<lparr>seg := s\<rparr>) = held pid h st"
  by (simp add: held_def)

lemma held_notified [simp]:
  "held pid h (st\<lparr>sem := sem st\<lparr>writerVal := v\<rparr>\<rparr>) = held pid h st"
  "held pid h (st\<lparr>sem := sem st\<lparr>readerVal := v\<rparr>\<rparr>) = held pid h st"
  by (simp_all add: held_def)

lemma seg_lock [simp]: "seg (take_lock pid st) = seg st" "seg (drop_lock st) = seg st"
  by (simp_all add: take_lock_def drop_lock_def)

lemma print_quiet [simp]: "shmfifo_printmemstatus False pid h st = Ret () st"
  by (simp add: shmfifo_printmemstatus_def)

section \<open>Refinement to a list of records\<close>

definition frame :: "byte list \<Rightarrow> byte list" where
  "frame d = le32 (int (length d)) @ le32 canary @ d"

definition holds :: "shmhandle \<Rightarrow> shmst \<Rightarrow> byte list list \<Rightarrow> bool" where
  "holds h st rs \<longleftrightarrow> shm_inv h (seg st) \<and> shm_content h (seg st) = concat (map frame rs) \<and>
     (\<forall>r\<in>set rs. r \<noteq> [])"

lemma length_frame [simp]: "length (frame d) = bh_size + length d"
  by (simp add: frame_def bh_size_def)

lemma to_size_int [csize]: "int n < 2 ^ 64 \<Longrightarrow> to_size (int n) = n"
  by (simp add: to_size_def)

lemma shm_total: "shm_inv h s \<Longrightarrow> to_size (shmfifo_ll_memused h s + shmfifo_ll_memfree h s) = ringsz h"
  using shm_invD(9) [of h s] by (simp add: memused_eq memfree_eq to_size_int ringsz_def)

lemma shm_free: "shm_inv h s \<Longrightarrow> to_size (shmfifo_ll_memfree h s) = ringsz h - shm_used h s"
proof -
  assume i: "shm_inv h s"
  have "shmfifo_ll_memfree h s = int (ringsz h - shm_used h s)"
    using memfree_eq [OF i] shm_invD(8) [OF i] by (simp add: of_nat_diff)
  moreover have "int (ringsz h - shm_used h s) < 2 ^ 64"
    using shm_invD(9) [OF i] by (simp add: ringsz_def)
  ultimately show ?thesis by (simp only: to_size_int)
qed

lemma put_body_ok:
  assumes hd: "held pid h st" and i: "shm_inv h (seg st)"
    and fit: "shm_used h (seg st) + bh_size + length d < ringsz h"
  shows "\<exists>s2. put_body pid h st d = Ret 0 (st\<lparr>seg := s2, sem := sem st\<lparr>readerVal := 1\<rparr>\<rparr>) \<and> shm_inv h s2 \<and>
    shm_content h s2 = shm_content h (seg st) @ frame d"
proof -
  let ?hd = "le32 (int (length d)) @ le32 canary"
  have "shm_used h (seg st) + length ?hd < ringsz h" using fit by (simp add: bh_size_def)
  from shm_put_ok [OF i this] obtain s1 where s1:
    "shmfifo_ll_put h (seg st) ?hd = Some (int (length ?hd), s1)" "shm_inv h s1"
    "shm_content h s1 = shm_content h (seg st) @ ?hd" by blast
  have "shm_used h s1 = shm_used h (seg st) + 8"
    using s1(3) by (metis length_shm_content length_append length_le32 numeral_Bit0)
  then have "shm_used h s1 + length d < ringsz h" using fit by (simp add: bh_size_def)
  from shm_put_ok [OF s1(2) this] obtain s2 where s2:
    "shmfifo_ll_put h s1 d = Some (int (length d), s2)" "shm_inv h s2"
    "shm_content h s2 = shm_content h s1 @ d" by blast
  have "put_body pid h st d = Ret 0 (st\<lparr>seg := s2, sem := sem st\<lparr>readerVal := 1\<rparr>\<rparr>)"
    using s1(1) s2(1) hd by (simp add: put_body_def notify_held)
  with s2 s1(3) show ?thesis by (auto simp: frame_def)
qed


lemma put_locked_ok:
  assumes hd: "held pid h st" and i: "shm_inv h (seg st)"
    and fit: "shm_used h (seg st) + bh_size + length d < ringsz h"
  shows "\<exists>s2. put_locked pid h st d = Ret 0 (drop_lock (st\<lparr>seg := s2, sem := sem st\<lparr>readerVal := 1\<rparr>\<rparr>)) \<and>
    shm_inv h s2 \<and> shm_content h s2 = shm_content h (seg st) @ frame d"
proof -
  obtain s2 where s2: "put_body pid h st d = Ret 0 (st\<lparr>seg := s2, sem := sem st\<lparr>readerVal := 1\<rparr>\<rparr>)"
    "shm_inv h s2" "shm_content h s2 = shm_content h (seg st) @ frame d"
    using put_body_ok [OF assms] by blast
  have big: "\<not> ringsz h < length d + bh_size" using fit by simp
  have room: "\<not> ringsz h - shm_used h (seg st) \<le> length d + bh_size" using fit by simp
  have w: "put_wait pid h st (length d + bh_size) = Ret 0 st"
    using room by (subst put_wait.simps) (simp add: shm_free [OF i])
  have hd2: "held pid h (st\<lparr>seg := s2, sem := sem st\<lparr>readerVal := 1\<rparr>\<rparr>)"
    using hd by (simp add: held_def)
  have "put_locked pid h st d = Ret 0 (drop_lock (st\<lparr>seg := s2, sem := sem st\<lparr>readerVal := 1\<rparr>\<rparr>))"
    using big w s2(1) unlock_held [OF hd2]
    by (simp add: put_locked_def Let_def shm_total [OF i] put_tail_def)
  with s2 show ?thesis by blast
qed

lemma shmfifo_put_ok:
  assumes r: "ready h st" and i: "shm_inv h (seg st)"
    and fit: "shm_used h (seg st) + bh_size + length d < ringsz h"
  shows "\<exists>st'. shmfifo_put False pid h st d (int (length d)) = Ret 0 st' \<and> ready h st' \<and> shm_inv h (seg st') \<and>
    readerVal (sem st') = 1 \<and> shm_content h (seg st') = shm_content h (seg st) @ frame d"
proof -
  have hd: "held pid h (take_lock pid st)" using r by (rule held_take_lock)
  from put_locked_ok [OF this, of d] i fit obtain s2 where s2:
    "put_locked pid h (take_lock pid st) d =
       Ret 0 (drop_lock (take_lock pid st\<lparr>seg := s2, sem := sem (take_lock pid st)\<lparr>readerVal := 1\<rparr>\<rparr>))"
    "shm_inv h s2" "shm_content h s2 = shm_content h (seg st) @ frame d" by auto
  have "shmfifo_put False pid h st d (int (length d)) =
       Ret 0 (drop_lock (take_lock pid st\<lparr>seg := s2, sem := sem (take_lock pid st)\<lparr>readerVal := 1\<rparr>\<rparr>))"
    using s2(1) lock_ready [OF r] by (simp add: shmfifo_put_def)
  with s2 r show ?thesis
    by (auto simp: ready_def drop_lock_def take_lock_def)
qed

text \<open>What the reader sees of a framed record.\<close>

lemma frame_take: "take 8 (frame d @ rest) = le32 (int (length d)) @ le32 canary"
  by (simp add: frame_def)

lemma frame_drop: "drop 8 (frame d @ rest) = d @ rest"
  by (simp add: frame_def)

lemma canary_decode: "le_uint (le32 canary) = canary"
  by (rule le_uint_le32) (simp_all add: canary_def)

lemma size_decode: "length d < 2 ^ 31 \<Longrightarrow> i32 (le_uint (le32 (int (length d)))) = int (length d)"
  by (subst le_uint_le32) (auto simp: i32_id)

lemma get_header:
  assumes i: "shm_inv h s" and c: "shm_content h s = frame d @ rest"
  shows "\<exists>s1. shmfifo_ll_get h s (int bh_size) = Got (le32 (int (length d)) @ le32 canary) s1 \<and> shm_inv h s1 \<and>
    shm_content h s1 = d @ rest \<and> bh_size + length d \<le> shm_used h s \<and> shm_used h s1 = length d + length rest \<and>
    length d < 2 ^ 31"
proof -
  have l: "shm_used h s = bh_size + length d + length rest"
    using c by (metis length_shm_content length_append length_frame)
  have "0 < int bh_size" "int bh_size \<le> int (shm_used h s)" using l by (simp_all add: bh_size_def)
  from shm_get_ok [OF i this] obtain s1 where
    s1: "shmfifo_ll_get h s (int bh_size) = Got (take 8 (shm_content h s)) s1" "shm_inv h s1"
    "shm_content h s1 = drop 8 (shm_content h s)" by (auto simp: bh_size_def)
  note s1(1,2) [unfolded c frame_take] s1(3) [unfolded c frame_drop]
  moreover have "length d < 2 ^ 31"
    using l shm_invD(8,9) [OF i] by (simp add: ringsz_def)
  moreover have "shm_used h s1 = length d + length rest" if "shm_content h s1 = d @ rest"
    using that by (metis length_shm_content length_append)
  ultimately show ?thesis using l by auto
qed

lemma get_body_ok:
  assumes hd: "held pid h st" and i: "shm_inv h (seg st)" and c: "shm_content h (seg st) = frame d @ rest"
    and d: "d \<noteq> []" and sz: "int (length d) \<le> sz"
  shows "\<exists>s2. get_body False pid h st sz =
      Ret (0, Some (int (length d)), Some d) (st\<lparr>seg := s2, sem := sem st\<lparr>writerVal := 1\<rparr>\<rparr>) \<and>
    shm_inv h s2 \<and> shm_content h s2 = rest"
proof -
  obtain s1 where s1: "shmfifo_ll_get h (seg st) (int bh_size) = Got (le32 (int (length d)) @ le32 canary) s1"
    "shm_inv h s1" "shm_content h s1 = d @ rest" "bh_size + length d \<le> shm_used h (seg st)"
    "shm_used h s1 = length d + length rest" "length d < 2 ^ 31"
    using get_header [OF i c] by blast
  have "0 < int (length d)" "int (length d) \<le> int (shm_used h s1)" using d s1(5) by simp_all
  from shm_get_ok [OF s1(2) this] s1(3) obtain s2 where s2:
    "shmfifo_ll_get h s1 (int (length d)) = Got d s2" "shm_inv h s2" "shm_content h s2 = rest" by auto
  have "get_body False pid h st sz =
      Ret (0, Some (int (length d)), Some d) (st\<lparr>seg := s2, sem := sem st\<lparr>writerVal := 1\<rparr>\<rparr>)"
    using s1(1,4,5,6) s2(1) hd sz
    by (simp add: get_body_def Let_def memused_eq [OF i] memused_eq [OF s1(2)] size_decode canary_decode notify_held)
  with s2 show ?thesis by blast
qed

lemma get_locked_ok:
  assumes hd: "held pid h st" and i: "shm_inv h (seg st)" and c: "shm_content h (seg st) = frame d @ rest"
    and d: "d \<noteq> []" and sz: "int (length d) \<le> sz"
  shows "\<exists>s2. get_locked False pid h st sz =
      Ret (0, Some (int (length d)), Some d) (drop_lock (st\<lparr>seg := s2, sem := sem st\<lparr>writerVal := 1\<rparr>\<rparr>)) \<and>
    shm_inv h s2 \<and> shm_content h s2 = rest"
proof -
  obtain s2 where s2: "get_body False pid h st sz =
      Ret (0, Some (int (length d)), Some d) (st\<lparr>seg := s2, sem := sem st\<lparr>writerVal := 1\<rparr>\<rparr>)"
    "shm_inv h s2" "shm_content h s2 = rest"
    using get_body_ok [OF assms] by blast
  have "shm_used h (seg st) \<noteq> 0"
    using c d by (metis length_shm_content length_append length_frame add_is_0 length_0_conv)
  then have w: "get_wait pid h st = Ret 0 st"
    by (subst get_wait.simps) (simp add: memused_eq [OF i])
  have hd2: "held pid h (st\<lparr>seg := s2, sem := sem st\<lparr>writerVal := 1\<rparr>\<rparr>)"
    using hd by (simp add: held_def)
  have "get_locked False pid h st sz =
      Ret (0, Some (int (length d)), Some d) (drop_lock (st\<lparr>seg := s2, sem := sem st\<lparr>writerVal := 1\<rparr>\<rparr>))"
    using w s2(1) unlock_held [OF hd2] by (simp add: get_locked_def)
  with s2 show ?thesis by blast
qed

lemma shmfifo_get_ok:
  assumes r: "ready h st" and i: "shm_inv h (seg st)" and c: "shm_content h (seg st) = frame d @ rest"
    and d: "d \<noteq> []" and sz: "int (length d) \<le> sz"
  shows "\<exists>st'. shmfifo_get False pid h st sz = Ret (0, Some (int (length d)), Some d) st' \<and> ready h st' \<and>
    shm_inv h (seg st') \<and> shm_content h (seg st') = rest \<and> writerVal (sem st') = 1"
proof -
  have hd: "held pid h (take_lock pid st)" using r by (rule held_take_lock)
  from get_locked_ok [OF this _ _ d sz, of rest] i c obtain s2 where s2:
    "get_locked False pid h (take_lock pid st) sz = Ret (0, Some (int (length d)), Some d)
       (drop_lock (take_lock pid st\<lparr>seg := s2, sem := sem (take_lock pid st)\<lparr>writerVal := 1\<rparr>\<rparr>))"
    "shm_inv h s2" "shm_content h s2 = rest" by auto
  have "0 < sz" using d sz by (cases d) auto
  then have "shmfifo_get False pid h st sz = Ret (0, Some (int (length d)), Some d)
       (drop_lock (take_lock pid st\<lparr>seg := s2, sem := sem (take_lock pid st)\<lparr>writerVal := 1\<rparr>\<rparr>))"
    using s2(1) lock_ready [OF r] by (simp add: shmfifo_get_def)
  with s2 r show ?thesis
    by (auto simp: ready_def drop_lock_def take_lock_def)
qed

end
