(* ===== verification/Shm_Properties.thy ===== *)
theory Shm_Properties
  imports Shm_Records
begin

text \<open>
  What the shared-memory FIFO guarantees its two processes, and where it does not. A demonstration
  segment of 44 bytes (a ring of 24) serves the witnesses.
\<close>

definition demo_h :: shmhandle where
  "demo_h = \<lparr>h_sid = 0, h_mem = True, h_privsz = 0, h_semid = 3, h_sz = 44\<rparr>"

definition demo_seg :: segment where
  "demo_seg = \<lparr>counter = 0, s_read = 40, s_write = 40, s_sz = 44, s_privsz = 0, mem = replicate 44 0\<rparr>"

definition demo_st :: shmst where
  "demo_st = \<lparr>sem = \<lparr>lockVal = 1, lockPid = 0, writerVal = 0, readerVal = 0\<rparr>, seg = demo_seg, fails = []\<rparr>"

lemma demo_inv [simp]: "shm_inv demo_h demo_seg" "ready demo_h demo_st" "seg demo_st = demo_seg"
  "shm_content demo_h demo_seg = []" "ringsz demo_h = 24" "shm_used demo_h demo_seg = 0" "holds demo_h demo_st []"
  by (simp_all add: shm_inv_def demo_h_def demo_seg_def demo_st_def base_def prefix_size_def ready_def
      shm_content_def shm_used_def ringsz_def holds_def)

lemma length_records: "holds h st rs \<Longrightarrow> shm_used h (seg st) = sum_list (map (\<lambda>r. bh_size + length r) rs)"
proof -
  assume "holds h st rs"
  then have "shm_used h (seg st) = length (concat (map frame rs))"
    by (metis holds_def length_shm_content)
  then show ?thesis by (simp add: length_concat o_def)
qed

text \<open>
  C32: The two-part copies of \<open>shmfifo_ll_put\<close> and \<open>shmfifo_ll_get\<close> keep first-in-first-out order over any
  run of puts that fit and gets that are served, across any number of wraps of the ring.
\<close>

theorem shm_ring_order:
  assumes "shm_inv h s" and "sq.run h s ops = Some (out, s')"
  shows "shm_inv h s' \<and> out @ shm_content h s' = shm_content h s @ put_bytes ops"
  using sq.run_fifo [OF assms] by simp

theorem shm_ring_order_witness:
  "shm_inv demo_h demo_seg \<and> (\<exists>out s'. sq.run demo_h demo_seg [Put [1, 2, 3, 4, 5], Get 3] = Some (out, s') \<and>
     out @ shm_content demo_h s' = [1, 2, 3, 4, 5])"
proof -
  obtain q1 where q1: "shm_put demo_h demo_seg [1, 2, 3, 4, 5] = Some q1" "shm_inv demo_h q1"
    "shm_content demo_h q1 = [1, 2, 3, 4, 5]"
    using sq.putE [OF demo_inv(1), of "[1, 2, 3, 4, 5]"] by auto
  obtain q2 where q2: "shm_get demo_h q1 3 = Some ([1, 2, 3], q2)"
    using sq.getE [OF q1(2), of 3] q1(3) by auto
  have r: "sq.run demo_h demo_seg [Put [1, 2, 3, 4, 5], Get 3] = Some ([1, 2, 3], q2)"
    using q1 q2 unfolding sq.run.simps by simp
  from shm_ring_order [OF demo_inv(1) r] r show ?thesis by simp
qed

text \<open>
  C10: \<open>shmfifo_put\<close> on an unlocked FIFO with room returns 0, appends exactly its record after the
  records already there, notifies the reader and leaves the FIFO unlocked.
\<close>

theorem shmfifo_put_appends:
  assumes "ready h st" and "holds h st rs" and "d \<noteq> []"
    and "sum_list (map (\<lambda>r. bh_size + length r) rs) + bh_size + length d < ringsz h"
  shows "\<exists>st'. shmfifo_put False pid h st d (int (length d)) = Ret 0 st' \<and> ready h st' \<and>
    holds h st' (rs @ [d]) \<and> readerVal (sem st') = 1"
  using shmfifo_put_ok [OF assms(1), of d pid] assms length_records [OF assms(2)] by (auto simp: holds_def)

theorem shmfifo_put_appends_witness:
  "\<exists>st'. shmfifo_put False 7 demo_h demo_st [1, 2, 3] 3 = Ret 0 st' \<and> holds demo_h st' [[1, 2, 3]]"
  using shmfifo_put_appends [OF demo_inv(2) demo_inv(7), of "[1, 2, 3]" 7] by (auto simp: bh_size_def)

text \<open>
  C11: \<open>shmfifo_get\<close> with a big enough buffer on an unlocked, non-empty FIFO returns 0 and the oldest
  record unchanged with its length, removes exactly that record, notifies the writer and leaves the
  FIFO unlocked. Debug logging is off (\<open>False\<close>): with it on, printing the state of the
  memory unlocks the FIFO too early.
\<close>

theorem shmfifo_get_oldest:
  assumes "ready h st" and "holds h st (d # rs)" and "int (length d) \<le> sz"
  shows "\<exists>st'. shmfifo_get False pid h st sz = Ret (0, Some (int (length d)), Some d) st' \<and> ready h st' \<and>
    holds h st' rs \<and> writerVal (sem st') = 1"
  using shmfifo_get_ok [OF assms(1), of d "concat (map frame rs)" sz pid] assms by (auto simp: holds_def)

theorem shmfifo_get_oldest_witness:
  "\<exists>st st'. shmfifo_get False 8 demo_h st 4 = Ret (0, Some 3, Some [1, 2, 3]) st' \<and> holds demo_h st' []"
proof -
  obtain st where "ready demo_h st" "holds demo_h st [[1, 2, 3]]"
    using shmfifo_put_ok [OF demo_inv(2), of "[1, 2, 3]"] by (auto simp: holds_def bh_size_def)
  from shmfifo_get_oldest [OF this, of 4 8] show ?thesis by auto
qed

text \<open>
  C33: The lock is mutually exclusive between processes: while process \<open>p\<close> holds it, a lock by another
  process sleeps, an unlock by another process is refused with \<open>EINVAL\<close>, and a second lock by \<open>p\<close> is
  refused with \<open>EINVAL\<close>; none of them changes the state.
\<close>

theorem shm_lock_exclusive:
  assumes "held p h st" and "q \<noteq> p"
  shows "shmfifo_lock q h st = Blocked SI_LOCK st \<and> shmfifo_unlock q h st = (EINVAL, st) \<and>
    shmfifo_lock p h st = Ret EINVAL st"
  using assms by (auto simp: held_def shmfifo_lock_def checkUnlocked_def shmfifo_unlock_def checkLocked_def)

theorem shm_lock_exclusive_witness:
  "held 7 demo_h (take_lock 7 demo_st) \<and> shmfifo_lock 8 demo_h (take_lock 7 demo_st) = Blocked SI_LOCK (take_lock 7 demo_st)"
  using shm_lock_exclusive [OF held_take_lock [OF demo_inv(2)], of 8 7] held_take_lock [OF demo_inv(2)] by simp

text \<open>
  C31: No wake-up is lost: a reader that finds the FIFO empty sleeps with the lock released, and after a
  writer's put it is let through its semaphore, takes the lock again and returns that record.
\<close>

theorem shm_reader_wakes:
  assumes "ready h st" and "holds h st []" and "readerVal (sem st) = 0"
    and "d \<noteq> []" and "bh_size + length d < ringsz h" and "int (length d) \<le> sz"
  shows "\<exists>st1 st2 st3 st4. shmfifo_get False p h st sz = Blocked SI_READER st1 \<and> ready h st1 \<and>
    shmfifo_put False q h st1 d (int (length d)) = Ret 0 st2 \<and>
    wait_wake p h st2 SI_READER = Ret 0 st3 \<and>
    get_locked False p h st3 sz = Ret (0, Some (int (length d)), Some d) st4 \<and> holds h st4 []"
proof -
  have i: "shm_inv h (seg st)" and e: "shm_content h (seg st) = []" using assms(2) by (auto simp: holds_def)
  have u: "shm_used h (seg st) = 0" using e length_shm_content [of h "seg st"] by simp
  have hd: "held p h (take_lock p st)" using assms(1) by (rule held_take_lock)
  let ?s1 = "drop_lock (take_lock p st)"
  have rd1: "ready h ?s1" using hd by (rule ready_drop_lock)
  have "shmfifo_wait_reader p h (take_lock p st) = Blocked SI_READER ?s1"
    using unlock_held [OF hd] rd1 assms(3)
    by (simp add: shmfifo_wait_reader_def shmfifo_wait_def vetSemIndex_def wait_wake_def ready_def)
      (simp add: drop_lock_def take_lock_def)
  then have w: "get_wait p h (take_lock p st) = Blocked SI_READER ?s1"
    by (subst get_wait.simps) (simp add: memused_eq [OF i] u)
  have "0 < sz" using assms(4,6) by (cases d) auto
  then have g: "shmfifo_get False p h st sz = Blocked SI_READER ?s1"
    using lock_ready [OF assms(1)] w by (simp add: shmfifo_get_def get_locked_def)
  obtain st2 where st2: "shmfifo_put False q h ?s1 d (int (length d)) = Ret 0 st2" "ready h st2"
    "shm_inv h (seg st2)" "readerVal (sem st2) = 1" "shm_content h (seg st2) = frame d"
    using shmfifo_put_ok [OF rd1, of d q] i u e assms(5) by auto
  let ?s2 = "st2\<lparr>sem := set_semval SI_READER 0 (sem st2)\<rparr>"
  have rd2: "ready h ?s2" using st2(2) by (simp add: ready_def)
  have w2: "wait_wake p h st2 SI_READER = Ret 0 (take_lock p ?s2)"
    using st2(4) lock_ready [OF rd2] by (simp add: wait_wake_def)
  obtain s3 where "get_locked False p h (take_lock p ?s2) sz = Ret (0, Some (int (length d)), Some d)
      (drop_lock (take_lock p ?s2\<lparr>seg := s3, sem := sem (take_lock p ?s2)\<lparr>writerVal := 1\<rparr>\<rparr>))"
    "shm_inv h s3" "shm_content h s3 = []"
    using get_locked_ok [OF held_take_lock [OF rd2, of p], of d "[]" sz] st2 assms(4,6) by auto
  then show ?thesis
    using g rd1 st2(1) w2 by (fastforce simp: holds_def drop_lock_def)
qed

theorem shm_reader_wakes_witness:
  "\<exists>st1 st2. shmfifo_get False 8 demo_h demo_st 4 = Blocked SI_READER st1 \<and>
     shmfifo_put False 7 demo_h st1 [9] 1 = Ret 0 st2"
  using shm_reader_wakes [OF demo_inv(2) demo_inv(7), of "[9]" 4 8 7]
  by (auto simp: demo_st_def bh_size_def)

lemma put_too_big:
  assumes "ready h st" and i: "shm_inv h (seg st)" and big: "ringsz h < length d + bh_size"
  shows "shmfifo_put False p h st d (int (length d)) = Ret 0 (drop_lock (take_lock p st))"
  using big lock_ready [OF assms(1)] unlock_held [OF held_take_lock [OF assms(1), of p]]
  by (simp add: shmfifo_put_def put_locked_def Let_def shm_total [OF i] put_tail_def)

lemma get_wait_nonempty: "shm_inv h (seg st) \<Longrightarrow> 0 < shm_used h (seg st) \<Longrightarrow> get_wait p h st = Ret 0 st"
  by (subst get_wait.simps) (simp add: memused_eq)

lemma get_buffer_too_small:
  assumes "ready h st" and r: "holds h st (r # rs)" and sz: "0 < sz" "sz < int (length r)"
  shows "\<exists>st'. shmfifo_get False p h st sz = Ret (0, None, None) st' \<and> ready h st' \<and> holds h st' (r # rs)"
proof -
  note hd = held_take_lock [OF assms(1), of p]
  from r have i: "shm_inv h (seg st)" and c: "shm_content h (seg st) = frame r @ concat (map frame rs)"
    by (auto simp: holds_def)
  obtain s1 where s1: "shmfifo_ll_get h (seg st) (int bh_size) = Got (le32 (int (length r)) @ le32 canary) s1"
    "shm_inv h s1" "bh_size + length r \<le> shm_used h (seg st)" "shm_used h s1 = length r + length (concat (map frame rs))"
    "length r < 2 ^ 31"
    using get_header [OF i c] by blast
  have "bh_size \<le> shm_used h (seg st)" using s1(3) by simp
  note rew = hrewind_get [OF i this s1(1)]
  let ?t = "take_lock p st\<lparr>seg := shmfifo_ll_hrewind h s1\<rparr>"
  have b: "get_body False p h (take_lock p st) sz = Ret (EINVAL, None, None) ?t"
    using s1(1,3,4,5) sz
    by (simp add: get_body_def Let_def memused_eq [OF i] memused_eq [OF s1(2)] size_decode canary_decode)
  have w: "get_wait p h (take_lock p st) = Ret 0 (take_lock p st)"
    using s1(3) by (intro get_wait_nonempty) (auto simp: i bh_size_def)
  have hdt: "held p h ?t" using hd by simp
  have "shmfifo_get False p h st sz = Ret (0, None, None) (drop_lock ?t)"
    using sz b w lock_ready [OF assms(1)] unlock_held [OF hdt] by (simp add: shmfifo_get_def get_locked_def)
  moreover have "holds h (drop_lock ?t) (r # rs)" using r rew by (simp add: holds_def)
  ultimately show ?thesis using ready_drop_lock [OF hdt] by blast
qed

text \<open>
  The error statuses \<open>shmfifo_put\<close> and \<open>shmfifo_get\<close> document are lost: both assign the status of
  the final unlock over them. A record bigger than the ring is reported as written although nothing
  was stored, and a get into too small a buffer is reported as a success that set no length, with the
  record still there.
\<close>

theorem shm_errors_masked:
  assumes "ready h st" and "holds h st rs"
  shows "(ringsz h < length d + bh_size \<longrightarrow>
      shmfifo_put False p h st d (int (length d)) = Ret 0 (drop_lock (take_lock p st))) \<and>
    (rs \<noteq> [] \<and> 0 < sz \<and> sz < int (length (hd rs)) \<longrightarrow>
      (\<exists>st'. shmfifo_get False p h st sz = Ret (0, None, None) st' \<and> ready h st' \<and> holds h st' rs))"
proof -
  have "shm_inv h (seg st)" using assms(2) by (simp add: holds_def)
  note big = put_too_big [OF assms(1) this, of d p]
  have small: "rs \<noteq> [] \<Longrightarrow> hd rs # tl rs = rs" by simp
  show ?thesis
    using big get_buffer_too_small [OF assms(1), of "hd rs" "tl rs" sz p] assms(2) small by auto
qed

theorem shm_errors_masked_witness:
  "shmfifo_put False 7 demo_h demo_st (replicate 17 0) 17 = Ret 0 (drop_lock (take_lock 7 demo_st))"
  using shm_errors_masked [OF demo_inv(2) demo_inv(7), of "replicate 17 0" 7 1] by (simp add: bh_size_def)

lemma put_wait_full:
  assumes "held p h st" "shm_inv h (seg st)" "ringsz h \<le> shm_used h (seg st) + need"
  shows "\<exists>st'. put_wait p h st need = Blocked SI_WRITER st' \<and> ready h st' \<and> seg st' = seg st \<and> writerVal (sem st') = 0"
  using assms
proof (induction "writerVal (sem st)" arbitrary: st)
  case 0
  have rd: "ready h (drop_lock st)" using "0.prems"(1) by (rule ready_drop_lock)
  have "shmfifo_wait_writer p h st = Blocked SI_WRITER (drop_lock st)"
    using unlock_held [OF "0.prems"(1)] rd 0(1)
    by (simp add: shmfifo_wait_writer_def shmfifo_wait_def vetSemIndex_def wait_wake_def ready_def) (simp add: drop_lock_def)
  with 0 rd show ?case
    by (subst put_wait.simps) (simp add: shm_free drop_lock_def)
next
  case (Suc v)
  let ?d = "drop_lock st\<lparr>sem := set_semval SI_WRITER v (sem (drop_lock st))\<rparr>"
  have rd: "ready h (drop_lock st)" using Suc.prems(1) by (rule ready_drop_lock)
  then have rd2: "ready h ?d" by (simp add: ready_def)
  have v: "writerVal (sem (drop_lock st)) = Suc v" using Suc(2) by (simp add: drop_lock_def)
  have w: "shmfifo_wait_writer p h st = Ret 0 (take_lock p ?d)"
    using unlock_held [OF Suc.prems(1)] rd lock_ready [OF rd2, of p] v
    by (simp add: shmfifo_wait_writer_def shmfifo_wait_def vetSemIndex_def wait_wake_def ready_def)
  have "\<exists>st'. put_wait p h (take_lock p ?d) need = Blocked SI_WRITER st' \<and> ready h st' \<and>
      seg st' = seg (take_lock p ?d) \<and> writerVal (sem st') = 0"
    by (rule Suc.hyps(1)) (use held_take_lock [OF rd2] Suc.prems in \<open>simp_all add: take_lock_def\<close>)
  with w Suc.prems show ?case
    by (subst put_wait.simps) (simp add: shm_free)
qed

text \<open>
  A record that fills the ring exactly (length plus header equal to the capacity) passes the size
  check but waits for strictly more room than there can ever be: whatever the FIFO holds, empty
  included, and however many notifications are pending, the put goes to sleep having written nothing;
  and it does so again at every wake-up.
\<close>

theorem shm_exact_fit_waits:
  assumes "held p h st" and "shm_inv h (seg st)" and "length d + bh_size = ringsz h"
  shows "\<exists>st'. put_locked p h st d = Blocked SI_WRITER st' \<and> ready h st' \<and> seg st' = seg st"
proof -
  obtain st' where "put_wait p h st (length d + bh_size) = Blocked SI_WRITER st'" "ready h st'" "seg st' = seg st"
    using put_wait_full [OF assms(1,2), of "length d + bh_size"] assms(3) by auto
  then show ?thesis
    using assms(3) by (simp add: put_locked_def Let_def shm_total [OF assms(2)] put_tail_def)
qed

theorem shm_exact_fit_waits_witness:
  "\<exists>st'. put_locked 7 demo_h (take_lock 7 demo_st) (replicate 16 1) = Blocked SI_WRITER st'"
  using shm_exact_fit_waits [OF held_take_lock [OF demo_inv(2), of 7], of "replicate 16 1"] by (auto simp: bh_size_def)

text \<open>
  A zero-length record, which \<open>shmfifo_put\<close> accepts, kills the reading process: \<open>shmfifo_get\<close> asks
  \<open>shmfifo_ll_get\<close> for zero bytes and that aborts.
\<close>

theorem shm_empty_record_aborts:
  assumes "ready h st" and "shm_inv h (seg st)" and "shm_content h (seg st) = frame [] @ rest" and "0 < sz"
  shows "\<exists>st'. shmfifo_get False p h st sz = Aborted st'"
proof -
  note i = assms(2)
  obtain s1 where s1: "shmfifo_ll_get h (seg st) (int bh_size) = Got (le32 (int (length ([]::byte list))) @ le32 canary) s1"
    "shm_inv h s1" "bh_size + length ([]::byte list) \<le> shm_used h (seg st)"
    using get_header [OF i assms(3)] by blast
  have z: "i32 (le_uint (le32 0)) = 0" using size_decode [of "[]"] by simp
  have "shmfifo_ll_get h s1 0 = Abort" by (simp add: shmfifo_ll_get_def Let_def)
  then have "\<exists>st'. get_body False p h (take_lock p st) sz = Aborted st'"
    using s1 assms(4) by (simp add: get_body_def Let_def memused_eq [OF i] memused_eq [OF s1(2)] z canary_decode)
  moreover have "get_wait p h (take_lock p st) = Ret 0 (take_lock p st)"
    using s1(3) by (intro get_wait_nonempty) (auto simp: i bh_size_def)
  ultimately show ?thesis
    using assms(4) lock_ready [OF assms(1)] by (auto simp: shmfifo_get_def get_locked_def)
qed

theorem shm_empty_record_aborts_witness:
  "\<exists>st st'. shmfifo_put False 7 demo_h demo_st [] 0 = Ret 0 st \<and> shmfifo_get False 8 demo_h st 4 = Aborted st'"
proof -
  obtain st where st: "shmfifo_put False 7 demo_h demo_st [] 0 = Ret 0 st" "ready demo_h st" "shm_inv demo_h (seg st)"
    "shm_content demo_h (seg st) = frame [] @ []"
    using shmfifo_put_ok [OF demo_inv(2), of "[]" 7] by (auto simp: bh_size_def)
  from shm_empty_record_aborts [OF st(2-4), of 4 8] st(1) show ?thesis by auto
qed

text \<open>
  With debug logging on, \<open>shmfifo_get\<close> loses records: \<open>shmfifo_printmemstatus\<close> unlocks the FIFO
  in the middle of the critical section, so the notification and the final unlock both fail. The call
  returns \<open>EINVAL\<close> without a length, the record is gone and the writer is not notified.
\<close>

theorem shm_debug_loses_record:
  assumes "ready h st" and "holds h st (d # rs)" and "int (length d) \<le> sz"
  shows "\<exists>st'. shmfifo_get True p h st sz = Ret (EINVAL, None, Some d) st' \<and> holds h st' rs \<and>
    writerVal (sem st') = writerVal (sem st)"
proof -
  have i: "shm_inv h (seg st)" and c: "shm_content h (seg st) = frame d @ concat (map frame rs)" and d: "d \<noteq> []"
    and rs: "\<forall>r\<in>set rs. r \<noteq> []" using assms(2) by (auto simp: holds_def)
  let ?st = "take_lock p (drop_lock (take_lock p st))"
  have st: "?st = take_lock p st" by (simp add: take_lock_def drop_lock_def)
  note hd = held_take_lock [OF assms(1), of p]
  have rd: "ready h (drop_lock (take_lock p st))" using hd by (rule ready_drop_lock)
  obtain s1 where s1: "shmfifo_ll_get h (seg st) (int bh_size) = Got (le32 (int (length d)) @ le32 canary) s1"
    "shm_inv h s1" "shm_content h s1 = d @ concat (map frame rs)" "bh_size + length d \<le> shm_used h (seg st)"
    "shm_used h s1 = length d + length (concat (map frame rs))" "length d < 2 ^ 31"
    using get_header [OF i c] by blast
  have "0 < int (length d)" "int (length d) \<le> int (shm_used h s1)" using d s1(5) by simp_all
  from shm_get_ok [OF s1(2) this] s1(3) obtain s2 where s2:
    "shmfifo_ll_get h s1 (int (length d)) = Got d s2" "shm_inv h s2" "shm_content h s2 = concat (map frame rs)" by auto
  let ?t = "take_lock p st\<lparr>seg := s2\<rparr>"
  have hdt: "held p h ?t" using hd by simp
  have rdt: "ready h (drop_lock ?t)" using hdt by (rule ready_drop_lock)
  have pr: "shmfifo_printmemstatus True p h ?t = Ret () (drop_lock ?t)"
    using unlock_held [OF hdt] hdt
    by (simp add: shmfifo_printmemstatus_def shmfifo_lock_def checkUnlocked_def held_def)
  have no: "shmfifo_notify_writer p h (drop_lock ?t) = (EINVAL, drop_lock ?t)"
    "shmfifo_unlock p h (drop_lock ?t) = (EINVAL, drop_lock ?t)"
    using rdt by (simp_all add: ready_def shmfifo_notify_writer_def shmfifo_notify_def shmfifo_unlock_def checkLocked_def)
  have b: "get_body True p h (take_lock p st) sz = Ret (EINVAL, None, Some d) (drop_lock ?t)"
    using s1(1,4,5,6) s2(1) pr no assms(3)
    by (simp add: get_body_def Let_def memused_eq [OF i] memused_eq [OF s1(2)] size_decode canary_decode)
  have w: "get_wait p h (take_lock p st) = Ret 0 (take_lock p st)"
    using s1(4) by (intro get_wait_nonempty) (auto simp: i bh_size_def)
  have "0 < sz" using d assms(3) by (cases d) auto
  then have "shmfifo_get True p h st sz = Ret (EINVAL, None, Some d) (drop_lock ?t)"
    using b w no lock_ready [OF assms(1)] lock_ready [OF rd, of p] unlock_held [OF hd] st
    by (simp add: shmfifo_get_def shmfifo_printmemstatus_def get_locked_def)
  moreover have "holds h (drop_lock ?t) rs" using s2 rs by (simp add: holds_def)
  ultimately show ?thesis by (auto simp: drop_lock_def take_lock_def)
qed

theorem shm_debug_loses_record_witness:
  "\<exists>st st'. holds demo_h st [[1, 2]] \<and> shmfifo_get True 8 demo_h st 4 = Ret (22, None, Some [1, 2]) st'"
proof -
  let ?t = "take_lock 7 demo_st"
  obtain s2 where s2: "shm_inv demo_h s2" "shm_content demo_h s2 = [] @ frame [1, 2]"
    using put_body_ok [OF held_take_lock [OF demo_inv(2), of 7], of "[1, 2]"] by (auto simp: bh_size_def)
  have r: "ready demo_h (demo_st\<lparr>seg := s2\<rparr>)" using demo_inv(2) by (simp add: ready_def)
  have hh: "holds demo_h (demo_st\<lparr>seg := s2\<rparr>) [[1, 2]]" using s2 by (simp add: holds_def)
  from shm_debug_loses_record [OF r hh, of 4 8] hh show ?thesis by (auto simp: demo_st_def)
qed

end
