(* ===== verification/Shm_Admin.thy ===== *)
theory Shm_Admin
  imports Shm_Properties
begin

text \<open>
  Creating, finding, attaching and removing a shared-memory FIFO (\<open>shmfifo_create\<close>,
  \<open>shmfifo_shm_from_key\<close>, \<open>shmfifo_attach\<close>, \<open>shmfifo_detach\<close>, \<open>shmfifo_dealloc\<close>), its private area
  (\<open>shmfifo_setpriv\<close>, \<open>shmfifo_getpriv\<close>) and \<open>shmfifo_empty\<close>.

  The kernel's tables are the record \<open>ipc\<close>: segments and semaphore sets by identifier, their identifiers by
  key, and the segments marked for removal. What the kernel decides in the calls of one operation is the record
  \<open>ipcres\<close>: the identifiers that \<open>shmget\<close> and \<open>semget\<close> give to something new (-1 for a call that fails for whatever
  reason), and whether \<open>shmat\<close>, \<open>semctl\<close> and \<open>malloc\<close> succeed.
\<close>

record ipc =
  segs :: "int \<Rightarrow> segment option"
  sets :: "int \<Rightarrow> sems option"
  shm_keys :: "int \<Rightarrow> int option"
  sem_keys :: "int \<Rightarrow> int option"
  marked :: "int list"

record ipcres =
  r_shmget :: int
  r_semget :: int
  r_shmat :: bool
  r_semctl :: bool
  r_malloc :: bool
  pagesize :: int

definition DVBS_ID :: int where "DVBS_ID = 43210000"

text \<open>
  \<open>shmget\<close> and \<open>semget\<close> on the table of keys: with \<open>IPC_CREAT\<close> what has the key already, or something new, which has the
  key from then on unless it is 0, \<open>IPC_PRIVATE\<close>; without it only what is there.
\<close>

definition get_create :: "int \<Rightarrow> int \<Rightarrow> (int \<Rightarrow> int option) \<Rightarrow> int \<times> (int \<Rightarrow> int option)" where
  "get_create new key tab =
     (if new = - 1 then (- 1, tab)
      else if key = 0 then (new, tab)
      else case tab key of Some i \<Rightarrow> (i, tab) | None \<Rightarrow> (new, tab(key \<mapsto> new)))"

definition get_existing :: "int \<Rightarrow> int \<Rightarrow> (int \<Rightarrow> int option) \<Rightarrow> int" where
  "get_existing new key tab = (if new = - 1 then - 1 else case tab key of Some i \<Rightarrow> i | None \<Rightarrow> - 1)"

definition shmfifo_new :: "ipcres \<Rightarrow> shmhandle option" where
  "shmfifo_new r =
     (if r_malloc r then Some \<lparr>h_sid = 0, h_mem = False, h_privsz = 0, h_semid = 0, h_sz = 0\<rparr> else None)"

text \<open>
  \<open>shmfifo_create\<close>: a new segment is zero-filled, an existing one is kept, its pointers reset; one that is too small is
  refused by \<open>shmget\<close>. The outer \<open>None\<close> is an initialisation outside the segment; the inner one is the \<open>NULL\<close> the
  code returns.
\<close>

definition shmfifo_create :: "ipcres \<Rightarrow> int \<Rightarrow> nat \<Rightarrow> int \<Rightarrow> ipc \<Rightarrow> (shmhandle option \<times> ipc) option" where
  "shmfifo_create r npages privsz nkey k =
     (let shmSize = i32 (npages * pagesize r);
          key = (if nkey = - 1 then 0 else DVBS_ID + nkey);
          (shmid, keys) = get_create (r_shmget r) key (shm_keys k);
          old = (case segs k shmid of
                   Some s \<Rightarrow> s
                 | None \<Rightarrow> \<lparr>counter = 0, s_read = 0, s_write = 0, s_sz = 0, s_privsz = 0, mem = replicate (nat shmSize) 0\<rparr>)
      in if shmid = - 1 \<or> length (mem old) < nat shmSize then Some (None, k)
         else
           let k0 = k\<lparr>segs := (segs k)(shmid \<mapsto> old), shm_keys := keys\<rparr>
           in if \<not> r_shmat r then Some (None, k0)
              else case mem_write (mem old) prefix_size (replicate privsz 0) of
                None \<Rightarrow> None
              | Some m \<Rightarrow>
                  let s = old\<lparr>s_read := prefix_size + privsz, s_write := prefix_size + privsz,
                              s_sz := nat shmSize, s_privsz := privsz, mem := m\<rparr>;
                      (semid, skeys) = get_create (r_semget r) key (sem_keys k);
                      k1 = k0\<lparr>segs := (segs k)(shmid \<mapsto> s), sem_keys := skeys\<rparr>
                  in if semid = - 1 then Some (None, k1)
                     else if \<not> r_semctl r then Some (None, k1)
                     else
                       let pid0 = (case sets k semid of Some q \<Rightarrow> lockPid q | None \<Rightarrow> 0);
                           k2 = k1\<lparr>sets := (sets k)(semid \<mapsto> \<lparr>lockVal = 1, lockPid = pid0, writerVal = 0, readerVal = 0\<rparr>)\<rparr>
                       in case shmfifo_new r of
                            None \<Rightarrow> Some (None, k2)
                          | Some shm \<Rightarrow>
                              Some (Some (shm\<lparr>h_sid := shmid, h_privsz := privsz, h_sz := nat shmSize, h_semid := semid\<rparr>), k2))"

definition shmfifo_attach :: "ipcres \<Rightarrow> shmhandle \<Rightarrow> int \<times> shmhandle" where
  "shmfifo_attach r shm =
     (if h_mem shm then (- 1, shm)
      else if \<not> r_shmat r then (- 1, shm)
      else (1, shm\<lparr>h_mem := True\<rparr>))"

text \<open>\<open>None\<close> as the handle argument is the \<open>NULL\<close> pointer.\<close>

definition shmfifo_shm_from_key :: "ipcres \<Rightarrow> shmhandle option \<Rightarrow> int \<Rightarrow> ipc \<Rightarrow> int \<times> shmhandle option" where
  "shmfifo_shm_from_key r shm nkey k =
     (case shm of
        None \<Rightarrow> (- 1, None)
      | Some h \<Rightarrow>
          if nkey = - 1 then (- 2, Some h)
          else
            let key = DVBS_ID + nkey; semid = get_existing (r_semget r) key (sem_keys k); sid = get_existing (r_shmget r) key (shm_keys k)
            in if semid = - 1 then (- 3, Some h)
               else if sid = - 1 then (- 3, Some h)
               else
                 (case shmfifo_attach r (h\<lparr>h_semid := semid, h_sid := sid\<rparr>) of (a, h1) \<Rightarrow>
                    if a = - 1 then (- 4, Some h1)
                    else case segs k sid of
                           None \<Rightarrow> (- 4, Some h1)
                         | Some p \<Rightarrow> (0, Some (h1\<lparr>h_privsz := s_privsz p, h_sz := s_sz p\<rparr>))))"

definition shmfifo_empty :: "shmhandle option \<Rightarrow> segment \<Rightarrow> int" where
  "shmfifo_empty shm s =
     (case shm of
        None \<Rightarrow> 1
      | Some h \<Rightarrow> if \<not> h_mem h then 1 else if s_read s = s_write s then 1 else 0)"

definition shmfifo_detach :: "shmhandle \<Rightarrow> shmhandle" where
  "shmfifo_detach h = (if \<not> h_mem h then h else h\<lparr>h_mem := False\<rparr>)"

text \<open>What is removed is no longer found by its key.\<close>

definition shmfifo_dealloc :: "shmhandle \<Rightarrow> ipc \<Rightarrow> ipc" where
  "shmfifo_dealloc h k =
     k\<lparr>sets := (sets k)(h_semid h := None), marked := h_sid h # marked k,
       shm_keys := (\<lambda>x. if shm_keys k x = Some (h_sid h) then None else shm_keys k x),
       sem_keys := (\<lambda>x. if sem_keys k x = Some (h_semid h) then None else sem_keys k x)\<rparr>"

text \<open>The private area. The lock's result is ignored: the copy happens also when locking fails.\<close>

definition shmfifo_setpriv :: "int \<Rightarrow> shmhandle \<Rightarrow> shmst \<Rightarrow> byte list \<Rightarrow> unit shm_out" where
  "shmfifo_setpriv pid h st priv =
     (case shmfifo_lock pid h st of
        Ret _ st1 \<Rightarrow>
          (if length priv < h_privsz h then BadMem
           else case mem_write (mem (seg st1)) prefix_size (take (h_privsz h) priv) of
             None \<Rightarrow> BadMem
           | Some m \<Rightarrow> Ret () (snd (shmfifo_unlock pid h (st1\<lparr>seg := seg st1\<lparr>mem := m\<rparr>\<rparr>))))
      | Blocked i st1 \<Rightarrow> Blocked i st1 | Aborted st1 \<Rightarrow> Aborted st1 | BadMem \<Rightarrow> BadMem)"

definition shmfifo_getpriv :: "int \<Rightarrow> shmhandle \<Rightarrow> shmst \<Rightarrow> byte list shm_out" where
  "shmfifo_getpriv pid h st =
     (case shmfifo_lock pid h st of
        Ret _ st1 \<Rightarrow>
          (case mem_read (mem (seg st1)) prefix_size (h_privsz h) of
             None \<Rightarrow> BadMem
           | Some d \<Rightarrow> Ret d (snd (shmfifo_unlock pid h st1)))
      | Blocked i st1 \<Rightarrow> Blocked i st1 | Aborted st1 \<Rightarrow> Aborted st1 | BadMem \<Rightarrow> BadMem)"

section \<open>Lemmas\<close>

lemma shmfifo_empty_iff:
  "shm_inv h s \<Longrightarrow> h_mem h \<Longrightarrow> shmfifo_empty (Some h) s = 1 \<longleftrightarrow> shm_content h s = []"
  by (auto simp: shmfifo_empty_def shm_content_def shm_used_def ringsz_def shm_inv_def ring_list_def)

text \<open>What a successful \<open>shmfifo_create\<close> leaves, whether the segment and the set were new or not.\<close>

lemma shmfifo_created:
  assumes c: "shmfifo_create r npages privsz nkey k = Some (Some h, k')"
  defines "N \<equiv> nat (i32 (npages * pagesize r))" and "key \<equiv> if nkey = - 1 then 0 else DVBS_ID + nkey"
  shows "h = \<lparr>h_sid = fst (get_create (r_shmget r) key (shm_keys k)), h_mem = False, h_privsz = privsz,
      h_semid = fst (get_create (r_semget r) key (sem_keys k)), h_sz = N\<rparr>"
    and "h_sid h \<noteq> - 1" "h_semid h \<noteq> - 1" "r_shmat r" "r_malloc r"
    and "shm_keys k' = snd (get_create (r_shmget r) key (shm_keys k))" "sem_keys k' = snd (get_create (r_semget r) key (sem_keys k))"
    and "\<exists>s. segs k' (h_sid h) = Some s \<and> s_sz s = N \<and> s_privsz s = privsz \<and> s_read s = prefix_size + privsz \<and> s_write s = prefix_size + privsz \<and>
      N \<le> length (mem s) \<and> (segs k (h_sid h) = None \<longrightarrow> length (mem s) = N)"
    and "\<exists>pid0. sets k' (h_semid h) = Some \<lparr>lockVal = 1, lockPid = pid0, writerVal = 0, readerVal = 0\<rparr>"
proof -
  obtain sid keys where g: "get_create (r_shmget r) key (shm_keys k) = (sid, keys)" by fastforce
  obtain semid skeys where g2: "get_create (r_semget r) key (sem_keys k) = (semid, skeys)" by fastforce
  define old where "old = (case segs k sid of Some s \<Rightarrow> s
      | None \<Rightarrow> \<lparr>counter = 0, s_read = 0, s_write = 0, s_sz = 0, s_privsz = 0, mem = replicate N 0\<rparr>)"
  note d = c [unfolded shmfifo_create_def Let_def key_def [symmetric] N_def [symmetric] g g2 prod.case, folded old_def]
  have ok: "sid \<noteq> - 1" "N \<le> length (mem old)" "r_shmat r" using d by (auto split: if_splits)
  obtain m where m: "mem_write (mem old) prefix_size (replicate privsz 0) = Some m" using d ok by (auto split: option.splits)
  have ok2: "semid \<noteq> - 1" "r_semctl r" "r_malloc r" using d ok m by (auto simp: shmfifo_new_def split: if_splits)
  have lm: "length m = length (mem old)" using m by (auto simp: mem_write_def split: if_splits)
  have h: "h = \<lparr>h_sid = sid, h_mem = False, h_privsz = privsz, h_semid = semid, h_sz = N\<rparr>"
    using d ok ok2 m by (auto simp: shmfifo_new_def)
  show "h = \<lparr>h_sid = fst (get_create (r_shmget r) key (shm_keys k)), h_mem = False, h_privsz = privsz,
      h_semid = fst (get_create (r_semget r) key (sem_keys k)), h_sz = N\<rparr>" using h g g2 by simp
  show "h_sid h \<noteq> - 1" "h_semid h \<noteq> - 1" "r_shmat r" "r_malloc r" using h ok ok2 by simp_all
  show "shm_keys k' = snd (get_create (r_shmget r) key (shm_keys k))" "sem_keys k' = snd (get_create (r_semget r) key (sem_keys k))"
    using d ok ok2 m g g2 by (auto simp: shmfifo_new_def)
  have "segs k' sid = Some (old\<lparr>s_read := prefix_size + privsz, s_write := prefix_size + privsz, s_sz := N, s_privsz := privsz, mem := m\<rparr>)"
    using d ok ok2 m by (auto simp: shmfifo_new_def)
  then show "\<exists>s. segs k' (h_sid h) = Some s \<and> s_sz s = N \<and> s_privsz s = privsz \<and> s_read s = prefix_size + privsz \<and> s_write s = prefix_size + privsz \<and>
      N \<le> length (mem s) \<and> (segs k (h_sid h) = None \<longrightarrow> length (mem s) = N)"
    using h ok(2) lm by (auto simp: old_def)
  show "\<exists>pid0. sets k' (h_semid h) = Some \<lparr>lockVal = 1, lockPid = pid0, writerVal = 0, readerVal = 0\<rparr>"
    using d ok ok2 m h by (auto simp: shmfifo_new_def)
qed

text \<open>What has been created for a key is found by it, and the entries of other keys stay.\<close>

lemma get_existing_created:
  assumes "fst (get_create new key tab) \<noteq> - 1" "key \<noteq> 0"
  shows "new' \<noteq> - 1 \<Longrightarrow> get_existing new' key (snd (get_create new key tab)) = fst (get_create new key tab)"
    and "key' \<noteq> key \<Longrightarrow> snd (get_create new key tab) key' = tab key'"
  using assms by (auto simp: get_create_def get_existing_def split: option.splits)

lemma get_create_private: "snd (get_create new 0 tab) = tab"
  by (simp add: get_create_def)

lemma created_found:
  assumes c: "shmfifo_create r npages privsz nkey k = Some (Some h, k')" and "nkey \<noteq> - 1" "DVBS_ID + nkey \<noteq> 0"
    and "r_semget r' \<noteq> - 1" "r_shmget r' \<noteq> - 1" "r_shmat r'"
  shows "shmfifo_shm_from_key r' (Some \<lparr>h_sid = 0, h_mem = False, h_privsz = 0, h_semid = 0, h_sz = 0\<rparr>) nkey k' = (0, Some (h\<lparr>h_mem := True\<rparr>))"
proof -
  note C = shmfifo_created [OF c]
  have key: "(if nkey = - 1 then 0 else DVBS_ID + nkey) = DVBS_ID + nkey" using assms(2) by simp
  note C = C [unfolded key]
  have "fst (get_create (r_shmget r) (DVBS_ID + nkey) (shm_keys k)) = h_sid h" "fst (get_create (r_semget r) (DVBS_ID + nkey) (sem_keys k)) = h_semid h"
    by (simp_all add: C(1))
  then have g: "get_existing (r_shmget r') (DVBS_ID + nkey) (shm_keys k') = h_sid h" "get_existing (r_semget r') (DVBS_ID + nkey) (sem_keys k') = h_semid h"
    using get_existing_created(1) [of "r_shmget r" "DVBS_ID + nkey" "shm_keys k" "r_shmget r'"]
      get_existing_created(1) [of "r_semget r" "DVBS_ID + nkey" "sem_keys k" "r_semget r'"] C(2,3) assms(3-5) by (simp_all add: C(6,7))
  obtain s where "segs k' (h_sid h) = Some s" "s_sz s = h_sz h" "s_privsz s = h_privsz h" using C(1,8) by auto
  then show ?thesis
    using assms(2,6) C(2,3) g C(1) by (simp add: shmfifo_shm_from_key_def shmfifo_attach_def Let_def)
qed

text \<open>
  A FIFO made by \<open>shmfifo_create\<close> and found by another process through \<open>shmfifo_shm_from_key\<close> with the same key: the
  second process gets a handle with the same geometry, attached to a segment that satisfies the ring
  invariant and is empty, with the lock free and no notification pending.
\<close>

theorem shm_create_then_open:
  assumes "shmfifo_create r npages privsz nkey k = Some (Some h, k')"
    and "0 \<le> r_semget r" and "sem_keys k (DVBS_ID + nkey) = None"
    and "int prefix_size + int privsz < i32 (npages * pagesize r)" and "segs k (h_sid h) = None"
    and "nkey \<noteq> - 1" "DVBS_ID + nkey \<noteq> 0" and "r_semget r' \<noteq> - 1" "r_shmget r' \<noteq> - 1" "r_shmat r'" "r_malloc r'"
  shows "\<exists>h2 s q. shmfifo_shm_from_key r' (shmfifo_new r') nkey k' = (0, Some h2) \<and>
    h_sz h2 = h_sz h \<and> h_privsz h2 = h_privsz h \<and> h_semid h2 = h_semid h \<and>
    segs k' (h_sid h2) = Some s \<and> sets k' (h_semid h2) = Some q \<and>
    ready h2 \<lparr>sem = q, seg = s, fails = []\<rparr> \<and> holds h2 \<lparr>sem = q, seg = s, fails = []\<rparr> [] \<and>
    readerVal q = 0 \<and> writerVal q = 0"
proof -
  define N where "N = nat (i32 (npages * pagesize r))"
  have N: "prefix_size + privsz < N" using assms(4) by (auto simp: N_def)
  have "i32 (npages * pagesize r) < 2 ^ 31" by (rule i32_range [THEN conjunct2])
  then have N2: "N < 2 ^ 31" by (simp add: N_def nat_less_iff)
  note C = shmfifo_created [OF assms(1), folded N_def]
  have f: "shmfifo_shm_from_key r' (shmfifo_new r') nkey k' = (0, Some (h\<lparr>h_mem := True\<rparr>))"
    using created_found [OF assms(1,6,7-10)] assms(11) by (simp add: shmfifo_new_def)
  obtain s where s: "segs k' (h_sid h) = Some s" "s_sz s = N" "s_privsz s = privsz" "s_read s = prefix_size + privsz" "s_write s = prefix_size + privsz"
    "length (mem s) = N" using C(8) assms(5) by blast
  obtain pid0 where q: "sets k' (h_semid h) = Some \<lparr>lockVal = 1, lockPid = pid0, writerVal = 0, readerVal = 0\<rparr>" using C(9) by blast
  have sem: "h_semid h = r_semget r" using C(1,3) assms(3,6) by (auto simp: get_create_def split: if_splits option.splits)
  have hv: "h_privsz h = privsz" "h_sz h = N" by (subst C(1), simp)+
  show ?thesis
    by (rule exI [of _ "h\<lparr>h_mem := True\<rparr>"]) (use f s q assms(2) sem hv N N2 in
      \<open>auto simp: ready_def holds_def shm_inv_def base_def shm_content_def shm_used_def\<close>)
qed

definition demo_ipc :: ipc where
  "demo_ipc = \<lparr>segs = (\<lambda>_. None), sets = (\<lambda>_. None), shm_keys = (\<lambda>_. None), sem_keys = (\<lambda>_. None), marked = []\<rparr>"

definition demo_res :: ipcres where
  "demo_res = \<lparr>r_shmget = 5, r_semget = 6, r_shmat = True, r_semctl = True, r_malloc = True, pagesize = 32\<rparr>"

theorem shm_create_then_open_witness:
  "\<exists>h k' h2. shmfifo_create demo_res 2 4 1 demo_ipc = Some (Some h, k') \<and>
     shmfifo_shm_from_key demo_res (shmfifo_new demo_res) 1 k' = (0, Some h2) \<and> h_sz h2 = 64"
proof -
  have i: "i32 (2 * pagesize demo_res) = 64" by (subst i32_id) (simp_all add: demo_res_def)
  obtain h k' where c: "shmfifo_create demo_res 2 4 1 demo_ipc = Some (Some h, k')" "h_sz h = 64"
    unfolding shmfifo_create_def Let_def i
    by (simp add: demo_res_def demo_ipc_def shmfifo_new_def mem_write_def prefix_size_def get_create_def DVBS_ID_def)
  from shm_create_then_open [OF c(1), of demo_res] c i show ?thesis
    by (auto simp: demo_res_def demo_ipc_def prefix_size_def DVBS_ID_def)
qed

text \<open>
  The private area: what \<open>shmfifo_setpriv\<close> stores, \<open>shmfifo_getpriv\<close> returns, and storing it leaves
  the records of the ring alone and the FIFO unlocked.
\<close>

theorem shm_private_roundtrip:
  assumes "ready h st" and "holds h st rs" and "length priv = h_privsz h"
  shows "\<exists>st1 st2. shmfifo_setpriv p h st priv = Ret () st1 \<and> ready h st1 \<and> holds h st1 rs \<and>
    shmfifo_getpriv q h st1 = Ret priv st2 \<and> ready h st2 \<and> holds h st2 rs"
proof -
  have i: "shm_inv h (seg st)" using assms(2) by (simp add: holds_def)
  note D = shm_invD [OF i]
  let ?m = "blit (mem (seg st)) prefix_size priv"
  have fit: "prefix_size + length priv \<le> length (mem (seg st))" using D(1,2) assms(3) by (simp add: base_def)
  let ?t = "take_lock p st\<lparr>seg := seg st\<lparr>mem := ?m\<rparr>\<rparr>"
  have hd: "held p h ?t" using held_take_lock [OF assms(1)] by simp
  note rd = ready_drop_lock [OF hd]
  have s: "shmfifo_setpriv p h st priv = Ret () (drop_lock ?t)"
    using lock_ready [OF assms(1), of p] unlock_held [OF hd] assms(3) fit by (simp add: shmfifo_setpriv_def mem_write_def)
  have dr: "drop (base h) ?m = drop (base h) (mem (seg st))"
    using fit assms(3) by (simp add: blit_def base_def min_def)
  have u: "shm_used h (seg st\<lparr>mem := ?m\<rparr>) = shm_used h (seg st)" by (simp add: shm_used_def)
  have ho: "holds h (drop_lock ?t) rs"
    using assms(2) fit dr u by (simp add: holds_def shm_inv_def shm_content_def)
  have mr: "mem_read ?m prefix_size (h_privsz h) = Some priv"
    using fit assms(3) by (simp add: mem_read_def) (simp add: blit_def min_def)
  have hd2: "held q h (take_lock q (drop_lock ?t))" using rd by (rule held_take_lock)
  have g: "shmfifo_getpriv q h (drop_lock ?t) = Ret priv (drop_lock (take_lock q (drop_lock ?t)))"
    using lock_ready [OF rd, of q] unlock_held [OF hd2] mr by (simp add: shmfifo_getpriv_def)
  have "holds h (drop_lock (take_lock q (drop_lock ?t))) rs" using ho by (simp add: holds_def)
  with s rd ho g ready_drop_lock [OF hd2] show ?thesis by blast
qed

theorem shm_private_roundtrip_witness:
  "\<exists>st1 st2. shmfifo_setpriv 7 demo_h demo_st [] = Ret () st1 \<and> shmfifo_getpriv 8 demo_h st1 = Ret [] st2"
  using shm_private_roundtrip [OF demo_inv(2) demo_inv(7), of "[]" 7 8] by (auto simp: demo_h_def)

end
