(* ===== verification/Npl_Log.thy ===== *)
theory Npl_Log
  imports NP_Prelude
begin

text \<open>
  The accumulating log of \<open>noaaportLog.c\<close>: each thread has a chain of message cells that is reused
  from one report to the next; \<open>last\<close> marks the end of the current report. A chain is the list of
  its cells and the index \<open>lastix\<close> (\<open>None\<close>: no message). The results of \<open>malloc\<close>,
  \<open>pthread_key_create\<close> and \<open>pthread_setspecific\<close> are taken in order from \<open>nofail\<close> (\<open>True\<close>: the call fails; an exhausted list stands
  for calls that succeed). A format with its arguments is what \<open>vsnprintf\<close> makes of it. What
  \<open>ulog\<close> prints is appended to \<open>sink\<close>; the module's own complaints about failing calls are not.
\<close>

section \<open>State\<close>

record cell =
  c_string :: cstr
  c_size :: nat

record msglist =
  cells :: "cell list"
  lastix :: "nat option"

record nplst =
  keyCreated :: bool
  lists :: "nat \<Rightarrow> msglist option"
  nofail :: "bool list"
  sink :: "(int \<times> cstr) list"

datatype fmt = NoFmt | Fmt cstr | BadFmt int

definition DEFAULT_STRING_SIZE :: nat where "DEFAULT_STRING_SIZE = 256"
definition EAGAIN :: int where "EAGAIN = 11"
definition ENOMEM :: int where "ENOMEM = 12"

definition call_fails :: "nplst \<Rightarrow> bool \<times> nplst" where
  "call_fails g = (case nofail g of [] \<Rightarrow> (False, g) | b # bs \<Rightarrow> (b, g\<lparr>nofail := bs\<rparr>))"

lemma call_ok [simp]: "nofail g = [] \<Longrightarrow> call_fails g = (False, g)"
  by (simp add: call_fails_def)

section \<open>Operations\<close>

definition getList :: "nat \<Rightarrow> nplst \<Rightarrow> msglist option \<times> nplst" where
  "getList t g0 =
     (let g = (if keyCreated g0 then g0
               else case call_fails g0 of (f, g') \<Rightarrow> if f then g' else g'\<lparr>keyCreated := True\<rparr>)
      in if \<not> keyCreated g then (None, g)
         else case lists g t of
           Some l \<Rightarrow> (Some l, g)
         | None \<Rightarrow>
             (case call_fails g of (f1, g1) \<Rightarrow>
                if f1 then (None, g1)
                else case call_fails g1 of (f2, g2) \<Rightarrow>
                  if f2 then (None, g2)
                  else let l = \<lparr>cells = [], lastix = None\<rparr>
                       in (Some l, g2\<lparr>lists := (lists g2)(t \<mapsto> l)\<rparr>)))"

definition put_list :: "nat \<Rightarrow> msglist \<Rightarrow> nplst \<Rightarrow> nplst" where
  "put_list t l g = g\<lparr>lists := (lists g)(t \<mapsto> l)\<rparr>"

definition nplClear :: "nat \<Rightarrow> nplst \<Rightarrow> nplst" where
  "nplClear t g =
     (case getList t g of (None, g') \<Rightarrow> g' | (Some l, g') \<Rightarrow> put_list t (l\<lparr>lastix := None\<rparr>) g')"

text \<open>Index of the cell the next message goes to: \<open>first\<close>, or the cell after \<open>last\<close>.\<close>

definition next_ix :: "msglist \<Rightarrow> nat" where
  "next_ix l = (case lastix l of None \<Rightarrow> 0 | Some k \<Rightarrow> Suc k)"

text \<open>
  The formatting step of \<open>nplVadd\<close> on cell \<open>c\<close>; \<open>linked\<close> tells whether the cell is already in the
  chain at index \<open>i\<close>. A cell too small is given a bigger buffer and \<open>EAGAIN\<close> is returned; a fresh
  cell that is not linked is then lost.
\<close>

definition vadd_format :: "nat \<Rightarrow> nplst \<Rightarrow> msglist \<Rightarrow> nat \<Rightarrow> bool \<Rightarrow> cell \<Rightarrow> fmt \<Rightarrow> int \<times> nplst" where
  "vadd_format t g l i linked c m =
     (case m of
        BadFmt e \<Rightarrow> (e, put_list t l g)
      | NoFmt \<Rightarrow> (0, put_list t l g)
      | Fmt s \<Rightarrow>
          if c_size c \<le> length s
          then (case call_fails g of (f, g1) \<Rightarrow>
                  if f
                  then (ENOMEM, put_list t (if linked then l\<lparr>cells := (cells l)[i := c\<lparr>c_string := take (c_size c - 1) s\<rparr>]\<rparr> else l) g1)
                  else (EAGAIN, put_list t (if linked then l\<lparr>cells := (cells l)[i := \<lparr>c_string = [], c_size = length s + 1\<rparr>]\<rparr> else l) g1))
          else (0, put_list t (l\<lparr>cells := (if linked then (cells l)[i := c\<lparr>c_string := s\<rparr>]
                                            else cells l @ [c\<lparr>c_string := s\<rparr>]), lastix := Some i\<rparr>) g))"

definition nplVadd :: "nat \<Rightarrow> nplst \<Rightarrow> fmt \<Rightarrow> int \<times> nplst" where
  "nplVadd t g0 m =
     (if m = NoFmt then (0, g0)
      else case getList t g0 of
        (None, g) \<Rightarrow> (0, g)
      | (Some l, g) \<Rightarrow>
          (let i = next_ix l
           in if i < length (cells l) then vadd_format t g l i True (cells l ! i) m
              else case call_fails g of (f1, g1) \<Rightarrow>
                if f1 then (ENOMEM, g1)
                else case call_fails g1 of (f2, g2) \<Rightarrow>
                  if f2 then (ENOMEM, g2)
                  else let c = \<lparr>c_string = [], c_size = DEFAULT_STRING_SIZE\<rparr>
                       in if cells l = [] then vadd_format t g2 (l\<lparr>cells := [c]\<rparr>) 0 True c m
                          else vadd_format t g2 l i False c m))"

definition nplAdd :: "nat \<Rightarrow> nplst \<Rightarrow> fmt \<Rightarrow> nplst" where
  "nplAdd t g m =
     (case nplVadd t g m of (st, g1) \<Rightarrow> if st = EAGAIN then snd (nplVadd t g1 m) else g1)"

definition nplStart :: "nat \<Rightarrow> nplst \<Rightarrow> fmt \<Rightarrow> nplst" where
  "nplStart t g m =
     (let g0 = nplClear t g
      in case nplVadd t g0 m of (st, g1) \<Rightarrow> if st = EAGAIN then snd (nplVadd t g1 m) else g1)"

text \<open>\<open>nplErrno\<close> and \<open>nplErrnum\<close>; \<open>e\<close> is the text \<open>strerror\<close> returns.\<close>

definition nplErrnum :: "nat \<Rightarrow> nplst \<Rightarrow> cstr \<Rightarrow> fmt \<Rightarrow> nplst" where
  "nplErrnum t g e m =
     (let g0 = nplStart t g (Fmt e)
      in case nplVadd t g0 m of (st, g1) \<Rightarrow> if st = EAGAIN then snd (nplVadd t g1 m) else g1)"

definition nplErrno :: "nat \<Rightarrow> nplst \<Rightarrow> (int \<Rightarrow> cstr) \<Rightarrow> int \<Rightarrow> fmt \<Rightarrow> nplst" where
  "nplErrno t g strerror errno m =
     (let g0 = nplStart t g (Fmt (strerror errno))
      in case nplVadd t g0 m of (st, g1) \<Rightarrow> if st = EAGAIN then snd (nplVadd t g1 m) else g1)"

text \<open>
  \<open>nplLog\<close>. \<open>logmask\<close> is the log mask of \<open>ulog\<close>. A level outside the five known ones makes the code call
  \<open>nplError\<close> while it holds the module's lock: \<open>None\<close>, the thread waits for itself.
\<close>

definition reported :: "msglist \<Rightarrow> cstr list" where
  "reported l = (case lastix l of None \<Rightarrow> [] | Some k \<Rightarrow> map c_string (take (Suc k) (cells l)))"

definition nplLog :: "nat \<Rightarrow> nat \<Rightarrow> nplst \<Rightarrow> nat \<Rightarrow> nplst option" where
  "nplLog logmask t g level =
     (case getList t g of
        (None, g1) \<Rightarrow> Some g1
      | (Some l, g1) \<Rightarrow>
          if lastix l = None then Some g1
          else if level \<notin> {3, 4, 5, 6, 7} then None
          else let g2 = (if bit logmask level then g1\<lparr>sink := sink g1 @ map (Pair (int level)) (reported l)\<rparr> else g1)
               in Some (nplClear t g2))"

section \<open>Invariant and abstraction\<close>

definition list_inv :: "msglist \<Rightarrow> bool" where
  "list_inv l \<longleftrightarrow> (case lastix l of None \<Rightarrow> True | Some k \<Rightarrow> k < length (cells l)) \<and>
     (\<forall>c\<in>set (cells l). length (c_string c) < c_size c)"

text \<open>A thread's chain, empty before its first message, and the report it has accumulated.\<close>

definition cur :: "nat \<Rightarrow> nplst \<Rightarrow> msglist" where
  "cur t g = (case lists g t of None \<Rightarrow> \<lparr>cells = [], lastix = None\<rparr> | Some l \<Rightarrow> l)"

definition report :: "nat \<Rightarrow> nplst \<Rightarrow> cstr list" where
  "report t g = reported (cur t g)"

definition npl_inv :: "nplst \<Rightarrow> bool" where
  "npl_inv g \<longleftrightarrow> (\<forall>t. list_inv (cur t g)) \<and> (keyCreated g \<or> lists g = (\<lambda>_. None))"

text \<open>Whether \<open>nplAdd\<close> can store a message of the given length in one of at most two attempts.\<close>

definition storable :: "nat \<Rightarrow> nplst \<Rightarrow> nat \<Rightarrow> bool" where
  "storable t g n \<longleftrightarrow> n < DEFAULT_STRING_SIZE \<or> cells (cur t g) = [] \<or> next_ix (cur t g) < length (cells (cur t g))"

definition set_cur :: "nat \<Rightarrow> msglist \<Rightarrow> nplst \<Rightarrow> nplst" where
  "set_cur t l g = g\<lparr>keyCreated := True, lists := (lists g)(t \<mapsto> l)\<rparr>"

lemma cur_set_cur [simp]: "cur u (set_cur t l g) = (if u = t then l else cur u g)"
  by (simp add: cur_def set_cur_def)

lemma set_cur_simps [simp]:
  "nofail (set_cur t l g) = nofail g" "sink (set_cur t l g) = sink g"
  "set_cur t l (set_cur t l' g) = set_cur t l g" "put_list t l (set_cur t l' g) = set_cur t l g"
  by (simp_all add: set_cur_def put_list_def)

lemma npl_inv_cur: "npl_inv g \<Longrightarrow> list_inv (cur t g)"
  by (simp add: npl_inv_def)

lemma npl_inv_set_cur [simp]: "npl_inv g \<Longrightarrow> npl_inv (set_cur t l g) \<longleftrightarrow> list_inv l"
proof -
  assume i: "npl_inv g"
  have k: "keyCreated (set_cur t l g)" by (simp add: set_cur_def)
  show ?thesis
    using i by (auto simp: npl_inv_def k)
qed

lemma set_cur_id: "keyCreated g \<Longrightarrow> lists g t = Some l \<Longrightarrow> set_cur t l g = g"
  by (cases g) (auto simp: set_cur_def)

lemma getList_ok: "npl_inv g \<Longrightarrow> nofail g = [] \<Longrightarrow> getList t g = (Some (cur t g), set_cur t (cur t g) g)"
proof -
  assume i: "npl_inv g" and f: "nofail g = []"
  show ?thesis
  proof (cases "lists g t")
    case None
    then show ?thesis using f by (simp add: getList_def Let_def cur_def set_cur_def)
  next
    case (Some l)
    then have "keyCreated g" using i by (auto simp: npl_inv_def)
    with Some set_cur_id [of g t l] show ?thesis by (simp add: getList_def Let_def cur_def)
  qed
qed

lemma list_inv_next: "list_inv l \<Longrightarrow> next_ix l \<le> length (cells l)"
  by (auto simp: list_inv_def next_ix_def split: option.splits)

section \<open>Effect of the operations\<close>

definition stored :: "msglist \<Rightarrow> cell \<Rightarrow> msglist" where
  "stored l c =
     l\<lparr>cells := (if next_ix l < length (cells l) then (cells l)[next_ix l := c] else cells l @ [c]),
       lastix := Some (next_ix l)\<rparr>"

lemma reported_take: "reported l = map c_string (take (next_ix l) (cells l))"
  by (auto simp: reported_def next_ix_def split: option.splits)

lemma stored_reported: "list_inv l \<Longrightarrow> reported (stored l c) = reported l @ [c_string c]"
proof -
  assume "list_inv l"
  note n = list_inv_next [OF this]
  have "reported (stored l c) = map c_string (take (Suc (next_ix l)) (cells (stored l c)))"
    by (simp add: reported_def stored_def)
  with n show ?thesis
    by (cases "next_ix l < length (cells l)") (auto simp: reported_take stored_def take_Suc_conv_app_nth)
qed

lemma stored_length: "next_ix l = 0 \<Longrightarrow> length (cells (stored l c)) = max 1 (length (cells l))"
  by (cases "cells l") (auto simp: stored_def)

lemma stored_inv: "list_inv l \<Longrightarrow> length (c_string c) < c_size c \<Longrightarrow> list_inv (stored l c)"
  using list_inv_next [of l] by (auto simp: list_inv_def stored_def set_update_memI dest: subsetD [OF set_update_subset_insert])

lemma nplVadd_fits:
  assumes "npl_inv g" "nofail g = []"
    and "length s < (if next_ix (cur t g) < length (cells (cur t g)) then c_size (cells (cur t g) ! next_ix (cur t g))
                     else DEFAULT_STRING_SIZE)"
  shows "\<exists>c. nplVadd t g (Fmt s) = (0, set_cur t (stored (cur t g) c) g) \<and> c_string c = s \<and> length s < c_size c"
proof (cases "next_ix (cur t g) < length (cells (cur t g))")
  case True
  with assms show ?thesis
    by (intro exI [of _ "(cells (cur t g) ! next_ix (cur t g))\<lparr>c_string := s\<rparr>"])
      (auto simp: nplVadd_def getList_ok vadd_format_def stored_def Let_def)
next
  case False
  with assms list_inv_next [OF npl_inv_cur [OF assms(1), of t]] show ?thesis
    by (intro exI [of _ "\<lparr>c_string = s, c_size = DEFAULT_STRING_SIZE\<rparr>"])
      (auto simp: nplVadd_def getList_ok vadd_format_def stored_def Let_def)
qed

text \<open>The message that does not fit: a linked cell grows, an unlinked one is lost.\<close>

lemma nplVadd_grows:
  assumes "npl_inv g" "nofail g = []" and "next_ix (cur t g) < length (cells (cur t g)) \<or> cells (cur t g) = []"
    and "(if next_ix (cur t g) < length (cells (cur t g)) then c_size (cells (cur t g) ! next_ix (cur t g))
          else DEFAULT_STRING_SIZE) \<le> length s"
  shows "\<exists>l. nplVadd t g (Fmt s) = (EAGAIN, set_cur t l g) \<and> list_inv l \<and> reported l = reported (cur t g) \<and>
    next_ix l = next_ix (cur t g) \<and> next_ix l < length (cells l) \<and> c_size (cells l ! next_ix l) = length s + 1 \<and>
    length (cells l) = max 1 (length (cells (cur t g)))"
proof (cases "next_ix (cur t g) < length (cells (cur t g))")
  case True
  let ?l = "(cur t g)\<lparr>cells := (cells (cur t g))[next_ix (cur t g) := \<lparr>c_string = [], c_size = length s + 1\<rparr>]\<rparr>"
  have n: "next_ix ?l = next_ix (cur t g)" by (simp add: next_ix_def)
  have "list_inv ?l"
    using npl_inv_cur [OF assms(1), of t] set_update_subset_insert [of "cells (cur t g)" "next_ix (cur t g)"]
    by (fastforce simp: list_inv_def split: option.splits)
  with True assms n show ?thesis
    by (intro exI [of _ ?l]) (auto simp: nplVadd_def getList_ok vadd_format_def Let_def reported_take)
next
  case False
  with assms have e: "cells (cur t g) = []" by simp
  with npl_inv_cur [OF assms(1), of t] have lx: "lastix (cur t g) = None" by (auto simp: list_inv_def split: option.splits)
  let ?l = "(cur t g)\<lparr>cells := [\<lparr>c_string = [], c_size = length s + 1\<rparr>]\<rparr>"
  have "next_ix ?l = 0" "next_ix (cur t g) = 0" by (simp_all add: next_ix_def lx)
  with False assms e lx show ?thesis
    by (intro exI [of _ ?l])
      (auto simp: nplVadd_def getList_ok vadd_format_def Let_def reported_take list_inv_def)
qed

lemma nplVadd_lost:
  assumes "npl_inv g" "nofail g = []" and "\<not> next_ix (cur t g) < length (cells (cur t g))" "cells (cur t g) \<noteq> []"
    and "DEFAULT_STRING_SIZE \<le> length s"
  shows "nplVadd t g (Fmt s) = (EAGAIN, set_cur t (cur t g) g)"
  using assms by (auto simp: nplVadd_def getList_ok vadd_format_def Let_def)

text \<open>The two-attempt idiom shared by all the public functions.\<close>

lemma vadd_twice:
  assumes i: "npl_inv g" and f: "nofail g = []"
  shows "\<exists>l. (case nplVadd t g (Fmt s) of (st, g1) \<Rightarrow> if st = EAGAIN then snd (nplVadd t g1 (Fmt s)) else g1) = set_cur t l g \<and>
    list_inv l \<and> reported l = (if storable t g (length s) then report t g @ [s] else report t g) \<and>
    (next_ix (cur t g) = 0 \<longrightarrow> length (cells l) = max 1 (length (cells (cur t g))))"
proof -
  let ?l = "cur t g"
  have li: "list_inv ?l" using npl_inv_cur [OF i] .
  define sz where "sz = (if next_ix ?l < length (cells ?l) then c_size (cells ?l ! next_ix ?l) else DEFAULT_STRING_SIZE)"
  consider (fits) "length s < sz" | (grows) "sz \<le> length s" "next_ix ?l < length (cells ?l) \<or> cells ?l = []"
    | (lost) "sz \<le> length s" "\<not> next_ix ?l < length (cells ?l)" "cells ?l \<noteq> []"
    by linarith
  then show ?thesis
  proof cases
    case fits
    then have st: "storable t g (length s)" by (auto simp: storable_def sz_def split: if_splits)
    obtain c where "nplVadd t g (Fmt s) = (0, set_cur t (stored ?l c) g)" "c_string c = s" "length s < c_size c"
      using nplVadd_fits [OF i f, of s t] fits by (auto simp: sz_def)
    with st li show ?thesis
      by (intro exI [of _ "stored ?l c"]) (simp add: EAGAIN_def stored_inv stored_reported report_def stored_length)
  next
    case grows
    obtain l where l: "nplVadd t g (Fmt s) = (EAGAIN, set_cur t l g)" "list_inv l" "reported l = reported ?l"
      "next_ix l < length (cells l)" "c_size (cells l ! next_ix l) = length s + 1" "length (cells l) = max 1 (length (cells ?l))"
      "next_ix l = next_ix ?l"
      using nplVadd_grows [OF i f grows(2), of s] grows(1) by (auto simp: sz_def)
    have st: "storable t g (length s)" using grows by (auto simp: storable_def)
    have "npl_inv (set_cur t l g)" "nofail (set_cur t l g) = []" using i f l(2) by simp_all
    from nplVadd_fits [OF this, of s t] l obtain c where
      "nplVadd t (set_cur t l g) (Fmt s) = (0, set_cur t (stored l c) g)" "c_string c = s" "length s < c_size c" by auto
    with l st show ?thesis
      by (intro exI [of _ "stored l c"]) (simp add: stored_inv stored_reported report_def stored_length)
  next
    case lost
    then have st: "\<not> storable t g (length s)" "DEFAULT_STRING_SIZE \<le> length s" by (auto simp: storable_def sz_def)
    have v: "nplVadd t g (Fmt s) = (EAGAIN, set_cur t ?l g)"
      using nplVadd_lost [OF i f lost(2,3) st(2)] .
    have "npl_inv (set_cur t ?l g)" "nofail (set_cur t ?l g) = []" using i f li by simp_all
    from nplVadd_lost [OF this, of t s] lost st have "nplVadd t (set_cur t ?l g) (Fmt s) = (EAGAIN, set_cur t ?l g)" by simp
    moreover have "next_ix ?l \<noteq> 0" using lost by (cases "cells ?l") auto
    ultimately show ?thesis using v st li by (intro exI [of _ ?l]) (auto simp: report_def)
  qed
qed

lemma nplClear_ok: "npl_inv g \<Longrightarrow> nofail g = [] \<Longrightarrow> nplClear t g = set_cur t ((cur t g)\<lparr>lastix := None\<rparr>) g"
  by (simp add: nplClear_def getList_ok)

lemma list_inv_clear: "list_inv l \<Longrightarrow> list_inv (l\<lparr>lastix := None\<rparr>)"
  by (simp add: list_inv_def)

lemma report_set_cur [simp]: "report u (set_cur t l g) = (if u = t then reported l else report u g)"
  by (simp add: report_def)


lemma nplAdd_state: "npl_inv g \<Longrightarrow> nofail g = [] \<Longrightarrow>
   \<exists>l. nplAdd t g (Fmt s) = set_cur t l g \<and> list_inv l \<and>
     reported l = (if storable t g (length s) then report t g @ [s] else report t g)"
  unfolding nplAdd_def using vadd_twice [of g t s] by blast

lemma nplStart_state:
  assumes i: "npl_inv g" and f: "nofail g = []"
  shows "\<exists>l. nplStart t g (Fmt s) = set_cur t l g \<and> list_inv l \<and> reported l = [s] \<and>
    (length (cells (cur t g)) \<le> 1 \<longrightarrow> length (cells l) = 1)"
proof -
  let ?c = "(cur t g)\<lparr>lastix := None\<rparr>"
  have li: "list_inv ?c" using npl_inv_cur [OF i] by (rule list_inv_clear)
  have g: "npl_inv (set_cur t ?c g)" "nofail (set_cur t ?c g) = []" using i f li by simp_all
  have st: "storable t (set_cur t ?c g) (length s)" by (auto simp: storable_def next_ix_def)
  have n0: "next_ix ?c = 0" by (simp add: next_ix_def)
  from vadd_twice [OF g, of t s] st n0 obtain l where
    "nplStart t g (Fmt s) = set_cur t l (set_cur t ?c g)" "list_inv l" "reported l = [s]"
    "length (cells l) = max 1 (length (cells (cur t g)))"
    by (auto simp: nplStart_def nplClear_ok [OF i f] Let_def report_def reported_def)
  then show ?thesis by auto
qed

definition demo_npl :: nplst where
  "demo_npl = \<lparr>keyCreated = False, lists = (\<lambda>_. None), nofail = [], sink = []\<rparr>"

lemma demo_npl_inv [simp]: "npl_inv demo_npl" "nofail demo_npl = []"
  by (simp_all add: demo_npl_def npl_inv_def cur_def list_inv_def)

text \<open>
  \<open>nplAdd\<close> appends its message to the calling thread's report, with one exception: a message of 256
  characters or more for which the chain has no cell left to reuse is dropped without notice, because
  both attempts enlarge a fresh cell that is not linked into the chain. Other threads' reports are
  untouched in every case.
\<close>

theorem nplAdd_effect:
  assumes "npl_inv g" and "nofail g = []"
  shows "npl_inv (nplAdd t g (Fmt s)) \<and> report t (nplAdd t g (Fmt s)) =
      (if length s < 256 \<or> cells (cur t g) = [] \<or> length (report t g) < length (cells (cur t g))
       then report t g @ [s] else report t g) \<and>
    (u \<noteq> t \<longrightarrow> report u (nplAdd t g (Fmt s)) = report u g)"
proof -
  have n: "length (report t g) = next_ix (cur t g)"
    using list_inv_next [OF npl_inv_cur [OF assms(1), of t]] by (simp add: report_def reported_take)
  obtain l where "nplAdd t g (Fmt s) = set_cur t l g" "list_inv l"
    "reported l = (if storable t g (length s) then report t g @ [s] else report t g)"
    using nplAdd_state [OF assms] by blast
  with assms n show ?thesis by (simp add: storable_def DEFAULT_STRING_SIZE_def)
qed

theorem nplAdd_effect_witness:
  "report 0 (nplAdd 0 (nplAdd 0 demo_npl (Fmt [65])) (Fmt (replicate 256 66))) = [[65]]"
proof -
  let ?g = "nplAdd 0 demo_npl (Fmt [65])"
  have 1: "npl_inv ?g" "report 0 ?g = [[65]]"
    using nplAdd_effect [OF demo_npl_inv, of 0 "[65]"] by (auto simp: report_def reported_def cur_def demo_npl_def)
  have 2: "nofail ?g = []" "length (cells (cur 0 ?g)) = 1"
    by (simp_all add: demo_npl_def nplAdd_def nplVadd_def getList_def call_fails_def Let_def next_ix_def
        vadd_format_def DEFAULT_STRING_SIZE_def EAGAIN_def put_list_def cur_def)
  then have "cells (cur 0 ?g) \<noteq> []" by auto
  with nplAdd_effect [OF 1(1) 2(1), of 0 "replicate 256 66"] 1 2 show ?thesis by simp
qed

text \<open>
  \<open>nplStart\<close> begins a new report: whatever was accumulated before, and however long the message,
  the report is exactly that message.
\<close>

theorem nplStart_resets:
  assumes "npl_inv g" and "nofail g = []"
  shows "npl_inv (nplStart t g (Fmt s)) \<and> report t (nplStart t g (Fmt s)) = [s] \<and>
    (u \<noteq> t \<longrightarrow> report u (nplStart t g (Fmt s)) = report u g)"
proof -
  obtain l where "nplStart t g (Fmt s) = set_cur t l g" "list_inv l" "reported l = [s]"
    using nplStart_state [OF assms] by blast
  with assms show ?thesis by simp
qed

theorem nplStart_resets_witness:
  "report 0 (nplStart 0 demo_npl (Fmt (replicate 300 66))) = [replicate 300 66]"
  using nplStart_resets [OF demo_npl_inv, of 0 "replicate 300 66"] by simp

text \<open>
  \<open>nplLog\<close> prints the calling thread's report in the order it was added, once, if the level is
  enabled, and clears it in any case; other reports stay. With a level that is none of the five and a
  report to print it never returns (it takes its own lock twice).
\<close>

theorem nplLog_prints:
  assumes "npl_inv g" and "nofail g = []"
  shows "(if report t g \<noteq> [] \<and> level \<notin> {3, 4, 5, 6, 7} then nplLog logmask t g level = None
     else \<exists>g'. nplLog logmask t g level = Some g' \<and> npl_inv g' \<and> report t g' = [] \<and>
       sink g' = sink g @ (if bit logmask level then map (Pair (int level)) (report t g) else []) \<and>
       (u \<noteq> t \<longrightarrow> report u g' = report u g))"
proof -
  let ?l = "cur t g"
  have li: "list_inv ?l" using npl_inv_cur [OF assms(1)] .
  have g1: "npl_inv (set_cur t ?l g)" "nofail (set_cur t ?l g) = []" using assms li by simp_all
  have empty: "report t g = [] \<longleftrightarrow> lastix ?l = None"
    using li by (auto simp: report_def reported_def list_inv_def split: option.splits)
  have sinkupd: "npl_inv (h\<lparr>sink := x\<rparr>) = npl_inv h" "nofail (h\<lparr>sink := x\<rparr>) = nofail h"
    "cur v (h\<lparr>sink := x\<rparr>) = cur v h" "report v (h\<lparr>sink := x\<rparr>) = report v h" for h x v
    by (simp_all add: npl_inv_def cur_def report_def)
  have clr: "nplClear t (h\<lparr>sink := x\<rparr>) = set_cur t ((cur t h)\<lparr>lastix := None\<rparr>) (h\<lparr>sink := x\<rparr>)"
    if "npl_inv h" "nofail h = []" for h x
    using nplClear_ok [of "h\<lparr>sink := x\<rparr>" t] that by (simp add: sinkupd)
  note gl = getList_ok [OF assms, of t]
  show ?thesis
  proof (cases "lastix ?l = None")
    case True
    then have "nplLog logmask t g level = Some (set_cur t ?l g)" by (simp add: nplLog_def gl)
    with True empty g1 show ?thesis by (simp add: report_def)
  next
    case False
    show ?thesis
    proof (cases "level \<in> {3, 4, 5, 6, 7}")
      case True
      let ?h = "set_cur t (?l\<lparr>lastix := None\<rparr>) (set_cur t ?l g)"
      let ?h2 = "set_cur t (?l\<lparr>lastix := None\<rparr>) ((set_cur t ?l g)\<lparr>sink := sink g @ map (Pair (int level)) (report t g)\<rparr>)"
      have "nplLog logmask t g level = Some (if bit logmask level then ?h2 else ?h)"
        unfolding nplLog_def gl using False True nplClear_ok [OF g1, of t] clr [OF g1]
        by (auto simp: Let_def report_def)
      moreover have "reported (?l\<lparr>lastix := None\<rparr>) = []" by (simp add: reported_def)
      ultimately show ?thesis using True assms g1 list_inv_clear [OF li] by (simp add: sinkupd)
    next
      case False2: False
      with False have "nplLog logmask t g level = None" by (simp add: nplLog_def gl)
      with False False2 empty show ?thesis by simp
    qed
  qed
qed

theorem nplLog_prints_witness:
  "\<exists>g'. nplLog 8 0 (nplAdd 0 demo_npl (Fmt [65])) 3 = Some g' \<and> sink g' = [(3, [65])]"
proof -
  let ?g = "nplAdd 0 demo_npl (Fmt [65])"
  obtain l where l: "?g = set_cur 0 l demo_npl" "list_inv l" "reported l = [[65]]"
    using nplAdd_state [OF demo_npl_inv, of 0 "[65]"]
    by (auto simp: storable_def DEFAULT_STRING_SIZE_def report_def reported_def cur_def demo_npl_def)
  have "npl_inv ?g" "nofail ?g = []" "report 0 ?g = [[65]]" "sink ?g = []"
    using l by (simp_all add: demo_npl_def [THEN arg_cong, of sink])
  moreover have "bit (8::nat) 3" by (simp add: bit_iff_odd)
  ultimately show ?thesis
    using nplLog_prints [of ?g 0 3 8 1] by auto
qed

text \<open>
  \<open>nplErrno\<close> leaves a report of the system message followed by the caller's message, provided the
  latter is shorter than 256 characters; a longer one is lost when the thread has never reported two
  messages before.
\<close>

theorem nplErrno_report:
  assumes "npl_inv g" and "nofail g = []"
  shows "(length s < 256 \<longrightarrow> report t (nplErrno t g strerror e (Fmt s)) = [strerror e, s]) \<and>
    (256 \<le> length s \<and> length (cells (cur t g)) \<le> 1 \<longrightarrow> report t (nplErrno t g strerror e (Fmt s)) = [strerror e])"
proof -
  obtain l where l: "nplStart t g (Fmt (strerror e)) = set_cur t l g" "list_inv l" "reported l = [strerror e]"
    "length (cells (cur t g)) \<le> 1 \<longrightarrow> length (cells l) = 1"
    using nplStart_state [OF assms] by blast
  have i: "npl_inv (set_cur t l g)" "nofail (set_cur t l g) = []" using assms l by simp_all
  obtain l' where l': "nplErrno t g strerror e (Fmt s) = set_cur t l' (set_cur t l g)"
    "reported l' = (if storable t (set_cur t l g) (length s) then [strerror e] @ [s] else [strerror e])"
    using vadd_twice [OF i, of t s] l by (auto simp: nplErrno_def Let_def)
  have n: "next_ix l = 1"
    using l(2,3) list_inv_next [OF l(2)] by (metis One_nat_def length_Cons length_map length_take list.size(3) min.absorb2 reported_take)
  from l' n l(4) show ?thesis
    by (auto simp: storable_def DEFAULT_STRING_SIZE_def)
qed

theorem nplErrno_report_witness:
  "report 0 (nplErrno 0 demo_npl (\<lambda>_. [69]) 5 (Fmt (replicate 256 66))) = [[69]]"
  using nplErrno_report [OF demo_npl_inv, of "replicate 256 66" 0 "\<lambda>_. [69]" 5] by (simp add: demo_npl_def cur_def)

text \<open>
  Failure of an allocation: \<open>nplVadd\<close> reports it as \<open>ENOMEM\<close> and the thread's report is what it was.
\<close>

theorem nplVadd_no_memory:
  assumes "keyCreated g" and "lists g t = Some l" and "nofail g = True # bs" and "list_inv l"
    and "length (cells l) \<le> next_ix l \<or> c_size (cells l ! next_ix l) \<le> length s"
  shows "fst (nplVadd t g (Fmt s)) = ENOMEM \<and> report t (snd (nplVadd t g (Fmt s))) = report t g"
proof -
  have gl: "getList t g = (Some l, g)" using assms(1,2) by (simp add: getList_def)
  have cf: "call_fails g = (True, g\<lparr>nofail := bs\<rparr>)" using assms(3) by (simp add: call_fails_def)
  show ?thesis
  proof (cases "next_ix l < length (cells l)")
    case True
    with assms(5) have "c_size (cells l ! next_ix l) \<le> length s" by simp
    with True gl cf show ?thesis
      by (simp add: nplVadd_def Let_def vadd_format_def report_def cur_def put_list_def assms(2) reported_take)
        (simp add: next_ix_def)
  next
    case False
    with gl cf show ?thesis
      by (simp add: nplVadd_def Let_def report_def cur_def)
  qed
qed

theorem nplVadd_no_memory_witness:
  "fst (nplVadd 0 (demo_npl\<lparr>keyCreated := True, lists := (\<lambda>_. Some \<lparr>cells = [], lastix = None\<rparr>), nofail := [True]\<rparr>) (Fmt [65])) = 12"
  using nplVadd_no_memory [of "demo_npl\<lparr>keyCreated := True, lists := (\<lambda>_. Some \<lparr>cells = [], lastix = None\<rparr>), nofail := [True]\<rparr>"
      0 "\<lparr>cells = [], lastix = None\<rparr>" "[]" "[65]"]
  by (simp add: ENOMEM_def list_inv_def)

end
