(* ===== verification/Reader.thy ===== *)
theory Reader
  imports Fifo
begin

text \<open>
  The data-reader (\<open>reader.c\<close>): a thread that reserves space in the FIFO, reads from a file descriptor either
  into the FIFO or, when the space is not contiguous, into its own buffer, and commits what it read. \<open>read\<close> is
  given by its results, the pthread calls by their return codes.
\<close>

record reader =
  rd_buf :: "byte list"
  byteCount :: nat
  rd_maxSize :: nat
  rd_fd :: int
  rd_status :: int

text \<open>\<open>r\<close> and \<open>b\<close> are the memory of the two calls of \<open>malloc\<close>, with indeterminate contents.\<close>

definition readerNew :: "int \<Rightarrow> nat \<Rightarrow> reader option \<Rightarrow> byte list option \<Rightarrow> int \<Rightarrow> int \<times> reader option" where
  "readerNew fd maxSize r b mutex_init =
     (case r of
        None \<Rightarrow> (2, None)
      | Some m \<Rightarrow>
          (case b of
             None \<Rightarrow> (2, None)
           | Some buf \<Rightarrow>
               if mutex_init \<noteq> 0 then (2, None)
               else (0, Some (m\<lparr>byteCount := 0, rd_fd := fd, rd_maxSize := maxSize, rd_buf := buf, rd_status := 0\<rparr>))))"

text \<open>What \<open>readerFree\<close> gives to \<open>free\<close>; the file descriptor and the mutex are not released.\<close>

definition readerFree :: "reader option \<Rightarrow> (byte list \<times> reader) option" where
  "readerFree r = map_option (\<lambda>m. (rd_buf m, m)) r"

datatype rd_result = ReadData "byte list" | ReadFailed

datatype rd_step = Again reader fifo | Ended int reader fifo | Blocked fifo | MutexHeld | Undef

text \<open>The body of the loop once \<open>fifoWriteReserve\<close> has returned 0 with \<open>buf\<close> at \<open>off\<close> and \<open>size\<close>.\<close>

definition reader_fill :: "pthr \<Rightarrow> tid \<Rightarrow> reader \<Rightarrow> fifo \<Rightarrow> nat \<Rightarrow> nat \<Rightarrow> rd_result \<Rightarrow> rd_step" where
  "reader_fill os t r f off sz rr =
     (case rr of
        ReadFailed \<Rightarrow> Ended 2 r f
      | ReadData d \<Rightarrow>
          if d = [] then Ended 0 r f
          else if sz < rd_maxSize r
          then (case mem_write (rd_buf r) 0 d of
                  None \<Rightarrow> Undef
                | Some b \<Rightarrow>
                    (case fifoCopy os t f d of
                       None \<Rightarrow> Undef
                     | Some (st, f1) \<Rightarrow>
                         if st \<noteq> 0 then Ended 2 (r\<lparr>rd_buf := b\<rparr>) f1 else Again (r\<lparr>rd_buf := b\<rparr>) f1))
          else (case mem_write (fbuf f) off d of
                  None \<Rightarrow> Undef
                | Some b \<Rightarrow>
                    (case fifoWriteUpdate os t (f\<lparr>fbuf := b\<rparr>) (length d) of
                       (st, f1) \<Rightarrow>
                         if st \<noteq> 0 then Ended 2 r f1
                         else Again (r\<lparr>byteCount := sz_add (byteCount r) (length d)\<rparr>) f1)))"

definition reader_reserved :: "pthr \<Rightarrow> tid \<Rightarrow> reader \<Rightarrow> (int \<times> (nat \<times> nat) option) outcome \<Rightarrow> rd_result \<Rightarrow> rd_step" where
  "reader_reserved os t r out rr =
     (case out of
        Fault \<Rightarrow> Undef
      | LockWait \<Rightarrow> MutexHeld
      | CondWait f \<Rightarrow> Blocked f
      | Done (st, loc) f \<Rightarrow>
          if st \<noteq> 0 then Ended 2 r f
          else (case loc of None \<Rightarrow> Undef | Some (off, sz) \<Rightarrow> reader_fill os t r f off sz rr))"

definition reader_iter :: "pthr \<Rightarrow> tid \<Rightarrow> reader \<Rightarrow> fifo \<Rightarrow> rd_result \<Rightarrow> rd_step" where
  "reader_iter os t r f rr = reader_reserved os t r (fifoWriteReserve os t f (rd_maxSize r)) rr"

text \<open>
  The loop beside a consumer of the FIFO: the events are the reader's next step, with what \<open>read\<close> returns in it,
  and reads of the consumer \<open>u\<close>. A reader that waits in \<open>fifoWriteReserve\<close> goes on in its wait loop.
\<close>

datatype rd_pc = Looping | InReserve | Finished

record rdsys =
  rs_reader :: reader
  rs_fifo :: fifo
  rs_pc :: rd_pc
  rs_in :: "byte list"
  rs_out :: "byte list"

datatype rd_event = Step rd_result | Consume nat

fun got :: "rd_result \<Rightarrow> byte list" where
  "got (ReadData d) = d"
| "got ReadFailed = []"

definition reader_next :: "pthr \<Rightarrow> tid \<Rightarrow> rdsys \<Rightarrow> rd_result \<Rightarrow> rd_step" where
  "reader_next os t s rr =
     (if rs_pc s = InReserve
      then reader_reserved os t (rs_reader s) (write_wait os t (rs_fifo s) (rd_maxSize (rs_reader s))) rr
      else reader_iter os t (rs_reader s) (rs_fifo s) rr)"

definition readerStart_step :: "pthr \<Rightarrow> tid \<Rightarrow> rdsys \<Rightarrow> rd_result \<Rightarrow> rdsys option" where
  "readerStart_step os t s rr =
     (if rs_pc s = Finished then None
      else (case reader_next os t s rr of
              Again r f \<Rightarrow> Some (s\<lparr>rs_reader := r, rs_fifo := f, rs_pc := Looping, rs_in := rs_in s @ got rr\<rparr>)
            | Ended st r f \<Rightarrow> Some (s\<lparr>rs_reader := r\<lparr>rd_status := st\<rparr>, rs_fifo := f, rs_pc := Finished\<rparr>)
            | Blocked f \<Rightarrow> Some (s\<lparr>rs_fifo := f, rs_pc := InReserve\<rparr>)
            | MutexHeld \<Rightarrow> None
            | Undef \<Rightarrow> None))"

fun readerStart :: "pthr \<Rightarrow> tid \<Rightarrow> tid \<Rightarrow> rdsys \<Rightarrow> rd_event list \<Rightarrow> rdsys option" where
  "readerStart os t u s [] = Some s"
| "readerStart os t u s (Step rr # es) = do { s' \<leftarrow> readerStart_step os t s rr; readerStart os t u s' es }"
| "readerStart os t u s (Consume n # es) =
     (case fifoRead all_ok u (rs_fifo s) n of
        Done (st, Some d) f \<Rightarrow> readerStart os t u (s\<lparr>rs_fifo := f, rs_out := rs_out s @ d\<rparr>) es
      | _ \<Rightarrow> None)"

definition readerGetStatistics :: "reader \<Rightarrow> nat \<times> reader" where
  "readerGetStatistics r = (byteCount r, r\<lparr>byteCount := 0\<rparr>)"

definition readerStatus :: "reader \<Rightarrow> int" where
  "readerStatus r = rd_status r"

section \<open>One iteration\<close>

definition reader_ok :: "reader \<Rightarrow> bool" where
  "reader_ok r \<longleftrightarrow> length (rd_buf r) = rd_maxSize r"

lemma fill_result:
  assumes "reader_ok r" "fifo_inv f" "writeMutex f = Some t" "nreserved f = rd_maxSize r"
    and "d \<noteq> []" "length d \<le> rd_maxSize r"
  shows "\<exists>r' f'. reader_fill all_ok t r f (nextWrite f) (fsize f - nextWrite f) (ReadData d) = Again r' f' \<and> reader_ok r' \<and>
    rd_maxSize r' = rd_maxSize r \<and> rd_status r' = rd_status r \<and>
    byteCount r' = (if fsize f - nextWrite f < rd_maxSize r then byteCount r else sz_add (byteCount r) (length d)) \<and>
    fifo_inv f' \<and> writeMutex f' = None \<and> readMutex f' = readMutex f \<and> closeIfEmpty f' = closeIfEmpty f \<and>
    fsize f' = fsize f \<and> fifo_content f' = fifo_content f @ d"
proof -
  have l: "length d \<le> nreserved f" using assms(4,6) by simp
  have u: "mutex_unlock (all_ok UnlockWrite) t (writeMutex f) = (0, None)"
    using assms(3) by (simp add: mutex_unlock_def)
  show ?thesis
  proof (cases "fsize f - nextWrite f < rd_maxSize r")
    case True
    obtain f' where f': "fifoCopy all_ok t f d = Some (0, f')" "fifo_inv f'" "fifo_content f' = fifo_content f @ d" "fsize f' = fsize f"
      "closeIfEmpty f' = closeIfEmpty f" "readMutex f' = readMutex f" "writeMutex f' = None"
      using fifoCopy_ok [OF assms(2) l, of all_ok t] u by auto
    have "mem_write (rd_buf r) 0 d = Some (blit (rd_buf r) 0 d)" "length (blit (rd_buf r) 0 d) = length (rd_buf r)"
      using assms(1,6) by (simp_all add: mem_write_def blit_def reader_ok_def)
    with f' True assms(1,5) show ?thesis by (simp add: reader_fill_def reader_ok_def)
  next
    case False
    then have e: "nextWrite f + length d \<le> fsize f" using fifo_invD(3) [OF assms(2)] assms(6) by linarith
    obtain f' where f': "fifoWriteUpdate all_ok t (f\<lparr>fbuf := blit (fbuf f) (nextWrite f) d\<rparr>) (length d) = (0, f')" "fifo_inv f'"
      "fifo_content f' = fifo_content f @ d" "fsize f' = fsize f"
      "closeIfEmpty f' = closeIfEmpty f" "readMutex f' = readMutex f" "writeMutex f' = None"
      using fifoWriteUpdate_ok [OF assms(2) l e, of all_ok t] u by auto
    have "mem_write (fbuf f) (nextWrite f) d = Some (blit (fbuf f) (nextWrite f) d)"
      using e fifo_invD(1) [OF assms(2)] by (simp add: mem_write_def)
    with f' False assms(1,5) show ?thesis by (simp add: reader_fill_def reader_ok_def)
  qed
qed

text \<open>Reserving: from the wait loop, which holds \<open>writeMutex\<close>.\<close>

lemma write_wait_open:
  assumes "fifo_inv f" "closeIfEmpty f = 0"
  shows "write_wait all_ok t f n =
    (if nbytes f + n \<le> fsize f then Done (0, Some (nextWrite f, fsize f - nextWrite f)) (f\<lparr>nreserved := n\<rparr>) else CondWait f)"
  using assms write_wait_cases [OF assms(1), of all_ok t n] by simp

lemma reserve_open:
  assumes "fifo_inv f" "closeIfEmpty f = 0" "writeMutex f = None" "n \<le> fsize f"
  shows "fifoWriteReserve all_ok t f n = write_wait all_ok t (f\<lparr>writeMutex := Some t\<rparr>) n"
  using assms by (simp add: fifoWriteReserve_def mutex_lock_def)

lemma reserved_result:
  assumes "reader_ok r" "fifo_inv f" "writeMutex f = Some t" "closeIfEmpty f = 0" "nbytes f + rd_maxSize r \<le> fsize f"
    and "d \<noteq> []" "length d \<le> rd_maxSize r"
  shows "\<exists>r' f'. reader_reserved all_ok t r (write_wait all_ok t f (rd_maxSize r)) (ReadData d) = Again r' f' \<and> reader_ok r' \<and>
    rd_maxSize r' = rd_maxSize r \<and> rd_status r' = rd_status r \<and>
    byteCount r' = (if fsize f - nextWrite f < rd_maxSize r then byteCount r else sz_add (byteCount r) (length d)) \<and>
    fifo_inv f' \<and> writeMutex f' = None \<and> readMutex f' = readMutex f \<and> closeIfEmpty f' = closeIfEmpty f \<and>
    fsize f' = fsize f \<and> fifo_content f' = fifo_content f @ d"
proof -
  let ?f = "f\<lparr>nreserved := rd_maxSize r\<rparr>"
  have i: "fifo_inv ?f" using assms(2,5) by (auto simp: fifo_inv_def)
  have c: "fifo_content ?f = fifo_content f" by simp
  have w: "write_wait all_ok t f (rd_maxSize r) = Done (0, Some (nextWrite ?f, fsize ?f - nextWrite ?f)) ?f"
    using write_wait_open [OF assms(2,4)] assms(5) by simp
  have "reader_reserved all_ok t r (write_wait all_ok t f (rd_maxSize r)) (ReadData d) =
      reader_fill all_ok t r ?f (nextWrite ?f) (fsize ?f - nextWrite ?f) (ReadData d)"
    unfolding w by (simp add: reader_reserved_def)
  then show ?thesis
    using fill_result [OF assms(1) i, of t d] assms(3,6,7) c by simp
qed

section \<open>The loop\<close>

definition rd_inv :: "tid \<Rightarrow> byte list \<Rightarrow> rdsys \<Rightarrow> bool" where
  "rd_inv t xs s \<longleftrightarrow> reader_ok (rs_reader s) \<and> rd_maxSize (rs_reader s) \<le> fsize (rs_fifo s) \<and>
     fifo_inv (rs_fifo s) \<and> closeIfEmpty (rs_fifo s) = 0 \<and> readMutex (rs_fifo s) = None \<and>
     writeMutex (rs_fifo s) = (if rs_pc s = Looping then None else Some t) \<and>
     rs_out s @ fifo_content (rs_fifo s) = xs @ rs_in s"

text \<open>\<open>read\<close> returns at most what it was asked for.\<close>

definition rr_ok :: "reader \<Rightarrow> rd_result \<Rightarrow> bool" where
  "rr_ok r rr \<longleftrightarrow> length (got rr) \<le> rd_maxSize r"

lemma step_waits:
  assumes "fifo_inv f" "closeIfEmpty f = 0" "fsize f < nbytes f + rd_maxSize r"
  shows "reader_reserved all_ok t r (write_wait all_ok t f (rd_maxSize r)) rr = Blocked f"
  using write_wait_open [OF assms(1,2)] assms(3) by (simp add: reader_reserved_def)

lemma step_ends:
  assumes "fifo_inv f" "closeIfEmpty f = 0" "nbytes f + rd_maxSize r \<le> fsize f" "got rr = []"
  shows "reader_reserved all_ok t r (write_wait all_ok t f (rd_maxSize r)) rr =
    Ended (if rr = ReadFailed then 2 else 0) r (f\<lparr>nreserved := rd_maxSize r\<rparr>)"
  using write_wait_open [OF assms(1,2)] assms(3,4)
  by (cases rr) (simp_all add: reader_reserved_def reader_fill_def)

text \<open>The reader's next step is an evaluation of the wait loop with \<open>writeMutex\<close> held.\<close>

lemma reader_next_waits:
  assumes "rd_inv t xs s" "rs_pc s \<noteq> Finished"
  shows "reader_next all_ok t s rr = reader_reserved all_ok t (rs_reader s)
    (write_wait all_ok t ((rs_fifo s)\<lparr>writeMutex := Some t\<rparr>) (rd_maxSize (rs_reader s))) rr"
proof (cases "rs_pc s")
  case Looping
  with assms show ?thesis
    by (simp add: reader_next_def reader_iter_def rd_inv_def reserve_open)
next
  case InReserve
  with assms have "(rs_fifo s)\<lparr>writeMutex := Some t\<rparr> = rs_fifo s" by (simp add: rd_inv_def)
  with InReserve show ?thesis by (simp add: reader_next_def)
qed (use assms in simp)

lemma readerStart_step_cases:
  assumes inv: "rd_inv t xs s" and pc: "rs_pc s \<noteq> Finished" and rr: "rr_ok (rs_reader s) rr"
  shows "\<exists>s'. readerStart_step all_ok t s rr = Some s' \<and> rd_inv t xs s' \<and> rs_out s' = rs_out s \<and>
    (if fsize (rs_fifo s) < nbytes (rs_fifo s) + rd_maxSize (rs_reader s) then rs_pc s' = InReserve \<and> rs_in s' = rs_in s
     else if got rr = [] then rs_pc s' = Finished \<and> rs_in s' = rs_in s \<and> rd_status (rs_reader s') = (if rr = ReadFailed then 2 else 0)
     else rs_pc s' = Looping \<and> rs_in s' = rs_in s @ got rr)"
proof -
  let ?r = "rs_reader s" and ?f = "(rs_fifo s)\<lparr>writeMutex := Some t\<rparr>"
  have i: "reader_ok ?r" "fifo_inv ?f" "writeMutex ?f = Some t" "closeIfEmpty ?f = 0" "fsize ?f = fsize (rs_fifo s)" "nbytes ?f = nbytes (rs_fifo s)"
    "fifo_content ?f = fifo_content (rs_fifo s)" "readMutex ?f = None" "rd_maxSize ?r \<le> fsize ?f"
    "rs_out s @ fifo_content (rs_fifo s) = xs @ rs_in s"
    using inv by (simp_all add: rd_inv_def)
  have nx: "reader_next all_ok t s rr = reader_reserved all_ok t ?r (write_wait all_ok t ?f (rd_maxSize ?r)) rr"
    by (rule reader_next_waits [OF inv pc])
  show ?thesis
  proof (cases "fsize ?f < nbytes ?f + rd_maxSize ?r")
    case True
    then have "reader_next all_ok t s rr = Blocked ?f" unfolding nx by (intro step_waits i(2,4))
    with True i pc show ?thesis by (simp add: readerStart_step_def rd_inv_def)
  next
    case False
    then have room: "nbytes ?f + rd_maxSize ?r \<le> fsize ?f" by simp
    show ?thesis
    proof (cases "got rr = []")
      case True
      have "reader_next all_ok t s rr = Ended (if rr = ReadFailed then 2 else 0) ?r (?f\<lparr>nreserved := rd_maxSize ?r\<rparr>)"
        unfolding nx by (rule step_ends [OF i(2,4) room True])
      moreover have "fifo_inv (?f\<lparr>nreserved := rd_maxSize ?r\<rparr>)" using i(2) room by (auto simp: fifo_inv_def)
      ultimately show ?thesis using False True i pc by (simp add: readerStart_step_def rd_inv_def reader_ok_def)
    next
      case ne: False
      then obtain d where d: "rr = ReadData d" by (cases rr) auto
      have "d \<noteq> []" "length d \<le> rd_maxSize ?r" using ne rr by (simp_all add: d rr_ok_def)
      from reserved_result [OF i(1-4) room this, folded d] obtain r' f' where
        n: "reader_next all_ok t s rr = Again r' f'" "reader_ok r'" "rd_maxSize r' = rd_maxSize ?r"
        "fifo_inv f'" "writeMutex f' = None" "readMutex f' = readMutex ?f" "closeIfEmpty f' = closeIfEmpty ?f" "fsize f' = fsize ?f"
        "fifo_content f' = fifo_content ?f @ d" unfolding nx by blast
      have "rs_out s @ fifo_content f' = xs @ rs_in s @ d"
        unfolding n(9) i(7) using i(10) by (metis append.assoc)
      with n False ne d i pc show ?thesis by (simp add: readerStart_step_def rd_inv_def)
    qed
  qed
qed

lemma consume_cases:
  assumes "fifo_inv f" "readMutex f = None" "fifoRead all_ok u f n = Done (st, Some d) f'"
  shows "n \<le> nbytes f \<and> st = 0 \<and> d = take n (fifo_content f) \<and> f' = f\<lparr>nbytes := nbytes f - n\<rparr>"
proof -
  have "fifo_inv (f\<lparr>readMutex := Some u\<rparr>)" using assms(1) by simp
  from read_wait_cases [OF this, of all_ok u n] assms show ?thesis
    by (auto simp: fifoRead_def mutex_lock_def mutex_unlock_def Let_def split: if_splits)
qed

lemma consume_ok:
  assumes "fifo_inv f" "readMutex f = None" "closeIfEmpty f = 0" "n \<le> nbytes f"
  shows "fifoRead all_ok u f n = Done (0, Some (take n (fifo_content f))) (f\<lparr>nbytes := nbytes f - n\<rparr>)"
proof -
  have "fifo_inv (f\<lparr>readMutex := Some u\<rparr>)" using assms(1) by simp
  from read_wait_cases [OF this, of all_ok u n] assms fifo_invD(5) [OF assms(1)] show ?thesis
    by (auto simp: fifoRead_def mutex_lock_def mutex_unlock_def Let_def)
qed

lemma consume_inv:
  assumes "rd_inv t xs s" "fifoRead all_ok u (rs_fifo s) n = Done (st, Some d) f"
  shows "rd_inv t xs (s\<lparr>rs_fifo := f, rs_out := rs_out s @ d\<rparr>)"
proof -
  have i: "fifo_inv (rs_fifo s)" "readMutex (rs_fifo s) = None" "rs_out s @ fifo_content (rs_fifo s) = xs @ rs_in s"
    using assms(1) by (simp_all add: rd_inv_def)
  note c = consume_cases [OF i(1,2) assms(2)]
  have "fifo_content f = drop n (fifo_content (rs_fifo s))" using c content_after_take [OF i(1)] by simp
  then have "(rs_out s @ d) @ fifo_content f = rs_out s @ fifo_content (rs_fifo s)" using c by simp
  moreover have "fifo_inv f" using c inv_after_take [OF i(1)] by simp
  ultimately show ?thesis using assms(1) c i(3) by (simp add: rd_inv_def)
qed

fun events_ok :: "nat \<Rightarrow> rd_event list \<Rightarrow> bool" where
  "events_ok m [] = True"
| "events_ok m (Step rr # es) = (length (got rr) \<le> m \<and> events_ok m es)"
| "events_ok m (Consume n # es) = events_ok m es"

lemma readerStart_step_maxSize:
  "readerStart_step os t s rr = Some s' \<Longrightarrow> rd_maxSize (rs_reader s') = rd_maxSize (rs_reader s)"
  by (auto simp: readerStart_step_def reader_next_def reader_iter_def reader_reserved_def reader_fill_def
      split: if_splits rd_step.splits outcome.splits option.splits rd_result.splits prod.splits)

lemma readerStart_StepE:
  "readerStart os t u s (Step rr # es) = Some s' \<longleftrightarrow>
   (\<exists>s1. readerStart_step os t s rr = Some s1 \<and> readerStart os t u s1 es = Some s')"
  by (cases "readerStart_step os t s rr") auto

lemma readerStart_ConsumeE:
  "readerStart os t u s (Consume n # es) = Some s' \<longleftrightarrow>
   (\<exists>st d f. fifoRead all_ok u (rs_fifo s) n = Done (st, Some d) f \<and>
     readerStart os t u (s\<lparr>rs_fifo := f, rs_out := rs_out s @ d\<rparr>) es = Some s')"
  by (cases "fifoRead all_ok u (rs_fifo s) n") (auto split: option.splits)

lemma readerStart_inv:
  assumes "readerStart all_ok t u s es = Some s'" "rd_inv t xs s" "events_ok (rd_maxSize (rs_reader s)) es"
  shows "rd_inv t xs s'"
  using assms
proof (induction es arbitrary: s)
  case (Cons e es)
  show ?case
  proof (cases e)
    case (Step rr)
    obtain s1 where s1: "readerStart_step all_ok t s rr = Some s1" "readerStart all_ok t u s1 es = Some s'"
      using Cons.prems(1) unfolding Step readerStart_StepE by blast
    have pc: "rs_pc s \<noteq> Finished" using s1(1) by (auto simp: readerStart_step_def)
    have ok: "rr_ok (rs_reader s) rr" using Cons.prems(3) Step by (simp add: rr_ok_def)
    have "rd_inv t xs s1" using readerStart_step_cases [OF Cons.prems(2) pc ok] s1(1) by auto
    with Cons.IH [OF s1(2)] Cons.prems(3) Step readerStart_step_maxSize [OF s1(1)] show ?thesis by simp
  next
    case (Consume n)
    obtain st d f where r: "fifoRead all_ok u (rs_fifo s) n = Done (st, Some d) f"
      "readerStart all_ok t u (s\<lparr>rs_fifo := f, rs_out := rs_out s @ d\<rparr>) es = Some s'"
      using Cons.prems(1) unfolding Consume readerStart_ConsumeE by blast
    show ?thesis
      using Cons.IH [OF r(2) consume_inv [OF Cons.prems(2) r(1)]] Cons.prems(3) Consume by simp
  qed
qed simp

section \<open>Properties\<close>

text \<open>A reader that starts on a FIFO nobody has locked.\<close>

definition start_sys :: "reader \<Rightarrow> fifo \<Rightarrow> rdsys" where
  "start_sys r f = \<lparr>rs_reader = r, rs_fifo = f, rs_pc = Looping, rs_in = [], rs_out = []\<rparr>"

lemma start_inv: "reader_ok r \<Longrightarrow> rd_maxSize r \<le> fsize f \<Longrightarrow> idle f \<Longrightarrow> rd_inv t (fifo_content f) (start_sys r f)"
  by (simp add: rd_inv_def start_sys_def idle_def)

text \<open>
  C7: Whatever the consumer reads in between, the bytes it has got and those in the FIFO are what was there at the
  start followed by what the reader has taken from its descriptor, in order and none lost; the reader's next step
  is always defined, and takes its data in as soon as the FIFO has room for \<open>maxSize\<close> bytes.
\<close>

theorem reader_delivers:
  assumes "reader_ok r" "rd_maxSize r \<le> fsize f" "idle f" "events_ok (rd_maxSize r) es"
    and "readerStart all_ok t u (start_sys r f) es = Some s"
  shows "rs_out s @ fifo_content (rs_fifo s) = fifo_content f @ rs_in s \<and>
    (\<forall>d. rs_pc s \<noteq> Finished \<and> d \<noteq> [] \<and> rr_ok (rs_reader s) (ReadData d) \<longrightarrow>
      (\<exists>s'. readerStart_step all_ok t s (ReadData d) = Some s' \<and>
        rs_in s' = (if fsize (rs_fifo s) < nbytes (rs_fifo s) + rd_maxSize (rs_reader s) then rs_in s else rs_in s @ d)))"
proof -
  have inv: "rd_inv t (fifo_content f) s"
    using readerStart_inv [OF assms(5) start_inv [OF assms(1-3)]] assms(4) by (simp add: start_sys_def)
  then have "rs_out s @ fifo_content (rs_fifo s) = fifo_content f @ rs_in s" by (simp add: rd_inv_def)
  moreover have "\<exists>s'. readerStart_step all_ok t s (ReadData d) = Some s' \<and>
      rs_in s' = (if fsize (rs_fifo s) < nbytes (rs_fifo s) + rd_maxSize (rs_reader s) then rs_in s else rs_in s @ d)"
    if "rs_pc s \<noteq> Finished" "d \<noteq> []" "rr_ok (rs_reader s) (ReadData d)" for d
    using readerStart_step_cases [OF inv that(1,3)] that(2) by (auto split: if_splits)
  ultimately show ?thesis by blast
qed

text \<open>
  The count \<open>readerGetStatistics\<close> returns, "number of bytes received", leaves out every block that was read
  through the internal buffer: those that arrive while fewer than \<open>maxSize\<close> bytes lie between the write position
  and the end of the FIFO's buffer.
\<close>

theorem reader_counts_direct_blocks:
  assumes "reader_ok r" "idle f" "nbytes f + rd_maxSize r \<le> fsize f" "d \<noteq> []" "length d \<le> rd_maxSize r"
    and "byteCount r + length d < 2 ^ 64"
  shows "\<exists>r' f'. reader_iter all_ok t r f (ReadData d) = Again r' f' \<and> fifo_content f' = fifo_content f @ d \<and> idle f' \<and>
    fst (readerGetStatistics r') =
      (if fsize f - nextWrite f < rd_maxSize r then fst (readerGetStatistics r) else fst (readerGetStatistics r) + length d)"
proof -
  let ?f = "f\<lparr>writeMutex := Some t\<rparr>"
  have f: "fifo_inv f" "writeMutex f = None" "readMutex f = None" "closeIfEmpty f = 0" using assms(2) by (simp_all add: idle_def)
  have "fifo_inv ?f" "writeMutex ?f = Some t" "closeIfEmpty ?f = 0" "nbytes ?f + rd_maxSize r \<le> fsize ?f"
    using f assms(3) by simp_all
  from reserved_result [OF assms(1) this assms(4,5)] obtain r' f' where
    n: "reader_reserved all_ok t r (write_wait all_ok t ?f (rd_maxSize r)) (ReadData d) = Again r' f'"
    "byteCount r' = (if fsize ?f - nextWrite ?f < rd_maxSize r then byteCount r else sz_add (byteCount r) (length d))"
    "fifo_inv f'" "writeMutex f' = None" "readMutex f' = readMutex ?f" "closeIfEmpty f' = closeIfEmpty ?f"
    "fifo_content f' = fifo_content ?f @ d" by blast
  have "reader_iter all_ok t r f (ReadData d) = Again r' f'"
    using n(1) f assms(3) unfolding reader_iter_def by (subst reserve_open) simp_all
  with n f assms(6) show ?thesis by (simp add: idle_def readerGetStatistics_def sz_add_eq)
qed

text \<open>
  At the end of the input, and when \<open>read\<close> fails, the loop is left with the reservation made: the reader never
  releases \<open>writeMutex\<close>, so any other writer of the FIFO waits for ever.
\<close>

theorem reader_end_keeps_reservation:
  assumes "idle f" "nbytes f + rd_maxSize r \<le> fsize f" "rr = ReadData [] \<or> rr = ReadFailed" "u \<noteq> t" "n \<le> fsize f"
  shows "\<exists>f'. reader_iter all_ok t r f rr = Ended (if rr = ReadFailed then 2 else 0) r f' \<and> nreserved f' = rd_maxSize r \<and>
    fifo_content f' = fifo_content f \<and> fifoWriteReserve all_ok u f' n = LockWait"
proof -
  let ?f = "f\<lparr>writeMutex := Some t\<rparr>"
  have f: "fifo_inv f" "writeMutex f = None" "closeIfEmpty f = 0" using assms(1) by (simp_all add: idle_def)
  have g: "fifo_inv ?f" "closeIfEmpty ?f = 0" "nbytes ?f + rd_maxSize r \<le> fsize ?f" "got rr = []"
    using f assms(2,3) by auto
  have "reader_iter all_ok t r f rr = Ended (if rr = ReadFailed then 2 else 0) r (?f\<lparr>nreserved := rd_maxSize r\<rparr>)"
    unfolding reader_iter_def using f assms(2) step_ends [OF g] by (subst reserve_open) simp_all
  moreover have "fifoWriteReserve all_ok u (?f\<lparr>nreserved := rd_maxSize r\<rparr>) n = LockWait"
    using assms(4,5) by (simp add: fifoWriteReserve_def mutex_lock_def)
  ultimately show ?thesis by simp
qed

section \<open>Instances\<close>

definition demo_reader :: reader where
  "demo_reader = \<lparr>rd_buf = [0, 0, 0], byteCount = 0, rd_maxSize = 3, rd_fd = 0, rd_status = 0\<rparr>"

text \<open>Five bytes of space with one byte, written at the end but one.\<close>

definition demo_ring :: fifo where
  "demo_ring = \<lparr>fbuf = [0, 0, 0, 9, 0], nextWrite = 4, nbytes = 1, nreserved = 0, fsize = 5, writeMutex = None, readMutex = None,
     closeIfEmpty = 0\<rparr>"

lemma demo_ring_ok: "idle demo_ring" "fifo_content demo_ring = [9]" "reader_ok demo_reader"
  by (simp_all add: idle_def fifo_inv_def demo_ring_def fifo_content_def read_pos_def ring_list_def reader_ok_def demo_reader_def)

theorem reader_delivers_witness:
  "\<exists>s. readerStart all_ok 1 2 (start_sys demo_reader demo_ring) [Step (ReadData [1, 2]), Consume 2] = Some s \<and>
     rs_out s = [9, 1] \<and> fifo_content (rs_fifo s) = [2]"
proof -
  let ?s = "start_sys demo_reader demo_ring"
  have le: "rd_maxSize demo_reader \<le> fsize demo_ring" by (simp add: demo_reader_def demo_ring_def)
  have inv: "rd_inv 1 [9] ?s" using start_inv [OF demo_ring_ok(3) le demo_ring_ok(1)] by (simp add: demo_ring_ok(2))
  have "rs_pc ?s \<noteq> Finished" "rr_ok (rs_reader ?s) (ReadData [1, 2])" by (simp_all add: start_sys_def rr_ok_def demo_reader_def)
  from readerStart_step_cases [OF inv this] obtain s1 where
    s1: "readerStart_step all_ok 1 ?s (ReadData [1, 2]) = Some s1" "rd_inv 1 [9] s1" "rs_out s1 = []" "rs_in s1 = [1, 2]"
    by (auto simp: start_sys_def demo_reader_def demo_ring_def)
  have f: "fifo_inv (rs_fifo s1)" "readMutex (rs_fifo s1) = None" "fifo_content (rs_fifo s1) = [9, 1, 2]" "closeIfEmpty (rs_fifo s1) = 0"
    using s1(2-4) by (simp_all add: rd_inv_def)
  have n: "2 \<le> nbytes (rs_fifo s1)" using f(3) length_fifo_content [of "rs_fifo s1"] by simp
  let ?f = "(rs_fifo s1)\<lparr>nbytes := nbytes (rs_fifo s1) - 2\<rparr>"
  have rd: "fifoRead all_ok 2 (rs_fifo s1) 2 = Done (0, Some [9, 1]) ?f"
    using consume_ok [OF f(1,2,4) n] by (simp add: f(3))
  let ?s2 = "s1\<lparr>rs_fifo := ?f, rs_out := rs_out s1 @ [9, 1]\<rparr>"
  have run: "readerStart all_ok 1 2 ?s [Step (ReadData [1, 2]), Consume 2] = Some ?s2"
    unfolding readerStart_StepE readerStart_ConsumeE using s1(1) rd by auto
  have ok: "events_ok (rd_maxSize demo_reader) [Step (ReadData [1, 2]), Consume 2]" by (simp add: demo_reader_def)
  have "rs_out ?s2 @ fifo_content (rs_fifo ?s2) = fifo_content demo_ring @ rs_in ?s2"
    using reader_delivers [OF demo_ring_ok(3) le demo_ring_ok(1) ok run] by blast
  with run s1(3,4) show ?thesis by (intro exI [of _ ?s2]) (simp add: demo_ring_ok(2))
qed

theorem reader_counts_direct_blocks_witness:
  "\<exists>r' f'. reader_iter all_ok 1 demo_reader demo_ring (ReadData [1, 2]) = Again r' f' \<and> fifo_content f' = [9, 1, 2] \<and>
    fst (readerGetStatistics r') = 0"
proof -
  have 1: "nbytes demo_ring + rd_maxSize demo_reader \<le> fsize demo_ring" "[1, 2] \<noteq> ([] :: byte list)"
    "length [1, 2 :: byte] \<le> rd_maxSize demo_reader" "byteCount demo_reader + length [1, 2 :: byte] < 2 ^ 64"
    by (simp_all add: demo_reader_def demo_ring_def)
  have 2: "fsize demo_ring - nextWrite demo_ring < rd_maxSize demo_reader" "fst (readerGetStatistics demo_reader) = 0"
    by (simp_all add: demo_reader_def demo_ring_def readerGetStatistics_def)
  show ?thesis
    using reader_counts_direct_blocks [OF demo_ring_ok(3,1) 1, of 1] 2 demo_ring_ok(2) by auto
qed

theorem reader_end_keeps_reservation_witness:
  "\<exists>f'. reader_iter all_ok 1 demo_reader demo_ring (ReadData []) = Ended 0 demo_reader f' \<and> fifoWriteReserve all_ok 2 f' 1 = LockWait"
proof -
  have "nbytes demo_ring + rd_maxSize demo_reader \<le> fsize demo_ring" "ReadData [] = ReadData [] \<or> ReadData [] = ReadFailed"
    "(2 :: tid) \<noteq> 1" "1 \<le> fsize demo_ring"
    by (simp_all add: demo_reader_def demo_ring_def)
  from reader_end_keeps_reservation [OF demo_ring_ok(1) this] show ?thesis by auto
qed

end
