(* ===== verification/Scanning.thy ===== *)
theory Scanning
  imports NP_Prelude
begin

text \<open>What the programs use of \<open>sscanf\<close> and \<open>atoi\<close>: integers, and characters that have to be there.\<close>

section \<open>Scanning integers\<close>

definition is_c_space :: "byte \<Rightarrow> bool" where
  "is_c_space b \<longleftrightarrow> b = 32 \<or> 9 \<le> b \<and> b \<le> 13"

definition digit_val :: "byte \<Rightarrow> int" where
  "digit_val b = uint b - 48"

definition digits_val :: "cstr \<Rightarrow> int" where
  "digits_val ds = foldl (\<lambda>v d. 10 * v + digit_val d) 0 ds"

text \<open>\<open>%d\<close>: white space, a sign and at least one digit; the value is not yet cut to the width of the target.\<close>

definition scan_d :: "cstr \<Rightarrow> (int \<times> cstr) option" where
  "scan_d s =
     (let s1 = dropWhile is_c_space s;
          neg = (s1 \<noteq> [] \<and> hd s1 = 45);
          s2 = (if s1 \<noteq> [] \<and> (hd s1 = 45 \<or> hd s1 = 43) then drop 1 s1 else s1);
          ds = takeWhile is_digit s2
      in if ds = [] then None else Some (if neg then - digits_val ds else digits_val ds, dropWhile is_digit s2))"

text \<open>An ordinary character of the format.\<close>

definition scan_char :: "byte \<Rightarrow> cstr \<Rightarrow> cstr option" where
  "scan_char c s = (case s of [] \<Rightarrow> None | b # r \<Rightarrow> if b = c then Some r else None)"

text \<open>\<open>atoi\<close> of the GNU library: \<open>strtol\<close>, which saturates, and then the low 32 bits.\<close>

definition c_atoi :: "cstr \<Rightarrow> int" where
  "c_atoi s = (case scan_d s of None \<Rightarrow> 0 | Some (v, r) \<Rightarrow> i32 (max (- (2 ^ 63)) (min v (2 ^ 63 - 1))))"

lemma digit_byte: "n < 10 \<Longrightarrow> is_digit (of_nat (48 + n)) \<and> digit_val (of_nat (48 + n)) = int n"
proof -
  assume n: "n < 10"
  have u: "uint (of_nat (48 + n) :: byte) = int (48 + n)"
    using n by (simp add: unsigned_of_nat take_bit_nat_eq_self del: of_nat_add)
  have "unat (of_nat (48 + n) :: byte) = 48 + n" using n by (simp add: unsigned_of_nat take_bit_nat_eq_self del: of_nat_add)
  with n u show ?thesis by (simp add: is_digit_def digit_val_def word_le_nat_alt del: of_nat_add)
qed

lemma digits_val_append: "digits_val (xs @ [d]) = 10 * digits_val xs + digit_val d"
  by (simp add: digits_val_def)

lemma digits_scan: "(\<forall>d \<in> set (digits n). is_digit d) \<and> digits_val (digits n) = int n"
proof (induction n rule: digits.induct)
  case (1 n)
  show ?case
  proof (cases "n < 10")
    case True
    then show ?thesis using digit_byte [OF True] by (subst digits.simps, subst (2) digits.simps) (simp add: digits_val_def)
  next
    case False
    have m: "n mod 10 < 10" by simp
    have "digits n = digits (n div 10) @ [of_nat (48 + n mod 10)]" using False by (subst digits.simps) simp
    moreover have "10 * int (n div 10) + int (n mod 10) = int n" by presburger
    ultimately show ?thesis using 1 [OF False] digit_byte [OF m] by (simp add: digits_val_append del: of_nat_add)
  qed
qed

end
