(* ===== verification/Readers_New.thy ===== *)
theory Readers_New
  imports Reader Scanning
begin

text \<open>
  The two constructors of readers: \<open>fileReader.c\<close> and \<open>multicastReader.c\<close>. The results of the system and resolver calls are arguments.
\<close>

section \<open>Addresses\<close>

text \<open>\<open>sscanf(s, "%*d.%*d.%*d.%d", &v) == 1\<close>, and then \<open>v\<close>.\<close>

definition scan_last_octet :: "cstr \<Rightarrow> int option" where
  "scan_last_octet s = do {
     (a, s1) \<leftarrow> scan_d s;
     s2 \<leftarrow> scan_char 46 s1;
     (b, s3) \<leftarrow> scan_d s2;
     s4 \<leftarrow> scan_char 46 s3;
     (c, s5) \<leftarrow> scan_d s4;
     s6 \<leftarrow> scan_char 46 s5;
     (v, s7) \<leftarrow> scan_d s6;
     Some v
   }"

lemma takeWhile_digits: "rest = [] \<or> \<not> is_digit (hd rest) \<Longrightarrow>
  takeWhile is_digit (digits n @ rest) = digits n \<and> dropWhile is_digit (digits n @ rest) = rest"
  using digits_scan [of n] by (cases rest) (auto simp: takeWhile_append dropWhile_append)

lemma not_digit: "is_digit b \<Longrightarrow> \<not> is_c_space b \<and> b \<noteq> 45 \<and> b \<noteq> 43"
  by (auto simp: is_digit_def is_c_space_def word_le_nat_alt)

text \<open>What \<open>%d\<close> prints for a number that is not negative, \<open>%d\<close> scans.\<close>

lemma scan_digits: "rest = [] \<or> \<not> is_digit (hd rest) \<Longrightarrow> scan_d (digits n @ rest) = Some (int n, rest)"
proof -
  assume r: "rest = [] \<or> \<not> is_digit (hd rest)"
  obtain d ds where d: "digits n = d # ds" by (cases "digits n") auto
  then have "is_digit d" using digits_scan [of n] by simp
  note nd = not_digit [OF this]
  have dw: "dropWhile is_c_space (digits n @ rest) = digits n @ rest" using nd by (simp add: d)
  have h: "hd (digits n @ rest) \<noteq> 45" "hd (digits n @ rest) \<noteq> 43" using nd by (simp_all add: d)
  show ?thesis
    unfolding scan_d_def dw Let_def using h takeWhile_digits [OF r] digits_scan [of n] by simp
qed

text \<open>Dotted-quad notation.\<close>

definition dotted :: "nat \<Rightarrow> nat \<Rightarrow> nat \<Rightarrow> nat \<Rightarrow> cstr" where
  "dotted a b c d = digits a @ [46] @ digits b @ [46] @ digits c @ [46] @ digits d"

lemma scan_dotted: "scan_last_octet (dotted a b c d) = Some (int d)"
proof -
  have p: "46 # xs = [] \<or> \<not> is_digit (hd (46 # xs))" for xs :: cstr by (simp add: is_digit_def)
  have s: "scan_d (digits n @ 46 # xs) = Some (int n, 46 # xs)" for n xs by (rule scan_digits [OF p])
  have e: "scan_d (digits n) = Some (int n, [])" for n using scan_digits [of "[]" n] by simp
  show ?thesis by (simp add: scan_last_octet_def dotted_def s e scan_char_def)
qed

section \<open>Files\<close>

text \<open>
  \<open>fileno_stdin\<close> and \<open>open_fd\<close> are the results of \<open>fileno\<close> and \<open>open\<close>, \<open>pagesize\<close> of \<open>sysconf\<close>, the rest as for
  \<open>readerNew\<close>.
\<close>

definition fileReaderNew ::
  "cstr option \<Rightarrow> int \<Rightarrow> int \<Rightarrow> int \<Rightarrow> reader option \<Rightarrow> byte list option \<Rightarrow> int \<Rightarrow> int \<times> reader option" where
  "fileReaderNew pathname fileno_stdin open_fd pagesize r b mutex_init =
     (let fd = (case pathname of None \<Rightarrow> fileno_stdin | Some p \<Rightarrow> open_fd)
      in if fd = - 1 then (1, None) else readerNew fd (to_size pagesize) r b mutex_init)"

section \<open>Multicast\<close>

definition MAX_DVBS_PID :: int where
  "MAX_DVBS_PID = 8"

definition s_port :: "int list" where
  "s_port = [1201, 1202, 1203, 1204, 1205, 1206, 1207, 1208]"

record mcast_env =
  m_host :: "cstr \<Rightarrow> byte list option"  \<comment> \<open>\<open>h_addr_list[0]\<close> of \<open>gethostbyname\<close>\<close>
  m_inet_addr :: "cstr \<Rightarrow> byte list"
  m_socket :: int
  m_bind :: "int \<Rightarrow> int"  \<comment> \<open>by port\<close>
  m_join :: "byte list \<Rightarrow> byte list \<Rightarrow> int"  \<comment> \<open>\<open>setsockopt\<close> by group and interface\<close>
  m_reader :: "reader option"
  m_buf :: "byte list option"
  m_mutex_init :: int

text \<open>The descriptors that are open on return, and the membership that has been asked for.\<close>

record mcast_result =
  mr_status :: int
  mr_reader :: "reader option"
  mr_sock :: "int option"
  mr_port :: "int option"
  mr_group :: "(byte list \<times> byte list) option"

definition no_socket :: "int \<Rightarrow> mcast_result" where
  "no_socket st = \<lparr>mr_status = st, mr_reader = None, mr_sock = None, mr_port = None, mr_group = None\<rparr>"

definition IN_MULTICAST :: "byte list \<Rightarrow> bool" where
  "IN_MULTICAST a \<longleftrightarrow> (case a of [] \<Rightarrow> False | x # _ \<Rightarrow> x AND 240 = 224)"

definition mcast_join :: "mcast_env \<Rightarrow> cstr option \<Rightarrow> byte list \<Rightarrow> int \<Rightarrow> mcast_result" where
  "mcast_join M interface addr port =
     (let iface = (case interface of None \<Rightarrow> [0, 0, 0, 0] | Some i \<Rightarrow> m_inet_addr M i);
          res = \<lparr>mr_status = 0, mr_reader = None, mr_sock = Some (m_socket M), mr_port = Some port, mr_group = Some (addr, iface)\<rparr>
      in if m_join M addr iface = - 1 then res
         else (case readerNew (m_socket M) 10000 (m_reader M) (m_buf M) (m_mutex_init M) of
                 (st, r) \<Rightarrow> res\<lparr>mr_status := st, mr_reader := r, mr_sock := (if st \<noteq> 0 then None else mr_sock res)\<rparr>))"

text \<open>\<open>None\<close>: the last number does not fit an \<open>int\<close>, or the address does not fit an \<open>in_addr\<close>.\<close>

definition multicastReaderNew :: "mcast_env \<Rightarrow> cstr \<Rightarrow> cstr option \<Rightarrow> mcast_result option" where
  "multicastReaderNew M mcastSpec interface =
     (case scan_last_octet mcastSpec of
        None \<Rightarrow> Some (no_socket 1)
      | Some pidChannel \<Rightarrow>
          if i32 pidChannel \<noteq> pidChannel then None
          else if pidChannel < 1 \<or> MAX_DVBS_PID < pidChannel then Some (no_socket 1)
          else (case m_host M mcastSpec of
                  None \<Rightarrow> Some (no_socket 1)
                | Some addr \<Rightarrow>
                    if length addr \<noteq> 4 then None
                    else if \<not> IN_MULTICAST addr then Some (no_socket 1)
                    else if m_socket M = - 1 then Some (no_socket 2)
                    else let port = s_port ! nat (pidChannel - 1)
                         in if m_bind M port < 0 then Some (no_socket 2\<lparr>mr_port := Some port\<rparr>)
                            else Some (mcast_join M interface addr port)))"

lemma s_port_nth: "1 \<le> d \<Longrightarrow> d \<le> 8 \<Longrightarrow> s_port ! (d - 1) = int (1200 + d)"
proof -
  assume "1 \<le> d" "d \<le> 8"
  then have "d = 1 \<or> d = 2 \<or> d = 3 \<or> d = 4 \<or> d = 5 \<or> d = 6 \<or> d = 7 \<or> d = 8" by arith
  then show ?thesis by (elim disjE) (simp_all add: s_port_def)
qed

lemma multicast_bound:
  assumes "1 \<le> d" "d \<le> 8" "m_host M (dotted a b c d) = Some addr" "length addr = 4" "IN_MULTICAST addr" "m_socket M \<noteq> - 1"
    and "0 \<le> m_bind M (int (1200 + d))"
  shows "multicastReaderNew M (dotted a b c d) interface = Some (mcast_join M interface addr (int (1200 + d)))"
proof -
  have "i32 (int d) = int d" using assms(2) by (intro i32_id) simp_all
  moreover have "nat (int d - 1) = d - 1" using assms(1) by simp
  ultimately show ?thesis
    using assms s_port_nth [OF assms(1,2)]
    by (simp add: multicastReaderNew_def scan_dotted MAX_DVBS_PID_def Let_def not_less)
qed

text \<open>
  The channel is the last number of the group's address: a reader on channel \<open>d\<close> from 1 to 8 reads up to 10000
  bytes at a time from a socket bound to port 1200 + \<open>d\<close> that has joined the group.
\<close>

theorem multicast_channel:
  assumes "1 \<le> d" "d \<le> 8" "m_host M (dotted a b c d) = Some addr" "length addr = 4" "IN_MULTICAST addr" "m_socket M \<noteq> - 1"
    and "0 \<le> m_bind M (int (1200 + d))" "\<And>i. m_join M addr i \<noteq> - 1" "m_reader M = Some r" "m_buf M = Some mem" "m_mutex_init M = 0"
  shows "\<exists>res rd. multicastReaderNew M (dotted a b c d) interface = Some res \<and> mr_status res = 0 \<and> mr_reader res = Some rd \<and>
    rd_fd rd = m_socket M \<and> rd_maxSize rd = 10000 \<and> rd_buf rd = mem \<and> mr_sock res = Some (m_socket M) \<and> mr_port res = Some (int (1200 + d)) \<and>
    map_option fst (mr_group res) = Some addr"
  unfolding multicast_bound [OF assms(1-7)]
  using assms(8-11) by (simp add: mcast_join_def readerNew_def Let_def)

text \<open>
  A group that cannot be joined is not an error: \<open>multicastReaderNew\<close> returns 0, leaves \<open>*reader\<close> as it was and the
  socket open.
\<close>

theorem multicast_join_failure_is_success:
  assumes "1 \<le> d" "d \<le> 8" "m_host M (dotted a b c d) = Some addr" "length addr = 4" "IN_MULTICAST addr" "m_socket M \<noteq> - 1"
    and "0 \<le> m_bind M (int (1200 + d))" "\<And>i. m_join M addr i = - 1"
  shows "\<exists>res. multicastReaderNew M (dotted a b c d) interface = Some res \<and> mr_status res = 0 \<and> mr_reader res = None \<and>
    mr_sock res = Some (m_socket M)"
  unfolding multicast_bound [OF assms(1-7)]
  using assms(8) by (simp add: mcast_join_def Let_def)

definition demo_mcast :: mcast_env where
  "demo_mcast = \<lparr>m_host = (\<lambda>_. Some [224, 0, 1, 3]), m_inet_addr = (\<lambda>_. [127, 0, 0, 1]), m_socket = 4, m_bind = (\<lambda>_. 0), m_join = (\<lambda>_ _. 0),
     m_reader = Some \<lparr>rd_buf = [], byteCount = 5, rd_maxSize = 0, rd_fd = 0, rd_status = 9\<rparr>, m_buf = Some (replicate 10000 0), m_mutex_init = 0\<rparr>"

theorem multicast_channel_witness:
  "\<exists>res rd. multicastReaderNew demo_mcast (dotted 224 0 1 3) None = Some res \<and> mr_status res = 0 \<and> mr_reader res = Some rd \<and>
    rd_fd rd = 4 \<and> rd_maxSize rd = 10000 \<and> mr_port res = Some 1203"
  using multicast_channel [of 3 demo_mcast 224 0 1 "[224, 0, 1, 3]" _ "replicate 10000 0" None]
  by (simp add: demo_mcast_def IN_MULTICAST_def) blast

theorem multicast_join_failure_is_success_witness:
  "\<exists>res. multicastReaderNew (demo_mcast\<lparr>m_join := \<lambda>_ _. - 1\<rparr>) (dotted 224 0 1 3) None = Some res \<and> mr_status res = 0 \<and>
    mr_reader res = None \<and> mr_sock res = Some 4"
  using multicast_join_failure_is_success [of 3 "demo_mcast\<lparr>m_join := \<lambda>_ _. - 1\<rparr>" 224 0 1 "[224, 0, 1, 3]" None]
  by (simp add: demo_mcast_def IN_MULTICAST_def)

end
