(* ===== verification/Command_Line.thy ===== *)
theory Command_Line
  imports Readers_New
begin

text \<open>
  What the three programs (\<open>noaaportIngester.c\<close>, \<open>dvbs_multicast.c\<close>, \<open>readnoaaport.c\<close>) share to decode their command
  lines: the masks and facilities of \<open>syslog.h\<close>, and the library's conversions of numbers.
\<close>

section \<open>Logging masks\<close>

type_synonym logmask = "32 word"

text \<open>\<open>syslog.h\<close>.\<close>

definition LOG_ERR :: nat where "LOG_ERR = 3"
definition LOG_WARNING :: nat where "LOG_WARNING = 4"
definition LOG_NOTICE :: nat where "LOG_NOTICE = 5"
definition LOG_INFO :: nat where "LOG_INFO = 6"
definition LOG_DEBUG :: nat where "LOG_DEBUG = 7"

definition LOG_MASK :: "nat \<Rightarrow> logmask" where
  "LOG_MASK l = push_bit l 1"

definition LOG_UPTO :: "nat \<Rightarrow> logmask" where
  "LOG_UPTO l = push_bit (l + 1) 1 - 1"

lemmas log_levels = LOG_ERR_def LOG_WARNING_def LOG_NOTICE_def LOG_INFO_def LOG_DEBUG_def

lemma mask_values:
  "LOG_UPTO LOG_ERR = 15" "LOG_UPTO LOG_WARNING = 31" "LOG_UPTO LOG_NOTICE = 63" "LOG_UPTO LOG_INFO = 127" "LOG_UPTO LOG_DEBUG = 255"
  "LOG_MASK LOG_WARNING = 16" "LOG_MASK LOG_NOTICE = 32" "LOG_MASK LOG_INFO = 64" "LOG_MASK LOG_DEBUG = 128"
  by (simp_all add: LOG_UPTO_def LOG_MASK_def log_levels push_bit_eq_mult)

section \<open>Numbers\<close>

text \<open>\<open>%lu\<close> and \<open>atoi\<close>: \<open>None\<close> for values their types cannot hold, which C leaves undefined.\<close>

definition scan_lu :: "cstr \<Rightarrow> nat option option" where
  "scan_lu s =
     (case scan_d s of
        None \<Rightarrow> Some None
      | Some (v, r) \<Rightarrow> if 2 ^ 64 \<le> \<bar>v\<bar> then None else Some (Some (to_size v)))"

definition atoi :: "cstr \<Rightarrow> int option" where
  "atoi s = (case scan_d s of None \<Rightarrow> Some 0 | Some (v, r) \<Rightarrow> if i32 v = v then Some v else None)"

text \<open>\<open>LOG_LOCAL0\<close> to \<open>LOG_LOCAL7\<close> are 16 to 23, shifted by three.\<close>

definition logFacilities :: "nat list" where
  "logFacilities = map (\<lambda>i. 8 * (16 + i)) [0..<8]"

text \<open>The numbers of a clean string are what they were made of.\<close>

lemma scan_d_digits: "scan_d (digits n) = Some (int n, [])"
  using scan_digits [of "[]" n] by simp

lemma atoi_digits: "int n < 2 ^ 31 \<Longrightarrow> atoi (digits n) = Some (int n)"
  by (simp add: atoi_def scan_d_digits i32_id)

end
