(* ===== verification/Headers.thy ===== *)
theory Headers
  imports NP_Prelude
begin

text \<open>
  The binary headers of a NOAAPORT frame: the SBN frame header (\<open>readsbn.c\<close>), the product definition
  header (\<open>readpdh.c\<close>) and the product specific header (\<open>readpsh\<close> in \<open>readpsh.c\<close>), with the structures of
  \<open>nport.h\<close>. A read outside the buffer is \<open>None\<close>. Encoders written from the field layout serve to
  state that parsing inverts them.
\<close>

section \<open>Structures\<close>

record sbn_struct =
  sbn_version :: int
  sbn_len :: int
  sbn_datastream :: int
  sbn_seqno :: nat \<comment> \<open>\<open>unsigned long\<close>\<close>
  sbn_runno :: int
  sbn_command :: int
  sbn_checksum :: int

record pdh_struct =
  pdh_version :: int
  pdh_len :: int
  pdh_transtype :: int
  pdh_pshlen :: int
  pdh_dbno :: int
  pdh_dboff :: int
  pdh_dbsize :: int
  pdh_records_per_block :: int
  pdh_blocks_per_record :: int
  pdh_seqno :: int \<comment> \<open>\<open>long\<close>\<close>

record psh_struct =
  psh_version :: int
  psh_onum :: int
  psh_otype :: int
  psh_olen :: int
  psh_hflag :: int
  psh_psdl :: int
  psh_bytes_per_record :: int
  psh_ptype :: int
  psh_pcat :: int
  psh_pcode :: int
  psh_frags :: int
  psh_nhoff :: int
  psh_source :: int
  psh_seqno :: int
  psh_rectime :: int
  psh_transtime :: int
  psh_runid :: int
  psh_origrunid :: int
  psh_pname :: cstr
  psh_hasccb :: int
  psh_ccbmode :: int
  psh_ccbsubmode :: int
  psh_ccbdtype :: cstr
  psh_metadata :: cstr
  psh_metaoff :: int

section \<open>Parsers\<close>

definition readsbn :: "byte list \<Rightarrow> sbn_struct \<Rightarrow> (int \<times> sbn_struct) option" where
  "readsbn buf sbn = do {
     b1 \<leftarrow> rd buf 14; b2 \<leftarrow> rd buf 15;
     let lval = be16 b1 b2;
     summed \<leftarrow> mem_read buf 0 14;
     let csum = sum_list (map uint summed);
     if csum \<noteq> lval then Some (- 1, sbn)
     else do {
       let sbn1 = sbn\<lparr>sbn_checksum := lval\<rparr>;
       b0 \<leftarrow> rd buf 0;
       if uint b0 \<noteq> 255 then do { _ \<leftarrow> mem_read buf 0 32; Some (- 1, sbn1) }
       else do {
         v \<leftarrow> rd buf 2;
         let sbn2 = sbn1\<lparr>sbn_version := uint v div 16, sbn_len := (uint v mod 16) * 4\<rparr>;
         c \<leftarrow> rd buf 4;
         let sbn3 = sbn2\<lparr>sbn_command := uint c\<rparr>;
         if uint c \<notin> {3, 5, 10} then Some (- 1, sbn3)
         else do {
           d \<leftarrow> rd buf 5;
           s1 \<leftarrow> rd buf 8; s2 \<leftarrow> rd buf 9; s3 \<leftarrow> rd buf 10; s4 \<leftarrow> rd buf 11;
           r1 \<leftarrow> rd buf 12; r2 \<leftarrow> rd buf 13;
           Some (0, sbn3\<lparr>sbn_datastream := uint d, sbn_seqno := to_size (be32 s1 s2 s3 s4),
                         sbn_runno := be16 r1 r2\<rparr>)
         }
       }
     }
   }"

definition readpdh :: "byte list \<Rightarrow> pdh_struct \<Rightarrow> (int \<times> pdh_struct) option" where
  "readpdh buf pdh = do {
     v \<leftarrow> rd buf 0;
     let pdh1 = pdh\<lparr>pdh_len := (uint v mod 16) * 4, pdh_version := uint v div 16\<rparr>;
     t \<leftarrow> rd buf 1;
     p1 \<leftarrow> rd buf 2; p2 \<leftarrow> rd buf 3;
     n1 \<leftarrow> rd buf 4; n2 \<leftarrow> rd buf 5;
     o1 \<leftarrow> rd buf 6; o2 \<leftarrow> rd buf 7;
     z1 \<leftarrow> rd buf 8; z2 \<leftarrow> rd buf 9;
     r \<leftarrow> rd buf 10; k \<leftarrow> rd buf 11;
     s1 \<leftarrow> rd buf 12; s2 \<leftarrow> rd buf 13; s3 \<leftarrow> rd buf 14; s4 \<leftarrow> rd buf 15;
     Some (0, pdh1\<lparr>pdh_transtype := uint t, pdh_pshlen := i32 (be16 p1 p2 - pdh_len pdh1),
                   pdh_dbno := be16 n1 n2, pdh_dboff := be16 o1 o2, pdh_dbsize := be16 z1 z2,
                   pdh_records_per_block := uint r, pdh_blocks_per_record := uint k,
                   pdh_seqno := be32 s1 s2 s3 s4\<rparr>)
   }"

definition readpsh :: "byte list \<Rightarrow> psh_struct \<Rightarrow> (int \<times> psh_struct) option" where
  "readpsh buf psh = do {
     b0 \<leftarrow> rd buf 0; b1 \<leftarrow> rd buf 1; b2 \<leftarrow> rd buf 2; b3 \<leftarrow> rd buf 3;
     let psh1 = psh\<lparr>psh_hasccb := 0, psh_ccbmode := 0, psh_ccbsubmode := 0, psh_metadata := [],
                    psh_metaoff := - 1, psh_onum := uint b0, psh_otype := uint b1, psh_olen := be16 b2 b3\<rparr>;
     v \<leftarrow> rd buf 4; hf \<leftarrow> rd buf 5;
     d1 \<leftarrow> rd buf 6; d2 \<leftarrow> rd buf 7;
     y1 \<leftarrow> rd buf 8; y2 \<leftarrow> rd buf 9;
     pt \<leftarrow> rd buf 10; pc \<leftarrow> rd buf 11;
     c1 \<leftarrow> rd buf 12; c2 \<leftarrow> rd buf 13;
     f1 \<leftarrow> rd buf 14; f2 \<leftarrow> rd buf 15;
     n1 \<leftarrow> rd buf 16; n2 \<leftarrow> rd buf 17;
     src \<leftarrow> rd buf 19;
     let psh2 = psh1\<lparr>psh_version := uint v, psh_hflag := uint hf, psh_psdl := be16 d1 d2,
                     psh_bytes_per_record := be16 y1 y2, psh_ptype := uint pt, psh_pcat := uint pc,
                     psh_pcode := be16 c1 c2, psh_frags := be16 f1 f2, psh_nhoff := be16 n1 n2,
                     psh_source := uint src\<rparr>;
     s1 \<leftarrow> rd buf 20; s2 \<leftarrow> rd buf 21; s3 \<leftarrow> rd buf 22; s4 \<leftarrow> rd buf 23;
     r1 \<leftarrow> rd buf 24; r2 \<leftarrow> rd buf 25; r3 \<leftarrow> rd buf 26; r4 \<leftarrow> rd buf 27;
     t1 \<leftarrow> rd buf 28; t2 \<leftarrow> rd buf 29; t3 \<leftarrow> rd buf 30; t4 \<leftarrow> rd buf 31;
     u1 \<leftarrow> rd buf 32; u2 \<leftarrow> rd buf 33;
     w1 \<leftarrow> rd buf 34; w2 \<leftarrow> rd buf 35;
     Some (0, psh2\<lparr>psh_seqno := be32 s1 s2 s3 s4, psh_rectime := be32 r1 r2 r3 r4,
                   psh_transtime := be32 t1 t2 t3 t4, psh_runid := be16 u1 u2, psh_origrunid := be16 w1 w2\<rparr>)
   }"

section \<open>Encoders\<close>

definition be16_bytes :: "int \<Rightarrow> byte list" where
  "be16_bytes n = [word_of_int (n div 256), word_of_int n]"

definition be32_bytes :: "int \<Rightarrow> byte list" where
  "be32_bytes n = [word_of_int (n div 16777216), word_of_int (n div 65536), word_of_int (n div 256), word_of_int n]"

definition sbn_bytes :: "sbn_struct \<Rightarrow> byte list" where
  "sbn_bytes h =
     (let body = [255, 0, word_of_int (sbn_version h * 16 + sbn_len h div 4), 0, word_of_int (sbn_command h),
                  word_of_int (sbn_datastream h), 0, 0] @ be32_bytes (int (sbn_seqno h)) @ be16_bytes (sbn_runno h)
      in body @ be16_bytes (sum_list (map uint body)))"

definition pdh_bytes :: "pdh_struct \<Rightarrow> byte list" where
  "pdh_bytes h =
     [word_of_int (pdh_version h * 16 + pdh_len h div 4), word_of_int (pdh_transtype h)] @
     be16_bytes (pdh_pshlen h + pdh_len h) @ be16_bytes (pdh_dbno h) @ be16_bytes (pdh_dboff h) @
     be16_bytes (pdh_dbsize h) @ [word_of_int (pdh_records_per_block h), word_of_int (pdh_blocks_per_record h)] @
     be32_bytes (pdh_seqno h)"

lemma be16_roundtrip: "0 \<le> n \<Longrightarrow> n < 65536 \<Longrightarrow> be16 (word_of_int (n div 256)) (word_of_int n) = n"
proof -
  assume n: "0 \<le> n" "n < 65536"
  have "n div 256 < 256" using n by simp
  then have "(n div 256) mod 256 = n div 256" using n by (simp add: pos_imp_zdiv_nonneg_iff)
  then show ?thesis by (simp add: be16_def)
qed

lemma quot_parts:
  fixes n :: int assumes "0 \<le> n" "n < 4294967296"
  shows "(((n div 16777216) mod 256 * 256 + (n div 65536) mod 256) * 256 + (n div 256) mod 256) * 256 + n mod 256 = n"
proof -
  have 1: "n = 256 * (n div 256) + n mod 256" by simp
  have 2: "n div 256 = 256 * (n div 65536) + (n div 256) mod 256"
    using zdiv_zmult2_eq [of 256 n 256] by simp
  have 3: "n div 65536 = 256 * (n div 16777216) + (n div 65536) mod 256"
    using zdiv_zmult2_eq [of 256 n 65536] by simp
  have 4: "(n div 16777216) mod 256 = n div 16777216"
  proof (rule mod_pos_pos_trivial)
    show "0 \<le> n div 16777216" using assms by (simp add: pos_imp_zdiv_nonneg_iff)
    show "n div 16777216 < 256" using assms by (simp add: div_less_iff_less_mult)
  qed
  have "x = 256 * q1 + m0 \<Longrightarrow> q1 = 256 * q2 + m1 \<Longrightarrow> q2 = 256 * q3 + m2 \<Longrightarrow>
      ((q3 * 256 + m2) * 256 + m1) * 256 + m0 = x" for x q1 q2 q3 m0 m1 m2 :: int
    by simp
  note e = this [OF 1 2 3]
  show ?thesis by (simp only: 4 e)
qed

lemma be32_bytes_decode:
  "0 \<le> n \<Longrightarrow> n < 2 ^ 32 \<Longrightarrow>
   be32 (word_of_int (n div 16777216)) (word_of_int (n div 65536)) (word_of_int (n div 256)) (word_of_int n) = i32 n"
proof -
  assume n: "0 \<le> n" "n < 2 ^ 32"
  then have "n < 4294967296" by simp
  note q = quot_parts [OF n(1) this]
  show ?thesis by (simp only: be32_def uint_byte q)
qed

lemma be32_roundtrip:
  "0 \<le> n \<Longrightarrow> n < 2 ^ 31 \<Longrightarrow>
   be32 (word_of_int (n div 16777216)) (word_of_int (n div 65536)) (word_of_int (n div 256)) (word_of_int n) = n"
proof -
  assume n: "0 \<le> n" "n < 2 ^ 31"
  have "n < 2 ^ 32" using n(2) by simp
  note d = be32_bytes_decode [OF n(1) this]
  have "i32 n = n" using n by (intro i32_id) simp_all
  with d show ?thesis by (rule trans)
qed

text \<open>Sequence numbers from \<open>2 ^ 31\<close> on: the \<open>int\<close> arithmetic makes them negative.\<close>

lemma i32_high: "2 ^ 31 \<le> n \<Longrightarrow> n < 2 ^ 32 \<Longrightarrow> i32 n = n - 2 ^ 32"
proof -
  assume n: "2 ^ 31 \<le> n" "n < 2 ^ 32"
  have "signed_take_bit 31 n = signed_take_bit 31 (n - 2 ^ 32)"
    by (simp add: signed_take_bit_eq_iff_take_bit_eq take_bit_eq_mod mod_diff_eq [symmetric])
  moreover have "signed_take_bit 31 (n - 2 ^ 32) = n - 2 ^ 32"
    using n by (intro signed_take_bit_int_eq_self) simp_all
  ultimately show ?thesis by (simp add: i32_def)
qed

lemma to_size_high: "2 ^ 31 \<le> n \<Longrightarrow> n < 2 ^ 32 \<Longrightarrow> to_size (i32 n) = nat (n + 2 ^ 64 - 2 ^ 32)"
proof -
  assume n: "2 ^ 31 \<le> n" "n < 2 ^ 32"
  have "(n - 2 ^ 32) mod 2 ^ 64 = n - 2 ^ 32 + 2 ^ 64"
    using n by (intro int_mod_pos_eq [of _ _ "-1"]) auto
  with n show ?thesis by (simp add: to_size_def i32_high)
qed

lemma nibbles: "0 \<le> v \<Longrightarrow> v < 16 \<Longrightarrow> 0 \<le> l \<Longrightarrow> l < 16 \<Longrightarrow>
   (v * 16 + l) mod 256 div 16 = v \<and> (v * 16 + l) mod 256 mod 16 = (l::int)"
proof -
  assume a: "0 \<le> v" "v < 16" "0 \<le> l" "l < 16"
  then have "(v * 16 + l) mod 256 = v * 16 + l" by (intro mod_pos_pos_trivial) auto
  with a show ?thesis by simp
qed


section \<open>Reading concrete bytes\<close>

lemma rd_Cons [simp]:
  "rd (x # xs) 0 = Some x" "rd (x # xs) (Suc n) = rd xs n" "rd (x # xs) (numeral k) = rd xs (pred_numeral k)"
  "rd (x # xs) 1 = rd xs 0"
  by (simp_all add: rd_def numeral_eq_Suc)

lemma rd_bind: "i < length m \<Longrightarrow> Option.bind (rd m i) f = f (m ! i)"
  by (simp add: rd_def)

lemma mem_read_bind: "off + n \<le> length m \<Longrightarrow> Option.bind (mem_read m off n) f = f (take n (drop off m))"
  by (simp add: mem_read_def)

definition octet :: "int \<Rightarrow> bool" where "octet n \<longleftrightarrow> 0 \<le> n \<and> n < 256"
definition octet2 :: "int \<Rightarrow> bool" where "octet2 n \<longleftrightarrow> 0 \<le> n \<and> n < 65536"
definition nibble4 :: "int \<Rightarrow> bool" where "nibble4 n \<longleftrightarrow> 0 \<le> n \<and> n < 64 \<and> n mod 4 = 0"

lemma octet_mod: "octet n \<Longrightarrow> n mod 256 = n"
  by (simp add: octet_def)

lemma be16_dec: "octet2 n \<Longrightarrow> be16 (word_of_int (n div 256)) (word_of_int n) = n"
  by (rule be16_roundtrip) (simp_all add: octet2_def)

lemma len_fields:
  assumes "0 \<le> v" "v < 16" "nibble4 l"
  shows "(v * 16 + l div 4) mod 256 div 16 = v" "(v * 16 + l div 4) mod 256 mod 16 * 4 = l"
proof -
  have l: "0 \<le> l div 4" "l div 4 < 16" "l div 4 * 4 = l"
    using assms(3) by (auto simp: nibble4_def pos_imp_zdiv_nonneg_iff)
  from nibbles [OF assms(1,2) l(1,2)] l(3)
  show "(v * 16 + l div 4) mod 256 div 16 = v" "(v * 16 + l div 4) mod 256 mod 16 * 4 = l" by simp_all
qed

definition sbn_ok :: "sbn_struct \<Rightarrow> bool" where
  "sbn_ok h \<longleftrightarrow> 0 \<le> sbn_version h \<and> sbn_version h < 16 \<and> nibble4 (sbn_len h) \<and>
     sbn_command h \<in> {3, 5, 10} \<and> octet (sbn_datastream h) \<and> octet2 (sbn_runno h) \<and> sbn_seqno h < 2 ^ 32"

lemma sum_octets: "0 \<le> sum_list (map uint (bs :: byte list)) \<and> sum_list (map uint bs) \<le> 255 * int (length bs)"
proof (induction bs)
  case (Cons b bs)
  then show ?case using uint_byte_bounds [of b] by simp
qed simp

lemma sbn_parse:
  assumes "sbn_ok h"
  shows "\<exists>cs. readsbn (sbn_bytes h @ rest) old =
    Some (0, h\<lparr>sbn_checksum := cs, sbn_seqno := to_size (i32 (int (sbn_seqno h)))\<rparr>)"
proof -
  note o = assms [unfolded sbn_ok_def]
  define sn where "sn = int (sbn_seqno h)"
  define vb where "vb = sbn_version h * 16 + sbn_len h div 4"
  define body where "body = [255, 0, word_of_int vb, 0, word_of_int (sbn_command h),
                  word_of_int (sbn_datastream h), 0, 0] @ be32_bytes sn @ be16_bytes (sbn_runno h)"
  define cs where "cs = sum_list (map uint body)"
  have lb: "length body = 14" by (simp add: body_def be32_bytes_def be16_bytes_def)
  have csb: "octet2 cs" using sum_octets [of body] lb by (simp add: octet2_def cs_def)
  define all where "all = body @ be16_bytes cs @ rest"
  have al: "sbn_bytes h @ rest = all" by (simp add: sbn_bytes_def Let_def body_def cs_def all_def vb_def sn_def)
  have tk: "mem_read all 0 14 = Some body" by (simp add: mem_read_def all_def lb)
  have c14: "rd all 14 = Some (word_of_int (cs div 256))" "rd all 15 = Some (word_of_int cs)"
    using lb by (simp_all add: all_def rd_def nth_append be16_bytes_def)
  have r: "rd all 0 = Some 255" "rd all 2 = Some (word_of_int vb)"
    "rd all 4 = Some (word_of_int (sbn_command h))" "rd all 5 = Some (word_of_int (sbn_datastream h))"
    "rd all 8 = Some (word_of_int (sn div 16777216))" "rd all 9 = Some (word_of_int (sn div 65536))"
    "rd all 10 = Some (word_of_int (sn div 256))" "rd all 11 = Some (word_of_int sn)"
    "rd all 12 = Some (word_of_int (sbn_runno h div 256))" "rd all 13 = Some (word_of_int (sbn_runno h))"
    by (simp_all add: all_def body_def be32_bytes_def be16_bytes_def)
  have sq: "be32 (word_of_int (sn div 16777216)) (word_of_int (sn div 65536))
      (word_of_int (sn div 256)) (word_of_int sn) = i32 sn"
    using o by (intro be32_bytes_decode) (auto simp: sn_def)
  have cmd: "sbn_command h mod 256 = sbn_command h" using o by auto
  have vl: "vb mod 256 div 16 = sbn_version h" "vb mod 256 mod 16 * 4 = sbn_len h"
    unfolding vb_def using o by (auto intro: len_fields)
  have "readsbn all old = Some (0, h\<lparr>sbn_checksum := cs, sbn_seqno := to_size (i32 (int (sbn_seqno h)))\<rparr>)"
  proof -
    have "readsbn all old = Some (0, old\<lparr>sbn_checksum := cs, sbn_version := sbn_version h, sbn_len := sbn_len h,
        sbn_command := sbn_command h, sbn_datastream := sbn_datastream h, sbn_seqno := to_size (i32 sn),
        sbn_runno := sbn_runno h\<rparr>)"
      using o unfolding readsbn_def Let_def
      by (simp add: tk c14 r be16_dec csb sq cmd vl octet_mod cs_def [symmetric])
    then show ?thesis by (cases old, cases h) (simp add: sn_def)
  qed
  with al show ?thesis by auto
qed


section \<open>Properties\<close>

definition demo_sbn :: sbn_struct where
  "demo_sbn = \<lparr>sbn_version = 1, sbn_len = 16, sbn_datastream = 5, sbn_seqno = 1000, sbn_runno = 7,
     sbn_command = 3, sbn_checksum = 0\<rparr>"

text \<open>
  C27: \<open>readsbn\<close> inverts the frame-header layout: from the sixteen bytes of a header with a valid checksum
  it recovers every field, whatever follows and whatever the structure held before, for sequence numbers
  below \<open>2 ^ 31\<close>.
\<close>

theorem readsbn_roundtrip:
  assumes "sbn_ok h" and "sbn_seqno h < 2 ^ 31"
  shows "\<exists>cs. readsbn (sbn_bytes h @ rest) old = Some (0, h\<lparr>sbn_checksum := cs\<rparr>)"
proof -
  have "i32 (int (sbn_seqno h)) = int (sbn_seqno h)" using assms(2) by (intro i32_id) simp_all
  moreover have "to_size (int (sbn_seqno h)) = sbn_seqno h"
    using assms(2) by (simp add: to_size_def)
  ultimately show ?thesis
    using sbn_parse [OF assms(1), of rest old] by (cases h) auto
qed

theorem readsbn_roundtrip_witness:
  "\<exists>cs. readsbn (sbn_bytes demo_sbn @ [9]) demo_sbn = Some (0, demo_sbn\<lparr>sbn_checksum := cs\<rparr>)"
  using readsbn_roundtrip [of demo_sbn "[9]" demo_sbn]
  by (simp add: demo_sbn_def sbn_ok_def nibble4_def octet_def octet2_def)

text \<open>
  A frame sequence number of \<open>2 ^ 31\<close> or more is sign-extended by the \<open>int\<close> shifts of \<open>readsbn\<close>: the
  64-bit field holds the number plus \<open>2 ^ 64 - 2 ^ 32\<close>, so the successor of \<open>2 ^ 31 - 1\<close> does not
  follow it.
\<close>

theorem readsbn_seqno_sign_extended:
  assumes "sbn_ok h" and "2 ^ 31 \<le> sbn_seqno h"
  shows "\<exists>h'. readsbn (sbn_bytes h @ rest) old = Some (0, h') \<and>
    sbn_seqno h' = sbn_seqno h + (2 ^ 64 - 2 ^ 32)"
proof -
  have "2 ^ 31 \<le> int (sbn_seqno h)" "int (sbn_seqno h) < 2 ^ 32"
    using assms by (simp_all add: sbn_ok_def)
  from to_size_high [OF this] have "to_size (i32 (int (sbn_seqno h))) = sbn_seqno h + (2 ^ 64 - 2 ^ 32)"
    by (simp add: nat_add_distrib)
  then show ?thesis using sbn_parse [OF assms(1), of rest old] by auto
qed

theorem readsbn_seqno_sign_extended_witness:
  "\<exists>h'. readsbn (sbn_bytes (demo_sbn\<lparr>sbn_seqno := 2147483648\<rparr>)) demo_sbn = Some (0, h') \<and>
     sbn_seqno h' = 18446744071562067968"
  using readsbn_seqno_sign_extended [of "demo_sbn\<lparr>sbn_seqno := 2147483648\<rparr>" "[]" demo_sbn]
  by (simp add: demo_sbn_def sbn_ok_def nibble4_def octet_def octet2_def)

text \<open>
  \<open>readsbn\<close> on a buffer of at least 32 bytes always returns, and accepts exactly the frames whose
  first fourteen bytes add up to the checksum field, that begin with 255 and carry command 3, 5 or 10;
  an accepted header has a length of at most 60 and fields in range.
\<close>

theorem readsbn_accepts:
  assumes "32 \<le> length buf"
  shows "\<exists>st h. readsbn buf old = Some (st, h) \<and> (st = 0 \<or> st = - 1) \<and>
    (st = 0 \<longleftrightarrow> sum_list (map uint (take 14 buf)) = be16 (buf ! 14) (buf ! 15) \<and> uint (buf ! 0) = 255 \<and>
       uint (buf ! 4) \<in> {3, 5, 10}) \<and>
    (st = 0 \<longrightarrow> 0 \<le> sbn_len h \<and> sbn_len h \<le> 60 \<and> sbn_seqno h < 2 ^ 64)"
proof -
  have len: "0 \<le> uint (b::byte) mod 16 * 4 \<and> uint b mod 16 * 4 \<le> 60" for b
    using pos_mod_bound [of 16 "uint b"] by simp
  have sq: "to_size x < 2 ^ 64" for x
    using pos_mod_bound [of "2 ^ 64" x] by (simp add: to_size_def nat_less_iff)
  have ne: "buf \<noteq> []" using assms by auto
  show ?thesis
    using assms ne unfolding readsbn_def Let_def
    by (simp add: rd_bind mem_read_bind len sq [simplified])
qed

theorem readsbn_accepts_witness:
  "\<exists>h. readsbn (replicate 32 255) demo_sbn = Some (- 1, h)"
proof -
  have "sum_list (map uint (take 14 (replicate 32 (255::byte)))) \<noteq> be16 (replicate 32 255 ! 14) (replicate 32 255 ! 15)"
    by (simp add: be16_def sum_list_replicate)
  with readsbn_accepts [of "replicate 32 255" demo_sbn] show ?thesis by auto
qed

definition pdh_ok :: "pdh_struct \<Rightarrow> bool" where
  "pdh_ok h \<longleftrightarrow> 0 \<le> pdh_version h \<and> pdh_version h < 16 \<and> nibble4 (pdh_len h) \<and> octet (pdh_transtype h) \<and>
     octet2 (pdh_pshlen h + pdh_len h) \<and> octet2 (pdh_dbno h) \<and> octet2 (pdh_dboff h) \<and> octet2 (pdh_dbsize h) \<and>
     octet (pdh_records_per_block h) \<and> octet (pdh_blocks_per_record h) \<and> 0 \<le> pdh_seqno h \<and> pdh_seqno h < 2 ^ 31"

definition demo_pdh :: pdh_struct where
  "demo_pdh = \<lparr>pdh_version = 1, pdh_len = 16, pdh_transtype = 12, pdh_pshlen = 36, pdh_dbno = 0, pdh_dboff = 3,
     pdh_dbsize = 4000, pdh_records_per_block = 1, pdh_blocks_per_record = 0, pdh_seqno = 77\<rparr>"

lemma pdh_parse:
  assumes "pdh_ok h"
  shows "readpdh (pdh_bytes h @ rest) old = Some (0, h)"
proof -
  note o = assms [unfolded pdh_ok_def]
  define vb where "vb = pdh_version h * 16 + pdh_len h div 4"
  define pt where "pt = pdh_pshlen h + pdh_len h"
  define all where "all = pdh_bytes h @ rest"
  have vl: "vb mod 256 div 16 = pdh_version h" "vb mod 256 mod 16 * 4 = pdh_len h"
    unfolding vb_def using o by (auto intro: len_fields)
  have ps: "i32 (pt - pdh_len h) = pdh_pshlen h"
    using o by (subst i32_id) (auto simp: pt_def octet2_def nibble4_def)
  have sq: "be32 (word_of_int (pdh_seqno h div 16777216)) (word_of_int (pdh_seqno h div 65536))
      (word_of_int (pdh_seqno h div 256)) (word_of_int (pdh_seqno h)) = pdh_seqno h"
    using o by (intro be32_roundtrip) auto
  have all: "all = [word_of_int vb, word_of_int (pdh_transtype h)] @ be16_bytes pt @ be16_bytes (pdh_dbno h) @
      be16_bytes (pdh_dboff h) @ be16_bytes (pdh_dbsize h) @
      [word_of_int (pdh_records_per_block h), word_of_int (pdh_blocks_per_record h)] @ be32_bytes (pdh_seqno h) @ rest"
    by (simp add: all_def pdh_bytes_def vb_def pt_def)
  have pto: "octet2 pt" using o by (simp add: pt_def)
  have "readpdh all old = Some (0, old\<lparr>pdh_len := pdh_len h, pdh_version := pdh_version h,
      pdh_transtype := pdh_transtype h, pdh_pshlen := pdh_pshlen h, pdh_dbno := pdh_dbno h, pdh_dboff := pdh_dboff h,
      pdh_dbsize := pdh_dbsize h, pdh_records_per_block := pdh_records_per_block h,
      pdh_blocks_per_record := pdh_blocks_per_record h, pdh_seqno := pdh_seqno h\<rparr>)"
    using o pto unfolding readpdh_def Let_def all be16_bytes_def be32_bytes_def
    by (simp add: be16_dec sq vl octet_mod ps)
  then show ?thesis unfolding all_def by (cases old, cases h) simp
qed

text \<open>
  \<open>readpdh\<close> inverts the product-definition-header layout, including the length of the product
  specific header, which the wire format gives as the sum of both headers.
\<close>

theorem readpdh_roundtrip:
  assumes "pdh_ok h"
  shows "readpdh (pdh_bytes h @ rest) old = Some (0, h)"
  using assms by (rule pdh_parse)

theorem readpdh_roundtrip_witness:
  "readpdh (pdh_bytes demo_pdh @ [1, 2]) (demo_pdh\<lparr>pdh_seqno := 0\<rparr>) = Some (0, demo_pdh)"
  by (rule readpdh_roundtrip) (simp add: demo_pdh_def pdh_ok_def nibble4_def octet_def octet2_def)

text \<open>
  What \<open>readpdh\<close> lets through: every buffer of 16 bytes gives a header, with block sizes up to 65535
  and a product-specific-header length that is negative whenever the wire length is less than the
  header's own.
\<close>

theorem readpdh_bounds:
  assumes "16 \<le> length buf"
  shows "\<exists>h. readpdh buf old = Some (0, h) \<and> 0 \<le> pdh_len h \<and> pdh_len h \<le> 60 \<and>
    - 60 \<le> pdh_pshlen h \<and> pdh_pshlen h \<le> 65535 \<and> 0 \<le> pdh_dbsize h \<and> pdh_dbsize h < 65536 \<and>
    0 \<le> pdh_dboff h \<and> (pdh_pshlen h < 0 \<longleftrightarrow> be16 (buf ! 2) (buf ! 3) < pdh_len h)"
proof -
  define l where "l = uint (buf ! 0) mod 16 * 4"
  have l: "0 \<le> l" "l \<le> 60" using pos_mod_bound [of 16 "uint (buf ! 0)"] by (simp_all add: l_def)
  define w where "w = be16 (buf ! 2) (buf ! 3)"
  have w: "0 \<le> w" "w < 65536" using be16_bounds [of "buf ! 2" "buf ! 3"] by (simp_all add: w_def)
  have p: "i32 (w - l) = w - l" using l w by (intro i32_id) auto
  have d: "0 \<le> be16 (buf ! 8) (buf ! 9) \<and> be16 (buf ! 8) (buf ! 9) < 65536" "0 \<le> be16 (buf ! 6) (buf ! 7)"
    using be16_bounds by blast+
  have ne: "buf \<noteq> []" using assms by auto
  show ?thesis
    using assms ne l w d unfolding readpdh_def Let_def
    by (simp add: rd_bind l_def [symmetric] w_def [symmetric] p)
qed

theorem readpdh_bounds_witness:
  "\<exists>h. readpdh (15 # replicate 15 0) demo_pdh = Some (0, h) \<and> pdh_pshlen h < 0"
  using readpdh_bounds [of "15 # replicate 15 0" demo_pdh]
  by (auto simp: be16_def readpdh_def rd_def nth_Cons' )

text \<open>
  \<open>readpsh\<close> succeeds on every buffer of 36 bytes, clears the state of an earlier communication block
  and metadata, keeps the product name, and all its 16-bit fields are in range.
\<close>

theorem readpsh_total:
  assumes "36 \<le> length buf"
  shows "\<exists>p. readpsh buf old = Some (0, p) \<and> psh_hasccb p = 0 \<and> psh_ccbmode p = 0 \<and> psh_ccbsubmode p = 0 \<and>
    psh_metadata p = [] \<and> psh_metaoff p = - 1 \<and> psh_pname p = psh_pname old \<and> psh_ccbdtype p = psh_ccbdtype old \<and>
    octet (psh_ptype p) \<and> octet (psh_pcat p) \<and> octet2 (psh_psdl p) \<and> octet2 (psh_frags p) \<and>
    octet2 (psh_bytes_per_record p) \<and>
    psh_seqno p = be32 (buf ! 20) (buf ! 21) (buf ! 22) (buf ! 23)"
proof -
  have b: "octet (uint (b::byte))" for b using uint_byte_bounds [of b] by (simp add: octet_def)
  have w: "octet2 (be16 x y)" for x y using be16_bounds [of x y] by (simp add: octet2_def)
  have ne: "buf \<noteq> []" using assms by auto
  show ?thesis
    using assms ne unfolding readpsh_def Let_def by (simp add: rd_bind b w)
qed

definition demo_psh :: psh_struct where
  "demo_psh = \<lparr>psh_version = 0, psh_onum = 0, psh_otype = 0, psh_olen = 0, psh_hflag = 0, psh_psdl = 0,
     psh_bytes_per_record = 0, psh_ptype = 0, psh_pcat = 0, psh_pcode = 0, psh_frags = 0, psh_nhoff = 0,
     psh_source = 0, psh_seqno = 0, psh_rectime = 0, psh_transtime = 0, psh_runid = 0, psh_origrunid = 0,
     psh_pname = [], psh_hasccb = 0, psh_ccbmode = 0, psh_ccbsubmode = 0, psh_ccbdtype = [], psh_metadata = [],
     psh_metaoff = 0\<rparr>"

theorem readpsh_total_witness:
  "\<exists>p. readpsh (replicate 36 1) demo_psh = Some (0, p) \<and> psh_metaoff p = - 1"
  using readpsh_total [of "replicate 36 1" demo_psh] by auto

end
