(* ===== verification/Wgrib_Tables.thy ===== *)
theory Wgrib_Tables
  imports NP_Prelude
begin

text \<open>
  The names of the parameters in the five built-in tables of \<open>wgrib.c\<close>, by their numbers. The comment that each table
  has beside a name is not used by the programs.
\<close>

definition parm_table_ncep_opn :: "cstr list" where
  "parm_table_ncep_opn = map str
  [''var0'', ''PRES'', ''PRMSL'', ''PTEND'', ''var4'', ''ICAHT'', ''GP'', ''HGT'', ''DIST'', ''HSTDV'', ''TOZNE'',
    ''TMP'', ''VTMP'', ''POT'', ''EPOT'', ''TMAX'', ''TMIN'', ''DPT'', ''DEPR'', ''LAPR'', ''VIS'', ''RDSP1'',
    ''RDSP2'', ''RDSP3'', ''PLI'', ''TMPA'', ''PRESA'', ''GPA'', ''WVSP1'', ''WVSP2'', ''WVSP3'', ''WDIR'', ''WIND'',
    ''UGRD'', ''VGRD'', ''STRM'', ''VPOT'', ''MNTSF'', ''SGCVV'', ''VVEL'', ''DZDT'', ''ABSV'', ''ABSD'', ''RELV'',
    ''RELD'', ''VUCSH'', ''VVCSH'', ''DIRC'', ''SPC'', ''UOGRD'', ''VOGRD'', ''SPFH'', ''RH'', ''MIXR'', ''PWAT'',
    ''VAPP'', ''SATD'', ''EVP'', ''CICE'', ''PRATE'', ''TSTM'', ''APCP'', ''NCPCP'', ''ACPCP'', ''SRWEQ'', ''WEASD'',
    ''SNOD'', ''MIXHT'', ''TTHDP'', ''MTHD'', ''MTHA'', ''TCDC'', ''CDCON'', ''LCDC'', ''MCDC'', ''HCDC'', ''CWAT'',
    ''BLI'', ''SNOC'', ''SNOL'', ''WTMP'', ''LAND'', ''DSLM'', ''SFCR'', ''ALBDO'', ''TSOIL'', ''SOILM'', ''VEG'',
    ''SALTY'', ''DEN'', ''WATR'', ''ICEC'', ''ICETK'', ''DICED'', ''SICED'', ''UICE'', ''VICE'', ''ICEG'', ''ICED'',
    ''SNOM'', ''HTSGW'', ''WVDIR'', ''WVHGT'', ''WVPER'', ''SWDIR'', ''SWELL'', ''SWPER'', ''DIRPW'', ''PERPW'',
    ''DIRSW'', ''PERSW'', ''NSWRS'', ''NLWRS'', ''NSWRT'', ''NLWRT'', ''LWAVR'', ''SWAVR'', ''GRAD'', ''BRTMP'',
    ''LWRAD'', ''SWRAD'', ''LHTFL'', ''SHTFL'', ''BLYDP'', ''UFLX'', ''VFLX'', ''WMIXE'', ''IMGD'', ''MSLSA'',
    ''MSLMA'', ''MSLET'', ''LFTX'', ''4LFTX'', ''KX'', ''SX'', ''MCONV'', ''VWSH'', ''TSLSA'', ''BVF2'', ''PVMW'',
    ''CRAIN'', ''CFRZR'', ''CICEP'', ''CSNOW'', ''SOILW'', ''PEVPR'', ''CWORK'', ''U-GWD'', ''V-GWD'', ''PV'',
    ''COVMZ'', ''COVTZ'', ''COVTM'', ''CLWMR'', ''O3MR'', ''GFLUX'', ''CIN'', ''CAPE'', ''TKE'', ''CONDP'', ''CSUSF'',
    ''CSDSF'', ''CSULF'', ''CSDLF'', ''CFNSF'', ''CFNLF'', ''VBDSF'', ''VDDSF'', ''NBDSF'', ''NDDSF'', ''RWMR'',
    ''SNMR'', ''MFLX'', ''LMH'', ''LMV'', ''MLYNO'', ''NLAT'', ''ELON'', ''ICMR'', ''GRMR'', ''var180'', ''LPSX'',
    ''LPSY'', ''HGTX'', ''HGTY'', ''TURB'', ''ICNG'', ''LTNG'', ''var188'', ''VPTMP'', ''HLCY'', ''PROB'', ''PROBN'',
    ''POP'', ''CPOFP'', ''CPOZP'', ''USTM'', ''VSTM'', ''NCIP'', ''EVBS'', ''EVCW'', ''ICWAT'', ''var202'',
    ''var203'', ''DSWRF'', ''DLWRF'', ''UVI'', ''MSTAV'', ''SFEXC'', ''MIXLY'', ''TRANS'', ''USWRF'', ''ULWRF'',
    ''CDLYR'', ''CPRAT'', ''TTDIA'', ''TTRAD'', ''TTPHY'', ''PREIX'', ''TSD1D'', ''NLGSP'', ''HPBL'', ''5WAVH'',
    ''CNWAT'', ''SOTYP'', ''VGTYP'', ''BMIXL'', ''AMIXL'', ''PEVAP'', ''SNOHF'', ''5WAVA'', ''MFLUX'', ''DTRF'',
    ''UTRF'', ''BGRUN'', ''SSRUN'', ''SIPD'', ''O3TOT'', ''SNOWC'', ''SNOT'', ''var240'', ''LRGHR'', ''CNVHR'',
    ''CNVMR'', ''SHAHR'', ''SHAMR'', ''VDFHR'', ''VDFUA'', ''VDFVA'', ''VDFMR'', ''SWHR'', ''LWHR'', ''CD'',
    ''FRICV'', ''RI'', ''var255'']"

definition parm_table_ncep_reanal :: "cstr list" where
  "parm_table_ncep_reanal = map str
  [''var0'', ''PRES'', ''PRMSL'', ''PTEND'', ''var4'', ''var5'', ''GP'', ''HGT'', ''DIST'', ''HSTDV'', ''HVAR'',
    ''TMP'', ''VTMP'', ''POT'', ''EPOT'', ''TMAX'', ''TMIN'', ''DPT'', ''DEPR'', ''LAPR'', ''VISIB'', ''RDSP1'',
    ''RDSP2'', ''RDSP3'', ''var24'', ''TMPA'', ''PRESA'', ''GPA'', ''WVSP1'', ''WVSP2'', ''WVSP3'', ''WDIR'',
    ''WIND'', ''UGRD'', ''VGRD'', ''STRM'', ''VPOT'', ''MNTSF'', ''SGCVV'', ''VVEL'', ''DZDT'', ''ABSV'', ''ABSD'',
    ''RELV'', ''RELD'', ''VUCSH'', ''VVCSH'', ''DIRC'', ''SPC'', ''UOGRD'', ''VOGRD'', ''SPFH'', ''RH'', ''MIXR'',
    ''PWAT'', ''VAPP'', ''SATD'', ''EVP'', ''CICE'', ''PRATE'', ''TSTM'', ''APCP'', ''NCPCP'', ''ACPCP'', ''SRWEQ'',
    ''WEASD'', ''SNOD'', ''MIXHT'', ''TTHDP'', ''MTHD'', ''MTHA'', ''TCDC'', ''CDCON'', ''LCDC'', ''MCDC'', ''HCDC'',
    ''CWAT'', ''var77'', ''SNOC'', ''SNOL'', ''WTMP'', ''LAND'', ''DSLM'', ''SFCR'', ''ALBDO'', ''TSOIL'', ''SOILM'',
    ''VEG'', ''SALTY'', ''DEN'', ''RUNOF'', ''ICEC'', ''ICETK'', ''DICED'', ''SICED'', ''UICE'', ''VICE'', ''ICEG'',
    ''ICED'', ''SNOM'', ''HTSGW'', ''WVDIR'', ''WVHGT'', ''WVPER'', ''SWDIR'', ''SWELL'', ''SWPER'', ''DIRPW'',
    ''PERPW'', ''DIRSW'', ''PERSW'', ''NSWRS'', ''NLWRS'', ''NSWRT'', ''NLWRT'', ''LWAVR'', ''SWAVR'', ''GRAD'',
    ''var118'', ''var119'', ''var120'', ''LHTFL'', ''SHTFL'', ''BLYDP'', ''UFLX'', ''VFLX'', ''WMIXE'', ''IMGD'',
    ''MSLSA'', ''MSLMA'', ''MSLET'', ''LFTX'', ''4LFTX'', ''KX'', ''SX'', ''MCONV'', ''VSSH'', ''TSLSA'', ''BVF2'',
    ''PVMW'', ''CRAIN'', ''CFRZR'', ''CICEP'', ''CSNOW'', ''SOILW'', ''PEVPR'', ''CWORK'', ''U-GWD'', ''V-GWD'',
    ''PV___'', ''var150'', ''var151'', ''var152'', ''MFXDV'', ''var154'', ''GFLUX'', ''CIN'', ''CAPE'', ''TKE'',
    ''CONDP'', ''CSUSF'', ''CSDSF'', ''CSULF'', ''CSDLF'', ''CFNSF'', ''CFNLF'', ''VBDSF'', ''VDDSF'', ''NBDSF'',
    ''NDDSF'', ''USTR'', ''VSTR'', ''MFLX'', ''LMH'', ''LMV'', ''SGLYR'', ''NLAT'', ''NLON'', ''UMAS'', ''VMAS'',
    ''XPRATE'', ''LPSX'', ''LPSY'', ''HGTX'', ''HGTY'', ''STDZ'', ''STDU'', ''STDV'', ''STDQ'', ''STDT'', ''CBUW'',
    ''CBVW'', ''CBUQ'', ''CBVQ'', ''CBTW'', ''CBQW'', ''CBMZW'', ''CBTZW'', ''CBTMW'', ''STDRH'', ''SDTZ'', ''ICWAT'',
    ''SDTU'', ''SDTV'', ''DSWRF'', ''DLWRF'', ''SDTQ'', ''MSTAV'', ''SFEXC'', ''MIXLY'', ''SDTT'', ''USWRF'',
    ''ULWRF'', ''CDLYR'', ''CPRAT'', ''TTDIA'', ''TTRAD'', ''TTPHY'', ''PREIX'', ''TSD1D'', ''NLSGP'', ''SDTRH'',
    ''5WAVH'', ''CNWAT'', ''PLTRS'', ''RHCLD'', ''BMIXL'', ''AMIXL'', ''PEVAP'', ''SNOHF'', ''SNOEV'', ''MFLUX'',
    ''DTRF'', ''UTRF'', ''BGRUN'', ''SSRUN'', ''var236'', ''OZONE'', ''SNOWC'', ''SNOT'', ''GLCR'', ''LRGHR'',
    ''CNVHR'', ''CNVMR'', ''SHAHR'', ''SHAMR'', ''VDFHR'', ''VDFUA'', ''VDFVA'', ''VDFMR'', ''SWHR'', ''LWHR'',
    ''CD'', ''FRICV'', ''RI'', ''var255'']"

definition parm_table_ecmwf_128 :: "cstr list" where
  "parm_table_ecmwf_128 = map str
  [''var0'', ''PRES'', ''PRMSL'', ''PTEND'', ''var4'', ''var5'', ''GP'', ''HGT'', ''DIST'', ''HSTDV'', ''HVAR'',
    ''TMP'', ''VTMP'', ''POT'', ''EPOT'', ''TMAX'', ''TMIN'', ''DPT'', ''DEPR'', ''LAPR'', ''VISIB'', ''RDSP1'',
    ''RDSP2'', ''RDSP3'', ''var24'', ''TMPA'', ''PRESA'', ''GPA'', ''WVSP1'', ''WVSP2'', ''WVSP3'', ''WDIR'',
    ''WIND'', ''UGRD'', ''VGRD'', ''STRM'', ''VPOT'', ''MNTSF'', ''SGCVV'', ''VVEL'', ''DZDT'', ''ABSV'', ''ABSD'',
    ''RELV'', ''RELD'', ''VUCSH'', ''VVCSH'', ''DIRC'', ''SPC'', ''UOGRD'', ''VOGRD'', ''SPFH'', ''RH'', ''MIXR'',
    ''PWAT'', ''VAPP'', ''SATD'', ''EVP'', ''CICE'', ''PRATE'', ''TSTM'', ''APCP'', ''NCPCP'', ''ACPCP'', ''SRWEQ'',
    ''WEASD'', ''SNOD'', ''MIXHT'', ''TTHDP'', ''MTHD'', ''MTHA'', ''TCDC'', ''CDCON'', ''LCDC'', ''MCDC'', ''HCDC'',
    ''CWAT'', ''var77'', ''SNOC'', ''SNOL'', ''WTMP'', ''LAND'', ''DSLM'', ''SFCR'', ''ALBDO'', ''TSOIL'', ''SOILM'',
    ''VEG'', ''SALTY'', ''DEN'', ''RUNOF'', ''ICEC'', ''ICETK'', ''DICED'', ''SICED'', ''UICE'', ''VICE'', ''ICEG'',
    ''ICED'', ''SNOM'', ''HTSGW'', ''WVDIR'', ''WVHGT'', ''WVPER'', ''SWDIR'', ''SWELL'', ''SWPER'', ''DIRPW'',
    ''PERPW'', ''DIRSW'', ''PERSW'', ''NSWRS'', ''NLWRS'', ''NSWRT'', ''NLWRT'', ''LWAVR'', ''SWAVR'', ''GRAD'',
    ''var118'', ''var119'', ''var120'', ''LHTFL'', ''SHTFL'', ''BLYDP'', ''UFLX'', ''VFLX'', ''WMIXE'', ''AT'',
    ''BV'', ''Z'', ''T'', ''U'', ''V'', ''Q'', ''SP'', ''W'', ''TCW'', ''TCWV'', ''VO'', ''STL1'', ''SWL1'', ''SD'',
    ''LSP'', ''CP'', ''SF'', ''BLD'', ''SSHF'', ''SLHF'', ''v148'', ''v149'', ''v150'', ''MSL'', ''LNSP'', ''v153'',
    ''v154'', ''D'', ''GH'', ''R'', ''TSP'', ''v159'', ''SDOR'', ''ISOR'', ''ANOR'', ''SLOR'', ''TCC'', ''10U'',
    ''10V'', ''2T'', ''2D'', ''v169'', ''STL2'', ''SWL2'', ''LSM'', ''SR'', ''AL'', ''v175'', ''SSR'', ''STR'',
    ''TSR'', ''TTR'', ''EWSS'', ''NSSS'', ''E'', ''STL3'', ''SWL3'', ''CCC'', ''LCC'', ''MCC'', ''HCC'', ''v189'',
    ''EWOV'', ''NSOV'', ''NWOV'', ''NEOV'', ''v194'', ''LGWS'', ''MGWS'', ''GWD'', ''SRC'', ''VEG'', ''VSO'',
    ''MX2T'', ''MN2T'', ''v203'', ''PAW'', ''RO'', ''v206'', ''v207'', ''v208'', ''v209'', ''v210'', ''v211'',
    ''v212'', ''v213'', ''v214'', ''v215'', ''v216'', ''v217'', ''v218'', ''v219'', ''v220'', ''v221'', ''v222'',
    ''v223'', ''v224'', ''v225'', ''v226'', ''v227'', ''TP'', ''IEWS'', ''INSS'', ''ISHF'', ''IE'', ''ASQ'', ''LSRH'',
    ''SKT'', ''STL4'', ''SWL4'', ''TSN'', ''CSF'', ''LSF'', ''v241'', ''v242'', ''FAL'', ''FSR'', ''FLSR'', ''CLWC'',
    ''CIWC'', ''CC'', ''v249'', ''v250'', ''v251'', ''v252'', ''v253'', ''v254'', ''v255'']"

definition parm_table_ecmwf_160 :: "cstr list" where
  "parm_table_ecmwf_160 = map str
  [''var0'', ''PRES'', ''PRMSL'', ''PTEND'', ''var4'', ''var5'', ''GP'', ''HGT'', ''DIST'', ''HSTDV'', ''HVAR'',
    ''TMP'', ''VTMP'', ''POT'', ''EPOT'', ''TMAX'', ''TMIN'', ''DPT'', ''DEPR'', ''LAPR'', ''VISIB'', ''RDSP1'',
    ''RDSP2'', ''RDSP3'', ''var24'', ''TMPA'', ''PRESA'', ''GPA'', ''WVSP1'', ''WVSP2'', ''WVSP3'', ''WDIR'',
    ''WIND'', ''UGRD'', ''VGRD'', ''STRM'', ''VPOT'', ''MNTSF'', ''SGCVV'', ''VVEL'', ''DZDT'', ''ABSV'', ''ABSD'',
    ''RELV'', ''RELD'', ''VUCSH'', ''VVCSH'', ''DIRC'', ''SPC'', ''UOGRD'', ''VOGRD'', ''SPFH'', ''RH'', ''MIXR'',
    ''PWAT'', ''VAPP'', ''SATD'', ''EVP'', ''CICE'', ''PRATE'', ''TSTM'', ''APCP'', ''NCPCP'', ''ACPCP'', ''SRWEQ'',
    ''WEASD'', ''SNOD'', ''MIXHT'', ''TTHDP'', ''MTHD'', ''MTHA'', ''TCDC'', ''CDCON'', ''LCDC'', ''MCDC'', ''HCDC'',
    ''CWAT'', ''var77'', ''SNOC'', ''SNOL'', ''WTMP'', ''LAND'', ''DSLM'', ''SFCR'', ''ALBDO'', ''TSOIL'', ''SOILM'',
    ''VEG'', ''SALTY'', ''DEN'', ''RUNOF'', ''ICEC'', ''ICETK'', ''DICED'', ''SICED'', ''UICE'', ''VICE'', ''ICEG'',
    ''ICED'', ''SNOM'', ''HTSGW'', ''WVDIR'', ''WVHGT'', ''WVPER'', ''SWDIR'', ''SWELL'', ''SWPER'', ''DIRPW'',
    ''PERPW'', ''DIRSW'', ''PERSW'', ''NSWRS'', ''NLWRS'', ''NSWRT'', ''NLWRT'', ''LWAVR'', ''SWAVR'', ''GRAD'',
    ''var118'', ''var119'', ''var120'', ''LHTFL'', ''SHTFL'', ''BLYDP'', ''UFLX'', ''VFLX'', ''WMIXE'', ''at'',
    ''bdv'', ''zg'', ''ta'', ''ua'', ''va'', ''hus'', ''pss'', ''wa'', ''prwa'', ''prw'', ''rvort'', ''tso1'',
    ''mrso1'', ''snd'', ''prl'', ''prc'', ''prs'', ''bld'', ''hfss'', ''hfls'', ''v148'', ''v149'', ''v150'', ''psl'',
    ''logpsl'', ''v153'', ''v154'', ''div'', ''zg'', ''hur'', ''pstn'', ''v159'', ''v160'', ''v161'', ''v162'',
    ''v163'', ''clt'', ''uas'', ''vas'', ''tas'', ''tds'', ''rsds'', ''tso2'', ''mrso2'', ''lsm'', ''sfr'', ''albs'',
    ''rlds'', ''rss'', ''rls'', ''rst'', ''rlt'', ''tauu'', ''tauv'', ''evs'', ''tso3'', ''mrso3'', ''clcc'', ''cll'',
    ''clm'', ''clh'', ''v189'', ''orgv'', ''orgvew'', ''orgvns'', ''orgvnwse'', ''orgvnesw'', ''gwsv'', ''gwsu'',
    ''gwd'', ''src'', ''sfvc'', ''orgvsg'', ''tasmx'', ''tasmn'', ''v203'', ''praw'', ''mrro'', ''cvzz'', ''cvtz'',
    ''cvtt'', ''cvqz'', ''cvqt'', ''cvqq'', ''cvuz'', ''cvut'', ''cvuq'', ''cvuu'', ''cvvz'', ''cvvt'', ''cvvq'',
    ''cvvu'', ''cvvv'', ''cvwz'', ''cvwt'', ''cvwq'', ''cvwu'', ''cvwv'', ''cvww'', ''cvrr'', ''pr'', ''tauui'',
    ''tauvi'', ''hfssi'', ''hflsi'', ''husa'', ''logsfr'', ''tgs'', ''tso4'', ''mrso4'', ''tgs'', ''prsc'', ''prsl'',
    ''cllw'', ''clct'', ''albsf'', ''sfrf'', ''logsfcrf'', ''wspds'', ''taum'', ''v248'', ''gwmf'', ''v250'',
    ''v251'', ''v252'', ''v253'', ''v254'', ''v255'']"

definition parm_table_omb :: "cstr list" where
  "parm_table_omb = map str
  [''var0'', ''var1'', ''GHz6'', ''GHz10'', ''GHz18'', ''GHz19V'', ''GHz19H'', ''GHz21'', ''GHz22V'', ''GHz37V'',
    ''GHz37H'', ''MSU1'', ''MSU2'', ''MSU3'', ''MSU4'', ''GHz85V'', ''GHz85H'', ''GHz91'', ''GHz150'', ''GHz183pm7'',
    ''GHz183pm3'', ''GHz183pm1'', ''SSMT1C1'', ''SSMT1C2'', ''SSMT1C3'', ''SSMT1C4'', ''SSMT1C5'', ''SSMT1C6'',
    ''SSMT1C7'', ''var29'', ''var30'', ''var31'', ''var32'', ''var33'', ''var34'', ''var35'', ''var36'', ''var37'',
    ''var38'', ''var39'', ''var40'', ''var41'', ''var42'', ''var43'', ''var44'', ''var45'', ''var46'', ''var47'',
    ''var48'', ''var49'', ''var50'', ''var51'', ''var52'', ''var53'', ''var54'', ''var55'', ''var56'', ''var57'',
    ''var58'', ''var59'', ''MI14.95'', ''MI14.71'', ''MI14.49'', ''MI14.37'', ''MI14.22'', ''MI14.06'', ''MI13.97'',
    ''MI13.64'', ''MI13.37'', ''MI13.35'', ''MI12.66'', ''MI12.02'', ''MI12.00'', ''MI11.11'', ''MI11.03'',
    ''MI10.80'', ''MI9.71'', ''var77'', ''var78'', ''var79'', ''MI8.16'', ''MI7.43'', ''MI7.33'', ''MI7.02'',
    ''MI6.72'', ''MI6.51'', ''MI4.57'', ''MI4.52'', ''MI4.46'', ''MI4.45'', ''MI4.40'', ''MI4.24'', ''MI4.13'',
    ''MI4.00'', ''MI8.16'', ''MI8.16'', ''MI8.16'', ''var97'', ''var98'', ''var99'', ''MI0.91'', ''MI0.696'',
    ''MI0.69'', ''MI0.63'', ''var104'', ''var105'', ''var106'', ''var107'', ''var108'', ''var109'', ''var110'',
    ''var111'', ''var112'', ''var113'', ''var114'', ''var115'', ''var116'', ''var117'', ''var118'', ''var119'',
    ''var120'', ''var121'', ''var122'', ''var123'', ''var124'', ''var125'', ''var126'', ''var127'', ''AVDEPTH'',
    ''DEPTH'', ''ELEV'', ''MXEL24'', ''MNEL24'', ''var133'', ''var134'', ''O2'', ''PO4'', ''NO3'', ''SiO4'',
    ''CO2aq'', ''HCO3'', ''CO3'', ''TCO2'', ''TALK'', ''var144'', ''var145'', ''S11'', ''S12'', ''S22'', ''INV1'',
    ''INV2'', ''var151'', ''var152'', ''var153'', ''var154'', ''WVRGH'', ''WVSTRS'', ''WHITE'', ''SWDIRWID'',
    ''SWFREWID'', ''WVAGE'', ''PWVAGE'', ''var162'', ''var163'', ''var164'', ''LTURB'', ''var166'', ''var167'',
    ''var168'', ''var169'', ''AIHFLX'', ''AOHFLX'', ''IOHFLX'', ''IOSFLX'', ''var174'', ''OMLT'', ''OMLS'',
    ''var177'', ''var178'', ''var179'', ''var180'', ''var181'', ''var182'', ''var183'', ''var184'', ''var185'',
    ''var186'', ''var187'', ''var188'', ''var189'', ''var190'', ''var191'', ''var192'', ''var193'', ''var194'',
    ''var195'', ''var196'', ''var197'', ''var198'', ''var199'', ''var200'', ''var201'', ''var202'', ''var203'',
    ''var204'', ''var205'', ''var206'', ''var207'', ''var208'', ''var209'', ''var210'', ''var211'', ''var212'',
    ''var213'', ''var214'', ''var215'', ''var216'', ''var217'', ''var218'', ''var219'', ''var220'', ''var221'',
    ''var222'', ''var223'', ''var224'', ''var225'', ''var226'', ''var227'', ''var228'', ''var229'', ''var230'',
    ''var231'', ''var232'', ''var233'', ''var234'', ''var235'', ''var236'', ''var237'', ''var238'', ''var239'',
    ''var240'', ''var241'', ''var242'', ''var243'', ''var244'', ''var245'', ''var246'', ''var247'', ''var248'',
    ''var249'', ''var250'', ''var251'', ''var252'', ''var253'', ''var254'', ''var255'']"

lemmas parm_tables = parm_table_ncep_opn_def parm_table_ncep_reanal_def parm_table_ecmwf_128_def
  parm_table_ecmwf_160_def parm_table_omb_def

text \<open>Each table has a name for every octet, and none is longer than nine characters.\<close>

definition table_ok :: "cstr list \<Rightarrow> bool" where
  "table_ok t \<longleftrightarrow> length t = 256 \<and> list_all (\<lambda>s. length s \<le> 9) t"

lemma table_ok_map: "table_ok (map str xs) \<longleftrightarrow> map (\<lambda>s. length s \<le> 9) xs = replicate 256 True"
  by (auto simp: table_ok_def list_all_length list_eq_iff_nth_eq)

lemma parm_tables_ok:
  "table_ok parm_table_ncep_opn" "table_ok parm_table_ncep_reanal" "table_ok parm_table_ecmwf_128"
  "table_ok parm_table_ecmwf_160" "table_ok parm_table_omb"
  unfolding parm_tables table_ok_map by code_simp+

end
