(* ===== verification/Wgrib_Names.thy ===== *)
theory Wgrib_Names
  imports Wgrib_Tables Scanning
begin

text \<open>
  What \<open>wgrib.c\<close> calls the parameter and the level of a GRIB edition 1 message: \<open>k5toa\<close> with the choice of a table by
  \<open>Parm_Table\<close>, the table of the user that \<open>setup_user_table\<close> reads from a file \<open>gribtab\<close>, and \<open>levels\<close>. Allocation
  of the user's names is taken to succeed.
\<close>

section \<open>The table of the user\<close>

datatype user_status = Filled | Not_found | Not_checked | No_file | Init

text \<open>An entry of \<open>parm_table_user\<close>: no name, a name, or a pointer to memory that was freed.\<close>

datatype user_name = Null | Uname cstr | Freed

record user_tab =
  user_center :: int
  user_subcenter :: int
  user_ptable :: int
  user_status :: user_status
  parm_table_user :: "user_name list"
  user_opens :: nat

definition user_tab0 :: user_tab where
  "user_tab0 = \<lparr>user_center = 0, user_subcenter = 0, user_ptable = 0, user_status = Init,
     parm_table_user = replicate 256 Null, user_opens = 0\<rparr>"

definition START :: int where "START = - 1"

text \<open>\<open>fgets(line, 299, input)\<close>: the line up to its first NUL, and the rest of the file.\<close>

definition fgets299 :: "byte list \<Rightarrow> (cstr \<times> byte list) option" where
  "fgets299 inp =
     (if inp = [] then None
      else let chunk = take 298 inp;
               n = length (takeWhile (\<lambda>b. b \<noteq> 10) chunk);
               k = (if n < length chunk then n + 1 else n)
           in Some (takeWhile (\<lambda>b. b \<noteq> 0) (take k chunk), drop k inp))"

lemma fgets299_shorter: "fgets299 inp = Some (line, rest) \<Longrightarrow> length rest < length inp"
  by (cases inp) (auto simp: fgets299_def Let_def split: if_splits)

text \<open>\<open>sscanf(line, "%d:%d:%d:%d", ...) == 4\<close>: the last three numbers.\<close>

definition scan_ints :: "cstr \<Rightarrow> (int \<times> int \<times> int) option" where
  "scan_ints s = do {
     (j, s1) \<leftarrow> scan_d s;
     s2 \<leftarrow> scan_char 58 s1;
     (a, s3) \<leftarrow> scan_d s2;
     s4 \<leftarrow> scan_char 58 s3;
     (b, s5) \<leftarrow> scan_d s4;
     s6 \<leftarrow> scan_char 58 s5;
     (c, s7) \<leftarrow> scan_d s6;
     Some (c_atoi s2, c_atoi s4, c_atoi s6)
   }"

definition table_for :: "int \<times> int \<times> int \<Rightarrow> int \<times> int \<times> int \<Rightarrow> bool" where
  "table_for t w =
     (case (t, w) of ((a, b, c), (center, subcenter, ptable)) \<Rightarrow>
        (a = - 1 \<or> center = a) \<and> (b = - 1 \<or> subcenter = b) \<and> (c = - 1 \<or> ptable = c))"

text \<open>The heading of the table, and the rest of the file.\<close>

function find_table :: "byte list \<Rightarrow> int \<times> int \<times> int \<Rightarrow> ((int \<times> int \<times> int) \<times> byte list) option" where
  "find_table inp w =
     (case fgets299 inp of
        None \<Rightarrow> None
      | Some (line, rest) \<Rightarrow>
          if c_atoi line \<noteq> START then find_table rest w
          else (case scan_ints line of
                  None \<Rightarrow> find_table rest w
                | Some t \<Rightarrow> if table_for t w then Some (t, rest) else find_table rest w))"
  by auto
termination by (relation "measure (\<lambda>(inp, w). length inp)") (auto dest: fgets299_shorter)

declare find_table.simps [simp del]

text \<open>
  A line \<open>number:name:comment\<close>: the name, or \<open>None\<close> where the line is refused. The name ends at the second colon; where
  there is none, or nothing behind the name but the end of the line, it is refused.
\<close>

definition parm_line :: "cstr \<Rightarrow> cstr option" where
  "parm_line line =
     (let c0 = length (takeWhile (\<lambda>b. b \<noteq> 58) line)
      in if c0 = length line then None
         else let c1 = c0 + 1 + length (takeWhile (\<lambda>b. b \<noteq> 58) (drop (c0 + 1) line));
                  c2 = (if last line = 10 then length line - 1 else length line)
              in if c2 \<le> c1 then None else Some (take (c1 - c0 - 1) (drop (c0 + 1) line)))"

text \<open>The definitions up to the next heading; a number that is not an index is undefined behaviour.\<close>

function read_names :: "byte list \<Rightarrow> user_name list \<Rightarrow> user_name list option" where
  "read_names inp names =
     (case fgets299 inp of
        None \<Rightarrow> Some names
      | Some (line, rest) \<Rightarrow>
          if c_atoi line = START then Some names
          else (case parm_line line of
                  None \<Rightarrow> read_names rest names
                | Some s \<Rightarrow>
                    if 0 \<le> c_atoi line \<and> c_atoi line < 256 then read_names rest (names[nat (c_atoi line) := Uname s]) else None))"
  by auto
termination by (relation "measure (\<lambda>(inp, names). length inp)") (auto dest: fgets299_shorter)

declare read_names.simps [simp del]

text \<open>\<open>free\<close> of all names, when the fifth has one (\<open>i\<close> is still what \<open>sscanf\<close> returned, 4).\<close>

definition free_names :: "user_name list \<Rightarrow> user_name list option" where
  "free_names names =
     (if names ! 4 = Null then Some names
      else if Freed \<in> set names then None
      else Some (map (\<lambda>n. if n = Null then Null else Freed) names))"

definition fill_blanks :: "user_name list \<Rightarrow> user_name list" where
  "fill_blanks names =
     map (\<lambda>i. if i < 255 \<and> names ! i = Null then Uname (str ''var'' @ dec (int i)) else names ! i) [0..<length names]"

definition setup_user_table :: "(nat \<Rightarrow> byte list option) \<Rightarrow> int \<times> int \<times> int \<Rightarrow> user_tab \<Rightarrow> (int \<times> user_tab) option" where
  "setup_user_table gribtab w u0 =
     (let u = (if user_status u0 = Init then u0\<lparr>parm_table_user := replicate 256 Null, user_status := Not_checked\<rparr> else u0);
          same = table_for (user_center u, user_subcenter u, user_ptable u) w
      in if user_status u = No_file then Some (0, u)
         else if same \<and> user_status u = Filled then Some (1, u)
         else if same \<and> user_status u = Not_found then Some (0, u)
         else let u1 = u\<lparr>user_opens := user_opens u + 1\<rparr>
              in case gribtab (user_opens u) of
                   None \<Rightarrow> Some (0, u1\<lparr>user_status := No_file\<rparr>)
                 | Some inp \<Rightarrow>
                     (let u2 = u1\<lparr>user_center := fst w, user_subcenter := fst (snd w), user_ptable := snd (snd w)\<rparr>
                      in case find_table inp w of
                           None \<Rightarrow> Some (0, u2\<lparr>user_status := Not_found\<rparr>)
                         | Some ((c, s, p), rest) \<Rightarrow>
                             do {
                               names \<leftarrow> free_names (parm_table_user u2);
                               names1 \<leftarrow> read_names rest names;
                               Some (1, u2\<lparr>user_center := c, user_subcenter := s, user_ptable := p,
                                          parm_table_user := fill_blanks names1, user_status := Filled\<rparr>)
                             }))"

section \<open>The name of a parameter\<close>

definition NMC :: int where "NMC = 7"
definition ECMWF :: int where "ECMWF = 98"

text \<open>
  The table for a product definition section; \<open>def_ncep_table\<close> is never changed from \<open>rean\<close>. The warnings on standard
  error are left out. The last octet that is read is the 26th.
\<close>

definition Parm_Table :: "(nat \<Rightarrow> byte list option) \<Rightarrow> byte list \<Rightarrow> user_tab \<Rightarrow> (user_name list \<times> user_tab) option" where
  "Parm_Table gribtab pds u =
     (let center = uint (pds ! 4); subcenter = uint (pds ! 25); ptable = uint (pds ! 3); process = uint (pds ! 5)
      in if center = NMC \<and> ptable \<le> 3
         then (if subcenter = 1 then Some (map Uname parm_table_ncep_reanal, u)
               else if subcenter \<noteq> 0 \<or> process \<noteq> 80 \<and> process \<noteq> 180 \<or> ptable \<noteq> 1 \<and> ptable \<noteq> 2
               then Some (map Uname parm_table_ncep_opn, u)
               else Some (map Uname parm_table_ncep_reanal, u))
         else if center = NMC \<and> ptable = 128 then Some (map Uname parm_table_omb, u)
         else if center = ECMWF \<and> ptable = 128 then Some (map Uname parm_table_ecmwf_128, u)
         else if center = ECMWF \<and> ptable = 160 then Some (map Uname parm_table_ecmwf_160, u)
         else do {
           (i, u1) \<leftarrow> setup_user_table gribtab (center, subcenter, ptable) u;
           Some (if i = 1 then parm_table_user u1 else map Uname parm_table_ncep_opn, u1)
         })"

text \<open>The string at the pointer that \<open>k5toa\<close> returns: there has to be one.\<close>

definition k5toa :: "(nat \<Rightarrow> byte list option) \<Rightarrow> byte list \<Rightarrow> user_tab \<Rightarrow> (cstr \<times> user_tab) option" where
  "k5toa gribtab m u =
     do {
       pds \<leftarrow> mem_read m 0 26;
       (table, u1) \<leftarrow> Parm_Table gribtab pds u;
       case table ! unat (pds ! 8) of Uname s \<Rightarrow> Some (s, u1) | _ \<Rightarrow> None
     }"

section \<open>The name of a level\<close>

text \<open>\<open>%.4f\<close> of \<open>x / 10000.0\<close> and \<open>%.2f\<close> of \<open>x / 100.0\<close>: the quotient is within 2 to the -50th of a decimal of so many digits.\<close>

definition fixed :: "nat \<Rightarrow> int \<Rightarrow> cstr" where
  "fixed k x = dec (x div 10 ^ k) @ str ''.'' @ dec_pad k (x mod 10 ^ k)"

definition levels :: "int \<Rightarrow> int \<Rightarrow> int \<Rightarrow> cstr" where
  "levels kpds6 o11 o12 =
     (let kpds7 = o11 * 256 + o12
      in if kpds6 = 1 then str ''sfc''
         else if kpds6 = 2 then str ''cld base''
         else if kpds6 = 3 then str ''cld top''
         else if kpds6 \<in> {204, 4} then str ''0C isotherm''
         else if kpds6 = 5 then str ''cond lev''
         else if kpds6 = 6 then str ''max wind lev''
         else if kpds6 = 7 then str ''tropopause''
         else if kpds6 = 8 then str ''nom. top''
         else if kpds6 = 9 then str ''sea bottom''
         else if kpds6 \<in> {200, 10} then str ''atmos col''
         else if kpds6 \<in> {12, 212} then str ''low cld bot''
         else if kpds6 \<in> {13, 213} then str ''low cld top''
         else if kpds6 \<in> {14, 214} then str ''low cld lay''
         else if kpds6 \<in> {22, 222} then str ''mid cld bot''
         else if kpds6 \<in> {23, 223} then str ''mid cld top''
         else if kpds6 \<in> {24, 224} then str ''mid cld lay''
         else if kpds6 \<in> {32, 232} then str ''high cld bot''
         else if kpds6 \<in> {33, 233} then str ''high cld top''
         else if kpds6 \<in> {34, 234} then str ''high cld lay''
         else if kpds6 = 100 then dec kpds7 @ str '' mb''
         else if kpds6 = 101 then dec (o11 * 10) @ str ''-'' @ dec (o12 * 10) @ str '' mb''
         else if kpds6 = 102 then str ''MSL''
         else if kpds6 = 103 then dec kpds7 @ str '' m above MSL''
         else if kpds6 = 104 then dec (o11 * 100) @ str ''-'' @ dec (o12 * 100) @ str '' m above msl''
         else if kpds6 = 105 then dec kpds7 @ str '' m above gnd''
         else if kpds6 = 106 then dec (o11 * 100) @ str ''-'' @ dec (o12 * 100) @ str '' m above gnd''
         else if kpds6 = 107 then str ''sigma='' @ fixed 4 kpds7
         else if kpds6 = 108 then str ''sigma '' @ fixed 2 o11 @ str ''-'' @ fixed 2 o12
         else if kpds6 = 109 then str ''hybrid lev '' @ dec kpds7
         else if kpds6 = 110 then str ''hybrid '' @ dec o11 @ str ''-'' @ dec o12
         else if kpds6 = 111 then dec kpds7 @ str '' cm down''
         else if kpds6 = 112 then dec o11 @ str ''-'' @ dec o12 @ str '' cm down''
         else if kpds6 = 113 then dec kpds7 @ str ''K''
         else if kpds6 = 114 then dec (475 - o11) @ str ''-'' @ dec (475 - o12) @ str ''K''
         else if kpds6 = 115 then dec kpds7 @ str '' mb above gnd''
         else if kpds6 = 116 then dec o11 @ str ''-'' @ dec o12 @ str '' mb above gnd''
         else if kpds6 = 121 then dec (1100 - o11) @ str ''-'' @ dec (1100 - o12) @ str '' mb''
         else [])"

section \<open>Built-in names\<close>

lemma built_in_name: "table_ok t \<Longrightarrow> \<exists>s. map Uname t ! unat (b::byte) = Uname s \<and> length s \<le> 9"
proof -
  have "unat b < 2 ^ LENGTH(8)" by (rule unsigned_less)
  then have "unat b < 256" by simp
  then show "table_ok t \<Longrightarrow> ?thesis" by (auto simp: table_ok_def list_all_length)
qed

lemma no_gribtab: "\<exists>u'. setup_user_table (\<lambda>_. None) w u = Some (0, u') \<or>
    setup_user_table (\<lambda>_. None) w u = Some (1, u) \<and> user_status u = Filled"
  by (auto simp: setup_user_table_def Let_def)

definition built_in :: "(user_name list \<times> user_tab) option \<Rightarrow> bool" where
  "built_in r \<longleftrightarrow> (\<exists>t u. r = Some (map Uname t, u) \<and> table_ok t)"

lemma built_in_if: "built_in x \<Longrightarrow> built_in y \<Longrightarrow> built_in (if b then x else y)"
  by simp

lemma built_in_Some: "table_ok t \<Longrightarrow> built_in (Some (map Uname t, u))"
  by (auto simp: built_in_def)

text \<open>Without a file \<open>gribtab\<close> every message has a name for its parameter.\<close>

lemma k5toa_built_in:
  assumes "mem_read m 0 26 = Some pds" and "user_status u \<noteq> Filled"
  shows "\<exists>s u'. k5toa (\<lambda>_. None) m u = Some (s, u') \<and> length s \<le> 9"
proof -
  obtain u1 where u1: "setup_user_table (\<lambda>_. None) (uint (pds ! 4), uint (pds ! 25), uint (pds ! 3)) u = Some (0, u1)"
    using no_gribtab [of "(uint (pds ! 4), uint (pds ! 25), uint (pds ! 3))" u] assms(2) by auto
  have "built_in (Parm_Table (\<lambda>_. None) pds u)"
    unfolding Parm_Table_def Let_def by (intro built_in_if built_in_Some parm_tables_ok) (simp add: u1 built_in_Some parm_tables_ok)
  then show ?thesis using assms(1) built_in_name [of _ "pds ! 8"] by (fastforce simp: built_in_def k5toa_def)
qed

section \<open>A second table\<close>

definition over :: "user_name list \<Rightarrow> user_name list \<Rightarrow> user_name list" where
  "over a c = map2 (\<lambda>x y. if x = Null then y else x) a c"

lemma over_update: "length a = length c \<Longrightarrow> (over a c)[i := Uname s] = over (a[i := Uname s]) c"
  by (cases "i < length c") (auto intro!: nth_equalityI simp: over_def nth_list_update list_update_beyond)

lemma over_Null: "length c = n \<Longrightarrow> over (replicate n Null) c = c"
  by (rule nth_equalityI) (auto simp: over_def)

lemma read_names_over:
  "read_names inp a = Some r \<Longrightarrow> length a = length c \<Longrightarrow>
   length r = length a \<and> read_names inp (over a c) = Some (over r c)"
proof (induction inp a rule: read_names.induct)
  case (1 inp a)
  show ?case
  proof (cases "fgets299 inp")
    case None
    then show ?thesis using 1 by (simp add: read_names.simps [of inp])
  next
    case (Some lr)
    obtain line rest where lr: "fgets299 inp = Some (line, rest)" using Some by (cases lr) simp
    show ?thesis
    proof (cases "c_atoi line = START \<or> parm_line line = None")
      case True
      then show ?thesis using 1 lr by (auto simp: read_names.simps [of inp])
    next
      case False
      then obtain s where s: "parm_line line = Some s" "c_atoi line \<noteq> START" by auto
      then have "0 \<le> c_atoi line \<and> c_atoi line < 256" using 1(3) lr by (simp add: read_names.simps [of inp] split: if_splits)
      then show ?thesis
        using 1(2) [OF lr refl s(2) s(1)] 1(3,4) lr s over_update [OF 1(4)] by (simp add: read_names.simps [of inp])
    qed
  qed
qed

text \<open>A table that was read before: a name for all numbers but the last, none of them freed.\<close>

definition names_filled :: "user_tab \<Rightarrow> bool" where
  "names_filled u \<longleftrightarrow> user_status u = Filled \<and> length (parm_table_user u) = 256 \<and>
     (\<forall>n < 255. parm_table_user u ! n \<noteq> Null) \<and> Freed \<notin> set (parm_table_user u)"

definition other_table :: "(nat \<Rightarrow> byte list option) \<Rightarrow> int \<times> int \<times> int \<Rightarrow> user_tab \<Rightarrow> (int \<times> int \<times> int) \<times> byte list \<Rightarrow> bool" where
  "other_table gribtab w u tr \<longleftrightarrow>
     \<not> table_for (user_center u, user_subcenter u, user_ptable u) w \<and>
     (\<exists>inp. gribtab (user_opens u) = Some inp \<and> find_table inp w = Some tr)"

lemma second_table:
  assumes u: "names_filled u" and w: "other_table gribtab w u (t, rest)"
    and base: "read_names rest (replicate 256 Null) = Some base" "base ! n = Null" "n < 255"
  obtains u' where "setup_user_table gribtab w u = Some (1, u')" "parm_table_user u' ! n = Freed" "user_status u' = Filled"
    "length (parm_table_user u') = 256" "\<forall>i < 255. parm_table_user u' ! i \<noteq> Null"
proof -
  let ?free = "map (\<lambda>n. if n = Null then Null else Freed) (parm_table_user u)"
  have l: "length (parm_table_user u) = 256" using u by (simp add: names_filled_def)
  have f: "free_names (parm_table_user u) = Some ?free" using u by (simp add: names_filled_def free_names_def)
  have o: "over (replicate 256 Null) ?free = ?free" using l by (intro over_Null) simp
  have r: "length base = 256" "read_names rest ?free = Some (over base ?free)"
    using read_names_over [OF base(1), of ?free] l o by simp_all
  have b: "over base ?free ! i = (if base ! i = Null then Freed else base ! i)" if "i < 255" for i
    using that u l r(1) by (simp add: over_def names_filled_def)
  have lo: "length (over base ?free) = 256" using l r(1) by (simp add: over_def)
  obtain c s p where t: "t = (c, s, p)" by (cases t)
  obtain inp where i: "gribtab (user_opens u) = Some inp" "find_table inp w = Some ((c, s, p), rest)"
    "\<not> table_for (user_center u, user_subcenter u, user_ptable u) w"
    using w t by (auto simp: other_table_def)
  define u' where "u' = u\<lparr>user_opens := user_opens u + 1, user_center := c, user_subcenter := s, user_ptable := p,
      parm_table_user := fill_blanks (over base ?free), user_status := Filled\<rparr>"
  have "setup_user_table gribtab w u = Some (1, u')"
    using u i f r(2) by (simp add: setup_user_table_def names_filled_def u'_def Let_def)
  moreover have n: "parm_table_user u' ! i = (if base ! i = Null then Freed else base ! i)" if "i < 255" for i
    using b [OF that] that lo by (auto simp: u'_def fill_blanks_def)
  ultimately show ?thesis
    using that [of u'] base(2,3) lo by (auto simp: u'_def fill_blanks_def)
qed

text \<open>
  C35: The names of the user's table are freed when another table is read, but their pointers stay. A parameter that the
  second table does not define gets no new name then: its name is read from freed memory. And when a third table is read
  the names are freed a second time. Both are undefined behaviour.
\<close>

theorem second_user_table:
  assumes "names_filled u" and "mem_read m 0 26 = Some pds"
    and w: "w = (uint (pds ! 4), uint (pds ! 25), uint (pds ! 3))" "uint (pds ! 4) \<noteq> NMC" "uint (pds ! 4) \<noteq> ECMWF"
    and "other_table gribtab w u (t, rest)"
    and base: "read_names rest (replicate 256 Null) = Some base" "base ! unat (pds ! 8) = Null" "unat (pds ! 8) < 255"
  shows "k5toa gribtab m u = None \<and>
    (\<exists>u'. setup_user_table gribtab w u = Some (1, u') \<and>
      (\<forall>w' tr. other_table gribtab w' u' tr \<longrightarrow> setup_user_table gribtab w' u' = None))"
proof -
  obtain u' where u': "setup_user_table gribtab w u = Some (1, u')" "parm_table_user u' ! unat (pds ! 8) = Freed"
    "user_status u' = Filled" "length (parm_table_user u') = 256" "\<forall>i < 255. parm_table_user u' ! i \<noteq> Null"
    by (rule second_table [OF assms(1,6) base])
  have "Parm_Table gribtab pds u = Some (parm_table_user u', u')"
    using u'(1) w by (simp add: Parm_Table_def Let_def)
  then have "k5toa gribtab m u = None" using assms(2) u'(2) by (simp add: k5toa_def)
  moreover have fr: "Freed \<in> set (parm_table_user u')" 
    using nth_mem [of "unat (pds ! 8)" "parm_table_user u'"] u'(2,4) base(3) by simp
  then have "free_names (parm_table_user u') = None" using u'(5) by (simp add: free_names_def)
  then have "setup_user_table gribtab w' u' = None" if "other_table gribtab w' u' tr" for w' tr
    using that u'(3) by (cases tr) (auto simp: setup_user_table_def other_table_def Let_def)
  ultimately show ?thesis using u'(1) by blast
qed

lemma read_names_unfreed: "read_names inp a = Some r \<Longrightarrow> Freed \<notin> set a \<Longrightarrow> Freed \<notin> set r"
proof (induction inp a rule: read_names.induct)
  case (1 inp a)
  have "Freed \<notin> set (a[i := Uname s])" for i s using 1(4) set_update_subset_insert [of a i "Uname s"] by auto
  with 1 show ?case by (auto simp: read_names.simps [of inp] split: option.splits if_splits prod.splits)
qed

text \<open>The first table that is read gives every number but the last a name.\<close>

lemma first_table:
  assumes u: "user_status u = Init" "other_table gribtab w u ((c, s, p), rest)"
    and base: "read_names rest (replicate 256 Null) = Some base"
  obtains u' where "setup_user_table gribtab w u = Some (1, u')" "names_filled u'" "user_opens u' = user_opens u + 1"
    "user_center u' = c" "user_subcenter u' = s" "user_ptable u' = p"
proof -
  have l: "length base = 256" using read_names_over [OF base, of "replicate 256 Null"] by simp
  have f: "free_names (replicate 256 Null) = Some (replicate 256 Null)" by (simp add: free_names_def)
  have b: "Freed \<notin> set base" using read_names_unfreed [OF base] by simp
  have "fill_blanks base ! n \<noteq> Null" if "n < 255" for n using that l by (simp add: fill_blanks_def)
  moreover have "Freed \<notin> set (fill_blanks base)"
    using b by (fastforce simp: fill_blanks_def in_set_conv_nth split: if_splits)
  ultimately have "names_filled (u\<lparr>user_opens := user_opens u + 1, user_center := c, user_subcenter := s, user_ptable := p,
      parm_table_user := fill_blanks base, user_status := Filled\<rparr>)"
    using l by (simp add: names_filled_def fill_blanks_def)
  then show ?thesis
    using that u f base by (auto simp: setup_user_table_def other_table_def Let_def)
qed

definition demo_table1 :: "byte list" where "demo_table1 = str ''11:AAA:a'' @ [10]"
definition demo_table2 :: "byte list" where "demo_table2 = str ''12:BBB:b'' @ [10]"

definition demo_gribtab :: "byte list" where
  "demo_gribtab = str ''-1:200:-1:-1'' @ [10] @ demo_table1 @ str ''-1:201:-1:-1'' @ [10] @ demo_table2"

lemma demo_tables:
  "find_table demo_gribtab (200, 0, 1) = Some ((200, - 1, - 1), demo_table1 @ str ''-1:201:-1:-1'' @ [10] @ demo_table2)"
  "find_table demo_gribtab (201, 0, 1) = Some ((201, - 1, - 1), demo_table2)"
  "read_names (demo_table1 @ str ''-1:201:-1:-1'' @ [10] @ demo_table2) (replicate 256 Null) =
    Some ((replicate 256 Null) [11 := Uname (str ''AAA'')])"
  "read_names demo_table2 (replicate 256 Null) = Some ((replicate 256 Null) [12 := Uname (str ''BBB'')])"
  by code_simp+

definition demo_pds201 :: "byte list" where
  "demo_pds201 = [0, 0, 28, 1, 201, 0, 0, 0, 11] @ replicate 17 0"

theorem second_user_table_witness:
  "\<exists>u. setup_user_table (\<lambda>_. Some demo_gribtab) (200, 0, 1) user_tab0 = Some (1, u) \<and>
     k5toa (\<lambda>_. Some demo_gribtab) demo_pds201 u = None"
proof -
  have o: "other_table (\<lambda>_. Some demo_gribtab) (200, 0, 1) user_tab0 ((200, - 1, - 1), demo_table1 @ str ''-1:201:-1:-1'' @ [10] @ demo_table2)"
    using demo_tables(1) by (simp add: other_table_def user_tab0_def table_for_def)
  have i: "user_status user_tab0 = Init" by (simp add: user_tab0_def)
  obtain u where u: "setup_user_table (\<lambda>_. Some demo_gribtab) (200, 0, 1) user_tab0 = Some (1, u)" "names_filled u"
    "user_opens u = user_opens user_tab0 + 1" "user_center u = 200" "user_subcenter u = - 1" "user_ptable u = - 1"
    by (rule first_table [OF i o demo_tables(3)])
  have p: "mem_read demo_pds201 0 26 = Some demo_pds201" by (simp add: mem_read_def demo_pds201_def)
  have w: "(201, 0, 1) = (uint (demo_pds201 ! 4), uint (demo_pds201 ! 25), uint (demo_pds201 ! 3))"
    "uint (demo_pds201 ! 4) \<noteq> NMC" "uint (demo_pds201 ! 4) \<noteq> ECMWF"
    by (simp_all add: demo_pds201_def NMC_def ECMWF_def nth_append)
  have o2: "other_table (\<lambda>_. Some demo_gribtab) (201, 0, 1) u ((201, - 1, - 1), demo_table2)"
    using u demo_tables(2) by (simp add: other_table_def table_for_def)
  have b: "((replicate 256 Null) [12 := Uname (str ''BBB'')]) ! unat (demo_pds201 ! 8) = Null" "unat (demo_pds201 ! 8) < 255"
    by (simp_all add: demo_pds201_def)
  show ?thesis using second_user_table [OF u(2) p w o2 demo_tables(4) b] u(1) by blast
qed

end
