(* ===== verification/Grib_Id.thy ===== *)
theory Grib_Id
  imports Wgrib_Names
begin

text \<open>
  The name tables of \<open>gribid.c\<close> and \<open>getFacilityName.c\<close>. A code without a name is printed into a
  static buffer, which the next such call overwrites; a result is therefore a reference, and what it
  reads depends on the buffers when it is used. Writing past a static buffer is \<open>None\<close>.
\<close>

section \<open>Static buffers\<close>

record statics =
  byte_buf :: cstr \<comment> \<open>\<open>static char buf[4]\<close> of \<open>s_byte\<close>\<close>
  model_buf :: cstr \<comment> \<open>\<open>static char buf[10]\<close> of \<open>s_model_id\<close>\<close>
  user_names :: user_tab \<comment> \<open>the static variables of \<open>setup_user_table\<close>\<close>

datatype sref = Lit cstr | Byte_buf | Model_buf

fun deref :: "statics \<Rightarrow> sref \<Rightarrow> cstr" where
  "deref st (Lit s) = s"
| "deref st Byte_buf = byte_buf st"
| "deref st Model_buf = model_buf st"

definition s_byte :: "byte \<Rightarrow> statics \<Rightarrow> (sref \<times> statics) option" where
  "s_byte b st =
     (let s = dec (uint b) in if 4 < length s + 1 then None else Some (Byte_buf, st\<lparr>byte_buf := s\<rparr>))"

definition s_model_id :: "string \<Rightarrow> byte \<Rightarrow> statics \<Rightarrow> (sref \<times> statics) option" where
  "s_model_id model b st =
     (let s = str model @ [95] @ dec (uint b)
      in if 10 < length s + 1 then None else Some (Model_buf, st\<lparr>model_buf := s\<rparr>))"

section \<open>Tables\<close>

datatype entry = Name string | With_id string

definition center_table :: "(int \<times> string) list" where
  "center_table =
    [(7, ''ncep''), (8, ''nwstg''), (9, ''nws''), (54, ''cms''), (74, ''ukmet''),
     (98, ''ecmwf''), (58, ''noc''), (59, ''fsl''), (60, ''ncar'')]"

definition ncep_table :: "(int \<times> entry) list" where
  "ncep_table =
    [(2, Name ''UVI''), (3, Name ''TRANS_DISP''), (4, Name ''SMOKE''), (5, Name ''SAT''),
     (10, Name ''NOW''), (11, Name ''GMGWM''), (12, Name ''SURGE''), (19, Name ''LFM''),
     (25, Name ''SNO''), (30, Name ''FORECASTER''), (39, Name ''NGM''), (42, Name ''GOI_GFS''),
     (43, Name ''GOI_FNL''), (44, Name ''SST''), (45, Name ''OCN''), (46, Name ''HYCOM_GLOBAL''),
     (47, Name ''HYCOM_NPAC''), (48, Name ''HYCOM_NATL''), (53, Name ''LFM4''),
     (64, Name ''ROI''), (68, Name ''SPEC_80_GFS''), (69, Name ''SPEC_80_MRF''),
     (70, Name ''QLM''), (73, Name ''FOG''), (74, Name ''WWMEX''), (75, Name ''WWAK''),
     (76, Name ''BMRF''), (77, Name ''GFS''), (78, Name ''MRF''), (79, Name ''BACKUP''),
     (80, Name ''SPEC62MRF''), (81, Name ''SSIGFS''), (82, Name ''SSIGDAS''),
     (84, With_id ''NAM''), (86, Name ''RUC''), (87, Name ''ENSMB''), (88, Name ''NWW3''),
     (89, With_id ''NMM''), (94, Name ''MRF''), (96, Name ''GFS''), (98, Name ''CFS''),
     (99, Name ''TEST_ID''), (100, Name ''RSAS''), (101, Name ''RSAS''), (105, Name ''RUC2''),
     (107, Name ''GEFS''), (108, Name ''LAMP''), (109, Name ''RTMA''), (110, With_id ''NAM''),
     (111, With_id ''NAM''), (112, Name ''WRF_NMM''), (113, With_id ''SREF''),
     (114, Name ''NAEFS''), (115, With_id ''DGEX''), (116, Name ''WRF_EM''),
     (120, With_id ''ICE''), (121, With_id ''NWW''), (122, With_id ''NWW''),
     (123, With_id ''NWW''), (124, With_id ''NWW''), (125, With_id ''NWW''),
     (126, Name ''SEAICE''), (127, Name ''LAKEICE''), (128, Name ''GOCN''),
     (129, Name ''GODAS''), (130, Name ''MERGE''), (131, Name ''GLWM''), (140, Name ''NARR''),
     (141, Name ''LDAFS''), (150, Name ''RFS''), (151, Name ''FFGS''), (152, Name ''RAD2''),
     (153, Name ''RAD3''), (180, Name ''NCEP_QPF''), (181, Name ''RFC_QPF''),
     (182, Name ''RFC_QPE''), (183, Name ''NDFD''), (184, Name ''CCPA''),
     (190, Name ''AWC_NCWD''), (191, Name ''AWC_CIP''), (192, Name ''AWC_ANL''),
     (193, Name ''AWC_FCST''), (195, Name ''CDAS2''), (196, Name ''CDAS2''),
     (197, Name ''CDAS''), (198, Name ''CDAS''), (199, Name ''CFSR''), (200, Name ''CPC''),
     (201, Name ''CPC''), (210, Name ''EPA_AQ''), (211, Name ''EPA_AQ''),
     (215, Name ''SPC_MFP''), (220, Name ''NCEP_OPC'')]"

definition platform_table :: "(int \<times> string) list" where
  "platform_table =
    [(2, ''MISC''), (3, ''JERS''), (4, ''ERS''), (5, ''POES''), (6, ''COMP''), (7, ''DMSP''),
     (8, ''GMS''), (9, ''METEOSAT''), (10, ''GOES-7''), (11, ''GOES-8''), (12, ''GOES-9''),
     (13, ''GOES-10''), (14, ''GOES-11''), (15, ''GOES-12''), (16, ''GOES-13''),
     (17, ''GOES-14''), (18, ''GOES-15''), (19, ''GOES-16''), (27, ''POES''), (28, ''POES'')]"

definition channel_table :: "(int \<times> string) list" where
  "channel_table =
    [(1, ''VIS''), (2, ''3.9''), (3, ''WV''), (4, ''IR''), (5, ''12.0''), (6, ''13.3''),
     (7, ''1.3''), (16, ''LI''), (17, ''PW''), (18, ''SFC-T''), (19, ''CAPE''), (27, ''CTP''),
     (28, ''CLD''), (29, ''PRXX''), (41, ''SOUND-14.71''), (42, ''SOUND-14.37''),
     (43, ''SOUND-14.06''), (44, ''SOUND-13.64''), (45, ''SOUND-13.37''), (46, ''SOUND-12.66''),
     (47, ''SOUND-12.02''), (48, ''SOUND-11.03''), (49, ''SOUND-9.71''), (50, ''SOUND-7.43''),
     (51, ''SOUND-7.02''), (52, ''SOUND-6.51''), (53, ''SOUND-4.57''), (54, ''SOUND-4.52''),
     (55, ''SOUND-4.45''), (56, ''SOUND-4.13''), (57, ''SOUND-3.98''), (58, ''SOUND-3.74''),
     (59, ''SOUND-VIS''), (61, ''VIS''), (63, ''3.74''), (64, ''11.0'')]"

definition sector_table :: "(int \<times> string) list" where
  "sector_table =
    [(0, ''NHEM-COMP''), (1, ''EAST-CONUS''), (2, ''WEST-CONUS''), (3, ''AK-REGIONAL''),
     (4, ''AK-NATIONAL''), (5, ''HI-REGIONAL''), (6, ''HI-NATIONAL''), (7, ''PR-REGIONAL''),
     (8, ''PR-NATIONAL''), (9, ''SUPER-NATIONAL''), (10, ''NHEM-MULTICOMP'')]"

definition named :: "(int \<times> string) list \<Rightarrow> byte \<Rightarrow> statics \<Rightarrow> (sref \<times> statics) option" where
  "named tab b st = (case map_of tab (uint b) of Some s \<Rightarrow> Some (Lit (str s), st) | None \<Rightarrow> s_byte b st)"

definition s_pds_center :: "byte \<Rightarrow> statics \<Rightarrow> (sref \<times> statics) option" where
  "s_pds_center center st = named center_table center st"

definition s_pds_model :: "byte \<Rightarrow> byte \<Rightarrow> statics \<Rightarrow> (sref \<times> statics) option" where
  "s_pds_model center model st =
     (if center = 7
      then (case map_of ncep_table (uint model) of
              Some (Name s) \<Rightarrow> Some (Lit (str s), st)
            | Some (With_id s) \<Rightarrow> s_model_id s model st
            | None \<Rightarrow> s_byte model st)
      else if center = 8 \<or> center = 9 then s_model_id ''NWS'' model st
      else if center = 98 then s_model_id ''ECMWF'' model st
      else if center = 74 then s_model_id ''UKM'' model st
      else if center = 59 then (if model = 105 then Some (Lit (str ''RUC2''), st) else s_model_id ''FSL'' model st)
      else if center = 54 then (if model = 36 then Some (Lit (str ''GEM''), st) else s_model_id ''CMS'' model st)
      else if center = 60 then s_model_id ''NCAR'' model st
      else s_byte model st)"

definition platform_id :: "byte \<Rightarrow> statics \<Rightarrow> (sref \<times> statics) option" where
  "platform_id satid st = named platform_table satid st"

definition channel_id :: "byte \<Rightarrow> statics \<Rightarrow> (sref \<times> statics) option" where
  "channel_id channel st = named channel_table channel st"

definition sector_id :: "byte \<Rightarrow> statics \<Rightarrow> (sref \<times> statics) option" where
  "sector_id sector st = named sector_table sector st"

section \<open>Grid identifiers\<close>

definition grid_H :: "int list" where
  "grid_H = [21, 22, 23, 24, 25, 26, 50, - 1, 37, 38, 39, 40, 41, 42,
    43, 44, - 1, - 1, - 1, 61, 62, 63, 64, - 1, - 1, 255]"

definition grid_E :: "int list" where
  "grid_E = [228, 218, 219, 220, 221, 229, 230, 231, 232, 233, 234, 235, 238,
    239, 244, 251, 253, 212, 253, 214, 215, 216, 173, - 1, - 1, 255]"

definition grid_L :: "int list" where
  "grid_L = [201, 218, 175, 130, 185, 186, 160, 213, 202, 203, 204, 205, 227,
    207, 254, 237, 211, 212, 242, 161, 215, 216, 236, - 1, 217, 255]"

text \<open>The characters are plain \<open>char\<close>, signed on the target; an index outside a table is \<open>None\<close>.\<close>

definition wmo_to_gridid :: "byte \<Rightarrow> byte \<Rightarrow> int option" where
  "wmo_to_gridid tt aa =
     (let aval = sint aa - 65; t = sint tt;
          look = (\<lambda>A1. if 0 \<le> aval \<and> aval < 26 then rd A1 (nat aval) else Some (- 1))
      in if t = 72 then look grid_H
         else if t = 69 \<or> t = 79 then look grid_E
         else if t = 76 \<or> t = 77 \<or> t = 89 \<or> t = 90 then look grid_L
         else Some (- 1))"

section \<open>Syslog facilities\<close>

definition facilitynames :: "(string \<times> int) list" where
  "facilitynames =
    [(''local0'', 128), (''local1'', 136), (''local2'', 144), (''local3'', 152),
     (''local4'', 160), (''local5'', 168), (''local6'', 176), (''local7'', 184)]"

definition getFacilityName :: "int \<Rightarrow> string" where
  "getFacilityName facility =
     (case filter (\<lambda>(n, v). facility = v) facilitynames of [] \<Rightarrow> ''unknown'' | (n, v) # _ \<Rightarrow> n)"

section \<open>Properties\<close>

lemma str_eq_Nil [simp]: "str s = [] \<longleftrightarrow> s = []"
  by (simp add: str_def)

lemma named_ok:
  assumes "\<forall>(k, s)\<in>set tab. s \<noteq> [] \<and> length s \<le> 14"
  shows "\<exists>r st'. named tab b st = Some (r, st') \<and> 0 < length (deref st' r) \<and> length (deref st' r) \<le> 14"
proof (cases "map_of tab (uint b)")
  case None
  then show ?thesis
    using length_dec_byte [of b] by (auto simp: named_def s_byte_def Let_def dec_def)
next
  case (Some s)
  then have "(uint b, s) \<in> set tab" by (rule map_of_SomeD)
  with assms Some show ?thesis by (auto simp: named_def)
qed

lemma s_byte_Some: "s_byte b st = Some (Byte_buf, st\<lparr>byte_buf := dec (uint b)\<rparr>)"
  using length_dec_byte [of b] by (simp add: s_byte_def Let_def)

lemma s_model_id_Some:
  "length s \<le> 5 \<Longrightarrow> s_model_id s b st = Some (Model_buf, st\<lparr>model_buf := str s @ [95] @ dec (uint b)\<rparr>)"
  using length_dec_byte [of b] by (simp add: s_model_id_def Let_def)

lemma ncep_entries: "map_of ncep_table k = Some e \<Longrightarrow>
   case e of Name s \<Rightarrow> s \<noteq> [] \<and> length s \<le> 14 | With_id s \<Rightarrow> length s \<le> 5"
proof -
  assume "map_of ncep_table k = Some e"
  then have m: "(k, e) \<in> set ncep_table" by (rule map_of_SomeD)
  have "list_all (\<lambda>(k, e). case e of Name s \<Rightarrow> s \<noteq> [] \<and> length s \<le> 14 | With_id s \<Rightarrow> length s \<le> 5) ncep_table"
    unfolding ncep_table_def by simp
  with m show ?thesis by (auto simp: list_all_iff)
qed

text \<open>
  No name overflows its static buffer. For all 65536 pairs of centre and model \<open>s_pds_model\<close>
  returns a text of 1 to 14 characters (the longest numbered one, \<open>ECMWF_255\<close>, fills its ten bytes
  exactly).
\<close>

theorem s_pds_model_fits:
  "\<exists>r st'. s_pds_model center model st = Some (r, st') \<and>
     0 < length (deref st' r) \<and> length (deref st' r) \<le> 14"
proof -
  have e: "0 < length (dec (uint model)) \<and> length (dec (uint model)) \<le> 3"
    using length_dec_byte [of model] by (simp add: dec_def)
  define d where "d = dec (uint model)"
  have d: "0 < length d" "length d \<le> 3" using e by (simp_all add: d_def)
  have byte: "\<exists>r st'. s_byte model st = Some (r, st') \<and> 0 < length (deref st' r) \<and> length (deref st' r) \<le> 14"
    unfolding s_byte_Some d_def [symmetric] using d by auto
  have mid: "\<exists>r st'. s_model_id s model st = Some (r, st') \<and> 0 < length (deref st' r) \<and> length (deref st' r) \<le> 14"
    if "length s \<le> 5" for s
    unfolding s_model_id_Some [OF that] d_def [symmetric] using d that by auto
  have lit: "\<exists>r st'. Some (Lit (str s), st) = Some (r, st') \<and> 0 < length (deref st' r) \<and> length (deref st' r) \<le> 14"
    if "s \<noteq> []" "length s \<le> 14" for s
    using that by auto
  have ncep: "\<exists>r st'. (case map_of ncep_table (uint model) of
      Some (Name s) \<Rightarrow> Some (Lit (str s), st) | Some (With_id s) \<Rightarrow> s_model_id s model st | None \<Rightarrow> s_byte model st) =
      Some (r, st') \<and> 0 < length (deref st' r) \<and> length (deref st' r) \<le> 14"
  proof (cases "map_of ncep_table (uint model)")
    case None
    with byte show ?thesis by simp
  next
    case (Some en)
    then show ?thesis
      using ncep_entries [OF Some] mid lit by (cases en) auto
  qed
  show ?thesis
    unfolding s_pds_model_def using ncep byte mid lit by (simp split: if_splits)
qed

lemma satellite_names:
  "\<exists>r1 r2 r3 s1 s2 s3. platform_id p st = Some (r1, s1) \<and> channel_id c st = Some (r2, s2) \<and>
     sector_id s st = Some (r3, s3) \<and> length (deref s1 r1) \<le> 14 \<and> length (deref s2 r2) \<le> 14 \<and>
     length (deref s3 r3) \<le> 14"
proof -
  have p: "\<forall>(k, s)\<in>set platform_table. s \<noteq> [] \<and> length s \<le> 14" by (simp add: platform_table_def)
  have c: "\<forall>(k, s)\<in>set channel_table. s \<noteq> [] \<and> length s \<le> 14" by (simp add: channel_table_def)
  have s: "\<forall>(k, s)\<in>set sector_table. s \<noteq> [] \<and> length s \<le> 14" by (simp add: sector_table_def)
  show ?thesis
    using named_ok [OF p, of "p" st] named_ok [OF c, of c st] named_ok [OF s, of s st]
    unfolding platform_id_def channel_id_def sector_id_def by blast
qed

text \<open>
  The names of the satellite platform, channel and sector are always produced, whatever the codes.
\<close>

theorem satellite_names_fit:
  "\<exists>r1 r2 r3 s1 s2 s3. platform_id p st = Some (r1, s1) \<and> channel_id c st = Some (r2, s2) \<and>
     sector_id s st = Some (r3, s3) \<and> length (deref s1 r1) \<le> 14 \<and> length (deref s2 r2) \<le> 14 \<and>
     length (deref s3 r3) \<le> 14"
  by (rule satellite_names)

text \<open>
  Two codes without a name share one static buffer: after \<open>s_pds_center\<close> and \<open>s_pds_model\<close> of a
  centre that neither knows, both results read the number of the model, as in the identifier that
  \<open>sprintf\<close> builds from them in one call.
\<close>

theorem unnamed_codes_alias:
  assumes "map_of center_table (uint center) = None"
  shows "\<exists>r1 r2 st1 st2. s_pds_center center st = Some (r1, st1) \<and> s_pds_model center model st1 = Some (r2, st2) \<and>
    deref st2 r1 = dec (uint model) \<and> deref st2 r2 = dec (uint model) \<and> deref st1 r1 = dec (uint center)"
proof -
  have n: "uint center \<notin> set (map fst center_table)" using assms by (simp add: map_of_eq_None_iff)
  have "center \<noteq> 7" "center \<noteq> 8" "center \<noteq> 9" "center \<noteq> 98" "center \<noteq> 74" "center \<noteq> 59" "center \<noteq> 54" "center \<noteq> 60"
    using n by (auto simp: center_table_def)
  then show ?thesis
    using assms by (simp add: s_pds_center_def named_def s_byte_Some s_pds_model_def)
qed

theorem unnamed_codes_alias_witness:
  "\<exists>r1 r2 st1 st2. s_pds_center 57 \<lparr>byte_buf = [], model_buf = [], user_names = user_tab0\<rparr> = Some (r1, st1) \<and> s_pds_model 57 12 st1 = Some (r2, st2) \<and>
    deref st2 r1 = str ''12'' \<and> deref st1 r1 = str ''57''"
proof -
  have "dec (uint (12::byte)) = str ''12''" "dec (uint (57::byte)) = str ''57''"
    by (simp_all add: dec_def digits.simps)
  moreover have "map_of center_table (uint (57::byte)) = None" by (simp add: center_table_def)
  ultimately show ?thesis using unnamed_codes_alias [of 57 "\<lparr>byte_buf = [], model_buf = [], user_names = user_tab0\<rparr>" 12] by auto
qed

text \<open>
  \<open>wmo_to_gridid\<close> never indexes outside its tables and returns -1 or a grid number of one octet;
  it returns -1 for every second letter outside A to Z.
\<close>

theorem wmo_to_gridid_range:
  "\<exists>n. wmo_to_gridid tt aa = Some n \<and> - 1 \<le> n \<and> n \<le> 255 \<and>
     (sint aa < 65 \<or> 90 < sint aa \<longrightarrow> n = - 1)"
proof -
  have t: "length grid_H = 26 \<and> length grid_E = 26 \<and> length grid_L = 26"
    by (simp add: grid_H_def grid_E_def grid_L_def)
  have "list_all (\<lambda>n. - 1 \<le> n \<and> n \<le> 255) (grid_H @ grid_E @ grid_L)"
    by (simp add: grid_H_def grid_E_def grid_L_def)
  then have r: "\<forall>A\<in>{grid_H, grid_E, grid_L}. \<forall>i<26. - 1 \<le> A ! i \<and> A ! i \<le> 255"
    using t by (auto simp: list_all_iff)
  have look: "\<exists>n. (if 0 \<le> sint aa - 65 \<and> sint aa - 65 < 26 then rd A (nat (sint aa - 65)) else Some (- 1)) = Some n \<and>
      - 1 \<le> n \<and> n \<le> 255 \<and> (sint aa < 65 \<or> 90 < sint aa \<longrightarrow> n = - 1)" if "A \<in> {grid_H, grid_E, grid_L}" for A
    using t r that by (auto simp: rd_def)
  show ?thesis
    using look [of grid_H] look [of grid_E] look [of grid_L] by (simp add: wmo_to_gridid_def Let_def)
qed

theorem wmo_to_gridid_range_witness:
  "\<exists>n. wmo_to_gridid 72 91 = Some n \<and> n = - 1"
  using wmo_to_gridid_range [of 72 91] by auto

lemma getFacilityName_unknown: "facility \<notin> set (map snd facilitynames) \<Longrightarrow> getFacilityName facility = ''unknown''"
  by (auto simp: getFacilityName_def facilitynames_def)

lemma getFacilityName_known: "(n, v) \<in> set facilitynames \<Longrightarrow> getFacilityName v = n"
  by (auto simp: getFacilityName_def facilitynames_def)

end
