(* ===== verification/Pdb.thy ===== *)
theory Pdb
  imports Headers Grib_Id
begin

text \<open>
  The product definition block of a satellite image (\<open>readpdb.c\<close>): the heading line becomes the product
  name, the binary block behind it gives the image geometry, and the name is rewritten to the path-like
  form \<open>sat/ch.../platform/channel/date time/sector/res/ heading\<close>. For compressed images the block is
  inflated first. \<open>inflate\<close> is the first call of the library on 540 bytes of input: the output when it ends
  with \<open>Z_STREAM_END\<close>, \<open>None\<close> otherwise; the code relies on it not writing more than the 6000 bytes it
  is given.
\<close>

record pdb_struct =
  pdb_len :: int
  pdb_source :: int
  pdb_year :: int
  pdb_month :: int
  pdb_day :: int
  pdb_hour :: int
  pdb_minute :: int
  pdb_second :: int
  pdb_sechunds :: int
  pdb_platform :: int
  pdb_sector :: int
  pdb_channel :: int
  pdb_nrec :: int
  pdb_recsize :: int
  pdb_nx :: int
  pdb_ny :: int
  pdb_res :: int

definition MAX_BLOCK :: nat where "MAX_BLOCK = 6000"

type_synonym inflate_fn = "byte list \<Rightarrow> byte list option"

text \<open>
  \<open>npunz\<close>: status, \<open>*lenout\<close>, \<open>*ioff\<close> if set, and the static output buffer. The scan for the newline
  tests the character before the bound.
\<close>

definition npunz :: "inflate_fn \<Rightarrow> byte list \<Rightarrow> nat \<Rightarrow> byte list \<Rightarrow> (int \<times> nat \<times> nat option \<times> byte list) option" where
  "npunz inflate m p uncompr =
     (case mem_read m p 540 of
        None \<Rightarrow> None
      | Some zstr \<Rightarrow>
          (case inflate zstr of
             None \<Rightarrow> Some (- 1, 0, None, uncompr)
           | Some out \<Rightarrow>
               (case mem_write uncompr 0 out of
                  None \<Rightarrow> None
                | Some u \<Rightarrow>
                    let i = length (takeWhile (\<lambda>b. b \<noteq> 10) (take (length out) u))
                    in if i = length out
                       then (if length u \<le> i then None else Some (- 1, length out, None, u))
                       else Some (0, length out, Some (i + 1), u))))"

text \<open>The heading line: printable characters up to the newline, at most 512 positions.\<close>

definition heading_name :: "byte list \<Rightarrow> (nat \<times> cstr) option" where
  "heading_name m =
     (let line = takeWhile (\<lambda>b. b \<noteq> 10) (take 512 m); k = length line
      in if k < 512 \<and> length m \<le> k then None
         else Some (k, filter (\<lambda>b. 32 \<le> uint b) line))"

text \<open>The three code names are arguments of one \<open>sprintf\<close>: evaluated in either order, read afterwards.\<close>

definition three_names :: "bool \<Rightarrow> byte \<Rightarrow> byte \<Rightarrow> byte \<Rightarrow> statics \<Rightarrow> (cstr \<times> cstr \<times> cstr \<times> statics) option" where
  "three_names rtl p c s st =
     (if rtl
      then do { (r3, st1) \<leftarrow> sector_id s st; (r2, st2) \<leftarrow> channel_id c st1; (r1, st3) \<leftarrow> platform_id p st2;
                Some (deref st3 r1, deref st3 r2, deref st3 r3, st3) }
      else do { (r1, st1) \<leftarrow> platform_id p st; (r2, st2) \<leftarrow> channel_id c st1; (r3, st3) \<leftarrow> sector_id s st2;
                Some (deref st3 r1, deref st3 r2, deref st3 r3, st3) })"

definition image_name ::
  "bool \<Rightarrow> cstr \<Rightarrow> psh_struct \<Rightarrow> pdb_struct \<Rightarrow> cstr \<Rightarrow> statics \<Rightarrow> (cstr \<times> statics) option" where
  "image_name rtl pre psh pdb pname st = do {
     (pl, ch, sec, st1) \<leftarrow> three_names rtl (word_of_int (pdb_platform pdb)) (word_of_int (pdb_channel pdb))
                             (word_of_int (pdb_sector pdb)) st;
     ldmname \<leftarrow> fits_buf 256 (pre @ str ''/ch'' @ dec (psh_ptype psh) @ str ''/'' @ pl @ str ''/'' @ ch @ str ''/'' @
        dec_pad 4 (pdb_year pdb) @ dec_pad 2 (pdb_month pdb) @ dec_pad 2 (pdb_day pdb) @ str '' '' @
        dec_pad 2 (pdb_hour pdb) @ dec_pad 2 (pdb_minute pdb) @ str ''/'' @ sec @ str ''/'' @ dec (pdb_res pdb) @
        str ''km/ '' @ pname);
     Some (ldmname, st1)
   }"

text \<open>The fields of the block at offset \<open>q\<close> of \<open>w\<close> (\<open>wbuf\<close>); the second component is \<open>iret\<close>.\<close>

definition pdb_fields :: "byte list \<Rightarrow> nat \<Rightarrow> pdb_struct \<Rightarrow> (pdb_struct \<times> int) option" where
  "pdb_fields w q pdb = do {
     g \<leftarrow> mem_read w q 20;
     res \<leftarrow> rd w (q + 41);
     let year = uint (g ! 8);
     let nx = be16 (g ! 16) (g ! 17);
     let ny = be16 (g ! 18) (g ! 19);
     Some (pdb\<lparr>pdb_source := uint (g ! 0), pdb_platform := uint (g ! 1), pdb_sector := uint (g ! 2),
               pdb_channel := uint (g ! 3), pdb_nrec := be16 (g ! 4) (g ! 5), pdb_recsize := be16 (g ! 6) (g ! 7),
               pdb_year := (if year > 70 then year + 1900 else year + 2000),
               pdb_month := uint (g ! 9), pdb_day := uint (g ! 10), pdb_hour := uint (g ! 11),
               pdb_minute := uint (g ! 12), pdb_second := uint (g ! 13), pdb_sechunds := uint (g ! 14),
               pdb_nx := nx, pdb_ny := ny, pdb_res := uint res\<rparr>,
           if nx < 1 \<or> ny < 1 then - 1 else 0)
   }"

record pdb_state =
  ps_mem :: "byte list"
  ps_psh :: psh_struct
  ps_pdb :: pdb_struct
  ps_uncompr :: "byte list"
  ps_statics :: statics

definition readpdb :: "inflate_fn \<Rightarrow> bool \<Rightarrow> bool \<Rightarrow> pdb_state \<Rightarrow> (int \<times> pdb_state) option" where
  "readpdb inflate rtl zflag s = do {
     (wmocnt, pname) \<leftarrow> heading_name (ps_mem s);
     if zflag
     then do {
       (zst, lenout, ioff, u) \<leftarrow> npunz inflate (ps_mem s) (wmocnt + 1) (ps_uncompr s);
       if zst \<noteq> 0
       then do {
         let pdb = (ps_pdb s)\<lparr>pdb_platform := 0, pdb_channel := 0, pdb_year := 0, pdb_month := 0, pdb_day := 0,
                              pdb_hour := 0, pdb_minute := 0, pdb_sector := 0, pdb_res := 0\<rparr>;
         (name, st) \<leftarrow> image_name rtl (str ''satz'') (ps_psh s) pdb pname (ps_statics s);
         Some (- 1, s\<lparr>ps_psh := (ps_psh s)\<lparr>psh_pname := name\<rparr>, ps_pdb := pdb\<lparr>pdb_len := - 1\<rparr>,
                      ps_uncompr := u, ps_statics := st\<rparr>)
       }
       else do {
         q \<leftarrow> ioff;
         (pdb, iret) \<leftarrow> pdb_fields u q (ps_pdb s);
         (name, st) \<leftarrow> image_name rtl (str ''satz'') (ps_psh s) pdb pname (ps_statics s);
         Some (iret, s\<lparr>ps_psh := (ps_psh s)\<lparr>psh_pname := name\<rparr>, ps_pdb := pdb\<lparr>pdb_len := 512 + int wmocnt\<rparr>,
                       ps_uncompr := u, ps_statics := st\<rparr>)
       }
     }
     else do {
       (pdb, iret) \<leftarrow> pdb_fields (ps_mem s) (wmocnt + 1) (ps_pdb s);
       m' \<leftarrow> mem_write (ps_mem s) (wmocnt + 1 + 42) [128];
       (name, st) \<leftarrow> image_name rtl (str ''sat'') (ps_psh s) pdb pname (ps_statics s);
       Some (iret, s\<lparr>ps_mem := m', ps_psh := (ps_psh s)\<lparr>psh_pname := name\<rparr>,
                     ps_pdb := pdb\<lparr>pdb_len := 512 + int wmocnt\<rparr>, ps_statics := st\<rparr>)
     }
   }"

section \<open>Lemmas\<close>

definition short_tab :: "(int \<times> string) list \<Rightarrow> bool" where
  "short_tab tab \<longleftrightarrow> list_all (\<lambda>(k, s). length s \<le> 14) tab"

lemma short_tabs: "short_tab platform_table" "short_tab channel_table" "short_tab sector_table"
  by (simp_all add: short_tab_def platform_table_def channel_table_def sector_table_def)

text \<open>A name call yields a short text and leaves every earlier short result short.\<close>

lemma named_short:
  assumes "short_tab tab"
  shows "\<exists>r st'. named tab x st = Some (r, st') \<and> length (deref st' r) \<le> 14 \<and>
    (\<forall>r0. length (deref st r0) \<le> 14 \<longrightarrow> length (deref st' r0) \<le> 14)"
proof (cases "map_of tab (uint x)")
  case None
  have "length (deref (st\<lparr>byte_buf := dec (uint x)\<rparr>) r0) \<le> 14" if "length (deref st r0) \<le> 14" for r0
    using that length_dec_byte [of x] by (cases r0) auto
  with None length_dec_byte [of x] show ?thesis by (auto simp: named_def s_byte_Some)
next
  case (Some s)
  then have "(uint x, s) \<in> set tab" by (rule map_of_SomeD)
  with assms Some show ?thesis by (auto simp: named_def short_tab_def list_all_iff)
qed

lemma three_names_short:
  "\<exists>n1 n2 n3 st'. three_names rtl p ch s st = Some (n1, n2, n3, st') \<and> length n1 \<le> 14 \<and> length n2 \<le> 14 \<and> length n3 \<le> 14"
proof (cases rtl)
  case True
  obtain r3 st1 where 1: "sector_id s st = Some (r3, st1)" "length (deref st1 r3) \<le> 14"
    using named_short [OF short_tabs(3), of s st] by (auto simp: sector_id_def)
  obtain r2 st2 where 2: "channel_id ch st1 = Some (r2, st2)" "length (deref st2 r2) \<le> 14" "length (deref st2 r3) \<le> 14"
    using named_short [OF short_tabs(2), of ch st1] 1(2) by (auto simp: channel_id_def)
  obtain r1 st3 where 3: "platform_id p st2 = Some (r1, st3)" "length (deref st3 r1) \<le> 14" "length (deref st3 r2) \<le> 14"
    "length (deref st3 r3) \<le> 14"
    using named_short [OF short_tabs(1), of p st2] 2(2,3) by (auto simp: platform_id_def)
  show ?thesis using True 1 2 3 by (simp add: three_names_def)
next
  case False
  obtain r1 st1 where 1: "platform_id p st = Some (r1, st1)" "length (deref st1 r1) \<le> 14"
    using named_short [OF short_tabs(1), of p st] by (auto simp: platform_id_def)
  obtain r2 st2 where 2: "channel_id ch st1 = Some (r2, st2)" "length (deref st2 r2) \<le> 14" "length (deref st2 r1) \<le> 14"
    using named_short [OF short_tabs(2), of ch st1] 1(2) by (auto simp: channel_id_def)
  obtain r3 st3 where 3: "sector_id s st2 = Some (r3, st3)" "length (deref st3 r3) \<le> 14" "length (deref st3 r2) \<le> 14"
    "length (deref st3 r1) \<le> 14"
    using named_short [OF short_tabs(3), of s st2] 2(2,3) by (auto simp: sector_id_def)
  show ?thesis using False 1 2 3 by (simp add: three_names_def)
qed

lemma image_name_long: "256 \<le> length pname \<Longrightarrow> image_name rtl pre psh pdb pname st = None"
  by (auto simp: image_name_def fits_buf_def bind_eq_None_conv)

lemma heading_name_at:
  assumes "m = line @ [10] @ r" and "10 \<notin> set line" and "length line < 512"
  shows "heading_name m = Some (length line, filter (\<lambda>b. 32 \<le> uint b) line)"
proof -
  have "take 512 m = line @ take (512 - length line) (10 # r)" using assms by simp
  moreover obtain k where "512 - length line = Suc k" using assms(3) by (metis Suc_diff_Suc)
  ultimately have "takeWhile (\<lambda>b. b \<noteq> 10) (take 512 m) = line"
    using assms(2) by (metis (mono_tags, lifting) takeWhile_append2 takeWhile.simps(2) take_Suc_Cons append_Nil2)
  then show ?thesis using assms by (simp add: heading_name_def)
qed


definition demo_pdb :: pdb_struct where
  "demo_pdb = \<lparr>pdb_len = 0, pdb_source = 0, pdb_year = 0, pdb_month = 0, pdb_day = 0, pdb_hour = 0, pdb_minute = 0,
     pdb_second = 0, pdb_sechunds = 0, pdb_platform = 0, pdb_sector = 0, pdb_channel = 0, pdb_nrec = 0,
     pdb_recsize = 0, pdb_nx = 0, pdb_ny = 0, pdb_res = 0\<rparr>"

definition pdb_st :: "byte list \<Rightarrow> pdb_state" where
  "pdb_st m = \<lparr>ps_mem = m, ps_psh = demo_psh, ps_pdb = demo_pdb, ps_uncompr = [], ps_statics = \<lparr>byte_buf = [], model_buf = [], user_names = user_tab0\<rparr>\<rparr>"

section \<open>Properties\<close>

text \<open>
  \<open>readpdb\<close> of an uncompressed image whose 44-byte block follows a heading line: when it returns, the
  geometry, time and codes are those of the block, the years 71 to 255 are taken as 1971 and later and the
  others as 2000 and later, the status is -1 exactly for an empty image, and the only change to the frame
  is byte 42 of the block, set to 128.
\<close>

theorem readpdb_image:
  assumes "ps_mem s = line @ [10] @ blk @ rest" and "10 \<notin> set line" and "length line < 512" and "length blk = 44"
    and "readpdb inflate rtl False s = Some (r, s')"
  shows "pdb_nx (ps_pdb s') = be16 (blk ! 16) (blk ! 17) \<and> pdb_ny (ps_pdb s') = be16 (blk ! 18) (blk ! 19) \<and>
    pdb_recsize (ps_pdb s') = be16 (blk ! 6) (blk ! 7) \<and> pdb_nrec (ps_pdb s') = be16 (blk ! 4) (blk ! 5) \<and>
    pdb_year (ps_pdb s') = (if uint (blk ! 8) > 70 then 1900 else 2000) + uint (blk ! 8) \<and>
    pdb_len (ps_pdb s') = 512 + int (length line) \<and>
    r = (if pdb_nx (ps_pdb s') = 0 \<or> pdb_ny (ps_pdb s') = 0 then - 1 else 0) \<and>
    ps_mem s' = line @ [10] @ blk[42 := 128] @ rest"
proof -
  let ?m = "ps_mem s" and ?q = "length line + 1"
  have h: "heading_name ?m = Some (length line, filter (\<lambda>b. 32 \<le> uint b) line)"
    using heading_name_at [OF assms(1-3)] .
  have g: "mem_read ?m ?q 20 = Some (take 20 blk)" using assms(1,4) by (simp add: mem_read_def)
  have e: "rd ?m (?q + 41) = Some (blk ! 41)" using assms(1,4) by (simp add: rd_def nth_append)
  have w: "mem_write ?m (?q + 42) [128] = Some (line @ [10] @ blk[42 := 128] @ rest)"
    using assms(1,4) by (simp add: mem_write_def blit_def upd_conv_take_nth_drop)
  have b: "be16 x y < 1 \<longleftrightarrow> be16 x y = 0" for x y using be16_bounds [of x y] by auto
  have n: "take 20 blk ! i = blk ! i" if "i < 20" for i using that by simp
  obtain pdb iret where f: "pdb_fields ?m ?q (ps_pdb s) = Some (pdb, iret)"
    and pf: "pdb_nx pdb = be16 (blk ! 16) (blk ! 17)" "pdb_ny pdb = be16 (blk ! 18) (blk ! 19)"
      "pdb_recsize pdb = be16 (blk ! 6) (blk ! 7)" "pdb_nrec pdb = be16 (blk ! 4) (blk ! 5)"
      "pdb_year pdb = (if uint (blk ! 8) > 70 then 1900 else 2000) + uint (blk ! 8)"
      "iret = (if pdb_nx pdb = 0 \<or> pdb_ny pdb = 0 then - 1 else 0)"
    unfolding pdb_fields_def Let_def g e by (simp add: n b)
  from assms(5) h f w obtain name st where
    "image_name rtl (str ''sat'') (ps_psh s) pdb (filter (\<lambda>b. 32 \<le> uint b) line) (ps_statics s) = Some (name, st)"
    and r: "r = iret" "ps_pdb s' = pdb\<lparr>pdb_len := 512 + int (length line)\<rparr>" "ps_mem s' = line @ [10] @ blk[42 := 128] @ rest"
    by (auto simp: readpdb_def bind_eq_Some_conv)
  with pf show ?thesis by simp
qed

lemma image_name_fits: "\<exists>name st'. image_name rtl pre psh pdb pname st = Some (name, st')"
  if "length pre + length pname \<le> 100" "0 \<le> psh_ptype psh" "psh_ptype psh < 256"
    "0 \<le> pdb_year pdb" "pdb_year pdb < 10000" "0 \<le> pdb_month pdb" "pdb_month pdb < 256" "0 \<le> pdb_day pdb" "pdb_day pdb < 256"
    "0 \<le> pdb_hour pdb" "pdb_hour pdb < 256" "0 \<le> pdb_minute pdb" "pdb_minute pdb < 256" "0 \<le> pdb_res pdb" "pdb_res pdb < 256"
proof -
  obtain n1 n2 n3 st' where n: "three_names rtl (word_of_int (pdb_platform pdb)) (word_of_int (pdb_channel pdb))
      (word_of_int (pdb_sector pdb)) st = Some (n1, n2, n3, st')" "length n1 \<le> 14" "length n2 \<le> 14" "length n3 \<le> 14"
    using three_names_short by blast
  have d: "length (dec x) \<le> 3" if "0 \<le> x" "x < 256" for x
    using that length_digits_le [of "nat x" 3] by (simp add: dec_def)
  have p2: "length (dec_pad 2 x) \<le> 3" if "0 \<le> x" "x < 256" for x
  proof -
    have "length (digits (nat x)) \<le> 3" using that length_digits_le [of "nat x" 3] by simp
    with that show ?thesis by (simp add: dec_pad_def)
  qed
  have p4: "length (dec_pad 4 x) \<le> 4" if "0 \<le> x" "x < 10000" for x
    using that length_digits_le [of "nat x" 4] by (simp add: dec_pad_def)
  show ?thesis
    using n that d [of "psh_ptype psh"] d [of "pdb_res pdb"] p2 [of "pdb_month pdb"] p2 [of "pdb_day pdb"]
      p2 [of "pdb_hour pdb"] p2 [of "pdb_minute pdb"] p4 [of "pdb_year pdb"]
    by (simp add: image_name_def fits_buf_def)
qed


lemma pdb_fields_ranges:
  "pdb_fields w q pdb = Some (pdb', r) \<Longrightarrow>
   0 \<le> pdb_year pdb' \<and> pdb_year pdb' < 10000 \<and> 0 \<le> pdb_month pdb' \<and> pdb_month pdb' < 256 \<and> 0 \<le> pdb_day pdb' \<and>
   pdb_day pdb' < 256 \<and> 0 \<le> pdb_hour pdb' \<and> pdb_hour pdb' < 256 \<and> 0 \<le> pdb_minute pdb' \<and> pdb_minute pdb' < 256 \<and>
   0 \<le> pdb_res pdb' \<and> pdb_res pdb' < 256"
proof -
  assume a: "pdb_fields w q pdb = Some (pdb', r)"
  have b: "0 \<le> uint x \<and> uint x < 256" for x :: byte using uint_byte_bounds [of x] by simp
  have y: "uint x + 1900 < 10000" "uint x + 2000 < 10000" for x :: byte using b [of x] by linarith+
  from a show ?thesis
    by (auto simp: pdb_fields_def Let_def bind_eq_Some_conv b y)
qed

text \<open>
  An uncompressed image whose heading line is at most 90 characters never makes \<open>readpdb\<close> leave its
  buffers: with the block in memory it always returns a result.
\<close>

theorem readpdb_short_heading:
  assumes "ps_mem s = line @ [10] @ blk @ rest" and "10 \<notin> set line" and "length line \<le> 90" and "length blk = 44"
    and "octet (psh_ptype (ps_psh s))"
  shows "\<exists>r s'. readpdb inflate rtl False s = Some (r, s') \<and> length (psh_pname (ps_psh s')) < 256"
proof -
  let ?m = "ps_mem s" and ?q = "length line + 1" and ?n = "filter (\<lambda>b. 32 \<le> uint b) line"
  have h: "heading_name ?m = Some (length line, ?n)"
    using heading_name_at [OF assms(1,2)] assms(3) by simp
  have g: "mem_read ?m ?q 20 = Some (take 20 blk)" using assms(1,4) by (simp add: mem_read_def)
  have e: "rd ?m (?q + 41) = Some (blk ! 41)" using assms(1,4) by (simp add: rd_def nth_append)
  have w: "\<exists>m'. mem_write ?m (?q + 42) [128] = Some m'" using assms(1,4) by (simp add: mem_write_def)
  obtain pdb iret where f: "pdb_fields ?m ?q (ps_pdb s) = Some (pdb, iret)"
    unfolding pdb_fields_def Let_def g e by simp
  have "length ?n \<le> 90" by (rule order_trans [OF length_filter_le assms(3)])
  then have l: "length (str ''sat'') + length ?n \<le> 100" by simp
  obtain name st where i: "image_name rtl (str ''sat'') (ps_psh s) pdb ?n (ps_statics s) = Some (name, st)"
    using image_name_fits [of "str ''sat''" ?n "ps_psh s" pdb rtl "ps_statics s"] l pdb_fields_ranges [OF f] assms(5)
    by (auto simp: octet_def)
  then have "length name < 256" by (auto simp: image_name_def bind_eq_Some_conv dest!: fits_bufD)
  with h f w i show ?thesis by (auto simp: readpdb_def)
qed

theorem readpdb_short_heading_witness:
  "\<exists>r s'. readpdb (\<lambda>_. None) False False (pdb_st ([84, 73] @ [10] @ replicate 44 1 @ [])) = Some (r, s')"
  using readpdb_short_heading [of "pdb_st ([84, 73] @ [10] @ replicate 44 1 @ [])" "[84, 73]" "replicate 44 1" "[]" "\<lambda>_. None" False]
  by (auto simp: pdb_st_def demo_psh_def octet_def)

theorem readpdb_image_witness:
  "\<exists>r s'. readpdb (\<lambda>_. None) False False (pdb_st ([84, 73] @ [10] @ replicate 44 1 @ [])) = Some (r, s') \<and>
     pdb_nx (ps_pdb s') = 257 \<and> pdb_year (ps_pdb s') = 2001"
proof -
  let ?m = "[84, 73] @ [10] @ replicate 44 1 @ ([]::byte list)"
  have h: "heading_name ?m = Some (2, [84, 73])"
    using heading_name_at [of ?m "[84, 73]" "replicate 44 1"] by simp
  have g: "mem_read ?m 3 20 = Some (replicate 20 1)" by (simp add: mem_read_def)
  have e: "rd ?m 44 = Some 1" by (simp add: rd_def nth_append)
  obtain pdb iret where f: "pdb_fields ?m 3 demo_pdb = Some (pdb, iret)"
    unfolding pdb_fields_def Let_def using g e by simp
  obtain name st where i: "image_name False (str ''sat'') demo_psh pdb [84, 73] \<lparr>byte_buf = [], model_buf = [], user_names = user_tab0\<rparr> = Some (name, st)"
    using image_name_fits [of "str ''sat''" "[84, 73]" demo_psh pdb False "\<lparr>byte_buf = [], model_buf = [], user_names = user_tab0\<rparr>"]
      pdb_fields_ranges [OF f] by (auto simp: demo_psh_def)
  obtain s' where s': "readpdb (\<lambda>_. None) False False (pdb_st ?m) = Some (iret, s')"
    using h f i by (auto simp: readpdb_def pdb_st_def mem_write_def)
  from readpdb_image [OF _ _ _ _ s', of "[84, 73]" "replicate 44 1" "[]"] s' show ?thesis
    by (auto simp: pdb_st_def be16_def)
qed

text \<open>
  A heading line of 256 printable characters or more, which the scan accepts up to 512, overflows the
  256 bytes of \<open>ldmname\<close>, for every block.
\<close>

theorem readpdb_long_heading_overflows:
  assumes "ps_mem s = line @ [10] @ rest" and "10 \<notin> set line" and "length line < 512"
    and "256 \<le> length (filter (\<lambda>b. 32 \<le> uint b) line)"
  shows "readpdb inflate rtl False s = None"
proof -
  have h: "heading_name (ps_mem s) = Some (length line, filter (\<lambda>b. 32 \<le> uint b) line)"
    using heading_name_at [OF assms(1-3)] .
  show ?thesis
    unfolding readpdb_def h using assms(4) by (auto simp: image_name_long bind_eq_None_conv split: prod.splits)
qed

theorem readpdb_long_heading_overflows_witness:
  "readpdb (\<lambda>_. None) False False (pdb_st (replicate 300 65 @ [10] @ replicate 44 1)) = None"
proof -
  have "(10::byte) \<notin> set (replicate 300 65)" by simp
  moreover have "256 \<le> length (filter (\<lambda>b. 32 \<le> uint b) (replicate 300 (65::byte)))" by (simp add: filter_replicate)
  ultimately show ?thesis
    using readpdb_long_heading_overflows [of "pdb_st (replicate 300 65 @ [10] @ replicate 44 1)" "replicate 300 65"]
    by (simp add: pdb_st_def)
qed

text \<open>
  An image whose platform and channel both have no name gets the same number for both in its name:
  the two calls return the same static buffer, whichever is evaluated last wins.
\<close>

theorem image_name_aliases:
  assumes "map_of platform_table (uint p) = None" and "map_of channel_table (uint c) = None"
    and "map_of sector_table (uint s) = Some sec"
  shows "\<exists>st'. three_names rtl p c s st =
    Some (dec (uint (if rtl then p else c)), dec (uint (if rtl then p else c)), str sec, st')"
  using assms by (simp add: three_names_def platform_id_def channel_id_def sector_id_def named_def s_byte_Some)

theorem image_name_aliases_witness:
  "\<exists>st'. three_names False 99 77 1 \<lparr>byte_buf = [], model_buf = [], user_names = user_tab0\<rparr> = Some (dec 77, dec 77, str ''EAST-CONUS'', st')"
  using image_name_aliases [of 99 77 1 "''EAST-CONUS''" False "\<lparr>byte_buf = [], model_buf = [], user_names = user_tab0\<rparr>"]
  by (simp add: platform_table_def channel_table_def sector_table_def)

text \<open>
  \<open>npunz\<close> on a compressed block whose inflated text has a newline finds the byte behind it, and one
  whose text has none is refused; but when the text fills the 6000 bytes without one, the scan reads one
  byte past the static buffer.
\<close>

theorem npunz_result:
  assumes "mem_read m p 540 = Some z" and "inflate z = Some txt" and "length txt \<le> length u"
  shows "(10 \<in> set txt \<longrightarrow> (\<exists>u'. npunz inflate m p u = Some (0, length txt, Some (length (takeWhile (\<lambda>b. b \<noteq> 10) txt) + 1), u') \<and>
      take (length txt) u' = txt)) \<and>
    (10 \<notin> set txt \<and> length txt < length u \<longrightarrow> (\<exists>u'. npunz inflate m p u = Some (- 1, length txt, None, u'))) \<and>
    (10 \<notin> set txt \<and> length txt = length u \<longrightarrow> npunz inflate m p u = None)"
proof -
  let ?u = "blit u 0 txt"
  have w: "mem_write u 0 txt = Some ?u" using assms(3) by (simp add: mem_write_def)
  have tk: "take (length txt) ?u = txt" by (simp add: blit_def)
  have lu: "length ?u = length u" using assms(3) by simp
  have nl: "length (takeWhile (\<lambda>b. b \<noteq> 10) txt) = length txt \<longleftrightarrow> 10 \<notin> set txt"
    by (metis (mono_tags, lifting) takeWhile_eq_all_conv takeWhile_eq_take take_all order_refl)
  show ?thesis
    using assms(1,2) w tk lu nl by (auto simp: npunz_def Let_def)
qed

theorem npunz_result_witness:
  "\<exists>u' l. npunz (\<lambda>_. Some [65, 10, 66]) (replicate 540 0) 0 (replicate 6000 0) = Some (0, l, Some (length [65::byte] + 1), u')"
  using npunz_result [of "replicate 540 0" 0 "replicate 540 0" "\<lambda>_. Some [65, 10, 66]" "[65, 10, 66]" "replicate 6000 0"]
  by (auto simp: mem_read_def)

end
