(* ===== verification/Wgrib_Time.thy ===== *)
theory Wgrib_Time
  imports NP_Prelude
begin

text \<open>
  The verification time of a GRIB edition 1 message: \<open>add_time\<close> and \<open>verf_time\<close> of \<open>wgrib.c\<close>. Dates are the four
  variables \<open>year\<close>, \<open>month\<close>, \<open>day\<close>, \<open>hour\<close>. The increments are at most 16 bits wide, so that no \<open>int\<close> overflows.
\<close>

section \<open>Dates\<close>

type_synonym wdate = "int \<times> int \<times> int \<times> int"

definition MINUTE :: int where "MINUTE = 0"
definition HOUR :: int where "HOUR = 1"
definition DAY :: int where "DAY = 2"
definition MONTH :: int where "MONTH = 3"
definition YEAR :: int where "YEAR = 4"
definition DECADE :: int where "DECADE = 5"
definition NORMAL :: int where "NORMAL = 6"
definition CENTURY :: int where "CENTURY = 7"
definition HOUR3 :: int where "HOUR3 = 10"
definition HOUR6 :: int where "HOUR6 = 11"
definition HOUR12 :: int where "HOUR12 = 12"
definition SECOND :: int where "SECOND = 254"
definition FEB29 :: int where "FEB29 = 31 + 29"

lemmas time_units = MINUTE_def HOUR_def DAY_def MONTH_def YEAR_def DECADE_def NORMAL_def CENTURY_def
  HOUR3_def HOUR6_def HOUR12_def SECOND_def

definition monthjday :: "int list" where
  "monthjday = [0, 31, 59, 90, 120, 151, 181, 212, 243, 273, 304, 334]"

definition leap :: "int \<Rightarrow> int" where
  "leap year =
     (if c_rem year 4 \<noteq> 0 then 0
      else if c_rem year 100 \<noteq> 0 then 1
      else if c_rem year 400 = 0 then 1 else 0)"

text \<open>\<open>while (dtime > 365 + leap(y))\<close>: one year at a time.\<close>

function whole_years :: "int \<Rightarrow> int \<Rightarrow> int \<times> int" where
  "whole_years y dtime =
     (if 365 + leap y < dtime then whole_years (y + 1) (dtime - (365 + leap y)) else (y, dtime))"
  by auto
termination by (relation "measure (\<lambda>(y, dtime). nat dtime)") (simp_all add: leap_def split: if_splits)

declare whole_years.simps [simp del]

text \<open>\<open>for (i = 11; monthjday[i] >= dtime; --i)\<close>: there is no entry before the first.\<close>

fun find_month :: "nat \<Rightarrow> int \<Rightarrow> nat option" where
  "find_month 0 dtime = (if monthjday ! 0 \<ge> dtime then None else Some 0)"
| "find_month (Suc i) dtime = (if monthjday ! Suc i \<ge> dtime then find_month i dtime else Some (Suc i))"

text \<open>The day of a year, as a month and a day of it.\<close>

definition date_in_year :: "int \<Rightarrow> int \<Rightarrow> (int \<times> int \<times> int) option" where
  "date_in_year y t =
     (if leap y \<noteq> 0 \<and> t = FEB29 then Some (y, 2, 29)
      else do {
        let t3 = (if leap y \<noteq> 0 \<and> FEB29 < t then t - 1 else t);
        i \<leftarrow> find_month 11 t3;
        Some (y, int i + 1, t3 - monthjday ! i)
      })"

text \<open>The hard part of \<open>add_time\<close>: \<open>dtime\<close> days later.\<close>

definition four_years :: "int \<Rightarrow> int \<Rightarrow> int \<times> int" where
  "four_years year dtime =
     (let i = quot dtime (4 * 365 + 1)
      in if i \<noteq> 0
         then let y = year + i * 4; d = dtime - i * (4 * 365 + 1)
              in (y, if quot (y - 1) 100 \<noteq> quot (year - 1) 100 \<and> c_rem (quot y 100) 4 \<noteq> 0 then d + 1 else d)
         else (year, dtime))"

definition add_days :: "int \<Rightarrow> int \<Rightarrow> int \<Rightarrow> int \<Rightarrow> (int \<times> int \<times> int) option" where
  "add_days y m d dtime =
     do {
       j \<leftarrow> if 1 \<le> m then rd monthjday (nat (m - 1)) else None;
       let jday = (if leap y \<noteq> 0 \<and> 2 < m then d + j + 1 else d + j);
       let (y1, t1) = four_years y (dtime + jday);
       let (y2, t2) = whole_years y1 t1;
       date_in_year y2 t2
     }"

text \<open>The clock units in hours, and what is left over for the days: the unit, the increment and the hour.\<close>

definition in_hours :: "int \<times> int \<times> int \<Rightarrow> int \<Rightarrow> int \<Rightarrow> int \<times> int \<times> int" where
  "in_hours r u k =
     (case r of (unit, dtime, h) \<Rightarrow>
        if unit = u then (let t = dtime * k + h in (DAY, quot t 24, c_rem t 24)) else r)"

definition clock_unit :: "int \<Rightarrow> int \<Rightarrow> int \<Rightarrow> int \<times> int \<times> int" where
  "clock_unit unit dtime h =
     (let (unit, dtime) = (if unit = SECOND then (MINUTE, quot dtime 60) else (unit, dtime));
          (unit, dtime) = (if unit = MINUTE then (HOUR, quot dtime 60) else (unit, dtime))
      in in_hours (in_hours (in_hours (in_hours (unit, dtime, h) HOUR 1) HOUR12 12) HOUR6 6) HOUR3 3)"

definition add_time :: "wdate \<Rightarrow> int \<Rightarrow> int \<Rightarrow> (int \<times> wdate) option" where
  "add_time date dtime unit =
     (case date of (y, m, d, h) \<Rightarrow>
        if unit = YEAR then Some (0, (y + dtime, m, d, h))
        else if unit = DECADE then Some (0, (y + 10 * dtime, m, d, h))
        else if unit = CENTURY then Some (0, (y + 100 * dtime, m, d, h))
        else if unit = NORMAL then Some (0, (y + 30 * dtime, m, d, h))
        else if unit = MONTH
        then let t = dtime + (m - 1) in Some (0, (y + quot t 12, 1 + c_rem t 12, d, h))
        else case clock_unit unit dtime h of (unit1, dtime1, h1) \<Rightarrow>
               if unit1 = DAY
               then map_option (\<lambda>(y1, m1, d1). (0, (y1, m1, d1, h1))) (add_days y m d dtime1)
               else Some (1, (y, m, d, h1)))"

section \<open>The product definition section\<close>

text \<open>The octets that \<open>verf_time\<close> reads are the first 25 of the section.\<close>

definition PDS_Year4 :: "byte list \<Rightarrow> int" where
  "PDS_Year4 pds = uint (pds ! 12) + 100 * (uint (pds ! 24) - 1)"

definition PDS_date4 :: "byte list \<Rightarrow> wdate" where
  "PDS_date4 pds = (PDS_Year4 pds, uint (pds ! 13), uint (pds ! 14), uint (pds ! 15))"

definition time_increment :: "byte list \<Rightarrow> int" where
  "time_increment pds =
     (let tr = uint (pds ! 20);
          dtime = (if tr = 10 then uint (pds ! 18) * 256 + uint (pds ! 19) else uint (pds ! 18))
      in if 1 < tr \<and> tr < 6 then uint (pds ! 19) else dtime)"

definition verf_time :: "byte list \<Rightarrow> (int \<times> wdate) option" where
  "verf_time m =
     do {
       pds \<leftarrow> mem_read m 0 25;
       let dtime = time_increment pds;
       if dtime = 0 then Some (0, PDS_date4 pds)
       else add_time (PDS_date4 pds) dtime (uint (pds ! 17))
     }"

section \<open>The calendar\<close>

text \<open>The reference: from one day to the next.\<close>

definition month_length :: "int \<Rightarrow> int \<Rightarrow> int" where
  "month_length y m =
     (if m = 2 then (if 4 dvd y \<and> (\<not> 100 dvd y \<or> 400 dvd y) then 29 else 28)
      else if m \<in> {4, 6, 9, 11} then 30 else 31)"

definition real_date :: "int \<times> int \<times> int \<Rightarrow> bool" where
  "real_date t = (case t of (y, m, d) \<Rightarrow> 1 \<le> y \<and> 1 \<le> m \<and> m \<le> 12 \<and> 1 \<le> d \<and> d \<le> month_length y m)"

fun next_day :: "int \<times> int \<times> int \<Rightarrow> int \<times> int \<times> int" where
  "next_day (y, m, d) =
     (if d < month_length y m then (y, m, d + 1)
      else if m < 12 then (y, m + 1, 1)
      else (y + 1, 1, 1))"

declare next_day.simps [simp del]

text \<open>Numbers of days: before a year, in a year up to a date, and all together.\<close>

definition year_days :: "int \<Rightarrow> int" where
  "year_days y = 365 * (y - 1) + (y - 1) div 4 - (y - 1) div 100 + (y - 1) div 400"

definition day_of_year :: "int \<times> int \<times> int \<Rightarrow> int" where
  "day_of_year t = (case t of (y, m, d) \<Rightarrow> monthjday ! nat (m - 1) + (if leap y \<noteq> 0 \<and> 2 < m then 1 else 0) + d)"

definition day_number :: "int \<times> int \<times> int \<Rightarrow> int" where
  "day_number t = year_days (fst t) + day_of_year t"

lemma century_dvd: "400 dvd y \<Longrightarrow> 100 dvd y" "100 dvd y \<Longrightarrow> 4 dvd y" for y :: int
  by (rule dvd_trans [of 100 400], simp_all) (rule dvd_trans [of 4 100], simp_all)

lemma leap_eq: "0 \<le> y \<Longrightarrow> leap y = of_bool (4 dvd y \<and> (\<not> 100 dvd y \<or> 400 dvd y))"
  using century_dvd [of y] unfolding leap_def by (simp add: c_rem_pos mod_eq_0_iff_dvd)

lemma leap_cases: "leap y = 0 \<or> leap y = 1"
  by (simp add: leap_def)

lemma div_step: "0 < k \<Longrightarrow> (y::int) div k = (y - 1) div k + of_bool (k dvd y)"
proof -
  assume k: "0 < k"
  have y: "y = k * (y div k) + y mod k" by simp
  have b: "0 \<le> y mod k" "y mod k < k" using k by simp_all
  show ?thesis
  proof (cases "k dvd y")
    case True
    then obtain q where q: "y = k * q" ..
    then have "(y - 1) div k = q - 1" using k by (intro int_div_pos_eq [of _ _ _ "k - 1"]) (simp_all add: right_diff_distrib)
    with q k True show ?thesis by simp
  next
    case False
    then have "y mod k \<noteq> 0" by (simp add: dvd_eq_mod_eq_0)
    then have "(y - 1) div k = y div k" using y b by (intro int_div_pos_eq [of _ _ _ "y mod k - 1"]) linarith+
    with False show ?thesis by simp
  qed
qed

lemma of_bool_leap: "(c \<Longrightarrow> b) \<Longrightarrow> (b \<Longrightarrow> a) \<Longrightarrow> of_bool (a \<and> (\<not> b \<or> c)) = of_bool a - of_bool b + (of_bool c :: int)"
  by (cases a; cases b; cases c) simp_all

lemma leap_sum: "0 \<le> y \<Longrightarrow> leap y = of_bool (4 dvd y) - of_bool (100 dvd y) + of_bool (400 dvd y)"
  unfolding leap_eq by (rule of_bool_leap) (erule century_dvd)+

lemma year_days_Suc: "1 \<le> y \<Longrightarrow> year_days (y + 1) = year_days y + 365 + leap y"
proof -
  assume "1 \<le> y"
  moreover define a b c :: int where "a = of_bool (4 dvd y)" and "b = of_bool (100 dvd y)" and "c = of_bool (400 dvd y)"
  ultimately have "leap y = a - b + c" by (simp add: leap_sum)
  moreover have "y div 4 = (y - 1) div 4 + a" "y div 100 = (y - 1) div 100 + b" "y div 400 = (y - 1) div 400 + c"
    unfolding a_def b_def c_def by (rule div_step, simp)+
  ultimately show ?thesis unfolding year_days_def by simp
qed

section \<open>Days of the year\<close>

definition before_month :: "int \<Rightarrow> int \<Rightarrow> int" where
  "before_month y m = monthjday ! nat (m - 1) + (if leap y \<noteq> 0 \<and> 2 < m then 1 else 0)"

lemma day_of_year_eq: "day_of_year (y, m, d) = before_month y m + d"
  by (simp add: day_of_year_def before_month_def)

lemma twelve_months: "1 \<le> m \<Longrightarrow> m \<le> 12 \<Longrightarrow> m \<in> {1, 2, 3, 4, 5, 6, 7, 8, 9, 10, 11, 12 :: int}"
  unfolding insert_iff empty_iff by presburger

lemma month_length_leap: "0 \<le> y \<Longrightarrow> month_length y 2 = 28 + leap y"
  by (simp add: month_length_def leap_eq)

lemma before_month_1 [simp]: "before_month y 1 = 0"
  by (simp add: before_month_def monthjday_def)

lemma before_month_Suc: "0 \<le> y \<Longrightarrow> 1 \<le> m \<Longrightarrow> m < 12 \<Longrightarrow> before_month y (m + 1) = before_month y m + month_length y m"
proof -
  assume y: "0 \<le> y" and "1 \<le> m" "m < 12"
  then have "m \<in> {1, 2, 3, 4, 5, 6, 7, 8, 9, 10, 11}" using twelve_months [of m] by simp
  then show ?thesis
    using leap_cases [of y] month_length_leap [OF y]
    by (elim insertE) (auto simp: before_month_def monthjday_def month_length_def)
qed

lemma before_month_12: "before_month y 12 + month_length y 12 = 365 + leap y"
  using leap_cases [of y] by (auto simp: before_month_def monthjday_def month_length_def)

lemma month_length_pos: "28 \<le> month_length y m"
  by (simp add: month_length_def)

lemma before_month_mono: "0 \<le> y \<Longrightarrow> 1 \<le> m \<Longrightarrow> m + int k \<le> 12 \<Longrightarrow> before_month y m \<le> before_month y (m + int k)"
proof (induction k)
  case (Suc k)
  then show ?case using before_month_Suc [of y "m + int k"] month_length_pos [of y "m + int k"] by (simp add: ac_simps)
qed simp

lemma month_in_year:
  assumes "0 \<le> y" "1 \<le> m" "m < m'" "m' \<le> 12"
  shows "before_month y m + month_length y m \<le> before_month y m'"
  using before_month_mono [of y "m + 1" "nat (m' - m - 1)"] before_month_Suc [of y m] assms by simp

lemma year_of_date:
  assumes "real_date (y, m, d)"
  shows "1 \<le> day_of_year (y, m, d) \<and> day_of_year (y, m, d) \<le> 365 + leap y"
proof -
  have a: "1 \<le> y" "1 \<le> m" "m \<le> 12" "1 \<le> d" "d \<le> month_length y m" using assms by (simp_all add: real_date_def)
  have "0 \<le> before_month y m" using before_month_mono [of y 1 "nat (m - 1)"] a by simp
  moreover have "before_month y m + month_length y m \<le> 365 + leap y"
    using before_month_12 [of y] month_in_year [of y m 12] month_length_pos [of y 12] a by (cases "m = 12") auto
  ultimately show ?thesis using a by (simp add: day_of_year_eq)
qed

lemma year_days_mono: "1 \<le> y \<Longrightarrow> year_days y \<le> year_days (y + int k)"
proof (induction k)
  case (Suc k)
  then show ?case using year_days_Suc [of "y + int k"] leap_cases [of "y + int k"] by (auto simp: ac_simps)
qed simp

lemma year_days_less: "1 \<le> y \<Longrightarrow> y < y' \<Longrightarrow> year_days y + 365 + leap y \<le> year_days y'"
  using year_days_mono [of "y + 1" "nat (y' - y - 1)"] year_days_Suc [of y] by simp

text \<open>A real date is known by its number.\<close>

lemma day_number_inj:
  assumes t: "real_date t" and u: "real_date u" and e: "day_number t = day_number u"
  shows "t = u"
proof -
  obtain y m d y' m' d' where tu: "t = (y, m, d)" "u = (y', m', d')" by (metis prod_cases3)
  note yt = year_of_date [of y m d] and yu = year_of_date [of y' m' d']
  have ty: "1 \<le> y" "1 \<le> y'" using t u tu by (simp_all add: real_date_def)
  have n: "year_days y + day_of_year (y, m, d) = year_days y' + day_of_year (y', m', d')"
    using e tu by (simp add: day_number_def)
  have y: "y = y'"
    using year_days_less [of y y'] year_days_less [of y' y] ty yt yu t u tu n by (cases y y' rule: linorder_cases) auto
  with n have dm: "before_month y m + d = before_month y m' + d'" by (simp add: day_of_year_eq)
  have r: "1 \<le> m" "m \<le> 12" "1 \<le> d" "d \<le> month_length y m" "1 \<le> m'" "m' \<le> 12" "1 \<le> d'" "d' \<le> month_length y m'"
    using t u tu y by (simp_all add: real_date_def)
  have "m = m'"
    using month_in_year [of y m m'] month_in_year [of y m' m] ty r dm by (cases m m' rule: linorder_cases) auto
  with dm y tu show ?thesis by simp
qed

lemma next_day_real: "real_date t \<Longrightarrow> real_date (next_day t) \<and> day_number (next_day t) = day_number t + 1"
proof (induction t rule: next_day.induct)
  case (1 y m d)
  have r: "1 \<le> y" "1 \<le> m" "m \<le> 12" "1 \<le> d" "d \<le> month_length y m" using 1 by (simp_all add: real_date_def)
  show ?case
    using r month_length_pos [of y "m + 1"] month_length_pos [of "y + 1" 1] before_month_Suc [of y m] before_month_12 [of y]
      year_days_Suc [of y]
    by (auto simp: next_day.simps real_date_def day_number_def day_of_year_eq intro!: order_antisym)
qed

lemma next_days_real:
  "real_date t \<Longrightarrow> real_date ((next_day ^^ n) t) \<and> day_number ((next_day ^^ n) t) = day_number t + int n"
  by (induction n) (auto simp: next_day_real)

section \<open>The steps of add_time\<close>

lemma whole_years_spec:
  "1 \<le> y \<Longrightarrow> 1 \<le> t \<Longrightarrow> whole_years y t = (y', t') \<Longrightarrow>
   1 \<le> y' \<and> year_days y' + t' = year_days y + t \<and> 1 \<le> t' \<and> t' \<le> 365 + leap y'"
proof (induction y t rule: whole_years.induct)
  case (1 y t)
  show ?case
  proof (cases "365 + leap y < t")
    case True
    with 1 show ?thesis using year_days_Suc [of y] by (simp add: whole_years.simps [of y t])
  next
    case False
    with 1 show ?thesis by (simp add: whole_years.simps [of y t])
  qed
qed

lemma find_month_spec:
  "0 < t \<Longrightarrow> \<exists>i \<le> n. find_month n t = Some i \<and> monthjday ! i < t \<and> (\<forall>j. i < j \<and> j \<le> n \<longrightarrow> t \<le> monthjday ! j)"
proof (induction n)
  case (Suc n)
  show ?case
  proof (cases "monthjday ! Suc n \<ge> t")
    case True
    with Suc obtain i where "i \<le> n" "find_month n t = Some i" "monthjday ! i < t" "\<forall>j. i < j \<and> j \<le> n \<longrightarrow> t \<le> monthjday ! j"
      by blast
    with True show ?thesis by (intro exI [of _ i]) (auto simp: le_Suc_eq)
  qed auto
qed (simp add: monthjday_def)

lemma twelve_indices: "i \<le> 11 \<Longrightarrow> i \<in> {0, 1, 2, 3, 4, 5, 6, 7, 8, 9, 10, 11 :: nat}"
  unfolding insert_iff empty_iff by presburger

lemma find_month_11:
  assumes "0 < t" "t \<le> 365"
  obtains i where "i \<le> 11" "find_month 11 t = Some i" "monthjday ! i < t"
    "t \<le> monthjday ! i + (if i = 1 then 28 else if i \<in> {3, 5, 8, 10} then 30 else 31)"
proof -
  obtain i where i: "i \<le> 11" "find_month 11 t = Some i" "monthjday ! i < t" "\<forall>j. i < j \<and> j \<le> 11 \<longrightarrow> t \<le> monthjday ! j"
    using find_month_spec [OF assms(1), of 11] by blast
  have "i \<in> {0, 1, 2, 3, 4, 5, 6, 7, 8, 9, 10, 11}" using i(1) by (rule twelve_indices)
  then have "t \<le> monthjday ! i + (if i = 1 then 28 else if i \<in> {3, 5, 8, 10} then 30 else 31)"
    using i(4) [rule_format, of "Suc i"] assms(2) by (elim insertE) (simp_all add: monthjday_def)
  with i that show ?thesis by blast
qed

lemma date_in_year_spec:
  assumes y: "1 \<le> y" and t: "1 \<le> t" "t \<le> 365 + leap y"
  shows "\<exists>m d. date_in_year y t = Some (y, m, d) \<and> real_date (y, m, d) \<and> day_of_year (y, m, d) = t"
proof (cases "leap y \<noteq> 0 \<and> t = FEB29")
  case True
  then have "leap y = 1" using leap_cases [of y] by simp
  with True y show ?thesis
    using month_length_leap [of y]
    by (simp add: date_in_year_def real_date_def day_of_year_def monthjday_def FEB29_def)
next
  case False
  define t3 where "t3 = (if leap y \<noteq> 0 \<and> FEB29 < t then t - 1 else t)"
  have t3: "0 < t3" "t3 \<le> 365" using t leap_cases [of y] False by (auto simp: t3_def FEB29_def)
  obtain i where i: "i \<le> 11" "find_month 11 t3 = Some i" "monthjday ! i < t3"
    "t3 \<le> monthjday ! i + (if i = 1 then 28 else if i \<in> {3, 5, 8, 10} then 30 else 31)"
    by (rule find_month_11 [OF t3])
  have ii: "i \<in> {0, 1, 2, 3, 4, 5, 6, 7, 8, 9, 10, 11}" using i(1) by (rule twelve_indices)
  have "date_in_year y t = Some (y, int i + 1, t3 - monthjday ! i)"
    using False i(2) unfolding date_in_year_def t3_def [symmetric] Let_def if_not_P [OF False] by simp
  moreover have "real_date (y, int i + 1, t3 - monthjday ! i)"
    using ii i(3,4) y month_length_leap [of y] leap_cases [of y]
    by (elim insertE) (auto simp: real_date_def month_length_def)
  moreover have "day_of_year (y, int i + 1, t3 - monthjday ! i) = t"
    using ii i(3,4) False by (elim insertE) (auto simp: day_of_year_def t3_def FEB29_def monthjday_def split: if_splits)
  ultimately show ?thesis by blast
qed

text \<open>
  The four-year chunks count a leap year for each century. The correction is right for up to a hundred years, and the
  day that is left may be 0.
\<close>

definition whole_chunks :: "int \<Rightarrow> int \<Rightarrow> bool" where
  "whole_chunks y t \<longleftrightarrow> year_days (y + 4 * (t div 1461)) = year_days y + t"

lemma four_years_spec:
  assumes y: "1 \<le> y" and t: "1 \<le> t" "t < 36525"
  shows "\<exists>t'. four_years y t = (y + 4 * (t div 1461), t') \<and> year_days (y + 4 * (t div 1461)) + t' = year_days y + t \<and> 0 \<le> t'"
proof -
  define i where "i = t div 1461"
  define y1 where "y1 = y + 4 * i"
  define q where "q = (y - 1) div 100"
  have i: "0 \<le> i" "i < 25" using t by (simp_all add: i_def div_less_iff_less_mult pos_imp_zdiv_nonneg_iff)
  have r: "t = 1461 * i + t mod 1461" "0 \<le> t mod 1461" by (simp_all add: i_def)
  have q0: "0 \<le> q" "y = 100 * q + 1 + (y - 1) mod 100" "0 \<le> (y - 1) mod 100" "(y - 1) mod 100 < 100"
    using y by (simp_all add: q_def pos_imp_zdiv_nonneg_iff)
  have d4: "(y1 - 1) div 4 = (y - 1) div 4 + i"
    using div_mult_self2 [of 4 "y - 1" i] by (simp add: y1_def algebra_simps)
  have d400: "(z :: int) div 400 = z div 100 div 4" for z using zdiv_zmult2_eq [of 4 z 100] by simp
  have qs: "quot (y1 - 1) 100 = (y1 - 1) div 100" "quot (y - 1) 100 = q" "quot y1 100 = y1 div 100" "quot t 1461 = i"
    using y t i by (simp_all add: quot_pos y1_def q_def i_def)
  have c: "(y1 - 1) div 100 = q \<or> (y1 - 1) div 100 = q + 1 \<and> y1 div 100 = q + 1"
  proof (cases "y1 - 1 < 100 * (q + 1)")
    case True
    then have "(y1 - 1) div 100 = q" using q0 i by (intro int_div_pos_eq [of _ _ _ "y1 - 1 - 100 * q"]) (auto simp: y1_def)
    then show ?thesis ..
  next
    case False
    have "y1 < 100 * (q + 2)" using q0 i by (simp add: y1_def)
    with False have "(y1 - 1) div 100 = q + 1" "y1 div 100 = q + 1"
      by (intro int_div_pos_eq [of _ _ _ "y1 - 1 - 100 * (q + 1)"] int_div_pos_eq [of _ _ _ "y1 - 100 * (q + 1)"]; simp)+
    then show ?thesis by simp
  qed
  define lost where "lost \<longleftrightarrow> (y1 - 1) div 100 \<noteq> q \<and> (q + 1) mod 4 \<noteq> 0"
  have e: "y + i * 4 = y1" "t - i * 1461 = t mod 1461" using r by (simp_all add: y1_def)
  have f: "four_years y t = (y1, t mod 1461 + of_bool lost)"
  proof (cases "i = 0")
    case True
    then show ?thesis using t r by (simp add: four_years_def qs lost_def y1_def q_def)
  next
    case False
    then have "four_years y t = (y1, if (y1 - 1) div 100 \<noteq> q \<and> c_rem (y1 div 100) 4 \<noteq> 0 then t mod 1461 + 1 else t mod 1461)"
      unfolding four_years_def Let_def by (simp add: qs e)
    moreover have "(y1 - 1) div 100 \<noteq> q \<Longrightarrow> c_rem (y1 div 100) 4 = (q + 1) mod 4" using c q0(1) by (auto simp: c_rem_pos)
    ultimately show ?thesis by (cases "(y1 - 1) div 100 = q") (simp_all add: lost_def)
  qed
  have q4: "(q + 1) div 4 = q div 4 + of_bool (4 dvd q + 1)" using div_step [of 4 "q + 1"] by simp
  have yd: "year_days y1 = 365 * (y1 - 1) + ((y - 1) div 4 + i) - (y1 - 1) div 100 + (y1 - 1) div 100 div 4"
    "year_days y = 365 * (y - 1) + (y - 1) div 4 - q + q div 4"
    by (simp_all add: year_days_def d4 d400 q_def)
  from c have "year_days y1 + t mod 1461 + of_bool lost = year_days y + t"
  proof
    assume "(y1 - 1) div 100 = q"
    with yd e show ?thesis by (simp add: lost_def)
  next
    assume "(y1 - 1) div 100 = q + 1 \<and> y1 div 100 = q + 1"
    with yd e q4 show ?thesis by (cases "4 dvd q + 1") (simp_all add: lost_def mod_eq_0_iff_dvd)
  qed
  with f r(2) show ?thesis by (simp add: y1_def [symmetric] i_def [symmetric] add.assoc)
qed

lemma whole_years_0: "whole_years y 0 = (y, 0)"
  by (simp add: whole_years.simps [of y 0] leap_def)

lemma date_in_year_0: "date_in_year y 0 = None"
proof -
  have "n \<le> 11 \<Longrightarrow> find_month n 0 = None" for n
  proof (induction n)
    case (Suc n)
    have "0 \<le> monthjday ! Suc n" using twelve_indices [OF Suc.prems] by (elim insertE) (simp_all add: monthjday_def)
    with Suc show ?case by simp
  qed (simp add: monthjday_def)
  then show ?thesis by (simp add: date_in_year_def FEB29_def Let_def)
qed

lemma add_days_calendar:
  assumes t: "real_date (y, m, d)" and n: "0 \<le> n" and D: "day_of_year (y, m, d) + n < 36525"
  shows "add_days y m d n =
    (if whole_chunks y (day_of_year (y, m, d) + n) then None else Some ((next_day ^^ nat n) (y, m, d)))"
proof -
  define D where "D = day_of_year (y, m, d) + n"
  have y: "1 \<le> y" and m: "1 \<le> m" "m \<le> 12" using t by (simp_all add: real_date_def)
  have D1: "1 \<le> D" using year_of_date [OF t] n by (simp add: D_def)
  obtain y1 t1 where f: "four_years y D = (y1, t1)" "y1 = y + 4 * (D div 1461)" "year_days y1 + t1 = year_days y + D" "0 \<le> t1"
    using four_years_spec [OF y D1] D by (auto simp: D_def)
  have "rd monthjday (nat (m - 1)) = Some (monthjday ! nat (m - 1))" using m by (intro rd_Some) (simp add: monthjday_def)
  then have a: "add_days y m d n = (case whole_years y1 t1 of (y2, t2) \<Rightarrow> date_in_year y2 t2)"
    using m f(1) by (auto simp: add_days_def D_def day_of_year_def Let_def ac_simps)
  show ?thesis
  proof (cases "t1 = 0")
    case True
    with f have "whole_chunks y D" by (simp add: whole_chunks_def)
    with True a show ?thesis by (simp add: whole_years_0 date_in_year_0 D_def)
  next
    case False
    with f have nc: "\<not> whole_chunks y D" by (simp add: whole_chunks_def)
    obtain y2 t2 where w: "whole_years y1 t1 = (y2, t2)" by (cases "whole_years y1 t1")
    have "0 \<le> D div 1461" using D1 by (simp add: pos_imp_zdiv_nonneg_iff)
    with y f(2) have y1: "1 \<le> y1" by simp
    have s: "1 \<le> y2" "year_days y2 + t2 = year_days y1 + t1" "1 \<le> t2" "t2 \<le> 365 + leap y2"
      using whole_years_spec [OF y1 _ w] False f(4) by simp_all
    then obtain m' d' where r: "date_in_year y2 t2 = Some (y2, m', d')" "real_date (y2, m', d')" "day_of_year (y2, m', d') = t2"
      using date_in_year_spec by blast
    have "day_number (y2, m', d') = day_number (y, m, d) + n" using r s f by (simp add: day_number_def D_def)
    then have "(y2, m', d') = (next_day ^^ nat n) (y, m, d)"
      using next_days_real [OF t, of "nat n"] r(2) n by (intro day_number_inj) simp_all
    with a w r(1) nc show ?thesis by (simp add: D_def)
  qed
qed

section \<open>The verification time\<close>

text \<open>The increments that the clock units count, in hours.\<close>

definition clock_hours :: "int \<Rightarrow> int \<Rightarrow> int option" where
  "clock_hours unit k =
     (if unit = HOUR then Some k else if unit = HOUR3 then Some (3 * k) else if unit = HOUR6 then Some (6 * k)
      else if unit = HOUR12 then Some (12 * k) else if unit = DAY then Some (24 * k)
      else if unit = MINUTE then Some (k div 60) else if unit = SECOND then Some (k div 3600) else None)"

lemma if_SomeD: "(if b then Some x else r) = Some y \<Longrightarrow> b \<and> y = x \<or> r = Some y"
  by (cases b) simp_all

lemma clock_hours_cases:
  assumes "clock_hours unit k = Some hs"
  shows "unit = HOUR \<and> hs = k \<or> unit = HOUR3 \<and> hs = 3 * k \<or> unit = HOUR6 \<and> hs = 6 * k \<or> unit = HOUR12 \<and> hs = 12 * k \<or>
    unit = DAY \<and> hs = 24 * k \<or> unit = MINUTE \<and> hs = k div 60 \<or> unit = SECOND \<and> hs = k div 3600"
  using assms unfolding clock_hours_def by - ((drule if_SomeD, elim disjE, simp)+, simp)

lemma clock_unit_simps:
  "clock_unit HOUR k h = (DAY, quot (k + h) 24, c_rem (k + h) 24)"
  "clock_unit HOUR3 k h = (DAY, quot (k * 3 + h) 24, c_rem (k * 3 + h) 24)"
  "clock_unit HOUR6 k h = (DAY, quot (k * 6 + h) 24, c_rem (k * 6 + h) 24)"
  "clock_unit HOUR12 k h = (DAY, quot (k * 12 + h) 24, c_rem (k * 12 + h) 24)"
  "clock_unit DAY k h = (DAY, k, h)"
  "clock_unit MINUTE k h = (DAY, quot (quot k 60 + h) 24, c_rem (quot k 60 + h) 24)"
  "clock_unit SECOND k h = (DAY, quot (quot (quot k 60) 60 + h) 24, c_rem (quot (quot k 60) 60 + h) 24)"
  by (simp_all add: clock_unit_def in_hours_def time_units Let_def)

lemma clock_unit_hours:
  assumes "clock_hours unit k = Some hs" and "0 \<le> k" and "0 \<le> h" and "h < 24"
  shows "clock_unit unit k h = (DAY, (h + hs) div 24, (h + hs) mod 24)" and "0 \<le> hs"
proof -
  have s: "quot (quot k 60) 60 = k div 3600" using assms(2) zdiv_zmult2_eq [of 60 k 60] by (simp add: quot_pos pos_imp_zdiv_nonneg_iff)
  have k: "0 \<le> k div 60" "0 \<le> k div 3600" using assms(2) by (simp_all add: pos_imp_zdiv_nonneg_iff)
  show "0 \<le> hs" using clock_hours_cases [OF assms(1)] assms(2) k by (elim disjE conjE) simp_all
  show "clock_unit unit k h = (DAY, (h + hs) div 24, (h + hs) mod 24)"
    using clock_hours_cases [OF assms(1)] assms(2-4) k s
    by (elim disjE conjE) (simp_all add: clock_unit_simps quot_pos c_rem_pos ac_simps)
qed

lemma time_increment_ge: "0 \<le> time_increment g"
  by (simp add: time_increment_def Let_def)

lemma verf_time_clock:
  assumes g: "mem_read pds 0 25 = Some g" "PDS_date4 g = (y, m, d, h)"
    and h: "h < 24" "clock_hours (uint (g ! 17)) (time_increment g) = Some hs" and "0 < time_increment g"
  shows "verf_time pds = map_option (\<lambda>(y1, m1, d1). (0, (y1, m1, d1, (h + hs) mod 24))) (add_days y m d ((h + hs) div 24))"
proof -
  have "0 \<le> h" using g(2) by (auto simp: PDS_date4_def)
  note c = clock_unit_hours(1) [OF h(2) time_increment_ge this h(1)]
  have "uint (g ! 17) \<notin> {YEAR, DECADE, CENTURY, NORMAL, MONTH}" using h(2) by (auto simp: clock_hours_def time_units split: if_splits)
  with g c assms(5) show ?thesis by (simp add: verf_time_def add_time_def)
qed

lemma verf_days:
  assumes "mem_read pds 0 25 = Some g" "PDS_date4 g = (y, m, d, h)" "real_date (y, m, d)" "h < 24"
    and "clock_hours (uint (g ! 17)) (time_increment g) = Some hs" and "day_of_year (y, m, d) + (h + hs) div 24 < 36525"
  shows "verf_time pds =
    (if whole_chunks y (day_of_year (y, m, d) + (h + hs) div 24) then None
     else case (next_day ^^ nat ((h + hs) div 24)) (y, m, d) of (y1, m1, d1) \<Rightarrow> Some (0, (y1, m1, d1, (h + hs) mod 24)))"
proof (cases "time_increment g = 0")
  case True
  have h: "0 \<le> h" using assms(2) by (auto simp: PDS_date4_def)
  have "hs = 0" using True assms(5) by (auto simp: clock_hours_def split: if_splits)
  moreover have "\<not> whole_chunks y (day_of_year (y, m, d))"
    using year_of_date [OF assms(3)] leap_cases [of y] by (auto simp: whole_chunks_def div_pos_pos_trivial)
  ultimately show ?thesis using True h assms by (simp add: verf_time_def)
next
  case False
  then have k: "0 < time_increment g" using time_increment_ge [of g] by simp
  have h: "0 \<le> h" using assms(2) by (auto simp: PDS_date4_def)
  have "0 \<le> (h + hs) div 24"
    using clock_unit_hours(2) [OF assms(5) time_increment_ge h assms(4)] h by (simp add: pos_imp_zdiv_nonneg_iff)
  note a = add_days_calendar [OF assms(3) this assms(6)]
  show ?thesis unfolding verf_time_clock [OF assms(1,2,4,5) k] a by (simp split: prod.split)
qed

lemma verf_time_bad:
  assumes "mem_read pds 0 25 = Some g" "PDS_date4 g = (y, m, d, h)" "h < 24"
    and "clock_hours (uint (g ! 17)) (time_increment g) = Some hs" and k: "0 < time_increment g"
    and "m < 1 \<or> 12 < m \<or> real_date (y, m, d) \<and> day_of_year (y, m, d) + (h + hs) div 24 < 36525 \<and>
      whole_chunks y (day_of_year (y, m, d) + (h + hs) div 24)"
  shows "verf_time pds = None"
  using assms(6)
proof (elim disjE)
  assume "m < 1"
  then show ?thesis by (simp add: verf_time_clock [OF assms(1-4) k] add_days_def)
next
  assume "12 < m"
  then have "rd monthjday (nat (m - 1)) = None" by (simp add: rd_def monthjday_def)
  with \<open>12 < m\<close> show ?thesis by (simp add: verf_time_clock [OF assms(1-4) k] add_days_def)
next
  assume a: "real_date (y, m, d) \<and> day_of_year (y, m, d) + (h + hs) div 24 < 36525 \<and>
    whole_chunks y (day_of_year (y, m, d) + (h + hs) div 24)"
  then show ?thesis using verf_days [OF assms(1,2) _ assms(3,4)] by simp
qed

text \<open>
  C21: The verification time of a GRIB edition 1 message whose forecast is counted in seconds, minutes, hours, multiples
  of hours, or days: the date as many days later, one step of the calendar after the other, and the hour of the day.
  Only where the days up to the verification make whole four-year periods there is no result but undefined behaviour: an
  array is read before its first element. The verification is less than 100 years after the beginning of the year of
  reference.
\<close>

theorem verf_time_calendar:
  assumes "mem_read pds 0 25 = Some g" "PDS_date4 g = (y, m, d, h)" "real_date (y, m, d)" "h < 24"
    and "clock_hours (uint (g ! 17)) (time_increment g) = Some hs" and "day_of_year (y, m, d) + (h + hs) div 24 < 36525"
  shows "verf_time pds =
    (if whole_chunks y (day_of_year (y, m, d) + (h + hs) div 24) then None
     else case (next_day ^^ nat ((h + hs) div 24)) (y, m, d) of (y1, m1, d1) \<Rightarrow> Some (0, (y1, m1, d1, (h + hs) mod 24)))"
  using assms by (rule verf_days)

theorem verf_time_calendar_witness:
  "verf_time [0, 0, 28, 2, 7, 96, 3, 128, 11, 100, 1, 244, 12, 2, 28, 18, 0, 1, 36, 0, 0, 0, 0, 0, 21] = Some (0, (2012, 3, 1, 6)) \<and>
   verf_time [0, 0, 28, 2, 7, 96, 3, 128, 11, 100, 1, 244, 9, 1, 1, 0, 0, 2, 5, 180, 10, 0, 0, 0, 21] = None"
proof
  let ?g = "[0, 0, 28, 2, 7, 96, 3, 128, 11, 100, 1, 244, 12, 2, 28, 18, 0, 1, 36, 0, 0, 0, 0, 0, 21] :: byte list"
  have a: "mem_read ?g 0 25 = Some ?g" "PDS_date4 ?g = (2012, 2, 28, 18)" "real_date (2012, 2, 28)"
    "clock_hours (uint (?g ! 17)) (time_increment ?g) = Some 36" "day_of_year (2012, 2, 28) + (18 + 36) div 24 < 36525"
    "\<not> whole_chunks 2012 (day_of_year (2012, 2, 28) + (18 + 36) div 24)"
    by (simp_all add: mem_read_def PDS_date4_def PDS_Year4_def real_date_def month_length_def clock_hours_def time_increment_def HOUR_def
        day_of_year_def monthjday_def leap_def c_rem_def quot_def whole_chunks_def)
  have n: "(next_day ^^ 2) (2012, 2, 28) = (2012, 3, 1)" by (simp add: numeral_2_eq_2 next_day.simps month_length_def)
  show "verf_time ?g = Some (0, (2012, 3, 1, 6))"
    using verf_time_calendar [OF a(1-3) _ a(4,5)] a(6) n by simp
next
  let ?g = "[0, 0, 28, 2, 7, 96, 3, 128, 11, 100, 1, 244, 9, 1, 1, 0, 0, 2, 5, 180, 10, 0, 0, 0, 21] :: byte list"
  have a: "mem_read ?g 0 25 = Some ?g" "PDS_date4 ?g = (2009, 1, 1, 0)" "real_date (2009, 1, 1)"
    "clock_hours (uint (?g ! 17)) (time_increment ?g) = Some 35040" "day_of_year (2009, 1, 1) + (0 + 35040) div 24 < 36525"
    "whole_chunks 2009 (day_of_year (2009, 1, 1) + (0 + 35040) div 24)"
    by (simp_all add: mem_read_def PDS_date4_def PDS_Year4_def real_date_def month_length_def clock_hours_def time_increment_def time_units
        day_of_year_def monthjday_def leap_def c_rem_def quot_def whole_chunks_def year_days_def)
  show "verf_time ?g = None"
    using verf_time_calendar [OF a(1-3) _ a(4,5)] a(6) by simp
qed

end
