(* ===== verification/Wmo.thy ===== *)
theory Wmo
  imports Grib_Id Wgrib_Time
begin

text \<open>
  The WMO heading parser of \<open>wmo_header.c\<close>. Text is read from a memory object \<open>m\<close> at an offset, as
  the pointers of the code do; a read beyond the object is \<open>None\<close>. The file \<open>gribtab\<close>, which
  \<open>k5toa\<close> may read, and \<open>mktime\<close> are the record \<open>wgrib_fns\<close>.
\<close>

section \<open>Character scanning\<close>

definition is_space :: "byte \<Rightarrow> bool" where
  "is_space b \<longleftrightarrow> b = 32 \<or> (9 \<le> b \<and> b \<le> 13)"

definition strlen_at :: "byte list \<Rightarrow> nat \<Rightarrow> nat option" where
  "strlen_at m p =
     (let n = length (takeWhile (\<lambda>b. b \<noteq> 0) (drop p m)) in if p + n < length m then Some n else None)"

text \<open>\<open>get_line\<close>: the offset behind the first newline among the next \<open>nchar + 1\<close> bytes, if any.\<close>

definition get_line :: "byte list \<Rightarrow> nat \<Rightarrow> int \<Rightarrow> nat option option" where
  "get_line m p nchar =
     (let i = length (takeWhile (\<lambda>b. b \<noteq> 10) (take (nat nchar) (drop p m)))
      in case rd m (p + i) of
           None \<Rightarrow> None
         | Some b \<Rightarrow> Some (if b = 10 then Some (p + i + 1) else None))"

text \<open>\<open>get_wstr\<close>: skips blanks and appends at most \<open>nchar\<close> alphanumeric characters to \<open>spos\<close>.\<close>

definition get_wstr :: "byte list \<Rightarrow> nat \<Rightarrow> cstr \<Rightarrow> nat \<Rightarrow> (nat \<times> cstr) option option" where
  "get_wstr m p spos nchar =
     (case strlen_at m p of
        None \<Rightarrow> None
      | Some n \<Rightarrow>
          let i = length (takeWhile (\<lambda>b. b = 32) (take n (drop p m)))
          in if i < n
             then let w = takeWhile is_alnum (take nchar (drop (p + i) m))
                  in Some (Some (p + i + length w, spos @ w))
             else Some None)"

text \<open>\<open>sscanf\<close> of \<open>%d\<close> on a run of digits: saturation of \<open>strtol\<close>, then the low 32 bits.\<close>

definition digits_value :: "byte list \<Rightarrow> int" where
  "digits_value ds = foldl (\<lambda>v b. 10 * v + (uint b - 48)) 0 ds"

definition scan_int :: "byte list \<Rightarrow> int" where
  "scan_int ds = i32 (min (digits_value ds) (2 ^ 63 - 1))"

section \<open>The heading\<close>

record wmo_header_t =
  hdr_TT :: cstr
  hdr_AA :: cstr
  hdr_ii :: int
  hdr_CCCC :: cstr
  hdr_PIL :: cstr
  hdr_DDHHMM :: cstr
  hdr_BBB :: cstr
  hdr_model :: cstr

definition init_wmo_header :: wmo_header_t where
  "init_wmo_header = \<lparr>hdr_TT = [], hdr_AA = [], hdr_ii = 0, hdr_CCCC = [], hdr_PIL = [], hdr_DDHHMM = [],
     hdr_BBB = [], hdr_model = []\<rparr>"

text \<open>\<open>gribtab\<close> is the result of opening the file of that name for the k-th time.\<close>

record wgrib_fns =
  gribtab :: "nat \<Rightarrow> byte list option"
  mktime :: "int \<times> int \<times> int \<times> int \<times> int \<Rightarrow> int"

text \<open>The five words of the first line, in order; the inner \<open>None\<close> is the return of -1.\<close>

definition wmo_words :: "byte list \<Rightarrow> (nat \<times> wmo_header_t) option option" where
  "wmo_words m =
     (case get_wstr m 0 [] 2 of None \<Rightarrow> None | Some None \<Rightarrow> Some None | Some (Some (p1, TT)) \<Rightarrow>
      (case get_wstr m p1 [] 2 of None \<Rightarrow> None | Some None \<Rightarrow> Some None | Some (Some (p2, AA)) \<Rightarrow>
       (let ds = takeWhile is_digit (drop p2 m);
            ii = (if ds = [] then 0 else scan_int ds); p3 = p2 + length ds
        in case get_wstr m p3 [] 4 of None \<Rightarrow> None | Some None \<Rightarrow> Some None | Some (Some (p4, CCCC)) \<Rightarrow>
       (case get_wstr m p4 [] 6 of None \<Rightarrow> None | Some None \<Rightarrow> Some None | Some (Some (p5, DDHHMM)) \<Rightarrow>
        (let h = init_wmo_header\<lparr>hdr_TT := TT, hdr_AA := AA, hdr_ii := ii, hdr_CCCC := CCCC, hdr_DDHHMM := DDHHMM\<rparr>
         in case get_wstr m p5 [] 9 of
              None \<Rightarrow> None
            | Some None \<Rightarrow> Some (Some (p5, h))
            | Some (Some (p6, BBB)) \<Rightarrow> Some (Some (p6, h\<lparr>hdr_BBB := BBB\<rparr>)))))))"

text \<open>
  Metadata of a GRIB edition 1 message. The two name calls are arguments of one \<open>sprintf\<close>, whose order of
  evaluation C leaves open: \<open>rtl\<close>.
\<close>

definition both_names :: "bool \<Rightarrow> byte \<Rightarrow> byte \<Rightarrow> statics \<Rightarrow> (cstr \<times> cstr \<times> statics) option" where
  "both_names rtl c model st =
     (if rtl
      then (case s_pds_model c model st of None \<Rightarrow> None | Some (r2, st1) \<Rightarrow>
              (case s_pds_center c st1 of None \<Rightarrow> None | Some (r1, st2) \<Rightarrow> Some (deref st2 r1, deref st2 r2, st2)))
      else (case s_pds_center c st of None \<Rightarrow> None | Some (r1, st1) \<Rightarrow>
              (case s_pds_model c model st1 of None \<Rightarrow> None | Some (r2, st2) \<Rightarrow> Some (deref st2 r1, deref st2 r2, st2))))"

definition grib1_meta ::
  "wgrib_fns \<Rightarrow> bool \<Rightarrow> byte list \<Rightarrow> nat \<Rightarrow> statics \<Rightarrow> (cstr \<times> cstr \<times> statics) option" where
  "grib1_meta W rtl m p st = do {
     g \<leftarrow> mem_read m p 33;
     let year0 = uint (g ! 20);
     let century = uint (if year0 > 0 then g ! 32 - 1 else g ! 32);
     let YYYY = century * 100 + year0;
     (vtime, vY, vM, vD, vH) \<leftarrow> verf_time (drop (p + 8) m);
     let time1 = mktime W (YYYY - 1900, uint (g ! 21) - 1, uint (g ! 22), uint (g ! 23), uint (g ! 24));
     let time2 = mktime W (vY - 1900, vM - 1, vD, vH, 0);
     (center, model, st0) \<leftarrow> both_names rtl (g ! 12) (g ! 13) st;
     (parm, u) \<leftarrow> k5toa (gribtab W) (drop (p + 8) m) (user_names st0);
     let st1 = st0\<lparr>user_names := u\<rparr>;
     meta \<leftarrow> fits_buf 256 (str ''grib/'' @ center @ str ''/'' @ model @ str ''/#'' @ dec_pad 3 (uint (g ! 14)) @ str ''/'' @
       dec_pad 4 YYYY @ dec_pad 2 (uint (g ! 21)) @ dec_pad 2 (uint (g ! 22)) @ dec_pad 2 (uint (g ! 23)) @
       dec_pad 2 (uint (g ! 24)) @ str ''/F'' @ dec_pad 3 (i32 (quot (time2 - time1) 3600)) @ str ''/'' @
       parm @ str ''/'' @ levels (uint (g ! 17)) (uint (g ! 18)) (uint (g ! 19)) @ str ''/ '');
     (r, st2) \<leftarrow> s_pds_model (g ! 12) (g ! 13) st1;
     Some (meta, str ''/m'' @ deref st2 r, st2)
   }"

text \<open>The AWIPS identifier on the second line: exactly six characters, trailing space padding removed.\<close>

fun back_over_controls :: "byte list \<Rightarrow> nat \<Rightarrow> nat \<Rightarrow> nat" where
  "back_over_controls m lo p = (if lo < p \<and> sint (m ! p) < 32 then back_over_controls m lo (p - 1) else p)"

declare back_over_controls.simps [simp del]

fun trim_pil :: "byte list \<Rightarrow> nat \<Rightarrow> nat" where
  "trim_pil line n = (if 3 < n \<and> is_space (line ! (n - 1)) then trim_pil line (n - 1) else n)"

declare trim_pil.simps [simp del]

definition pil_line :: "byte list \<Rightarrow> nat \<Rightarrow> int \<Rightarrow> cstr option" where
  "pil_line m p0 prod_size =
     (case mem_read m p0 4 of
        None \<Rightarrow> None
      | Some four \<Rightarrow>
          let p = (if four = str ''^NMC'' then p0 + 4 else p0)
          in case rd m p of
            None \<Rightarrow> None
          | Some c \<Rightarrow>
              if \<not> is_alnum c then Some []
              else case get_line m p (i32 (prod_size - int p)) of
                None \<Rightarrow> None
              | Some None \<Rightarrow> Some []
              | Some (Some q) \<Rightarrow>
                  let llen = back_over_controls m p (q - 1) - p + 1
                  in if llen \<noteq> 6 then Some []
                     else let line = take 6 (drop p m);
                              tpil = takeWhile (\<lambda>b. b \<noteq> 0) (take (trim_pil line 6) line)
                          in Some (if list_all is_alnum tpil \<and> \<not> list_all is_digit tpil then tpil else []))"

definition wmo_id :: "wmo_header_t \<Rightarrow> cstr" where
  "wmo_id h = hdr_TT h @ hdr_AA h @ dec_pad 2 (hdr_ii h) @ str '' '' @ hdr_CCCC h @ str '' '' @ hdr_DDHHMM h @
     (if hdr_BBB h = [] then [] else str '' '' @ hdr_BBB h) @
     (if hdr_PIL h = [] then [] else str '' /p'' @ hdr_PIL h) @
     (if hdr_model h = [] then [] else str '' '' @ hdr_model h)"

text \<open>The output arguments: what is written to \<open>wmohead\<close>, \<open>wmometa\<close> and \<open>*metaoff\<close>, if anything.\<close>

record wmo_out =
  w_head :: "cstr option"
  w_meta :: "cstr option"
  w_off :: "int option"

definition wmo_finish :: "wmo_header_t \<Rightarrow> wmo_out \<Rightarrow> statics \<Rightarrow> int \<times> wmo_out \<times> statics" where
  "wmo_finish h out st =
     (let wmoid = wmo_id h
      in if 128 < length wmoid \<or> length wmoid < 1 then (- 1, out, st) else (0, out\<lparr>w_head := Some wmoid\<rparr>, st))"

definition wmo_header ::
  "wgrib_fns \<Rightarrow> bool \<Rightarrow> byte list \<Rightarrow> int \<Rightarrow> statics \<Rightarrow> (int \<times> wmo_out \<times> statics) option" where
  "wmo_header W rtl m prod_size st =
     (let out = \<lparr>w_head = None, w_meta = None, w_off = None\<rparr>
      in case wmo_words m of
           None \<Rightarrow> None
         | Some None \<Rightarrow> Some (- 1, out, st)
         | Some (Some (p, h)) \<Rightarrow>
             (case get_line m p 30 of
                None \<Rightarrow> None
              | Some None \<Rightarrow> Some (- 1, out, st)
              | Some (Some q) \<Rightarrow>
                  (case mem_read m q 4 of
                     None \<Rightarrow> None
                   | Some four \<Rightarrow>
                       if four = str ''GRIB''
                       then (case rd m (q + 7) of
                               None \<Rightarrow> None
                             | Some v \<Rightarrow>
                                 if v = 0 \<or> v = 1
                                 then (case grib1_meta W rtl m q st of
                                         None \<Rightarrow> None
                                       | Some (meta, model, st1) \<Rightarrow>
                                           Some (wmo_finish (h\<lparr>hdr_model := model\<rparr>) (out\<lparr>w_meta := Some meta\<rparr>) st1))
                                 else if v = 2
                                 then Some (wmo_finish h (out\<lparr>w_meta := Some (str ''grib2/''), w_off := Some (int q)\<rparr>) st)
                                 else Some (wmo_finish h (out\<lparr>w_meta := Some (str ''gribx/'')\<rparr>) st))
                       else (case pil_line m q prod_size of
                               None \<Rightarrow> None
                             | Some pil \<Rightarrow> Some (wmo_finish (h\<lparr>hdr_PIL := pil\<rparr>) out st)))))"


section \<open>Scanning lemmas\<close>

lemma not_alnum_0 [simp]: "\<not> is_alnum 0"
  by (simp add: is_alnum_def is_digit_def)

lemma alnum_not_blank [simp]: "is_alnum c \<Longrightarrow> c \<noteq> 32 \<and> c \<noteq> 0"
  by (auto simp: is_alnum_def is_digit_def)

lemma digit_alnum [simp]: "is_digit c \<Longrightarrow> is_alnum c"
  by (simp add: is_alnum_def)

lemma takeWhile_until: "list_all P w \<Longrightarrow> r = [] \<or> \<not> P (hd r) \<Longrightarrow> takeWhile P (w @ r) = w"
  by (induction w) (cases r, auto)

lemma takeWhile_le: "length (takeWhile P xs) \<le> length xs"
  by (simp add: length_takeWhile_le)

text \<open>A C string ends in the object when a NUL follows.\<close>

lemma strlen_at_Some: "0 \<in> set (drop p m) \<Longrightarrow> strlen_at m p = Some (length (takeWhile (\<lambda>b. b \<noteq> 0) (drop p m)))"
proof -
  assume z: "0 \<in> set (drop p m)"
  then have "p < length m" by (cases "p < length m") auto
  moreover have "length (takeWhile (\<lambda>b. b \<noteq> 0) (drop p m)) < length (drop p m)"
    using z by (metis (mono_tags) takeWhile_eq_all_conv length_takeWhile_le le_neq_implies_less takeWhile_eq_take take_all order_refl)
  ultimately show ?thesis by (simp add: strlen_at_def Let_def)
qed

lemma get_wstr_word:
  assumes d: "drop p m = bl @ w @ r" and bl: "list_all (\<lambda>b. b = 32) bl" and w: "list_all is_alnum w" "w \<noteq> []"
    and n: "length w = n \<or> length w < n \<and> r \<noteq> [] \<and> \<not> is_alnum (hd r)" and z: "0 \<in> set r"
  shows "get_wstr m p [] n = Some (Some (p + length bl + length w, w))"
proof -
  have z': "0 \<in> set (drop p m)" using z d by simp
  obtain c w' where cw: "w = c # w'" using w(2) by (cases w) auto
  have c: "c \<noteq> 32" "c \<noteq> 0" using w(1) cw by auto
  have nz: "list_all (\<lambda>b. b \<noteq> 0) (bl @ [c])" using bl c by (auto simp: list_all_iff)
  have len: "length bl < length (takeWhile (\<lambda>b. b \<noteq> 0) (drop p m))"
    using nz unfolding d cw by (simp add: list_all_iff)
  have i: "length (takeWhile (\<lambda>b. b = 32) (take k (drop p m))) = length bl" if "length bl < k" for k
  proof -
    have "take k (drop p m) = bl @ take (k - length bl) (w @ r)" using that d by simp
    moreover have "take (k - length bl) (w @ r) \<noteq> []" "hd (take (k - length bl) (w @ r)) = c"
      using that cw by (simp_all add: take_Cons')
    ultimately show ?thesis using takeWhile_until [OF bl, of "take (k - length bl) (w @ r)"] c by simp
  qed
  have dp: "drop (p + length bl) m = w @ r" using d by (metis drop_drop add.commute append_eq_conv_conj)
  have tw: "takeWhile is_alnum (take n (drop (p + length bl) m)) = w"
  proof -
    have "take n (w @ r) = w @ take (n - length w) r" using n by auto
    moreover have "take (n - length w) r = [] \<or> \<not> is_alnum (hd (take (n - length w) r))"
      using n by (cases r) (auto simp: take_Cons')
    ultimately show ?thesis unfolding dp using takeWhile_until [OF w(1)] by simp
  qed
  show ?thesis
    using strlen_at_Some [OF z'] len i [OF len] tw by (simp add: get_wstr_def Let_def)
qed

text \<open>No word: the next character is neither a blank nor alphanumeric.\<close>

lemma get_wstr_empty:
  assumes d: "drop p m = c # r" and c: "c \<noteq> 32" "c \<noteq> 0" "\<not> is_alnum c" and z: "0 \<in> set r"
  shows "get_wstr m p [] n = Some (Some (p, []))"
proof -
  have z': "0 \<in> set (drop p m)" using z d by simp
  have "takeWhile is_alnum (take n (drop p m)) = []" using d c by (cases n) simp_all
  moreover have "takeWhile (\<lambda>b. b = 32) (take k (drop p m)) = []" for k using d c by (cases k) simp_all
  moreover have "0 < length (takeWhile (\<lambda>b. b \<noteq> 0) (drop p m))" using d c by simp
  ultimately show ?thesis
    using strlen_at_Some [OF z'] by (simp add: get_wstr_def Let_def)
qed

lemma get_line_found:
  assumes d: "drop p m = x @ 10 # r" and x: "10 \<notin> set x" and n: "int (length x) \<le> nchar"
  shows "get_line m p nchar = Some (Some (p + length x + 1))"
proof -
  have la: "list_all (\<lambda>b. b \<noteq> 10) x" using x by (auto simp: list_all_iff)
  have tk: "take (nat nchar) (drop p m) = x @ take (nat nchar - length x) (10 # r)"
    using d n by (simp add: nat_le_iff)
  have i: "length (takeWhile (\<lambda>b. b \<noteq> 10) (take (nat nchar) (drop p m))) = length x"
    unfolding tk using takeWhile_until [OF la, of "take (nat nchar - length x) (10 # r)"]
    by (cases "nat nchar - length x") (simp_all add: takeWhile_eq_all_conv [THEN iffD2] list_all_iff)
  have "length m - p = length x + 1 + length r" using arg_cong [OF d, of length] by simp
  then have lt: "p + length x < length m" by simp
  moreover have "m ! (p + length x) = 10"
  proof -
    have "drop p m ! length x = 10" by (simp add: d)
    then show ?thesis using lt by (simp add: nth_drop)
  qed
  ultimately show ?thesis using i by (simp add: get_line_def Let_def rd_def)
qed


section \<open>Properties\<close>

text \<open>What a heading must satisfy to be read back: words of the right length, digits where the code asks.\<close>

definition heading_ok :: "cstr \<Rightarrow> cstr \<Rightarrow> byte list \<Rightarrow> cstr \<Rightarrow> cstr \<Rightarrow> bool" where
  "heading_ok TT AA ii CCCC DDHHMM \<longleftrightarrow>
     length TT = 2 \<and> length AA = 2 \<and> length ii = 2 \<and> length CCCC = 4 \<and> length DDHHMM = 6 \<and>
     list_all is_alnum (TT @ AA @ CCCC @ DDHHMM) \<and> list_all is_digit ii"

definition heading_line :: "cstr \<Rightarrow> cstr \<Rightarrow> byte list \<Rightarrow> cstr \<Rightarrow> cstr \<Rightarrow> byte list" where
  "heading_line TT AA ii CCCC DDHHMM = TT @ AA @ ii @ [32] @ CCCC @ [32] @ DDHHMM @ [13, 13, 10]"

lemma wmo_words_heading:
  assumes ok: "heading_ok TT AA ii CCCC DDHHMM" and m: "m = heading_line TT AA ii CCCC DDHHMM @ body" and z: "0 \<in> set body"
  shows "wmo_words m = Some (Some (18, init_wmo_header\<lparr>hdr_TT := TT, hdr_AA := AA, hdr_ii := scan_int ii,
      hdr_CCCC := CCCC, hdr_DDHHMM := DDHHMM\<rparr>))" "drop 18 m = [13, 13] @ 10 # body"
proof -
  note o = ok [unfolded heading_ok_def]
  note M = m [unfolded heading_line_def]
  have l: "length TT = 2" "length AA = 2" "length ii = 2" "length CCCC = 4" "length DDHHMM = 6" using o by simp_all
  have la: "list_all is_alnum TT" "list_all is_alnum AA" "list_all is_alnum CCCC" "list_all is_alnum DDHHMM" using o by simp_all
  have ne: "TT \<noteq> []" "AA \<noteq> []" "CCCC \<noteq> []" "DDHHMM \<noteq> []" "ii \<noteq> []" using l by auto
  have w1: "get_wstr m 0 [] 2 = Some (Some (2, TT))"
    using get_wstr_word [of 0 m "[]" TT "AA @ ii @ [32] @ CCCC @ [32] @ DDHHMM @ [13, 13, 10] @ body" 2] la ne l M z by simp
  have w2: "get_wstr m 2 [] 2 = Some (Some (4, AA))"
    using get_wstr_word [of 2 m "[]" AA "ii @ [32] @ CCCC @ [32] @ DDHHMM @ [13, 13, 10] @ body" 2] la ne l M z by simp
  have d4: "drop 4 m = ii @ 32 # CCCC @ [32] @ DDHHMM @ [13, 13, 10] @ body" using M l by simp
  have "list_all is_digit ii" using o by simp
  then have tw: "takeWhile is_digit (drop 4 m) = ii"
    unfolding d4 by (rule takeWhile_until) (simp add: is_digit_def)
  have w3: "get_wstr m 6 [] 4 = Some (Some (11, CCCC))"
    using get_wstr_word [of 6 m "[32]" CCCC "[32] @ DDHHMM @ [13, 13, 10] @ body" 4] la ne l M z by simp
  have w4: "get_wstr m 11 [] 6 = Some (Some (18, DDHHMM))"
    using get_wstr_word [of 11 m "[32]" DDHHMM "[13, 13, 10] @ body" 6] la ne l M z by simp
  show d18: "drop 18 m = [13, 13] @ 10 # body" using M l by simp
  have w5: "get_wstr m 18 [] 9 = Some (Some (18, []))"
    by (rule get_wstr_empty [of _ _ 13 "13 # 10 # body"]) (use d18 z in \<open>simp_all add: is_alnum_def is_digit_def\<close>)
  show "wmo_words m = Some (Some (18, init_wmo_header\<lparr>hdr_TT := TT, hdr_AA := AA, hdr_ii := scan_int ii,
      hdr_CCCC := CCCC, hdr_DDHHMM := DDHHMM\<rparr>))"
    using w1 w2 tw w3 w4 w5 l ne by (simp add: wmo_words_def Let_def init_wmo_header_def)
qed

lemma is_digit_uint: "is_digit b \<Longrightarrow> 48 \<le> uint b \<and> uint b \<le> 57"
  by (simp add: is_digit_def word_le_def)

lemma two_digits:
  assumes "list_all is_digit ii" "length ii = 2"
  shows "dec_pad 2 (scan_int ii) = ii"
proof -
  obtain a b where ii: "ii = [a, b]" using assms(2) by (auto simp: numeral_2_eq_2 length_Suc_conv)
  have d: "48 \<le> uint a" "uint a \<le> 57" "48 \<le> uint b" "uint b \<le> 57"
    using assms(1) is_digit_uint [of a] is_digit_uint [of b] by (simp_all add: ii)
  define x where "x = nat (uint a - 48)"
  define y where "y = nat (uint b - 48)"
  have xy: "x < 10" "y < 10" using d by (auto simp: x_def y_def)
  have u: "uint a = int (48 + x)" "uint b = int (48 + y)" using d by (simp_all add: x_def y_def)
  have ab: "a = of_nat (48 + x)" "b = of_nat (48 + y)"
    using word_of_int_uint [of a] word_of_int_uint [of b] unfolding u by (simp_all only: of_int_of_nat_eq)
  have v: "scan_int ii = int (10 * x + y)"
  proof -
    have "digits_value ii = int (10 * x + y)" by (simp add: ii digits_value_def u)
    moreover have "int (10 * x + y) < 2 ^ 31" using xy by simp
    ultimately show ?thesis by (simp add: scan_int_def i32_id min_def)
  qed
  show ?thesis
  proof (cases "x = 0")
    case True
    then show ?thesis using v xy by (simp add: dec_pad_def digits.simps [of y] ii ab)
  next
    case False
    then have "\<not> 10 * x + y < 10" "(10 * x + y) div 10 = x" "(10 * x + y) mod 10 = y" using xy by auto
    then have "digits (10 * x + y) = [of_nat (48 + x), of_nat (48 + y)]"
      using xy by (subst digits.simps) (simp add: digits.simps [of x])
    moreover have "nat (10 * int x + int y) = 10 * x + y" by (simp add: nat_eq_iff)
    ultimately show ?thesis using v by (simp add: dec_pad_def ii ab)
  qed
qed


text \<open>The fields of a parsed heading fit their arrays.\<close>

lemma get_wstr_bound:
  "get_wstr m p [] n = Some (Some (q, w)) \<Longrightarrow> length w \<le> n \<and> list_all is_alnum w"
  by (auto simp: get_wstr_def Let_def list_all_iff split: option.splits if_splits dest: set_takeWhileD)
    (metis length_take length_takeWhile_le min.bounded_iff)

lemma wmo_words_fit:
  assumes "wmo_words m = Some (Some (p, h))"
  shows "length (hdr_TT h) \<le> 2 \<and> length (hdr_AA h) \<le> 2 \<and> length (hdr_CCCC h) \<le> 4 \<and> length (hdr_DDHHMM h) \<le> 6 \<and>
    length (hdr_BBB h) \<le> 9 \<and> hdr_PIL h = [] \<and> hdr_model h = [] \<and> - (2 ^ 31) \<le> hdr_ii h \<and> hdr_ii h < 2 ^ 31"
  using assms unfolding wmo_words_def Let_def
  by (auto split: option.splits dest!: get_wstr_bound simp: init_wmo_header_def scan_int_def
      i32_range [THEN conjunct1, simplified] i32_range [THEN conjunct2, simplified])

lemma trim_pil_le: "trim_pil line n \<le> n"
  by (induction line n rule: trim_pil.induct) (subst trim_pil.simps, auto)

lemma pil_line_fit: "pil_line m p n = Some pil \<Longrightarrow> length pil \<le> 6"
proof -
  assume a: "pil_line m p n = Some pil"
  have "length (takeWhile P (take (min k 6) line)) \<le> 6" for P k and line :: "byte list"
    by (rule order_trans [OF length_takeWhile_le]) simp
  with a show ?thesis by (auto simp: pil_line_def Let_def split: option.splits if_splits)
qed

lemma dec_pad_i32: "- (2 ^ 31) \<le> x \<Longrightarrow> x < 2 ^ 31 \<Longrightarrow> length (dec_pad 2 x) \<le> 11"
proof -
  assume x: "- (2 ^ 31) \<le> x" "x < 2 ^ 31"
  have "length (digits (nat y)) \<le> 10" if "y \<le> 2 ^ 31" for y :: int
    using that by (intro length_digits_le) (auto simp: nat_less_iff)
  from this [of x] this [of "- x"] x show ?thesis by (auto simp: dec_pad_def)
qed


text \<open>The second line when it is the six characters of an AWIPS identifier.\<close>

lemma back_over_stop: "back_over_controls m lo (lo + k + j) = lo + k"
  if "\<forall>i. k < i \<and> i \<le> k + j \<longrightarrow> sint (m ! (lo + i)) < 32" and "k = 0 \<or> \<not> sint (m ! (lo + k)) < 32"
  using that
proof (induction j)
  case 0
  then show ?case by (subst back_over_controls.simps) auto
next
  case (Suc j)
  have "k < k + Suc j \<and> k + Suc j \<le> k + Suc j" by simp
  with Suc.prems(1) have "sint (m ! (lo + (k + Suc j))) < 32" by blast
  then have "sint (m ! (lo + k + Suc j)) < 32" by (simp only: add.assoc)
  then have "back_over_controls m lo (lo + k + Suc j) = back_over_controls m lo (lo + k + j)"
    by (subst back_over_controls.simps) simp
  with Suc show ?case by simp
qed

lemma alnum_sint: "is_alnum c \<Longrightarrow> \<not> sint c < 32"
proof -
  assume c: "is_alnum c"
  then have "48 \<le> uint c" "uint c \<le> 122"
    by (auto simp: is_alnum_def is_digit_def word_le_def)
  then have "sint c = uint c" by (simp add: sint_uint signed_take_bit_int_eq_self)
  with \<open>48 \<le> uint c\<close> show ?thesis by simp
qed

lemma alnum_not_space: "is_alnum c \<Longrightarrow> \<not> is_space c"
  by (auto simp: is_alnum_def is_digit_def is_space_def word_le_def)

lemma pil_line_six:
  assumes d: "drop p m = pil @ 13 # 13 # 10 # r" and l: "length pil = 6" and a: "list_all is_alnum pil" "\<not> list_all is_digit pil"
    and n: "8 \<le> n - int p" "n < 2 ^ 31" "0 \<le> n"
  shows "pil_line m p n = Some pil"
proof -
  have lm: "p + 9 + length r = length m" using arg_cong [OF d, of length] l by simp
  obtain c0 c1 c2 c3 c4 c5 where pil: "pil = [c0, c1, c2, c3, c4, c5]"
    using l by (auto simp: numeral_eq_Suc length_Suc_conv)
  have al: "is_alnum c0" "is_alnum c5" using a(1) pil by simp_all
  have four: "mem_read m p 4 = Some [c0, c1, c2, c3]" using lm d pil by (simp add: mem_read_def)
  have n0: "m ! p = c0" using d pil lm by (metis nth_via_drop append_Cons)
  have c0: "c0 \<noteq> 94" using al(1) by (auto simp: is_alnum_def is_digit_def)
  have gl: "get_line m p (n - int p) = Some (Some (p + 9))"
  proof -
    have "10 \<notin> set pil" using a(1) by (auto simp: list_all_iff is_alnum_def is_digit_def)
    then have "10 \<notin> set (pil @ [13, 13])" by simp
    from get_line_found [OF _ this, of p m r "n - int p"] d l n show ?thesis by (simp add: add.commute)
  qed
  have at: "m ! (p + i) = (pil @ 13 # 13 # 10 # r) ! i" for i
    using d lm by (metis add_leD1 le_add1 nth_drop)
  have "back_over_controls m p (p + 5 + 3) = p + 5"
  proof (rule back_over_stop)
    show "\<forall>i. 5 < i \<and> i \<le> 5 + 3 \<longrightarrow> sint (m ! (p + i)) < 32"
    proof (intro allI impI)
      fix i :: nat assume "5 < i \<and> i \<le> 5 + 3"
      then have "i = 6 \<or> i = 7 \<or> i = 8" by auto
      then show "sint (m ! (p + i)) < 32" unfolding at using l by (auto simp: nth_append)
    qed
    show "5 = (0::nat) \<or> \<not> sint (m ! (p + 5)) < 32" unfolding at using pil alnum_sint [OF al(2)] by simp
  qed
  then have bo: "back_over_controls m p (8 + p) = p + 5" by (simp add: add.commute)
  have tr: "trim_pil pil 6 = 6" using alnum_not_space [OF al(2)] pil by (subst trim_pil.simps) simp
  have ni: "i32 (n - int p) = n - int p" using n by (intro i32_id) auto
  have tk: "take 6 (drop p m) = pil" using d l by simp
  have nz: "takeWhile (\<lambda>b. b \<noteq> 0) pil = pil" using a(1) by (auto simp: takeWhile_eq_all_conv list_all_iff)
  have sN: "str ''^NMC'' = 94 # str ''NMC''" by simp
  show ?thesis
    unfolding pil_line_def four option.case Let_def
    using c0 n0 lm al(1) a l
    by (simp add: rd_def sN ni gl bo tr tk nz del: str_Cons)
qed

definition demo_wmo :: "byte list" where
  "demo_wmo = heading_line (str ''FX'') (str ''US'') (str ''65'') (str ''KBOU'') (str ''101530'') @ str ''AFDBOU'' @ [13, 13, 10, 0]"

definition demo_wgrib :: wgrib_fns where
  "demo_wgrib = \<lparr>gribtab = (\<lambda>_. None), mktime = (\<lambda>_. 0)\<rparr>"

definition demo_statics :: statics where
  "demo_statics = \<lparr>byte_buf = [], model_buf = [], user_names = user_tab0\<rparr>"

lemma wmo_header_std:
  assumes "heading_ok TT AA ii CCCC DDHHMM"
    and "m = heading_line TT AA ii CCCC DDHHMM @ pil @ [13, 13, 10] @ rest"
    and "length pil = 6" and "list_all is_alnum pil" and "\<not> list_all is_digit pil"
    and "take 4 pil \<noteq> str ''GRIB''" and "0 \<in> set rest" and "int (length m) < 2 ^ 31"
  shows "wmo_header W rtl m (int (length m)) st =
    Some (0, \<lparr>w_head = Some (TT @ AA @ ii @ str '' '' @ CCCC @ str '' '' @ DDHHMM @ str '' /p'' @ pil),
              w_meta = None, w_off = None\<rparr>, st)"
proof -
  let ?body = "pil @ 13 # 13 # 10 # rest"
  have m: "m = heading_line TT AA ii CCCC DDHHMM @ ?body" and z: "0 \<in> set ?body" using assms(2,7) by simp_all
  note w = wmo_words_heading [OF assms(1) m z]
  let ?h = "init_wmo_header\<lparr>hdr_TT := TT, hdr_AA := AA, hdr_ii := scan_int ii, hdr_CCCC := CCCC, hdr_DDHHMM := DDHHMM\<rparr>"
  have gl: "get_line m 18 30 = Some (Some 21)"
    using get_line_found [of 18 m "[13, 13]" ?body 30] w(2) by simp
  have d21: "drop 21 m = ?body" using arg_cong [OF w(2), of "drop 3"] by simp
  have lm: "21 + 9 + length rest = length m" using arg_cong [OF d21, of length] assms(3) by simp
  have four: "mem_read m 21 4 = Some (take 4 pil)" using d21 lm assms(3) by (simp add: mem_read_def)
  have p: "pil_line m 21 (int (length m)) = Some pil"
    by (rule pil_line_six [OF d21 assms(3-5)]) (use lm assms(8) in auto)
  have id: "wmo_id (?h\<lparr>hdr_PIL := pil\<rparr>) = TT @ AA @ ii @ str '' '' @ CCCC @ str '' '' @ DDHHMM @ str '' /p'' @ pil"
    using two_digits [of ii] assms(1,3) by (auto simp: wmo_id_def init_wmo_header_def heading_ok_def)
  have len: "length TT = 2" "length AA = 2" "length ii = 2" "length CCCC = 4" "length DDHHMM = 6"
    using assms(1) by (simp_all add: heading_ok_def)
  show ?thesis
    unfolding wmo_header_def Let_def w(1) option.case prod.case gl four
    using assms(6) p len assms(3) by (simp add: wmo_finish_def Let_def id del: str_Cons)
qed

lemma demo_wmo_heading:
  "heading_ok (str ''FX'') (str ''US'') (str ''65'') (str ''KBOU'') (str ''101530'')"
  by (simp add: heading_ok_def is_alnum_def is_digit_def)

lemma demo_wmo_facts:
  "demo_wmo = heading_line (str ''FX'') (str ''US'') (str ''65'') (str ''KBOU'') (str ''101530'') @ str ''AFDBOU'' @ [13, 13, 10] @ [0]"
  "length (str ''AFDBOU'') = 6" "list_all is_alnum (str ''AFDBOU'')" "\<not> list_all is_digit (str ''AFDBOU'')"
  "take 4 (str ''AFDBOU'') \<noteq> str ''GRIB''" "0 \<in> set [0::byte]" "int (length demo_wmo) < 2 ^ 31"
  by (simp_all add: demo_wmo_def is_alnum_def is_digit_def heading_line_def)

text \<open>
  C28: \<open>wmo_header\<close> reads a standard abbreviated heading back: for every heading
  \<open>TTAAii CCCC DDHHMM\<close> followed by a line with a six-character AWIPS identifier that is not all digits,
  the status is 0, the identifier written is \<open>TTAAii CCCC DDHHMM /pXXXXXX\<close> and no metadata is set.
\<close>

theorem wmo_header_roundtrip:
  assumes "heading_ok TT AA ii CCCC DDHHMM"
    and "m = heading_line TT AA ii CCCC DDHHMM @ pil @ [13, 13, 10] @ rest"
    and "length pil = 6" and "list_all is_alnum pil" and "\<not> list_all is_digit pil"
    and "take 4 pil \<noteq> str ''GRIB''" and "0 \<in> set rest" and "int (length m) < 2 ^ 31"
  shows "wmo_header W rtl m (int (length m)) st =
    Some (0, \<lparr>w_head = Some (TT @ AA @ ii @ str '' '' @ CCCC @ str '' '' @ DDHHMM @ str '' /p'' @ pil),
              w_meta = None, w_off = None\<rparr>, st)"
  using assms by (rule wmo_header_std)

theorem wmo_header_roundtrip_witness:
  "wmo_header demo_wgrib False demo_wmo (int (length demo_wmo)) demo_statics =
    Some (0, \<lparr>w_head = Some (str ''FXUS65 KBOU 101530 /pAFDBOU''), w_meta = None, w_off = None\<rparr>, demo_statics)"
  using wmo_header_roundtrip [OF demo_wmo_heading demo_wmo_facts, of demo_wgrib False demo_statics] by simp

lemma grib1_meta_fits: "grib1_meta W rtl m p st = Some (meta, model, st') \<Longrightarrow> length meta < 256 \<and> length model \<le> 16"
proof -
  assume a: "grib1_meta W rtl m p st = Some (meta, model, st')"
  have md: "length (deref s' r) \<le> 14" if "s_pds_model c b s = Some (r, s')" for c b s r s'
  proof -
    have e: "length (dec (uint b)) \<le> 3" by (rule length_dec_byte)
    show ?thesis
      using that ncep_entries [of "uint b"] e
      by (auto simp: s_pds_model_def s_byte_Some s_model_id_Some split: if_splits option.splits entry.splits)
  qed
  from a show ?thesis
    by (auto simp: grib1_meta_def Let_def bind_eq_Some_conv dest!: md fits_bufD)
qed


lemma wmo_finish_cases:
  "wmo_finish h out st = (r, out', st') \<Longrightarrow> w_head out = None \<Longrightarrow>
   (r = 0 \<and> out' = out\<lparr>w_head := Some (wmo_id h)\<rparr> \<and> 1 \<le> length (wmo_id h) \<and> length (wmo_id h) \<le> 128) \<or> (r = - 1 \<and> out' = out)"
  by (auto simp: wmo_finish_def Let_def Suc_le_eq split: if_splits)

definition out_ok :: "wmo_out \<Rightarrow> bool" where
  "out_ok out \<longleftrightarrow> (case w_meta out of None \<Rightarrow> True | Some s \<Rightarrow> length s < 256) \<and>
    (case w_off out of None \<Rightarrow> True | Some q \<Rightarrow> w_meta out = Some (str ''grib2/'') \<and> 0 < q)"

definition ret_ok :: "int \<Rightarrow> wmo_out \<Rightarrow> bool" where
  "ret_ok r out \<longleftrightarrow> (r = 0 \<longleftrightarrow> w_head out \<noteq> None) \<and> (r = 0 \<or> r = - 1) \<and>
    (case w_head out of None \<Rightarrow> True | Some s \<Rightarrow> 1 \<le> length s \<and> length s \<le> 128) \<and> out_ok out"

lemma wmo_finish_ok: "wmo_finish h o1 st = (r, out, st') \<Longrightarrow> w_head o1 = None \<Longrightarrow> out_ok o1 \<Longrightarrow> ret_ok r out"
  using wmo_finish_cases [of h o1 st r out st'] by (auto simp: ret_ok_def out_ok_def split: option.splits)

lemma wmo_header_ret:
  assumes "wmo_header W rtl m n st = Some (r, out, st')"
  shows "ret_ok r out"
proof -
  let ?o = "\<lparr>w_head = None, w_meta = None, w_off = None\<rparr>"
  have neg: "ret_ok (- 1) ?o" by (simp add: ret_ok_def out_ok_def)
  have gl: "0 < q" if "get_line m p k = Some (Some q)" for p k q
    using that by (auto simp: get_line_def Let_def split: option.splits if_splits)
  obtain w where w: "wmo_words m = Some w" using assms by (cases "wmo_words m") (auto simp: wmo_header_def Let_def)
  show ?thesis
  proof (cases w)
    case None
    with assms w neg show ?thesis by (auto simp: wmo_header_def Let_def)
  next
    case (Some ph)
    obtain p h where ph: "ph = (p, h)" by (cases ph)
    obtain l where l: "get_line m p 30 = Some l"
      using assms w Some ph by (cases "get_line m p 30") (auto simp: wmo_header_def Let_def)
    show ?thesis
    proof (cases l)
      case None
      with assms w Some ph l neg show ?thesis by (auto simp: wmo_header_def Let_def)
    next
      case (Some q)
      note a = assms [unfolded wmo_header_def Let_def w \<open>w = Some ph\<close> ph l Some option.case prod.case]
      obtain four where four: "mem_read m q 4 = Some four" using a by (cases "mem_read m q 4") auto
      show ?thesis
      proof (cases "four = str ''GRIB''")
        case True
        obtain v where v: "rd m (q + 7) = Some v" using a four True by (cases "rd m (q + 7)") auto
        note b = a [unfolded four option.case v, simplified True if_True]
        show ?thesis
        proof (cases "v = 0 \<or> v = 1")
          case True
          then obtain meta model st1 where g: "grib1_meta W rtl m q st = Some (meta, model, st1)"
            using b by (cases "grib1_meta W rtl m q st") auto
          have "wmo_finish (h\<lparr>hdr_model := model\<rparr>) (?o\<lparr>w_meta := Some meta\<rparr>) st1 = (r, out, st')"
            using b True g by auto
          then show ?thesis
            by (rule wmo_finish_ok) (use grib1_meta_fits [OF g] in \<open>simp_all add: out_ok_def\<close>)
        next
          case False
          then show ?thesis
            using b gl [of p 30 q] l Some
            by (cases "v = 2") (auto elim!: wmo_finish_ok simp: out_ok_def)
        qed
      next
        case False
        obtain pil where "pil_line m q n = Some pil" using a four False by (cases "pil_line m q n") auto
        then have "wmo_finish (h\<lparr>hdr_PIL := pil\<rparr>) ?o st = (r, out, st')" using a four False by simp
        then show ?thesis by (rule wmo_finish_ok) (simp_all add: out_ok_def)
      qed
    qed
  qed
qed


text \<open>
  Outputs of \<open>wmo_header\<close>: it reports success exactly when it writes an identifier, which has 1 to
  128 characters; metadata, when written, fits its 256 bytes; a metadata offset is set only for GRIB
  edition 2 and points behind the heading.
\<close>

theorem wmo_header_outputs:
  assumes "wmo_header W rtl m n st = Some (r, out, st')"
  shows "(r = 0 \<longleftrightarrow> w_head out \<noteq> None) \<and> (r = 0 \<or> r = - 1) \<and>
    (case w_head out of None \<Rightarrow> True | Some s \<Rightarrow> 1 \<le> length s \<and> length s \<le> 128) \<and>
    (case w_meta out of None \<Rightarrow> True | Some s \<Rightarrow> length s < 256) \<and>
    (case w_off out of None \<Rightarrow> True | Some q \<Rightarrow> w_meta out = Some (str ''grib2/'') \<and> 0 < q)"
  using wmo_header_ret [OF assms] unfolding ret_ok_def out_ok_def by blast

theorem wmo_header_outputs_witness:
  "\<exists>out. wmo_header demo_wgrib False demo_wmo (int (length demo_wmo)) demo_statics = Some (0, out, demo_statics) \<and>
     w_head out \<noteq> None"
proof -
  note o = wmo_header_std [OF demo_wmo_heading demo_wmo_facts, of demo_wgrib False demo_statics]
  from wmo_header_outputs [OF o] o show ?thesis by blast
qed

text \<open>
  No array of \<open>wmo_header\<close> overflows: the words of the first line fit \<open>TT[3]\<close>, \<open>AA[3]\<close>, \<open>CCCC[5]\<close>,
  \<open>DDHHMM[7]\<close> and \<open>BBB[10]\<close>, the AWIPS identifier fits \<open>PIL[10]\<close>, and the identifier assembled from them
  fits the 255 bytes of \<open>wmoid\<close> before its length is checked.
\<close>

theorem wmo_fields_fit:
  assumes "wmo_words m = Some (Some (p, h))" and "pil_line m q n = Some pil" and "length model \<le> 16"
  shows "length (hdr_TT h) < 3 \<and> length (hdr_AA h) < 3 \<and> length (hdr_CCCC h) < 5 \<and> length (hdr_DDHHMM h) < 7 \<and>
    length (hdr_BBB h) < 10 \<and> length pil < 10 \<and> length (wmo_id (h\<lparr>hdr_PIL := pil, hdr_model := model\<rparr>)) < 255"
  using wmo_words_fit [OF assms(1)] pil_line_fit [OF assms(2)] assms(3) dec_pad_i32 [of "hdr_ii h"]
  by (auto simp: wmo_id_def)

theorem wmo_fields_fit_witness:
  "\<exists>p h pil. wmo_words demo_wmo = Some (Some (p, h)) \<and> pil_line demo_wmo 21 34 = Some pil \<and>
     length (wmo_id (h\<lparr>hdr_PIL := pil, hdr_model := []\<rparr>)) < 255"
proof -
  note w = wmo_words_heading [OF demo_wmo_heading, of demo_wmo "str ''AFDBOU'' @ [13, 13, 10, 0]"]
  have w1: "\<exists>h. wmo_words demo_wmo = Some (Some (18, h))" using w(1) by (auto simp: demo_wmo_def)
  have d: "drop 21 demo_wmo = str ''AFDBOU'' @ 13 # 13 # 10 # [0]"
    by (simp add: demo_wmo_def heading_line_def)
  have p: "pil_line demo_wmo 21 34 = Some (str ''AFDBOU'')"
    by (rule pil_line_six [OF d]) (simp_all add: is_alnum_def is_digit_def)
  from w1 obtain h where h: "wmo_words demo_wmo = Some (Some (18, h))" by blast
  from wmo_fields_fit [OF h p, of "[]"] h p show ?thesis by auto
qed

end
