(* ===== verification/Redbook.thy ===== *)
theory Redbook
  imports NP_Prelude
begin

text \<open>
  The Redbook graphic header of \<open>redbook_header.c\<close>: a sequence of blocks behind the first newline of
  the product, each with a two-bit flag, a length in 16-bit words, a mode and a submode. The title is
  assembled from four fixed-size static buffers. Characters are signed. A read outside the product's
  memory \<open>m\<close>, or a write outside a buffer, is \<open>None\<close>.
\<close>

section \<open>Reading integers\<close>

definition read_char1 :: "byte list \<Rightarrow> nat \<Rightarrow> int option" where
  "read_char1 m p = map_option sint (rd m p)"

definition read_short1 :: "byte list \<Rightarrow> nat \<Rightarrow> int option" where
  "read_short1 m p = do { a \<leftarrow> rd m p; b \<leftarrow> rd m (p + 1); Some (signed_take_bit 15 (be16 a b)) }"

text \<open>\<open>get_block\<close> returns \<open>FF\<close>, \<open>blen\<close>, \<open>mode\<close> and \<open>submode\<close>.\<close>

definition get_block :: "byte list \<Rightarrow> nat \<Rightarrow> (int \<times> int \<times> int \<times> int) option" where
  "get_block m p = do {
     c \<leftarrow> read_char1 m p;
     let FF = c div 64;
     s \<leftarrow> read_short1 m p;
     let blen = s mod 16384;
     md \<leftarrow> read_char1 m (p + 2);
     sub \<leftarrow> read_char1 m (p + 3);
     Some (FF, blen, md, sub)
   }"

section \<open>Blocks\<close>

record rbst =
  cstr1 :: "byte list"
  cstr2 :: "byte list"
  dstr :: cstr
  cpilid :: "byte list"

definition block_1_1 :: "rbst \<Rightarrow> byte list \<Rightarrow> nat \<Rightarrow> int \<Rightarrow> rbst option" where
  "block_1_1 st m p len = do {
     c1 \<leftarrow> mem_read m (p + 11) 9;
     let st1 = st\<lparr>cstr1 := c1 @ [0]\<rparr>;
     st2 \<leftarrow> (if len * 2 > 31 then do { c2 \<leftarrow> mem_read m (p + 26) 6; Some (st1\<lparr>cstr2 := c2 @ [0]\<rparr>) } else Some st1);
     year \<leftarrow> read_short1 m (p + 20);
     month \<leftarrow> read_char1 m (p + 22);
     day \<leftarrow> read_char1 m (p + 23);
     hour \<leftarrow> read_char1 m (p + 24);
     minute \<leftarrow> read_char1 m (p + 25);
     d \<leftarrow> fits_buf 14 (dec_pad 4 year @ dec_pad 2 month @ dec_pad 2 day @ [32] @ dec_pad 2 hour @ dec_pad 2 minute);
     Some (st2\<lparr>dstr := d\<rparr>)
   }"

definition block_2_2 :: "rbst \<Rightarrow> byte list \<Rightarrow> nat \<Rightarrow> int \<Rightarrow> rbst option" where
  "block_2_2 st m p len =
     (if len * 2 < 21 then Some st
      else do {
        c \<leftarrow> mem_read m (p + 11) 9;
        Some (st\<lparr>cpilid := map (\<lambda>b. if sint b < 32 then 0 else b) c @ [0]\<rparr>)
      })"

section \<open>The header\<close>

text \<open>The loop over the blocks; every block it goes past has a positive length.\<close>

function rb_loop :: "byte list \<Rightarrow> int \<Rightarrow> rbst \<Rightarrow> nat \<Rightarrow> nat \<Rightarrow> (rbst \<times> nat) option" where
  "rb_loop m nbytes st start bstart =
     (if int start < nbytes - 4
      then case get_block m start of
        None \<Rightarrow> None
      | Some (FF, blen, md, sub) \<Rightarrow>
          if FF \<noteq> 1 \<or> blen \<le> 0 \<or> nbytes < int start + blen * 2 then Some (st, bstart)
          else if md = 1 \<and> sub = 1
          then (case block_1_1 st m start blen of
                  None \<Rightarrow> None
                | Some st' \<Rightarrow> rb_loop m nbytes st' (start + nat (blen * 2)) (bstart + 1))
          else if md = 1 \<and> sub = 6 then rb_loop m nbytes st (start + nat (blen * 2)) bstart
          else if md = 2 \<and> sub = 2 then (case block_2_2 st m start blen of None \<Rightarrow> None | Some st' \<Rightarrow> Some (st', bstart))
          else if md = 1 \<and> sub = 2 then Some (st, bstart)
          else rb_loop m nbytes st (start + nat (blen * 2)) bstart
      else Some (st, bstart))"
  by pat_completeness auto

termination
  by (relation "measure (\<lambda>(m, nbytes, st, start, bstart). nat (nbytes - int start))") auto

declare rb_loop.simps [simp del]

definition redbook_header :: "byte list \<Rightarrow> int \<Rightarrow> rbst \<Rightarrow> (cstr \<times> rbst) option" where
  "redbook_header m nbytes st0 =
     (let st = st0\<lparr>cstr1 := 0 # tl (cstr1 st0), cstr2 := 0 # tl (cstr2 st0), dstr := [], cpilid := 0 # tl (cpilid st0)\<rparr>;
          i = length (takeWhile (\<lambda>b. b \<noteq> 10) (take (nat nbytes) m))
      in if length m < nat nbytes \<and> i = length m then None
         else case rb_loop m nbytes st (i + 1) 0 of
           None \<Rightarrow> None
         | Some (st', bstart) \<Rightarrow>
             Some (if 0 < bstart
                   then cstr_of (cpilid st') @ [47] @ cstr_of (cstr2 st') @ [47] @ cstr_of (cstr1 st') @ [47] @ dstr st'
                   else [], st'))"

section \<open>Lemmas\<close>

text \<open>The static buffers keep their sizes and stay NUL-terminated.\<close>

definition rb_inv :: "rbst \<Rightarrow> bool" where
  "rb_inv st \<longleftrightarrow> length (cstr_of (cstr1 st)) \<le> 9 \<and> length (cstr_of (cstr2 st)) \<le> 6 \<and>
     length (dstr st) \<le> 13 \<and> length (cstr_of (cpilid st)) \<le> 9"

lemma cstr_of_len: "length c = n \<Longrightarrow> length (cstr_of (c @ [0])) \<le> n"
  by (induction c arbitrary: n) (auto simp: cstr_of_def)

lemma cstr_of_0 [simp]: "cstr_of (0 # xs) = []"
  by (simp add: cstr_of_def)

lemma block_1_1_inv: "block_1_1 st m p len = Some st' \<Longrightarrow> rb_inv st \<Longrightarrow> rb_inv st'"
  by (auto simp: block_1_1_def rb_inv_def bind_eq_Some_conv Let_def intro!: cstr_of_len
      dest!: mem_read_length fits_bufD split: if_splits)

lemma block_2_2_inv: "block_2_2 st m p len = Some st' \<Longrightarrow> rb_inv st \<Longrightarrow> rb_inv st'"
  by (auto simp: block_2_2_def rb_inv_def bind_eq_Some_conv intro!: cstr_of_len
      dest!: mem_read_length split: if_splits)

lemma rb_loop_inv: "rb_loop m n st start b = Some (st', b') \<Longrightarrow> rb_inv st \<Longrightarrow> rb_inv st'"
proof (induction m n st start b rule: rb_loop.induct)
  case (1 m n st start b)
  show ?case
  proof (cases "int start < n - 4")
    case False
    with "1.prems" show ?thesis by (subst (asm) rb_loop.simps) simp
  next
    case True
    obtain FF blen md sub where g: "get_block m start = Some (FF, blen, md, sub)"
      using "1.prems"(1) True by (subst (asm) rb_loop.simps) (auto split: option.splits)
    show ?thesis
    proof (cases "FF \<noteq> 1 \<or> blen \<le> 0 \<or> n < int start + blen * 2")
      case stop: True
      with "1.prems" True g show ?thesis by (subst (asm) rb_loop.simps) auto
    next
      case go: False
      note IH = "1.IH" [OF True g refl refl refl go]
      note eq = "1.prems"(1) [unfolded rb_loop.simps [of m n st start b] g option.case prod.case, simplified True if_True]
      consider (a) "md = 1 \<and> sub = 1" | (b) "md = 1 \<and> sub = 6" | (c) "md = 2 \<and> sub = 2" | (d) "md = 1 \<and> sub = 2"
        | (e) "\<not> (md = 1 \<and> sub = 1)" "\<not> (md = 1 \<and> sub = 6)" "\<not> (md = 2 \<and> sub = 2)" "\<not> (md = 1 \<and> sub = 2)" by blast
      then show ?thesis
      proof cases
        case a
        then obtain st1 where s: "block_1_1 st m start blen = Some st1"
          using eq go by (auto split: option.splits)
        with a go eq have "rb_loop m n st1 (start + nat (blen * 2)) (b + 1) = Some (st', b')" by auto
        then show ?thesis using IH(1) [OF a s] block_1_1_inv [OF s "1.prems"(2)] by blast
      next
        case b
        then show ?thesis using IH(2) [OF _ b] eq go "1.prems"(2) by auto
      next
        case c
        then show ?thesis using eq go block_2_2_inv "1.prems"(2) by (auto split: option.splits)
      next
        case d
        then show ?thesis using eq go "1.prems"(2) by auto
      next
        case e
        then show ?thesis using IH(3) [OF e] eq go "1.prems"(2) by auto
      qed
    qed
  qed
qed


definition rb_blank :: rbst where
  "rb_blank = \<lparr>cstr1 = [0], cstr2 = [0], dstr = [], cpilid = [0]\<rparr>"

lemma redbook_start_inv: "rb_inv (st\<lparr>cstr1 := 0 # x, cstr2 := 0 # y, dstr := [], cpilid := 0 # z\<rparr>)"
  by (simp add: rb_inv_def)

lemma redbook_title_len:
  assumes "redbook_header m nbytes st = Some (title, st')"
  shows "length title \<le> 40"
proof -
  obtain st1 b where r: "rb_loop m nbytes (st\<lparr>cstr1 := 0 # tl (cstr1 st), cstr2 := 0 # tl (cstr2 st), dstr := [],
      cpilid := 0 # tl (cpilid st)\<rparr>) (length (takeWhile (\<lambda>b. b \<noteq> 10) (take (nat nbytes) m)) + 1) 0 = Some (st1, b)"
    using assms by (auto simp: redbook_header_def Let_def split: option.splits if_splits)
  have "rb_inv st1" by (rule rb_loop_inv [OF r]) (rule redbook_start_inv)
  then show ?thesis
    using assms r by (auto simp: redbook_header_def Let_def rb_inv_def split: if_splits)
qed

section \<open>Well-formed products\<close>

definition rb_block11 :: "byte list \<Rightarrow> cstr \<Rightarrow> int \<Rightarrow> int \<Rightarrow> int \<Rightarrow> int \<Rightarrow> int \<Rightarrow> cstr \<Rightarrow> byte list" where
  "rb_block11 fill c1 y mo d h mi c2 =
     [64, 16, 1, 1] @ fill @ c1 @ [word_of_int (y div 256), word_of_int y, word_of_int mo, word_of_int d,
      word_of_int h, word_of_int mi] @ c2"

definition rb_block22 :: "byte list \<Rightarrow> cstr \<Rightarrow> byte \<Rightarrow> byte \<Rightarrow> byte list" where
  "rb_block22 fill pil x y = [64, 11, 2, 2] @ fill @ pil @ [x, y]"

lemma rd_at: "drop p m = pre @ x # r \<Longrightarrow> rd m (p + length pre) = Some x"
proof -
  assume d: "drop p m = pre @ x # r"
  have "length m - p = length pre + 1 + length r" using arg_cong [OF d, of length] by simp
  then have lt: "p + length pre < length m" by simp
  have "m ! (p + length pre) = drop p m ! length pre" using lt by (simp add: nth_drop)
  then show ?thesis using lt by (simp add: rd_def d)
qed

lemma read_at: "drop p m = pre @ c @ r \<Longrightarrow> c \<noteq> [] \<Longrightarrow> mem_read m (p + length pre) (length c) = Some c"
proof -
  assume d: "drop p m = pre @ c @ r" and "c \<noteq> []"
  then have "0 < length c" by simp
  moreover have "length m - p = length pre + length c + length r" using arg_cong [OF d, of length] by simp
  ultimately have le: "p + length pre + length c \<le> length m" by linarith
  moreover have "drop (p + length pre) m = c @ r"
    using d by (metis add.commute append_eq_conv_conj drop_drop)
  ultimately show ?thesis by (simp add: mem_read_def)
qed

lemma sint_byte: "0 \<le> x \<Longrightarrow> x < 128 \<Longrightarrow> sint (word_of_int x :: byte) = x"
  by (simp add: sint_uint uint_word_of_int signed_take_bit_int_eq_self)

lemma short_of: "0 \<le> y \<Longrightarrow> y < 32768 \<Longrightarrow> signed_take_bit 15 (be16 (word_of_int (y div 256)) (word_of_int y)) = y"
proof -
  assume y: "0 \<le> y" "y < 32768"
  then have "(y div 256) mod 256 = y div 256" by (simp add: pos_imp_zdiv_nonneg_iff)
  then have "be16 (word_of_int (y div 256)) (word_of_int y) = y" by (simp add: be16_def)
  with y show ?thesis by (simp add: signed_take_bit_int_eq_self)
qed


definition date_ok :: "int \<Rightarrow> int \<Rightarrow> int \<Rightarrow> int \<Rightarrow> int \<Rightarrow> bool" where
  "date_ok y mo d h mi \<longleftrightarrow> 0 \<le> y \<and> y < 10000 \<and> 0 \<le> mo \<and> mo < 100 \<and> 0 \<le> d \<and> d < 100 \<and> 0 \<le> h \<and> h < 100 \<and> 0 \<le> mi \<and> mi < 100"

definition rb_date :: "int \<Rightarrow> int \<Rightarrow> int \<Rightarrow> int \<Rightarrow> int \<Rightarrow> cstr" where
  "rb_date y mo d h mi = dec_pad 4 y @ dec_pad 2 mo @ dec_pad 2 d @ [32] @ dec_pad 2 h @ dec_pad 2 mi"

lemma rb_date_len: "date_ok y mo d h mi \<Longrightarrow> length (rb_date y mo d h mi) = 13"
  using length_dec_pad [of y 4] length_dec_pad [of mo 2] length_dec_pad [of d 2] length_dec_pad [of h 2] length_dec_pad [of mi 2]
  by (simp add: date_ok_def rb_date_def)

lemma get_block_at:
  assumes "drop p m = [64, l, a, b] @ r"
  shows "get_block m p = Some (1, uint l, sint a, sint b)"
proof -
  have "rd m p = Some 64" "rd m (p + 1) = Some l" "rd m (p + 2) = Some a" "rd m (p + 3) = Some b"
    using rd_at [of p m "[]" 64 "[l, a, b] @ r"] rd_at [of p m "[64]" l "[a, b] @ r"] rd_at [of p m "[64, l]" a "b # r"]
      rd_at [of p m "[64, l, a]" b r] assms
    by (simp_all add: numeral_eq_Suc)
  moreover have "signed_take_bit 15 (be16 64 l) mod 16384 = uint l"
  proof -
    have "signed_take_bit 15 (be16 64 l) = be16 64 l"
      using uint_byte_bounds [of l] by (intro signed_take_bit_int_eq_self) (simp_all add: be16_def)
    then show ?thesis using uint_byte_bounds [of l] by (simp add: be16_def)
  qed
  ultimately show ?thesis by (simp add: get_block_def read_char1_def read_short1_def)
qed

lemma block_1_1_at:
  assumes d: "drop p m = rb_block11 fill c1 y mo dd h mi c2 @ r" and l: "length fill = 7" "length c1 = 9" "length c2 = 6"
    and ok: "date_ok y mo dd h mi"
  shows "block_1_1 st m p 16 = Some (st\<lparr>cstr1 := c1 @ [0], cstr2 := c2 @ [0], dstr := rb_date y mo dd h mi\<rparr>)"
proof -
  note D = d [unfolded rb_block11_def]
  have ne: "c1 \<noteq> []" "c2 \<noteq> []" using l by auto
  have 1: "mem_read m (p + 11) 9 = Some c1"
    using read_at [of p m "[64, 16, 1, 1] @ fill" c1] D l ne by simp
  have 2: "mem_read m (p + 26) 6 = Some c2"
    using read_at [of p m "[64, 16, 1, 1] @ fill @ c1 @ [word_of_int (y div 256), word_of_int y, word_of_int mo,
        word_of_int dd, word_of_int h, word_of_int mi]" c2] D l ne by simp
  have 3: "rd m (p + 20) = Some (word_of_int (y div 256))" "rd m (p + 21) = Some (word_of_int y)"
    "rd m (p + 22) = Some (word_of_int mo)" "rd m (p + 23) = Some (word_of_int dd)"
    "rd m (p + 24) = Some (word_of_int h)" "rd m (p + 25) = Some (word_of_int mi)"
    using rd_at [of p m "[64, 16, 1, 1] @ fill @ c1"]
      rd_at [of p m "[64, 16, 1, 1] @ fill @ c1 @ [word_of_int (y div 256)]"]
      rd_at [of p m "[64, 16, 1, 1] @ fill @ c1 @ [word_of_int (y div 256), word_of_int y]"]
      rd_at [of p m "[64, 16, 1, 1] @ fill @ c1 @ [word_of_int (y div 256), word_of_int y, word_of_int mo]"]
      rd_at [of p m "[64, 16, 1, 1] @ fill @ c1 @ [word_of_int (y div 256), word_of_int y, word_of_int mo, word_of_int dd]"]
      rd_at [of p m "[64, 16, 1, 1] @ fill @ c1 @ [word_of_int (y div 256), word_of_int y, word_of_int mo, word_of_int dd, word_of_int h]"]
      D l by simp_all
  have s: "signed_take_bit 15 (be16 (word_of_int (y div 256)) (word_of_int y)) = y"
    using ok by (intro short_of) (simp_all add: date_ok_def)
  have c: "sint (word_of_int x :: byte) = x" if "x \<in> {mo, dd, h, mi}" for x
    using that ok by (intro sint_byte) (auto simp: date_ok_def)
  have f: "fits_buf 14 (rb_date y mo dd h mi) = Some (rb_date y mo dd h mi)"
    using rb_date_len [OF ok] by (simp add: fits_buf_def)
  have q: "p + 20 + 1 = p + 21" by simp
  show ?thesis
    unfolding block_1_1_def Let_def read_short1_def read_char1_def q 1 2 3
    using f by (simp add: s c rb_date_def)
qed

lemma block_2_2_at:
  assumes d: "drop p m = rb_block22 fill pil x y @ r" and l: "length fill = 7" "length pil = 9"
    and ok: "\<forall>b\<in>set pil. 32 \<le> sint b"
  shows "block_2_2 st m p 11 = Some (st\<lparr>cpilid := pil @ [0]\<rparr>)"
proof -
  have "pil \<noteq> []" using l by auto
  then have "mem_read m (p + 11) 9 = Some pil"
    using read_at [of p m "[64, 11, 2, 2] @ fill" pil] d l by (simp add: rb_block22_def)
  moreover have "map (\<lambda>b. if sint b < 32 then 0 else b) pil = pil"
  proof (rule map_idI)
    fix b assume "b \<in> set pil"
    with ok have "32 \<le> sint b" by blast
    then show "(if sint b < 32 then 0 else b) = b" by simp
  qed
  ultimately show ?thesis by (simp add: block_2_2_def)
qed

lemma cstr_of_clean: "0 \<notin> set c \<Longrightarrow> cstr_of (c @ [0]) = c"
  by (induction c) (auto simp: cstr_of_def)

section \<open>Properties\<close>

text \<open>
  \<open>redbook_header\<close> recovers the title of a well-formed graphic: for a product whose first line is
  followed by a (1,1) block with product identifiers and date and by a (2,2) block with the AWIPS
  identifier, the title is \<open>pil/cstr2/cstr1/date\<close>.
\<close>

theorem redbook_title:
  assumes "m = line @ [10] @ rb_block11 f1 c1 y mo d h mi c2 @ rb_block22 f2 pil u v @ rest"
    and "10 \<notin> set line" and "length f1 = 7" and "length c1 = 9" and "length c2 = 6" and "length f2 = 7"
    and "length pil = 9" and "date_ok y mo d h mi" and "0 \<notin> set c1" and "0 \<notin> set c2" and "\<forall>b\<in>set pil. 32 \<le> sint b"
    and "nbytes = int (length line + 55)"
  shows "\<exists>st'. redbook_header m nbytes st =
    Some (pil @ [47] @ c2 @ [47] @ c1 @ [47] @ rb_date y mo d h mi, st')"
proof -
  let ?b1 = "rb_block11 f1 c1 y mo d h mi c2" and ?b2 = "rb_block22 f2 pil u v"
  have lb: "length ?b1 = 32" "length ?b2 = 22" using assms by (simp_all add: rb_block11_def rb_block22_def)
  have lm: "length m = length line + 55 + length rest" using lb assms(1) by simp
  have "take (nat nbytes) m = line @ 10 # ?b1 @ ?b2"
  proof -
    have "nat nbytes = length (line @ 10 # ?b1 @ ?b2)" using lb assms(12) by simp
    moreover have "m = (line @ 10 # ?b1 @ ?b2) @ rest" using assms(1) by simp
    ultimately show ?thesis by (simp only: append_eq_conv_conj [symmetric]) (metis append_eq_conv_conj)
  qed
  moreover have "list_all (\<lambda>b. b \<noteq> 10) line" using assms(2) by (auto simp: list_all_iff)
  ultimately have i: "takeWhile (\<lambda>b. b \<noteq> 10) (take (nat nbytes) m) = line"
    by (simp add: takeWhile_append2 list_all_iff)
  let ?p = "length line + 1"
  have d1: "drop ?p m = ?b1 @ ?b2 @ rest" using assms(1) by simp
  have d2: "drop (?p + 32) m = ?b2 @ rest" using assms(1) lb by simp
  have g1: "get_block m ?p = Some (1, 16, 1, 1)"
    using get_block_at [of ?p m 16 1 1] d1 by (simp add: rb_block11_def)
  have g2: "get_block m (?p + 32) = Some (1, 11, 2, 2)"
    using get_block_at [of "?p + 32" m 11 2 2] d2 by (simp add: rb_block22_def)
  define s0 where "s0 = st\<lparr>cstr1 := 0 # tl (cstr1 st), cstr2 := 0 # tl (cstr2 st), dstr := [], cpilid := 0 # tl (cpilid st)\<rparr>"
  define s1 where "s1 = s0\<lparr>cstr1 := c1 @ [0], cstr2 := c2 @ [0], dstr := rb_date y mo d h mi\<rparr>"
  have b1: "block_1_1 s0 m ?p 16 = Some s1"
    unfolding s1_def using block_1_1_at [OF d1 assms(3-5,8)] .
  have b2: "block_2_2 s1 m (?p + 32) 11 = Some (s1\<lparr>cpilid := pil @ [0]\<rparr>)"
    using block_2_2_at [OF d2 assms(6,7,11)] .
  have z: "0 \<notin> set pil" using assms(11) by auto
  have "rb_loop m nbytes s1 (?p + 32) 1 = Some (s1\<lparr>cpilid := pil @ [0]\<rparr>, 1)"
    using g2 b2 assms(12) by (subst rb_loop.simps) simp
  then have "rb_loop m nbytes s0 ?p 0 = Some (s1\<lparr>cpilid := pil @ [0]\<rparr>, 1)"
    using g1 b1 assms(12) by (subst rb_loop.simps) simp
  then show ?thesis
    using i lm assms(9,10,12) z
    by (simp add: redbook_header_def Let_def s0_def [symmetric] cstr_of_clean) (simp add: s1_def cstr_of_clean)
qed

definition demo_redbook :: "byte list" where
  "demo_redbook = [65, 66] @ [10] @ rb_block11 (replicate 7 0) (replicate 9 65) 2011 2 3 4 5 (replicate 6 66) @
     rb_block22 (replicate 7 0) (replicate 9 67) 0 0 @ []"

theorem redbook_title_witness:
  "\<exists>st'. redbook_header demo_redbook 57 rb_blank =
    Some (replicate 9 67 @ [47] @ replicate 6 66 @ [47] @ replicate 9 65 @ [47] @ rb_date 2011 2 3 4 5, st')"
  by (rule redbook_title [of _ "[65, 66]" "replicate 7 0" _ _ _ _ _ _ _ "replicate 7 0" _ 0 0 "[]"])
    (simp_all add: demo_redbook_def date_ok_def)

text \<open>
  Whatever the product, a title that \<open>redbook_header\<close> produces has at most 40 characters, so the 45
  bytes its caller provides are enough, and its static buffers stay terminated.
\<close>

theorem redbook_title_fits:
  assumes "redbook_header m nbytes st = Some (title, st')"
  shows "length title + 1 \<le> 41"
  using redbook_title_len [OF assms] by simp

theorem redbook_title_fits_witness:
  "\<exists>title st'. redbook_header [10] 1 rb_blank = Some (title, st') \<and> length title + 1 \<le> 41"
proof -
  have "rb_loop [10] 1 (rb_blank\<lparr>cstr1 := [0], cstr2 := [0], dstr := [], cpilid := [0]\<rparr>) 1 0 =
      Some (rb_blank\<lparr>cstr1 := [0], cstr2 := [0], dstr := [], cpilid := [0]\<rparr>, 0)"
    by (subst rb_loop.simps) simp
  then have "\<exists>st'. redbook_header [10] 1 rb_blank = Some ([], st')"
    by (simp add: redbook_header_def Let_def rb_blank_def)
  with redbook_title_fits [of "[10]" 1 rb_blank] show ?thesis by fastforce
qed

text \<open>
  The date buffer can overflow: the numbers of a (1,1) block are not checked, and with a month of 100
  to 127 the 14 bytes of \<open>dstr\<close> are too few, however much memory the product has.
\<close>

theorem redbook_date_overflow:
  assumes "drop p m = rb_block11 fill c1 y mo d h mi c2 @ rest" and "length fill = 7" and "length c1 = 9"
    and "0 \<le> y" and "y < 10000" and "100 \<le> mo" and "mo < 128" and "0 \<le> d" and "d < 100" and "0 \<le> h" and "h < 100"
    and "0 \<le> mi" and "mi < 100" and "length c2 = 6"
  shows "block_1_1 st m p 16 = None"
proof -
  note D = assms(1) [unfolded rb_block11_def]
  have ne: "c1 \<noteq> []" "c2 \<noteq> []" using assms by auto
  have 3: "rd m (p + 20) = Some (word_of_int (y div 256))" "rd m (p + 21) = Some (word_of_int y)"
    "rd m (p + 22) = Some (word_of_int mo)" "rd m (p + 23) = Some (word_of_int d)"
    "rd m (p + 24) = Some (word_of_int h)" "rd m (p + 25) = Some (word_of_int mi)"
    using rd_at [of p m "[64, 16, 1, 1] @ fill @ c1"]
      rd_at [of p m "[64, 16, 1, 1] @ fill @ c1 @ [word_of_int (y div 256)]"]
      rd_at [of p m "[64, 16, 1, 1] @ fill @ c1 @ [word_of_int (y div 256), word_of_int y]"]
      rd_at [of p m "[64, 16, 1, 1] @ fill @ c1 @ [word_of_int (y div 256), word_of_int y, word_of_int mo]"]
      rd_at [of p m "[64, 16, 1, 1] @ fill @ c1 @ [word_of_int (y div 256), word_of_int y, word_of_int mo, word_of_int d]"]
      rd_at [of p m "[64, 16, 1, 1] @ fill @ c1 @ [word_of_int (y div 256), word_of_int y, word_of_int mo, word_of_int d, word_of_int h]"]
      D assms(2,3) by simp_all
  have s: "signed_take_bit 15 (be16 (word_of_int (y div 256)) (word_of_int y)) = y"
    using assms by (intro short_of) simp_all
  have c: "sint (word_of_int x :: byte) = x" if "x \<in> {mo, d, h, mi}" for x
    using that assms by (intro sint_byte) auto
  have "\<not> nat mo < 10" "\<not> nat mo div 10 < 10" using assms by auto
  then have "3 \<le> length (digits (nat mo))"
    using digits.simps [of "nat mo"] digits.simps [of "nat mo div 10"] by (simp add: Suc_le_eq)
  then have "3 \<le> length (dec_pad 2 mo)" using assms by (simp add: dec_pad_def)
  then have "14 \<le> length (dec_pad 4 y @ dec_pad 2 mo @ dec_pad 2 d @ [32] @ dec_pad 2 h @ dec_pad 2 mi)"
    using length_dec_pad [of y 4] length_dec_pad [of d 2] length_dec_pad [of h 2] length_dec_pad [of mi 2] assms by simp
  then have f: "fits_buf 14 (dec_pad 4 y @ dec_pad 2 mo @ dec_pad 2 d @ [32] @ dec_pad 2 h @ dec_pad 2 mi) = None"
    by (simp add: fits_buf_def)
  have q: "p + 20 + 1 = p + 21" by simp
  show ?thesis
    unfolding block_1_1_def Let_def read_short1_def read_char1_def q 3
    using f by (auto simp: s c bind_eq_None_conv)
qed

theorem redbook_date_overflow_witness:
  "block_1_1 rb_blank (rb_block11 (replicate 7 0) (replicate 9 65) 2011 100 3 4 5 (replicate 6 66)) 0 16 = None"
  by (rule redbook_date_overflow [of _ _ "replicate 7 0" "replicate 9 65" 2011 100 3 4 5 "replicate 6 66" "[]"]) simp_all

end
