(* ===== verification/Ccb.thy ===== *)
theory Ccb
  imports Headers Wmo Redbook
begin

text \<open>
  The communications control block and the product name (\<open>readccb\<close> in \<open>readpsh.c\<close>): the heading behind
  the block becomes the product name, and the metadata string tells NIDS, Redbook, other graphics and
  GRIB products apart. The memory \<open>m\<close> starts at the block; \<open>blen\<close> is the number of its valid bytes.
\<close>

record ccb_struct =
  ccb_b1 :: int
  ccb_len :: int
  ccb_user1 :: int
  ccb_user2 :: int

text \<open>Length of the run of printable characters at an offset, at most 256; the byte that ends it is read.\<close>

definition print_run :: "byte list \<Rightarrow> nat \<Rightarrow> nat option" where
  "print_run m p =
     (let k = length (takeWhile (\<lambda>b. 32 \<le> sint b) (take 256 (drop p m)))
      in case rd m (p + k) of None \<Rightarrow> None | Some _ \<Rightarrow> Some k)"

text \<open>A product without a WMO heading: its first printable characters, or a fixed text.\<close>

definition fallback_name :: "byte list \<Rightarrow> nat \<Rightarrow> cstr \<Rightarrow> cstr option" where
  "fallback_name m p pname =
     (case print_run m p of
        None \<Rightarrow> None
      | Some k \<Rightarrow> fits_buf 1024 (if 0 < k then pname @ take k (drop p m) else str ''Unidentifiable product''))"

definition nids_headings :: "cstr list" where
  "nids_headings = [str ''SDUS5'', str ''SDUS2'', str ''SDUS3'', str ''SDUS7'', str ''SDUS8'']"

text \<open>\<open>ccbdtype\<close>, \<open>pcat\<close> and the Redbook title of a product.\<close>

definition ccb_datatype ::
  "byte list \<Rightarrow> int \<Rightarrow> ccb_struct \<Rightarrow> psh_struct \<Rightarrow> rbst \<Rightarrow> (psh_struct \<times> cstr \<times> rbst) option" where
  "ccb_datatype m blen ccb psh rb =
     (if psh_ccbmode psh = 2 \<and> psh_ccbsubmode psh = 0
      then (case mem_read m (nat (ccb_len ccb)) 5 of
              None \<Rightarrow> None
            | Some five \<Rightarrow>
                if five \<in> set nids_headings
                then Some (psh\<lparr>psh_ccbdtype := (if ccb_user1 ccb \<noteq> 70 then str ''nids/'' else psh_ccbdtype psh),
                               psh_pcat := 99\<rparr>, [], rb)
                else Some (psh, [], rb))
      else if psh_pcat psh = 2
      then (case redbook_header (drop (nat (ccb_len ccb)) m) (blen - ccb_len ccb) rb of
              None \<Rightarrow> None
            | Some (title, rb') \<Rightarrow>
                (case fits_buf 45 title of
                   None \<Rightarrow> None
                 | Some title \<Rightarrow>
                     (case fits_buf 20 ((if title \<noteq> [] then str ''redbook '' else str ''graph '') @ dec (ccb_user1 ccb) @
                                        str ''_'' @ dec (ccb_user2 ccb) @ str ''/'') of
                        None \<Rightarrow> None
                      | Some t \<Rightarrow> Some (psh\<lparr>psh_ccbdtype := t\<rparr>, title, rb'))))
      else Some (psh, [], rb))"

text \<open>What follows the parsing of the heading; \<open>r\<close> and \<open>out\<close> are the results of \<open>wmo_header\<close>.\<close>

definition ccb_name :: "byte list \<Rightarrow> ccb_struct \<Rightarrow> psh_struct \<Rightarrow> int \<Rightarrow> wmo_out \<Rightarrow> psh_struct option" where
  "ccb_name m ccb psh r out =
     (case (if r = 0 then w_head out else None) of
        Some wmohead \<Rightarrow>
          (if wmohead \<noteq> []
           then (case fits_buf 1024 (psh_pname psh @ wmohead) of
                   None \<Rightarrow> None
                 | Some n \<Rightarrow>
                     Some (psh\<lparr>psh_pname := n,
                               psh_metaoff := (case w_off out of Some q \<Rightarrow> if 0 < q then q else psh_metaoff psh
                                                              | None \<Rightarrow> psh_metaoff psh)\<rparr>))
           else (case print_run m (nat (ccb_len ccb)) of
                   None \<Rightarrow> None
                 | Some k \<Rightarrow> map_option (\<lambda>n. psh\<lparr>psh_pname := n\<rparr>)
                     (fits_buf 1024 (psh_pname psh @ take k (drop (nat (ccb_len ccb)) m)))))
      | None \<Rightarrow> map_option (\<lambda>n. psh\<lparr>psh_pname := n\<rparr>) (fallback_name m (nat (ccb_len ccb)) (psh_pname psh)))"

definition ccb_metadata :: "cstr \<Rightarrow> cstr \<Rightarrow> cstr \<Rightarrow> cstr option" where
  "ccb_metadata dtype title wmometa =
     map_option (\<lambda>s. if length s = 2 then [] else s) (fits_buf 512 (str '' !'' @ dtype @ title @ wmometa))"

definition readccb ::
  "wgrib_fns \<Rightarrow> bool \<Rightarrow> byte list \<Rightarrow> ccb_struct \<Rightarrow> psh_struct \<Rightarrow> int \<Rightarrow> statics \<Rightarrow> rbst \<Rightarrow>
   (int \<times> ccb_struct \<times> psh_struct \<times> statics \<times> rbst) option" where
  "readccb W rtl m ccb psh blen st rb = do {
     b1 \<leftarrow> rd m 0; b2 \<leftarrow> rd m 1;
     let ccb1 = ccb\<lparr>ccb_b1 := uint b1, ccb_len := 2 * ((uint b1 mod 64) * 256 + uint b2)\<rparr>;
     if blen < ccb_len ccb1
     then do {
       n \<leftarrow> fallback_name m 0 (psh_pname psh);
       Some (- 1, ccb1\<lparr>ccb_len := 0\<rparr>, psh\<lparr>psh_pname := n\<rparr>, st, rb)
     }
     else do {
       md \<leftarrow> rd m 10; sub \<leftarrow> rd m 11; u1 \<leftarrow> rd m 12; u2 \<leftarrow> rd m 13;
       let psh1 = psh\<lparr>psh_ccbmode := uint md, psh_ccbsubmode := uint sub, psh_hasccb := 1, psh_ccbdtype := []\<rparr>;
       let ccb2 = ccb1\<lparr>ccb_user1 := uint u1, ccb_user2 := uint u1\<rparr>;
       (r, out, st1) \<leftarrow> wmo_header W rtl (drop (nat (ccb_len ccb2)) m) (blen - ccb_len ccb2) st;
       psh2 \<leftarrow> ccb_name m ccb2 psh1 r out;
       (psh3, title, rb1) \<leftarrow> ccb_datatype m blen ccb2 psh2 rb;
       meta \<leftarrow> ccb_metadata (psh_ccbdtype psh3) title (case w_meta out of Some s \<Rightarrow> s | None \<Rightarrow> []);
       Some (0, ccb2, psh3\<lparr>psh_metadata := meta\<rparr>, st1, rb1)
     }
   }"

section \<open>Lemmas\<close>

lemma dec_octet: "0 \<le> x \<Longrightarrow> x < 256 \<Longrightarrow> length (dec x) \<le> 3"
proof -
  assume "0 \<le> x" "x < 256"
  then have "nat x < 10 ^ 3" by simp
  with \<open>0 \<le> x\<close> length_digits_le [of "nat x" 3] show ?thesis by (simp add: dec_def)
qed

lemma ccb_datatype_fits:
  assumes "0 \<le> ccb_user1 ccb" "ccb_user1 ccb < 256" "0 \<le> ccb_user2 ccb" "ccb_user2 ccb < 256"
    and "length (psh_ccbdtype psh) < 20" and "ccb_datatype m blen ccb psh rb = Some (psh', title, rb')"
  shows "length (psh_ccbdtype psh') < 20 \<and> length title \<le> 40 \<and> psh_pname psh' = psh_pname psh"
  using assms unfolding ccb_datatype_def
  by (auto split: if_splits option.splits dest!: fits_bufD redbook_title_len)

text \<open>With an octet of user data on each side, none of the strings can overflow.\<close>

lemma ccb_datatype_no_overflow:
  assumes "0 \<le> ccb_user1 ccb" "ccb_user1 ccb < 256" "0 \<le> ccb_user2 ccb" "ccb_user2 ccb < 256"
    and "redbook_header (drop (nat (ccb_len ccb)) m) (blen - ccb_len ccb) rb \<noteq> None"
    and "nat (ccb_len ccb) + 5 \<le> length m"
  shows "ccb_datatype m blen ccb psh rb \<noteq> None"
proof -
  obtain title rb' where r: "redbook_header (drop (nat (ccb_len ccb)) m) (blen - ccb_len ccb) rb = Some (title, rb')"
    using assms(5) by auto
  have "length title \<le> 40" using redbook_title_len [OF r] .
  then show ?thesis
    using assms(1-4,6) dec_octet [of "ccb_user1 ccb"] dec_octet [of "ccb_user2 ccb"]
    by (simp add: ccb_datatype_def mem_read_def fits_buf_def r)
qed

lemma heading_line_five:
  "heading_ok TT AA ii CCCC DDHHMM \<Longrightarrow> take 5 (heading_line TT AA ii CCCC DDHHMM @ r) = TT @ AA @ [ii ! 0] \<and> 5 \<le> length (heading_line TT AA ii CCCC DDHHMM)"
proof -
  assume "heading_ok TT AA ii CCCC DDHHMM"
  then have l: "length TT = 2" "length AA = 2" "length ii = 2" by (simp_all add: heading_ok_def)
  obtain x y where "ii = [x, y]" using l(3) by (auto simp: length_Suc_conv numeral_2_eq_2)
  with l show ?thesis by (simp add: heading_line_def)
qed

text \<open>
  C30: A product with a communications control block and a standard heading: whatever the block's user bytes
  and modes, \<open>readccb\<close> appends the canonical heading to the product name and records both modes and the block's length. A heading
  of NIDS in mode 2/0 makes the category 99, with metadata unless the user byte says that the product is compressed; every
  other product that is not a graphic keeps its category and gets no metadata.
\<close>

theorem readccb_heading:
  assumes "m = blk @ heading_line TT AA ii CCCC DDHHMM @ pil @ [13, 13, 10] @ rest"
    and "heading_ok TT AA ii CCCC DDHHMM" and "length pil = 6" and "list_all is_alnum pil" and "\<not> list_all is_digit pil"
    and "take 4 pil \<noteq> str ''GRIB''" and "0 \<in> set rest" and "int (length m) < 2 ^ 31"
    and "length blk = 24" and "uint (blk ! 0) mod 64 = 0" and "uint (blk ! 1) = 12"
    and "length (psh_pname psh) \<le> 512" and "psh_pcat psh \<noteq> 2 \<or> uint (blk ! 10) = 2 \<and> uint (blk ! 11) = 0"
    and "nids = (uint (blk ! 10) = 2 \<and> uint (blk ! 11) = 0 \<and> TT @ AA = str ''SDUS'' \<and> ii ! 0 \<in> {50, 51, 53, 55, 56})"
  shows "\<exists>ccb' psh'. readccb W rtl m ccb psh (int (length m)) st rb = Some (0, ccb', psh', st, rb) \<and>
    ccb_len ccb' = 24 \<and> ccb_user1 ccb' = uint (blk ! 12) \<and> ccb_user2 ccb' = uint (blk ! 12) \<and>
    psh_pname psh' = psh_pname psh @ TT @ AA @ ii @ str '' '' @ CCCC @ str '' '' @ DDHHMM @ str '' /p'' @ pil \<and>
    psh_hasccb psh' = 1 \<and> psh_ccbmode psh' = uint (blk ! 10) \<and> psh_ccbsubmode psh' = uint (blk ! 11) \<and>
    psh_metadata psh' = (if nids \<and> uint (blk ! 12) \<noteq> 70 then str '' !nids/'' else []) \<and>
    psh_pcat psh' = (if nids then 99 else psh_pcat psh)"
proof -
  let ?b = "heading_line TT AA ii CCCC DDHHMM @ pil @ [13, 13, 10] @ rest"
  have r: "rd m i = Some (blk ! i)" if "i < 24" for i
    using that assms(1,9) by (simp add: rd_def nth_append)
  have d: "drop 24 m = ?b" using assms(1,9) by simp
  have lb: "length m - 24 = length ?b" "24 \<le> length m" using assms(1,9) by simp_all
  have n: "int (length m) - 24 = int (length ?b)" using lb by linarith
  have small: "int (length ?b) < 2 ^ 31" using lb assms(8) by linarith
  note w = wmo_header_std [OF assms(2) refl assms(3-7) small, of W rtl st]
  have lens: "length TT = 2" "length AA = 2" "length ii = 2" "length CCCC = 4" "length DDHHMM = 6"
    using assms(2) by (simp_all add: heading_ok_def)
  have fit: "fits_buf 1024 (psh_pname psh @ TT @ AA @ ii @ str '' '' @ CCCC @ str '' '' @ DDHHMM @ str '' /p'' @ pil) =
      Some (psh_pname psh @ TT @ AA @ ii @ str '' '' @ CCCC @ str '' '' @ DDHHMM @ str '' /p'' @ pil)"
    using lens assms(3,12) by (simp add: fits_buf_def)
  have ne: "TT \<noteq> []" using lens by auto
  have meta: "ccb_metadata [] [] [] = Some []" "ccb_metadata (str ''nids/'') [] [] = Some (str '' !nids/'')"
    by (simp_all add: ccb_metadata_def fits_buf_def)
  let ?five = "TT @ AA @ [ii ! 0]"
  note hl = heading_line_five [OF assms(2), of "pil @ [13, 13, 10] @ rest"]
  have "take 5 (drop 24 m) = ?five" unfolding d by (rule hl [THEN conjunct1])
  moreover have "24 + 5 \<le> length m" using hl assms(1,9) by simp
  ultimately have five: "mem_read m 24 5 = Some ?five" by (simp add: mem_read_def)
  have "(?five \<in> set nids_headings) = (TT @ AA = str ''SDUS'' \<and> ii ! 0 \<in> {50, 51, 53, 55, 56})"
    using lens by (auto simp: nids_headings_def length_Suc_conv numeral_2_eq_2)
  then have nids: "nids = (uint (blk ! 10) = 2 \<and> uint (blk ! 11) = 0 \<and> ?five \<in> set nids_headings)" using assms(14) by simp
  have nle: "(length m < 24) = False" using lb by simp
  have rr: "rd m 0 = Some (blk ! 0)" "rd m 1 = Some (blk ! 1)" "rd m 10 = Some (blk ! 10)" "rd m 11 = Some (blk ! 11)"
    "rd m 12 = Some (blk ! 12)" "rd m 13 = Some (blk ! 13)" using r by simp_all
  have b: "uint (blk ! 0) mod 64 = 0" "uint (blk ! 1) = 12" using assms(10,11) by simp_all
  have w': "wmo_header W rtl (drop 24 m) (int (length m) - 24) st = Some (0, \<lparr>w_head = Some (TT @ AA @ ii @ str '' '' @
      CCCC @ str '' '' @ DDHHMM @ str '' /p'' @ pil), w_meta = None, w_off = None\<rparr>, st)"
    unfolding d n by (rule w)
  show ?thesis
    unfolding readccb_def Let_def rr
    using assms(13)
    by (auto simp add: b w' nle ccb_name_def ccb_datatype_def five nids fit ne meta simp del: str_Cons One_nat_def)
qed

definition demo_ccb :: "byte list" where
  "demo_ccb = [64, 12, 0, 0, 0, 0, 0, 0, 0, 0, 2, 0, 71, 70, 0, 0, 0, 0, 0, 0, 0, 0, 0, 0]"

definition demo_nids :: "byte list" where
  "demo_nids = heading_line (str ''SD'') (str ''US'') (str ''53'') (str ''KBOU'') (str ''101530'') @ str ''N0RFTG'' @ [13, 13, 10] @ [0]"

theorem readccb_heading_witness:
  "\<exists>ccb' psh'. readccb demo_wgrib False (demo_ccb @ demo_nids) \<lparr>ccb_b1 = 0, ccb_len = 0, ccb_user1 = 0, ccb_user2 = 0\<rparr>
      demo_psh (int (length (demo_ccb @ demo_nids))) demo_statics rb_blank = Some (0, ccb', psh', demo_statics, rb_blank) \<and>
    ccb_user2 ccb' = 71 \<and> psh_ccbsubmode psh' = 0 \<and> psh_pcat psh' = 99 \<and> psh_metadata psh' = str '' !nids/''"
proof -
  have 1: "demo_ccb @ demo_nids = demo_ccb @ heading_line (str ''SD'') (str ''US'') (str ''53'') (str ''KBOU'') (str ''101530'') @
      str ''N0RFTG'' @ [13, 13, 10] @ [0]"
    by (simp add: demo_nids_def)
  have 2: "heading_ok (str ''SD'') (str ''US'') (str ''53'') (str ''KBOU'') (str ''101530'')" "length (str ''N0RFTG'') = 6"
    "list_all is_alnum (str ''N0RFTG'')" "\<not> list_all is_digit (str ''N0RFTG'')" "take 4 (str ''N0RFTG'') \<noteq> str ''GRIB''" "0 \<in> set [0 :: byte]"
    by (simp_all add: heading_ok_def is_alnum_def is_digit_def)
  have 3: "int (length (demo_ccb @ demo_nids)) < 2 ^ 31" by (simp add: demo_ccb_def demo_nids_def heading_line_def)
  have 4: "length demo_ccb = 24" "uint (demo_ccb ! 0) mod 64 = 0" "uint (demo_ccb ! 1) = 12" "length (psh_pname demo_psh) \<le> 512"
    "psh_pcat demo_psh \<noteq> 2 \<or> uint (demo_ccb ! 10) = 2 \<and> uint (demo_ccb ! 11) = 0" "uint (demo_ccb ! 12) = 71"
    "uint (demo_ccb ! 10) = 2" "uint (demo_ccb ! 11) = 0"
    by (simp_all add: demo_ccb_def demo_psh_def)
  from readccb_heading [OF 1 2 3 4(1-5) refl, of demo_wgrib False "\<lparr>ccb_b1 = 0, ccb_len = 0, ccb_user1 = 0, ccb_user2 = 0\<rparr>" demo_statics rb_blank]
  show ?thesis using 4(6-8) by fastforce
qed

end
