(* ===== verification/Prod_Store.thy ===== *)
theory Prod_Store
  imports Ccb
begin

text \<open>
  What \<open>process_prod.c\<close> and \<open>ldmProductQueue.c\<close> keep: the pool of fragment records behind
  \<open>prodstore\<close>, the product heap, the registry of open LDM product-queues, and the last step that turns an
  assembled product into a queue entry.

  A pointer into the fragment pool is the generation of the pool and an index: \<open>realloc\<close> may move the pool
  (\<open>moves\<close>), which starts a new generation and leaves older pointers dangling. Following one is \<open>None\<close>.
\<close>

section \<open>Fragments\<close>

type_synonym dsptr = "nat \<times> nat"

record datastore =
  ds_seqno :: int
  ds_fragnum :: int
  ds_offset :: nat
  ds_recsiz :: int
  ds_next :: "dsptr option"

record dsheap =
  dataheap :: "datastore list option"
  ds_gen :: nat
  nextfrag :: nat
  MAXFRAGS :: nat

definition blank_ds :: datastore where
  "blank_ds = \<lparr>ds_seqno = 0, ds_fragnum = 0, ds_offset = 0, ds_recsiz = 0, ds_next = None\<rparr>"

definition ds_realloc :: "bool \<Rightarrow> dsheap \<Rightarrow> nat \<Rightarrow> dsheap" where
  "ds_realloc moves h n =
     (let old = (case dataheap h of None \<Rightarrow> [] | Some l \<Rightarrow> l)
      in h\<lparr>MAXFRAGS := n, dataheap := Some (take n old @ replicate (n - length old) blank_ds),
           ds_gen := (if moves then ds_gen h + 1 else ds_gen h)\<rparr>)"

definition ds_init :: "bool \<Rightarrow> dsheap \<Rightarrow> nat \<Rightarrow> dsheap" where
  "ds_init moves h nfrags =
     (let h1 = (if dataheap h = None then h\<lparr>dataheap := Some (replicate (MAXFRAGS h) blank_ds)\<rparr> else h);
          h2 = (if MAXFRAGS h1 \<le> nfrags then ds_realloc moves h1 (nfrags + 1) else h1)
      in h2\<lparr>nextfrag := 0\<rparr>)"

definition ds_alloc :: "bool \<Rightarrow> dsheap \<Rightarrow> dsptr \<times> dsheap" where
  "ds_alloc moves h =
     (let h1 = (if dataheap h = None then ds_init moves h (MAXFRAGS h) else h);
          h2 = (if MAXFRAGS h1 \<le> nextfrag h1 then ds_realloc moves h1 (MAXFRAGS h1 + 1000) else h1)
      in ((ds_gen h2, nextfrag h2), h2\<lparr>nextfrag := nextfrag h2 + 1\<rparr>))"

definition ds_free :: "dsheap \<Rightarrow> dsheap" where
  "ds_free h = h\<lparr>nextfrag := 0\<rparr>"

definition ds_get :: "dsheap \<Rightarrow> dsptr \<Rightarrow> datastore option" where
  "ds_get h p = (case dataheap h of None \<Rightarrow> None | Some l \<Rightarrow> if fst p = ds_gen h then rd l (snd p) else None)"

definition ds_put :: "dsheap \<Rightarrow> dsptr \<Rightarrow> datastore \<Rightarrow> dsheap option" where
  "ds_put h p d =
     (case dataheap h of
        None \<Rightarrow> None
      | Some l \<Rightarrow> if fst p = ds_gen h \<and> snd p < length l then Some (h\<lparr>dataheap := Some (l[snd p := d])\<rparr>) else None)"

definition ds_inv :: "dsheap \<Rightarrow> bool" where
  "ds_inv h \<longleftrightarrow> (case dataheap h of None \<Rightarrow> True | Some l \<Rightarrow> length l = MAXFRAGS h) \<and> nextfrag h \<le> MAXFRAGS h"

section \<open>The product heap\<close>

record prodheap =
  memheap :: "byte list option"
  largestsiz :: nat

text \<open>\<open>ok\<close>: the allocation succeeds. The contents of fresh memory are not relied upon.\<close>

definition prodalloc :: "(nat \<Rightarrow> bool) \<Rightarrow> nat \<Rightarrow> nat \<Rightarrow> prodheap \<Rightarrow> nat \<times> prodheap" where
  "prodalloc ok nfrags dbsize H =
     (let n = (if nfrags = 0 then 1 else nfrags); bsize = n * dbsize + 32
      in (bsize,
          case memheap H of
            None \<Rightarrow> \<lparr>memheap = (if ok bsize then Some (replicate bsize 0) else None), largestsiz = bsize\<rparr>
          | Some m \<Rightarrow>
              if largestsiz H < bsize
              then \<lparr>memheap = (if ok bsize then Some (take bsize m @ replicate (bsize - length m) 0) else None), largestsiz = bsize\<rparr>
              else H))"

definition heap_inv :: "prodheap \<Rightarrow> bool" where
  "heap_inv H \<longleftrightarrow> (case memheap H of None \<Rightarrow> True | Some m \<Rightarrow> length m = largestsiz H)"

section \<open>Character check\<close>

text \<open>Positions are looked at from 1; behind 100 the scan jumps to the last 101.\<close>

function ascii_from :: "byte list \<Rightarrow> nat \<Rightarrow> bool option" where
  "ascii_from pr i =
     (let psize = length pr
      in if i < sz_sub psize 1
         then (case rd pr i of
                 None \<Rightarrow> None
               | Some b \<Rightarrow>
                   if sint b < 32 \<and> (b = 3 \<and> i < sz_sub psize 9 \<or> b \<noteq> 0 \<and> b \<noteq> 30 \<and> b \<noteq> 10 \<and> b \<noteq> 13) then Some False
                   else ascii_from pr (if 100 < i + 1 \<and> i + 1 < psize - 101 then psize - 101 else i + 1))
         else Some True)"
  by pat_completeness auto

termination
  by (relation "measure (\<lambda>(pr, i). length pr - i)") (auto simp: rd_def split: if_splits)

declare ascii_from.simps [simp del]

definition prod_isascii :: "byte list \<Rightarrow> bool option" where
  "prod_isascii pr = ascii_from pr 1"

section \<open>Queue registry\<close>

text \<open>
  The static variables of \<open>lpqGet\<close>: the paths of the open queues in order, and whether \<open>queues\<close> still points
  to live memory. The results of the calls it makes are \<open>lpqres\<close>.
\<close>

record lpqreg =
  reg_paths :: "cstr list"
  reg_live :: bool

record lpqres =
  q_lock :: int
  q_realloc :: bool
  q_malloc :: bool
  q_open :: int
  q_strdup :: bool
  q_mutex :: int

fun find_path :: "cstr \<Rightarrow> cstr list \<Rightarrow> nat" where
  "find_path p [] = 0"
| "find_path p (q # qs) = (if q = p then 0 else Suc (find_path p qs))"

text \<open>
  \<open>lpqGet\<close>: status, index of the queue object if set, registry. The outer \<open>None\<close> is the use of a freed
  array. When a step after \<open>realloc\<close> fails, the new array is freed, and with it the one \<open>queues\<close>
  still points to.
\<close>

definition lpqGet :: "lpqres \<Rightarrow> cstr \<Rightarrow> cstr option \<Rightarrow> lpqreg \<Rightarrow> (int \<times> nat option \<times> lpqreg) option" where
  "lpqGet r dflt pathname R =
     (if q_lock r \<noteq> 0 then Some (2, None, R)
      else let path = (case pathname of None \<Rightarrow> dflt | Some p \<Rightarrow> p); qs = reg_paths R
           in if qs \<noteq> [] \<and> \<not> reg_live R then None
              else let i = find_path path qs
                   in if i < length qs then Some (0, Some i, R)
                      else if \<not> reg_live R then None
                      else if \<not> q_realloc r then Some (2, None, R)
                      else
                        let status = (if \<not> q_malloc r then 2 else if q_open r \<noteq> 0 then 3
                                      else if \<not> q_strdup r then 2 else if q_mutex r \<noteq> 0 then 2 else 0)
                        in if status = 0 then Some (0, Some i, R\<lparr>reg_paths := qs @ [path]\<rparr>)
                           else Some (status, None, R\<lparr>reg_live := (qs = [])\<rparr>))"

definition PQUEUE_DUP :: int where "PQUEUE_DUP = - 2"
definition EOVERFLOW :: int where "EOVERFLOW = 75"

definition lpqInsert :: "int \<Rightarrow> int \<Rightarrow> int" where
  "lpqInsert lock_st insert_st =
     (if lock_st \<noteq> 0 then 2
      else if insert_st \<noteq> 0 then (if insert_st = PQUEUE_DUP then 3 else 4) else 0)"

definition lpqClose :: "int \<Rightarrow> int \<Rightarrow> int" where
  "lpqClose lock_st close_st =
     (if lock_st \<noteq> 0 then 2
      else if close_st \<noteq> 0 then (if close_st = EOVERFLOW then 1 else 2) else 0)"

section \<open>Finished products\<close>

datatype feed = IDS_DDPLUS | HDS | NGRID | NOTHER | NEXRAD | NIMAGE

definition feedtype_of :: "sbn_struct \<Rightarrow> psh_struct \<Rightarrow> feed" where
  "feedtype_of sbn psh =
     (if sbn_datastream sbn = 6
      then (if psh_ptype psh \<in> {1, 2, 3} then NIMAGE else if psh_ptype psh = 4 then NGRID else NOTHER)
      else if psh_ptype psh < 4 then NIMAGE
      else if psh_pcat psh \<in> {1, 7} then IDS_DDPLUS
      else if psh_pcat psh \<in> {101, 107} then HDS
      else if psh_pcat psh \<in> {2, 4, 5} then HDS
      else if psh_pcat psh = 99 then NEXRAD
      else NOTHER)"

record product =
  p_feedtype :: feed
  p_seqno :: int
  p_data :: "byte list"
  p_ident :: cstr
  p_signature :: "byte list" \<comment> \<open>the bytes given to the MD5 context\<close>

text \<open>
  \<open>grib2name\<close> decodes a GRIB edition 2 message; \<open>g2\<close> is the identifier it writes, if any, and \<open>None\<close> where it does
  not return.
\<close>

definition grib2_meta :: "(byte list \<Rightarrow> nat \<Rightarrow> cstr \<Rightarrow> cstr option option) \<Rightarrow> cstr \<Rightarrow> byte list \<Rightarrow> nat \<Rightarrow> psh_struct \<Rightarrow> psh_struct option" where
  "grib2_meta g2 PROD_NAME heap heapsize psh =
     (if psh_metadata psh = str '' !grib2/'' \<and> 0 < psh_metaoff psh \<and> to_size (psh_metaoff psh) < sz_sub heapsize 16
      then do {
        g \<leftarrow> mem_read heap (nat (psh_metaoff psh)) 16;
        if take 4 g = str ''GRIB''
        then (case g2 (drop (nat (psh_metaoff psh)) heap) (to_size (be32 (g ! 12) (g ! 13) (g ! 14) (g ! 15))) PROD_NAME of
                None \<Rightarrow> None
              | Some None \<Rightarrow> Some psh
              | Some (Some ident) \<Rightarrow>
                  map_option (\<lambda>s. psh\<lparr>psh_metadata := s\<rparr>) (fits_buf 512 (take 2 (psh_metadata psh) @ ident)))
        else Some psh
      }
      else Some psh)"

text \<open>\<open>None\<close> outside; inside, the product handed to the queue, if any, and the header with its metadata.\<close>

definition process_prod ::
  "(byte list \<Rightarrow> nat \<Rightarrow> cstr \<Rightarrow> cstr option option) \<Rightarrow> int \<Rightarrow> cstr \<Rightarrow> byte list \<Rightarrow> nat \<Rightarrow> byte list \<Rightarrow> psh_struct \<Rightarrow>
   sbn_struct \<Rightarrow> (product option \<times> psh_struct) option" where
  "process_prod g2 seqno PROD_NAME heap heapsize md5 psh sbn = do {
     psh1 \<leftarrow> grib2_meta g2 PROD_NAME heap heapsize psh;
     PRODID \<leftarrow> fits_buf 1024 (PROD_NAME @ psh_metadata psh1);
     let sz = heapsize mod 2 ^ 32;
     if sz = 0 then Some (None, psh1)
     else do {
       d \<leftarrow> mem_read heap 0 sz;
       Some (Some \<lparr>p_feedtype = feedtype_of sbn psh1, p_seqno = seqno mod 2 ^ 32, p_data = d,
                   p_ident = (if PRODID = [] then str ''_NOHEAD'' else PRODID), p_signature = md5\<rparr>, psh1)
     }
   }"


section \<open>The fragment pool\<close>

text \<open>\<open>n\<close> allocations in a row, none of which may move the pool.\<close>

fun ds_allocs :: "nat \<Rightarrow> bool \<Rightarrow> dsheap \<Rightarrow> dsptr list \<times> dsheap" where
  "ds_allocs 0 moves h = ([], h)"
| "ds_allocs (Suc n) moves h =
     (case ds_alloc moves h of (p, h1) \<Rightarrow> case ds_allocs n moves h1 of (ps, h2) \<Rightarrow> (p # ps, h2))"

lemma ds_realloc_inv: "ds_inv h \<Longrightarrow> nextfrag h \<le> n \<Longrightarrow> ds_inv (ds_realloc moves h n)"
  by (auto simp: ds_inv_def ds_realloc_def Let_def split: option.splits)

lemma ds_init_inv: "ds_inv h \<Longrightarrow> ds_inv (ds_init moves h n) \<and> nextfrag (ds_init moves h n) = 0 \<and> dataheap (ds_init moves h n) \<noteq> None \<and> n < MAXFRAGS (ds_init moves h n)"
  by (auto simp: ds_init_def ds_inv_def ds_realloc_def Let_def split: option.splits)

lemma ds_alloc_inv: "ds_inv h \<Longrightarrow> ds_inv (snd (ds_alloc moves h))"
  by (auto simp: ds_alloc_def ds_init_def ds_inv_def ds_realloc_def Let_def split: option.splits)

lemma ds_alloc_room: "ds_inv h \<Longrightarrow> dataheap h \<noteq> None \<Longrightarrow> nextfrag h < MAXFRAGS h \<Longrightarrow>
  ds_alloc moves h = ((ds_gen h, nextfrag h), h\<lparr>nextfrag := nextfrag h + 1\<rparr>)"
  by (auto simp: ds_alloc_def)

lemma ds_inv_nextfrag: "ds_inv h \<Longrightarrow> k \<le> MAXFRAGS h \<Longrightarrow> ds_inv (h\<lparr>nextfrag := k\<rparr>)"
  by (auto simp: ds_inv_def split: option.splits)

lemma ds_allocs_room: "ds_inv h \<Longrightarrow> dataheap h \<noteq> None \<Longrightarrow> nextfrag h + n \<le> MAXFRAGS h \<Longrightarrow>
  ds_allocs n moves h = (map (Pair (ds_gen h)) [nextfrag h..<nextfrag h + n], h\<lparr>nextfrag := nextfrag h + n\<rparr>)"
proof (induction n arbitrary: h)
  case 0
  then show ?case by simp
next
  case (Suc n)
  let ?h = "h\<lparr>nextfrag := nextfrag h + 1\<rparr>"
  have "ds_inv ?h" using Suc.prems by (intro ds_inv_nextfrag) simp_all
  with Suc.prems have "ds_allocs n moves ?h = (map (Pair (ds_gen ?h)) [nextfrag ?h..<nextfrag ?h + n], ?h\<lparr>nextfrag := nextfrag ?h + n\<rparr>)"
    by (intro Suc.IH) simp_all
  with Suc.prems show ?case by (simp add: ds_alloc_room upt_rec [of "nextfrag h"])
qed

lemma ds_live: "ds_inv h \<Longrightarrow> dataheap h \<noteq> None \<Longrightarrow> p \<in> Pair (ds_gen h) ` {0..<MAXFRAGS h} \<Longrightarrow> ds_get h p \<noteq> None"
  by (auto simp: ds_get_def ds_inv_def rd_def)

text \<open>
  After \<open>ds_init\<close> for a product of \<open>n\<close> fragments, up to \<open>n + 1\<close> fragment records can be taken
  without \<open>realloc\<close>: the pointers are different from each other and every one of them, the ones taken first
  included, still points to a live record at the end.
\<close>

theorem ds_pool_pointers:
  assumes "ds_inv h" "k \<le> n + 1"
  shows "case ds_allocs k moves (ds_init moves h n) of (ps, h') \<Rightarrow>
    length ps = k \<and> distinct ps \<and> list_all (\<lambda>p. ds_get h' p \<noteq> None) ps \<and> ds_inv h'"
proof -
  let ?h = "ds_init moves h n" and ?g = "ds_init moves h n\<lparr>nextfrag := k\<rparr>"
  have i: "ds_inv ?h" "nextfrag ?h = 0" "dataheap ?h \<noteq> None" "n < MAXFRAGS ?h"
    using ds_init_inv [OF assms(1)] by simp_all
  have a: "ds_allocs k moves ?h = (map (Pair (ds_gen ?h)) [0..<k], ?g)"
    using ds_allocs_room [of ?h k moves] i assms(2) by simp
  have g: "ds_inv ?g"
    using i assms(2) by (intro ds_inv_nextfrag) simp_all
  have "list_all (\<lambda>p. ds_get ?g p \<noteq> None) (map (Pair (ds_gen ?h)) [0..<k])"
    unfolding list_all_iff
  proof
    fix p assume "p \<in> set (map (Pair (ds_gen ?h)) [0..<k])"
    then have "p \<in> Pair (ds_gen ?g) ` {0..<MAXFRAGS ?g}"
      using i assms(2) by auto
    with i show "ds_get ?g p \<noteq> None" by (intro ds_live [OF g]) simp_all
  qed
  then show ?thesis
    using g by (auto simp: a distinct_map inj_on_def)
qed

theorem ds_pool_pointers_witness:
  "case ds_allocs 3 True (ds_init True \<lparr>dataheap = None, ds_gen = 0, nextfrag = 0, MAXFRAGS = 2\<rparr> 2) of (ps, h') \<Rightarrow>
    length ps = 3 \<and> distinct ps \<and> list_all (\<lambda>p. ds_get h' p \<noteq> None) ps \<and> ds_inv h'"
  by (rule ds_pool_pointers) (simp_all add: ds_inv_def)

lemma ds_alloc_grows:
  assumes "ds_inv h" "dataheap h \<noteq> None" "nextfrag h = MAXFRAGS h" "ds_alloc True h = (p, h')"
  shows "ds_gen h' = ds_gen h + 1 \<and> (fst q = ds_gen h \<longrightarrow> ds_get h' q = None) \<and> ds_get h' p \<noteq> None"
  using assms by (auto simp: ds_alloc_def ds_realloc_def ds_get_def ds_inv_def rd_def Let_def split: option.splits)

section \<open>The product heap\<close>

lemma prodalloc_enough:
  assumes "heap_inv H" "prodalloc ok nfrags dbsize H = (bsize, H')" "ok bsize"
  shows "bsize = max 1 nfrags * dbsize + 32 \<and> heap_inv H' \<and> (case memheap H' of None \<Rightarrow> False | Some m \<Rightarrow> bsize \<le> length m)"
  using assms by (auto simp: prodalloc_def heap_inv_def Let_def max_def split: option.splits if_splits)

text \<open>
  \<open>prodalloc\<close> asks for the fragments times the block size plus 32 bytes, and when the allocation
  succeeds the heap really has that many, whatever it had before.
\<close>

theorem prodalloc_room:
  assumes "heap_inv H" "prodalloc ok nfrags dbsize H = (bsize, H')" "ok bsize"
  shows "bsize = max 1 nfrags * dbsize + 32 \<and> heap_inv H' \<and> (case memheap H' of None \<Rightarrow> False | Some m \<Rightarrow> bsize \<le> length m)"
  using assms by (rule prodalloc_enough)

theorem prodalloc_room_witness:
  "case prodalloc (\<lambda>_. True) 2 5 \<lparr>memheap = Some (replicate 40 0), largestsiz = 40\<rparr> of (bsize, H') \<Rightarrow>
    bsize = max 1 2 * 5 + 32 \<and> heap_inv H' \<and> (case memheap H' of None \<Rightarrow> False | Some m \<Rightarrow> bsize \<le> length m)"
proof -
  obtain b H' where "prodalloc (\<lambda>_. True) 2 5 \<lparr>memheap = Some (replicate 40 0), largestsiz = 40\<rparr> = (b, H')"
    by fastforce
  with prodalloc_room [OF _ this] show ?thesis by (auto simp: heap_inv_def split: option.splits)
qed

section \<open>The character check\<close>

definition ok_char :: "byte \<Rightarrow> bool" where
  "ok_char b \<longleftrightarrow> 32 \<le> sint b \<or> b \<in> {0, 3, 10, 13, 30}"

lemma ascii_from_step: "i < length pr - 1 \<Longrightarrow> length pr < 2 ^ 64 \<Longrightarrow>
  ascii_from pr i =
    (if sint (pr ! i) < 32 \<and> (pr ! i = 3 \<and> i < sz_sub (length pr) 9 \<or> pr ! i \<notin> {0, 10, 13, 30}) then Some False
     else ascii_from pr (if 100 < i + 1 \<and> i + 1 < length pr - 101 then length pr - 101 else i + 1))"
proof -
  assume a: "i < length pr - 1" "length pr < 2 ^ 64"
  then have s: "sz_sub (length pr) 1 = length pr - 1"
    by (intro sz_sub_eq) simp_all
  have r: "rd pr i = Some (pr ! i)" using a by (simp add: rd_def)
  have c: "(pr ! i \<noteq> 0 \<and> pr ! i \<noteq> 30 \<and> pr ! i \<noteq> 10 \<and> pr ! i \<noteq> 13) = (pr ! i \<notin> {0, 10, 13, 30})"
    by auto
  show ?thesis
    by (subst ascii_from.simps) (simp only: Let_def s r a c if_True option.case)
qed

lemma ascii_from_end: "\<not> i < length pr - 1 \<Longrightarrow> pr \<noteq> [] \<Longrightarrow> length pr < 2 ^ 64 \<Longrightarrow> ascii_from pr i = Some True"
proof -
  assume a: "\<not> i < length pr - 1" "pr \<noteq> []" "length pr < 2 ^ 64"
  then have s: "sz_sub (length pr) 1 = length pr - 1"
    by (intro sz_sub_eq) (simp_all add: Suc_leI)
  show ?thesis
    by (subst ascii_from.simps) (simp only: Let_def s a if_False)
qed

lemma ascii_from_total: "pr \<noteq> [] \<Longrightarrow> length pr < 2 ^ 64 \<Longrightarrow> ascii_from pr i \<noteq> None"
proof (induction "length pr - i" arbitrary: i rule: less_induct)
  case less
  show ?case
  proof (cases "i < length pr - 1")
    case True
    have "ascii_from pr (length pr - 101) \<noteq> None" if "i + 1 < length pr - 101"
      using that less.prems by (intro less.hyps) simp_all
    moreover have "ascii_from pr (i + 1) \<noteq> None"
      using True less.prems by (intro less.hyps) simp_all
    ultimately show ?thesis
      unfolding ascii_from_step [OF True less.prems(2)] by (auto split: if_splits)
  next
    case False
    then show ?thesis using ascii_from_end less.prems by auto
  qed
qed

text \<open>
  A product of at most 102 bytes is checked in full: every byte but the first and the last is a printable or
  8-bit-clean character, NUL, RS, CR, NL, or an ETX among the last nine.
\<close>

lemma ascii_from_short:
  "pr \<noteq> [] \<Longrightarrow> length pr \<le> 102 \<Longrightarrow> ascii_from pr i = Some True \<Longrightarrow> i \<le> j \<Longrightarrow> j < length pr - 1 \<Longrightarrow> ok_char (pr ! j)"
proof (induction "length pr - i" arbitrary: i rule: less_induct)
  case less
  then have i: "i < length pr - 1" by simp
  have l: "length pr < 2 ^ 64" using less.prems by simp
  have g: "\<not> (100 < i + 1 \<and> i + 1 < length pr - 101)" using less.prems(2) by linarith
  have n: "\<not> (sint (pr ! i) < 32 \<and> (pr ! i = 3 \<and> i < sz_sub (length pr) 9 \<or> pr ! i \<notin> {0, 10, 13, 30}))"
    and r: "ascii_from pr (i + 1) = Some True"
    using less.prems(3) unfolding ascii_from_step [OF i l] if_not_P [OF g] by (simp_all split: if_splits)
  show ?case
  proof (cases "j = i")
    case True
    with n show ?thesis by (auto simp: ok_char_def)
  next
    case False
    with less.prems i r show ?thesis by (intro less.hyps [of "i + 1"]) simp_all
  qed
qed

text \<open>
  What the check comes to: of the bytes but the first and the last, those at most 100 from the beginning and those at most
  101 from the end are looked at, and each has to be a character of ASCII or NUL, NL, CR or RS. An ETX is never allowed:
  the second condition refuses it where the first does not.
\<close>

definition plain_byte :: "byte \<Rightarrow> bool" where
  "plain_byte b \<longleftrightarrow> 32 \<le> uint b \<and> uint b < 128 \<or> b \<in> {0, 10, 13, 30}"

definition plain_text :: "byte list \<Rightarrow> bool" where
  "plain_text pr \<longleftrightarrow> list_all (\<lambda>j. plain_byte (pr ! j)) (filter (\<lambda>j. j \<le> 100 \<or> length pr - 101 \<le> j) [1..<length pr - 1])"

lemma sint_byte_cases: "sint (b::byte) = (if uint b < 128 then uint b else uint b - 256)"
proof -
  have "sint b = (uint b + 128) mod 256 - 128" by (simp add: sint_uint signed_take_bit_eq_take_bit_shift take_bit_eq_mod)
  moreover have "(uint b + 128) mod 256 = (if uint b < 128 then uint b + 128 else uint b - 128)"
    using uint_byte_bounds [of b] by (auto intro: int_mod_pos_eq [of _ _ 0] int_mod_pos_eq [of _ _ 1])
  ultimately show ?thesis by simp
qed

lemma plain_byte_iff: "(sint b < 32 \<and> (b = 3 \<and> P \<or> b \<notin> {0, 10, 13, 30})) = (\<not> plain_byte b)"
  using uint_byte_bounds [of b] by (auto simp: plain_byte_def sint_byte_cases)

lemma ascii_from_exact:
  "pr \<noteq> [] \<Longrightarrow> length pr < 2 ^ 64 \<Longrightarrow> i \<le> 100 \<or> length pr - 101 \<le> i \<Longrightarrow>
   ascii_from pr i = Some (\<forall>j. i \<le> j \<and> j < length pr - 1 \<and> (j \<le> 100 \<or> length pr - 101 \<le> j) \<longrightarrow> plain_byte (pr ! j))"
proof (induction "length pr - i" arbitrary: i rule: less_induct)
  case less
  show ?case
  proof (cases "i < length pr - 1")
    case True
    let ?k = "if 100 < i + 1 \<and> i + 1 < length pr - 101 then length pr - 101 else i + 1"
    let ?A = "\<lambda>i. \<forall>j. i \<le> j \<and> j < length pr - 1 \<and> (j \<le> 100 \<or> length pr - 101 \<le> j) \<longrightarrow> plain_byte (pr ! j)"
    have "ascii_from pr ?k = Some (?A ?k)"
      using True less.prems by (intro less.hyps) auto
    moreover have "?A i \<longleftrightarrow> plain_byte (pr ! i) \<and> ?A ?k"
    proof
      assume "?A i"
      then show "plain_byte (pr ! i) \<and> ?A ?k" using True less.prems(3) by auto
    next
      assume r: "plain_byte (pr ! i) \<and> ?A ?k"
      have "plain_byte (pr ! j)" if "i \<le> j" "j < length pr - 1" "j \<le> 100 \<or> length pr - 101 \<le> j" for j
        using r that by (cases "j = i") auto
      then show "?A i" by blast
    qed
    ultimately show ?thesis
      unfolding ascii_from_step [OF True less.prems(2)] plain_byte_iff by (cases "plain_byte (pr ! i)") simp_all
  next
    case False
    then show ?thesis using ascii_from_end [OF False less.prems(1,2)] by auto
  qed
qed

lemma prod_isascii_exact: "pr \<noteq> [] \<Longrightarrow> length pr < 2 ^ 64 \<Longrightarrow> prod_isascii pr = Some (plain_text pr)"
  using ascii_from_exact [of pr 1] by (auto simp: prod_isascii_def plain_text_def list_all_iff)

text \<open>
  The check of a product that is not empty ends without reading outside it (on an empty one the unsigned
  length wraps and the first read is out of bounds); a product of up to 102 bytes that passes has only allowed
  characters between its first and its last byte.
\<close>

theorem prod_isascii_safe:
  assumes "length pr < 2 ^ 64"
  shows "(prod_isascii pr = None) = (pr = []) \<and>
    (prod_isascii pr = Some True \<and> length pr \<le> 102 \<longrightarrow> list_all ok_char (butlast (drop 1 pr)))"
proof (cases "pr = []")
  case True
  have "prod_isascii [] = None"
    unfolding prod_isascii_def by (subst ascii_from.simps) (simp add: sz_sub_def rd_def)
  with True show ?thesis by simp
next
  case False
  have "ok_char (butlast (drop 1 pr) ! j)"
    if "ascii_from pr 1 = Some True" "length pr \<le> 102" "j < length (butlast (drop 1 pr))" for j
    using ascii_from_short [OF False that(2,1), of "j + 1"] that(3) by (simp add: nth_butlast)
  with False ascii_from_total [OF False assms] show ?thesis
    by (auto simp: prod_isascii_def list_all_length)
qed

theorem prod_isascii_safe_witness:
  "(prod_isascii [1, 65, 3] = None) = ([1, 65, 3 :: byte] = []) \<and> length [1, 65, 3 :: byte] \<le> 102"
  using prod_isascii_safe [of "[1, 65, 3]"] by simp

section \<open>Queues\<close>

lemma find_path_bound: "find_path p qs \<le> length qs"
  by (induction qs) auto

lemma find_path_nth: "find_path p qs < length qs \<Longrightarrow> qs ! find_path p qs = p"
  by (induction qs) auto

lemma find_path_absent: "find_path p qs = length qs \<longleftrightarrow> p \<notin> set qs"
proof (induction qs)
  case (Cons q qs)
  then show ?case using find_path_bound [of p qs] by auto
qed simp

lemma find_path_snoc: "p \<notin> set qs \<Longrightarrow> find_path p (qs @ [p]) = length qs"
  by (induction qs) auto


lemma lpqGet_known: "reg_live R \<Longrightarrow> q_lock r = 0 \<Longrightarrow> find_path p (reg_paths R) < length (reg_paths R) \<Longrightarrow>
  lpqGet r dflt (Some p) R = Some (0, Some (find_path p (reg_paths R)), R)"
  by (simp add: lpqGet_def)

lemma lpqGet_success:
  assumes "lpqGet r dflt pn R = Some (0, Some i, R')" "reg_live R" "distinct (reg_paths R)"
  shows "distinct (reg_paths R')" "reg_live R'" "i = find_path (case pn of None \<Rightarrow> dflt | Some p \<Rightarrow> p) (reg_paths R')"
    "i < length (reg_paths R')" "take (length (reg_paths R)) (reg_paths R') = reg_paths R"
proof -
  let ?p = "case pn of None \<Rightarrow> dflt | Some p \<Rightarrow> p" and ?qs = "reg_paths R"
  have "distinct (reg_paths R') \<and> reg_live R' \<and> i = find_path ?p (reg_paths R') \<and> i < length (reg_paths R') \<and>
      take (length ?qs) (reg_paths R') = ?qs"
  proof (cases "find_path ?p ?qs < length ?qs")
    case True
    with assms show ?thesis by (auto simp: lpqGet_def Let_def split: if_splits)
  next
    case False
    then have e: "find_path ?p ?qs = length ?qs" using find_path_bound [of ?p ?qs] by simp
    then have a: "?p \<notin> set ?qs" by (rule find_path_absent [THEN iffD1])
    from assms e have "i = length ?qs" "R' = R\<lparr>reg_paths := ?qs @ [?p]\<rparr>"
      by (auto simp: lpqGet_def Let_def split: if_splits)
    moreover have "find_path ?p (?qs @ [?p]) = length ?qs" using a by (rule find_path_snoc)
    ultimately show ?thesis
      using a assms by (cases pn) simp_all
  qed
  then show "distinct (reg_paths R')" "reg_live R'" "i = find_path ?p (reg_paths R')"
    "i < length (reg_paths R')" "take (length ?qs) (reg_paths R') = ?qs" by auto
qed

text \<open>
  While the registry's array is live and its paths are distinct, a successful \<open>lpqGet\<close> keeps both, keeps the
  queues already known at their positions, returns the queue of the requested path (the default one for NULL) and
  a later call for the same path returns the same queue and opens nothing.
\<close>

theorem lpqGet_shares:
  assumes "lpqGet r dflt pn R = Some (0, Some i, R')" "reg_live R" "distinct (reg_paths R)" "q_lock r' = 0"
  shows "distinct (reg_paths R') \<and> reg_live R' \<and> take (length (reg_paths R)) (reg_paths R') = reg_paths R \<and>
    rd (reg_paths R') i = Some (case pn of None \<Rightarrow> dflt | Some p \<Rightarrow> p) \<and> lpqGet r' dflt pn R' = Some (0, Some i, R')"
proof -
  note s = lpqGet_success [OF assms(1-3)]
  have "rd (reg_paths R') i = Some (case pn of None \<Rightarrow> dflt | Some p \<Rightarrow> p)"
    using s(3,4) find_path_nth [of _ "reg_paths R'"] by (simp add: rd_def)
  moreover have "lpqGet r' dflt pn R' = Some (0, Some i, R')"
    using s(2-4) assms(4) by (auto simp: lpqGet_def Let_def)
  ultimately show ?thesis using s by simp
qed

definition good_res :: lpqres where
  "good_res = \<lparr>q_lock = 0, q_realloc = True, q_malloc = True, q_open = 0, q_strdup = True, q_mutex = 0\<rparr>"

theorem lpqGet_shares_witness:
  "lpqGet good_res [1] None \<lparr>reg_paths = [[1], [2]], reg_live = True\<rparr> =
     Some (0, Some 0, \<lparr>reg_paths = [[1], [2]], reg_live = True\<rparr>)"
proof -
  have g: "lpqGet good_res [1] None \<lparr>reg_paths = [[1], [2]], reg_live = True\<rparr> =
      Some (0, Some 0, \<lparr>reg_paths = [[1], [2]], reg_live = True\<rparr>)"
    by (simp add: lpqGet_def good_res_def)
  have "distinct (reg_paths \<lparr>reg_paths = [[1], [2]], reg_live = True\<rparr>)" by simp
  from lpqGet_shares [OF g _ this, of good_res] show ?thesis by (simp add: good_res_def)
qed

text \<open>
  With queues already open, an \<open>lpqGet\<close> for a new path whose object cannot be made (no memory, the queue
  does not open, no mutex) frees the array that the static \<open>queues\<close> still points to: whatever is asked for next,
  that call follows the freed array.
\<close>

theorem lpqGet_failure_frees:
  assumes "reg_live R" "reg_paths R \<noteq> []" "find_path p (reg_paths R) = length (reg_paths R)" "q_lock r = 0" "q_realloc r"
    "\<not> q_malloc r \<or> q_open r \<noteq> 0 \<or> \<not> q_strdup r \<or> q_mutex r \<noteq> 0" "q_lock r' = 0"
  shows "case lpqGet r dflt (Some p) R of
      None \<Rightarrow> False
    | Some (status, i, R') \<Rightarrow> status \<in> {2, 3} \<and> i = None \<and> lpqGet r' dflt pn R' = None"
  using assms by (auto simp: lpqGet_def Let_def)

theorem lpqGet_failure_frees_witness:
  "case lpqGet (good_res\<lparr>q_open := 2\<rparr>) [1] (Some [2]) \<lparr>reg_paths = [[1]], reg_live = True\<rparr> of
      None \<Rightarrow> False
    | Some (status, i, R') \<Rightarrow> status \<in> {2, 3} \<and> i = None \<and> lpqGet good_res [1] (Some [1]) R' = None"
  by (rule lpqGet_failure_frees) (simp_all add: good_res_def)

section \<open>Process a product\<close>

lemma process_prod_plain:
  assumes "psh_metadata psh \<noteq> str '' !grib2/''" "length (PROD_NAME @ psh_metadata psh) < 1024"
    "heapsize \<le> length heap" "heapsize < 2 ^ 32"
  shows "process_prod g2 seqno PROD_NAME heap heapsize md5 psh sbn =
    Some (if heapsize = 0 then None
          else Some \<lparr>p_feedtype = feedtype_of sbn psh, p_seqno = seqno mod 2 ^ 32, p_data = take heapsize heap,
                     p_ident = (if PROD_NAME @ psh_metadata psh = [] then str ''_NOHEAD'' else PROD_NAME @ psh_metadata psh),
                     p_signature = md5\<rparr>, psh)"
proof -
  have g: "grib2_meta g2 PROD_NAME heap heapsize psh = Some psh"
    using assms(1) by (simp add: grib2_meta_def)
  have f: "fits_buf 1024 (PROD_NAME @ psh_metadata psh) = Some (PROD_NAME @ psh_metadata psh)"
    using assms(2) by (simp add: fits_buf_def)
  have m: "heapsize mod 2 ^ 32 = heapsize" using assms(4) by simp
  have r: "mem_read heap 0 heapsize = Some (take heapsize heap)"
    using assms(3) by (simp add: mem_read_def)
  show ?thesis
    by (simp only: process_prod_def g f m r Let_def bind.bind_lunit split: if_split) simp
qed

end
