(* ===== verification/Png_Io.thy ===== *)
theory Png_Io
  imports NP_Prelude
begin

text \<open>
  The PNG writer of satellite images (\<open>png_io.c\<close>). The bundled libpng is a parameter \<open>png_fns\<close>: the bytes it
  passes to the write function for a given sequence of calls. The static variables are \<open>png_io\<close>; the memory
  and the digest that \<open>prodmap\<close> and \<open>md5p\<close> point to are the \<open>sink\<close>. A generation tells an old product heap
  from the current one: writing through a \<open>prodmap\<close> of an older generation is \<open>None\<close>.

  \<open>setjmp\<close> is called in \<open>pngout_init\<close> only, so an error of libpng in any later call jumps into a frame that has
  returned: also \<open>None\<close>.
\<close>

section \<open>State\<close>

record png_fns =
  png_info :: "int \<Rightarrow> int \<Rightarrow> byte list \<times> bool" \<comment> \<open>bytes written up to \<open>png_write_info\<close>, success\<close>
  png_row :: "int \<Rightarrow> int \<Rightarrow> byte list list \<Rightarrow> byte list \<Rightarrow> byte list option" \<comment> \<open>bytes written for one more row\<close>
  png_idat :: "int \<Rightarrow> int \<Rightarrow> byte list list \<Rightarrow> bool" \<comment> \<open>\<open>PNG_HAVE_IDAT\<close>\<close>
  png_fin :: "int \<Rightarrow> int \<Rightarrow> byte list list \<Rightarrow> byte list option"

record png_writer =
  pw_width :: int
  pw_height :: int
  pw_rows :: "byte list list"

record png_io =
  prodmap :: "nat option"
  prodoff :: nat
  png_deflen :: nat
  png_ptr :: "png_writer option"
  PNG_write_calls :: nat

record sink =
  sk_gen :: nat
  sk_mem :: "byte list"
  sk_md5 :: "byte list"

section \<open>Operations\<close>

definition png_get_prodlen :: "png_io \<Rightarrow> nat" where
  "png_get_prodlen io = prodoff io"

text \<open>Also the body of \<open>unidata_write_data_fn\<close>, the function libpng calls.\<close>

definition png_header :: "byte list \<Rightarrow> png_io \<times> sink \<Rightarrow> (png_io \<times> sink) option" where
  "png_header d s =
     (case s of (io, k) \<Rightarrow>
        if prodmap io = Some (sk_gen k)
        then (case mem_write (sk_mem k) (prodoff io) d of
                None \<Rightarrow> None
              | Some m \<Rightarrow> Some (io\<lparr>prodoff := prodoff io + length d, png_deflen := png_deflen io + length d\<rparr>,
                                k\<lparr>sk_mem := m, sk_md5 := sk_md5 k @ d\<rparr>))
        else None)"

definition png_set_memheap :: "nat \<Rightarrow> png_io \<Rightarrow> png_io" where
  "png_set_memheap gen io = io\<lparr>prodmap := Some gen, prodoff := 0, png_deflen := 0\<rparr>"

definition pngout_init :: "png_fns \<Rightarrow> int \<Rightarrow> int \<Rightarrow> png_io \<times> sink \<Rightarrow> (png_io \<times> sink) option" where
  "pngout_init F w h s =
     (case png_info F w h of (d, ok) \<Rightarrow>
        (case png_header d s of
           None \<Rightarrow> None
         | Some (io, k) \<Rightarrow>
             if ok then Some (io\<lparr>png_ptr := Some \<lparr>pw_width = w, pw_height = h, pw_rows = []\<rparr>, PNG_write_calls := 0\<rparr>, k)
             else Some (io\<lparr>png_ptr := None\<rparr>, k)))"

text \<open>\<open>m\<close> is the memory from the pointer on; libpng reads as many bytes as the image is wide.\<close>

definition pngwrite :: "png_fns \<Rightarrow> byte list \<Rightarrow> png_io \<times> sink \<Rightarrow> (png_io \<times> sink) option" where
  "pngwrite F m s =
     (case png_ptr (fst s) of
        None \<Rightarrow> None
      | Some p \<Rightarrow>
          do {
            row \<leftarrow> mem_read m 0 (nat (pw_width p));
            d \<leftarrow> png_row F (pw_width p) (pw_height p) (pw_rows p) row;
            (io, k) \<leftarrow> png_header d s;
            Some (io\<lparr>png_ptr := Some (p\<lparr>pw_rows := pw_rows p @ [row]\<rparr>), PNG_write_calls := PNG_write_calls io + 1\<rparr>, k)
          })"

definition pngout_end :: "png_fns \<Rightarrow> png_io \<times> sink \<Rightarrow> (png_io \<times> sink) option" where
  "pngout_end F s =
     (case png_ptr (fst s) of
        None \<Rightarrow> None
      | Some p \<Rightarrow>
          do {
            (io, k) \<leftarrow> (if png_idat F (pw_width p) (pw_height p) (pw_rows p)
                        then do { d \<leftarrow> png_fin F (pw_width p) (pw_height p) (pw_rows p); png_header d s }
                        else Some s);
            Some (io\<lparr>png_ptr := None, PNG_write_calls := 0\<rparr>, k)
          })"

section \<open>A whole image\<close>

text \<open>
  The specification: the bytes libpng produces for a sequence of rows, \<open>None\<close> when it reports an error.
\<close>

fun rows_out :: "png_fns \<Rightarrow> int \<Rightarrow> int \<Rightarrow> byte list list \<Rightarrow> byte list list \<Rightarrow> byte list option" where
  "rows_out F w h done [] = Some []"
| "rows_out F w h done (r # rs) = do {
     d \<leftarrow> png_row F w h done r;
     e \<leftarrow> rows_out F w h (done @ [r]) rs;
     Some (d @ e)
   }"

definition image_out :: "png_fns \<Rightarrow> int \<Rightarrow> int \<Rightarrow> byte list list \<Rightarrow> byte list option" where
  "image_out F w h rows = do {
     d \<leftarrow> rows_out F w h [] rows;
     e \<leftarrow> (if png_idat F w h rows then png_fin F w h rows else Some []);
     Some (fst (png_info F w h) @ d @ e)
   }"

fun pngwrites :: "png_fns \<Rightarrow> byte list list \<Rightarrow> png_io \<times> sink \<Rightarrow> (png_io \<times> sink) option" where
  "pngwrites F [] s = Some s"
| "pngwrites F (r # rs) s = do { s1 \<leftarrow> pngwrite F r s; pngwrites F rs s1 }"

text \<open>The sequence of calls the product-maker makes for one image: heading, initialisation, rows, end.\<close>

definition png_image :: "png_fns \<Rightarrow> nat \<Rightarrow> byte list \<Rightarrow> int \<Rightarrow> int \<Rightarrow> byte list list \<Rightarrow> png_io \<times> sink \<Rightarrow> (png_io \<times> sink) option" where
  "png_image F gen hdr w h rows s = do {
     s1 \<leftarrow> png_header hdr (png_set_memheap gen (fst s), snd s);
     s2 \<leftarrow> pngout_init F w h s1;
     s3 \<leftarrow> pngwrites F rows s2;
     pngout_end F s3
   }"

text \<open>The writer has put exactly \<open>out\<close> into the sink: at the start of the memory, and into the digest after \<open>md\<close>.\<close>

definition wrote :: "byte list \<Rightarrow> byte list \<Rightarrow> sink \<Rightarrow> png_io \<times> sink \<Rightarrow> bool" where
  "wrote out md k0 s \<longleftrightarrow> (case s of (io, k) \<Rightarrow>
     prodmap io = Some (sk_gen k) \<and> sk_gen k = sk_gen k0 \<and> prodoff io = length out \<and> png_deflen io = length out \<and>
     sk_md5 k = md @ out \<and> length out \<le> length (sk_mem k0) \<and> sk_mem k = out @ drop (length out) (sk_mem k0))"

lemma mem_write_append:
  "mem_write (out @ drop (length out) m0) (length out) d =
     (if length (out @ d) \<le> max (length out) (length m0) then Some ((out @ d) @ drop (length (out @ d)) m0) else None)"
  by (auto simp: mem_write_def blit_def max_def add.commute)

lemma png_header_wrote:
  assumes "wrote out md k0 s" "length (out @ d) \<le> length (sk_mem k0)"
  shows "\<exists>s'. png_header d s = Some s' \<and> wrote (out @ d) md k0 s' \<and> png_ptr (fst s') = png_ptr (fst s)"
proof -
  obtain io k where s: "s = (io, k)" by (cases s)
  have w: "prodmap io = Some (sk_gen k)" "prodoff io = length out" "sk_mem k = out @ drop (length out) (sk_mem k0)"
    using assms(1) by (auto simp: wrote_def s)
  have m: "mem_write (sk_mem k) (prodoff io) d = Some ((out @ d) @ drop (length (out @ d)) (sk_mem k0))"
    unfolding w(2,3) mem_write_append using assms(2) by (simp add: max_def)
  show ?thesis
    using assms w(1) m by (simp add: png_header_def s wrote_def)
qed

lemma pngout_init_wrote:
  assumes "wrote out md k0 s" "length (out @ fst (png_info F w h)) \<le> length (sk_mem k0)" "snd (png_info F w h)"
  shows "\<exists>s'. pngout_init F w h s = Some s' \<and> wrote (out @ fst (png_info F w h)) md k0 s' \<and>
    png_ptr (fst s') = Some \<lparr>pw_width = w, pw_height = h, pw_rows = []\<rparr>"
  using png_header_wrote [OF assms(1,2)] assms(3)
  by (auto simp: pngout_init_def wrote_def split: prod.splits)

lemma pngwrites_wrote:
  assumes "wrote out md k0 s" "png_ptr (fst s) = Some \<lparr>pw_width = w, pw_height = h, pw_rows = done\<rparr>"
    "rows_out F w h done rows = Some d" "list_all (\<lambda>r. length r = nat w) rows" "length (out @ d) \<le> length (sk_mem k0)"
  shows "\<exists>s'. pngwrites F rows s = Some s' \<and> wrote (out @ d) md k0 s' \<and>
    png_ptr (fst s') = Some \<lparr>pw_width = w, pw_height = h, pw_rows = done @ rows\<rparr>"
  using assms
proof (induction rows arbitrary: out s "done" d)
  case Nil
  then show ?case by simp
next
  case (Cons r rs)
  from Cons.prems(3) obtain d1 d2 where d: "png_row F w h done r = Some d1" "rows_out F w h (done @ [r]) rs = Some d2" "d = d1 @ d2"
    by (auto simp: bind_eq_Some_conv)
  have rd: "mem_read r 0 (nat w) = Some r" using Cons.prems(4) by (simp add: mem_read_def)
  obtain s1 where s1: "png_header d1 s = Some s1" "wrote (out @ d1) md k0 s1"
    using png_header_wrote [OF Cons.prems(1), of d1] Cons.prems(5) d(3) by auto
  define s2 where "s2 = (case s1 of (io, k) \<Rightarrow>
      (io\<lparr>png_ptr := Some \<lparr>pw_width = w, pw_height = h, pw_rows = done @ [r]\<rparr>, PNG_write_calls := PNG_write_calls io + 1\<rparr>, k))"
  have w1: "pngwrite F r s = Some s2"
    using Cons.prems(2) d(1) rd s1(1) by (simp add: pngwrite_def s2_def split: prod.splits)
  have "wrote (out @ d1) md k0 s2" "png_ptr (fst s2) = Some \<lparr>pw_width = w, pw_height = h, pw_rows = done @ [r]\<rparr>"
    using s1(2) by (auto simp: s2_def wrote_def split: prod.splits)
  from Cons.IH [OF this d(2)] Cons.prems(4,5) d(3) w1 show ?case by auto
qed

lemma pngout_end_wrote:
  assumes "wrote out md k0 s" "png_ptr (fst s) = Some \<lparr>pw_width = w, pw_height = h, pw_rows = rows\<rparr>"
    "(if png_idat F w h rows then png_fin F w h rows else Some []) = Some e" "length (out @ e) \<le> length (sk_mem k0)"
  shows "\<exists>s'. pngout_end F s = Some s' \<and> wrote (out @ e) md k0 s' \<and> png_ptr (fst s') = None"
proof (cases "png_idat F w h rows")
  case True
  from png_header_wrote [OF assms(1,4)] obtain s1 where "png_header e s = Some s1" "wrote (out @ e) md k0 s1" by blast
  with True assms(2,3) show ?thesis
    by (auto simp: pngout_end_def wrote_def split: prod.splits)
next
  case False
  with assms(3) have "e = []" by simp
  with False assms(1,2) show ?thesis
    by (auto simp: pngout_end_def wrote_def split: prod.splits)
qed

text \<open>
  C26: When the heap has room for it, an image leaves at the start of the product heap exactly its heading followed
  by the bytes libpng produces for its rows; the digest has been given the same bytes, \<open>png_get_prodlen\<close> is their
  number, and the rest of the heap is as before.
\<close>

theorem png_image_written:
  assumes "image_out F w h rows = Some out" "snd (png_info F w h)" "list_all (\<lambda>r. length r = nat w) rows"
    "length (hdr @ out) \<le> length (sk_mem k)" "gen = sk_gen k"
  shows "\<exists>io' k'. png_image F gen hdr w h rows (io, k) = Some (io', k') \<and> png_get_prodlen io' = length (hdr @ out) \<and>
    sk_mem k' = (hdr @ out) @ drop (length (hdr @ out)) (sk_mem k) \<and> sk_md5 k' = sk_md5 k @ hdr @ out \<and> png_ptr io' = None"
proof -
  let ?i = "fst (png_info F w h)"
  obtain d e where d: "rows_out F w h [] rows = Some d" and
    e: "(if png_idat F w h rows then png_fin F w h rows else Some []) = Some e" and out: "out = ?i @ d @ e"
    using assms(1) by (auto simp: image_out_def bind_eq_Some_conv)
  have w0: "wrote [] (sk_md5 k) k (png_set_memheap gen io, k)"
    using assms(5) by (simp add: wrote_def png_set_memheap_def)
  obtain s1 where s1: "png_header hdr (png_set_memheap gen io, k) = Some s1" "wrote hdr (sk_md5 k) k s1"
    using png_header_wrote [OF w0, of hdr] assms(4) by auto
  obtain s2 where s2: "pngout_init F w h s1 = Some s2" "wrote (hdr @ ?i) (sk_md5 k) k s2"
    "png_ptr (fst s2) = Some \<lparr>pw_width = w, pw_height = h, pw_rows = []\<rparr>"
    using pngout_init_wrote [OF s1(2), of F w h] assms(2,4) out by auto
  obtain s3 where s3: "pngwrites F rows s2 = Some s3" "wrote ((hdr @ ?i) @ d) (sk_md5 k) k s3"
    "png_ptr (fst s3) = Some \<lparr>pw_width = w, pw_height = h, pw_rows = [] @ rows\<rparr>"
    using pngwrites_wrote [OF s2(2,3) d assms(3)] assms(4) out by auto
  have "length (((hdr @ ?i) @ d) @ e) \<le> length (sk_mem k)"
    using assms(4) out by simp
  then obtain s4 where "pngout_end F s3 = Some s4" "wrote (((hdr @ ?i) @ d) @ e) (sk_md5 k) k s4" "png_ptr (fst s4) = None"
    using pngout_end_wrote [OF s3(2) s3(3) [simplified] e] by blast
  then show ?thesis
    using s1(1) s2(1) s3(1) by (cases s4) (simp add: png_image_def wrote_def out png_get_prodlen_def)
qed

definition demo_png :: png_fns where
  "demo_png = \<lparr>png_info = (\<lambda>w h. ([137, 80, 78, 71], True)), png_row = (\<lambda>_ _ _ r. Some r),
     png_idat = (\<lambda>_ _ rs. rs \<noteq> []), png_fin = (\<lambda>_ _ _. Some [73, 69])\<rparr>"

theorem png_image_written_witness:
  "\<exists>io' k'. png_image demo_png 3 [65, 10] 2 1 [[7, 8]]
      (\<lparr>prodmap = None, prodoff = 9, png_deflen = 0, png_ptr = None, PNG_write_calls = 0\<rparr>,
       \<lparr>sk_gen = 3, sk_mem = replicate 12 0, sk_md5 = []\<rparr>) = Some (io', k') \<and> png_get_prodlen io' = 10 \<and>
    sk_mem k' = [65, 10, 137, 80, 78, 71, 7, 8, 73, 69, 0, 0] \<and> sk_md5 k' = [65, 10, 137, 80, 78, 71, 7, 8, 73, 69] \<and> png_ptr io' = None"
proof -
  have i: "image_out demo_png 2 1 [[7, 8]] = Some [137, 80, 78, 71, 7, 8, 73, 69]"
    by (simp add: image_out_def demo_png_def)
  have "snd (png_info demo_png 2 1)" by (simp add: demo_png_def)
  from png_image_written [OF i this, of "[65, 10]" "\<lparr>sk_gen = 3, sk_mem = replicate 12 0, sk_md5 = []\<rparr>" 3
      "\<lparr>prodmap = None, prodoff = 9, png_deflen = 0, png_ptr = None, PNG_write_calls = 0\<rparr>"]
  show ?thesis by (simp add: numeral_eq_Suc)
qed

end
