(* ===== verification/Product_Maker.thy ===== *)
theory Product_Maker
  imports Pdb Prod_Store Png_Io
begin

text \<open>
  The product-maker (\<open>productMaker.c\<close>): it reads packets from the FIFO, checks their headers, assembles the
  fragments of a product in the product heap and hands complete products to the LDM queue.

  The struct is the record \<open>productMaker\<close>; \<open>pm\<close> adds the local variables of \<open>pmStart\<close> and what the functions
  it calls keep in static variables. The FIFO is the list of bytes that will be delivered before it is closed,
  \<open>pm_inp\<close>. \<open>heapcount\<close>, \<open>heapsize\<close> and \<open>PROD_NAME\<close> are declared inside the packet loop but a continuation
  packet uses the values the previous packet left: C leaves them indeterminate, the model keeps them.

  One pass of the loop is \<open>pm_packet\<close>. A \<open>flow\<close> says how a part of the pass ends: it goes on, \<open>continue\<close>s with
  the next packet, leaves the loop, waits for ever in \<open>fifoRead\<close>, or does something C leaves undefined.
\<close>

section \<open>State\<close>

record productMaker =
  npackets :: nat
  nmissed :: nat
  nprods :: nat
  pm_sbn :: sbn_struct
  pm_pdh :: pdh_struct
  pm_psh :: psh_struct
  pm_pdb :: pdb_struct
  pm_ccb :: ccb_struct
  pm_status :: int
  pm_buf :: "byte list"

record pm = productMaker +
  pm_inp :: "byte list"
  pm_reads :: nat
  last_sbn_seqno :: nat
  last_sbn_runno :: nat
  PNGINIT :: bool
  pm_png :: png_io
  pm_heap :: prodheap
  pm_hgen :: nat \<comment> \<open>generation of the product heap\<close>
  pm_md5 :: "byte list"
  prod_seqno :: int
  prod_nfrag :: int
  prod_head :: "dsptr option"
  prod_tail :: "dsptr option"
  pm_ds :: dsheap
  NWSTG :: bool
  GOES :: bool
  PROD_COMPRESSED :: bool
  heapcount :: nat
  heapsize :: nat
  PROD_NAME :: cstr
  dataoff :: int
  datalen :: int
  deflen :: int
  pfrag :: dsptr
  pm_statics :: statics
  pm_rb :: rbst
  pm_uncompr :: "byte list"
  pm_queue :: "product list" \<comment> \<open>products given to \<open>lpqInsert\<close>, in order\<close>

text \<open>
  The surroundings: the size of the FIFO, which calls of \<open>fifoRead\<close> fail in a pthread function, whether the FIFO
  was already closed when a read of no bytes finds it empty, whether \<open>realloc\<close> moves, which sizes can be
  allocated, in which order arguments are evaluated, and the bundled libraries.
\<close>

record pm_env =
  e_fz :: nat
  e_oserr :: "nat \<Rightarrow> bool"
  e_closed :: "nat \<Rightarrow> bool"
  e_moves :: bool
  e_alloc :: "nat \<Rightarrow> bool"
  e_rtl :: bool
  e_inflate :: inflate_fn
  e_wgrib :: wgrib_fns
  e_g2 :: "byte list \<Rightarrow> nat \<Rightarrow> cstr \<Rightarrow> cstr option option"
  e_png :: png_fns

datatype flow = Go pm | Cont pm | Halt int pm | Wait pm | Crash

fun flow_bind :: "flow \<Rightarrow> (pm \<Rightarrow> flow) \<Rightarrow> flow" where
  "flow_bind (Go s) k = k s"
| "flow_bind (Cont s) k = Cont s"
| "flow_bind (Halt n s) k = Halt n s"
| "flow_bind (Wait s) k = Wait s"
| "flow_bind Crash k = Crash"

definition go :: "pm option \<Rightarrow> flow" where
  "go r = (case r of None \<Rightarrow> Crash | Some s \<Rightarrow> Go s)"

lemma go_simps [simp]: "go None = Crash" "go (Some s) = Go s"
  by (simp_all add: go_def)

section \<open>Reading the FIFO\<close>

text \<open>\<open>fifoRead\<close> on a stream that will be closed: \<open>None\<close> is a read that waits for ever.\<close>

definition stream_read :: "nat \<Rightarrow> bool \<Rightarrow> bool \<Rightarrow> byte list \<Rightarrow> nat \<Rightarrow> (int \<times> byte list \<times> byte list) option" where
  "stream_read fz oserr closed inp n =
     (if fz < n then Some (1, [], inp)
      else if oserr then Some (2, [], inp)
      else if inp = [] \<and> (n \<noteq> 0 \<or> closed) then Some (3, [], inp)
      else if n \<le> length inp then Some (0, take n inp, drop n inp)
      else None)"

datatype fread = Got int pm | Forever pm | Overrun

definition pm_read :: "pm_env \<Rightarrow> nat \<Rightarrow> nat \<Rightarrow> pm \<Rightarrow> fread" where
  "pm_read E off n s =
     (let s1 = s\<lparr>pm_reads := pm_reads s + 1\<rparr>
      in case stream_read (e_fz E) (e_oserr E (pm_reads s)) (e_closed E (pm_reads s)) (pm_inp s) n of
           None \<Rightarrow> Forever s1
         | Some (st, d, rest) \<Rightarrow>
             (if st = 0
              then (case mem_write (pm_buf s) off d of
                      None \<Rightarrow> Overrun
                    | Some b \<Rightarrow> Got 0 (s1\<lparr>pm_buf := b, pm_inp := rest\<rparr>))
              else Got st s1))"

fun on_read :: "fread \<Rightarrow> (int \<Rightarrow> pm \<Rightarrow> flow) \<Rightarrow> flow" where
  "on_read (Got st s) k = k st s"
| "on_read (Forever s) k = Wait s"
| "on_read Overrun k = Crash"

lemma pm_read_ok: "pm_read E off n s = Got 0 s' \<Longrightarrow>
  n \<le> length (pm_inp s) \<and> off + n \<le> length (pm_buf s) \<and>
  s' = s\<lparr>pm_reads := pm_reads s + 1, pm_buf := blit (pm_buf s) off (take n (pm_inp s)), pm_inp := drop n (pm_inp s)\<rparr>"
  by (auto simp: pm_read_def stream_read_def mem_write_def Let_def split: if_splits option.splits)

lemma pm_read_fail: "pm_read E off n s = Got st s' \<Longrightarrow> st \<noteq> 0 \<Longrightarrow>
  s' = s\<lparr>pm_reads := pm_reads s + 1\<rparr> \<and> st \<in> {1, 2, 3}"
  by (auto simp: pm_read_def stream_read_def mem_write_def Let_def split: if_splits option.splits)

lemma pm_read_le: "pm_read E off n s = Got st s' \<Longrightarrow> length (pm_inp s') \<le> length (pm_inp s)"
  by (cases "st = 0") (auto dest: pm_read_ok pm_read_fail)

lemma pm_read_less: "pm_read E off n s = Got 0 s' \<Longrightarrow> 0 < n \<Longrightarrow> length (pm_inp s') < length (pm_inp s)"
  using pm_read_ok [of E off n s s'] by auto

lemma pm_read_avail:
  "n \<le> e_fz E \<Longrightarrow> \<not> e_oserr E (pm_reads s) \<Longrightarrow> pm_inp s = d @ rest \<Longrightarrow> length d = n \<Longrightarrow> 0 < n \<Longrightarrow> off + n \<le> length (pm_buf s) \<Longrightarrow>
   pm_read E off n s = Got 0 (s\<lparr>pm_reads := pm_reads s + 1, pm_buf := blit (pm_buf s) off d, pm_inp := rest\<rparr>)"
  by (auto simp: pm_read_def stream_read_def mem_write_def Let_def)

section \<open>Start of a packet\<close>

text \<open>
  After 16 bytes are in the buffer: as long as they are not a frame header, everything before the next byte 255
  is dropped and as many bytes are read again.
\<close>

function sbn_sync :: "pm_env \<Rightarrow> pm \<Rightarrow> flow" where
  "sbn_sync E s =
     (case readsbn (pm_buf s) (pm_sbn s) of
        None \<Rightarrow> Crash
      | Some (st, h) \<Rightarrow>
          (let s1 = s\<lparr>pm_sbn := h\<rparr>
           in if st = 0 then Go s1
              else let IOFF = Suc (length (takeWhile (\<lambda>b. b \<noteq> 255) (take 15 (drop 1 (pm_buf s1)))))
                   in if 15 < IOFF then Cont s1
                      else (case pm_read E (16 - IOFF) IOFF
                                   (s1\<lparr>pm_buf := blit (pm_buf s1) 0 (take (16 - IOFF) (drop IOFF (pm_buf s1)))\<rparr>) of
                              Got st s2 \<Rightarrow> if st \<noteq> 0 then Cont s2 else sbn_sync E s2
                            | Forever s2 \<Rightarrow> Wait s2
                            | Overrun \<Rightarrow> Crash)))"
  by pat_completeness auto

termination
  by (relation "measure (\<lambda>(E, s). length (pm_inp s))") (auto dest: pm_read_less)

declare sbn_sync.simps [simp del]

definition pm_sync :: "pm_env \<Rightarrow> pm \<Rightarrow> flow" where
  "pm_sync E s =
     on_read (pm_read E 0 1 s) (\<lambda>st s1.
       if st \<noteq> 0 then Halt (if st = 3 then 0 else st) s1
       else if pm_buf s1 ! 0 \<noteq> 255 then Cont s1
       else on_read (pm_read E 1 15 s1) (\<lambda>st s2.
         if st \<noteq> 0 then Cont s2
         else flow_bind (sbn_sync E s2) (\<lambda>s3.
           on_read (pm_read E 16 16 s3) (\<lambda>st s4. if st \<noteq> 0 then Cont s4 else Go s4))))"

definition pm_count :: "pm \<Rightarrow> pm" where
  "pm_count s =
     (let seqno = sbn_seqno (pm_sbn s); runno = to_size (sbn_runno (pm_sbn s));
          s1 = (if last_sbn_runno s \<noteq> runno then s\<lparr>last_sbn_runno := runno\<rparr>
                else let delta = sz_sub seqno (last_sbn_seqno s)
                     in if delta = 0 \<or> 2147483647 < delta then s
                        else s\<lparr>nmissed := (if delta \<noteq> 1 then sz_add (nmissed s) (delta - 1) else nmissed s),
                               npackets := sz_add (npackets s) 1\<rparr>)
      in s1\<lparr>last_sbn_seqno := seqno\<rparr>)"

definition pm_classify :: "pm \<Rightarrow> flow" where
  "pm_classify s =
     (let h = pm_sbn s
      in if sbn_command h \<noteq> 3 \<and> sbn_command h \<noteq> 5 \<or> sbn_version h \<noteq> 1 then Cont s
         else if sbn_datastream h \<in> {7, 6, 5} then Go (s\<lparr>NWSTG := True, GOES := False\<rparr>)
         else if sbn_datastream h \<in> {1, 2, 4} then Go (s\<lparr>NWSTG := False, GOES := True\<rparr>)
         else Cont s)"

definition pm_vet :: "pm \<Rightarrow> flow" where
  "pm_vet s =
     (let h = pm_pdh s; s1 = s\<lparr>PROD_COMPRESSED := bit (pdh_transtype h) 4\<rparr>
      in if pdh_version h \<noteq> 1 then Cont s
         else if pdh_pshlen h = 0 \<and> pdh_transtype h = 0 then Cont s1
         else Go s1)"

definition pm_header :: "pm_env \<Rightarrow> pm \<Rightarrow> flow" where
  "pm_header E s =
     (case readpdh (drop (nat (sbn_len (pm_sbn s))) (pm_buf s)) (pm_pdh s) of
        None \<Rightarrow> Crash
      | Some (st, h) \<Rightarrow>
          (let s1 = s\<lparr>pm_pdh := h\<rparr>
           in if st = - 1 then Cont s1
              else if 16 < pdh_len h
              then on_read (pm_read E (nat (sbn_len (pm_sbn s)) + 16) (nat (pdh_len h - 16)) s1)
                     (\<lambda>st s2. if st \<noteq> 0 then Cont s2 else pm_vet s2)
              else pm_vet s1))"

section \<open>Start of a product\<close>

text \<open>Offset of the data block in the buffer.\<close>

definition blockoff :: "pm \<Rightarrow> nat" where
  "blockoff s = nat (sbn_len (pm_sbn s) + pdh_len (pm_pdh s) + pdh_pshlen (pm_pdh s))"

definition pm_psh_header :: "pm_env \<Rightarrow> pm \<Rightarrow> flow" where
  "pm_psh_header E s =
     (let off = nat (sbn_len (pm_sbn s) + pdh_len (pm_pdh s))
      in on_read (pm_read E off (to_size (pdh_pshlen (pm_pdh s))) s) (\<lambda>st s1.
           if st \<noteq> 0 then Cont s1
           else if sbn_command (pm_sbn s1) = 5 then Cont s1
           else (case readpsh (drop off (pm_buf s1)) (pm_psh s1) of
                   None \<Rightarrow> Crash
                 | Some (st, h) \<Rightarrow>
                     (let s2 = s1\<lparr>pm_psh := h\<rparr>
                      in if st = - 1 then Cont s2
                         else if psh_olen h \<noteq> pdh_pshlen (pm_pdh s2) then Cont s2 else Go s2))))"

definition heap_mem :: "pm \<Rightarrow> byte list" where
  "heap_mem s = (case memheap (pm_heap s) of None \<Rightarrow> [] | Some m \<Rightarrow> m)"

definition set_heap_mem :: "byte list \<Rightarrow> pm \<Rightarrow> pm" where
  "set_heap_mem m s = s\<lparr>pm_heap := (pm_heap s)\<lparr>memheap := map_option (\<lambda>_. m) (memheap (pm_heap s))\<rparr>\<rparr>"

definition heap_put :: "nat \<Rightarrow> byte list \<Rightarrow> pm \<Rightarrow> pm option" where
  "heap_put off d s = map_option (\<lambda>m. set_heap_mem m s) (mem_write (heap_mem s) off d)"

text \<open>Calls of \<open>png_io.c\<close>: the sink is the product heap and the digest.\<close>

definition with_png :: "(png_io \<times> sink \<Rightarrow> (png_io \<times> sink) option) \<Rightarrow> pm \<Rightarrow> pm option" where
  "with_png f s =
     map_option (\<lambda>(io, k). set_heap_mem (sk_mem k) s\<lparr>pm_png := io, pm_md5 := sk_md5 k\<rparr>)
       (f (pm_png s, \<lparr>sk_gen = pm_hgen s, sk_mem = heap_mem s, sk_md5 = pm_md5 s\<rparr>))"

definition pm_free :: "pm \<Rightarrow> pm" where
  "pm_free s = s\<lparr>pm_ds := ds_free (pm_ds s), prod_head := None, prod_tail := None\<rparr>"

text \<open>A product is still unfinished when the next one starts.\<close>

definition pm_abandon :: "pm_env \<Rightarrow> pm \<Rightarrow> flow" where
  "pm_abandon E s =
     (if prod_head s \<noteq> None
      then (let s1 = pm_free s
            in if PNGINIT s1 then go (map_option (\<lambda>s2. s2\<lparr>PNGINIT := False\<rparr>) (with_png (pngout_end (e_png E)) s1))
               else Go s1)
      else Go s)"

definition pm_begin :: "pm_env \<Rightarrow> pm \<Rightarrow> flow" where
  "pm_begin E s =
     (let s1 = s\<lparr>prod_seqno := i32 (pdh_seqno (pm_pdh s)), prod_nfrag := psh_frags (pm_psh s),
                 pm_ds := ds_init (e_moves E) (pm_ds s) (nat (psh_frags (pm_psh s)))\<rparr>
      in on_read (pm_read E (blockoff s1) (to_size (pdh_dbsize (pm_pdh s1))) s1) (\<lambda>st s2.
           if st \<noteq> 0 then Cont s2
           else let s3 = (if sbn_datastream (pm_sbn s2) = 4 \<and> psh_pcat (pm_psh s2) \<noteq> 3
                          then s2\<lparr>GOES := False, NWSTG := True\<rparr> else s2)
                in Go (s3\<lparr>heapcount := 0, pm_md5 := []\<rparr>)))"

definition pm_alloc :: "pm_env \<Rightarrow> nat \<Rightarrow> pm \<Rightarrow> pm" where
  "pm_alloc E dbsize s =
     (case prodalloc (e_alloc E) (nat (psh_frags (pm_psh s))) dbsize (pm_heap s) of (bsize, H) \<Rightarrow>
        s\<lparr>pm_heap := H, heapsize := bsize,
          pm_hgen := (if memheap (pm_heap s) = None \<or> largestsiz (pm_heap s) < bsize \<and> e_moves E
                      then pm_hgen s + 1 else pm_hgen s)\<rparr>)"

definition pm_goes_start :: "pm_env \<Rightarrow> pm \<Rightarrow> flow" where
  "pm_goes_start E s =
     (let off = blockoff s
      in case readpdb (e_inflate E) (e_rtl E) (PROD_COMPRESSED s)
                \<lparr>ps_mem = drop off (pm_buf s), ps_psh = pm_psh s, ps_pdb = pm_pdb s, ps_uncompr = pm_uncompr s,
                 ps_statics = pm_statics s\<rparr> of
           None \<Rightarrow> Crash
         | Some (st, r) \<Rightarrow>
             (let s1 = s\<lparr>pm_buf := take off (pm_buf s) @ ps_mem r, pm_psh := ps_psh r, pm_pdb := ps_pdb r,
                         pm_uncompr := ps_uncompr r, pm_statics := ps_statics r\<rparr>
              in if st = - 1 then Cont s1
                 else Go (pm_alloc E 5152
                   (s1\<lparr>PROD_NAME := psh_pname (pm_psh s1), pm_ccb := (pm_ccb s1)\<lparr>ccb_len := 0\<rparr>\<rparr>))))"

definition fos_header :: "int \<Rightarrow> byte list" where
  "fos_header seqno = [1, 13, 13, 10] @ dec_pad 3 (c_rem (i32 seqno) 1000) @ [32, 13, 13, 10]"

definition FOS_TRAILER :: "byte list" where
  "FOS_TRAILER = [13, 13, 10, 3]"

definition pm_nwstg_start :: "pm_env \<Rightarrow> pm \<Rightarrow> flow" where
  "pm_nwstg_start E s =
     (let s1 = s\<lparr>pm_psh := (pm_psh s)\<lparr>psh_pname := []\<rparr>\<rparr>
      in case readccb (e_wgrib E) (e_rtl E) (drop (blockoff s1) (pm_buf s1)) (pm_ccb s1) (pm_psh s1)
                (pdh_dbsize (pm_pdh s1)) (pm_statics s1) (pm_rb s1) of
           None \<Rightarrow> Crash
         | Some (st, ccb, psh, stat, rb) \<Rightarrow>
             (let s2 = pm_alloc E (4000 + 15) (s1\<lparr>pm_ccb := ccb, pm_psh := psh, pm_statics := stat, pm_rb := rb,
                                                  PROD_NAME := psh_pname psh\<rparr>)
              in go (map_option
                   (\<lambda>s3. s3\<lparr>heapcount := heapcount s3 + 11,
                            pm_psh := (if 0 < psh_metaoff (pm_psh s3)
                                       then (pm_psh s3)\<lparr>psh_metaoff := psh_metaoff (pm_psh s3) + 11\<rparr> else pm_psh s3)\<rparr>)
                   (heap_put 0 (fos_header (pdh_seqno (pm_pdh s2)) @ [0]) s2))))"

definition pm_start_product :: "pm_env \<Rightarrow> pm \<Rightarrow> flow" where
  "pm_start_product E s =
     flow_bind (pm_psh_header E s) (\<lambda>s1.
     flow_bind (pm_abandon E s1) (\<lambda>s2.
     flow_bind (pm_begin E s2) (\<lambda>s3.
     flow_bind (if GOES s3 then pm_goes_start E s3 else Go s3) (\<lambda>s4.
     if NWSTG s4 then pm_nwstg_start E s4 else Go s4))))"

definition cont_setup :: "pm \<Rightarrow> pm" where
  "cont_setup s =
     (let s1 = (if sbn_datastream (pm_sbn s) = 4 \<and> psh_pcat (pm_psh s) \<noteq> 3 then s\<lparr>GOES := False, NWSTG := True\<rparr> else s);
          s2 = s1\<lparr>pm_ccb := (pm_ccb s1)\<lparr>ccb_len := 0\<rparr>\<rparr>
      in if bit (pdh_transtype (pm_pdh s2)) 2 then s2\<lparr>pm_psh := (pm_psh s2)\<lparr>psh_frags := 0\<rparr>\<rparr> else s2)"

definition pm_continuation :: "pm_env \<Rightarrow> pm \<Rightarrow> flow" where
  "pm_continuation E s =
     on_read (pm_read E (blockoff (cont_setup s)) (to_size (pdh_dbsize (pm_pdh (cont_setup s)))) (cont_setup s)) (\<lambda>st s1.
       if st \<noteq> 0 then Cont s1 else if prod_head s1 = None then Cont s1 else Go s1)"

section \<open>Storing a fragment\<close>

definition pm_fragment :: "pm_env \<Rightarrow> pm \<Rightarrow> flow" where
  "pm_fragment E s =
     (let s1 = s\<lparr>dataoff := int (blockoff s) + ccb_len (pm_ccb s), datalen := pdh_dbsize (pm_pdh s) - ccb_len (pm_ccb s)\<rparr>
      in case ds_alloc (e_moves E) (pm_ds s1) of (p, D) \<Rightarrow>
           go (map_option (\<lambda>D'. s1\<lparr>pm_ds := D', pfrag := p\<rparr>)
             (ds_put D p \<lparr>ds_seqno = i32 (pdh_seqno (pm_pdh s1)), ds_fragnum = pdh_dbno (pm_pdh s1), ds_offset = heapcount s1,
                          ds_recsiz = datalen s1, ds_next = None\<rparr>)))"

text \<open>\<open>None\<close> is an invalid pointer; otherwise whether the fragment continues the last one.\<close>

definition follows_tail :: "pm \<Rightarrow> bool option" where
  "follows_tail s = do {
     t \<leftarrow> prod_tail s;
     tl \<leftarrow> ds_get (pm_ds s) t;
     fr \<leftarrow> ds_get (pm_ds s) (pfrag s);
     Some (ds_fragnum fr = ds_fragnum tl + 1 \<and> ds_seqno fr = prod_seqno s)
   }"

text \<open>\<open>memcpy\<close> of the data block to the end of the heap, and into the digest.\<close>

definition heap_append :: "pm \<Rightarrow> pm option" where
  "heap_append s = do {
     d \<leftarrow> mem_read (pm_buf s) (nat (dataoff s)) (to_size (datalen s));
     s1 \<leftarrow> heap_put (heapcount s) d s;
     Some (s1\<lparr>pm_md5 := pm_md5 s @ d\<rparr>)
   }"

text \<open>
  The scan lines of a block, from \<open>nscan\<close> on. With \<open>nx = 0\<close> and a block that is not empty the loop of the code
  runs until \<open>nscan\<close> overflows: \<open>None\<close>.
\<close>

function png_rows :: "png_fns \<Rightarrow> byte list \<Rightarrow> nat \<Rightarrow> nat \<Rightarrow> nat \<Rightarrow> nat \<Rightarrow> nat \<Rightarrow> png_io \<times> sink \<Rightarrow> (png_io \<times> sink) option" where
  "png_rows F m off nx dbsize records_per_block nscan st =
     (if nscan * nx < dbsize
      then if nx = 0 then None
           else if records_per_block \<le> nscan then png_rows F m off nx dbsize records_per_block (nscan + 1) st
           else (case pngwrite F (drop (off + nscan * nx) m) st of
                   None \<Rightarrow> None
                 | Some st' \<Rightarrow> png_rows F m off nx dbsize records_per_block (nscan + 1) st')
      else Some st)"
  by pat_completeness auto

termination
  by (relation "measure (\<lambda>(F, m, off, nx, dbsize, rpb, nscan, st). dbsize - nscan * nx)") auto

declare png_rows.simps [simp del]

definition pm_goes_data :: "pm_env \<Rightarrow> pm \<Rightarrow> flow" where
  "pm_goes_data E s =
     (let copy = (\<lambda>s. map_option (\<lambda>s1. s1\<lparr>heapcount := sz_add (heapcount s1) (to_size (datalen s1))\<rparr>) (heap_append s));
          done = (\<lambda>r. go (map_option (\<lambda>s1. s1\<lparr>deflen := 0\<rparr>) r))
      in if 0 < pdh_dbno (pm_pdh s)
         then (case follows_tail s of
                 None \<Rightarrow> Crash
               | Some ok \<Rightarrow>
                   if \<not> ok then Cont (pm_free s)
                   else if \<not> PNGINIT s \<and> \<not> PROD_COMPRESSED s then Cont s
                   else if \<not> PROD_COMPRESSED s
                   then done (with_png (png_rows (e_png E) (pm_buf s) (nat (dataoff s)) (nat (pdb_nx (pm_pdb s)))
                                (nat (pdh_dbsize (pm_pdh s))) (nat (pdh_records_per_block (pm_pdh s))) 0) s)
                   else done (copy s))
         else if \<not> PROD_COMPRESSED s
         then done (do {
                hdr \<leftarrow> mem_read (pm_buf s) (nat (dataoff s)) (to_size (datalen s));
                s1 \<leftarrow> with_png (png_header hdr) (s\<lparr>pm_png := png_set_memheap (pm_hgen s) (pm_png s)\<rparr>);
                s2 \<leftarrow> with_png (pngout_init (e_png E) (pdb_nx (pm_pdb s)) (pdb_ny (pm_pdb s) + 1)) s1;
                Some (s2\<lparr>PNGINIT := True\<rparr>)
              })
         else done (copy s))"

fun strip_trailers :: "byte list \<Rightarrow> nat \<Rightarrow> nat \<Rightarrow> nat option" where
  "strip_trailers m off n =
     (if 4 < n
      then (case mem_read m (off + n - 4) 4 of
              None \<Rightarrow> None
            | Some t \<Rightarrow> if t = FOS_TRAILER then strip_trailers m off (n - 4) else Some n)
      else Some n)"

declare strip_trailers.simps [simp del]

text \<open>The fragment is the last one of its product.\<close>

definition last_frag :: "pm \<Rightarrow> bool" where
  "last_frag s \<longleftrightarrow> prod_nfrag s = 0 \<or> prod_nfrag s = pdh_dbno (pm_pdh s) + 1"

definition pm_nwstg_data :: "pm_env \<Rightarrow> pm \<Rightarrow> flow" where
  "pm_nwstg_data E s =
     (let store = (\<lambda>s.
            (case (if last_frag s \<and> 4 < datalen s
                   then map_option int (strip_trailers (pm_buf s) (nat (dataoff s)) (nat (datalen s))) else Some (datalen s)) of
               None \<Rightarrow> Crash
             | Some n \<Rightarrow>
                 (let s1 = s\<lparr>datalen := n\<rparr>
                  in if heapsize s1 < sz_add (heapcount s1) (to_size n) then Cont s1
                     else go (map_option (\<lambda>s2. s2\<lparr>deflen := n\<rparr>) (heap_append s1)))))
      in if prod_nfrag s \<noteq> 0 \<and> prod_tail s \<noteq> None
         then (case follows_tail s of
                 None \<Rightarrow> Crash
               | Some ok \<Rightarrow> if ok then store s else Cont (pm_free s))
         else store s)"

definition pm_link :: "pm \<Rightarrow> flow" where
  "pm_link s =
     go (do {
       fr \<leftarrow> ds_get (pm_ds s) (pfrag s);
       D1 \<leftarrow> ds_put (pm_ds s) (pfrag s) (fr\<lparr>ds_recsiz := deflen s\<rparr>);
       let s1 = s\<lparr>pm_ds := D1, heapcount := sz_add (heapcount s) (to_size (deflen s))\<rparr>;
       case prod_head s1 of
         None \<Rightarrow> Some (s1\<lparr>prod_head := Some (pfrag s), prod_tail := Some (pfrag s)\<rparr>)
       | Some _ \<Rightarrow> do {
           t \<leftarrow> prod_tail s1;
           tl \<leftarrow> ds_get D1 t;
           D2 \<leftarrow> ds_put D1 t (tl\<lparr>ds_next := Some (pfrag s)\<rparr>);
           Some (s1\<lparr>pm_ds := D2, prod_tail := Some (pfrag s)\<rparr>)
         }
     })"

section \<open>Completing a product\<close>

definition pm_trailer :: "pm \<Rightarrow> pm option" where
  "pm_trailer s = do {
     s1 \<leftarrow> (if sbn_datastream (pm_sbn s) = 5 \<and> psh_pcat (pm_psh s) \<in> {1, 7}
            then do { ok \<leftarrow> prod_isascii (take (heapcount s) (heap_mem s));
                      Some (if ok then s else s\<lparr>pm_psh := (pm_psh s)\<lparr>psh_pcat := psh_pcat (pm_psh s) + 100\<rparr>\<rparr>) }
            else Some s);
     s2 \<leftarrow> heap_put (heapcount s1) FOS_TRAILER s1;
     Some (s2\<lparr>pm_md5 := pm_md5 s2 @ FOS_TRAILER, heapcount := sz_add (heapcount s2) 4\<rparr>)
   }"

definition pm_insert :: "pm_env \<Rightarrow> pm \<Rightarrow> pm option" where
  "pm_insert E s = do {
     (p, psh) \<leftarrow> process_prod (e_g2 E) (prod_seqno s) (PROD_NAME s) (heap_mem s) (heapcount s) (pm_md5 s) (pm_psh s) (pm_sbn s);
     Some (pm_free (s\<lparr>pm_psh := psh, pm_queue := (case p of None \<Rightarrow> pm_queue s | Some q \<Rightarrow> pm_queue s @ [q])\<rparr>)
             \<lparr>PNGINIT := False, nprods := sz_add (nprods s) 1\<rparr>)
   }"

definition pm_end_image :: "pm_env \<Rightarrow> pm \<Rightarrow> pm option" where
  "pm_end_image E s =
     (if GOES s \<and> PNGINIT s
      then map_option (\<lambda>t. t\<lparr>heapcount := png_get_prodlen (pm_png t)\<rparr>) (with_png (pngout_end (e_png E)) s)
      else Some s)"

definition pm_end_text :: "pm \<Rightarrow> pm option" where
  "pm_end_text s = (if NWSTG s \<and> 4 < heapcount s then pm_trailer s else Some s)"

definition pm_finish :: "pm_env \<Rightarrow> pm \<Rightarrow> flow" where
  "pm_finish E s =
     (if last_frag s then go (do { s1 \<leftarrow> pm_end_image E s; s2 \<leftarrow> pm_end_text s1; pm_insert E s2 }) else Go s)"

section \<open>The loop\<close>

definition pm_packet :: "pm_env \<Rightarrow> pm \<Rightarrow> flow" where
  "pm_packet E s =
     flow_bind (pm_sync E s) (\<lambda>s1.
     flow_bind (pm_classify (pm_count s1)) (\<lambda>s2.
     flow_bind (pm_header E s2) (\<lambda>s3.
     flow_bind (if pdh_pshlen (pm_pdh s3) \<noteq> 0 then pm_start_product E s3 else pm_continuation E s3) (\<lambda>s4.
     flow_bind (pm_fragment E s4) (\<lambda>s5.
     flow_bind (if GOES s5 then pm_goes_data E s5 else pm_nwstg_data E s5) (\<lambda>s6.
     flow_bind (pm_link s6) (\<lambda>s7.
     pm_finish E s7)))))))"

section \<open>A concrete state\<close>

definition demo_env :: pm_env where
  "demo_env = \<lparr>e_fz = 65536, e_oserr = (\<lambda>_. False), e_closed = (\<lambda>_. True), e_moves = True, e_alloc = (\<lambda>_. True), e_rtl = False,
     e_inflate = (\<lambda>_. None), e_wgrib = demo_wgrib, e_g2 = (\<lambda>_ _ _. Some None), e_png = demo_png\<rparr>"

definition demo_pm :: "byte list \<Rightarrow> pm" where
  "demo_pm inp =
     \<lparr>npackets = 0, nmissed = 0, nprods = 0, pm_sbn = demo_sbn, pm_pdh = demo_pdh, pm_psh = demo_psh, pm_pdb = demo_pdb,
      pm_ccb = \<lparr>ccb_b1 = 0, ccb_len = 0, ccb_user1 = 0, ccb_user2 = 0\<rparr>, pm_status = 0, pm_buf = replicate 10000 0,
      pm_inp = inp, pm_reads = 0, last_sbn_seqno = 0, last_sbn_runno = 2 ^ 64 - 1, PNGINIT = False,
      pm_png = \<lparr>prodmap = None, prodoff = 0, png_deflen = 0, png_ptr = None, PNG_write_calls = 0\<rparr>,
      pm_heap = \<lparr>memheap = None, largestsiz = 0\<rparr>, pm_hgen = 0, pm_md5 = [], prod_seqno = 0, prod_nfrag = 0, prod_head = None,
      prod_tail = None, pm_ds = \<lparr>dataheap = None, ds_gen = 0, nextfrag = 0, MAXFRAGS = 1000\<rparr>, NWSTG = False, GOES = False,
      PROD_COMPRESSED = False, heapcount = 0, heapsize = 0, PROD_NAME = [], dataoff = 0, datalen = 0, deflen = 0, pfrag = (0, 0),
      pm_statics = demo_statics, pm_rb = rb_blank, pm_uncompr = replicate 6000 0, pm_queue = []\<rparr>"

definition demo_ps :: "byte list" where
  "demo_ps = [0, 0, 0, 36, 1, 0, 0, 0, 0, 0, 5, 1, 0, 0, 0, 2, 0, 0, 0, 9] @ replicate 16 0"

text \<open>A first block that is missing its control block, and a second one that ends with a trailer.\<close>

definition demo_blk :: "byte list" where
  "demo_blk = [63, 65, 66, 13, 10]"

end
