(* ===== verification/Pm_Loop.thy ===== *)
theory Pm_Loop
  imports Product_Maker
begin

text \<open>
  The packet loop of \<open>pmStart\<close>, the other functions of \<open>productMaker.c\<close>, and the termination of the loop: every
  pass that does not leave it has taken at least one byte out of the FIFO.
\<close>

section \<open>Reasoning about flows\<close>

fun flow_all :: "(pm \<Rightarrow> bool) \<Rightarrow> flow \<Rightarrow> bool" where
  "flow_all P (Go s) = P s"
| "flow_all P (Cont s) = P s"
| "flow_all P (Halt n s) = False"
| "flow_all P (Wait s) = (P s \<and> pm_inp s \<noteq> [])"
| "flow_all P Crash = True"

named_theorems flow \<open>introduction rules for properties of all states a flow carries\<close>

lemma flow_bind_all [flow]: "flow_all P f \<Longrightarrow> (\<And>s. f = Go s \<Longrightarrow> P s \<Longrightarrow> flow_all P (k s)) \<Longrightarrow> flow_all P (flow_bind f k)"
  by (cases f) auto

lemma reading_all [flow]:
  "(\<And>st s. r = Got st s \<Longrightarrow> flow_all P (k st s)) \<Longrightarrow> (\<And>s. r = Forever s \<Longrightarrow> P s \<and> pm_inp s \<noteq> []) \<Longrightarrow> flow_all P (on_read r k)"
  by (cases r) auto

lemma go_all [flow]: "(\<And>s. r = Some s \<Longrightarrow> P s) \<Longrightarrow> flow_all P (go r)"
  by (cases r) auto

definition opt_all :: "('a \<Rightarrow> bool) \<Rightarrow> 'a option \<Rightarrow> bool" where
  "opt_all P r \<longleftrightarrow> (case r of None \<Rightarrow> True | Some s \<Rightarrow> P s)"

lemma opt_all_Some [simp]: "opt_all P (Some s) = P s" "opt_all P None"
  by (simp_all add: opt_all_def)

lemma opt_allD: "opt_all P r \<Longrightarrow> r = Some s \<Longrightarrow> P s"
  by (simp add: opt_all_def)

lemma opt_bind: "(\<And>x. a = Some x \<Longrightarrow> opt_all P (f x)) \<Longrightarrow> opt_all P (a \<bind> f)"
  by (cases a) auto

lemma opt_map: "opt_all (\<lambda>x. P (f x)) r \<Longrightarrow> opt_all P (map_option f r)"
  by (cases r) auto

lemma go_opt: "opt_all P r \<Longrightarrow> flow_all P (go r)"
  by (cases r) auto

section \<open>Input is consumed\<close>

definition inp_le :: "nat \<Rightarrow> pm \<Rightarrow> bool" where
  "inp_le n s \<longleftrightarrow> length (pm_inp s) \<le> n"

lemma inp_le_upd [simp]:
  "inp_le n (s\<lparr>pm_sbn := a\<rparr>) = inp_le n s" "inp_le n (s\<lparr>pm_pdh := b\<rparr>) = inp_le n s"
  "inp_le n (s\<lparr>pm_buf := c\<rparr>) = inp_le n s" "inp_le n (s\<lparr>PROD_COMPRESSED := d\<rparr>) = inp_le n s"
  by (simp_all add: inp_le_def)

lemma pm_read_inp: "inp_le n s \<Longrightarrow> pm_read E off k s = Got st s' \<Longrightarrow> inp_le n s'"
  using pm_read_le [of E off k s st s'] by (simp add: inp_le_def)

lemma fifo_forever: "inp_le n s \<Longrightarrow> pm_read E off k s = Forever s' \<Longrightarrow> inp_le n s' \<and> pm_inp s' \<noteq> []"
  by (auto simp: pm_read_def stream_read_def inp_le_def Let_def split: option.splits if_splits)

lemma heap_inp [simp]: "pm_inp (set_heap_mem m s) = pm_inp s" "pm_inp (pm_free s) = pm_inp s"
  by (simp_all add: set_heap_mem_def pm_free_def)

lemma heap_put_inp: "heap_put off d s = Some s' \<Longrightarrow> pm_inp s' = pm_inp s"
  by (auto simp: heap_put_def)

lemma with_png_inp: "with_png f s = Some s' \<Longrightarrow> pm_inp s' = pm_inp s"
  by (auto simp: with_png_def)

lemma heap_append_inp: "heap_append s = Some s' \<Longrightarrow> pm_inp s' = pm_inp s"
  by (auto simp: heap_append_def bind_eq_Some_conv dest: heap_put_inp)

lemma pm_alloc_inp [simp]: "pm_inp (pm_alloc E n s) = pm_inp s"
  by (simp add: pm_alloc_def split: prod.splits)

lemma pm_trailer_inp: "pm_trailer s = Some s' \<Longrightarrow> pm_inp s' = pm_inp s"
  by (auto simp: pm_trailer_def bind_eq_Some_conv split: if_splits dest: heap_put_inp)

lemma pm_insert_inp: "pm_insert E s = Some s' \<Longrightarrow> pm_inp s' = pm_inp s"
  by (auto simp: pm_insert_def bind_eq_Some_conv)

lemma pm_link_all: "inp_le n s \<Longrightarrow> flow_all (inp_le n) (pm_link s)"
  unfolding pm_link_def Let_def
  by (intro go_opt opt_bind) (simp add: inp_le_def opt_bind split: option.split)

lemma pm_end_inp:
  "pm_end_image E s = Some s' \<Longrightarrow> pm_inp s' = pm_inp s" "pm_end_text s = Some s' \<Longrightarrow> pm_inp s' = pm_inp s"
  by (auto simp: pm_end_image_def pm_end_text_def split: if_splits dest: with_png_inp pm_trailer_inp)

lemma pm_finish_all: "inp_le n s \<Longrightarrow> flow_all (inp_le n) (pm_finish E s)"
proof -
  assume "inp_le n s"
  moreover have "pm_inp s' = pm_inp s" if "do { s1 \<leftarrow> pm_end_image E s; s2 \<leftarrow> pm_end_text s1; pm_insert E s2 } = Some s'" for s'
    using that by (auto simp: bind_eq_Some_conv dest!: pm_end_inp pm_insert_inp)
  ultimately show ?thesis
    by (auto simp: pm_finish_def inp_le_def intro!: go_all)
qed

lemma pm_fragment_all: "inp_le n s \<Longrightarrow> flow_all (inp_le n) (pm_fragment E s)"
  by (auto simp: pm_fragment_def inp_le_def Let_def split: prod.splits intro!: flow)

lemma pm_goes_data_all: "inp_le n s \<Longrightarrow> flow_all (inp_le n) (pm_goes_data E s)"
  unfolding pm_goes_data_def Let_def
  by (auto simp: inp_le_def bind_eq_Some_conv split: option.splits intro!: flow dest!: heap_append_inp with_png_inp)

lemma pm_nwstg_data_all: "inp_le n s \<Longrightarrow> flow_all (inp_le n) (pm_nwstg_data E s)"
  unfolding pm_nwstg_data_def Let_def
  by (auto simp: inp_le_def split: option.splits intro!: flow dest!: heap_append_inp)

lemma reading_inp:
  "inp_le n s \<Longrightarrow> (\<And>st s'. inp_le n s' \<Longrightarrow> flow_all (inp_le n) (k st s')) \<Longrightarrow>
   flow_all (inp_le n) (on_read (pm_read E off c s) k)"
proof (rule reading_all)
  assume i: "inp_le n s" and k: "\<And>st s'. inp_le n s' \<Longrightarrow> flow_all (inp_le n) (k st s')"
  show "flow_all (inp_le n) (k st t)" if "pm_read E off c s = Got st t" for st t
    by (rule k [OF pm_read_inp [OF i that]])
  show "inp_le n t \<and> pm_inp t \<noteq> []" if "pm_read E off c s = Forever t" for t
    by (rule fifo_forever [OF i that])
qed

lemma cont_setup_inp [simp]: "inp_le n (cont_setup s) = inp_le n s"
  by (simp add: cont_setup_def Let_def inp_le_def)

lemma pm_continuation_all: "inp_le n s \<Longrightarrow> flow_all (inp_le n) (pm_continuation E s)"
  unfolding pm_continuation_def by (rule reading_inp) simp_all

lemma pm_psh_header_all: "inp_le n s \<Longrightarrow> flow_all (inp_le n) (pm_psh_header E s)"
  unfolding pm_psh_header_def Let_def
  by (rule reading_inp) (auto simp: inp_le_def split: option.splits)

lemma pm_abandon_all: "inp_le n s \<Longrightarrow> flow_all (inp_le n) (pm_abandon E s)"
  by (auto simp: pm_abandon_def Let_def inp_le_def intro!: flow dest!: with_png_inp)

lemma pm_begin_all: "inp_le n s \<Longrightarrow> flow_all (inp_le n) (pm_begin E s)"
  unfolding pm_begin_def Let_def
  by (rule reading_inp) (simp_all add: inp_le_def)

lemma pm_goes_start_all: "inp_le n s \<Longrightarrow> flow_all (inp_le n) (pm_goes_start E s)"
  by (auto simp: pm_goes_start_def Let_def inp_le_def split: option.splits)

lemma pm_nwstg_start_all: "inp_le n s \<Longrightarrow> flow_all (inp_le n) (pm_nwstg_start E s)"
  unfolding pm_nwstg_start_def Let_def
  by (auto simp: inp_le_def split: option.splits intro!: flow dest!: heap_put_inp)

lemma pm_start_product_all: "inp_le n s \<Longrightarrow> flow_all (inp_le n) (pm_start_product E s)"
  unfolding pm_start_product_def
  by (intro flow_bind_all)
     (auto intro: pm_psh_header_all pm_abandon_all pm_begin_all pm_goes_start_all pm_nwstg_start_all)

lemma pm_vet_all: "inp_le n s \<Longrightarrow> flow_all (inp_le n) (pm_vet s)"
  by (simp add: pm_vet_def Let_def)

lemma pm_header_all: "inp_le n s \<Longrightarrow> flow_all (inp_le n) (pm_header E s)"
  unfolding pm_header_def Let_def
  by (auto split: option.splits intro!: reading_inp pm_vet_all)

lemma pm_classify_all: "inp_le n s \<Longrightarrow> flow_all (inp_le n) (pm_classify s)"
  by (auto simp: pm_classify_def Let_def inp_le_def)

lemma pm_count_inp_le [simp]: "inp_le n (pm_count s) = inp_le n s"
  by (simp add: pm_count_def Let_def inp_le_def)

lemma sbn_sync_all: "inp_le n s \<Longrightarrow> flow_all (inp_le n) (sbn_sync E s)"
proof (induction E s rule: sbn_sync.induct)
  case (1 E s)
  show ?case
  proof (cases "readsbn (pm_buf s) (pm_sbn s)")
    case None
    then show ?thesis by (subst sbn_sync.simps) simp
  next
    case (Some r)
    obtain st h where r: "r = (st, h)" by (cases r)
    let ?s1 = "s\<lparr>pm_sbn := h\<rparr>"
    let ?I = "Suc (length (takeWhile (\<lambda>b. b \<noteq> 255) (take 15 (drop 1 (pm_buf ?s1)))))"
    let ?s2 = "?s1\<lparr>pm_buf := blit (pm_buf ?s1) 0 (take (16 - ?I) (drop ?I (pm_buf ?s1)))\<rparr>"
    let ?g = "pm_read E (16 - ?I) ?I ?s2"
    have s: "sbn_sync E s = (if st = 0 then Go ?s1 else if 15 < ?I then Cont ?s1
        else (case ?g of Got st s2 \<Rightarrow> if st \<noteq> 0 then Cont s2 else sbn_sync E s2 | Forever s2 \<Rightarrow> Wait s2 | Overrun \<Rightarrow> Crash))"
      by (subst sbn_sync.simps) (simp only: Some r Let_def option.case prod.case)
    have i: "inp_le n ?s2" using "1.prems" by simp
    show ?thesis
    proof (cases "st = 0 \<or> 15 < ?I")
      case True
      with "1.prems" show ?thesis unfolding s by auto
    next
      case False
      then have s': "sbn_sync E s =
          (case ?g of Got st s2 \<Rightarrow> if st \<noteq> 0 then Cont s2 else sbn_sync E s2 | Forever s2 \<Rightarrow> Wait s2 | Overrun \<Rightarrow> Crash)"
        unfolding s by simp
      show ?thesis
      proof (cases ?g)
        case (Got st2 s2)
        note i2 = pm_read_inp [OF i Got]
        have "flow_all (inp_le n) (sbn_sync E s2)" if "st2 = 0"
          using "1.IH" [OF Some r [symmetric] refl _ refl _ Got] False that i2 by simp
        with i2 Got show ?thesis unfolding s' by simp
      next
        case (Forever s2)
        with fifo_forever [OF i Forever] show ?thesis unfolding s' by simp
      next
        case Overrun
        then show ?thesis unfolding s' by simp
      qed
    qed
  qed
qed

section \<open>Every pass consumes input\<close>

fun flow_next :: "(pm \<Rightarrow> bool) \<Rightarrow> flow \<Rightarrow> bool" where
  "flow_next P (Go s) = P s"
| "flow_next P (Cont s) = P s"
| "flow_next P _ = True"

lemma flow_nextI: "flow_all P f \<Longrightarrow> flow_next P f"
  by (cases f) auto

lemma flow_next_bind: "flow_next P f \<Longrightarrow> (\<And>s. f = Go s \<Longrightarrow> P s \<Longrightarrow> flow_all P (k s)) \<Longrightarrow> flow_next P (flow_bind f k)"
  by (cases f) (auto intro: flow_nextI)

lemma pm_sync_next: "flow_next (\<lambda>s'. length (pm_inp s') < length (pm_inp s)) (pm_sync E s)"
proof (cases "pm_read E 0 1 s")
  case (Got st s1)
  show ?thesis
  proof (cases "st = 0")
    case True
    let ?n = "length (pm_inp s1)"
    have l: "?n < length (pm_inp s)" using pm_read_less [of E 0 1 s s1] Got True by simp
    have i: "inp_le ?n s1" by (simp add: inp_le_def)
    have "flow_all (inp_le ?n) (if pm_buf s1 ! 0 \<noteq> 255 then Cont s1
       else on_read (pm_read E 1 15 s1) (\<lambda>st s2. if st \<noteq> 0 then Cont s2
         else flow_bind (sbn_sync E s2) (\<lambda>s3. on_read (pm_read E 16 16 s3) (\<lambda>st s4. if st \<noteq> 0 then Cont s4 else Go s4))))"
      using i by (auto intro!: reading_inp flow_bind_all sbn_sync_all)
    then have "flow_next (inp_le ?n) (pm_sync E s)"
      unfolding pm_sync_def Got on_read.simps using True by (intro flow_nextI) simp
    with l show ?thesis by (cases "pm_sync E s") (auto simp: inp_le_def)
  next
    case False
    with Got show ?thesis by (simp add: pm_sync_def)
  qed
qed (simp_all add: pm_sync_def)

lemma pm_packet_next: "flow_next (\<lambda>s'. length (pm_inp s') < length (pm_inp s)) (pm_packet E s)"
proof (cases "pm_sync E s")
  case (Go s1)
  let ?n = "length (pm_inp s1)"
  have l: "?n < length (pm_inp s)" using pm_sync_next [of s E] Go by simp
  have i: "inp_le ?n s1" by (simp add: inp_le_def)
  have "flow_all (inp_le ?n) (pm_packet E s)"
    unfolding pm_packet_def Go flow_bind.simps using i
    by (intro flow_bind_all pm_classify_all pm_finish_all pm_link_all pm_fragment_all pm_header_all)
       (auto intro: pm_goes_data_all pm_nwstg_data_all pm_start_product_all pm_continuation_all)
  with l show ?thesis by (cases "pm_packet E s") (auto simp: inp_le_def)
next
  case (Cont s1)
  with pm_sync_next [of s E] show ?thesis by (simp add: pm_packet_def)
qed (simp_all add: pm_packet_def)


section \<open>The loop and its interface\<close>

datatype pm_result = Returned int pm | Waiting pm | Undefined

function pm_loop :: "pm_env \<Rightarrow> pm \<Rightarrow> pm_result" where
  "pm_loop E s =
     (case pm_packet E s of
        Go s' \<Rightarrow> pm_loop E s'
      | Cont s' \<Rightarrow> pm_loop E s'
      | Halt st s' \<Rightarrow> Returned st s'
      | Wait s' \<Rightarrow> Waiting s'
      | Crash \<Rightarrow> Undefined)"
  by pat_completeness auto

termination
proof (relation "measure (\<lambda>(E, s). length (pm_inp s))")
  show "((E, s'), E, s) \<in> measure (\<lambda>(E, s). length (pm_inp s))" if "pm_packet E s = Go s'" for E s s'
    using pm_packet_next [of s E] that by simp
  show "((E, s'), E, s) \<in> measure (\<lambda>(E, s). length (pm_inp s))" if "pm_packet E s = Cont s'" for E s s'
    using pm_packet_next [of s E] that by simp
qed simp

declare pm_loop.simps [simp del]

definition pmStart :: "pm_env \<Rightarrow> pm \<Rightarrow> pm_result" where
  "pmStart E s =
     (case pm_loop E (s\<lparr>last_sbn_runno := 2 ^ 64 - 1, PNGINIT := False, pm_heap := (pm_heap s)\<lparr>memheap := None\<rparr>,
                        prod_head := None, prod_tail := None\<rparr>) of
        Returned st s' \<Rightarrow> Returned st (s'\<lparr>pm_heap := (pm_heap s')\<lparr>memheap := None\<rparr>, pm_status := st\<rparr>)
      | r \<Rightarrow> r)"

text \<open>\<open>w\<close> is the memory \<open>malloc\<close> returns, with its indeterminate contents.\<close>

definition pmNew :: "productMaker option \<Rightarrow> bool \<Rightarrow> int \<Rightarrow> int \<times> productMaker option" where
  "pmNew w md5 mutex_init =
     (case w of
        None \<Rightarrow> (2, None)
      | Some m \<Rightarrow>
          if \<not> md5 then (2, None)
          else if mutex_init \<noteq> 0 then (2, None)
          else (0, Some (m\<lparr>npackets := 0, nmissed := 0, nprods := 0, pm_status := 0\<rparr>)))"

definition pmGetStatistics :: "pm \<Rightarrow> (nat \<times> nat \<times> nat) \<times> pm" where
  "pmGetStatistics s = ((npackets s, nmissed s, nprods s), s\<lparr>npackets := 0, nmissed := 0, nprods := 0\<rparr>)"

definition pmStatus :: "pm \<Rightarrow> int" where
  "pmStatus s = pm_status s"

section \<open>Termination\<close>

lemma pm_packet_halt: "pm_packet E s = Halt st s' \<Longrightarrow>
  \<exists>st0. pm_read E 0 1 s = Got st0 s' \<and> st0 \<noteq> 0 \<and> st = (if st0 = 3 then 0 else st0)"
proof -
  assume h: "pm_packet E s = Halt st s'"
  have i: "inp_le (length (pm_inp t)) t" for t by (simp add: inp_le_def)
  show ?thesis
  proof (cases "pm_sync E s")
    case (Go s1)
    have "flow_all (inp_le (length (pm_inp s1))) (pm_packet E s)"
      unfolding pm_packet_def Go flow_bind.simps using i
      by (intro flow_bind_all pm_classify_all pm_finish_all pm_link_all pm_fragment_all pm_header_all)
         (auto intro: pm_goes_data_all pm_nwstg_data_all pm_start_product_all pm_continuation_all)
    with h show ?thesis by simp
  next
    case (Halt n s1)
    show ?thesis
    proof (cases "pm_read E 0 1 s")
      case (Got st1 t)
      show ?thesis
      proof (cases "st1 = 0")
        case True
        have "flow_all (inp_le (length (pm_inp t))) (if pm_buf t ! 0 \<noteq> 255 then Cont t
           else on_read (pm_read E 1 15 t) (\<lambda>st s2. if st \<noteq> 0 then Cont s2
             else flow_bind (sbn_sync E s2) (\<lambda>s3. on_read (pm_read E 16 16 s3) (\<lambda>st s4. if st \<noteq> 0 then Cont s4 else Go s4))))"
          using i by (auto intro!: reading_inp flow_bind_all sbn_sync_all)
        then have "flow_all (inp_le (length (pm_inp t))) (pm_sync E s)"
          unfolding pm_sync_def Got on_read.simps using True by simp
        with Halt show ?thesis by simp
      next
        case False
        with Got Halt h show ?thesis by (auto simp: pm_sync_def pm_packet_def)
      qed
    qed (use Halt in \<open>simp_all add: pm_sync_def\<close>)
  qed (use h in \<open>simp_all add: pm_packet_def\<close>)
qed

lemma pm_packet_wait: "pm_packet E s = Wait s' \<Longrightarrow> pm_inp s' \<noteq> []"
proof -
  assume w: "pm_packet E s = Wait s'"
  have i: "inp_le (length (pm_inp t)) t" for t by (simp add: inp_le_def)
  show ?thesis
  proof (cases "pm_read E 0 1 s")
    case (Got st t)
    have "flow_all (inp_le (length (pm_inp t))) (pm_packet E s)" if "st = 0"
      unfolding pm_packet_def pm_sync_def Got on_read.simps that using i
      by (auto intro!: reading_inp flow_bind_all sbn_sync_all pm_classify_all pm_finish_all pm_link_all pm_fragment_all
          pm_header_all pm_goes_data_all pm_nwstg_data_all pm_start_product_all pm_continuation_all)
    moreover have "st = 0"
      by (rule ccontr) (use w Got in \<open>simp add: pm_packet_def pm_sync_def\<close>)
    ultimately show ?thesis using w by simp
  next
    case (Forever t)
    with w fifo_forever [OF i Forever] show ?thesis by (simp add: pm_packet_def pm_sync_def)
  next
    case Overrun
    with w show ?thesis by (simp add: pm_packet_def pm_sync_def)
  qed
qed

lemma pm_loop_ends: "case pm_loop E s of
    Returned st s' \<Rightarrow> 0 < e_fz E \<and> (\<forall>k. \<not> e_oserr E k) \<longrightarrow> st = 0 \<and> pm_inp s' = []
  | Waiting s' \<Rightarrow> pm_inp s' \<noteq> []
  | Undefined \<Rightarrow> True"
proof (induction E s rule: pm_loop.induct)
  case (1 E s)
  show ?case
  proof (cases "pm_packet E s")
    case (Go t)
    with 1 show ?thesis by (simp add: pm_loop.simps [of E s])
  next
    case (Cont t)
    with 1 show ?thesis by (simp add: pm_loop.simps [of E s])
  next
    case (Halt n t)
    from pm_packet_halt [OF Halt] obtain st0 where g: "pm_read E 0 1 s = Got st0 t" "st0 \<noteq> 0" "n = (if st0 = 3 then 0 else st0)"
      by blast
    have "pm_inp s = [] \<and> st0 = 3" if "0 < e_fz E" "\<forall>k. \<not> e_oserr E k"
      using that g by (auto simp: pm_read_def stream_read_def Let_def split: option.splits if_splits)
    with g Halt pm_read_fail [OF g(1,2)] show ?thesis by (auto simp: pm_loop.simps [of E s])
  next
    case (Wait t)
    with pm_packet_wait [OF Wait] show ?thesis by (simp add: pm_loop.simps [of E s])
  next
    case Crash
    then show ?thesis by (simp add: pm_loop.simps [of E s])
  qed
qed

lemma pmStart_result:
  assumes "0 < e_fz E" "\<And>k. \<not> e_oserr E k"
  shows "(case pmStart E s of
      Returned st s' \<Rightarrow> st = 0 \<and> pmStatus s' = 0 \<and> pm_inp s' = []
    | Waiting s' \<Rightarrow> pm_inp s' \<noteq> []
    | Undefined \<Rightarrow> True)"
proof -
  let ?s = "s\<lparr>last_sbn_runno := 2 ^ 64 - 1, PNGINIT := False, pm_heap := (pm_heap s)\<lparr>memheap := None\<rparr>,
    prod_head := None, prod_tail := None\<rparr>"
  show ?thesis
    using pm_loop_ends [of E ?s] assms
    by (cases "pm_loop E ?s") (auto simp: pmStart_def pmStatus_def)
qed

text \<open>
  C5: The packet loop ends on every stream of bytes. When no pthread call fails it returns with status 0, and only
  after the last byte has been taken out of the FIFO; a read that waits for ever leaves bytes in the FIFO;
  otherwise a packet has made the code do something C leaves undefined.
\<close>

theorem pmStart_ends:
  assumes "0 < e_fz E" "\<And>k. \<not> e_oserr E k"
  shows "(case pmStart E s of
      Returned st s' \<Rightarrow> st = 0 \<and> pmStatus s' = 0 \<and> pm_inp s' = []
    | Waiting s' \<Rightarrow> pm_inp s' \<noteq> []
    | Undefined \<Rightarrow> True)"
  using assms by (rule pmStart_result)

section \<open>Counting packets\<close>

definition counted :: "nat \<Rightarrow> pm \<Rightarrow> pm" where
  "counted q s = pm_count (s\<lparr>pm_sbn := (pm_sbn s)\<lparr>sbn_seqno := q\<rparr>\<rparr>)"

fun ascending :: "nat \<Rightarrow> nat list \<Rightarrow> bool" where
  "ascending a [] = True"
| "ascending a (q # qs) = (a < q \<and> q - a \<le> 2147483647 \<and> ascending q qs)"

lemma counted_step:
  assumes "last_sbn_runno s = to_size (sbn_runno (pm_sbn s))" "last_sbn_seqno s < q" "q - last_sbn_seqno s \<le> 2147483647" "q < 2 ^ 64"
    "npackets s + 1 < 2 ^ 64" "nmissed s + (q - last_sbn_seqno s - 1) < 2 ^ 64"
  shows "npackets (counted q s) = npackets s + 1" "nmissed (counted q s) = nmissed s + (q - last_sbn_seqno s - 1)"
    "last_sbn_seqno (counted q s) = q" "last_sbn_runno (counted q s) = last_sbn_runno s"
    "sbn_runno (pm_sbn (counted q s)) = sbn_runno (pm_sbn s)"
proof -
  have d: "sz_sub q (last_sbn_seqno s) = q - last_sbn_seqno s"
    using assms by (intro sz_sub_eq) simp_all
  have n: "sz_add (npackets s) 1 = npackets s + 1" "sz_add (nmissed s) (q - last_sbn_seqno s - 1) = nmissed s + (q - last_sbn_seqno s - 1)"
    using assms by (simp_all only: sz_add_eq)
  show "npackets (counted q s) = npackets s + 1" "nmissed (counted q s) = nmissed s + (q - last_sbn_seqno s - 1)"
    "last_sbn_seqno (counted q s) = q" "last_sbn_runno (counted q s) = last_sbn_runno s"
    "sbn_runno (pm_sbn (counted q s)) = sbn_runno (pm_sbn s)"
    using assms(1-3) n by (auto simp: counted_def pm_count_def Let_def d)
qed

lemma ascending_last: "ascending a qs \<Longrightarrow> a + length qs \<le> last (a # qs)"
  by (induction qs arbitrary: a) fastforce+

text \<open>
  C9: Over a run of packets whose sequence numbers rise by less than 2^31 each, every packet after the first is
  counted once and the missed packets are exactly the numbers that were left out.
\<close>

theorem packets_counted:
  assumes "last_sbn_runno s = to_size (sbn_runno (pm_sbn s))" "ascending (last_sbn_seqno s) qs" "last (last_sbn_seqno s # qs) < 2 ^ 64"
    "npackets s + length qs < 2 ^ 64" "nmissed s + (last (last_sbn_seqno s # qs) - last_sbn_seqno s) < 2 ^ 64"
  shows "npackets (fold counted qs s) = npackets s + length qs \<and>
    nmissed (fold counted qs s) = nmissed s + (last (last_sbn_seqno s # qs) - last_sbn_seqno s - length qs)"
  using assms
proof (induction qs arbitrary: s)
  case Nil
  then show ?case by simp
next
  case (Cons q qs)
  have q: "last_sbn_seqno s < q" "q - last_sbn_seqno s \<le> 2147483647" "ascending q qs" using Cons.prems(2) by simp_all
  have l: "q + length qs \<le> last (q # qs)" using ascending_last [OF q(3)] .
  have e: "last (last_sbn_seqno s # q # qs) = last (q # qs)" by simp
  have c: "npackets (counted q s) = npackets s + 1" "nmissed (counted q s) = nmissed s + (q - last_sbn_seqno s - 1)"
    "last_sbn_seqno (counted q s) = q" "last_sbn_runno (counted q s) = last_sbn_runno s"
    "sbn_runno (pm_sbn (counted q s)) = sbn_runno (pm_sbn s)"
    using Cons.prems(1,3-5) q l e by (intro counted_step; simp)+
  have "npackets (fold counted qs (counted q s)) = npackets (counted q s) + length qs \<and>
    nmissed (fold counted qs (counted q s)) =
      nmissed (counted q s) + (last (last_sbn_seqno (counted q s) # qs) - last_sbn_seqno (counted q s) - length qs)"
    using Cons.prems(1,3-5) q l e c by (intro Cons.IH) simp_all
  with c q l e show ?case by simp
qed

lemma be32_high: "128 \<le> a \<Longrightarrow> 0 \<le> b \<Longrightarrow> 0 \<le> c \<Longrightarrow> 0 \<le> d \<Longrightarrow> 2147483648 \<le> ((a * 256 + b) * 256 + c) * 256 + (d::int)"
  by simp

lemma be32_low: "a < 256 \<Longrightarrow> b < 256 \<Longrightarrow> c < 256 \<Longrightarrow> d < 256 \<Longrightarrow> ((a * 256 + b) * 256 + c) * 256 + (d::int) < 4294967296"
  by simp

text \<open>
  The sequence number after 2^31 - 1 on the wire, 2^31, is sign-extended by \<open>readsbn\<close>: the packet is taken for
  a retrograde one and neither it nor anything missed before it is counted.
\<close>

theorem sign_extended_not_counted:
  assumes "last_sbn_runno s = to_size (sbn_runno (pm_sbn s))" "last_sbn_seqno s < 2 ^ 31" "128 \<le> uint b1"
  shows "npackets (counted (to_size (be32 b1 b2 b3 b4)) s) = npackets s \<and>
    nmissed (counted (to_size (be32 b1 b2 b3 b4)) s) = nmissed s"
proof -
  let ?x = "((uint b1 * 256 + uint b2) * 256 + uint b3) * 256 + uint b4" and ?q = "to_size (be32 b1 b2 b3 b4)"
  have x1: "2147483648 \<le> ?x" by (rule be32_high [OF assms(3) byte_ge_0 byte_ge_0 byte_ge_0])
  have x2: "?x < 4294967296" by (rule be32_low [OF byte_lt byte_lt byte_lt byte_lt])
  note x = x1 x2
  have "i32 ?x = i32 (?x - 4294967296)"
    unfolding i32_def by (rule signed_take_bit_eq_iff_take_bit_eq [THEN iffD2]) (simp add: take_bit_eq_mod)
  also have "\<dots> = ?x - 4294967296" using x by (intro i32_id) simp_all
  finally have b: "be32 b1 b2 b3 b4 = ?x - 4294967296" by (simp only: be32_def)
  have "(?x - 4294967296) mod 2 ^ 64 = ?x - 4294967296 + 2 ^ 64"
    using x by (intro int_mod_pos_eq [of _ _ "- 1"]) simp_all
  then have q: "int ?q = ?x - 4294967296 + 2 ^ 64" using x by (simp add: to_size_def b)
  have ql: "last_sbn_seqno s \<le> ?q" "?q < 2 ^ 64" using q x assms(2) by simp_all
  then have d: "sz_sub ?q (last_sbn_seqno s) = ?q - last_sbn_seqno s" by (rule sz_sub_eq)
  have "2147483647 < ?q - last_sbn_seqno s" using q x assms(2) by simp
  with assms(1) show ?thesis by (simp add: counted_def pm_count_def Let_def d)
qed

section \<open>Instances\<close>

theorem pmStart_ends_witness:
  "case pmStart demo_env (demo_pm [1, 255, 3]) of
      Returned st s' \<Rightarrow> st = 0 \<and> pmStatus s' = 0 \<and> pm_inp s' = []
    | Waiting s' \<Rightarrow> pm_inp s' \<noteq> []
    | Undefined \<Rightarrow> True"
  by (rule pmStart_ends) (simp_all add: demo_env_def)

theorem packets_counted_witness:
  "npackets (fold counted [11, 14, 15] (demo_pm []\<lparr>last_sbn_runno := 7, last_sbn_seqno := 10\<rparr>)) = 3 \<and>
   nmissed (fold counted [11, 14, 15] (demo_pm []\<lparr>last_sbn_runno := 7, last_sbn_seqno := 10\<rparr>)) = 2"
proof -
  let ?s = "demo_pm []\<lparr>last_sbn_runno := 7, last_sbn_seqno := 10\<rparr>"
  have 1: "last_sbn_runno ?s = to_size (sbn_runno (pm_sbn ?s))" "ascending (last_sbn_seqno ?s) [11, 14, 15]"
    "last (last_sbn_seqno ?s # [11, 14, 15]) < 2 ^ 64" "npackets ?s + length [11, 14, 15::nat] < 2 ^ 64"
    "nmissed ?s + (last (last_sbn_seqno ?s # [11, 14, 15]) - last_sbn_seqno ?s) < 2 ^ 64"
    by (simp_all add: demo_pm_def demo_sbn_def to_size_def)
  have 2: "npackets ?s = 0" "nmissed ?s = 0" "last_sbn_seqno ?s = 10" by (simp_all add: demo_pm_def)
  show ?thesis using packets_counted [OF 1] unfolding 2 by simp
qed

theorem sign_extended_not_counted_witness:
  "npackets (counted (to_size (be32 128 0 0 0)) (demo_pm []\<lparr>last_sbn_runno := 7, last_sbn_seqno := 2147483647\<rparr>)) = 0 \<and>
   nmissed (counted (to_size (be32 128 0 0 0)) (demo_pm []\<lparr>last_sbn_runno := 7, last_sbn_seqno := 2147483647\<rparr>)) = 0"
proof -
  let ?s = "demo_pm []\<lparr>last_sbn_runno := 7, last_sbn_seqno := 2147483647\<rparr>"
  have 1: "last_sbn_runno ?s = to_size (sbn_runno (pm_sbn ?s))" "last_sbn_seqno ?s < 2 ^ 31" "128 \<le> uint (128 :: 8 word)"
    by (simp_all add: demo_pm_def demo_sbn_def to_size_def)
  have 2: "npackets ?s = 0" "nmissed ?s = 0" by (simp_all add: demo_pm_def)
  show ?thesis using sign_extended_not_counted [OF 1, of 0 0 0] unfolding 2 .
qed

end
