(* ===== verification/Pm_Assembly.thy ===== *)
theory Pm_Assembly
  imports Pm_Loop
begin

text \<open>
  What the product-maker does with a product of the NWSTG channels that arrives in order: the fragments end up
  one behind the other in the product heap, and the last one completes the product. The first part has the
  lemmas about one fragment, from the data in the buffer to the linked record.
\<close>

section \<open>Fragment records\<close>

definition ds_room :: "dsheap \<Rightarrow> nat \<Rightarrow> bool" where
  "ds_room D n \<longleftrightarrow> ds_inv D \<and> dataheap D \<noteq> None \<and> nextfrag D = n"

lemma ds_put_get:
  assumes "ds_inv D" "ds_get D p \<noteq> None"
  shows "\<exists>D'. ds_put D p r = Some D' \<and> ds_inv D' \<and> dataheap D' \<noteq> None \<and> nextfrag D' = nextfrag D \<and> MAXFRAGS D' = MAXFRAGS D \<and>
    (\<forall>q. ds_get D' q = (if q = p then Some r else ds_get D q))"
proof -
  from assms(2) obtain l where l: "dataheap D = Some l" "fst p = ds_gen D" "snd p < length l"
    by (auto simp: ds_get_def rd_def split: option.splits if_splits)
  let ?D = "D\<lparr>dataheap := Some (l[snd p := r])\<rparr>"
  have "ds_get ?D q = (if q = p then Some r else ds_get D q)" for q
    using l by (cases p; cases q) (auto simp: ds_get_def rd_def)
  moreover have "ds_put D p r = Some ?D" using l by (simp add: ds_put_def)
  moreover have "ds_inv ?D" using assms(1) l by (simp add: ds_inv_def)
  ultimately show ?thesis by (intro exI [of _ ?D]) simp
qed

lemma ds_alloc_put:
  assumes "ds_room D n" "n < MAXFRAGS D"
  shows "\<exists>D'. ds_put (snd (ds_alloc moves D)) (fst (ds_alloc moves D)) r = Some D' \<and> ds_room D' (n + 1) \<and> MAXFRAGS D' = MAXFRAGS D \<and>
    fst (ds_alloc moves D) = (ds_gen D, n) \<and> (\<forall>q. ds_get D' q = (if q = fst (ds_alloc moves D) then Some r else ds_get D q))"
proof -
  let ?D = "D\<lparr>nextfrag := nextfrag D + 1\<rparr>"
  have D: "ds_inv D" "dataheap D \<noteq> None" "nextfrag D < MAXFRAGS D" using assms by (simp_all add: ds_room_def)
  then have a: "ds_alloc moves D = ((ds_gen D, nextfrag D), ?D)" by (rule ds_alloc_room)
  have i: "ds_inv ?D" using D by (intro ds_inv_nextfrag) simp_all
  have g: "ds_get ?D q = ds_get D q" for q by (simp add: ds_get_def split: option.split)
  have "ds_get D (ds_gen D, nextfrag D) \<noteq> None" using D by (intro ds_live) auto
  then have "ds_get ?D (ds_gen D, nextfrag D) \<noteq> None" unfolding g .
  from ds_put_get [OF i this, of r] show ?thesis
    using assms(1) by (auto simp: a g g [simplified] ds_room_def)
qed

section \<open>Trailing FOS trailers\<close>

text \<open>The specification of the loop that removes them.\<close>

fun strip_fos :: "byte list \<Rightarrow> byte list" where
  "strip_fos d =
     (if 4 < length d \<and> drop (length d - 4) d = FOS_TRAILER then strip_fos (take (length d - 4) d) else d)"

declare strip_fos.simps [simp del]

lemma strip_fos_take: "\<exists>k \<le> length d. strip_fos d = take k d"
proof (induction d rule: strip_fos.induct)
  case (1 d)
  show ?case
  proof (cases "4 < length d \<and> drop (length d - 4) d = FOS_TRAILER")
    case True
    from "1.IH" [OF True] obtain k where "k \<le> length d - 4" "strip_fos (take (length d - 4) d) = take k (take (length d - 4) d)"
      by auto
    with True show ?thesis by (subst strip_fos.simps) (auto simp: min_def intro: exI [of _ k])
  next
    case False
    then show ?thesis by (subst strip_fos.simps) auto
  qed
qed

lemma strip_trailers_spec:
  "mem_read m off (length d) = Some d \<Longrightarrow> strip_trailers m off (length d) = Some (length (strip_fos d))"
proof (induction d rule: strip_fos.induct)
  case (1 d)
  have d: "off + length d \<le> length m" "d = take (length d) (drop off m)"
    using "1.prems" by (auto simp: mem_read_def split: if_splits)
  show ?case
  proof (cases "4 < length d")
    case True
    then have "take 4 (drop (off + length d - 4) m) = take 4 (drop (length d - 4) (drop off m))" by (simp add: add.commute)
    also have "\<dots> = drop (length d - 4) (take (length d) (drop off m))"
      using True by (simp add: drop_take)
    finally have t: "mem_read m (off + length d - 4) 4 = Some (drop (length d - 4) d)"
      using True d by (simp add: mem_read_def)
    show ?thesis
    proof (cases "drop (length d - 4) d = FOS_TRAILER")
      case f: True
      let ?e = "take (length d - 4) d"
      have "take (length d - 4) d = take (length d - 4) (take (length d) (drop off m))" using d(2) by simp
      also have "\<dots> = take (length d - 4) (drop off m)" by (simp add: min_def)
      finally have "?e = take (length d - 4) (drop off m)" .
      moreover have le: "length ?e = length d - 4" by simp
      ultimately have "?e = take (length ?e) (drop off m)" by (simp only:)
      then have "mem_read m off (length ?e) = Some ?e" using d True by (simp add: mem_read_def)
      from "1.IH" [OF conjI [OF True f] this] have "strip_trailers m off (length d - 4) = Some (length (strip_fos ?e))"
        unfolding le .
      with True f show ?thesis
        by (subst strip_trailers.simps, subst strip_fos.simps) (simp add: t)
    next
      case False
      with True show ?thesis by (subst strip_trailers.simps, subst strip_fos.simps) (simp add: t)
    qed
  next
    case False
    then show ?thesis by (subst strip_trailers.simps, subst strip_fos.simps) simp
  qed
qed

section \<open>The product heap\<close>

lemma blit_prefix:
  "length pre = k \<Longrightarrow> k \<le> length m \<Longrightarrow> take k m = pre \<Longrightarrow> take (k + length d) (blit m k d) = pre @ d"
  by (simp add: blit_def min_def)

text \<open>The heap has \<open>xs\<close> at its start, up to \<open>heapcount\<close>, and room for \<open>heapsize\<close> bytes.\<close>

definition heap_holds :: "pm \<Rightarrow> byte list \<Rightarrow> bool" where
  "heap_holds s xs \<longleftrightarrow> memheap (pm_heap s) \<noteq> None \<and> heapsize s \<le> length (heap_mem s) \<and> heapcount s = length xs \<and>
     length xs \<le> length (heap_mem s) \<and> take (length xs) (heap_mem s) = xs"

lemma heap_put_holds:
  assumes "heap_holds s xs" "length (xs @ d) \<le> length (heap_mem s)"
  shows "\<exists>m. heap_put (heapcount s) d s = Some (s\<lparr>pm_heap := (pm_heap s)\<lparr>memheap := Some m\<rparr>\<rparr>) \<and>
    length m = length (heap_mem s) \<and> take (length (xs @ d)) m = xs @ d"
proof -
  obtain m where m: "memheap (pm_heap s) = Some m" "heapcount s = length xs" "take (length xs) m = xs" "length xs \<le> length m"
    using assms(1) by (auto simp: heap_holds_def heap_mem_def)
  have h: "heap_mem s = m" using m by (simp add: heap_mem_def)
  have "mem_write m (heapcount s) d = Some (blit m (length xs) d)"
    using assms(2) m h by (simp add: mem_write_def)
  moreover have "take (length (xs @ d)) (blit m (length xs) d) = xs @ d"
    using blit_prefix [of xs "length xs" m d] m by simp
  moreover have "length (blit m (length xs) d) = length m" using assms(2) m h by simp
  ultimately show ?thesis using m h by (intro exI [of _ "blit m (length xs) d"]) (simp add: heap_put_def set_heap_mem_def)
qed


section \<open>One fragment\<close>

text \<open>The packet in the buffer continues the product in progress, or starts one.\<close>

definition in_order :: "pm \<Rightarrow> bool" where
  "in_order s \<longleftrightarrow>
     (case prod_tail s of
        None \<Rightarrow> prod_head s = None
      | Some t \<Rightarrow> prod_head s \<noteq> None \<and> snd t < nextfrag (pm_ds s) \<and>
          (case ds_get (pm_ds s) t of
             None \<Rightarrow> False
           | Some e \<Rightarrow> pdh_dbno (pm_pdh s) = ds_fragnum e + 1 \<and> i32 (pdh_seqno (pm_pdh s)) = prod_seqno s))"

text \<open>After it, the tail is the record of that packet.\<close>

definition tail_is :: "pm \<Rightarrow> int \<Rightarrow> bool" where
  "tail_is s k \<longleftrightarrow> prod_head s \<noteq> None \<and>
     (case prod_tail s of
        None \<Rightarrow> False
      | Some t \<Rightarrow> snd t < nextfrag (pm_ds s) \<and>
          (case ds_get (pm_ds s) t of None \<Rightarrow> False | Some e \<Rightarrow> ds_fragnum e = k))"

text \<open>The part of a block that is stored: for the last fragment, without trailers.\<close>

definition stored_part :: "pm \<Rightarrow> byte list \<Rightarrow> byte list" where
  "stored_part s d = (if last_frag s then strip_fos d else d)"

lemma stored_part_take: "\<exists>k \<le> length d. stored_part s d = take k d"
  using strip_fos_take [of d] by (auto simp: stored_part_def intro: exI [of _ "length d"])

definition data_of :: "pm \<Rightarrow> byte list option" where
  "data_of s = mem_read (pm_buf s) (nat (int (blockoff s) + ccb_len (pm_ccb s))) (nat (pdh_dbsize (pm_pdh s) - ccb_len (pm_ccb s)))"

lemma strip_fos_short: "length d \<le> 4 \<Longrightarrow> strip_fos d = d"
  by (subst strip_fos.simps) simp

lemma mem_read_take: "mem_read m off n = Some d \<Longrightarrow> k \<le> length d \<Longrightarrow> mem_read m off (length (take k d)) = Some (take k d)"
  by (auto simp: mem_read_def min_def split: if_splits)

lemma link_ok:
  assumes "ds_inv (pm_ds s)" "ds_get (pm_ds s) (pfrag s) = Some r" "snd (pfrag s) < nextfrag (pm_ds s)"
    and "prod_head s \<noteq> None \<Longrightarrow> \<exists>t e. prod_tail s = Some t \<and> ds_get (pm_ds s) t = Some e \<and> t \<noteq> pfrag s"
  shows "\<exists>D h. pm_link s = Go (s\<lparr>pm_ds := D, heapcount := sz_add (heapcount s) (to_size (deflen s)), prod_head := h, prod_tail := Some (pfrag s)\<rparr>) \<and>
    h \<noteq> None \<and> ds_inv D \<and> dataheap D \<noteq> None \<and> nextfrag D = nextfrag (pm_ds s) \<and> MAXFRAGS D = MAXFRAGS (pm_ds s) \<and>
    ds_get D (pfrag s) = Some (r\<lparr>ds_recsiz := deflen s\<rparr>)"
proof -
  obtain D1 where D1: "ds_put (pm_ds s) (pfrag s) (r\<lparr>ds_recsiz := deflen s\<rparr>) = Some D1" "ds_inv D1" "dataheap D1 \<noteq> None"
    "nextfrag D1 = nextfrag (pm_ds s)" "MAXFRAGS D1 = MAXFRAGS (pm_ds s)"
    "\<And>q. ds_get D1 q = (if q = pfrag s then Some (r\<lparr>ds_recsiz := deflen s\<rparr>) else ds_get (pm_ds s) q)"
    using ds_put_get [OF assms(1), of "pfrag s" "r\<lparr>ds_recsiz := deflen s\<rparr>"] assms(2) by auto
  show ?thesis
  proof (cases "prod_head s")
    case None
    with D1 assms(2) show ?thesis
      by (intro exI [of _ D1] exI [of _ "Some (pfrag s)"]) (simp add: pm_link_def Let_def)
  next
    case (Some h)
    then obtain t e where t: "prod_tail s = Some t" "ds_get (pm_ds s) t = Some e" "t \<noteq> pfrag s"
      using assms(4) by auto
    have g: "ds_get D1 t = Some e" using t D1(6) by simp
    obtain D2 where D2: "ds_put D1 t (e\<lparr>ds_next := Some (pfrag s)\<rparr>) = Some D2" "ds_inv D2" "dataheap D2 \<noteq> None"
      "nextfrag D2 = nextfrag D1" "MAXFRAGS D2 = MAXFRAGS D1"
      "\<And>q. ds_get D2 q = (if q = t then Some (e\<lparr>ds_next := Some (pfrag s)\<rparr>) else ds_get D1 q)"
      using ds_put_get [OF D1(2), of t "e\<lparr>ds_next := Some (pfrag s)\<rparr>"] g by auto
    have "ds_get D2 (pfrag s) = Some (r\<lparr>ds_recsiz := deflen s\<rparr>)" using D2(6) D1(6) t(3) by simp
    with Some D1 D2 t g assms(2) show ?thesis
      by (intro exI [of _ D2] exI [of _ "Some h"]) (simp add: pm_link_def Let_def)
  qed
qed

text \<open>What storing a fragment leaves alone.\<close>

definition same_rest :: "pm \<Rightarrow> pm \<Rightarrow> bool" where
  "same_rest s s' \<longleftrightarrow>
    pm_buf s' = pm_buf s \<and> pm_inp s' = pm_inp s \<and> pm_pdh s' = pm_pdh s \<and> pm_sbn s' = pm_sbn s \<and> pm_psh s' = pm_psh s \<and>
    prod_seqno s' = prod_seqno s \<and> prod_nfrag s' = prod_nfrag s \<and> PROD_NAME s' = PROD_NAME s \<and> pm_queue s' = pm_queue s \<and>
    GOES s' = GOES s \<and> NWSTG s' = NWSTG s \<and> nprods s' = nprods s \<and> heapsize s' = heapsize s \<and>
    MAXFRAGS (pm_ds s') = MAXFRAGS (pm_ds s)"

lemma nwstg_data_ok:
  assumes "prod_nfrag s \<noteq> 0 \<and> prod_tail s \<noteq> None \<Longrightarrow> follows_tail s = Some True"
    and "mem_read (pm_buf s) (nat (dataoff s)) (nat (datalen s)) = Some d" "0 \<le> datalen s" "datalen s < 65536" "heap_holds s xs"
    and "length (xs @ stored_part s d) \<le> heapsize s" "heapsize s < 2 ^ 63"
  shows "\<exists>m. pm_nwstg_data E s = Go (s\<lparr>datalen := int (length (stored_part s d)), pm_heap := (pm_heap s)\<lparr>memheap := Some m\<rparr>,
      pm_md5 := pm_md5 s @ stored_part s d, deflen := int (length (stored_part s d))\<rparr>) \<and>
    length m = length (heap_mem s) \<and> take (length (xs @ stored_part s d)) m = xs @ stored_part s d"
proof -
  let ?e = "stored_part s d"
  have ld: "length d = nat (datalen s)" using mem_read_length [OF assms(2)] .
  have n: "(if last_frag s \<and> 4 < datalen s then map_option int (strip_trailers (pm_buf s) (nat (dataoff s)) (nat (datalen s)))
      else Some (datalen s)) = Some (int (length ?e))"
    using strip_trailers_spec [of "pm_buf s" "nat (dataoff s)" d] assms(2,3) ld strip_fos_short [of d]
    by (auto simp: stored_part_def)
  let ?s = "s\<lparr>datalen := int (length ?e)\<rparr>"
  obtain k where k: "k \<le> length d" "?e = take k d" using stored_part_take by blast
  have le: "length ?e < 65536" using k ld assms(3,4) by simp
  have ts: "to_size (int (length ?e)) = length ?e" using le by (subst to_size_id) simp_all
  have hc: "heapcount s = length xs" "heapsize s \<le> length (heap_mem s)"
    using assms(5) by (simp_all add: heap_holds_def)
  have sum: "sz_add (heapcount s) (length ?e) = length (xs @ ?e)"
    using hc assms(6,7) by (simp add: sz_add_eq)
  have rd: "mem_read (pm_buf s) (nat (dataoff s)) (length ?e) = Some ?e"
    using mem_read_take [OF assms(2) k(1)] k(2) by simp
  have hs: "heap_holds ?s xs" using assms(5) by (simp add: heap_holds_def heap_mem_def)
  have "length (xs @ ?e) \<le> length (heap_mem ?s)" using assms(6) hc by (simp add: heap_mem_def)
  from heap_put_holds [OF hs this] obtain m where
    m: "heap_put (heapcount ?s) ?e ?s = Some (?s\<lparr>pm_heap := (pm_heap ?s)\<lparr>memheap := Some m\<rparr>\<rparr>)"
    "length m = length (heap_mem ?s)" "take (length (xs @ ?e)) m = xs @ ?e" by blast
  have ap: "heap_append ?s = Some (?s\<lparr>pm_heap := (pm_heap ?s)\<lparr>memheap := Some m\<rparr>, pm_md5 := pm_md5 s @ ?e\<rparr>)"
    using m(1) by (simp add: heap_append_def ts rd)
  have fits: "\<not> heapsize s < length (xs @ ?e)" using assms(6) by simp
  let ?store = "case (if last_frag s \<and> 4 < datalen s
                   then map_option int (strip_trailers (pm_buf s) (nat (dataoff s)) (nat (datalen s))) else Some (datalen s)) of
               None \<Rightarrow> Crash
             | Some n \<Rightarrow>
                 (let s1 = s\<lparr>datalen := n\<rparr>
                  in if heapsize s1 < sz_add (heapcount s1) (to_size n) then Cont s1
                     else go (map_option (\<lambda>s2. s2\<lparr>deflen := n\<rparr>) (heap_append s1)))"
  have st: "?store = Go (s\<lparr>datalen := int (length ?e), pm_heap := (pm_heap s)\<lparr>memheap := Some m\<rparr>,
      pm_md5 := pm_md5 s @ ?e, deflen := int (length ?e)\<rparr>)"
    unfolding n Let_def option.case using ap fits sum by (simp add: ts)
  have "pm_nwstg_data E s = ?store"
    using assms(1) by (auto simp: pm_nwstg_data_def Let_def)
  with st m(2,3) show ?thesis by (intro exI [of _ m]) (simp add: heap_mem_def)
qed

lemma store_fragment:
  assumes "GOES s = False" "in_order s" "ds_room (pm_ds s) n" "n < MAXFRAGS (pm_ds s)" "heap_holds s xs"
    and "data_of s = Some d" "0 \<le> ccb_len (pm_ccb s)" "ccb_len (pm_ccb s) \<le> pdh_dbsize (pm_pdh s)" "pdh_dbsize (pm_pdh s) < 65536"
    and "length (xs @ stored_part s d) \<le> heapsize s" "heapsize s < 2 ^ 63"
  shows "\<exists>s'. flow_bind (pm_fragment E s) (\<lambda>s5. flow_bind (if GOES s5 then pm_goes_data E s5 else pm_nwstg_data E s5) pm_link) = Go s' \<and>
    heap_holds s' (xs @ stored_part s d) \<and> pm_md5 s' = pm_md5 s @ stored_part s d \<and>
    ds_room (pm_ds s') (n + 1) \<and> tail_is s' (pdh_dbno (pm_pdh s)) \<and> same_rest s s'"
proof -
  define r where "r = \<lparr>ds_seqno = i32 (pdh_seqno (pm_pdh s)), ds_fragnum = pdh_dbno (pm_pdh s), ds_offset = heapcount s,
    ds_recsiz = pdh_dbsize (pm_pdh s) - ccb_len (pm_ccb s), ds_next = None\<rparr>"
  obtain p D0 where al: "ds_alloc (e_moves E) (pm_ds s) = (p, D0)" by fastforce
  obtain D1 where D1: "ds_put D0 p r = Some D1" "ds_room D1 (n + 1)" "MAXFRAGS D1 = MAXFRAGS (pm_ds s)"
    "p = (ds_gen (pm_ds s), n)" "\<And>q. ds_get D1 q = (if q = p then Some r else ds_get (pm_ds s) q)"
    using ds_alloc_put [OF assms(3,4), of "e_moves E" r] al by auto
  let ?s1 = "s\<lparr>dataoff := int (blockoff s) + ccb_len (pm_ccb s), datalen := pdh_dbsize (pm_pdh s) - ccb_len (pm_ccb s),
    pm_ds := D1, pfrag := p\<rparr>"
  have f: "pm_fragment E s = Go ?s1"
    using al D1(1) by (simp add: pm_fragment_def Let_def r_def)
  have nf: "nextfrag (pm_ds s) = n" "nextfrag D1 = n + 1" "ds_inv D1" using assms(3) D1(2) by (simp_all add: ds_room_def)
  have tl: "\<exists>e. ds_get D1 t = Some e \<and> t \<noteq> p \<and> prod_head s \<noteq> None \<and> pdh_dbno (pm_pdh s) = ds_fragnum e + 1 \<and>
      i32 (pdh_seqno (pm_pdh s)) = prod_seqno s" if "prod_tail s = Some t" for t
    using assms(2) that nf D1(4,5) by (auto simp: in_order_def split: option.splits)
  have gp: "ds_get D1 p = Some r" using D1(5) by simp
  have fo: "follows_tail ?s1 = Some True" if "prod_tail s \<noteq> None"
    using that tl gp by (auto simp: follows_tail_def r_def)
  have e: "stored_part ?s1 d = stored_part s d" by (simp add: stored_part_def last_frag_def)
  have h1: "heap_holds ?s1 xs" using assms(5) by (simp add: heap_holds_def heap_mem_def)
  obtain m where m: "pm_nwstg_data E ?s1 = Go (?s1\<lparr>datalen := int (length (stored_part s d)),
      pm_heap := (pm_heap ?s1)\<lparr>memheap := Some m\<rparr>, pm_md5 := pm_md5 ?s1 @ stored_part s d, deflen := int (length (stored_part s d))\<rparr>)"
      "length m = length (heap_mem ?s1)" "take (length (xs @ stored_part s d)) m = xs @ stored_part s d"
    using nwstg_data_ok [of ?s1 d xs E] fo assms(6-11) h1 e by (auto simp: data_of_def)
  define s2 where "s2 = ?s1\<lparr>datalen := int (length (stored_part s d)), pm_heap := (pm_heap ?s1)\<lparr>memheap := Some m\<rparr>,
    pm_md5 := pm_md5 ?s1 @ stored_part s d, deflen := int (length (stored_part s d))\<rparr>"
  have hd: "\<exists>t e. prod_tail s2 = Some t \<and> ds_get (pm_ds s2) t = Some e \<and> t \<noteq> pfrag s2" if "prod_head s2 \<noteq> None"
  proof -
    have "prod_tail s \<noteq> None" using that assms(2) by (auto simp: in_order_def s2_def split: option.splits)
    with tl show ?thesis by (auto simp: s2_def)
  qed
  obtain D h where L: "pm_link s2 = Go (s2\<lparr>pm_ds := D, heapcount := sz_add (heapcount s2) (to_size (deflen s2)), prod_head := h,
      prod_tail := Some (pfrag s2)\<rparr>)" "h \<noteq> None" "ds_inv D" "dataheap D \<noteq> None" "nextfrag D = nextfrag (pm_ds s2)"
      "MAXFRAGS D = MAXFRAGS (pm_ds s2)" "ds_get D (pfrag s2) = Some (r\<lparr>ds_recsiz := deflen s2\<rparr>)"
    using link_ok [of s2 r] hd gp nf D1(4) by (auto simp: s2_def)
  let ?s3 = "s2\<lparr>pm_ds := D, heapcount := sz_add (heapcount s2) (to_size (deflen s2)), prod_head := h, prod_tail := Some (pfrag s2)\<rparr>"
  have hc: "heapcount s = length xs" "heapsize s \<le> length (heap_mem s)"
    using assms(5) by (simp_all add: heap_holds_def)
  have lb: "length (stored_part s d) < 2 ^ 63" using assms(10,11) by simp
  then have "to_size (int (length (stored_part s d))) = length (stored_part s d)" by (subst to_size_id) simp_all
  then have c3: "heapcount ?s3 = length (xs @ stored_part s d)"
    using hc assms(10,11) by (simp add: s2_def sz_add_eq)
  have "heap_holds ?s3 (xs @ stored_part s d)"
    using c3 m(2,3) hc assms(10) by (simp add: heap_holds_def s2_def heap_mem_def)
  moreover have "ds_room D (n + 1)" using L nf by (simp add: ds_room_def s2_def)
  moreover have "tail_is ?s3 (pdh_dbno (pm_pdh s))"
    using L nf D1(4) by (simp add: tail_is_def s2_def r_def)
  moreover have "same_rest s ?s3" using L(6) D1(3) by (simp add: same_rest_def s2_def)
  moreover have "flow_bind (pm_fragment E s) (\<lambda>s5. flow_bind (if GOES s5 then pm_goes_data E s5 else pm_nwstg_data E s5) pm_link) = Go ?s3"
    using f m(1) L(1) assms(1) by (simp add: s2_def)
  ultimately show ?thesis
    by (intro exI [of _ ?s3]) (simp add: s2_def)
qed


section \<open>The complete product\<close>

text \<open>
  The product of an NWSTG channel: the FOS header and data \<open>xs\<close>, the trailer, the name followed by the metadata,
  and the digest of everything but the header. A text product that is not plain ASCII changes its category.
\<close>

definition text_product :: "sbn_struct \<Rightarrow> psh_struct \<Rightarrow> int \<Rightarrow> cstr \<Rightarrow> byte list \<Rightarrow> byte list \<Rightarrow> product" where
  "text_product h psh seqno name xs md5 =
     (let ident = name @ psh_metadata psh
      in \<lparr>p_feedtype = feedtype_of h (if sbn_datastream h = 5 \<and> psh_pcat psh \<in> {1, 7} \<and> prod_isascii xs \<noteq> Some True
                                      then psh\<lparr>psh_pcat := psh_pcat psh + 100\<rparr> else psh),
          p_seqno = seqno mod 2 ^ 32, p_data = xs @ FOS_TRAILER, p_ident = (if ident = [] then str ''_NOHEAD'' else ident),
          p_signature = md5 @ FOS_TRAILER\<rparr>)"

lemma finish_text:
  assumes "last_frag s" "GOES s = False" "NWSTG s" "heap_holds s xs" "4 < length xs" "length xs + 4 \<le> heapsize s" "heapsize s < 2 ^ 32"
    and "psh_metadata (pm_psh s) \<noteq> str '' !grib2/''" "length (PROD_NAME s @ psh_metadata (pm_psh s)) < 1024" "ds_inv (pm_ds s)"
  shows "\<exists>s'. pm_finish E s = Go s' \<and>
    pm_queue s' = pm_queue s @ [text_product (pm_sbn s) (pm_psh s) (prod_seqno s) (PROD_NAME s) xs (pm_md5 s)] \<and>
    nprods s' = sz_add (nprods s) 1 \<and> prod_head s' = None \<and> prod_tail s' = None \<and> pm_inp s' = pm_inp s \<and>
    pm_buf s' = pm_buf s \<and> ds_inv (pm_ds s')"
proof -
  have hc: "heapcount s = length xs" "heapsize s \<le> length (heap_mem s)" "take (length xs) (heap_mem s) = xs"
    using assms(4) by (simp_all add: heap_holds_def)
  let ?bad = "sbn_datastream (pm_sbn s) = 5 \<and> psh_pcat (pm_psh s) \<in> {1, 7} \<and> prod_isascii xs \<noteq> Some True"
  let ?psh = "if ?bad then (pm_psh s)\<lparr>psh_pcat := psh_pcat (pm_psh s) + 100\<rparr> else pm_psh s"
  let ?s1 = "s\<lparr>pm_psh := ?psh\<rparr>"
  have ne: "xs \<noteq> []" "length xs < 2 ^ 64" using assms(5-7) by auto
  then have tot: "prod_isascii xs \<noteq> None" unfolding prod_isascii_def by (rule ascii_from_total)
  have s1: "(if sbn_datastream (pm_sbn s) = 5 \<and> psh_pcat (pm_psh s) \<in> {1, 7}
            then do { ok \<leftarrow> prod_isascii (take (heapcount s) (heap_mem s));
                      Some (if ok then s else s\<lparr>pm_psh := (pm_psh s)\<lparr>psh_pcat := psh_pcat (pm_psh s) + 100\<rparr>\<rparr>) }
            else Some s) = Some ?s1"
    using tot hc by auto
  have h1: "heap_holds ?s1 xs" using assms(4) by (simp add: heap_holds_def heap_mem_def)
  have "length (xs @ FOS_TRAILER) \<le> length (heap_mem ?s1)"
    using hc assms(6) by (simp add: heap_mem_def FOS_TRAILER_def)
  from heap_put_holds [OF h1 this] obtain m where
    m: "heap_put (heapcount ?s1) FOS_TRAILER ?s1 = Some (?s1\<lparr>pm_heap := (pm_heap ?s1)\<lparr>memheap := Some m\<rparr>\<rparr>)"
    "length m = length (heap_mem ?s1)" "take (length (xs @ FOS_TRAILER)) m = xs @ FOS_TRAILER" by blast
  let ?s2 = "?s1\<lparr>pm_heap := (pm_heap ?s1)\<lparr>memheap := Some m\<rparr>, pm_md5 := pm_md5 s @ FOS_TRAILER, heapcount := length xs + 4\<rparr>"
  have add4: "sz_add (length xs) 4 = length xs + 4" using assms(6,7) by (intro sz_add_eq) simp
  have tr: "pm_trailer s = Some ?s2"
    unfolding pm_trailer_def s1 using m(1) hc(1) by (simp add: add4)
  have l4: "length FOS_TRAILER = 4" by (simp add: FOS_TRAILER_def)
  have md: "psh_metadata ?psh = psh_metadata (pm_psh s)" by simp
  have hm: "heap_mem ?s2 = m" by (simp add: heap_mem_def)
  have bound: "length xs + 4 \<le> length m" "length xs + 4 < 2 ^ 32" using m(2) hc(2) assms(6,7) by (simp_all add: heap_mem_def)
  have tk: "take (length xs + 4) m = xs @ FOS_TRAILER" using m(3) l4 by simp
  have pp: "process_prod (e_g2 E) (prod_seqno s) (PROD_NAME s) m (length xs + 4) (pm_md5 s @ FOS_TRAILER) ?psh (pm_sbn s) =
      Some (Some (text_product (pm_sbn s) (pm_psh s) (prod_seqno s) (PROD_NAME s) xs (pm_md5 s)), ?psh)"
    using process_prod_plain [of ?psh "PROD_NAME s" "length xs + 4" m "e_g2 E" "prod_seqno s" "pm_md5 s @ FOS_TRAILER" "pm_sbn s"]
      assms(8,9) bound md tk by (simp add: text_product_def Let_def)
  have ins: "pm_insert E ?s2 = Some (pm_free (?s2\<lparr>pm_psh := ?psh,
      pm_queue := pm_queue s @ [text_product (pm_sbn s) (pm_psh s) (prod_seqno s) (PROD_NAME s) xs (pm_md5 s)]\<rparr>)
      \<lparr>PNGINIT := False, nprods := sz_add (nprods s) 1\<rparr>)"
    unfolding pm_insert_def hm using pp by simp
  have fin: "pm_finish E s = go (pm_insert E ?s2)"
    using assms(1-3,5) hc(1) tr by (simp add: pm_finish_def pm_end_image_def pm_end_text_def)
  have "ds_inv (ds_free (pm_ds s))" using assms(10) by (simp add: ds_free_def ds_inv_nextfrag)
  then show ?thesis
    unfolding fin ins by (simp add: pm_free_def)
qed

text \<open>
  C18: The feed type of a finished product, for each feed from the stream, the product type and category, and what the product
  contains: text of the stream 5 with a character that is not plain goes to HDS instead of IDS or DDPLUS. The product is the heap
  with the trailer, under its name and metadata, and its number is the unsigned number of the product.
\<close>

theorem text_product_feed:
  assumes v: "sbn_datastream (pm_sbn s) = ds" "psh_ptype (pm_psh s) = pt" "psh_pcat (pm_psh s) = cat"
    and a: "last_frag s" "GOES s = False" "NWSTG s" "heap_holds s xs" "4 < length xs" "length xs + 4 \<le> heapsize s" "heapsize s < 2 ^ 32"
    and b: "psh_metadata (pm_psh s) \<noteq> str '' !grib2/''" "length (PROD_NAME s @ psh_metadata (pm_psh s)) < 1024" "ds_inv (pm_ds s)"
  shows "\<exists>s' p. pm_finish E s = Go s' \<and> pm_queue s' = pm_queue s @ [p] \<and> p_data p = xs @ [13, 13, 10, 3] \<and>
    p_signature p = pm_md5 s @ [13, 13, 10, 3] \<and> p_seqno p = prod_seqno s mod 2 ^ 32 \<and>
    p_ident p = (if PROD_NAME s = [] \<and> psh_metadata (pm_psh s) = [] then str ''_NOHEAD'' else PROD_NAME s @ psh_metadata (pm_psh s)) \<and>
    (p_feedtype p = IDS_DDPLUS) = (ds \<noteq> 6 \<and> 4 \<le> pt \<and> cat \<in> {1, 7} \<and> (ds = 5 \<longrightarrow> plain_text xs)) \<and>
    (p_feedtype p = HDS) = (ds \<noteq> 6 \<and> 4 \<le> pt \<and> (cat \<in> {2, 4, 5, 101, 107} \<or> cat \<in> {1, 7} \<and> ds = 5 \<and> \<not> plain_text xs)) \<and>
    (p_feedtype p = NEXRAD) = (ds \<noteq> 6 \<and> 4 \<le> pt \<and> cat = 99) \<and>
    (p_feedtype p = NIMAGE) = (if ds = 6 then pt \<in> {1, 2, 3} else pt < 4) \<and>
    (p_feedtype p = NGRID) = (ds = 6 \<and> pt = 4)"
proof -
  let ?p = "text_product (pm_sbn s) (pm_psh s) (prod_seqno s) (PROD_NAME s) xs (pm_md5 s)"
  obtain s' where s': "pm_finish E s = Go s'" "pm_queue s' = pm_queue s @ [?p]"
    using finish_text [OF a b] by blast
  have "xs \<noteq> []" "length xs < 2 ^ 64" using a(5-7) by auto
  then have pl: "prod_isascii xs = Some (plain_text xs)" by (rule prod_isascii_exact)
  have f: "p_feedtype ?p = feedtype_of (pm_sbn s) (if ds = 5 \<and> cat \<in> {1, 7} \<and> \<not> plain_text xs
      then (pm_psh s)\<lparr>psh_pcat := cat + 100\<rparr> else pm_psh s)"
    by (auto simp: text_product_def Let_def pl v)
  have feeds: "(p_feedtype ?p = IDS_DDPLUS) = (ds \<noteq> 6 \<and> 4 \<le> pt \<and> cat \<in> {1, 7} \<and> (ds = 5 \<longrightarrow> plain_text xs))"
    "(p_feedtype ?p = HDS) = (ds \<noteq> 6 \<and> 4 \<le> pt \<and> (cat \<in> {2, 4, 5, 101, 107} \<or> cat \<in> {1, 7} \<and> ds = 5 \<and> \<not> plain_text xs))"
    "(p_feedtype ?p = NEXRAD) = (ds \<noteq> 6 \<and> 4 \<le> pt \<and> cat = 99)"
    "(p_feedtype ?p = NIMAGE) = (if ds = 6 then pt \<in> {1, 2, 3} else pt < 4)"
    "(p_feedtype ?p = NGRID) = (ds = 6 \<and> pt = 4)"
    unfolding f by (auto simp: feedtype_of_def v)
  have "p_data ?p = xs @ [13, 13, 10, 3] \<and> p_signature ?p = pm_md5 s @ [13, 13, 10, 3] \<and> p_seqno ?p = prod_seqno s mod 2 ^ 32 \<and>
      p_ident ?p = (if PROD_NAME s = [] \<and> psh_metadata (pm_psh s) = [] then str ''_NOHEAD'' else PROD_NAME s @ psh_metadata (pm_psh s))"
    by (simp add: text_product_def Let_def FOS_TRAILER_def)
  with s' feeds show ?thesis by blast
qed

text \<open>A product of category 1 with a Latin-1 character in it.\<close>

definition demo_finish :: pm where
  "demo_finish = (demo_pm [])\<lparr>NWSTG := True, pm_sbn := demo_sbn\<lparr>sbn_datastream := 5\<rparr>, pm_psh := demo_psh\<lparr>psh_ptype := 5, psh_pcat := 1\<rparr>,
     pm_heap := \<lparr>memheap = Some ([1, 65, 233, 66, 67] @ replicate 5 0), largestsiz = 10\<rparr>, heapcount := 5, heapsize := 10, prod_seqno := - 1\<rparr>"

theorem text_product_feed_witness:
  "\<exists>s' p. pm_finish demo_env demo_finish = Go s' \<and> pm_queue s' = [p] \<and> p_feedtype p = HDS \<and> p_seqno p = 4294967295 \<and>
    p_data p = [1, 65, 233, 66, 67, 13, 13, 10, 3]"
proof -
  have "last_frag demo_finish" "GOES demo_finish = False" "NWSTG demo_finish" "heap_holds demo_finish [1, 65, 233, 66, 67]"
    "4 < length [1, 65, 233, 66, 67 :: byte]" "length [1, 65, 233, 66, 67 :: byte] + 4 \<le> heapsize demo_finish" "heapsize demo_finish < 2 ^ 32"
    "psh_metadata (pm_psh demo_finish) \<noteq> str '' !grib2/''" "length (PROD_NAME demo_finish @ psh_metadata (pm_psh demo_finish)) < 1024"
    "ds_inv (pm_ds demo_finish)"
    by (simp_all add: demo_finish_def demo_pm_def demo_psh_def last_frag_def heap_holds_def heap_mem_def ds_inv_def)
  from text_product_feed [OF refl refl refl this, of demo_env]
  obtain s' p where r: "pm_finish demo_env demo_finish = Go s'" "pm_queue s' = [p]" "p_data p = [1, 65, 233, 66, 67, 13, 13, 10, 3]"
    "p_seqno p = - 1 mod 2 ^ 32" "(p_feedtype p = HDS) = (\<not> plain_text [1, 65, 233, 66, 67])"
    by (auto simp: demo_finish_def demo_pm_def demo_psh_def)
  have "\<not> plain_text [1, 65, 233, 66, 67]" by (simp add: plain_text_def plain_byte_def upt_rec)
  with r show ?thesis by auto
qed

section \<open>Receiving a packet\<close>

text \<open>The surroundings in which nothing fails.\<close>

definition env_ok :: "pm_env \<Rightarrow> bool" where
  "env_ok E \<longleftrightarrow> 10000 \<le> e_fz E \<and> (\<forall>k. \<not> e_oserr E k) \<and> (\<forall>n. e_alloc E n)"

lemma blit_extend:
  "length pre = k \<Longrightarrow> k + length d \<le> length b \<Longrightarrow> blit (pre @ drop k b) k d = (pre @ d) @ drop (length (pre @ d)) b"
  by (simp add: blit_def add.commute)

lemma get_next:
  assumes "env_ok E" "pm_buf s = pre @ drop (length pre) b" "length pre + length d \<le> length b" "length b = 10000"
    "pm_inp s = d @ rest" "d \<noteq> []" "off = length pre" "n = length d"
  shows "pm_read E off n s = Got 0 (s\<lparr>pm_reads := pm_reads s + 1, pm_buf := (pre @ d) @ drop (length (pre @ d)) b, pm_inp := rest\<rparr>)"
proof -
  have "length (pm_buf s) = length b" using assms(2,3) by simp
  then have "pm_read E off n s = Got 0 (s\<lparr>pm_reads := pm_reads s + 1, pm_buf := blit (pm_buf s) off d, pm_inp := rest\<rparr>)"
    using assms by (intro pm_read_avail) (auto simp: env_ok_def)
  moreover have "blit (pm_buf s) off d = (pre @ d) @ drop (length (pre @ d)) b"
    unfolding assms(2,7) using assms(3) by (intro blit_extend) simp_all
  ultimately show ?thesis by simp
qed

lemma length_sbn_bytes [simp]: "length (sbn_bytes h) = 16"
  by (simp add: sbn_bytes_def Let_def be32_bytes_def be16_bytes_def)

lemma length_pdh_bytes [simp]: "length (pdh_bytes p) = 16"
  by (simp add: pdh_bytes_def Let_def be32_bytes_def be16_bytes_def)

lemma sbn_bytes_Cons: "\<exists>t. sbn_bytes h = 255 # t \<and> length t = 15"
  by (simp add: sbn_bytes_def Let_def be32_bytes_def be16_bytes_def)

lemma sync_ok:
  assumes "env_ok E" "length (pm_buf s) = 10000" "sbn_ok h" "pm_inp s = sbn_bytes h @ pdh_bytes p @ rest"
  shows "\<exists>cs. pm_sync E s = Go (s\<lparr>pm_sbn := h\<lparr>sbn_checksum := cs, sbn_seqno := to_size (i32 (int (sbn_seqno h)))\<rparr>,
    pm_reads := pm_reads s + 3, pm_buf := (sbn_bytes h @ pdh_bytes p) @ drop 32 (pm_buf s), pm_inp := rest\<rparr>)"
proof -
  obtain t where t: "sbn_bytes h = 255 # t" "length t = 15" using sbn_bytes_Cons by blast
  let ?b = "pm_buf s"
  let ?s1 = "s\<lparr>pm_reads := pm_reads s + 1, pm_buf := [255] @ drop 1 ?b, pm_inp := t @ pdh_bytes p @ rest\<rparr>"
  have 1: "pm_read E 0 1 s = Got 0 ?s1"
    using get_next [OF assms(1), of s "[]" ?b "[255]" "t @ pdh_bytes p @ rest" 0 1] assms(2,4) t by simp
  let ?s2 = "s\<lparr>pm_reads := pm_reads s + 2, pm_buf := sbn_bytes h @ drop 16 ?b, pm_inp := pdh_bytes p @ rest\<rparr>"
  have tne: "t \<noteq> []" using t by auto
  have 2: "pm_read E 1 15 ?s1 = Got 0 ?s2"
  proof -
    have a: "pm_buf ?s1 = [255] @ drop (length [255 :: byte]) ?b" by simp
    have b: "length [255 :: byte] + length t \<le> length ?b" unfolding t(2) assms(2) by simp
    have c: "pm_inp ?s1 = t @ pdh_bytes p @ rest" by simp
    have d: "1 = length [255 :: byte]" "15 = length t" by (simp_all add: t(2))
    have e: "([255] @ t) @ drop (length ([255] @ t)) ?b = sbn_bytes h @ drop 16 ?b" by (simp add: t)
    show ?thesis
      using get_next [OF assms(1) a b assms(2) c tne d] unfolding e by simp
  qed
  obtain cs where cs: "readsbn (sbn_bytes h @ drop 16 ?b) (pm_sbn s) =
      Some (0, h\<lparr>sbn_checksum := cs, sbn_seqno := to_size (i32 (int (sbn_seqno h)))\<rparr>)"
    using sbn_parse [OF assms(3)] by blast
  let ?s3 = "?s2\<lparr>pm_sbn := h\<lparr>sbn_checksum := cs, sbn_seqno := to_size (i32 (int (sbn_seqno h)))\<rparr>\<rparr>"
  have 3: "sbn_sync E ?s2 = Go ?s3"
    by (subst sbn_sync.simps) (simp add: cs Let_def)
  have pne: "pdh_bytes p \<noteq> []" by (simp add: pdh_bytes_def)
  let ?s4 = "?s3\<lparr>pm_reads := pm_reads s + 3, pm_buf := (sbn_bytes h @ pdh_bytes p) @ drop 32 ?b, pm_inp := rest\<rparr>"
  have 4: "pm_read E 16 16 ?s3 = Got 0 ?s4"
  proof -
    have a: "pm_buf ?s3 = sbn_bytes h @ drop (length (sbn_bytes h)) ?b" by simp
    have b: "length (sbn_bytes h) + length (pdh_bytes p) \<le> length ?b" by (simp add: assms(2))
    have c: "pm_inp ?s3 = pdh_bytes p @ rest" by simp
    have d: "16 = length (sbn_bytes h)" "16 = length (pdh_bytes p)" by simp_all
    have e: "length (sbn_bytes h @ pdh_bytes p) = 32" by simp
    show ?thesis
      using get_next [OF assms(1) a b assms(2) c pne d] unfolding e by simp
  qed
  have "pm_sync E s = Go ?s4"
    unfolding pm_sync_def 1 on_read.simps using 2 3 4 by simp
  then show ?thesis by (intro exI [of _ cs]) simp
qed


text \<open>The part of the state that belongs to the product in progress.\<close>

definition same_product :: "pm \<Rightarrow> pm \<Rightarrow> bool" where
  "same_product s s' \<longleftrightarrow>
     prod_seqno s' = prod_seqno s \<and> prod_nfrag s' = prod_nfrag s \<and> prod_head s' = prod_head s \<and> prod_tail s' = prod_tail s \<and>
     pm_ds s' = pm_ds s \<and> pm_heap s' = pm_heap s \<and> heapcount s' = heapcount s \<and> heapsize s' = heapsize s \<and>
     pm_md5 s' = pm_md5 s \<and> PROD_NAME s' = PROD_NAME s \<and> pm_queue s' = pm_queue s \<and> nprods s' = nprods s"

definition same_statics :: "pm \<Rightarrow> pm \<Rightarrow> bool" where
  "same_statics s s' \<longleftrightarrow> pm_statics s' = pm_statics s \<and> pm_rb s' = pm_rb s \<and> pm_ccb s' = pm_ccb s \<and> pm_psh s' = pm_psh s \<and>
     PNGINIT s' = PNGINIT s \<and> pm_png s' = pm_png s \<and> pm_hgen s' = pm_hgen s"

text \<open>Headers of a product-format packet of an NWSTG channel, 16 bytes each.\<close>

definition nwstg_headers :: "sbn_struct \<Rightarrow> pdh_struct \<Rightarrow> bool" where
  "nwstg_headers h p \<longleftrightarrow> sbn_ok h \<and> sbn_len h = 16 \<and> sbn_version h = 1 \<and> sbn_command h = 3 \<and> sbn_datastream h \<in> {5, 6, 7} \<and>
     pdh_ok p \<and> pdh_len p = 16 \<and> pdh_version p = 1 \<and> 0 \<le> pdh_pshlen p \<and> (pdh_pshlen p \<noteq> 0 \<or> pdh_transtype p \<noteq> 0)"

lemma pm_count_frame [simp]:
  "pm_sbn (pm_count s) = pm_sbn s"
  "pm_pdh (pm_count s) = pm_pdh s"
  "pm_psh (pm_count s) = pm_psh s"
  "pm_pdb (pm_count s) = pm_pdb s"
  "pm_ccb (pm_count s) = pm_ccb s"
  "pm_status (pm_count s) = pm_status s"
  "pm_buf (pm_count s) = pm_buf s"
  "nprods (pm_count s) = nprods s"
  "pm_inp (pm_count s) = pm_inp s"
  "pm_reads (pm_count s) = pm_reads s"
  "PNGINIT (pm_count s) = PNGINIT s"
  "pm_png (pm_count s) = pm_png s"
  "pm_heap (pm_count s) = pm_heap s"
  "pm_hgen (pm_count s) = pm_hgen s"
  "pm_md5 (pm_count s) = pm_md5 s"
  "prod_seqno (pm_count s) = prod_seqno s"
  "prod_nfrag (pm_count s) = prod_nfrag s"
  "prod_head (pm_count s) = prod_head s"
  "prod_tail (pm_count s) = prod_tail s"
  "pm_ds (pm_count s) = pm_ds s"
  "heapcount (pm_count s) = heapcount s"
  "heapsize (pm_count s) = heapsize s"
  "PROD_NAME (pm_count s) = PROD_NAME s"
  "pm_statics (pm_count s) = pm_statics s"
  "pm_rb (pm_count s) = pm_rb s"
  "pm_uncompr (pm_count s) = pm_uncompr s"
  "pm_queue (pm_count s) = pm_queue s"
  by (simp_all add: pm_count_def Let_def)

lemma headers_ok:
  assumes "env_ok E" "length (pm_buf s) = 10000" "nwstg_headers h p" "pm_inp s = sbn_bytes h @ pdh_bytes p @ rest"
  shows "\<exists>s3. flow_bind (pm_sync E s) (\<lambda>s1. flow_bind (pm_classify (pm_count s1)) (pm_header E)) = Go s3 \<and>
    pm_buf s3 = (sbn_bytes h @ pdh_bytes p) @ drop 32 (pm_buf s) \<and> pm_inp s3 = rest \<and> pm_pdh s3 = p \<and>
    sbn_len (pm_sbn s3) = 16 \<and> sbn_command (pm_sbn s3) = 3 \<and> sbn_datastream (pm_sbn s3) = sbn_datastream h \<and>
    NWSTG s3 \<and> \<not> GOES s3 \<and> same_product s s3 \<and> same_statics s s3"
proof -
  have ok: "sbn_ok h" and hv: "sbn_version h = 1" "sbn_command h = 3" "sbn_len h = 16"
    and pv: "pdh_ok p" "pdh_len p = 16" "pdh_version p = 1" "\<not> (pdh_pshlen p = 0 \<and> pdh_transtype p = 0)"
    using assms(3) by (simp_all add: nwstg_headers_def)
  have dm: "sbn_datastream h \<in> {7, 6, 5}"
    using assms(3) by (auto simp: nwstg_headers_def)
  obtain cs where 1: "pm_sync E s = Go (s\<lparr>pm_sbn := h\<lparr>sbn_checksum := cs, sbn_seqno := to_size (i32 (int (sbn_seqno h)))\<rparr>,
    pm_reads := pm_reads s + 3, pm_buf := (sbn_bytes h @ pdh_bytes p) @ drop 32 (pm_buf s), pm_inp := rest\<rparr>)" (is "_ = Go ?s1")
    using sync_ok [OF assms(1,2) ok assms(4)] by blast
  let ?s2 = "pm_count ?s1"
  let ?s3 = "?s2\<lparr>NWSTG := True, GOES := False\<rparr>"
  have 3: "pm_classify ?s2 = Go ?s3" using dm by (simp add: pm_classify_def hv)
  let ?s4 = "?s3\<lparr>pm_pdh := p, PROD_COMPRESSED := bit (pdh_transtype p) 4\<rparr>"
  have dr: "drop 16 (pm_buf ?s3) = pdh_bytes p @ drop 32 (pm_buf s)" by simp
  have rp: "readpdh (drop (nat (sbn_len (pm_sbn ?s3))) (pm_buf ?s3)) (pm_pdh ?s3) = Some (0, p)"
    using pdh_parse [OF pv(1), of "drop 32 (pm_buf s)" "pm_pdh s"] by (simp add: hv)
  have 4: "pm_header E ?s3 = Go ?s4"
    unfolding pm_header_def rp using pv(4) by (simp add: Let_def pm_vet_def pv(2,3))
  have "flow_bind (pm_sync E s) (\<lambda>s1. flow_bind (pm_classify (pm_count s1)) (pm_header E)) = Go ?s4"
    unfolding 1 flow_bind.simps 3 4 ..
  then show ?thesis
    by (intro exI [of _ ?s4]) (simp add: hv same_product_def same_statics_def)
qed

lemma flow_bind_assoc: "flow_bind (flow_bind f g) k = flow_bind f (\<lambda>x. flow_bind (g x) k)"
  by (cases f) simp_all

text \<open>The second half of a pass.\<close>

definition pm_store :: "pm_env \<Rightarrow> pm \<Rightarrow> flow" where
  "pm_store E s = flow_bind (pm_fragment E s) (\<lambda>s5. flow_bind (if GOES s5 then pm_goes_data E s5 else pm_nwstg_data E s5) pm_link)"

definition pm_receive :: "pm_env \<Rightarrow> pm \<Rightarrow> flow" where
  "pm_receive E s =
     flow_bind (flow_bind (pm_sync E s) (\<lambda>s1. flow_bind (pm_classify (pm_count s1)) (pm_header E))) (\<lambda>s3.
       if pdh_pshlen (pm_pdh s3) \<noteq> 0 then pm_start_product E s3 else pm_continuation E s3)"

lemma pm_packet_halves: "pm_packet E s = flow_bind (pm_receive E s) (\<lambda>s4. flow_bind (pm_store E s4) (pm_finish E))"
  by (simp add: pm_packet_def pm_receive_def pm_store_def flow_bind_assoc)

section \<open>A continuation packet\<close>

text \<open>A packet is its two headers and its data block.\<close>

type_synonym cpacket = "sbn_struct \<times> pdh_struct \<times> byte list"

fun packet_bytes :: "cpacket \<Rightarrow> byte list" where
  "packet_bytes (h, p, blk) = sbn_bytes h @ pdh_bytes p @ blk"

fun cont_ok :: "int \<Rightarrow> int \<Rightarrow> int \<Rightarrow> cpacket \<Rightarrow> bool" where
  "cont_ok dst seqno k (h, p, blk) \<longleftrightarrow> nwstg_headers h p \<and> sbn_datastream h = dst \<and> pdh_pshlen p = 0 \<and> pdh_dbno p = k \<and>
     pdh_seqno p = seqno \<and> blk \<noteq> [] \<and> pdh_dbsize p = int (length blk) \<and> length blk \<le> 9968"

text \<open>The header fields a finished product depends on.\<close>

definition same_psh :: "pm \<Rightarrow> pm \<Rightarrow> bool" where
  "same_psh s s' \<longleftrightarrow> psh_metadata (pm_psh s') = psh_metadata (pm_psh s) \<and> psh_pcat (pm_psh s') = psh_pcat (pm_psh s) \<and>
     psh_ptype (pm_psh s') = psh_ptype (pm_psh s)"

lemma cont_received:
  assumes "env_ok E" "length (pm_buf s) = 10000" "prod_head s \<noteq> None" "cont_ok dst seqno k c" "pm_inp s = packet_bytes c @ rest"
  shows "\<exists>s4. pm_receive E s = Go s4 \<and> length (pm_buf s4) = 10000 \<and> pm_inp s4 = rest \<and> data_of s4 = Some (snd (snd c)) \<and>
    pm_pdh s4 = fst (snd c) \<and> ccb_len (pm_ccb s4) = 0 \<and> sbn_datastream (pm_sbn s4) = dst \<and> NWSTG s4 \<and> \<not> GOES s4 \<and>
    same_product s s4 \<and> same_psh s s4"
proof -
  obtain h p blk where c: "c = (h, p, blk)" by (cases c)
  have k: "nwstg_headers h p" "sbn_datastream h = dst" "pdh_pshlen p = 0" "blk \<noteq> []" "pdh_dbsize p = int (length blk)" "length blk \<le> 9968"
    using assms(4) by (simp_all add: c)
  have d4: "sbn_datastream h \<noteq> 4" "pdh_len p = 16" using k(1) by (auto simp: nwstg_headers_def)
  have inp: "pm_inp s = sbn_bytes h @ pdh_bytes p @ (blk @ rest)" using assms(5) by (simp add: c)
  obtain s3 where s3: "flow_bind (pm_sync E s) (\<lambda>s1. flow_bind (pm_classify (pm_count s1)) (pm_header E)) = Go s3"
    "pm_buf s3 = (sbn_bytes h @ pdh_bytes p) @ drop 32 (pm_buf s)" "pm_inp s3 = blk @ rest" "pm_pdh s3 = p"
    "sbn_len (pm_sbn s3) = 16" "sbn_datastream (pm_sbn s3) = sbn_datastream h" "NWSTG s3" "\<not> GOES s3" "same_product s s3" "same_statics s s3"
    using headers_ok [OF assms(1,2) k(1) inp] by blast
  define t where "t = cont_setup s3"
  have nd: "\<not> (sbn_datastream (pm_sbn s3) = 4 \<and> psh_pcat (pm_psh s3) \<noteq> 3)" using s3(6) d4 by simp
  have t: "pm_buf t = pm_buf s3" "pm_inp t = pm_inp s3" "pm_pdh t = p" "pm_sbn t = pm_sbn s3" "ccb_len (pm_ccb t) = 0"
    "NWSTG t" "\<not> GOES t" "same_product s t" "same_psh s t" "blockoff t = 32"
    using s3(4-10) nd d4(2) k(3) unfolding t_def cont_setup_def Let_def
    by (simp_all add: same_product_def same_statics_def same_psh_def blockoff_def)
  let ?pre = "sbn_bytes h @ pdh_bytes p"
  have 1: "pm_buf t = ?pre @ drop (length ?pre) (pm_buf s)" by (simp add: t(1) s3(2))
  have 2: "length ?pre + length blk \<le> length (pm_buf s)" using k(6) by (simp add: assms(2))
  have 3: "pm_inp t = blk @ rest" by (simp add: t(2) s3(3))
  have 4: "32 = length ?pre" by simp
  have g: "pm_read E 32 (length blk) t =
      Got 0 (t\<lparr>pm_reads := pm_reads t + 1, pm_buf := (?pre @ blk) @ drop (length (?pre @ blk)) (pm_buf s), pm_inp := rest\<rparr>)"
    (is "_ = Got 0 ?t") by (rule get_next [OF assms(1) 1 2 assms(2) 3 k(4) 4 refl])
  have ts: "to_size (int (length blk)) = length blk" using k(6) by (subst to_size_id) simp_all
  have "prod_head t \<noteq> None" using t(8) assms(3) by (simp add: same_product_def)
  then have "pm_continuation E s3 = Go ?t"
    unfolding pm_continuation_def t_def [symmetric] using g by (simp add: t(3,10) k(5) ts)
  then have r: "pm_receive E s = Go ?t"
    unfolding pm_receive_def s3(1) by (simp add: s3(4) k(3))
  have bo: "blockoff ?t = 32" using t(10) by (simp add: blockoff_def)
  have "data_of ?t = mem_read ((?pre @ blk) @ drop (length (?pre @ blk)) (pm_buf s)) 32 (length blk)"
    unfolding data_of_def bo by (simp add: t(3,5) k(5))
  also have "\<dots> = Some blk" by (simp add: mem_read_def)
  finally have d: "data_of ?t = Some blk" .
  have "length (pm_buf ?t) = 10000" using k(6) by (simp add: assms(2))
  with r d t s3(6) k(2) show ?thesis
    by (intro exI [of _ ?t]) (simp add: c same_product_def same_psh_def)
qed


section \<open>A product in progress\<close>

text \<open>
  Fragments 0 to \<open>k - 1\<close> of a product of \<open>nf\<close> fragments have been stored: the heap begins with the header
  \<open>hdr\<close> and the data \<open>xs\<close>, the digest has \<open>xs\<close>, and the tail is the record of fragment \<open>k - 1\<close>.
\<close>

definition assembling :: "int \<Rightarrow> nat \<Rightarrow> byte list \<Rightarrow> byte list \<Rightarrow> nat \<Rightarrow> pm \<Rightarrow> bool" where
  "assembling seqno nf hdr xs k s \<longleftrightarrow>
     length (pm_buf s) = 10000 \<and> tail_is s (int k - 1) \<and> ds_room (pm_ds s) k \<and> nf \<le> MAXFRAGS (pm_ds s) \<and>
     prod_seqno s = seqno \<and> prod_nfrag s = int nf \<and> heap_holds s (hdr @ xs) \<and> pm_md5 s = xs \<and> heapsize s < 2 ^ 32"

text \<open>What the name and the metadata contribute.\<close>

definition nameable :: "pm \<Rightarrow> bool" where
  "nameable s \<longleftrightarrow> psh_metadata (pm_psh s) \<noteq> str '' !grib2/'' \<and> length (PROD_NAME s @ psh_metadata (pm_psh s)) < 1024"

definition same_name :: "pm \<Rightarrow> pm \<Rightarrow> bool" where
  "same_name s s' \<longleftrightarrow> same_psh s s' \<and> PROD_NAME s' = PROD_NAME s \<and> pm_queue s' = pm_queue s \<and> heapsize s' = heapsize s \<and>
     nprods s' = nprods s"

lemma text_product_cong:
  "psh_metadata q = psh_metadata r \<Longrightarrow> psh_pcat q = psh_pcat r \<Longrightarrow> psh_ptype q = psh_ptype r \<Longrightarrow>
   sbn_datastream g = sbn_datastream h \<Longrightarrow> text_product g q n nm xs m = text_product h r n nm xs m"
  by (simp add: text_product_def feedtype_of_def Let_def)

lemma in_order_cont:
  "tail_is s (int k - 1) \<Longrightarrow> pdh_dbno (pm_pdh t) = int k \<Longrightarrow> i32 (pdh_seqno (pm_pdh t)) = prod_seqno s \<Longrightarrow> same_product s t \<Longrightarrow> in_order t"
  by (auto simp: tail_is_def in_order_def same_product_def split: option.splits)

lemma holds_same: "heap_holds s xs \<Longrightarrow> pm_heap t = pm_heap s \<Longrightarrow> heapcount t = heapcount s \<Longrightarrow> heapsize t = heapsize s \<Longrightarrow> heap_holds t xs"
  by (simp add: heap_holds_def heap_mem_def)

text \<open>One continuation packet that is not the last, and the last one.\<close>

lemma cont_stored:
  assumes "env_ok E" "assembling seqno nf hdr xs k s" "cont_ok dst seqno (int k) c" "pm_inp s = packet_bytes c @ rest" "k < nf"
    and "i32 seqno = seqno" "length (hdr @ xs @ (if Suc k = nf then strip_fos (snd (snd c)) else snd (snd c))) \<le> heapsize s"
  shows "\<exists>s'. flow_bind (pm_receive E s) (pm_store E) = Go s' \<and> pm_inp s' = rest \<and> same_name s s' \<and> last_frag s' = (Suc k = nf) \<and>
    sbn_datastream (pm_sbn s') = dst \<and> NWSTG s' \<and> \<not> GOES s' \<and>
    assembling seqno nf hdr (xs @ (if Suc k = nf then strip_fos (snd (snd c)) else snd (snd c))) (Suc k) s'"
proof -
  note a = assms(2) [unfolded assembling_def]
  have b: "length (pm_buf s) = 10000" and tl: "tail_is s (int k - 1)" and room: "ds_room (pm_ds s) k" and nf: "nf \<le> MAXFRAGS (pm_ds s)"
    and pq: "prod_seqno s = seqno" "prod_nfrag s = int nf" and h: "heap_holds s (hdr @ xs)" and md: "pm_md5 s = xs" and hs: "heapsize s < 2 ^ 32"
    using assms(2) by (simp_all add: assembling_def)
  have ph: "prod_head s \<noteq> None" using tl by (simp add: tail_is_def)
  obtain s4 where s4: "pm_receive E s = Go s4" "length (pm_buf s4) = 10000" "pm_inp s4 = rest" "data_of s4 = Some (snd (snd c))"
    "pm_pdh s4 = fst (snd c)" "ccb_len (pm_ccb s4) = 0" "sbn_datastream (pm_sbn s4) = dst" "NWSTG s4" "\<not> GOES s4"
    "same_product s s4" "same_psh s s4"
    using cont_received [OF assms(1) b ph assms(3,4)] by blast
  obtain g p blk where c: "c = (g, p, blk)" by (cases c)
  have p: "pdh_dbno p = int k" "pdh_seqno p = seqno" "pdh_dbsize p = int (length blk)" "length blk \<le> 9968"
    using assms(3) by (simp_all add: c)
  have sp: "pm_ds s4 = pm_ds s" "heapsize s4 = heapsize s" "prod_nfrag s4 = int nf" "prod_seqno s4 = seqno" "pm_md5 s4 = xs"
    "PROD_NAME s4 = PROD_NAME s" "pm_queue s4 = pm_queue s" "nprods s4 = nprods s"
    using s4(10) pq md by (simp_all add: same_product_def)
  have io: "in_order s4"
    by (rule in_order_cont [OF tl _ _ s4(10)]) (simp_all add: s4(5) c p assms(6) pq)
  have ho: "heap_holds s4 (hdr @ xs)" using h s4(10) by (intro holds_same [OF h]) (simp_all add: same_product_def)
  have lf: "last_frag s4 = (Suc k = nf)" using assms(5) by (auto simp: last_frag_def sp s4(5) c p)
  define e where "e = (if Suc k = nf then strip_fos blk else blk)"
  have st: "stored_part s4 blk = e" by (simp add: stored_part_def lf e_def)
  have g4: "GOES s4 = False" using s4(9) by simp
  have r4: "ds_room (pm_ds s4) k" "k < MAXFRAGS (pm_ds s4)" using room nf assms(5) by (simp_all add: sp)
  have d4: "data_of s4 = Some blk" using s4(4) by (simp add: c)
  have c4: "0 \<le> ccb_len (pm_ccb s4)" "ccb_len (pm_ccb s4) \<le> pdh_dbsize (pm_pdh s4)" "pdh_dbsize (pm_pdh s4) < 65536"
    using p by (simp_all add: s4(5,6) c)
  have l4: "length ((hdr @ xs) @ stored_part s4 blk) \<le> heapsize s4" "heapsize s4 < 2 ^ 63"
    using assms(7) hs unfolding c by (cases "Suc k = nf"; simp add: st e_def sp)+
  obtain s' where s': "pm_store E s4 = Go s'" "heap_holds s' ((hdr @ xs) @ e)" "pm_md5 s' = xs @ e" "ds_room (pm_ds s') (k + 1)"
    "tail_is s' (int k)" "same_rest s4 s'"
    using store_fragment [OF g4 io r4 ho d4 c4 l4, of E]
    unfolding pm_store_def [symmetric] by (auto simp: s4(5) c p st sp)
  have ra: "pm_buf s' = pm_buf s4" "pm_inp s' = rest" "pm_pdh s' = p" "pm_sbn s' = pm_sbn s4" "pm_psh s' = pm_psh s4"
    "prod_seqno s' = seqno" "prod_nfrag s' = int nf" "PROD_NAME s' = PROD_NAME s" "pm_queue s' = pm_queue s" "\<not> GOES s'" "NWSTG s'"
    "nprods s' = nprods s" "heapsize s' = heapsize s" "MAXFRAGS (pm_ds s') = MAXFRAGS (pm_ds s)"
    using s'(6) s4(3,8,9) by (simp_all add: same_rest_def sp s4(5) c)
  have "assembling seqno nf hdr (xs @ e) (Suc k) s'"
    using s'(2-5) s4(2) nf hs by (simp add: assembling_def ra)
  moreover have "same_name s s'" using s4(11) by (simp add: same_name_def same_psh_def ra)
  moreover have "last_frag s' = (Suc k = nf)" using assms(5) by (auto simp: last_frag_def ra p)
  ultimately show ?thesis
    using s4(1,7) s'(1) unfolding c snd_conv e_def [symmetric] by (intro exI [of _ s']) (simp add: ra)
qed


fun conts_ok :: "int \<Rightarrow> int \<Rightarrow> int \<Rightarrow> cpacket list \<Rightarrow> bool" where
  "conts_ok dst seqno k [] \<longleftrightarrow> True"
| "conts_ok dst seqno k (c # cs) \<longleftrightarrow> cont_ok dst seqno k c \<and> conts_ok dst seqno (k + 1) cs"

text \<open>The data of the fragments: all blocks as they are, the last one without trailers.\<close>

fun frag_data :: "cpacket list \<Rightarrow> byte list" where
  "frag_data [] = []"
| "frag_data [c] = strip_fos (snd (snd c))"
| "frag_data (c # cs) = snd (snd c) @ frag_data cs"

lemma pm_loop_go: "pm_packet E s = Go s' \<Longrightarrow> pm_loop E s = pm_loop E s'"
  by (subst pm_loop.simps) simp

lemma same_name_trans: "same_name s t \<Longrightarrow> same_name t u \<Longrightarrow> same_name s u"
  by (simp add: same_name_def same_psh_def)

lemma conts_assembled:
  assumes "env_ok E" "assembling seqno nf hdr xs k s" "conts_ok dst seqno (int k) cs" "cs \<noteq> []" "nf = k + length cs"
    and "pm_inp s = concat (map packet_bytes cs) @ rest" "i32 seqno = seqno"
    and "length (hdr @ xs @ frag_data cs) + 4 \<le> heapsize s" "4 < length (hdr @ xs @ frag_data cs)" "nameable s"
  shows "\<exists>s'. pm_loop E s = pm_loop E s' \<and> pm_inp s' = rest \<and>
    pm_queue s' = pm_queue s @ [text_product (demo_sbn\<lparr>sbn_datastream := dst\<rparr>) (pm_psh s) seqno (PROD_NAME s)
      (hdr @ xs @ frag_data cs) (xs @ frag_data cs)] \<and> nprods s' = sz_add (nprods s) 1 \<and>
    prod_head s' = None \<and> length (pm_buf s') = 10000 \<and> ds_inv (pm_ds s')"
  using assms(2-)
proof (induction cs arbitrary: xs k s)
  case Nil
  then show ?case by simp
next
  case (Cons c cs)
  have ok: "cont_ok dst seqno (int k) c" "conts_ok dst seqno (int (Suc k)) cs" using Cons.prems(2) by (simp_all add: add.commute)
  have inp: "pm_inp s = packet_bytes c @ (concat (map packet_bytes cs) @ rest)" using Cons.prems(5) by simp
  have k: "k < nf" using Cons.prems(4) by simp
  let ?e = "if Suc k = nf then strip_fos (snd (snd c)) else snd (snd c)"
  have last: "(Suc k = nf) = (cs = [])" using Cons.prems(4) by (cases cs) simp_all
  have fd: "frag_data (c # cs) = ?e @ frag_data cs" unfolding last by (cases cs) simp_all
  have fits: "length (hdr @ xs @ ?e) \<le> heapsize s" using Cons.prems(7) unfolding fd by simp
  obtain s' where s': "flow_bind (pm_receive E s) (pm_store E) = Go s'" "pm_inp s' = concat (map packet_bytes cs) @ rest"
    "same_name s s'" "last_frag s' = (Suc k = nf)" "sbn_datastream (pm_sbn s') = dst" "NWSTG s'" "\<not> GOES s'"
    "assembling seqno nf hdr (xs @ ?e) (Suc k) s'"
    using cont_stored [OF assms(1) Cons.prems(1) ok(1) inp k Cons.prems(6) fits] by blast
  have pk: "pm_packet E s = pm_finish E s'"
    by (simp add: pm_packet_halves flow_bind_assoc [symmetric] s'(1))
  have nm: "nameable s'" using Cons.prems(9) s'(3) by (simp add: nameable_def same_name_def same_psh_def)
  have hsz: "heapsize s' = heapsize s" using s'(3) by (simp add: same_name_def)
  show ?case
  proof (cases "cs = []")
    case True
    have a: "heap_holds s' (hdr @ xs @ ?e)" "pm_md5 s' = xs @ ?e" "heapsize s' < 2 ^ 32" "ds_inv (pm_ds s')" "prod_seqno s' = seqno"
      "length (pm_buf s') = 10000"
      using s'(8) by (simp_all add: assembling_def ds_room_def)
    have sz: "4 < length (hdr @ xs @ ?e)" "length (hdr @ xs @ ?e) + 4 \<le> heapsize s'"
      using Cons.prems(7,8) unfolding fd hsz by (simp_all add: True)
    have g: "GOES s' = False" using s'(7) by simp
    have l: "last_frag s'" using s'(4) last True by simp
    obtain u where u: "pm_finish E s' = Go u"
      "pm_queue u = pm_queue s' @ [text_product (pm_sbn s') (pm_psh s') (prod_seqno s') (PROD_NAME s') (hdr @ xs @ ?e) (pm_md5 s')]"
      "nprods u = sz_add (nprods s') 1" "prod_head u = None" "pm_inp u = pm_inp s'" "pm_buf u = pm_buf s'" "ds_inv (pm_ds u)"
      using finish_text [OF l g s'(6) a(1) sz a(3) nm [unfolded nameable_def, THEN conjunct1] nm [unfolded nameable_def, THEN conjunct2] a(4), of E]
      by blast
    have tp: "text_product (pm_sbn s') (pm_psh s') (prod_seqno s') (PROD_NAME s') (hdr @ xs @ ?e) (pm_md5 s') =
        text_product (demo_sbn\<lparr>sbn_datastream := dst\<rparr>) (pm_psh s) seqno (PROD_NAME s) (hdr @ xs @ ?e) (xs @ ?e)"
    proof -
      have n: "PROD_NAME s' = PROD_NAME s" "psh_metadata (pm_psh s') = psh_metadata (pm_psh s)"
        "psh_pcat (pm_psh s') = psh_pcat (pm_psh s)" "psh_ptype (pm_psh s') = psh_ptype (pm_psh s)"
        using s'(3) by (simp_all add: same_name_def same_psh_def)
      show ?thesis
        unfolding n(1) a(2,5) by (rule text_product_cong) (simp_all add: n s'(5))
    qed
    have "pm_loop E s = pm_loop E u" using pk u(1) by (intro pm_loop_go) simp
    with u tp s'(2,3) a(6) True fd show ?thesis
      by (intro exI [of _ u]) (simp add: same_name_def)
  next
    case False
    have nl: "\<not> last_frag s'" using s'(4) last False by simp
    then have "pm_finish E s' = Go s'" by (simp add: pm_finish_def)
    then have lp: "pm_loop E s = pm_loop E s'" using pk by (intro pm_loop_go) simp
    have e: "?e = snd (snd c)" using last False by simp
    obtain u where "pm_loop E s' = pm_loop E u" "pm_inp u = rest"
      "pm_queue u = pm_queue s' @ [text_product (demo_sbn\<lparr>sbn_datastream := dst\<rparr>) (pm_psh s') seqno (PROD_NAME s')
        (hdr @ (xs @ ?e) @ frag_data cs) ((xs @ ?e) @ frag_data cs)]" "nprods u = sz_add (nprods s') 1"
      "prod_head u = None" "length (pm_buf u) = 10000" "ds_inv (pm_ds u)"
      using Cons.IH [OF s'(8) ok(2) False _ s'(2) Cons.prems(6) _ _ nm] Cons.prems(4,7,8) unfolding fd hsz by auto
    moreover have "text_product (demo_sbn\<lparr>sbn_datastream := dst\<rparr>) (pm_psh s') seqno (PROD_NAME s') ys zs =
        text_product (demo_sbn\<lparr>sbn_datastream := dst\<rparr>) (pm_psh s) seqno (PROD_NAME s) ys zs" for ys zs
      using s'(3) by (simp only: same_name_def same_psh_def) (intro text_product_cong; simp)
    ultimately show ?thesis using lp s'(3) fd by (intro exI [of _ u]) (simp add: same_name_def)
  qed
qed

end
