(* ===== verification/Pm_Product.thy ===== *)
theory Pm_Product
  imports Pm_Assembly
begin

text \<open>
  The first packet of a product, and whole products: from the bytes in the FIFO to the entry in the LDM queue.
\<close>

section \<open>What the header parsers leave alone\<close>

lemma readpsh_prefix: "36 \<le> length ps \<Longrightarrow> readpsh (ps @ r) old = readpsh ps old"
proof -
  assume l: "36 \<le> length ps"
  have r: "rd (ps @ r) i = rd ps i" if "i < 36" for i
    using that l by (simp add: rd_def nth_append)
  show ?thesis unfolding readpsh_def Let_def by (simp add: r)
qed

lemma readpsh_frags: "readpsh ps old = Some (st, q) \<Longrightarrow> 0 \<le> psh_frags q \<and> psh_frags q < 65536 \<and> st = 0"
  using be16_bounds by (auto simp: readpsh_def Let_def bind_eq_Some_conv)

lemma ccb_name_frags: "ccb_name m ccb psh r out = Some q \<Longrightarrow> psh_frags q = psh_frags psh"
  by (auto simp: ccb_name_def split: option.splits if_splits)

lemma ccb_datatype_frags: "ccb_datatype m blen ccb psh rb = Some (q, t, rb') \<Longrightarrow> psh_frags q = psh_frags psh"
  by (auto simp: ccb_datatype_def split: option.splits if_splits)

lemma readccb_frame:
  assumes "readccb W rtl m ccb psh blen st rb = Some (iret, ccb', psh', st', rb')" "0 \<le> blen"
  shows "0 \<le> ccb_len ccb' \<and> ccb_len ccb' \<le> blen \<and> psh_frags psh' = psh_frags psh"
  using assms
  by (auto simp: readccb_def Let_def bind_eq_Some_conv split: if_splits dest!: ccb_name_frags ccb_datatype_frags)

lemma length_dec_pad3: "0 \<le> n \<Longrightarrow> n < 1000 \<Longrightarrow> length (dec_pad 3 n) = 3"
proof -
  assume n: "0 \<le> n" "n < 1000"
  then have "nat n < 10 ^ 3" by simp
  then have "length (digits (nat n)) \<le> 3" by (rule length_digits_le) simp
  with n show ?thesis by (simp add: dec_pad_def)
qed

lemma length_fos_header: "0 \<le> seqno \<Longrightarrow> seqno < 2 ^ 31 \<Longrightarrow> length (fos_header seqno) = 11"
proof -
  assume s: "0 \<le> seqno" "seqno < 2 ^ 31"
  then have "i32 seqno = seqno" by (intro i32_id) simp_all
  moreover have "c_rem seqno 1000 = seqno mod 1000"
    using s by (simp add: c_rem_def quot_def minus_mult_div_eq_mod)
  ultimately show ?thesis by (simp add: fos_header_def length_dec_pad3)
qed


section \<open>The first packet\<close>

text \<open>The first packet of a product carries the product-specific header \<open>ps\<close> between its headers and its block.\<close>

definition start_bytes :: "sbn_struct \<Rightarrow> pdh_struct \<Rightarrow> byte list \<Rightarrow> byte list \<Rightarrow> byte list" where
  "start_bytes h p ps blk = sbn_bytes h @ pdh_bytes p @ ps @ blk"

definition start_ok :: "sbn_struct \<Rightarrow> pdh_struct \<Rightarrow> byte list \<Rightarrow> byte list \<Rightarrow> bool" where
  "start_ok h p ps blk \<longleftrightarrow> nwstg_headers h p \<and> 36 \<le> length ps \<and> pdh_pshlen p = int (length ps) \<and> blk \<noteq> [] \<and>
     pdh_dbsize p = int (length blk) \<and> 32 + length ps + length blk \<le> 10000 \<and> pdh_dbno p = 0"

text \<open>No product is in progress, and the heaps are in order.\<close>

definition between_products :: "pm \<Rightarrow> bool" where
  "between_products s \<longleftrightarrow> length (pm_buf s) = 10000 \<and> prod_head s = None \<and> prod_tail s = None \<and> ds_inv (pm_ds s) \<and> heap_inv (pm_heap s)"

lemma start_header:
  assumes "env_ok E" "between_products s" "start_ok h p ps blk" "pm_inp s = start_bytes h p ps blk @ rest"
    and "readpsh ps (pm_psh s) = Some (0, q)" "psh_olen q = int (length ps)"
  shows "\<exists>s3. pm_receive E s = flow_bind (pm_begin E s3) (\<lambda>t. flow_bind (if GOES t then pm_goes_start E t else Go t)
      (\<lambda>u. if NWSTG u then pm_nwstg_start E u else Go u)) \<and>
    pm_buf s3 = (sbn_bytes h @ pdh_bytes p @ ps) @ drop (length (sbn_bytes h @ pdh_bytes p @ ps)) (pm_buf s) \<and> pm_inp s3 = blk @ rest \<and>
    pm_pdh s3 = p \<and> pm_psh s3 = q \<and> sbn_len (pm_sbn s3) = 16 \<and> sbn_datastream (pm_sbn s3) = sbn_datastream h \<and>
    NWSTG s3 \<and> \<not> GOES s3 \<and> same_product s s3 \<and> pm_statics s3 = pm_statics s \<and> pm_rb s3 = pm_rb s \<and> pm_ccb s3 = pm_ccb s"
proof -
  have k: "nwstg_headers h p" "36 \<le> length ps" "pdh_pshlen p = int (length ps)" "32 + length ps + length blk \<le> 10000"
    using assms(3) by (simp_all add: start_ok_def)
  have b: "length (pm_buf s) = 10000" "prod_head s = None" using assms(2) by (simp_all add: between_products_def)
  have pl: "pdh_len p = 16" using k(1) by (simp add: nwstg_headers_def)
  have inp: "pm_inp s = sbn_bytes h @ pdh_bytes p @ (ps @ blk @ rest)" using assms(4) by (simp add: start_bytes_def)
  obtain s1 where s1: "flow_bind (pm_sync E s) (\<lambda>s1. flow_bind (pm_classify (pm_count s1)) (pm_header E)) = Go s1"
    "pm_buf s1 = (sbn_bytes h @ pdh_bytes p) @ drop 32 (pm_buf s)" "pm_inp s1 = ps @ blk @ rest" "pm_pdh s1 = p"
    "sbn_len (pm_sbn s1) = 16" "sbn_command (pm_sbn s1) = 3" "sbn_datastream (pm_sbn s1) = sbn_datastream h" "NWSTG s1" "\<not> GOES s1"
    "same_product s s1" "same_statics s s1"
    using headers_ok [OF assms(1) b(1) k(1) inp] by blast
  let ?pre = "sbn_bytes h @ pdh_bytes p"
  have 1: "pm_buf s1 = ?pre @ drop (length ?pre) (pm_buf s)" by (simp add: s1(2))
  have 2: "length ?pre + length ps \<le> length (pm_buf s)" using k(4) by (simp add: b)
  have 3: "32 = length ?pre" by simp
  have ne: "ps \<noteq> []" using k(2) by auto
  have g: "pm_read E 32 (length ps) s1 =
      Got 0 (s1\<lparr>pm_reads := pm_reads s1 + 1, pm_buf := (?pre @ ps) @ drop (length (?pre @ ps)) (pm_buf s), pm_inp := blk @ rest\<rparr>)"
    (is "_ = Got 0 ?s2") by (rule get_next [OF assms(1) 1 2 b(1) s1(3) ne 3 refl])
  have ts: "to_size (int (length ps)) = length ps" using k(4) by (subst to_size_id) simp_all
  have psh: "pm_psh s1 = pm_psh s" using s1(11) by (simp add: same_statics_def)
  let ?s3 = "?s2\<lparr>pm_psh := q\<rparr>"
  have dr: "drop 32 (pm_buf ?s2) = ps @ drop (length (?pre @ ps)) (pm_buf s)" by simp
  have rp: "readpsh (drop 32 (pm_buf ?s2)) (pm_psh ?s2) = Some (0, q)"
    unfolding dr readpsh_prefix [OF k(2)] using assms(5) psh by simp
  have off: "nat (sbn_len (pm_sbn s1) + pdh_len p) = 32" by (simp add: s1(5) pl)
  have h: "pm_psh_header E s1 = Go ?s3"
    unfolding pm_psh_header_def Let_def s1(4) off k(3) ts g on_read.simps
    by (simp only: rp option.case prod.case) (simp add: s1(4,6) k(3) assms(6))
  have ab: "pm_abandon E ?s3 = Go ?s3" using s1(10) b(2) by (simp add: pm_abandon_def same_product_def)
  have pn: "pdh_pshlen p \<noteq> 0" using k(3) ne by simp
  have "pm_receive E s = pm_start_product E s1"
    unfolding pm_receive_def s1(1) by (simp add: s1(4) pn)
  then have r: "pm_receive E s = flow_bind (pm_begin E ?s3) (\<lambda>t. flow_bind (if GOES t then pm_goes_start E t else Go t)
      (\<lambda>u. if NWSTG u then pm_nwstg_start E u else Go u))"
    unfolding pm_start_product_def h ab flow_bind.simps .
  show ?thesis
    using s1(4-11) by (intro exI [of _ ?s3] conjI r) (simp_all add: same_product_def same_statics_def)
qed

lemma start_received:
  assumes "env_ok E" "between_products s" "start_ok h p ps blk" "pm_inp s = start_bytes h p ps blk @ rest"
    and "readpsh ps (pm_psh s) = Some (0, q)" "psh_olen q = int (length ps)"
    and "readccb (e_wgrib E) (e_rtl E) (blk @ drop (32 + length ps + length blk) (pm_buf s)) (pm_ccb s) (q\<lparr>psh_pname := []\<rparr>)
      (int (length blk)) (pm_statics s) (pm_rb s) = Some (iret, ccb, psh, stat, rb)"
  shows "\<exists>s4. pm_receive E s = Go s4 \<and> length (pm_buf s4) = 10000 \<and> pm_inp s4 = rest \<and>
    data_of s4 = Some (drop (nat (ccb_len ccb)) blk) \<and> pm_pdh s4 = p \<and> pm_ccb s4 = ccb \<and>
    sbn_datastream (pm_sbn s4) = sbn_datastream h \<and> NWSTG s4 \<and> \<not> GOES s4 \<and> in_order s4 \<and> ds_room (pm_ds s4) 0 \<and>
    nat (psh_frags q) < MAXFRAGS (pm_ds s4) \<and> prod_seqno s4 = pdh_seqno p \<and> prod_nfrag s4 = psh_frags q \<and>
    heap_holds s4 (fos_header (pdh_seqno p)) \<and> pm_md5 s4 = [] \<and> heapsize s4 = max 1 (nat (psh_frags q)) * 4015 + 32 \<and>
    PROD_NAME s4 = psh_pname psh \<and> psh_metadata (pm_psh s4) = psh_metadata psh \<and> psh_pcat (pm_psh s4) = psh_pcat psh \<and>
    psh_ptype (pm_psh s4) = psh_ptype psh \<and> pm_queue s4 = pm_queue s \<and> nprods s4 = nprods s"
proof -
  obtain s3 where s3: "pm_receive E s = flow_bind (pm_begin E s3) (\<lambda>t. flow_bind (if GOES t then pm_goes_start E t else Go t)
      (\<lambda>u. if NWSTG u then pm_nwstg_start E u else Go u))"
    "pm_buf s3 = (sbn_bytes h @ pdh_bytes p @ ps) @ drop (length (sbn_bytes h @ pdh_bytes p @ ps)) (pm_buf s)" "pm_inp s3 = blk @ rest"
    "pm_pdh s3 = p" "pm_psh s3 = q" "sbn_len (pm_sbn s3) = 16" "sbn_datastream (pm_sbn s3) = sbn_datastream h"
    "NWSTG s3" "\<not> GOES s3" "same_product s s3" "pm_statics s3 = pm_statics s" "pm_rb s3 = pm_rb s" "pm_ccb s3 = pm_ccb s"
    using start_header [OF assms(1-6)] by blast
  have k: "nwstg_headers h p" "pdh_pshlen p = int (length ps)" "blk \<noteq> []" "pdh_dbsize p = int (length blk)"
    "32 + length ps + length blk \<le> 10000"
    using assms(3) by (simp_all add: start_ok_def)
  have pl: "pdh_len p = 16" "sbn_datastream h \<noteq> 4" "pdh_ok p" using k(1) by (auto simp: nwstg_headers_def)
  have sq: "0 \<le> pdh_seqno p" "pdh_seqno p < 2 ^ 31" using pl(3) by (simp_all add: pdh_ok_def)
  then have i: "i32 (pdh_seqno p) = pdh_seqno p" by (intro i32_id) simp_all
  have b: "length (pm_buf s) = 10000" "ds_inv (pm_ds s)" "heap_inv (pm_heap s)" "prod_head s = None" "prod_tail s = None"
    using assms(2) by (simp_all add: between_products_def)
  have sp: "pm_ds s3 = pm_ds s" "pm_heap s3 = pm_heap s" "prod_head s3 = None" "prod_tail s3 = None" "pm_queue s3 = pm_queue s" "nprods s3 = nprods s"
    using s3(10) b by (simp_all add: same_product_def)
  let ?pre = "sbn_bytes h @ pdh_bytes p @ ps" and ?off = "32 + length ps"
  define t where "t = s3\<lparr>prod_seqno := pdh_seqno p, prod_nfrag := psh_frags q, pm_ds := ds_init (e_moves E) (pm_ds s) (nat (psh_frags q))\<rparr>"
  have t: "blockoff t = ?off" "pm_buf t = ?pre @ drop (length ?pre) (pm_buf s)" "pm_inp t = blk @ rest"
    using s3(2-4,6) by (simp_all add: t_def blockoff_def pl(1) k(2) nat_add_distrib)
  have 2: "length ?pre + length blk \<le> length (pm_buf s)" using k(5) by (simp add: b(1))
  have 3: "?off = length ?pre" by simp
  have g: "pm_read E ?off (length blk) t =
      Got 0 (t\<lparr>pm_reads := pm_reads t + 1, pm_buf := (?pre @ blk) @ drop (length (?pre @ blk)) (pm_buf s), pm_inp := rest\<rparr>)"
    (is "_ = Got 0 ?t2") by (rule get_next [OF assms(1) t(2) 2 b(1) t(3) k(3) 3 refl])
  have ts: "to_size (int (length blk)) = length blk" using k(5) by (subst to_size_id) simp_all
  define u where "u = ?t2\<lparr>heapcount := 0, pm_md5 := []\<rparr>"
  have tt: "s3\<lparr>prod_seqno := i32 (pdh_seqno (pm_pdh s3)), prod_nfrag := psh_frags (pm_psh s3),
      pm_ds := ds_init (e_moves E) (pm_ds s3) (nat (psh_frags (pm_psh s3)))\<rparr> = t"
    by (simp add: t_def s3(4,5) i sp)
  have pt: "pm_pdh t = p" by (simp add: t_def s3(4))
  have dn: "sbn_datastream (pm_sbn ?t2) \<noteq> 4" using pl(2) s3(7) by (simp add: t_def)
  have bg: "pm_begin E s3 = Go u"
    unfolding pm_begin_def Let_def tt t(1) pt k(4) ts g on_read.simps using dn by (simp add: u_def)
  have ug: "\<not> GOES u" "NWSTG u" using s3(8,9) by (simp_all add: u_def t_def)
  have r1: "pm_receive E s = pm_nwstg_start E u" unfolding s3(1) bg by (simp add: ug)
  have bu: "pm_buf u = (?pre @ blk) @ drop (length (?pre @ blk)) (pm_buf s)" "blockoff u = ?off" "pm_pdh u = p" "pm_psh u = q"
    "pm_ccb u = pm_ccb s" "pm_statics u = pm_statics s" "pm_rb u = pm_rb s" "pm_heap u = pm_heap s"
    using t(1) s3(4,5,11-13) by (simp_all add: u_def blockoff_def t_def sp)
  let ?u1 = "u\<lparr>pm_psh := (pm_psh u)\<lparr>psh_pname := []\<rparr>\<rparr>"
  have dr: "drop ?off (pm_buf ?u1) = blk @ drop (32 + length ps + length blk) (pm_buf s)"
    by (simp add: bu(1) add.assoc)
  have b1: "blockoff ?u1 = ?off" using bu(2) by (simp add: blockoff_def)
  note fr = readccb_frame [OF assms(7)] readpsh_frags [OF assms(5)]
  let ?u2 = "?u1\<lparr>pm_ccb := ccb, pm_psh := psh, pm_statics := stat, pm_rb := rb, PROD_NAME := psh_pname psh\<rparr>"
  have nf: "psh_frags psh = psh_frags q" using fr(1) by simp
  define bsize where "bsize = max 1 (nat (psh_frags q)) * 4015 + 32"
  obtain bs H where al: "prodalloc (e_alloc E) (nat (psh_frags q)) 4015 (pm_heap s) = (bs, H)" by fastforce
  have eal: "e_alloc E bs" using assms(1) by (simp add: env_ok_def)
  have H: "bs = bsize" "heap_inv H" "\<exists>m. memheap H = Some m \<and> bsize \<le> length m"
    using prodalloc_enough [OF b(3) al eal] by (auto simp: bsize_def split: option.splits)
  then obtain m where m: "memheap H = Some m" "bsize \<le> length m" by blast
  obtain gen where u3: "pm_alloc E (4000 + 15) ?u2 = ?u2\<lparr>pm_heap := H, heapsize := bsize, pm_hgen := gen\<rparr>"
    using al H(1) by (simp add: pm_alloc_def nf bu(8))
  let ?u3 = "?u2\<lparr>pm_heap := H, heapsize := bsize, pm_hgen := gen\<rparr>"
  let ?hdr = "fos_header (pdh_seqno p)"
  have lh: "length ?hdr = 11" by (rule length_fos_header [OF sq])
  have l12: "12 \<le> length m" using m(2) by (simp add: bsize_def)
  have wr: "heap_put 0 (?hdr @ [0]) ?u3 = Some (?u3\<lparr>pm_heap := H\<lparr>memheap := Some (blit m 0 (?hdr @ [0]))\<rparr>\<rparr>)"
    using m l12 lh by (simp add: heap_put_def heap_mem_def mem_write_def set_heap_mem_def)
  let ?m = "blit m 0 (?hdr @ [0])"
  have tm: "take 11 ?m = ?hdr" "length ?m = length m" using lh l12 by (simp_all add: blit_def)
  define v where "v = ?u3\<lparr>pm_heap := H\<lparr>memheap := Some ?m\<rparr>, heapcount := 11,
    pm_psh := (if 0 < psh_metaoff psh then psh\<lparr>psh_metaoff := psh_metaoff psh + 11\<rparr> else psh)\<rparr>"
  have rc: "readccb (e_wgrib E) (e_rtl E) (drop (blockoff ?u1) (pm_buf ?u1)) (pm_ccb ?u1) (pm_psh ?u1) (pdh_dbsize (pm_pdh ?u1))
      (pm_statics ?u1) (pm_rb ?u1) = Some (iret, ccb, psh, stat, rb)"
    unfolding b1 dr using assms(7) by (simp add: bu k(4))
  have p3: "pm_pdh ?u3 = p" by (simp add: bu)
  have hc0: "heapcount u = 0" by (simp add: u_def)
  have st: "pm_nwstg_start E u = Go v"
    unfolding pm_nwstg_start_def Let_def rc option.case prod.case u3 p3 wr option.map go_simps
    by (simp add: v_def hc0)
  define n where "n = nat (ccb_len ccb)"
  have n: "ccb_len ccb = int n" "n \<le> length blk" using fr(1) by (auto simp: n_def nat_le_iff)
  have bv: "blockoff v = ?off" using b1 by (simp add: v_def blockoff_def)
  have bufv: "pm_buf v = (?pre @ blk) @ drop (length (?pre @ blk)) (pm_buf s)" by (simp add: v_def bu(1))
  have da: "data_of v = mem_read (pm_buf v) (?off + n) (length blk - n)"
    unfolding data_of_def bv using n by (simp add: v_def bu(3) k(4) nat_add_distrib nat_diff_distrib)
  also have "\<dots> = Some (drop n blk)"
    unfolding bufv using n(2) by (simp add: mem_read_def)
  finally have da: "data_of v = Some (drop n blk)" .
  have ho: "heap_holds v ?hdr"
    using m(2) tm lh by (simp add: v_def heap_holds_def heap_mem_def bsize_def)
  note di = ds_init_inv [OF b(2), of "e_moves E" "nat (psh_frags q)"]
  have dsv: "pm_ds v = ds_init (e_moves E) (pm_ds s) (nat (psh_frags q))" by (simp add: v_def u_def t_def)
  have lv: "length (pm_buf v) = 10000" unfolding bufv using k(5) by (simp add: b(1))
  have io: "in_order v" using sp by (simp add: in_order_def v_def u_def t_def)
  have rec: "pm_receive E s = Go v" using r1 st by simp
  have ps: "psh_metadata (pm_psh v) = psh_metadata psh" "psh_pcat (pm_psh v) = psh_pcat psh" "psh_ptype (pm_psh v) = psh_ptype psh"
    by (simp_all add: v_def)
  show ?thesis
    using di ho lv io da s3(7) ug sp n_def dsv ps
    by (intro exI [of _ v] conjI rec) (simp_all add: v_def u_def t_def s3(4) bsize_def ds_room_def)
qed


section \<open>Whole products\<close>

lemma start_stored:
  assumes "env_ok E" "between_products s" "start_ok h p ps blk" "pm_inp s = start_bytes h p ps blk @ rest"
    and "readpsh ps (pm_psh s) = Some (0, q)" "psh_olen q = int (length ps)"
    and "readccb (e_wgrib E) (e_rtl E) (blk @ drop (32 + length ps + length blk) (pm_buf s)) (pm_ccb s) (q\<lparr>psh_pname := []\<rparr>)
      (int (length blk)) (pm_statics s) (pm_rb s) = Some (iret, ccb, psh, stat, rb)"
    and "d = (if psh_frags q \<le> 1 then strip_fos (drop (nat (ccb_len ccb)) blk) else drop (nat (ccb_len ccb)) blk)"
    and "11 + length d \<le> max 1 (nat (psh_frags q)) * 4015 + 32"
  shows "\<exists>s5. flow_bind (pm_receive E s) (pm_store E) = Go s5 \<and> pm_inp s5 = rest \<and> length (pm_buf s5) = 10000 \<and>
    last_frag s5 = (psh_frags q \<le> 1) \<and> sbn_datastream (pm_sbn s5) = sbn_datastream h \<and> NWSTG s5 \<and> \<not> GOES s5 \<and>
    tail_is s5 0 \<and> ds_room (pm_ds s5) 1 \<and> nat (psh_frags q) < MAXFRAGS (pm_ds s5) \<and> prod_seqno s5 = pdh_seqno p \<and>
    prod_nfrag s5 = psh_frags q \<and> heap_holds s5 (fos_header (pdh_seqno p) @ d) \<and> pm_md5 s5 = d \<and>
    heapsize s5 = max 1 (nat (psh_frags q)) * 4015 + 32 \<and> PROD_NAME s5 = psh_pname psh \<and>
    psh_metadata (pm_psh s5) = psh_metadata psh \<and> psh_pcat (pm_psh s5) = psh_pcat psh \<and> psh_ptype (pm_psh s5) = psh_ptype psh \<and>
    pm_queue s5 = pm_queue s \<and> nprods s5 = nprods s"
proof -
  obtain s4 where s4: "pm_receive E s = Go s4" "length (pm_buf s4) = 10000" "pm_inp s4 = rest"
    "data_of s4 = Some (drop (nat (ccb_len ccb)) blk)" "pm_pdh s4 = p" "pm_ccb s4 = ccb"
    "sbn_datastream (pm_sbn s4) = sbn_datastream h" "NWSTG s4" "\<not> GOES s4" "in_order s4" "ds_room (pm_ds s4) 0"
    "nat (psh_frags q) < MAXFRAGS (pm_ds s4)" "prod_seqno s4 = pdh_seqno p" "prod_nfrag s4 = psh_frags q"
    "heap_holds s4 (fos_header (pdh_seqno p))" "pm_md5 s4 = []" "heapsize s4 = max 1 (nat (psh_frags q)) * 4015 + 32"
    "PROD_NAME s4 = psh_pname psh" "psh_metadata (pm_psh s4) = psh_metadata psh" "psh_pcat (pm_psh s4) = psh_pcat psh"
    "psh_ptype (pm_psh s4) = psh_ptype psh" "pm_queue s4 = pm_queue s" "nprods s4 = nprods s"
    using start_received [OF assms(1-7)] by blast
  have k: "pdh_dbsize p = int (length blk)" "pdh_dbno p = 0" "32 + length ps + length blk \<le> 10000"
    using assms(3) by (simp_all add: start_ok_def)
  have ok: "pdh_ok p" using assms(3) by (simp add: start_ok_def nwstg_headers_def)
  then have lh: "length (fos_header (pdh_seqno p)) = 11" by (intro length_fos_header) (simp_all add: pdh_ok_def)
  note fr = readccb_frame [OF assms(7)] readpsh_frags [OF assms(5)]
  have lf: "last_frag s4 = (psh_frags q \<le> 1)" using fr(2) by (auto simp: last_frag_def s4(5,14) k(2))
  have st: "stored_part s4 (drop (nat (ccb_len ccb)) blk) = d"
    unfolding stored_part_def lf assms(8) ..
  have g: "GOES s4 = False" "0 < MAXFRAGS (pm_ds s4)" using s4(9,12) by auto
  have c: "0 \<le> ccb_len (pm_ccb s4)" "ccb_len (pm_ccb s4) \<le> pdh_dbsize (pm_pdh s4)" "pdh_dbsize (pm_pdh s4) < 65536"
    using fr(1) k by (simp_all add: s4(5,6))
  have mx: "max 1 (nat (psh_frags q)) < 65536" using fr(2) by (auto simp: max_def nat_less_iff)
  then have "max 1 (nat (psh_frags q)) * 4015 + 32 < 65536 * 4015 + 32" by linarith
  then have l: "length (fos_header (pdh_seqno p) @ stored_part s4 (drop (nat (ccb_len ccb)) blk)) \<le> heapsize s4" "heapsize s4 < 2 ^ 63"
    using assms(9) unfolding st s4(17) by (simp_all add: lh)
  obtain s5 where s5: "pm_store E s4 = Go s5" "heap_holds s5 (fos_header (pdh_seqno p) @ d)" "pm_md5 s5 = d" "ds_room (pm_ds s5) (0 + 1)"
    "tail_is s5 0" "same_rest s4 s5"
    using store_fragment [OF g(1) s4(10,11) g(2) s4(15,4) c l, of E] unfolding pm_store_def [symmetric] st
    by (auto simp: s4(5,16) k(2))
  have "last_frag s5 = last_frag s4" using s5(6) by (simp add: last_frag_def same_rest_def)
  with s4 s5 lf show ?thesis
    by (intro exI [of _ s5]) (simp add: same_rest_def)
qed

lemma text_product_loop:
  assumes "env_ok E" "between_products s" "start_ok h p ps blk" "pm_inp s = start_bytes h p ps blk @ concat (map packet_bytes cs) @ rest"
    and "readpsh ps (pm_psh s) = Some (0, q)" "psh_olen q = int (length ps)"
    and "readccb (e_wgrib E) (e_rtl E) (blk @ drop (32 + length ps + length blk) (pm_buf s)) (pm_ccb s) (q\<lparr>psh_pname := []\<rparr>)
      (int (length blk)) (pm_statics s) (pm_rb s) = Some (iret, ccb, psh, stat, rb)"
    and "psh_frags q = int (Suc (length cs)) \<or> psh_frags q = 0 \<and> cs = []"
    and "conts_ok (sbn_datastream h) (pdh_seqno p) 1 cs"
    and "data = (if cs = [] then strip_fos (drop (nat (ccb_len ccb)) blk) else drop (nat (ccb_len ccb)) blk @ frag_data cs)"
    and "15 + length data \<le> max 1 (nat (psh_frags q)) * 4015 + 32"
    and "psh_metadata psh \<noteq> str '' !grib2/''" "length (psh_pname psh @ psh_metadata psh) < 1024"
  shows "\<exists>s'. pm_loop E s = pm_loop E s' \<and> pm_inp s' = rest \<and> nprods s' = sz_add (nprods s) 1 \<and> prod_head s' = None \<and>
    pm_queue s' = pm_queue s @ [text_product h psh (pdh_seqno p) (psh_pname psh)
      (fos_header (pdh_seqno p) @ data) data]"
proof -
  define d where "d = (if psh_frags q \<le> 1 then strip_fos (drop (nat (ccb_len ccb)) blk) else drop (nat (ccb_len ccb)) blk)"
  have one: "(psh_frags q \<le> 1) = (cs = [])" using assms(8) by auto
  have data: "data = d @ (if cs = [] then [] else frag_data cs)" unfolding assms(10) d_def one by simp
  have fits: "11 + length d \<le> max 1 (nat (psh_frags q)) * 4015 + 32" using assms(11) data by simp
  have lh: "length (fos_header (pdh_seqno p)) = 11"
    using assms(3) by (intro length_fos_header) (simp_all add: start_ok_def nwstg_headers_def pdh_ok_def)
  obtain s5 where s5: "flow_bind (pm_receive E s) (pm_store E) = Go s5" "pm_inp s5 = concat (map packet_bytes cs) @ rest"
    "length (pm_buf s5) = 10000" "last_frag s5 = (psh_frags q \<le> 1)" "sbn_datastream (pm_sbn s5) = sbn_datastream h" "NWSTG s5" "\<not> GOES s5"
    "tail_is s5 0" "ds_room (pm_ds s5) 1" "nat (psh_frags q) < MAXFRAGS (pm_ds s5)" "prod_seqno s5 = pdh_seqno p"
    "prod_nfrag s5 = psh_frags q" "heap_holds s5 (fos_header (pdh_seqno p) @ d)" "pm_md5 s5 = d"
    "heapsize s5 = max 1 (nat (psh_frags q)) * 4015 + 32" "PROD_NAME s5 = psh_pname psh"
    "psh_metadata (pm_psh s5) = psh_metadata psh" "psh_pcat (pm_psh s5) = psh_pcat psh" "psh_ptype (pm_psh s5) = psh_ptype psh"
    "pm_queue s5 = pm_queue s" "nprods s5 = nprods s"
    using start_stored [OF assms(1-7) d_def fits] by blast
  have pk: "pm_packet E s = pm_finish E s5"
    by (simp add: pm_packet_halves flow_bind_assoc [symmetric] s5(1))
  have "max 1 (nat (psh_frags q)) < 65536" using readpsh_frags [OF assms(5)] by (auto simp: max_def nat_less_iff)
  then have "max 1 (nat (psh_frags q)) * 4015 + 32 < 65536 * 4015 + 32" by linarith
  then have hs: "heapsize s5 < 2 ^ 32" unfolding s5(15) by simp
  have tp: "text_product g (pm_psh s5) n nm xs md = text_product h psh n nm xs md"
    if "sbn_datastream g = sbn_datastream h" for g n nm xs md
    using that by (intro text_product_cong) (simp_all add: s5)
  show ?thesis
  proof (cases "cs = []")
    case True
    have l: "last_frag s5" using s5(4) one True by simp
    have g: "GOES s5 = False" "4 < length (fos_header (pdh_seqno p) @ d)" "length (fos_header (pdh_seqno p) @ d) + 4 \<le> heapsize s5"
      using s5(7) assms(11) data True by (simp_all add: lh s5(15))
    have nm: "psh_metadata (pm_psh s5) \<noteq> str '' !grib2/''" "length (PROD_NAME s5 @ psh_metadata (pm_psh s5)) < 1024" "ds_inv (pm_ds s5)"
      using assms(12,13) s5(9) unfolding s5(16,17) ds_room_def by blast+
    obtain u where u: "pm_finish E s5 = Go u"
      "pm_queue u = pm_queue s5 @ [text_product (pm_sbn s5) (pm_psh s5) (prod_seqno s5) (PROD_NAME s5) (fos_header (pdh_seqno p) @ d) (pm_md5 s5)]"
      "nprods u = sz_add (nprods s5) 1" "prod_head u = None" "pm_inp u = pm_inp s5"
      using finish_text [OF l g(1) s5(6,13) g(2,3) hs nm, of E] by blast
    have "pm_loop E s = pm_loop E u" using pk u(1) by (intro pm_loop_go) simp
    with u tp [OF s5(5)] data True s5 show ?thesis by (intro exI [of _ u]) simp
  next
    case False
    then have "\<not> last_frag s5" using s5(4) one by simp
    then have "pm_finish E s5 = Go s5" by (simp add: pm_finish_def)
    then have lp: "pm_loop E s = pm_loop E s5" using pk by (intro pm_loop_go) simp
    have fr: "psh_frags q = int (Suc (length cs))" using assms(8) False by simp
    have a: "assembling (pdh_seqno p) (1 + length cs) (fos_header (pdh_seqno p)) d 1 s5"
      using s5 fr hs by (simp add: assembling_def)
    have i: "i32 (pdh_seqno p) = pdh_seqno p"
      using assms(3) by (intro i32_id) (simp_all add: start_ok_def nwstg_headers_def pdh_ok_def)
    have ok: "conts_ok (sbn_datastream h) (pdh_seqno p) (int 1) cs" using assms(9) by simp
    have sz: "length (fos_header (pdh_seqno p) @ d @ frag_data cs) + 4 \<le> heapsize s5" "4 < length (fos_header (pdh_seqno p) @ d @ frag_data cs)"
      using assms(11) data False by (simp_all add: lh s5(15))
    have nm: "nameable s5" using assms(12,13) unfolding nameable_def s5(16,17) by blast
    obtain u where u: "pm_loop E s5 = pm_loop E u" "pm_inp u = rest"
      "pm_queue u = pm_queue s5 @ [text_product (demo_sbn\<lparr>sbn_datastream := sbn_datastream h\<rparr>) (pm_psh s5) (pdh_seqno p) (PROD_NAME s5)
        (fos_header (pdh_seqno p) @ d @ frag_data cs) (d @ frag_data cs)]"
      "nprods u = sz_add (nprods s5) 1" "prod_head u = None"
      using conts_assembled [OF assms(1) a ok False refl s5(2) i sz nm] by blast
    have "text_product (demo_sbn\<lparr>sbn_datastream := sbn_datastream h\<rparr>) (pm_psh s5) n m xs md =
        text_product h psh n m xs md" for n m xs md
      by (rule tp) simp
    with lp u data False s5(16,20,21) show ?thesis by (intro exI [of _ u]) simp
  qed
qed

text \<open>
  A text product is sent: the first packet carries the product-specific header \<open>ps\<close> and the block \<open>blk\<close>, \<open>cs\<close> are its
  further packets; \<open>readpsh\<close> accepts the header, with a fragment count that fits, \<open>readccb\<close> gives the name in \<open>psh\<close> and
  the length of the control block, the data that is left fits the heap, and name and metadata fit the product's
  identifier.
\<close>

definition text_sent ::
  "pm_env \<Rightarrow> pm \<Rightarrow> sbn_struct \<Rightarrow> pdh_struct \<Rightarrow> byte list \<Rightarrow> byte list \<Rightarrow> cpacket list \<Rightarrow> psh_struct \<Rightarrow> byte list \<Rightarrow> bool" where
  "text_sent E s h p ps blk cs psh data \<longleftrightarrow>
     start_ok h p ps blk \<and> conts_ok (sbn_datastream h) (pdh_seqno p) 1 cs \<and>
     (\<exists>q iret ccb stat rb.
        readpsh ps (pm_psh s) = Some (0, q) \<and> psh_olen q = int (length ps) \<and>
        (psh_frags q = int (Suc (length cs)) \<or> psh_frags q = 0 \<and> cs = []) \<and>
        readccb (e_wgrib E) (e_rtl E) (blk @ drop (32 + length ps + length blk) (pm_buf s)) (pm_ccb s) (q\<lparr>psh_pname := []\<rparr>)
          (int (length blk)) (pm_statics s) (pm_rb s) = Some (iret, ccb, psh, stat, rb) \<and>
        data = (if cs = [] then strip_fos (drop (nat (ccb_len ccb)) blk) else drop (nat (ccb_len ccb)) blk @ frag_data cs) \<and>
        15 + length data \<le> max 1 (nat (psh_frags q)) * 4015 + 32) \<and>
     psh_metadata psh \<noteq> str '' !grib2/'' \<and> length (psh_pname psh @ psh_metadata psh) < 1024"

lemma text_sent_loop:
  assumes "env_ok E" "between_products s" "text_sent E s h p ps blk cs psh data"
    and "pm_inp s = start_bytes h p ps blk @ concat (map packet_bytes cs) @ rest"
  shows "\<exists>s'. pm_loop E s = pm_loop E s' \<and> pm_inp s' = rest \<and> nprods s' = sz_add (nprods s) 1 \<and> prod_head s' = None \<and>
    pm_queue s' = pm_queue s @ [text_product h psh (pdh_seqno p) (psh_pname psh) (fos_header (pdh_seqno p) @ data) data]"
proof -
  from assms(3) have t: "start_ok h p ps blk" "conts_ok (sbn_datastream h) (pdh_seqno p) 1 cs"
    "psh_metadata psh \<noteq> str '' !grib2/''" "length (psh_pname psh @ psh_metadata psh) < 1024"
    unfolding text_sent_def by blast+
  from assms(3) obtain q iret ccb stat rb where q: "readpsh ps (pm_psh s) = Some (0, q)" "psh_olen q = int (length ps)"
    "psh_frags q = int (Suc (length cs)) \<or> psh_frags q = 0 \<and> cs = []"
    "readccb (e_wgrib E) (e_rtl E) (blk @ drop (32 + length ps + length blk) (pm_buf s)) (pm_ccb s) (q\<lparr>psh_pname := []\<rparr>)
      (int (length blk)) (pm_statics s) (pm_rb s) = Some (iret, ccb, psh, stat, rb)"
    "data = (if cs = [] then strip_fos (drop (nat (ccb_len ccb)) blk) else drop (nat (ccb_len ccb)) blk @ frag_data cs)"
    "15 + length data \<le> max 1 (nat (psh_frags q)) * 4015 + 32"
    unfolding text_sent_def by blast
  show ?thesis
    by (rule text_product_loop [OF assms(1,2) t(1) assms(4) q(1,2,4,3) t(2) q(5,6) t(3,4)])
qed

text \<open>
  C4: A product of an NWSTG channel whose packets arrive in order, whatever follows them: the loop consumes exactly
  its bytes and hands one product to the LDM queue, the FOS header, the blocks without the control block of the
  first and without trailers of the last, and one trailer, named by \<open>readccb\<close> and signed without the header.
\<close>

theorem text_product_assembled:
  assumes "env_ok E" "between_products s" "text_sent E s h p ps blk cs psh data"
    and "pm_inp s = start_bytes h p ps blk @ concat (map packet_bytes cs) @ rest"
  shows "\<exists>s'. pm_loop E s = pm_loop E s' \<and> pm_inp s' = rest \<and> nprods s' = sz_add (nprods s) 1 \<and> prod_head s' = None \<and>
    pm_queue s' = pm_queue s @ [text_product h psh (pdh_seqno p) (psh_pname psh) (fos_header (pdh_seqno p) @ data) data]"
  using assms by (rule text_sent_loop)


section \<open>A concrete product\<close>

definition demo_start :: "byte list" where
  "demo_start = start_bytes demo_sbn (demo_pdh\<lparr>pdh_dbsize := 5\<rparr>) demo_ps demo_blk"

definition demo_cont :: cpacket where
  "demo_cont = (demo_sbn\<lparr>sbn_seqno := 1001\<rparr>, demo_pdh\<lparr>pdh_pshlen := 0, pdh_dbno := 1, pdh_dbsize := 6\<rparr>, [72, 73, 13, 13, 10, 3])"

lemma demo_env_ok: "env_ok demo_env"
  by (simp add: env_ok_def demo_env_def)

lemma demo_idle: "between_products (demo_pm inp)"
  by (simp add: between_products_def demo_pm_def ds_inv_def heap_inv_def)

lemma demo_headers: "nwstg_headers demo_sbn (demo_pdh\<lparr>pdh_dbsize := 5\<rparr>)"
  "nwstg_headers (demo_sbn\<lparr>sbn_seqno := 1001\<rparr>) (demo_pdh\<lparr>pdh_pshlen := 0, pdh_dbno := 1, pdh_dbsize := 6\<rparr>)"
  by (simp_all add: nwstg_headers_def demo_sbn_def demo_pdh_def sbn_ok_def pdh_ok_def nibble4_def octet_def octet2_def)

lemma demo_start_ok: "start_ok demo_sbn (demo_pdh\<lparr>pdh_dbsize := 5\<rparr>) demo_ps demo_blk"
  by (simp add: start_ok_def demo_headers(1)) (simp add: demo_ps_def demo_blk_def demo_pdh_def)

lemma demo_conts_ok: "conts_ok 5 77 1 [demo_cont]"
  by (simp add: demo_cont_def demo_headers(2)) (simp add: demo_sbn_def demo_pdh_def)

lemma demo_readpsh: "\<exists>q. readpsh demo_ps demo_psh = Some (0, q) \<and> psh_olen q = 36 \<and> psh_frags q = 2 \<and> psh_metadata q = []"
  by (simp add: readpsh_def demo_ps_def rd_def be16_def Let_def demo_psh_def)

lemma demo_readccb:
  "readccb W rtl (demo_blk @ r) ccb (q\<lparr>psh_pname := []\<rparr>) 5 st rb =
     Some (- 1, ccb\<lparr>ccb_b1 := 63, ccb_len := 0\<rparr>, q\<lparr>psh_pname := [63, 65, 66]\<rparr>, st, rb)"
  by (simp add: readccb_def demo_blk_def rd_def Let_def fallback_name_def print_run_def fits_buf_def)

lemma demo_text_sent:
  "\<exists>psh. text_sent demo_env (demo_pm inp) demo_sbn (demo_pdh\<lparr>pdh_dbsize := 5\<rparr>) demo_ps demo_blk [demo_cont] psh [63, 65, 66, 13, 10, 72, 73] \<and>
    psh_pname psh = [63, 65, 66] \<and> psh_metadata psh = []"
proof -
  let ?p = "demo_pdh\<lparr>pdh_dbsize := 5\<rparr>" and ?s = "demo_pm inp"
  obtain q where q: "readpsh demo_ps demo_psh = Some (0, q)" "psh_olen q = 36" "psh_frags q = 2" "psh_metadata q = []"
    using demo_readpsh by blast
  let ?psh = "q\<lparr>psh_pname := [63, 65, 66]\<rparr>" and ?ccb = "(pm_ccb ?s)\<lparr>ccb_b1 := 63, ccb_len := 0\<rparr>"
  have lb: "int (length demo_blk) = 5" by (simp add: demo_blk_def)
  have sf: "strip_fos [72, 73, 13, 13, 10, 3] = [72, 73]"
    by (subst strip_fos.simps) (simp add: FOS_TRAILER_def strip_fos_short)
  have fd: "frag_data [demo_cont] = [72, 73]" using sf by (simp add: demo_cont_def)
  have 1: "conts_ok (sbn_datastream demo_sbn) (pdh_seqno ?p) 1 [demo_cont]"
    using demo_conts_ok by (simp add: demo_sbn_def demo_pdh_def)
  have 2: "readpsh demo_ps (pm_psh ?s) = Some (0, q)" "psh_olen q = int (length demo_ps)" "psh_frags q = int (Suc (length [demo_cont]))"
    using q(1) by (simp_all add: demo_pm_def q demo_ps_def)
  have 3: "readccb (e_wgrib demo_env) (e_rtl demo_env) (demo_blk @ drop (32 + length demo_ps + length demo_blk) (pm_buf ?s)) (pm_ccb ?s)
      (q\<lparr>psh_pname := []\<rparr>) (int (length demo_blk)) (pm_statics ?s) (pm_rb ?s) = Some (- 1, ?ccb, ?psh, pm_statics ?s, pm_rb ?s)"
    unfolding lb by (rule demo_readccb)
  have 4: "[63, 65, 66, 13, 10, 72, 73] = (if [demo_cont] = [] then strip_fos (drop (nat (ccb_len ?ccb)) demo_blk)
      else drop (nat (ccb_len ?ccb)) demo_blk @ frag_data [demo_cont])"
    unfolding fd by (simp add: demo_blk_def)
  have 5: "15 + length [63, 65, 66, 13, 10, 72, 73 :: byte] \<le> max 1 (nat (psh_frags q)) * 4015 + 32" by simp
  have 6: "psh_metadata ?psh \<noteq> str '' !grib2/''" "length (psh_pname ?psh @ psh_metadata ?psh) < 1024" by (simp_all add: q str_def)
  have 7: "psh_pname ?psh = [63, 65, 66]" "psh_metadata ?psh = []" by (simp_all add: q)
  have "text_sent demo_env ?s demo_sbn ?p demo_ps demo_blk [demo_cont] ?psh [63, 65, 66, 13, 10, 72, 73]"
    unfolding text_sent_def
    by (rule conjI [OF demo_start_ok conjI [OF 1 conjI [OF _ conjI [OF 6]]]])
       (rule exI [of _ q], rule exI [of _ "- 1"], rule exI [of _ ?ccb], rule exI [of _ "pm_statics ?s"], rule exI [of _ "pm_rb ?s"],
        intro conjI 2(1,2) disjI1 [OF 2(3)] 3 4 5)
  with 7 show ?thesis by blast
qed

lemma demo_fos_header: "fos_header 77 = [1, 13, 13, 10, 48, 55, 55, 32, 13, 13, 10]"
  by (simp add: fos_header_def c_rem_def quot_def i32_id dec_pad_def digits.simps)

lemma demo_bytes: "demo_start @ packet_bytes demo_cont =
  start_bytes demo_sbn (demo_pdh\<lparr>pdh_dbsize := 5\<rparr>) demo_ps demo_blk @ concat (map packet_bytes [demo_cont]) @ []"
  by (simp add: demo_start_def)

lemma demo_product:
  "psh_pname psh = [63, 65, 66] \<Longrightarrow> psh_metadata psh = [] \<Longrightarrow>
   p_data (text_product demo_sbn psh (pdh_seqno (demo_pdh\<lparr>pdh_dbsize := 5\<rparr>)) (psh_pname psh) (fos_header (pdh_seqno (demo_pdh\<lparr>pdh_dbsize := 5\<rparr>)) @ d) d) =
     fos_header 77 @ d @ FOS_TRAILER \<and>
   p_ident (text_product demo_sbn psh (pdh_seqno (demo_pdh\<lparr>pdh_dbsize := 5\<rparr>)) (psh_pname psh) (fos_header (pdh_seqno (demo_pdh\<lparr>pdh_dbsize := 5\<rparr>)) @ d) d) =
     [63, 65, 66]"
  by (simp add: text_product_def Let_def demo_pdh_def)

theorem text_product_assembled_witness:
  "\<exists>s'. pm_loop demo_env (demo_pm (demo_start @ packet_bytes demo_cont)) = pm_loop demo_env s' \<and> pm_inp s' = [] \<and>
    map p_data (pm_queue s') = [[1, 13, 13, 10, 48, 55, 55, 32, 13, 13, 10, 63, 65, 66, 13, 10, 72, 73, 13, 13, 10, 3]] \<and>
    map p_ident (pm_queue s') = [[63, 65, 66]]"
proof -
  let ?s = "demo_pm (demo_start @ packet_bytes demo_cont)"
  obtain psh where psh: "text_sent demo_env ?s demo_sbn (demo_pdh\<lparr>pdh_dbsize := 5\<rparr>) demo_ps demo_blk [demo_cont] psh [63, 65, 66, 13, 10, 72, 73]"
    "psh_pname psh = [63, 65, 66]" "psh_metadata psh = []" using demo_text_sent by blast
  have inp: "pm_inp ?s = demo_start @ packet_bytes demo_cont" "pm_queue ?s = []" by (simp_all add: demo_pm_def)
  from text_product_assembled [OF demo_env_ok demo_idle psh(1) trans [OF inp(1) demo_bytes]] obtain s' where
    s': "pm_loop demo_env ?s = pm_loop demo_env s'" "pm_inp s' = []"
    "pm_queue s' = pm_queue ?s @ [text_product demo_sbn psh (pdh_seqno (demo_pdh\<lparr>pdh_dbsize := 5\<rparr>)) (psh_pname psh)
      (fos_header (pdh_seqno (demo_pdh\<lparr>pdh_dbsize := 5\<rparr>)) @ [63, 65, 66, 13, 10, 72, 73]) [63, 65, 66, 13, 10, 72, 73]]"
    by blast
  show ?thesis
    using s' demo_product [OF psh(2,3)] by (intro exI [of _ s']) (simp add: inp(2) demo_fos_header FOS_TRAILER_def)
qed

end
