(* ===== verification/Pm_Faults.thy ===== *)
theory Pm_Faults
  imports Pm_Product
begin

text \<open>
  What the packet loop does with input that is not a product in order: bytes between packets, blocks larger than
  the packet buffer, products that fill their heap, images that lose a fragment.
\<close>

section \<open>Synchronisation\<close>

text \<open>The state after the bytes \<open>g\<close>, none of which is 255, have been read one by one.\<close>

definition skipped :: "pm \<Rightarrow> byte list \<Rightarrow> byte list \<Rightarrow> pm" where
  "skipped s g rest = s\<lparr>pm_inp := rest, pm_reads := pm_reads s + length g,
     pm_buf := (if g = [] then pm_buf s else blit (pm_buf s) 0 [last g])\<rparr>"

lemma blit_first: "b \<noteq> [] \<Longrightarrow> blit (blit b 0 [x]) 0 [y] = blit b 0 [y]"
  by (simp add: blit_def)

lemma skipped_Cons:
  "pm_buf s \<noteq> [] \<Longrightarrow> skipped (skipped s [b] (g @ rest)) g rest = skipped s (b # g) rest"
  by (simp add: skipped_def blit_first)

lemma pm_packet_skip:
  assumes "0 < e_fz E" "\<And>k. \<not> e_oserr E k" "pm_inp s = b # rest" "b \<noteq> 255" "pm_buf s \<noteq> []"
  shows "pm_packet E s = Cont (skipped s [b] rest)"
proof -
  obtain x xs where x: "pm_buf s = x # xs" using assms(5) by (cases "pm_buf s") auto
  have "pm_read E 0 1 s = Got 0 (skipped s [b] rest)"
    using assms pm_read_avail [of 1 E s "[b]" rest 0] by (simp add: skipped_def x)
  then show ?thesis
    using assms(4) by (simp add: pm_packet_def pm_sync_def skipped_def x blit_def)
qed

lemma loop_skips:
  assumes "0 < e_fz E" "\<And>k. \<not> e_oserr E k" "pm_inp s = g @ rest" "255 \<notin> set g" "pm_buf s \<noteq> []"
  shows "pm_loop E s = pm_loop E (skipped s g rest)"
  using assms(3-5)
proof (induction g arbitrary: s)
  case Nil
  then have "skipped s [] rest = s" by (simp add: skipped_def)
  then show ?case by simp
next
  case (Cons b g)
  let ?s = "skipped s [b] (g @ rest)"
  have "pm_packet E s = Cont ?s" using Cons.prems assms(1,2) by (intro pm_packet_skip) auto
  then have "pm_loop E s = pm_loop E ?s" by (subst pm_loop.simps) simp
  also have "\<dots> = pm_loop E (skipped ?s g rest)"
    using Cons.prems by (intro Cons.IH) (auto simp: skipped_def blit_def)
  finally show ?case using skipped_Cons Cons.prems(3) by simp
qed

text \<open>
  Whatever lies between two packets is skipped as long as it has no byte 255: the loop goes on with the rest of
  the input, with nothing of the product in progress changed.
\<close>

theorem resync_skips:
  assumes "0 < e_fz E" "\<And>k. \<not> e_oserr E k" "pm_inp s = g @ rest" "255 \<notin> set g" "pm_buf s \<noteq> []"
  shows "pm_loop E s = pm_loop E (skipped s g rest)"
  using assms by (rule loop_skips)

theorem resync_skips_witness:
  "pm_loop demo_env (demo_pm ([0, 3, 254] @ [255, 7])) = pm_loop demo_env (skipped (demo_pm ([0, 3, 254] @ [255, 7])) [0, 3, 254] [255, 7])"
  by (rule resync_skips) (simp_all add: demo_env_def demo_pm_def)


section \<open>Blocks beyond the packet buffer\<close>

lemma pm_read_overrun:
  assumes "n \<le> e_fz E" "\<And>k. \<not> e_oserr E k" "pm_inp s = d @ rest" "length d = n" "0 < n" "length (pm_buf s) < off + n"
  shows "pm_read E off n s = Overrun"
  using assms by (auto simp: pm_read_def stream_read_def mem_write_def Let_def)

text \<open>
  C16: Nothing checks the block size of a continuation packet against the 10000 bytes of \<open>buf\<close>: a block of more than
  9968 bytes that the FIFO can deliver is written past its end.
\<close>

theorem large_block_undefined:
  assumes "env_ok E" "length (pm_buf s) = 10000" "nwstg_headers h p" "pdh_pshlen p = 0"
    and "pdh_dbsize p = int (length blk)" "9968 < length blk" "length blk \<le> e_fz E"
    and "pm_inp s = packet_bytes (h, p, blk) @ rest"
  shows "pm_loop E s = Undefined"
proof -
  have inp: "pm_inp s = sbn_bytes h @ pdh_bytes p @ (blk @ rest)" using assms(8) by simp
  obtain s3 where s3: "flow_bind (pm_sync E s) (\<lambda>s1. flow_bind (pm_classify (pm_count s1)) (pm_header E)) = Go s3"
    "pm_buf s3 = (sbn_bytes h @ pdh_bytes p) @ drop 32 (pm_buf s)" "pm_inp s3 = blk @ rest" "pm_pdh s3 = p"
    "sbn_len (pm_sbn s3) = 16" "sbn_datastream (pm_sbn s3) = sbn_datastream h"
    using headers_ok [OF assms(1-3) inp] by blast
  define t where "t = cont_setup s3"
  have nd: "\<not> (sbn_datastream (pm_sbn s3) = 4 \<and> psh_pcat (pm_psh s3) \<noteq> 3)"
    using assms(3) s3(6) by (auto simp: nwstg_headers_def)
  have pl: "pdh_len p = 16" "pdh_ok p" using assms(3) by (simp_all add: nwstg_headers_def)
  have t: "pm_buf t = pm_buf s3" "pm_inp t = blk @ rest" "pm_pdh t = p" "blockoff t = 32"
    using s3(3-5) nd pl assms(4) unfolding t_def cont_setup_def Let_def by (simp_all add: blockoff_def)
  have l: "length (pm_buf t) = 10000" by (simp add: t(1) s3(2) assms(2))
  have "pdh_dbsize p < 65536" using pl(2) by (simp add: pdh_ok_def octet2_def)
  then have ts: "to_size (int (length blk)) = length blk" using assms(5) by (subst to_size_id) simp_all
  have "pm_read E 32 (length blk) t = Overrun"
    using assms(1,6,7) t(2) l by (intro pm_read_overrun) (auto simp: env_ok_def)
  then have "pm_continuation E s3 = Crash"
    unfolding pm_continuation_def t_def [symmetric] by (simp add: t(3,4) assms(5) ts)
  then have "pm_receive E s = Crash"
    unfolding pm_receive_def s3(1) by (simp add: s3(4) assms(4))
  then have "pm_packet E s = Crash" by (simp add: pm_packet_halves)
  then show ?thesis by (subst pm_loop.simps) simp
qed

theorem large_block_undefined_witness:
  "pm_loop demo_env (demo_pm (packet_bytes (demo_sbn, demo_pdh\<lparr>pdh_pshlen := 0, pdh_dbno := 1, pdh_dbsize := 9969\<rparr>, replicate 9969 0) @ []))
     = Undefined"
proof -
  let ?p = "demo_pdh\<lparr>pdh_pshlen := 0, pdh_dbno := 1, pdh_dbsize := 9969\<rparr>" and ?b = "replicate 9969 (0::byte)"
  have 1: "nwstg_headers demo_sbn ?p"
    by (simp add: nwstg_headers_def demo_sbn_def demo_pdh_def sbn_ok_def pdh_ok_def nibble4_def octet_def octet2_def)
  have 2: "pdh_pshlen ?p = 0" "pdh_dbsize ?p = int (length ?b)" "9968 < length ?b" "length ?b \<le> e_fz demo_env"
    by (simp_all add: demo_env_def)
  have 3: "length (pm_buf (demo_pm inp)) = 10000" "pm_inp (demo_pm inp) = inp" for inp by (simp_all add: demo_pm_def)
  show ?thesis by (rule large_block_undefined [OF demo_env_ok 3(1) 1 2 3(2)])
qed


section \<open>The trailer\<close>

text \<open>
  The check of a text block against the heap leaves no room for the trailer: a product that fills its heap exactly
  gets the four bytes of the trailer written behind it.
\<close>

lemma full_heap_trailer_overflows:
  assumes "last_frag s" "GOES s = False" "NWSTG s" "4 < heapcount s" "heapcount s = length (heap_mem s)"
    and "sbn_datastream (pm_sbn s) \<noteq> 5"
  shows "pm_finish E s = Crash"
proof -
  have "pm_end_image E s = Some s" using assms(2) by (simp add: pm_end_image_def)
  moreover have "pm_end_text s = None"
    using assms by (simp add: pm_end_text_def pm_trailer_def heap_put_def mem_write_def FOS_TRAILER_def)
  ultimately show ?thesis using assms(1) by (simp add: pm_finish_def)
qed

section \<open>Images that lose a fragment\<close>

text \<open>
  A gap in an image drops the fragments but neither ends the PNG output nor clears \<open>PNGINIT\<close>, and since no
  product is in progress any more the start of the next one does not do it either: the flag and the open output
  are still there when the next product is assembled.
\<close>

theorem lost_image_fragment_keeps_output:
  assumes "GOES s" "0 < pdh_dbno (pm_pdh s)" "follows_tail s = Some False"
  shows "\<exists>s'. pm_goes_data E s = Cont s' \<and> prod_head s' = None \<and> PNGINIT s' = PNGINIT s \<and> pm_png s' = pm_png s \<and>
    pm_abandon E s' = Go s'"
  using assms by (simp add: pm_goes_data_def Let_def pm_free_def pm_abandon_def)

theorem lost_image_fragment_keeps_output_witness:
  "\<exists>s'. pm_goes_data demo_env (demo_pm []\<lparr>GOES := True, PNGINIT := True, prod_seqno := 77, prod_head := Some (1, 0), prod_tail := Some (1, 0),
      pfrag := (1, 1), pm_pdh := demo_pdh\<lparr>pdh_dbno := 2\<rparr>,
      pm_ds := \<lparr>dataheap = Some [blank_ds\<lparr>ds_seqno := 77\<rparr>, blank_ds\<lparr>ds_seqno := 77, ds_fragnum := 2\<rparr>], ds_gen = 1, nextfrag = 2, MAXFRAGS = 2\<rparr>\<rparr>) = Cont s' \<and>
    prod_head s' = None \<and> PNGINIT s'"
proof -
  let ?s = "demo_pm []\<lparr>GOES := True, PNGINIT := True, prod_seqno := 77, prod_head := Some (1, 0), prod_tail := Some (1, 0),
      pfrag := (1, 1), pm_pdh := demo_pdh\<lparr>pdh_dbno := 2\<rparr>,
      pm_ds := \<lparr>dataheap = Some [blank_ds\<lparr>ds_seqno := 77\<rparr>, blank_ds\<lparr>ds_seqno := 77, ds_fragnum := 2\<rparr>], ds_gen = 1, nextfrag = 2, MAXFRAGS = 2\<rparr>\<rparr>"
  have 1: "GOES ?s" "0 < pdh_dbno (pm_pdh ?s)" by (simp_all add: demo_pdh_def)
  have 2: "follows_tail ?s = Some False" by (simp add: follows_tail_def ds_get_def rd_def blank_ds_def)
  have 3: "PNGINIT ?s" by simp
  show ?thesis using lost_image_fragment_keeps_output [OF 1 2, of demo_env] 3 by blast
qed

end
