(* ===== verification/Ingester.thy ===== *)
theory Ingester
  imports Command_Line Pm_Faults
begin

text \<open>
  The program (\<open>noaaportIngester.c\<close>): logging masks and signals, the command line, the creation of the threads and
  the end of the program; and the connection of its parts, the reader, the FIFO and the product-maker.
  The statistics report and its thread only format and print.
\<close>

section \<open>Logging masks and signals\<close>

text \<open>The effect of SIGUSR2.\<close>

definition rotate_mask :: "logmask \<Rightarrow> logmask" where
  "rotate_mask logMask =
     (if logMask AND LOG_MASK LOG_WARNING = 0 then LOG_UPTO LOG_WARNING
      else if logMask AND LOG_MASK LOG_NOTICE = 0 then LOG_UPTO LOG_NOTICE
      else if logMask AND LOG_MASK LOG_INFO = 0 then LOG_UPTO LOG_INFO
      else if logMask AND LOG_MASK LOG_DEBUG = 0 then LOG_UPTO LOG_DEBUG
      else LOG_UPTO LOG_ERR)"

datatype signal = SIGINT | SIGTERM | SIGUSR1 | SIGUSR2 | OtherSignal

text \<open>The globals a handler looks at or changes; \<open>sg_exit\<close> is an argument of \<open>exit\<close>, \<open>sg_cancel\<close> a \<open>pthread_cancel\<close>.\<close>

record sigstate =
  sg_mask :: logmask
  sg_reader :: bool
  reportStatistics :: bool
  sg_cancel :: bool
  sg_exit :: "int option"

definition signal_handler :: "signal \<Rightarrow> sigstate \<Rightarrow> sigstate" where
  "signal_handler sig s =
     (case sig of
        SIGINT \<Rightarrow> s\<lparr>sg_exit := Some 1\<rparr>
      | SIGTERM \<Rightarrow> s\<lparr>sg_cancel := True\<rparr>
      | SIGUSR1 \<Rightarrow> if sg_reader s then s\<lparr>reportStatistics := True\<rparr> else s
      | SIGUSR2 \<Rightarrow> s\<lparr>sg_mask := rotate_mask (sg_mask s)\<rparr>
      | OtherSignal \<Rightarrow> s)"

section \<open>The command line\<close>

text \<open>
  \<open>oe_openulog\<close>: whether \<open>openulog\<close> succeeds with that facility and path; \<open>oe_strtol\<close>: \<open>errno\<close> and value of
  \<open>strtol(s, &cp, 0)\<close>.
\<close>

record opt_env =
  oe_openulog :: "nat \<Rightarrow> cstr option \<Rightarrow> bool"
  oe_strtol :: "cstr \<Rightarrow> int \<times> int"

record iopts =
  o_interface :: "cstr option"
  o_logmask :: logmask
  o_mcastSpec :: "cstr option"
  o_prodQueuePath :: "cstr option"
  o_npages :: nat
  o_processPriority :: int
  o_logPath :: "cstr option"
  o_logFacility :: nat
  o_status :: int

definition initLogging :: "opt_env \<Rightarrow> nat \<Rightarrow> cstr option \<Rightarrow> int" where
  "initLogging ox fac path = (if oe_openulog ox fac path then 0 else 1)"

definition DEFAULT_NPAGES :: nat where
  "DEFAULT_NPAGES = 5000"

text \<open>\<open>LOG_LDM\<close> is the default of the LDM's \<open>ulog.h\<close>; \<open>tty\<close>: whether \<open>/dev/tty\<close> can be opened.\<close>

definition init_opts :: "opt_env \<Rightarrow> nat \<Rightarrow> bool \<Rightarrow> iopts" where
  "init_opts ox LOG_LDM tty =
     (let logPath = (if tty then Some (str ''-'') else None)
      in \<lparr>o_interface = None, o_logmask = LOG_UPTO LOG_WARNING, o_mcastSpec = None, o_prodQueuePath = None,
          o_npages = DEFAULT_NPAGES, o_processPriority = 0, o_logPath = logPath, o_logFacility = LOG_LDM,
          o_status = initLogging ox LOG_LDM logPath\<rparr>)"

definition option_I :: "cstr \<Rightarrow> iopts \<Rightarrow> iopts" where
  "option_I arg p = p\<lparr>o_interface := Some arg\<rparr>"

text \<open>There is no \<open>break\<close> after the case \<open>'b'\<close>.\<close>

definition option_b :: "cstr \<Rightarrow> iopts \<Rightarrow> iopts option" where
  "option_b arg p =
     map_option (\<lambda>n. option_I arg (case n of None \<Rightarrow> p\<lparr>o_status := 1\<rparr> | Some k \<Rightarrow> p\<lparr>o_npages := k\<rparr>)) (scan_lu arg)"

definition option_l :: "opt_env \<Rightarrow> cstr \<Rightarrow> iopts \<Rightarrow> iopts" where
  "option_l ox arg p = p\<lparr>o_logPath := Some arg, o_status := initLogging ox (o_logFacility p) (Some arg)\<rparr>"

definition option_p :: "opt_env \<Rightarrow> cstr \<Rightarrow> iopts \<Rightarrow> iopts" where
  "option_p ox arg p =
     (case oe_strtol ox arg of (errno, v) \<Rightarrow>
        p\<lparr>o_processPriority :=
            (if errno \<noteq> 0 then i32 v else if i32 v < - 20 then - 20 else if 20 < i32 v then 20 else i32 v)\<rparr>)"

definition option_u :: "opt_env \<Rightarrow> cstr \<Rightarrow> iopts \<Rightarrow> iopts option" where
  "option_u ox arg p =
     map_option (\<lambda>i. if i < 0 \<or> 7 < i then p\<lparr>o_status := 1\<rparr>
       else let fac = logFacilities ! nat i
            in p\<lparr>o_logFacility := fac, o_status := initLogging ox fac (o_logPath p)\<rparr>) (atoi arg)"

definition option_mask :: "nat \<Rightarrow> iopts \<Rightarrow> iopts" where
  "option_mask l p = p\<lparr>o_logmask := o_logmask p OR LOG_MASK l\<rparr>"

text \<open>One result of \<open>getopt\<close> and its \<open>optarg\<close>.\<close>

definition decode_option :: "opt_env \<Rightarrow> char \<Rightarrow> cstr \<Rightarrow> iopts \<Rightarrow> iopts option" where
  "decode_option ox ch arg p =
     (if ch = CHR ''b'' then option_b arg p
      else if ch = CHR ''I'' then Some (option_I arg p)
      else if ch = CHR ''l'' then Some (option_l ox arg p)
      else if ch = CHR ''m'' then Some (p\<lparr>o_mcastSpec := Some arg\<rparr>)
      else if ch = CHR ''n'' then Some (option_mask LOG_NOTICE p)
      else if ch = CHR ''p'' then Some (option_p ox arg p)
      else if ch = CHR ''q'' then Some (p\<lparr>o_prodQueuePath := Some arg\<rparr>)
      else if ch = CHR ''u'' then option_u ox arg p
      else if ch = CHR ''v'' then Some (option_mask LOG_INFO p)
      else if ch = CHR ''x'' then Some (option_mask LOG_DEBUG p)
      else Some (p\<lparr>o_status := 1\<rparr>))"

fun decode_options :: "opt_env \<Rightarrow> (char \<times> cstr) list \<Rightarrow> iopts \<Rightarrow> iopts option" where
  "decode_options ox [] p = Some p"
| "decode_options ox ((ch, arg) # os) p =
     (if o_status p \<noteq> 0 then Some p
      else do { q \<leftarrow> decode_option ox ch arg p; decode_options ox os q })"

text \<open>\<open>extra\<close>: arguments are left when \<open>getopt\<close> ends.\<close>

definition decode_command_line :: "opt_env \<Rightarrow> nat \<Rightarrow> bool \<Rightarrow> (char \<times> cstr) list \<Rightarrow> bool \<Rightarrow> iopts option" where
  "decode_command_line ox LOG_LDM tty os extra =
     map_option (\<lambda>p. if o_status p = 0 \<and> extra then p\<lparr>o_status := 1\<rparr> else p) (decode_options ox os (init_opts ox LOG_LDM tty))"

section \<open>Starting the threads\<close>

text \<open>Each is given what the constructor returns and the result of \<open>pthread_create\<close>.\<close>

definition spawnProductMaker :: "int \<times> productMaker option \<Rightarrow> int \<Rightarrow> int \<times> productMaker option" where
  "spawnProductMaker new create =
     (case new of (status, pm) \<Rightarrow>
        if status \<noteq> 0 then (1, None) else if create \<noteq> 0 then (1, None) else (0, pm))"

text \<open>The path is not used: standard input is read.\<close>

definition spawnFileReader :: "cstr option \<Rightarrow> (cstr option \<Rightarrow> int \<times> reader option) \<Rightarrow> int \<Rightarrow> int \<times> reader option" where
  "spawnFileReader pathname new create =
     (case new None of (status, r) \<Rightarrow>
        if status \<noteq> 0 then (status, None) else if create \<noteq> 0 then (1, None) else (0, r))"

text \<open>\<open>None\<close>: the thread is started with a pointer that has never been set.\<close>

definition spawnMulticastReader :: "mcast_env \<Rightarrow> cstr \<Rightarrow> cstr option \<Rightarrow> int \<Rightarrow> (int \<times> reader option) option" where
  "spawnMulticastReader M mcastAddr interface create =
     (case multicastReaderNew M mcastAddr interface of
        None \<Rightarrow> None
      | Some res \<Rightarrow>
          if mr_status res \<noteq> 0 then Some (mr_status res, None)
          else (case mr_reader res of
                  None \<Rightarrow> None
                | Some r \<Rightarrow> if create \<noteq> 0 then Some (1, None) else Some (0, Some r)))"

section \<open>The program\<close>

datatype main_end = Exit int "pm option" | Hangs | Undefined_end

text \<open>
  After the reader's thread has ended with the state \<open>s\<close>: the FIFO is closed and the product-maker \<open>p\<close> runs to its
  end over the bytes the reader has taken in.
\<close>

definition main_join :: "pm_env \<Rightarrow> pm \<Rightarrow> rdsys \<Rightarrow> main_end" where
  "main_join E p s =
     (let status = readerStatus (rs_reader s)
      in case pmStart E (p\<lparr>pm_inp := rs_in s\<rparr>) of
           Returned st t \<Rightarrow> Exit (if status \<noteq> 0 then pmStatus t else status) (Some t)
         | Waiting t \<Rightarrow> Hangs
         | Undefined \<Rightarrow> Undefined_end)"

text \<open>The results of what \<open>main\<close> calls: the status of \<open>fifoNew\<close>, \<open>lpqGet\<close>, the two spawns and \<open>pthread_attr_init\<close>.\<close>

record main_env =
  me_fifo :: "nat \<Rightarrow> int"
  me_lpq :: "cstr option \<Rightarrow> int"
  me_attr :: int
  me_pm :: int
  me_file :: int
  me_mcast :: "cstr \<Rightarrow> cstr option \<Rightarrow> int option"

definition main_spawn :: "main_env \<Rightarrow> iopts \<Rightarrow> int option" where
  "main_spawn M p =
     (case o_mcastSpec p of
        None \<Rightarrow> Some (if me_pm M \<noteq> 0 then me_pm M else me_file M)
      | Some spec \<Rightarrow>
          if me_attr M \<noteq> 0 then Some (me_attr M)
          else if me_pm M \<noteq> 0 then Some (me_pm M)
          else me_mcast M spec (o_interface p))"

definition ingester_main :: "main_env \<Rightarrow> iopts \<Rightarrow> main_end \<Rightarrow> main_end" where
  "ingester_main M p joined =
     (if o_status p \<noteq> 0 then Exit (o_status p) None
      else if me_fifo M (o_npages p) \<noteq> 0 then Exit (me_fifo M (o_npages p)) None
      else if me_lpq M (o_prodQueuePath p) \<noteq> 0 then Exit (me_lpq M (o_prodQueuePath p)) None
      else (case main_spawn M p of
              None \<Rightarrow> Undefined_end
            | Some st \<Rightarrow> if st \<noteq> 0 then Exit 1 None else joined))"

section \<open>Masks, signals and options\<close>

definition level_masks :: "logmask list" where
  "level_masks = [15, 31, 63, 127, 255]"

lemma rotate_level: "i < 5 \<Longrightarrow> rotate_mask (level_masks ! i) = level_masks ! (Suc i mod 5)"
proof -
  assume "i < 5"
  then have "i = 0 \<or> i = 1 \<or> i = 2 \<or> i = 3 \<or> i = 4" by arith
  then show ?thesis by (elim disjE) (simp_all add: level_masks_def rotate_mask_def mask_values)
qed

lemma rotate_in_levels: "\<exists>i < 5. rotate_mask m = level_masks ! i"
  unfolding rotate_mask_def mask_values level_masks_def
  by (auto intro: exI [of _ 0] exI [of _ 1] exI [of _ 2] exI [of _ 3] exI [of _ 4])

text \<open>
  Whatever the mask is, SIGUSR2 makes it one of the five masks up to ERR, WARNING, NOTICE, INFO and DEBUG, and
  every further SIGUSR2 takes it to the next of them in a circle.
\<close>

theorem log_mask_rotation:
  "\<exists>i < 5. \<forall>k. sg_mask ((signal_handler SIGUSR2 ^^ Suc k) s) = level_masks ! ((i + k) mod 5)"
proof -
  have h: "sg_mask (signal_handler SIGUSR2 x) = rotate_mask (sg_mask x)" for x by (simp add: signal_handler_def)
  obtain i where i: "i < 5" "rotate_mask (sg_mask s) = level_masks ! i" using rotate_in_levels by blast
  have "sg_mask ((signal_handler SIGUSR2 ^^ Suc k) s) = level_masks ! ((i + k) mod 5)" for k
  proof (induction k)
    case 0
    then show ?case using i by (simp add: h)
  next
    case (Suc k)
    have "sg_mask ((signal_handler SIGUSR2 ^^ Suc (Suc k)) s) = rotate_mask (level_masks ! ((i + k) mod 5))"
      unfolding funpow.simps(2) [of "Suc k"] o_apply h Suc ..
    then show ?case using rotate_level [of "(i + k) mod 5"] by (simp add: mod_Suc_eq)
  qed
  with i(1) show ?thesis by blast
qed

text \<open>
  The manual text says that \<open>-v\<close> logs through level INFO and \<open>-x\<close> through level DEBUG. On their own they leave the
  levels between WARNING and their own disabled.
\<close>

theorem verbosity_leaves_gaps:
  assumes "decode_command_line ox fac tty [(ch, arg)] False = Some p" "oe_openulog ox fac (if tty then Some (str ''-'') else None)"
  shows "(ch = CHR ''v'' \<longrightarrow> o_logmask p AND LOG_MASK LOG_INFO \<noteq> 0 \<and> o_logmask p AND LOG_MASK LOG_NOTICE = 0) \<and>
    (ch = CHR ''x'' \<longrightarrow> o_logmask p AND LOG_MASK LOG_DEBUG \<noteq> 0 \<and> o_logmask p AND LOG_MASK LOG_INFO = 0 \<and>
      o_logmask p AND LOG_MASK LOG_NOTICE = 0)"
proof -
  have "p = option_mask LOG_INFO (init_opts ox fac tty)" if "ch = CHR ''v''"
    using assms that by (auto simp: decode_command_line_def decode_option_def init_opts_def initLogging_def Let_def bind_eq_Some_conv)
  moreover have "p = option_mask LOG_DEBUG (init_opts ox fac tty)" if "ch = CHR ''x''"
    using assms that by (auto simp: decode_command_line_def decode_option_def init_opts_def initLogging_def Let_def bind_eq_Some_conv)
  ultimately show ?thesis
    by (auto simp: option_mask_def init_opts_def Let_def mask_values)
qed

text \<open>
  Giving the size of the FIFO replaces the interface: the case of \<open>-b\<close> runs into that of \<open>-I\<close>, so
  \<open>-I iface -b npages -m addr\<close> listens on the interface called \<open>npages\<close>.
\<close>

theorem pages_replace_interface:
  assumes "oe_openulog ox fac (if tty then Some (str ''-'') else None)" "n < 2 ^ 64"
  shows "\<exists>p. decode_command_line ox fac tty [(CHR ''I'', iface), (CHR ''b'', digits n), (CHR ''m'', addr)] False = Some p \<and>
    o_status p = 0 \<and> o_npages p = n \<and> o_mcastSpec p = Some addr \<and> o_interface p = Some (digits n)"
proof -
  have "scan_d (digits n) = Some (int n, [])" using scan_digits [of "[]" n] by simp
  moreover have "to_size (int n) = n" using assms(2) by (simp add: to_size_def)
  ultimately have "scan_lu (digits n) = Some (Some n)" using assms(2) by (simp add: scan_lu_def)
  then show ?thesis
    using assms(1) by (simp add: decode_command_line_def decode_option_def init_opts_def initLogging_def Let_def option_I_def option_b_def)
qed

section \<open>The FIFO is the stream of the product-maker\<close>

text \<open>
  C8: A call of \<open>fifoRead\<close> does what the product-maker's model of it does on the bytes in the FIFO and those that
  will still be written, \<open>later\<close>: it takes the next \<open>n\<close> of them, refuses, or reports the close; it waits only
  when there are too few bytes now, and if the FIFO has been closed the model waits for ever.
\<close>

theorem fifoRead_is_stream_read:
  assumes "fifo_inv f" "readMutex f = None" "closeIfEmpty f \<noteq> 0 \<longrightarrow> later = []"
  shows "(case fifoRead all_ok t f n of
      Done (st, d) f' \<Rightarrow>
        stream_read (fsize f) False (closeIfEmpty f \<noteq> 0) (fifo_content f @ later) n =
          Some (st, (case d of None \<Rightarrow> [] | Some x \<Rightarrow> x), fifo_content f' @ later) \<and> fifo_inv f' \<and> readMutex f' = None
    | CondWait f' \<Rightarrow> fifo_content f' = fifo_content f \<and> nbytes f < n \<and>
        (closeIfEmpty f \<noteq> 0 \<longrightarrow> stream_read (fsize f) False True (fifo_content f @ later) n = None)
    | _ \<Rightarrow> False)"
proof -
  have i: "fifo_inv (f\<lparr>readMutex := Some t\<rparr>)" using assms(1) by simp
  have e: "fifo_content f = [] \<longleftrightarrow> nbytes f = 0" using length_fifo_content [of f] by (metis length_0_conv)
  have r: "fifoRead all_ok t f n =
    (if fsize f < n then Done (1, None) f
     else if closeIfEmpty f \<noteq> 0 \<and> nbytes f = 0 then Done (3, None) f
     else if n \<le> nbytes f then Done (0, Some (take n (fifo_content f))) (f\<lparr>nbytes := nbytes f - n\<rparr>)
     else CondWait (f\<lparr>readMutex := Some t\<rparr>))"
    using assms(2) read_wait_cases [OF i, of all_ok t n] by (simp add: fifoRead_def mutex_lock_def mutex_unlock_def Let_def)
  have tk: "fifo_content (f\<lparr>nbytes := nbytes f - n\<rparr>) = drop n (fifo_content f)" "fifo_inv (f\<lparr>nbytes := nbytes f - n\<rparr>)" if "n \<le> nbytes f"
    using content_after_take [OF assms(1) that] inv_after_take [OF assms(1)] by simp_all
  consider "fsize f < n" | "n \<le> fsize f" "closeIfEmpty f \<noteq> 0" "nbytes f = 0"
    | "n \<le> fsize f" "closeIfEmpty f = 0 \<or> nbytes f \<noteq> 0" "n \<le> nbytes f"
    | "n \<le> fsize f" "closeIfEmpty f = 0 \<or> nbytes f \<noteq> 0" "nbytes f < n" by linarith
  then show ?thesis
  proof cases
    case 1
    then show ?thesis unfolding r using assms(1,2) by (simp add: stream_read_def)
  next
    case 2
    then show ?thesis unfolding r using assms e by (simp add: stream_read_def)
  next
    case 3
    have "\<not> (fifo_content f @ later = [] \<and> (n \<noteq> 0 \<or> closeIfEmpty f \<noteq> 0))" using 3 e by auto
    then show ?thesis unfolding r using 3 assms(2) tk by (simp add: stream_read_def)
  next
    case 4
    then show ?thesis unfolding r using assms e by (auto simp: stream_read_def)
  qed
qed

section \<open>The end of the program\<close>

lemma pm_loop_empty:
  assumes "0 < e_fz E" "\<And>k. \<not> e_oserr E k" "pm_inp s = []"
  shows "pm_loop E s = Returned 0 (s\<lparr>pm_reads := pm_reads s + 1\<rparr>)"
proof -
  have "pm_read E 0 1 s = Got 3 (s\<lparr>pm_reads := pm_reads s + 1\<rparr>)"
    using assms by (simp add: pm_read_def stream_read_def Let_def)
  then have "pm_packet E s = Halt 0 (s\<lparr>pm_reads := pm_reads s + 1\<rparr>)"
    by (simp add: pm_packet_def pm_sync_def)
  then show ?thesis by (subst pm_loop.simps) simp
qed

text \<open>The state of a product-maker that has just been created, with the bytes it will read.\<close>

definition fresh :: "pm \<Rightarrow> bool" where
  "fresh p \<longleftrightarrow> between_products p \<and> memheap (pm_heap p) = None \<and> last_sbn_runno p = 2 ^ 64 - 1 \<and> \<not> PNGINIT p"

lemma pmStart_fresh:
  assumes "fresh p"
  shows "pmStart E (p\<lparr>pm_inp := bs\<rparr>) = (case pm_loop E (p\<lparr>pm_inp := bs\<rparr>) of
      Returned st s' \<Rightarrow> Returned st (s'\<lparr>pm_heap := (pm_heap s')\<lparr>memheap := None\<rparr>, pm_status := st\<rparr>)
    | r \<Rightarrow> r)"
proof -
  have "last_sbn_runno p = 2 ^ 64 - 1" "PNGINIT p = False" "memheap (pm_heap p) = None" "prod_head p = None" "prod_tail p = None"
    using assms by (simp_all add: fresh_def between_products_def)
  then have "p\<lparr>pm_inp := bs, last_sbn_runno := 2 ^ 64 - 1, PNGINIT := False, pm_heap := (pm_heap p)\<lparr>memheap := None\<rparr>,
      prod_head := None, prod_tail := None\<rparr> = p\<lparr>pm_inp := bs\<rparr>"
    by (cases p, cases "pm_heap p") simp
  then show ?thesis by (simp add: pmStart_def)
qed

lemma text_sent_inp: "text_sent E (p\<lparr>pm_inp := bs\<rparr>) h q ps blk cs psh data = text_sent E p h q ps blk cs psh data"
  by (simp add: text_sent_def)

lemma between_inp: "between_products (p\<lparr>pm_inp := bs\<rparr>) = between_products p"
  by (simp add: between_products_def)

text \<open>
  C1: From the descriptor to the queue: when the bytes the reader has taken in are the packets of a text product, the
  program ends with status 0 once the product-maker has handed that product to the LDM queue, counted it, and
  found the closed FIFO empty.
\<close>

theorem product_ingested:
  assumes "env_ok E" "fresh p" "text_sent E p h q ps blk cs psh data" "rs_in s = start_bytes h q ps blk @ concat (map packet_bytes cs)"
  shows "\<exists>t. main_join E p s = Exit 0 (Some t) \<and> nprods t = sz_add (nprods p) 1 \<and>
    pm_queue t = pm_queue p @ [text_product h psh (pdh_seqno q) (psh_pname psh) (fos_header (pdh_seqno q) @ data) data]"
proof -
  let ?p = "p\<lparr>pm_inp := rs_in s\<rparr>"
  have b: "between_products ?p" using assms(2) by (simp add: fresh_def between_inp)
  have e: "0 < e_fz E" "\<And>k. \<not> e_oserr E k" using assms(1) by (auto simp: env_ok_def)
  have ts: "text_sent E ?p h q ps blk cs psh data" using assms(3) by (simp only: text_sent_inp)
  have inp: "pm_inp ?p = start_bytes h q ps blk @ concat (map packet_bytes cs) @ []" using assms(4) by simp
  obtain s' where s': "pm_loop E ?p = pm_loop E s'" "pm_inp s' = []" "nprods s' = sz_add (nprods ?p) 1"
    "pm_queue s' = pm_queue ?p @ [text_product h psh (pdh_seqno q) (psh_pname psh) (fos_header (pdh_seqno q) @ data) data]"
    using text_sent_loop [OF assms(1) b ts inp] by blast
  have "pm_loop E ?p = Returned 0 (s'\<lparr>pm_reads := pm_reads s' + 1\<rparr>)"
    unfolding s'(1) by (rule pm_loop_empty [OF e s'(2)])
  with s'(3,4) show ?thesis
    by (simp add: main_join_def pmStart_fresh [OF assms(2)] pmStatus_def Let_def)
qed

text \<open>
  C34: The exit status is not zero only if the reader and the product-maker have both failed; and since the
  product-maker fails only in pthread calls, a reader that stopped on an error of \<open>read\<close> still makes the program
  exit with 0.
\<close>

theorem reader_failure_is_lost:
  assumes "main_join E p s = Exit st (Some t)"
  shows "(st \<noteq> 0 \<longleftrightarrow> readerStatus (rs_reader s) \<noteq> 0 \<and> pmStatus t \<noteq> 0) \<and>
    (0 < e_fz E \<and> (\<forall>k. \<not> e_oserr E k) \<longrightarrow> st = 0)"
proof -
  obtain n where n: "pmStart E (p\<lparr>pm_inp := rs_in s\<rparr>) = Returned n t"
    "st = (if readerStatus (rs_reader s) \<noteq> 0 then pmStatus t else readerStatus (rs_reader s))"
    using assms by (auto simp: main_join_def Let_def split: pm_result.splits)
  have "pmStatus t = 0" if "0 < e_fz E" "\<And>k. \<not> e_oserr E k"
    using pmStart_result [OF that, of "p\<lparr>pm_inp := rs_in s\<rparr>"] n(1) by simp
  with n(2) show ?thesis by (auto split: if_splits)
qed

text \<open>
  A stream that breaks off inside a frame header, after 1 to 14 of the 15 bytes behind the first: closing the FIFO
  does not end the read of the rest, and the program waits for the product-maker for ever.
\<close>

theorem broken_off_packet_hangs:
  assumes "15 \<le> e_fz E" "\<And>k. \<not> e_oserr E k" "fresh p" "rs_in s = g @ 255 # d" "255 \<notin> set g" "d \<noteq> []" "length d < 15"
  shows "main_join E p s = Hangs"
proof -
  let ?p = "p\<lparr>pm_inp := rs_in s\<rparr>"
  have l: "length (pm_buf p) = 10000" using assms(3) by (simp add: fresh_def between_products_def)
  have ne: "pm_buf ?p \<noteq> []" using l by auto
  have e: "0 < e_fz E" using assms(1) by simp
  have inp: "pm_inp ?p = g @ 255 # d" using assms(4) by simp
  let ?s = "skipped ?p g (255 # d)"
  have 1: "pm_loop E ?p = pm_loop E ?s" by (rule loop_skips [OF e assms(2) inp assms(5) ne])
  have lb: "length (pm_buf ?s) = 10000" using l by (simp add: skipped_def blit_def)
  then obtain x xs where x: "pm_buf ?s = x # xs" by (cases "pm_buf ?s") auto
  have r1: "pm_read E 0 1 ?s = Got 0 (?s\<lparr>pm_reads := pm_reads ?s + 1, pm_buf := blit (pm_buf ?s) 0 [255], pm_inp := d\<rparr>)" (is "_ = Got 0 ?t")
  proof (rule pm_read_avail)
    show "0 + 1 \<le> length (pm_buf ?s)" by (simp add: lb)
  qed (use e assms(2) in \<open>simp_all add: skipped_def\<close>)
  have "pm_read E 1 15 ?t = Forever (?t\<lparr>pm_reads := pm_reads ?t + 1\<rparr>)"
    using assms(1,2,6,7) by (simp add: pm_read_def stream_read_def Let_def)
  then have "pm_packet E ?s = Wait (?t\<lparr>pm_reads := pm_reads ?t + 1\<rparr>)"
    using r1 by (simp add: pm_packet_def pm_sync_def x blit_def)
  then have "pm_loop E ?p = Waiting (?t\<lparr>pm_reads := pm_reads ?t + 1\<rparr>)" unfolding 1 by (subst pm_loop.simps) simp
  then show ?thesis by (simp add: main_join_def pmStart_fresh [OF assms(3)] Let_def)
qed

text \<open>The consequence for the caller of \<open>multicastReaderNew\<close> when the group cannot be joined.\<close>

lemma join_failure_undefined:
  assumes "1 \<le> d" "d \<le> 8" "m_host M (dotted a b c d) = Some addr" "length addr = 4" "IN_MULTICAST addr" "m_socket M \<noteq> - 1"
    and "0 \<le> m_bind M (int (1200 + d))" "\<And>i. m_join M addr i = - 1"
  shows "spawnMulticastReader M (dotted a b c d) interface create = None"
  unfolding spawnMulticastReader_def multicast_bound [OF assms(1-7)]
  using assms(8) by (simp add: mcast_join_def Let_def)

lemma file_path_ignored: "spawnFileReader (Some path) new create = spawnFileReader None new create"
  by (simp add: spawnFileReader_def)

section \<open>Instances\<close>

definition demo_opts :: opt_env where
  "demo_opts = \<lparr>oe_openulog = (\<lambda>_ _. True), oe_strtol = (\<lambda>_. (0, 0))\<rparr>"

lemma demo_fresh: "fresh (demo_pm [])"
  by (simp add: fresh_def demo_idle) (simp add: demo_pm_def)

theorem verbosity_leaves_gaps_witness:
  "\<exists>p. decode_command_line demo_opts 24 True [(CHR ''x'', [])] False = Some p \<and>
    o_logmask p AND LOG_MASK LOG_DEBUG \<noteq> 0 \<and> o_logmask p AND LOG_MASK LOG_INFO = 0"
proof -
  obtain p where p: "decode_command_line demo_opts 24 True [(CHR ''x'', [])] False = Some p"
    by (simp add: decode_command_line_def decode_option_def demo_opts_def init_opts_def initLogging_def Let_def option_mask_def)
  have "oe_openulog demo_opts 24 (if True then Some (str ''-'') else None)" by (simp add: demo_opts_def)
  from verbosity_leaves_gaps [OF p this] p show ?thesis by blast
qed

theorem pages_replace_interface_witness:
  "\<exists>p. decode_command_line demo_opts 24 True [(CHR ''I'', str ''eth0''), (CHR ''b'', digits 8000), (CHR ''m'', str ''224.0.1.1'')] False = Some p \<and>
    o_interface p = Some (digits 8000)"
  using pages_replace_interface [of demo_opts 24 True 8000 "str ''eth0''" "str ''224.0.1.1''"] by (auto simp: demo_opts_def)

theorem fifoRead_is_stream_read_witness:
  "(case fifoRead all_ok 2 demo_ring 1 of
      Done (st, d) f' \<Rightarrow> stream_read 5 False False ([9] @ [4, 7]) 1 = Some (st, (case d of None \<Rightarrow> [] | Some x \<Rightarrow> x), fifo_content f' @ [4, 7])
    | CondWait f' \<Rightarrow> False | _ \<Rightarrow> False)"
proof -
  have f: "fifo_inv demo_ring" "readMutex demo_ring = None" using demo_ring_ok(1) by (simp_all add: idle_def)
  have c: "closeIfEmpty demo_ring = 0" "fsize demo_ring = 5" "nbytes demo_ring = 1" by (simp_all add: demo_ring_def)
  have "closeIfEmpty demo_ring \<noteq> 0 \<longrightarrow> [4, 7] = ([] :: byte list)" by (simp add: c)
  from fifoRead_is_stream_read [OF f this, where t = 2 and n = 1] show ?thesis
    by (simp add: c demo_ring_ok(2) split: outcome.splits prod.splits)
qed

theorem product_ingested_witness:
  "\<exists>t. main_join demo_env (demo_pm []) (start_sys demo_reader demo_ring\<lparr>rs_in := demo_start @ packet_bytes demo_cont\<rparr>) = Exit 0 (Some t) \<and>
    nprods t = 1 \<and>
    map p_data (pm_queue t) = [[1, 13, 13, 10, 48, 55, 55, 32, 13, 13, 10, 63, 65, 66, 13, 10, 72, 73, 13, 13, 10, 3]]"
proof -
  let ?s = "start_sys demo_reader demo_ring\<lparr>rs_in := demo_start @ packet_bytes demo_cont\<rparr>"
  obtain psh where psh: "text_sent demo_env (demo_pm []) demo_sbn (demo_pdh\<lparr>pdh_dbsize := 5\<rparr>) demo_ps demo_blk [demo_cont] psh [63, 65, 66, 13, 10, 72, 73]"
    "psh_pname psh = [63, 65, 66]" "psh_metadata psh = []" using demo_text_sent by blast
  have inp: "rs_in ?s = start_bytes demo_sbn (demo_pdh\<lparr>pdh_dbsize := 5\<rparr>) demo_ps demo_blk @ concat (map packet_bytes [demo_cont])"
    using demo_bytes by simp
  have z: "pm_queue (demo_pm []) = []" "nprods (demo_pm []) = 0" "sz_add 0 (Suc 0) = Suc 0" by (simp_all add: demo_pm_def sz_add_def)
  from product_ingested [OF demo_env_ok demo_fresh psh(1) inp] show ?thesis
    using demo_product [OF psh(2,3)] by (auto simp: z demo_fos_header FOS_TRAILER_def)
qed

theorem reader_failure_is_lost_witness:
  "\<exists>t. main_join demo_env (demo_pm []) (start_sys (demo_reader\<lparr>rd_status := 2\<rparr>) demo_ring) = Exit 0 (Some t)"
proof -
  let ?s = "start_sys (demo_reader\<lparr>rd_status := 2\<rparr>) demo_ring"
  have e: "0 < e_fz demo_env" "\<And>k. \<not> e_oserr demo_env k" by (simp_all add: demo_env_def)
  have i: "pm_inp (demo_pm []\<lparr>pm_inp := rs_in ?s\<rparr>) = []" by (simp add: start_sys_def)
  obtain st t where t: "main_join demo_env (demo_pm []) ?s = Exit st (Some t)"
    by (simp add: main_join_def pmStart_fresh [OF demo_fresh] pm_loop_empty [OF e i] Let_def)
  from reader_failure_is_lost [OF t] e have "st = 0" by simp
  with t show ?thesis by blast
qed

theorem broken_off_packet_hangs_witness:
  "main_join demo_env (demo_pm []) (start_sys demo_reader demo_ring\<lparr>rs_in := [1, 2] @ 255 # [16, 0]\<rparr>) = Hangs"
  by (rule broken_off_packet_hangs [OF _ _ demo_fresh, of _ _ "[1, 2]" "[16, 0]"]) (simp_all add: demo_env_def)

end
