(* ===== verification/Bufread.thy ===== *)
theory Bufread
  imports NP_Prelude
begin

text \<open>
  The input of the stand-alone product builder (\<open>readnoaaport.c\<close>): \<open>_shm_bufread\<close> over the records of the
  shared-memory FIFO, \<open>_fd_bufread\<close> over a file descriptor, and \<open>bufread\<close>, which chooses between them. The
  results of the calls they make are lists; a call beyond the end of its list does not return.
\<close>

section \<open>Shared memory\<close>

text \<open>
  The replies of \<open>shmfifo_get\<close>: a record, the return of 0 without a record and with \<open>*nbytes\<close> unset that
  \<open>shm_errors_masked\<close> describes, or an error.
\<close>

datatype shm_reply = Record "byte list" | NoRecord | GetFailed

text \<open>
  What a reading function has done: its status, \<open>None\<close> if it does not return, the bytes it has copied to the
  buffer, and the input that is left.
\<close>

type_synonym 'a taken = "int option \<times> byte list \<times> 'a"

text \<open>The loop of \<open>_shm_bufread\<close> for \<open>n\<close> more bytes; \<open>left\<close> are the bytes at \<open>from\<close> in the static \<open>msgbuf\<close>.\<close>

function shm_take :: "nat \<Rightarrow> shm_reply list \<Rightarrow> byte list \<Rightarrow> (shm_reply list \<times> byte list) taken" where
  "shm_take n rs left =
     (if n = 0 then (Some 0, [], (rs, left))
      else if left = []
      then (case rs of
              [] \<Rightarrow> (None, [], ([], []))
            | r # rs' \<Rightarrow>
                (case r of
                   GetFailed \<Rightarrow> (Some (- 2), [], (rs', []))
                 | NoRecord \<Rightarrow> shm_take n rs' []
                 | Record d \<Rightarrow> shm_take n rs' d))
      else let ncopy = min n (length left)
           in case shm_take (n - ncopy) rs (drop ncopy left) of (st, d, src) \<Rightarrow> (st, take ncopy left @ d, src))"
  by pat_completeness auto

termination
  by (relation "measures [\<lambda>(n, rs, left). n, \<lambda>(n, rs, left). length rs]") auto

declare shm_take.simps [simp del]

definition shm_bufread :: "int \<Rightarrow> shm_reply list \<Rightarrow> byte list \<Rightarrow> (shm_reply list \<times> byte list) taken" where
  "shm_bufread want rs left = (if want < 0 then (Some (- 1), [], (rs, left)) else shm_take (nat want) rs left)"

section \<open>File descriptors\<close>

text \<open>
  One pass of the loop of \<open>_fd_bufread\<close>: \<open>select\<close> fails or times out, returns without the descriptor, or \<open>read\<close>
  fails or has that many bytes to give, none at the end of the file. A \<open>read\<close> of more than \<open>SSIZE_MAX\<close> bytes is
  implementation-defined; Linux refuses it and copies nothing.
\<close>

datatype fd_event = SelectFailed | SelectTimeout | SelectOther | ReadFailed | Chunk "byte list"

fun fd_take :: "nat \<Rightarrow> fd_event list \<Rightarrow> (fd_event list \<times> bool) taken" where
  "fd_take n [] = (if n = 0 then Some 0 else None, [], ([], False))"
| "fd_take n (e # es) =
     (if n = 0 then (Some 0, [], (e # es, False))
      else (case e of
              SelectFailed \<Rightarrow> fd_take n es
            | SelectTimeout \<Rightarrow> fd_take n es
            | SelectOther \<Rightarrow> (Some (- 2), [], (es, False))
            | ReadFailed \<Rightarrow> (Some (- 2), [], (es, False))
            | Chunk d \<Rightarrow>
                if 2 ^ 63 \<le> n then (Some (- 2), [], (Chunk d # es, False))
                else if d = [] then (Some (- 3), [], (es, True))
                else if n < length d then (Some 0, take n d, (Chunk (drop n d) # es, False))
                else (case fd_take (n - length d) es of (st, b, src) \<Rightarrow> (st, d @ b, src))))"

text \<open>\<open>bsiz\<close> is compared as a \<open>size_t\<close>. The flag is the assignment of \<open>DONE\<close>.\<close>

definition fd_bufread :: "int \<Rightarrow> fd_event list \<Rightarrow> (fd_event list \<times> bool) taken" where
  "fd_bufread bsiz es = fd_take (to_size bsiz) es"

section \<open>Both\<close>

datatype rsource = Shm "shm_reply list" "byte list" | Fd "fd_event list"

definition bufread :: "int \<Rightarrow> rsource \<Rightarrow> (rsource \<times> bool) taken" where
  "bufread n src =
     (case src of
        Shm rs left \<Rightarrow> (case shm_bufread n rs left of (st, d, (rs', left')) \<Rightarrow> (st, d, (Shm rs' left', False)))
      | Fd es \<Rightarrow> (case fd_bufread n es of (st, d, (es', fin)) \<Rightarrow> (st, d, (Fd es', fin))))"

section \<open>The bytes of a source\<close>

fun reply_bytes :: "shm_reply \<Rightarrow> byte list" where
  "reply_bytes (Record d) = d"
| "reply_bytes NoRecord = []"
| "reply_bytes GetFailed = []"

fun event_bytes :: "fd_event \<Rightarrow> byte list" where
  "event_bytes (Chunk d) = d"
| "event_bytes SelectFailed = []"
| "event_bytes SelectTimeout = []"
| "event_bytes SelectOther = []"
| "event_bytes ReadFailed = []"

fun src_bytes :: "rsource \<Rightarrow> byte list" where
  "src_bytes (Shm rs left) = left @ concat (map reply_bytes rs)"
| "src_bytes (Fd es) = concat (map event_bytes es)"

text \<open>A size that every read that returns 0 with something makes smaller.\<close>

fun src_size :: "rsource \<Rightarrow> nat" where
  "src_size (Shm rs left) = length left + sum_list (map (\<lambda>r. Suc (length (reply_bytes r))) rs)"
| "src_size (Fd es) = sum_list (map (\<lambda>e. Suc (length (event_bytes e))) es)"

lemma shm_take_bytes: "shm_take n rs left = (st, d, (rs', left')) \<Longrightarrow>
  left @ concat (map reply_bytes rs) = d @ left' @ concat (map reply_bytes rs') \<and> length d \<le> n \<and> (st = Some 0 \<longrightarrow> length d = n) \<and>
  src_size (Shm rs' left') + length d \<le> src_size (Shm rs left) \<and> (st \<noteq> Some 0 \<longrightarrow> left' = [])"
proof (induction n rs left arbitrary: st d rs' left' rule: shm_take.induct)
  case (1 n rs left)
  show ?case
  proof (cases "n = 0")
    case True
    with "1.prems" have "st = Some 0 \<and> d = [] \<and> rs' = rs \<and> left' = left" by (simp add: shm_take.simps [of 0 rs left])
    then show ?thesis using True by simp
  next
    case n: False
    show ?thesis
    proof (cases "left = []")
      case True
      show ?thesis
      proof (cases rs)
        case Nil
        with "1.prems" n True show ?thesis by (auto simp: shm_take.simps [of n])
      next
        case (Cons r rs1)
        show ?thesis
        proof (cases r)
          case (Record e)
          have "shm_take n rs1 e = (st, d, (rs', left'))"
            using "1.prems" n True Cons Record by (simp add: shm_take.simps [of n "Record e # rs1" "[]"])
          from "1.IH"(1) [OF n True Cons Record this] show ?thesis using True Cons Record by auto
        next
          case NoRecord
          have "shm_take n rs1 [] = (st, d, (rs', left'))"
            using "1.prems" n True Cons NoRecord by (simp add: shm_take.simps [of n "NoRecord # rs1" "[]"])
          from "1.IH"(2) [OF n True Cons NoRecord this] show ?thesis using True Cons NoRecord by auto
        next
          case GetFailed
          with "1.prems" n True Cons have "st = Some (- 2) \<and> d = [] \<and> rs' = rs1 \<and> left' = []"
            by (simp add: shm_take.simps [of n "GetFailed # rs1" "[]"])
          then show ?thesis using True Cons GetFailed by simp
        qed
      qed
    next
      case False
      let ?k = "min n (length left)"
      obtain st1 d1 rs1 left1 where t: "shm_take (n - ?k) rs (drop ?k left) = (st1, d1, (rs1, left1))"
        by (cases "shm_take (n - ?k) rs (drop ?k left)") auto
      have e: "st = st1" "d = take ?k left @ d1" "rs' = rs1" "left' = left1"
        using "1.prems" n False t by (simp_all add: shm_take.simps [of n rs left] Let_def)
      have ih: "drop ?k left @ concat (map reply_bytes rs) = d1 @ left1 @ concat (map reply_bytes rs1)" "length d1 \<le> n - ?k"
        "st1 = Some 0 \<longrightarrow> length d1 = n - ?k" "src_size (Shm rs1 left1) + length d1 \<le> src_size (Shm rs (drop ?k left))"
        "st1 \<noteq> Some 0 \<longrightarrow> left1 = []"
        using "1.IH"(3) [OF n False refl t] by simp_all
      have "left @ concat (map reply_bytes rs) = take ?k left @ drop ?k left @ concat (map reply_bytes rs)" by simp
      also have "\<dots> = d @ left' @ concat (map reply_bytes rs')" unfolding ih(1) e by simp
      finally show ?thesis using ih(2-5) e by (auto simp: min_def split: if_splits)
    qed
  qed
qed

lemma fd_take_bytes: "fd_take n es = (st, d, (es', fin)) \<Longrightarrow>
  concat (map event_bytes es) = d @ concat (map event_bytes es') \<and> length d \<le> n \<and> (st = Some 0 \<longrightarrow> length d = n) \<and>
  src_size (Fd es') + length d \<le> src_size (Fd es)"
proof (induction n es arbitrary: st d es' fin rule: fd_take.induct)
  case (2 n e es)
  show ?case
  proof (cases "n = 0")
    case True
    with "2.prems" show ?thesis by simp
  next
    case n: False
    show ?thesis
    proof (cases e)
      case SelectFailed
      with "2.prems" n "2.IH"(1) [OF n SelectFailed, of st d es' fin] show ?thesis by auto
    next
      case SelectTimeout
      with "2.prems" n "2.IH"(2) [OF n SelectTimeout, of st d es' fin] show ?thesis by auto
    next
      case (Chunk c)
      show ?thesis
      proof (cases "2 ^ 63 \<le> n \<or> c = [] \<or> n < length c")
        case True
        show ?thesis
        proof (cases "2 ^ 63 \<le> n \<or> c = []")
          case True
          with "2.prems" n Chunk show ?thesis by (auto split: if_splits)
        next
          case False
          then have c: "\<not> 2 ^ 63 \<le> n" "c \<noteq> []" "n < length c" using True by simp_all
          then have "st = Some 0" "d = take n c" "es' = Chunk (drop n c) # es" using "2.prems" n Chunk by simp_all
          then show ?thesis using c(3) Chunk by simp
        qed
      next
        case False
        obtain st1 d1 es1 fin1 where t: "fd_take (n - length c) es = (st1, d1, (es1, fin1))"
          by (cases "fd_take (n - length c) es") auto
        have "\<not> 2 ^ 63 \<le> n" "c \<noteq> []" "\<not> n < length c" using False by simp_all
        from "2.IH"(3) [OF n Chunk this t] show ?thesis
          using "2.prems" n Chunk False t by auto
      qed
    qed (use "2.prems" n in auto)
  qed
qed (auto split: if_splits)

lemma bufread_bytes: "bufread n src = (st, d, (src', fin)) \<Longrightarrow>
  src_bytes src = d @ src_bytes src' \<and> (n < 2 ^ 64 \<longrightarrow> st = Some 0 \<longrightarrow> length d = to_size n) \<and> src_size src' + length d \<le> src_size src"
proof (cases src)
  case (Shm rs left)
  assume b: "bufread n src = (st, d, (src', fin))"
  show ?thesis
  proof (cases "n < 0")
    case True
    with b Shm show ?thesis by (auto simp: bufread_def shm_bufread_def)
  next
    case False
    obtain rs1 left1 where t: "shm_take (nat n) rs left = (st, d, (rs1, left1))" "src' = Shm rs1 left1"
      using b Shm False by (cases "shm_take (nat n) rs left") (auto simp: bufread_def shm_bufread_def)
    from shm_take_bytes [OF t(1)] show ?thesis using t(2) Shm False by (simp add: to_size_def)
  qed
next
  case (Fd es)
  assume b: "bufread n src = (st, d, (src', fin))"
  obtain es1 where t: "fd_take (to_size n) es = (st, d, (es1, fin))" "src' = Fd es1"
    using b Fd by (cases "fd_take (to_size n) es") (auto simp: bufread_def fd_bufread_def)
  from fd_take_bytes [OF t(1)] show ?thesis using t(2) Fd by simp
qed

end
