(* ===== verification/Readnoaaport.thy ===== *)
theory Readnoaaport
  imports Bufread Pm_Loop
begin

text \<open>
  The stand-alone product builder (\<open>readnoaaport.c\<close>): the loop of its \<open>main\<close> over the input of
  \<^theory_text>\<open>Bufread\<close>. The code is an earlier form of the product-maker: the parts that do not read are the same,
  statement for statement, and are taken from \<^theory_text>\<open>Product_Maker\<close>. What differs is written here: reading and
  its errors, the count of missed packets, and the end of the loop.

  The local variables are those of \<open>pm\<close>; here the code declares all of them outside the loop, so they do keep their
  values. \<open>npackets\<close>, \<open>nmissed\<close> and \<open>nprods\<close> of that record have no counterpart in this program.
\<close>

section \<open>State\<close>

record rn =
  rn_pm :: pm
  rn_src :: rsource
  rn_DONE :: bool
  rn_nmissed :: nat
  rn_last :: int \<comment> \<open>\<open>last_sbn_seqno\<close>, a \<open>long\<close> that is at first -1\<close>

text \<open>\<open>REnd\<close> leaves the loop, \<open>RAbort\<close> is a call of \<open>abort\<close>, \<open>RWait\<close> a read that does not return.\<close>

datatype rflow = RGo rn | RCont rn | REnd rn | RAbort rn | RWait rn | RCrash

fun r_bind :: "rflow \<Rightarrow> (rn \<Rightarrow> rflow) \<Rightarrow> rflow" where
  "r_bind (RGo r) k = k r"
| "r_bind (RCont r) k = RCont r"
| "r_bind (REnd r) k = REnd r"
| "r_bind (RAbort r) k = RAbort r"
| "r_bind (RWait r) k = RWait r"
| "r_bind RCrash k = RCrash"

text \<open>A step of the product-maker that does not read; it never gives \<open>Halt\<close> or \<open>Wait\<close>.\<close>

definition r_step :: "(pm \<Rightarrow> flow) \<Rightarrow> rn \<Rightarrow> rflow" where
  "r_step f r =
     (case f (rn_pm r) of
        Go p \<Rightarrow> RGo (r\<lparr>rn_pm := p\<rparr>)
      | Cont p \<Rightarrow> RCont (r\<lparr>rn_pm := p\<rparr>)
      | Halt n p \<Rightarrow> REnd (r\<lparr>rn_pm := p\<rparr>)
      | Wait p \<Rightarrow> RWait (r\<lparr>rn_pm := p\<rparr>)
      | Crash \<Rightarrow> RCrash)"

section \<open>Reading\<close>

datatype rread = RGot int rn | RForever rn | ROverrun

text \<open>What has been read is in the buffer even when the call fails. Copying past the end of the buffer is undefined.\<close>

definition rn_read :: "nat \<Rightarrow> int \<Rightarrow> rn \<Rightarrow> rread" where
  "rn_read off n r =
     (case bufread n (rn_src r) of (st, d, (src, fin)) \<Rightarrow>
        (case mem_write (pm_buf (rn_pm r)) off d of
           None \<Rightarrow> ROverrun
         | Some b \<Rightarrow>
             (let r1 = r\<lparr>rn_pm := (rn_pm r)\<lparr>pm_buf := b\<rparr>, rn_src := src, rn_DONE := rn_DONE r \<or> fin\<rparr>
              in case st of None \<Rightarrow> RForever r1 | Some s \<Rightarrow> RGot s r1)))"

fun on_rread :: "rread \<Rightarrow> (int \<Rightarrow> rn \<Rightarrow> rflow) \<Rightarrow> rflow" where
  "on_rread (RGot st r) k = k st r"
| "on_rread (RForever r) k = RWait r"
| "on_rread ROverrun k = RCrash"

lemma rn_read_size: "rn_read off n r = RGot st r' \<Longrightarrow>
  src_size (rn_src r') \<le> src_size (rn_src r) \<and> (st = 0 \<longrightarrow> 0 < n \<longrightarrow> n < 2 ^ 64 \<longrightarrow> src_size (rn_src r') < src_size (rn_src r))"
proof -
  assume g: "rn_read off n r = RGot st r'"
  obtain st1 d src fin where b: "bufread n (rn_src r) = (st1, d, (src, fin))" by (cases "bufread n (rn_src r)") auto
  have e: "st1 = Some st" "rn_src r' = src"
    using g b by (auto simp: rn_read_def Let_def split: option.splits)
  have "0 < n \<Longrightarrow> n < 2 ^ 64 \<Longrightarrow> 0 < to_size n" by (simp add: to_size_def)
  with bufread_bytes [OF b] e show ?thesis by auto
qed

section \<open>The start of a packet\<close>

function rn_sync :: "rn \<Rightarrow> rflow" where
  "rn_sync r =
     (case readsbn (pm_buf (rn_pm r)) (pm_sbn (rn_pm r)) of
        None \<Rightarrow> RCrash
      | Some (st, h) \<Rightarrow>
          (let s1 = (rn_pm r)\<lparr>pm_sbn := h\<rparr>
           in if st = 0 then RGo (r\<lparr>rn_pm := s1\<rparr>)
              else let IOFF = Suc (length (takeWhile (\<lambda>b. b \<noteq> 255) (take 15 (drop 1 (pm_buf s1)))))
                   in if 15 < IOFF then RCont (r\<lparr>rn_pm := s1\<rparr>)
                      else (case rn_read (16 - IOFF) (int IOFF)
                                   (r\<lparr>rn_pm := s1\<lparr>pm_buf := blit (pm_buf s1) 0 (take (16 - IOFF) (drop IOFF (pm_buf s1)))\<rparr>\<rparr>) of
                              RGot st r2 \<Rightarrow> if st \<noteq> 0 then RCont r2 else rn_sync r2
                            | RForever r2 \<Rightarrow> RWait r2
                            | ROverrun \<Rightarrow> RCrash)))"
  by pat_completeness auto

termination
  by (relation "measure (\<lambda>r. src_size (rn_src r))") (auto dest: rn_read_size)

declare rn_sync.simps [simp del]

text \<open>The first byte: the end of the file leaves the loop, any other failure aborts the program.\<close>

definition rn_first :: "rn \<Rightarrow> rflow" where
  "rn_first r =
     on_rread (rn_read 0 1 r) (\<lambda>st r1.
       if st \<noteq> 0 then (if st = - 3 then REnd r1 else RAbort r1)
       else if pm_buf (rn_pm r1) ! 0 \<noteq> 255 then RCont r1
       else on_rread (rn_read 1 15 r1) (\<lambda>st r2.
         if st \<noteq> 0 then RCont r2
         else r_bind (rn_sync r2) (\<lambda>r3.
           on_rread (rn_read 16 16 r3) (\<lambda>st r4. if st \<noteq> 0 then RCont r4 else RGo r4))))"

definition i64 :: "int \<Rightarrow> int" where
  "i64 x = signed_take_bit 63 x"

text \<open>The comparisons are between \<open>unsigned long\<close> values.\<close>

definition rn_count :: "rn \<Rightarrow> rn" where
  "rn_count r =
     (let seqno = sbn_seqno (pm_sbn (rn_pm r)); prev = to_size (rn_last r);
          r1 = (if rn_last r \<noteq> - 1 \<and> seqno \<noteq> sz_add prev 1 \<and> prev < seqno
                then r\<lparr>rn_nmissed := sz_add (rn_nmissed r) (sz_sub (sz_sub seqno prev) 1)\<rparr> else r)
      in r1\<lparr>rn_last := i64 (int seqno)\<rparr>)"

text \<open>The status of the read of a long header is not looked at.\<close>

definition rn_header :: "rn \<Rightarrow> rflow" where
  "rn_header r =
     (let s = rn_pm r
      in case readpdh (drop (nat (sbn_len (pm_sbn s))) (pm_buf s)) (pm_pdh s) of
           None \<Rightarrow> RCrash
         | Some (st, h) \<Rightarrow>
             (let r1 = r\<lparr>rn_pm := s\<lparr>pm_pdh := h\<rparr>\<rparr>
              in if st = - 1 then RCont r1
                 else if 16 < pdh_len h
                 then on_rread (rn_read (nat (sbn_len (pm_sbn s)) + 16) (pdh_len h - 16) r1) (\<lambda>_. r_step pm_vet)
                 else r_step pm_vet r1))"

section \<open>Products\<close>

definition rn_psh_header :: "rn \<Rightarrow> rflow" where
  "rn_psh_header r =
     (let off = nat (sbn_len (pm_sbn (rn_pm r)) + pdh_len (pm_pdh (rn_pm r)))
      in on_rread (rn_read off (pdh_pshlen (pm_pdh (rn_pm r))) r) (\<lambda>st r1.
           if st \<noteq> 0 then RCont r1
           else r_step (\<lambda>s1.
             if sbn_command (pm_sbn s1) = 5 then Cont s1
             else (case readpsh (drop off (pm_buf s1)) (pm_psh s1) of
                     None \<Rightarrow> Crash
                   | Some (st, h) \<Rightarrow>
                       (let s2 = s1\<lparr>pm_psh := h\<rparr>
                        in if st = - 1 then Cont s2
                           else if psh_olen h \<noteq> pdh_pshlen (pm_pdh s2) then Cont s2 else Go s2))) r1))"

definition rn_begin :: "pm_env \<Rightarrow> rn \<Rightarrow> rflow" where
  "rn_begin E r =
     (let s = rn_pm r;
          s1 = s\<lparr>prod_seqno := i32 (pdh_seqno (pm_pdh s)), prod_nfrag := psh_frags (pm_psh s),
                 pm_ds := ds_init (e_moves E) (pm_ds s) (nat (psh_frags (pm_psh s)))\<rparr>
      in on_rread (rn_read (blockoff s1) (pdh_dbsize (pm_pdh s1)) (r\<lparr>rn_pm := s1\<rparr>)) (\<lambda>st r2.
           if st \<noteq> 0 then RCont r2
           else r_step (\<lambda>s2.
             let s3 = (if sbn_datastream (pm_sbn s2) = 4 \<and> psh_pcat (pm_psh s2) \<noteq> 3
                       then s2\<lparr>GOES := False, NWSTG := True\<rparr> else s2)
             in Go (s3\<lparr>heapcount := 0, pm_md5 := []\<rparr>)) r2))"

definition rn_start_product :: "pm_env \<Rightarrow> rn \<Rightarrow> rflow" where
  "rn_start_product E r =
     r_bind (rn_psh_header r) (\<lambda>r1.
     r_bind (r_step (pm_abandon E) r1) (\<lambda>r2.
     r_bind (rn_begin E r2) (\<lambda>r3.
     r_bind (r_step (\<lambda>s3. if GOES s3 then pm_goes_start E s3 else Go s3) r3) (\<lambda>r4.
     r_step (\<lambda>s4. if NWSTG s4 then pm_nwstg_start E s4 else Go s4) r4))))"

definition rn_continuation :: "rn \<Rightarrow> rflow" where
  "rn_continuation r =
     (let s = cont_setup (rn_pm r)
      in on_rread (rn_read (blockoff s) (pdh_dbsize (pm_pdh s)) (r\<lparr>rn_pm := s\<rparr>)) (\<lambda>st r1.
           if st \<noteq> 0 then RCont r1 else if prod_head (rn_pm r1) = None then RCont r1 else RGo r1))"

definition rn_packet :: "pm_env \<Rightarrow> rn \<Rightarrow> rflow" where
  "rn_packet E r =
     r_bind (rn_first r) (\<lambda>r1.
     r_bind (r_step pm_classify (rn_count r1)) (\<lambda>r2.
     r_bind (rn_header r2) (\<lambda>r3.
     r_bind (if pdh_pshlen (pm_pdh (rn_pm r3)) \<noteq> 0 then rn_start_product E r3 else rn_continuation r3) (\<lambda>r4.
     r_bind (r_step (pm_fragment E) r4) (\<lambda>r5.
     r_bind (r_step (\<lambda>s5. if GOES s5 then pm_goes_data E s5 else pm_nwstg_data E s5) r5) (\<lambda>r6.
     r_bind (r_step pm_link r6) (\<lambda>r7.
     r_step (pm_finish E) r7)))))))"

section \<open>Every pass reads\<close>

text \<open>All states a flow carries satisfy \<open>P\<close>.\<close>

fun rflow_all :: "(rn \<Rightarrow> bool) \<Rightarrow> rflow \<Rightarrow> bool" where
  "rflow_all P (RGo r) = P r"
| "rflow_all P (RCont r) = P r"
| "rflow_all P (REnd r) = P r"
| "rflow_all P (RAbort r) = P r"
| "rflow_all P (RWait r) = True"
| "rflow_all P RCrash = True"

lemma r_bind_all [flow]: "rflow_all P f \<Longrightarrow> (\<And>r. f = RGo r \<Longrightarrow> P r \<Longrightarrow> rflow_all P (k r)) \<Longrightarrow> rflow_all P (r_bind f k)"
  by (cases f) auto

definition src_le :: "nat \<Rightarrow> rn \<Rightarrow> bool" where
  "src_le n r \<longleftrightarrow> src_size (rn_src r) \<le> n"

lemma src_le_upd [simp]: "src_le n (r\<lparr>rn_pm := s\<rparr>) = src_le n r" "src_le n (rn_count r) = src_le n r"
  by (simp_all add: src_le_def rn_count_def Let_def)

lemma r_step_all [flow]: "src_le n r \<Longrightarrow> rflow_all (src_le n) (r_step f r)"
  by (auto simp: r_step_def split: flow.split)

lemma on_rread_all [flow]: "src_le n r \<Longrightarrow> (\<And>st r'. src_le n r' \<Longrightarrow> rflow_all (src_le n) (k st r')) \<Longrightarrow>
  rflow_all (src_le n) (on_rread (rn_read off c r) k)"
  by (cases "rn_read off c r") (auto dest!: rn_read_size simp: src_le_def)

lemma rn_sync_all: "src_le n r \<Longrightarrow> rflow_all (src_le n) (rn_sync r)"
proof (induction r rule: rn_sync.induct)
  case (1 r)
  show ?case
  proof (cases "readsbn (pm_buf (rn_pm r)) (pm_sbn (rn_pm r))")
    case None
    then show ?thesis by (subst rn_sync.simps) simp
  next
    case (Some x)
    obtain st h where x: "x = (st, h)" by (cases x)
    let ?s = "(rn_pm r)\<lparr>pm_sbn := h\<rparr>"
    let ?I = "Suc (length (takeWhile (\<lambda>b. b \<noteq> 255) (take 15 (drop 1 (pm_buf ?s)))))"
    let ?r = "r\<lparr>rn_pm := ?s\<lparr>pm_buf := blit (pm_buf ?s) 0 (take (16 - ?I) (drop ?I (pm_buf ?s)))\<rparr>\<rparr>"
    let ?g = "rn_read (16 - ?I) (int ?I) ?r"
    have s: "rn_sync r = (if st = 0 then RGo (r\<lparr>rn_pm := ?s\<rparr>) else if 15 < ?I then RCont (r\<lparr>rn_pm := ?s\<rparr>)
        else (case ?g of RGot st r2 \<Rightarrow> if st \<noteq> 0 then RCont r2 else rn_sync r2 | RForever r2 \<Rightarrow> RWait r2 | ROverrun \<Rightarrow> RCrash))"
      by (subst rn_sync.simps) (simp only: Some x Let_def option.case prod.case)
    show ?thesis
    proof (cases "st = 0 \<or> 15 < ?I")
      case True
      with "1.prems" show ?thesis unfolding s by auto
    next
      case False
      then have s': "rn_sync r = (case ?g of RGot st r2 \<Rightarrow> if st \<noteq> 0 then RCont r2 else rn_sync r2 | RForever r2 \<Rightarrow> RWait r2 | ROverrun \<Rightarrow> RCrash)"
        unfolding s by simp
      show ?thesis
      proof (cases ?g)
        case (RGot st2 r2)
        have i2: "src_le n r2" using rn_read_size [OF RGot] "1.prems" by (simp add: src_le_def)
        have "rflow_all (src_le n) (rn_sync r2)" if "st2 = 0"
          using "1.IH" [OF Some x [symmetric] refl _ refl _ RGot] False that i2 by simp
        with i2 RGot show ?thesis unfolding s' by simp
      qed (simp_all add: s')
    qed
  qed
qed

lemma rn_begin_all: "src_le n r \<Longrightarrow> rflow_all (src_le n) (rn_begin E r)"
  unfolding rn_begin_def Let_def by (auto intro!: flow)

lemma rn_psh_header_all: "src_le n r \<Longrightarrow> rflow_all (src_le n) (rn_psh_header r)"
  unfolding rn_psh_header_def Let_def by (auto intro!: flow)

lemma rn_continuation_all: "src_le n r \<Longrightarrow> rflow_all (src_le n) (rn_continuation r)"
  unfolding rn_continuation_def Let_def by (auto intro!: flow)

lemma rn_header_all: "src_le n r \<Longrightarrow> rflow_all (src_le n) (rn_header r)"
  unfolding rn_header_def Let_def by (auto intro!: flow split: option.split)

lemma rn_start_product_all: "src_le n r \<Longrightarrow> rflow_all (src_le n) (rn_start_product E r)"
  unfolding rn_start_product_def
  by (intro r_bind_all) (auto intro!: r_step_all intro: rn_psh_header_all rn_begin_all)

lemma rn_body_all: "src_le n r \<Longrightarrow> rflow_all (src_le n)
    (r_bind (r_step pm_classify (rn_count r)) (\<lambda>r2.
     r_bind (rn_header r2) (\<lambda>r3.
     r_bind (if pdh_pshlen (pm_pdh (rn_pm r3)) \<noteq> 0 then rn_start_product E r3 else rn_continuation r3) (\<lambda>r4.
     r_bind (r_step (pm_fragment E) r4) (\<lambda>r5.
     r_bind (r_step (\<lambda>s5. if GOES s5 then pm_goes_data E s5 else pm_nwstg_data E s5) r5) (\<lambda>r6.
     r_bind (r_step pm_link r6) (\<lambda>r7.
     r_step (pm_finish E) r7)))))))"
  by (intro r_bind_all) (auto intro!: r_step_all intro: rn_header_all rn_start_product_all rn_continuation_all)

text \<open>The states after which the loop goes on.\<close>

fun rflow_next :: "(rn \<Rightarrow> bool) \<Rightarrow> rflow \<Rightarrow> bool" where
  "rflow_next P (RGo r) = P r"
| "rflow_next P (RCont r) = P r"
| "rflow_next P _ = True"

lemma rflow_nextI: "rflow_all P f \<Longrightarrow> rflow_next P f"
  by (cases f) auto

lemma rn_packet_next: "rflow_next (\<lambda>r'. src_size (rn_src r') < src_size (rn_src r)) (rn_packet E r)"
proof (cases "rn_read 0 1 r")
  case (RGot st r1)
  show ?thesis
  proof (cases "st = 0")
    case True
    let ?n = "src_size (rn_src r1)"
    have l: "?n < src_size (rn_src r)" using rn_read_size [OF RGot] True by simp
    have i: "src_le ?n r1" by (simp add: src_le_def)
    have "rflow_all (src_le ?n) (rn_first r)"
      unfolding rn_first_def RGot on_rread.simps using True i
      by (auto intro!: on_rread_all r_bind_all rn_sync_all)
    then have "rflow_all (src_le ?n) (rn_packet E r)"
      unfolding rn_packet_def by (rule r_bind_all) (rule rn_body_all)
    then have "rflow_next (src_le ?n) (rn_packet E r)" by (rule rflow_nextI)
    with l show ?thesis by (cases "rn_packet E r") (auto simp: src_le_def)
  next
    case False
    then show ?thesis by (simp add: rn_packet_def rn_first_def RGot)
  qed
qed (simp_all add: rn_packet_def rn_first_def)

section \<open>The loop\<close>

datatype rn_result = REnded rn | RAborted rn | RWaiting rn | RUndefined

function rn_loop :: "pm_env \<Rightarrow> rn \<Rightarrow> rn_result" where
  "rn_loop E r =
     (if rn_DONE r then REnded r
      else case rn_packet E r of
             RGo r' \<Rightarrow> rn_loop E r'
           | RCont r' \<Rightarrow> rn_loop E r'
           | REnd r' \<Rightarrow> REnded r'
           | RAbort r' \<Rightarrow> RAborted r'
           | RWait r' \<Rightarrow> RWaiting r'
           | RCrash \<Rightarrow> RUndefined)"
  by pat_completeness auto

termination
proof (relation "measure (\<lambda>(E, r). src_size (rn_src r))")
  show "((E, r'), E, r) \<in> measure (\<lambda>(E, r). src_size (rn_src r))" if "rn_packet E r = RGo r'" for E r r'
    using rn_packet_next [of r E] that by simp
  show "((E, r'), E, r) \<in> measure (\<lambda>(E, r). src_size (rn_src r))" if "rn_packet E r = RCont r'" for E r r'
    using rn_packet_next [of r E] that by simp
qed simp

declare rn_loop.simps [simp del]

end
