(* ===== verification/Rn_Simulation.thy ===== *)
theory Rn_Simulation
  imports Readnoaaport
begin

text \<open>
  \<open>readnoaaport\<close> and the product-maker build the same products from the same bytes. The loops are related step by
  step: their states agree on everything but the input and the counters (\<open>same_product\<close>), the parts that do not
  read are blind to that difference (\<open>blind\<close>), and a read of either takes the same bytes to the same place.
\<close>

section \<open>Steps that do not look at the input or the counters\<close>

type_synonym pm_io = "byte list \<times> nat \<times> nat \<times> nat \<times> nat \<times> nat \<times> int"

fun put_io :: "pm_io \<Rightarrow> pm \<Rightarrow> pm" where
  "put_io (i, n, a, b, c, d, e) s =
     s\<lparr>pm_inp := i, pm_reads := n, npackets := a, nmissed := b, last_sbn_seqno := c, last_sbn_runno := d, pm_status := e\<rparr>"

definition get_io :: "pm \<Rightarrow> pm_io" where
  "get_io s = (pm_inp s, pm_reads s, npackets s, nmissed s, last_sbn_seqno s, last_sbn_runno s, pm_status s)"

lemma put_get_io [simp]: "put_io (get_io s) s = s" "put_io x (put_io y s) = put_io x s" "get_io (put_io x s) = x"
  by (cases x; cases y; simp add: get_io_def)+

lemma put_io_fields [simp]:
  "pm_sbn (put_io x s) = pm_sbn s" "pm_pdh (put_io x s) = pm_pdh s" "pm_psh (put_io x s) = pm_psh s"
  "pm_pdb (put_io x s) = pm_pdb s" "pm_ccb (put_io x s) = pm_ccb s" "pm_buf (put_io x s) = pm_buf s"
  "nprods (put_io x s) = nprods s" "PNGINIT (put_io x s) = PNGINIT s" "pm_png (put_io x s) = pm_png s"
  "pm_heap (put_io x s) = pm_heap s" "pm_hgen (put_io x s) = pm_hgen s" "pm_md5 (put_io x s) = pm_md5 s"
  "prod_seqno (put_io x s) = prod_seqno s" "prod_nfrag (put_io x s) = prod_nfrag s"
  "prod_head (put_io x s) = prod_head s" "prod_tail (put_io x s) = prod_tail s" "pm_ds (put_io x s) = pm_ds s"
  "NWSTG (put_io x s) = NWSTG s" "GOES (put_io x s) = GOES s" "PROD_COMPRESSED (put_io x s) = PROD_COMPRESSED s"
  "heapcount (put_io x s) = heapcount s" "heapsize (put_io x s) = heapsize s" "PROD_NAME (put_io x s) = PROD_NAME s"
  "dataoff (put_io x s) = dataoff s" "datalen (put_io x s) = datalen s" "deflen (put_io x s) = deflen s"
  "pfrag (put_io x s) = pfrag s" "pm_statics (put_io x s) = pm_statics s" "pm_rb (put_io x s) = pm_rb s"
  "pm_uncompr (put_io x s) = pm_uncompr s" "pm_queue (put_io x s) = pm_queue s"
  by (cases x; simp)+

text \<open>Updates of the other fields commute with it; the rules move it outwards.\<close>

lemma put_io_upd [simp]:
  "(put_io x s)\<lparr>pm_sbn := a1\<rparr> = put_io x (s\<lparr>pm_sbn := a1\<rparr>)" "(put_io x s)\<lparr>pm_pdh := a2\<rparr> = put_io x (s\<lparr>pm_pdh := a2\<rparr>)"
  "(put_io x s)\<lparr>pm_psh := a3\<rparr> = put_io x (s\<lparr>pm_psh := a3\<rparr>)" "(put_io x s)\<lparr>pm_pdb := a4\<rparr> = put_io x (s\<lparr>pm_pdb := a4\<rparr>)"
  "(put_io x s)\<lparr>pm_ccb := a5\<rparr> = put_io x (s\<lparr>pm_ccb := a5\<rparr>)" "(put_io x s)\<lparr>pm_buf := a6\<rparr> = put_io x (s\<lparr>pm_buf := a6\<rparr>)"
  "(put_io x s)\<lparr>nprods := a7\<rparr> = put_io x (s\<lparr>nprods := a7\<rparr>)" "(put_io x s)\<lparr>PNGINIT := a8\<rparr> = put_io x (s\<lparr>PNGINIT := a8\<rparr>)"
  "(put_io x s)\<lparr>pm_png := a9\<rparr> = put_io x (s\<lparr>pm_png := a9\<rparr>)" "(put_io x s)\<lparr>pm_heap := b1\<rparr> = put_io x (s\<lparr>pm_heap := b1\<rparr>)"
  "(put_io x s)\<lparr>pm_hgen := b2\<rparr> = put_io x (s\<lparr>pm_hgen := b2\<rparr>)" "(put_io x s)\<lparr>pm_md5 := b3\<rparr> = put_io x (s\<lparr>pm_md5 := b3\<rparr>)"
  "(put_io x s)\<lparr>prod_seqno := b4\<rparr> = put_io x (s\<lparr>prod_seqno := b4\<rparr>)" "(put_io x s)\<lparr>prod_nfrag := b5\<rparr> = put_io x (s\<lparr>prod_nfrag := b5\<rparr>)"
  "(put_io x s)\<lparr>prod_head := b6\<rparr> = put_io x (s\<lparr>prod_head := b6\<rparr>)" "(put_io x s)\<lparr>prod_tail := b7\<rparr> = put_io x (s\<lparr>prod_tail := b7\<rparr>)"
  "(put_io x s)\<lparr>pm_ds := b8\<rparr> = put_io x (s\<lparr>pm_ds := b8\<rparr>)" "(put_io x s)\<lparr>NWSTG := b9\<rparr> = put_io x (s\<lparr>NWSTG := b9\<rparr>)"
  "(put_io x s)\<lparr>GOES := c1\<rparr> = put_io x (s\<lparr>GOES := c1\<rparr>)" "(put_io x s)\<lparr>PROD_COMPRESSED := c2\<rparr> = put_io x (s\<lparr>PROD_COMPRESSED := c2\<rparr>)"
  "(put_io x s)\<lparr>heapcount := c3\<rparr> = put_io x (s\<lparr>heapcount := c3\<rparr>)" "(put_io x s)\<lparr>heapsize := c4\<rparr> = put_io x (s\<lparr>heapsize := c4\<rparr>)"
  "(put_io x s)\<lparr>PROD_NAME := c5\<rparr> = put_io x (s\<lparr>PROD_NAME := c5\<rparr>)" "(put_io x s)\<lparr>dataoff := c6\<rparr> = put_io x (s\<lparr>dataoff := c6\<rparr>)"
  "(put_io x s)\<lparr>datalen := c7\<rparr> = put_io x (s\<lparr>datalen := c7\<rparr>)" "(put_io x s)\<lparr>deflen := c8\<rparr> = put_io x (s\<lparr>deflen := c8\<rparr>)"
  "(put_io x s)\<lparr>pfrag := c9\<rparr> = put_io x (s\<lparr>pfrag := c9\<rparr>)" "(put_io x s)\<lparr>pm_statics := d1\<rparr> = put_io x (s\<lparr>pm_statics := d1\<rparr>)"
  "(put_io x s)\<lparr>pm_rb := d2\<rparr> = put_io x (s\<lparr>pm_rb := d2\<rparr>)" "(put_io x s)\<lparr>pm_uncompr := d3\<rparr> = put_io x (s\<lparr>pm_uncompr := d3\<rparr>)"
  "(put_io x s)\<lparr>pm_queue := d4\<rparr> = put_io x (s\<lparr>pm_queue := d4\<rparr>)"
  by (cases x; simp)+

declare put_io.simps [simp del]

fun flow_map :: "(pm \<Rightarrow> pm) \<Rightarrow> flow \<Rightarrow> flow" where
  "flow_map f (Go s) = Go (f s)"
| "flow_map f (Cont s) = Cont (f s)"
| "flow_map f (Halt n s) = Halt n (f s)"
| "flow_map f (Wait s) = Wait (f s)"
| "flow_map f Crash = Crash"

definition blind :: "(pm \<Rightarrow> flow) \<Rightarrow> bool" where
  "blind f \<longleftrightarrow> (\<forall>x s. f (put_io x s) = flow_map (put_io x) (f s) \<and> (\<forall>n t. f s \<noteq> Halt n t) \<and> (\<forall>t. f s \<noteq> Wait t))"

lemma blindI: "(\<And>x s. f (put_io x s) = flow_map (put_io x) (f s)) \<Longrightarrow> (\<And>s n t. f s \<noteq> Halt n t) \<Longrightarrow> (\<And>s t. f s \<noteq> Wait t) \<Longrightarrow> blind f"
  unfolding blind_def by blast

lemma go_io [simp]: "go (map_option (put_io x) r) = flow_map (put_io x) (go r)"
  by (cases r) simp_all

lemma go_ends [simp]: "go r \<noteq> Halt n t" "go r \<noteq> Wait t"
  by (cases r; simp)+

lemma blind_classify: "blind pm_classify"
  by (rule blindI) (auto simp: pm_classify_def Let_def)

lemma blind_vet: "blind pm_vet"
  by (rule blindI) (auto simp: pm_vet_def Let_def)

lemma heap_mem_io [simp]: "heap_mem (put_io x s) = heap_mem s" "set_heap_mem m (put_io x s) = put_io x (set_heap_mem m s)"
  by (simp_all add: heap_mem_def set_heap_mem_def)

lemma map_io: "map_option f (map_option (put_io x) r) = map_option (put_io x) (map_option g r)" if "\<And>s. f (put_io x s) = put_io x (g s)"
  using that by (cases r) simp_all

lemma heap_put_io [simp]: "heap_put off d (put_io x s) = map_option (put_io x) (heap_put off d s)"
  by (simp add: heap_put_def option.map_comp o_def)

lemma with_png_io [simp]: "with_png f (put_io x s) = map_option (put_io x) (with_png f s)"
  by (simp add: with_png_def option.map_comp o_def case_prod_unfold)

lemma heap_append_io [simp]: "heap_append (put_io x s) = map_option (put_io x) (heap_append s)"
  by (simp add: heap_append_def map_option_bind o_def bind_map_option cong: Option.bind_cong)

lemma pm_free_io [simp]: "pm_free (put_io x s) = put_io x (pm_free s)"
  by (simp add: pm_free_def)

lemma pm_alloc_io [simp]: "pm_alloc E n (put_io x s) = put_io x (pm_alloc E n s)"
  by (simp add: pm_alloc_def split: prod.split)

lemma blockoff_io [simp]: "blockoff (put_io x s) = blockoff s" "last_frag (put_io x s) = last_frag s"
  "follows_tail (put_io x s) = follows_tail s"
  by (simp_all add: blockoff_def last_frag_def follows_tail_def)

lemma cont_setup_io: "cont_setup (put_io x s) = put_io x (cont_setup s)"
  by (simp add: cont_setup_def Let_def)

lemma blind_abandon: "blind (pm_abandon E)"
  by (rule blindI) (auto simp: pm_abandon_def Let_def option.map_comp o_def simp flip: go_io)

lemma blind_goes_start: "blind (pm_goes_start E)"
  by (rule blindI) (auto simp: pm_goes_start_def Let_def split: option.split)

lemma blind_nwstg_start: "blind (pm_nwstg_start E)"
  by (rule blindI) (auto simp: pm_nwstg_start_def Let_def option.map_comp o_def split: option.split simp flip: go_io cong: if_cong)

lemma blind_fragment: "blind (pm_fragment E)"
  by (rule blindI) (auto simp: pm_fragment_def Let_def option.map_comp o_def split: option.split prod.split simp flip: go_io)

lemma blind_goes_data: "blind (pm_goes_data E)"
  by (rule blindI) (auto simp: pm_goes_data_def Let_def option.map_comp o_def map_option_bind bind_map_option split: option.split simp flip: go_io)

lemma blind_nwstg_data: "blind (pm_nwstg_data E)"
  by (rule blindI) (auto simp: pm_nwstg_data_def Let_def option.map_comp o_def split: option.split simp flip: go_io)

lemma blind_link: "blind pm_link"
proof (rule blindI)
  show "pm_link (put_io x s) = flow_map (put_io x) (pm_link s)" for x s
    by (cases "prod_head s") (simp_all add: pm_link_def Let_def o_def map_option_bind flip: go_io)
qed (simp_all add: pm_link_def)

lemma pm_trailer_io [simp]: "pm_trailer (put_io x s) = map_option (put_io x) (pm_trailer s)"
proof (cases "prod_isascii (take (heapcount s) (heap_mem s))")
  case None
  then show ?thesis by (auto simp: pm_trailer_def o_def map_option_bind bind_map_option)
next
  case (Some ok)
  then show ?thesis by (cases ok) (auto simp: pm_trailer_def o_def map_option_bind bind_map_option)
qed

lemma pm_insert_io [simp]: "pm_insert E (put_io x s) = map_option (put_io x) (pm_insert E s)"
  by (simp add: pm_insert_def option.map_comp o_def map_option_bind case_prod_unfold cong: option.case_cong)

lemma pm_end_io [simp]: "pm_end_image E (put_io x s) = map_option (put_io x) (pm_end_image E s)"
  "pm_end_text (put_io x s) = map_option (put_io x) (pm_end_text s)"
  by (simp_all add: pm_end_image_def pm_end_text_def option.map_comp o_def)

lemma blind_finish: "blind (pm_finish E)"
  by (rule blindI) (auto simp: pm_finish_def bind_map_option o_def map_option_bind simp flip: go_io)

section \<open>Related states\<close>

text \<open>Shared memory whose FIFO reports no error; records without data and returns without a record are allowed.\<close>

fun no_failure :: "rsource \<Rightarrow> bool" where
  "no_failure (Shm rs left) = (GetFailed \<notin> set rs)"
| "no_failure (Fd es) = False"

definition same_product :: "pm \<Rightarrow> rn \<Rightarrow> bool" where
  "same_product p r \<longleftrightarrow> rn_pm r = put_io (get_io (rn_pm r)) p \<and> src_bytes (rn_src r) = pm_inp p \<and> no_failure (rn_src r) \<and> \<not> rn_DONE r"

lemma same_productI: "rn_pm r = put_io x p \<Longrightarrow> src_bytes (rn_src r) = pm_inp p \<Longrightarrow> no_failure (rn_src r) \<Longrightarrow> \<not> rn_DONE r \<Longrightarrow> same_product p r"
  by (simp add: same_product_def)

lemma same_productE: assumes "same_product p r"
  obtains x where "rn_pm r = put_io x p" "src_bytes (rn_src r) = pm_inp p" "no_failure (rn_src r)" "\<not> rn_DONE r"
  using assms unfolding same_product_def by blast

text \<open>The product-maker cannot go on either, with the same products made.\<close>

definition stuck :: "product list \<Rightarrow> flow \<Rightarrow> bool" where
  "stuck q pf \<longleftrightarrow> (\<exists>p. (pf = Wait p \<or> pf = Cont p \<and> pm_inp p = [] \<or> pf = Halt 0 p) \<and> pm_queue p = q)"

fun sim :: "flow \<Rightarrow> rflow \<Rightarrow> bool" where
  "sim pf (RGo r) = (\<exists>p. pf = Go p \<and> same_product p r)"
| "sim pf (RCont r) = (\<exists>p. pf = Cont p \<and> same_product p r)"
| "sim pf (RWait r) = stuck (pm_queue (rn_pm r)) pf"
| "sim pf RCrash = True"
| "sim pf (REnd r) = False"
| "sim pf (RAbort r) = False"

lemma sim_bind: "sim pf rf \<Longrightarrow> (\<And>p r. pf = Go p \<Longrightarrow> same_product p r \<Longrightarrow> sim (kp p) (kr r)) \<Longrightarrow> sim (flow_bind pf kp) (r_bind rf kr)"
  by (cases rf) (auto simp: stuck_def)

lemma blind_io: "blind f \<Longrightarrow> f s = Go t \<or> f s = Cont t \<Longrightarrow> get_io t = get_io s"
proof -
  assume b: "blind f" and t: "f s = Go t \<or> f s = Cont t"
  have "f (put_io (get_io s) s) = flow_map (put_io (get_io s)) (f s)" using b unfolding blind_def by blast
  then have "f s = flow_map (put_io (get_io s)) (f s)" by simp
  with t have "t = put_io (get_io s) t" by auto
  then have "get_io t = get_io (put_io (get_io s) t)" by (rule arg_cong)
  then show ?thesis by simp
qed

lemma sim_step:
  assumes b: "blind f" and m: "same_product p r"
  shows "sim (f p) (r_step f r)"
proof -
  from m obtain x where x: "rn_pm r = put_io x p" "src_bytes (rn_src r) = pm_inp p" "no_failure (rn_src r)" "\<not> rn_DONE r"
    by (rule same_productE)
  have f: "f (rn_pm r) = flow_map (put_io x) (f p)" using b unfolding x(1) blind_def by blast
  have e: "\<And>n t. f p \<noteq> Halt n t" "\<And>t. f p \<noteq> Wait t" using b unfolding blind_def by blast+
  have m': "same_product t (r\<lparr>rn_pm := put_io x t\<rparr>)" if "f p = Go t \<or> f p = Cont t" for t
    using blind_io [OF b that] x by (intro same_productI [where x = x]) (simp_all add: get_io_def)
  show ?thesis
    using f e m' by (cases "f p") (auto simp: r_step_def)
qed

section \<open>Reading\<close>

lemma shm_take_no_failure: "shm_take n rs left = (st, d, (rs', left')) \<Longrightarrow> GetFailed \<notin> set rs \<Longrightarrow>
  GetFailed \<notin> set rs' \<and> (st = Some 0 \<or> st = None \<and> rs' = [] \<and> left' = [] \<and> length d < n)"
proof (induction n rs left arbitrary: st d rs' left' rule: shm_take.induct)
  case (1 n rs left)
  consider "n = 0" | "n \<noteq> 0" "left = []" | "n \<noteq> 0" "left \<noteq> []" by blast
  then show ?case
  proof cases
    case 1
    with "1.prems" show ?thesis by (auto simp: shm_take.simps [of 0])
  next
    case 2
    show ?thesis
    proof (cases rs)
      case Nil
      with 2 "1.prems" show ?thesis by (auto simp: shm_take.simps [of n "[]" "[]"])
    next
      case (Cons r rs1)
      with "1.prems" have ok: "GetFailed \<notin> set rs1" "r \<noteq> GetFailed" by auto
      show ?thesis
      proof (cases r)
        case (Record e)
        have "shm_take n rs1 e = (st, d, (rs', left'))"
          using "1.prems" 2 Cons Record by (simp add: shm_take.simps [of n "Record e # rs1" "[]"])
        from "1.IH"(1) [OF 2 Cons Record this ok(1)] show ?thesis .
      next
        case NoRecord
        have "shm_take n rs1 [] = (st, d, (rs', left'))"
          using "1.prems" 2 Cons NoRecord by (simp add: shm_take.simps [of n "NoRecord # rs1" "[]"])
        from "1.IH"(2) [OF 2 Cons NoRecord this ok(1)] show ?thesis .
      qed (use ok in simp)
    qed
  next
    case 3
    let ?k = "min n (length left)"
    obtain st1 d1 rs1 left1 where t: "shm_take (n - ?k) rs (drop ?k left) = (st1, d1, (rs1, left1))"
      by (cases "shm_take (n - ?k) rs (drop ?k left)") auto
    have e: "st = st1" "d = take ?k left @ d1" "rs' = rs1" "left' = left1"
      using "1.prems" 3 t by (simp_all add: shm_take.simps [of n rs left] Let_def)
    from "1.IH"(3) [OF 3 refl t "1.prems"(2)] show ?thesis using e by auto
  qed
qed

lemma sim_read:
  assumes m: "same_product p r" and E: "65536 \<le> e_fz E" "e_fz E < 2 ^ 63" "\<And>k. \<not> e_oserr E k" "\<And>k. \<not> e_closed E k"
    and n: "- (2 ^ 31) \<le> n" "n < 65536" and c: "c = to_size n"
    and k: "\<And>st st' p' r'. same_product p' r' \<Longrightarrow> (st = 0 \<longleftrightarrow> st' = 0) \<Longrightarrow> pm_pdh p' = pm_pdh p \<Longrightarrow>
      rn_read off n r = RGot st' r' \<Longrightarrow> (st \<noteq> 0 \<longrightarrow> n < 0) \<Longrightarrow> sim (kp st p') (kr st' r')"
    and w: "\<And>p'. pm_inp p' = [] \<Longrightarrow> pm_queue p' = pm_queue p \<Longrightarrow> stuck (pm_queue p) (kp 3 p')"
  shows "sim (on_read (pm_read E off c p) kp) (on_rread (rn_read off n r) kr)"
proof -
  obtain x where x: "rn_pm r = put_io x p" using m by (rule same_productE)
  obtain rs left where src: "rn_src r = Shm rs left" "GetFailed \<notin> set rs"
    using m by (cases "rn_src r") (auto simp: same_product_def)
  have inp: "pm_inp p = left @ concat (map reply_bytes rs)" and nd: "\<not> rn_DONE r"
    using m src by (simp_all add: same_product_def)
  show ?thesis
  proof (cases "n < 0")
    case True
    have "2 ^ 63 \<le> to_size n" using n True by (intro to_size_neg) simp_all
    then have pr: "pm_read E off (to_size n) p = Got 1 (p\<lparr>pm_reads := pm_reads p + 1\<rparr>)"
      using E by (simp add: pm_read_def stream_read_def Let_def)
    have b: "bufread n (rn_src r) = (Some (- 1), [], (rn_src r, False))"
      using True src by (simp add: bufread_def shm_bufread_def)
    show ?thesis
    proof (cases "mem_write (pm_buf p) off []")
      case None
      then show ?thesis by (simp add: rn_read_def b x)
    next
      case (Some cb)
      then have "cb = pm_buf p" by (auto simp: mem_write_def blit_def split: if_splits)
      then have rr: "rn_read off n r = RGot (- 1) r" using Some nd by (simp add: rn_read_def b x Let_def)
      have "p\<lparr>pm_reads := pm_reads p + 1\<rparr> = put_io (pm_inp p, pm_reads p + 1, npackets p, nmissed p, last_sbn_seqno p, last_sbn_runno p, pm_status p) p"
        by (simp add: put_io.simps)
      then have "rn_pm r = put_io x (p\<lparr>pm_reads := pm_reads p + 1\<rparr>)" using x by simp
      then have "same_product (p\<lparr>pm_reads := pm_reads p + 1\<rparr>) r" using m src by (intro same_productI [where x = x]) (simp_all add: same_product_def)
      then show ?thesis unfolding c pr rr using rr True by (simp add: k)
    qed
  next
    case False
    have ts: "to_size n = nat n" using n False by (simp add: to_size_def)
    obtain st d rs' left' where t: "shm_take (nat n) rs left = (st, d, (rs', left'))"
      by (cases "shm_take (nat n) rs left") auto
    have b: "bufread n (rn_src r) = (st, d, (Shm rs' left', False))"
      using False src t by (simp add: bufread_def shm_bufread_def)
    note bt = shm_take_bytes [OF t] and nf = shm_take_no_failure [OF t src(2)]
    show ?thesis
    proof (cases "mem_write (pm_buf p) off d")
      case None
      then show ?thesis by (simp add: rn_read_def b x)
    next
      case (Some cb)
      let ?r = "r\<lparr>rn_pm := put_io x (p\<lparr>pm_buf := cb\<rparr>), rn_src := Shm rs' left', rn_DONE := False\<rparr>"
      have rr: "rn_read off n r = (case st of None \<Rightarrow> RForever ?r | Some s \<Rightarrow> RGot s ?r)"
        using Some nd by (simp add: rn_read_def b x Let_def)
      show ?thesis
      proof (cases "st = Some 0")
        case True
        have "length d = nat n" "pm_inp p = d @ left' @ concat (map reply_bytes rs')" using bt True inp by simp_all
        then have tk: "take (nat n) (pm_inp p) = d" "drop (nat n) (pm_inp p) = left' @ concat (map reply_bytes rs')"
          "nat n \<le> length (pm_inp p)" by simp_all
        have "\<not> (pm_inp p = [] \<and> nat n \<noteq> 0)" using tk(3) by auto
        let ?p = "p\<lparr>pm_reads := pm_reads p + 1, pm_buf := cb, pm_inp := left' @ concat (map reply_bytes rs')\<rparr>"
        have pr: "pm_read E off (to_size n) p = Got 0 ?p"
          using E n Some tk unfolding ts by (auto simp: pm_read_def stream_read_def Let_def)
        have "put_io x (p\<lparr>pm_buf := cb\<rparr>) = put_io x ?p" by (cases x) (simp add: put_io.simps)
        then have "same_product ?p ?r" using nf nd by (intro same_productI [where x = x]) simp_all
        moreover have r0: "rn_read off n r = RGot 0 ?r" using rr True by simp
        ultimately show ?thesis unfolding c pr r0 using r0 by (simp add: k)
      next
        case False
        then have e: "st = None" "rs' = []" "left' = []" "length d < nat n" using nf by auto
        then have ip: "pm_inp p = d" using bt inp by simp
        let ?p = "p\<lparr>pm_reads := pm_reads p + 1\<rparr>"
        have pr: "pm_read E off (to_size n) p = (if d = [] then Got 3 ?p else Forever ?p)"
          using E n e(4) ip unfolding ts by (auto simp: pm_read_def stream_read_def Let_def)
        have "stuck (pm_queue p) (on_read (pm_read E off c p) kp)"
          unfolding c pr using w [of ?p] ip by (simp add: stuck_def)
        then show ?thesis unfolding rr by (simp add: e)
      qed
    qed
  qed
qed

section \<open>The loops\<close>

definition fifo_env :: "pm_env \<Rightarrow> bool" where
  "fifo_env E \<longleftrightarrow> 65536 \<le> e_fz E \<and> e_fz E < 2 ^ 63 \<and> (\<forall>k. \<not> e_oserr E k) \<and> (\<forall>k. \<not> e_closed E k)"

lemma fifo_envD: "fifo_env E \<Longrightarrow> 65536 \<le> e_fz E" "fifo_env E \<Longrightarrow> e_fz E < 2 ^ 63" "fifo_env E \<Longrightarrow> \<not> e_oserr E k"
  "fifo_env E \<Longrightarrow> \<not> e_closed E k"
  by (simp_all add: fifo_env_def)

text \<open>A read of a fixed number of bytes, and one whose length comes from a header.\<close>

lemma sim_read_cont:
  assumes "same_product p r" "fifo_env E" "- (2 ^ 31) \<le> n" "n < 65536" "m = to_size n"
    and "\<And>p' r'. same_product p' r' \<Longrightarrow> pm_pdh p' = pm_pdh p \<Longrightarrow> rn_read off n r = RGot 0 r' \<Longrightarrow> sim (kp p') (kr r')"
  shows "sim (on_read (pm_read E off m p) (\<lambda>st p'. if st \<noteq> 0 then Cont p' else kp p'))
    (on_rread (rn_read off n r) (\<lambda>st r'. if st \<noteq> 0 then RCont r' else kr r'))"
  by (rule sim_read [OF assms(1) fifo_envD [OF assms(2)] assms(3-5)]) (use assms(6) in \<open>auto simp: stuck_def\<close>)

lemma sim_same:
  assumes "same_product p r"
  shows "pm_sbn (rn_pm r) = pm_sbn p" "pm_pdh (rn_pm r) = pm_pdh p" "pm_buf (rn_pm r) = pm_buf p" "pm_psh (rn_pm r) = pm_psh p"
    "pm_ds (rn_pm r) = pm_ds p" "pm_queue (rn_pm r) = pm_queue p" "prod_head (rn_pm r) = prod_head p" "blockoff (rn_pm r) = blockoff p"
  using assms by (auto elim: same_productE)

lemma sim_upd: "same_product p r \<Longrightarrow> (\<And>x. f (put_io x p) = put_io x (f p)) \<Longrightarrow> pm_inp (f p) = pm_inp p \<Longrightarrow>
  same_product (f p) (r\<lparr>rn_pm := f (rn_pm r)\<rparr>)"
proof (elim same_productE)
  fix x assume "\<And>x. f (put_io x p) = put_io x (f p)" "pm_inp (f p) = pm_inp p" "rn_pm r = put_io x p" "src_bytes (rn_src r) = pm_inp p"
    "no_failure (rn_src r)" "\<not> rn_DONE r"
  then show ?thesis by (intro same_productI [where x = x]) simp_all
qed

lemma sim_sync: "same_product p r \<Longrightarrow> fifo_env E \<Longrightarrow> sim (sbn_sync E p) (rn_sync r)"
proof (induction "src_size (rn_src r)" arbitrary: p r rule: less_induct)
  case less
  note e = sim_same [OF less.prems(1)]
  show ?case
  proof (cases "readsbn (pm_buf p) (pm_sbn p)")
    case None
    then show ?thesis by (subst rn_sync.simps) (simp add: e)
  next
    case (Some x)
    obtain st h where x: "x = (st, h)" by (cases x)
    let ?I = "Suc (length (takeWhile (\<lambda>b. b \<noteq> 255) (take 15 (drop 1 (pm_buf p)))))"
    let ?f = "\<lambda>s. s\<lparr>pm_sbn := h\<rparr>"
    let ?g = "\<lambda>s. s\<lparr>pm_sbn := h, pm_buf := blit (pm_buf s) 0 (take (16 - ?I) (drop ?I (pm_buf s)))\<rparr>"
    let ?r = "r\<lparr>rn_pm := ?g (rn_pm r)\<rparr>"
    have f: "same_product (?f p) (r\<lparr>rn_pm := ?f (rn_pm r)\<rparr>)" by (rule sim_upd [OF less.prems(1), of ?f]) simp_all
    have g: "same_product (?g p) ?r" by (rule sim_upd [OF less.prems(1), of ?g]) simp_all
    have r: "rn_sync r = (if st = 0 then RGo (r\<lparr>rn_pm := ?f (rn_pm r)\<rparr>) else if 15 < ?I then RCont (r\<lparr>rn_pm := ?f (rn_pm r)\<rparr>)
        else on_rread (rn_read (16 - ?I) (int ?I) ?r) (\<lambda>st r2. if st \<noteq> 0 then RCont r2 else rn_sync r2))"
      by (subst rn_sync.simps) (cases "rn_read (16 - ?I) (int ?I) ?r"; simp add: Some x e Let_def)
    have p: "sbn_sync E p = (if st = 0 then Go (?f p) else if 15 < ?I then Cont (?f p)
        else on_read (pm_read E (16 - ?I) ?I (?g p)) (\<lambda>st p2. if st \<noteq> 0 then Cont p2 else sbn_sync E p2))"
      by (subst sbn_sync.simps) (cases "pm_read E (16 - ?I) ?I (?g p)"; simp add: Some x Let_def)
    show ?thesis
    proof (cases "st = 0 \<or> 15 < ?I")
      case True
      with f show ?thesis unfolding r p by auto
    next
      case False
      have "sim (on_read (pm_read E (16 - ?I) ?I (?g p)) (\<lambda>st p2. if st \<noteq> 0 then Cont p2 else sbn_sync E p2))
          (on_rread (rn_read (16 - ?I) (int ?I) ?r) (\<lambda>st r2. if st \<noteq> 0 then RCont r2 else rn_sync r2))"
      proof (rule sim_read_cont [OF g less.prems(2)])
        fix p' r' assume m: "same_product p' r'" and g: "rn_read (16 - ?I) (int ?I) ?r = RGot 0 r'"
        from rn_read_size [OF g] False have "src_size (rn_src r') < src_size (rn_src r)" by simp
        then show "sim (sbn_sync E p') (rn_sync r')" using m less.prems(2) by (rule less.hyps)
      qed (use False in \<open>simp_all add: to_size_def\<close>)
      then show ?thesis unfolding r p using False by simp
    qed
  qed
qed

lemma sim_first: "same_product p r \<Longrightarrow> fifo_env E \<Longrightarrow> sim (pm_sync E p) (rn_first r)"
proof -
  assume m: "same_product p r" and E: "fifo_env E"
  have 16: "sim (on_read (pm_read E 16 16 p4) (\<lambda>st s4. if st \<noteq> 0 then Cont s4 else Go s4))
      (on_rread (rn_read 16 16 r4) (\<lambda>st r4. if st \<noteq> 0 then RCont r4 else RGo r4))" if "same_product p4 r4" for p4 r4
    by (rule sim_read_cont [OF that E]) (simp_all add: to_size_def)
  have 15: "sim (on_read (pm_read E 1 15 p2) (\<lambda>st s2. if st \<noteq> 0 then Cont s2
         else flow_bind (sbn_sync E s2) (\<lambda>s3. on_read (pm_read E 16 16 s3) (\<lambda>st s4. if st \<noteq> 0 then Cont s4 else Go s4))))
      (on_rread (rn_read 1 15 r2) (\<lambda>st r2. if st \<noteq> 0 then RCont r2
         else r_bind (rn_sync r2) (\<lambda>r3. on_rread (rn_read 16 16 r3) (\<lambda>st r4. if st \<noteq> 0 then RCont r4 else RGo r4))))"
    if m2: "same_product p2 r2" for p2 r2
    by (rule sim_read_cont [OF m2 E]) (simp_all add: to_size_def sim_bind sim_sync 16 E)
  show ?thesis
    unfolding pm_sync_def rn_first_def
  proof (rule sim_read [OF m fifo_envD [OF E]])
    fix st st' :: int and p' r' assume m: "same_product p' r'" and st: "st = 0 \<longleftrightarrow> st' = 0" "st \<noteq> 0 \<longrightarrow> (1::int) < 0"
    then show "sim (if st \<noteq> 0 then Halt (if st = 3 then 0 else st) p' else if pm_buf p' ! 0 \<noteq> 255 then Cont p'
       else on_read (pm_read E 1 15 p') (\<lambda>st s2.
         if st \<noteq> 0 then Cont s2
         else flow_bind (sbn_sync E s2) (\<lambda>s3. on_read (pm_read E 16 16 s3) (\<lambda>st s4. if st \<noteq> 0 then Cont s4 else Go s4))))
      (if st' \<noteq> 0 then (if st' = - 3 then REnd r' else RAbort r') else if pm_buf (rn_pm r') ! 0 \<noteq> 255 then RCont r'
       else on_rread (rn_read 1 15 r') (\<lambda>st r2. if st \<noteq> 0 then RCont r2
         else r_bind (rn_sync r2) (\<lambda>r3. on_rread (rn_read 16 16 r3) (\<lambda>st r4. if st \<noteq> 0 then RCont r4 else RGo r4))))"
      using 15 [OF m] sim_same [OF m] by simp
  qed (auto simp: stuck_def to_size_def)
qed

lemma sim_count: "same_product p r \<Longrightarrow> same_product (pm_count p) (rn_count r)"
proof (elim same_productE)
  fix x assume x: "rn_pm r = put_io x p" "src_bytes (rn_src r) = pm_inp p" "no_failure (rn_src r)" "\<not> rn_DONE r"
  have r: "rn_pm (rn_count r) = rn_pm r" "rn_src (rn_count r) = rn_src r" "rn_DONE (rn_count r) = rn_DONE r"
    by (simp_all add: rn_count_def Let_def)
  have "\<exists>y. p = put_io y (pm_count p) \<and> pm_inp (pm_count p) = pm_inp p"
    by (intro exI [of _ "get_io p"]) (simp add: pm_count_def Let_def get_io_def put_io.simps)
  then obtain y where y: "p = put_io y (pm_count p)" "pm_inp (pm_count p) = pm_inp p" by blast
  have "put_io x p = put_io x (pm_count p)" by (subst y(1)) simp
  with x y(2) show ?thesis by (intro same_productI [where x = x]) (simp_all add: r)
qed

text \<open>The lengths a header can give.\<close>

definition small_pdh :: "pdh_struct \<Rightarrow> bool" where
  "small_pdh h \<longleftrightarrow> pdh_len h \<le> 60 \<and> - 60 \<le> pdh_pshlen h \<and> pdh_pshlen h < 65536 \<and> 0 \<le> pdh_dbsize h \<and> pdh_dbsize h < 65536"

lemma diff32: "0 \<le> l \<Longrightarrow> l \<le> 60 \<Longrightarrow> 0 \<le> w \<Longrightarrow> w < 65536 \<Longrightarrow> i32 (w - l) = w - l"
  by (intro i32_id) simp_all

lemma readpdh_small: "readpdh b old = Some (st, h) \<Longrightarrow> small_pdh h \<and> st = 0"
proof -
  assume r: "readpdh b old = Some (st, h)"
  have l: "0 \<le> uint (v::byte) mod 16 * 4 \<and> uint v mod 16 * 4 \<le> 60" for v
    using pos_mod_bound [of 16 "uint v"] pos_mod_sign [of 16 "uint v"] by simp
  have p: "- 60 \<le> i32 (be16 x y - uint (v::byte) mod 16 * 4) \<and> i32 (be16 x y - uint v mod 16 * 4) < 65536" for x y v
  proof -
    have "i32 (be16 x y - uint v mod 16 * 4) = be16 x y - uint v mod 16 * 4"
      using l [of v] be16_bounds [of x y] by (intro diff32) simp_all
    then show ?thesis using l [of v] be16_bounds [of x y] by linarith
  qed
  have d: "0 \<le> be16 x y \<and> be16 x y < 65536" for x y using be16_bounds by blast
  show ?thesis using r by (auto simp: readpdh_def Let_def bind_eq_Some_conv small_pdh_def l p d)
qed

lemma sim_header: "same_product p r \<Longrightarrow> fifo_env E \<Longrightarrow> sim (pm_header E p) (rn_header r)"
proof -
  assume m: "same_product p r" and E: "fifo_env E"
  note e = sim_same [OF m]
  show ?thesis
  proof (cases "readpdh (drop (nat (sbn_len (pm_sbn p))) (pm_buf p)) (pm_pdh p)")
    case None
    then show ?thesis by (simp add: pm_header_def rn_header_def Let_def e)
  next
    case (Some x)
    obtain st h where x: "x = (st, h)" by (cases x)
    have h: "small_pdh h" "st = 0" using readpdh_small Some x by simp_all
    let ?f = "\<lambda>s. s\<lparr>pm_pdh := h\<rparr>"
    have f: "same_product (?f p) (r\<lparr>rn_pm := ?f (rn_pm r)\<rparr>)" by (rule sim_upd [OF m, of ?f]) simp_all
    have "sim (on_read (pm_read E off (nat (pdh_len h - 16)) (?f p)) (\<lambda>st s2. if st \<noteq> 0 then Cont s2 else pm_vet s2))
        (on_rread (rn_read off (pdh_len h - 16) (r\<lparr>rn_pm := ?f (rn_pm r)\<rparr>)) (\<lambda>_. r_step pm_vet))" if "16 < pdh_len h" for off
    proof (rule sim_read [OF f fifo_envD [OF E]])
      show "sim (if st \<noteq> 0 then Cont p' else pm_vet p') (r_step pm_vet r')"
        if "same_product p' r'" "st = 0 \<longleftrightarrow> st' = 0" "st \<noteq> 0 \<longrightarrow> pdh_len h - 16 < 0" for st st' p' r'
        using sim_step [OF blind_vet that(1)] that(3) \<open>16 < pdh_len h\<close> by simp
    qed (use h that in \<open>auto simp: small_pdh_def stuck_def to_size_def\<close>)
    with sim_step [OF blind_vet f] f h show ?thesis
      by (simp add: pm_header_def rn_header_def Let_def e Some x)
  qed
qed

lemma header_small: "pm_header E p = Go p' \<Longrightarrow> small_pdh (pm_pdh p')"
proof -
  assume g: "pm_header E p = Go p'"
  have v: "pm_pdh t = pm_pdh s" if "pm_vet s = Go t" for s t
    using that by (auto simp: pm_vet_def Let_def split: if_splits)
  obtain st h where r: "readpdh (drop (nat (sbn_len (pm_sbn p))) (pm_buf p)) (pm_pdh p) = Some (st, h)"
    using g by (cases "readpdh (drop (nat (sbn_len (pm_sbn p))) (pm_buf p)) (pm_pdh p)") (auto simp: pm_header_def Let_def)
  have h: "small_pdh h" "st = 0" using readpdh_small [OF r] by simp_all
  show ?thesis
  proof (cases "16 < pdh_len h")
    case True
    then show ?thesis using g r h
      by (cases "pm_read E (nat (sbn_len (pm_sbn p)) + 16) (nat (pdh_len h - 16)) (p\<lparr>pm_pdh := h\<rparr>)")
         (auto simp: pm_header_def Let_def pm_read_def mem_write_def split: if_splits option.splits dest!: v)
  next
    case False
    then show ?thesis using g r h by (auto simp: pm_header_def Let_def dest!: v)
  qed
qed

section \<open>Products\<close>

lemma sim_psh_header: "same_product p r \<Longrightarrow> fifo_env E \<Longrightarrow> small_pdh (pm_pdh p) \<Longrightarrow> sim (pm_psh_header E p) (rn_psh_header r)"
proof -
  assume m: "same_product p r" and E: "fifo_env E" and h: "small_pdh (pm_pdh p)"
  note e = sim_same [OF m]
  let ?off = "nat (sbn_len (pm_sbn p) + pdh_len (pm_pdh p))"
  let ?f = "\<lambda>s1. if sbn_command (pm_sbn s1) = 5 then Cont s1
     else (case readpsh (drop ?off (pm_buf s1)) (pm_psh s1) of
             None \<Rightarrow> Crash
           | Some (st, h) \<Rightarrow>
               (let s2 = s1\<lparr>pm_psh := h\<rparr>
                in if st = - 1 then Cont s2 else if psh_olen h \<noteq> pdh_pshlen (pm_pdh s2) then Cont s2 else Go s2))"
  have b: "blind ?f" by (rule blindI) (auto simp: Let_def split: option.split)
  have "sim (on_read (pm_read E ?off (to_size (pdh_pshlen (pm_pdh p))) p) (\<lambda>st s2. if st \<noteq> 0 then Cont s2 else ?f s2))
      (on_rread (rn_read ?off (pdh_pshlen (pm_pdh p)) r) (\<lambda>st r2. if st \<noteq> 0 then RCont r2 else r_step ?f r2))"
    by (rule sim_read_cont [OF m E]) (use h in \<open>simp_all add: small_pdh_def sim_step [OF b]\<close>)
  then show ?thesis
    unfolding pm_psh_header_def rn_psh_header_def Let_def e .
qed

lemma sim_begin: "same_product p r \<Longrightarrow> fifo_env E \<Longrightarrow> small_pdh (pm_pdh p) \<Longrightarrow> sim (pm_begin E p) (rn_begin E r)"
proof -
  assume m: "same_product p r" and E: "fifo_env E" and h: "small_pdh (pm_pdh p)"
  note e = sim_same [OF m]
  let ?f = "\<lambda>s. s\<lparr>prod_seqno := i32 (pdh_seqno (pm_pdh s)), prod_nfrag := psh_frags (pm_psh s),
    pm_ds := ds_init (e_moves E) (pm_ds s) (nat (psh_frags (pm_psh s)))\<rparr>"
  have f: "same_product (?f p) (r\<lparr>rn_pm := ?f (rn_pm r)\<rparr>)" by (rule sim_upd [OF m, of ?f]) simp_all
  let ?g = "\<lambda>s2. Go ((if sbn_datastream (pm_sbn s2) = 4 \<and> psh_pcat (pm_psh s2) \<noteq> 3 then s2\<lparr>GOES := False, NWSTG := True\<rparr> else s2)
      \<lparr>heapcount := 0, pm_md5 := []\<rparr>)"
  have b: "blind ?g" by (rule blindI) auto
  have o: "blockoff (?f s) = blockoff s" "pm_pdh (?f s) = pm_pdh s" for s by (simp_all add: blockoff_def)
  have "sim (on_read (pm_read E (blockoff p) (to_size (pdh_dbsize (pm_pdh p))) (?f p)) (\<lambda>st s2. if st \<noteq> 0 then Cont s2 else ?g s2))
      (on_rread (rn_read (blockoff p) (pdh_dbsize (pm_pdh p)) (r\<lparr>rn_pm := ?f (rn_pm r)\<rparr>)) (\<lambda>st r2. if st \<noteq> 0 then RCont r2 else r_step ?g r2))"
    by (rule sim_read_cont [OF f E]) (use h in \<open>simp_all add: small_pdh_def sim_step [OF b]\<close>)
  then show ?thesis
    unfolding pm_begin_def rn_begin_def Let_def o e [simplified] .
qed

lemma psh_header_pdh: "pm_psh_header E p = Go p' \<Longrightarrow> pm_pdh p' = pm_pdh p"
  by (cases "pm_read E (nat (sbn_len (pm_sbn p) + pdh_len (pm_pdh p))) (to_size (pdh_pshlen (pm_pdh p))) p")
     (auto simp: pm_psh_header_def Let_def pm_read_def split: if_splits option.splits)

lemma with_png_pdh: "with_png f s = Some t \<Longrightarrow> pm_pdh t = pm_pdh s"
  by (auto simp: with_png_def set_heap_mem_def)

lemma abandon_pdh: "pm_abandon E p = Go p' \<Longrightarrow> pm_pdh p' = pm_pdh p"
  by (cases "with_png (pngout_end (e_png E)) (pm_free p)")
     (auto simp: pm_abandon_def Let_def pm_free_def split: if_splits dest!: with_png_pdh)

lemma blind_if: "blind f \<Longrightarrow> (\<And>x s. P (put_io x s) = P s) \<Longrightarrow> blind (\<lambda>s. if P s then f s else Go s)"
  unfolding blind_def by auto

lemma blind_data: "blind (\<lambda>s. if GOES s then pm_goes_data E s else pm_nwstg_data E s)"
  using blind_goes_data [of E] blind_nwstg_data [of E] unfolding blind_def by simp

lemma sim_start_product: "same_product p r \<Longrightarrow> fifo_env E \<Longrightarrow> small_pdh (pm_pdh p) \<Longrightarrow> sim (pm_start_product E p) (rn_start_product E r)"
  unfolding pm_start_product_def rn_start_product_def
  by (intro sim_bind sim_psh_header sim_begin sim_step blind_if blind_abandon blind_goes_start blind_nwstg_start)
     (simp_all add: psh_header_pdh abandon_pdh)

lemma sim_continuation: "same_product p r \<Longrightarrow> fifo_env E \<Longrightarrow> small_pdh (pm_pdh p) \<Longrightarrow> sim (pm_continuation E p) (rn_continuation r)"
proof -
  assume m: "same_product p r" and E: "fifo_env E" and h: "small_pdh (pm_pdh p)"
  have i: "pm_inp (cont_setup p) = pm_inp p" by (simp add: cont_setup_def Let_def)
  have c: "same_product (cont_setup p) (r\<lparr>rn_pm := cont_setup (rn_pm r)\<rparr>)"
    by (rule sim_upd [OF m]) (simp_all add: cont_setup_io i)
  have e: "blockoff (cont_setup (rn_pm r)) = blockoff (cont_setup p)" "pm_pdh (cont_setup (rn_pm r)) = pm_pdh (cont_setup p)"
    using sim_same [OF c] by simp_all
  have p: "pm_pdh (cont_setup p) = pm_pdh p" by (simp add: cont_setup_def Let_def)
  show ?thesis
    unfolding pm_continuation_def rn_continuation_def Let_def e
  proof (rule sim_read_cont [OF c E])
    show "sim (if prod_head p' = None then Cont p' else Go p') (if prod_head (rn_pm r') = None then RCont r' else RGo r')"
      if "same_product p' r'" for p' r'
      using that sim_same [OF that] by simp
  qed (use h in \<open>simp_all add: small_pdh_def p\<close>)
qed

lemma sim_packet: "same_product p r \<Longrightarrow> fifo_env E \<Longrightarrow> sim (pm_packet E p) (rn_packet E r)"
  unfolding pm_packet_def rn_packet_def
proof (intro sim_bind)
  assume E: "fifo_env E"
  show "sim (if pdh_pshlen (pm_pdh p3) \<noteq> 0 then pm_start_product E p3 else pm_continuation E p3)
    (if pdh_pshlen (pm_pdh (rn_pm r3)) \<noteq> 0 then rn_start_product E r3 else rn_continuation r3)"
    if "pm_header E p2 = Go p3" "same_product p3 r3" for p2 p3 r3
    using header_small [OF that(1)] sim_start_product [OF that(2) E] sim_continuation [OF that(2) E] sim_same [OF that(2)] by simp
qed (assumption | rule sim_first sim_header sim_count sim_step blind_classify blind_fragment blind_data blind_link blind_finish)+

section \<open>The same products\<close>

fun pm_stops_with :: "product list \<Rightarrow> pm_result \<Rightarrow> bool" where
  "pm_stops_with q (Returned st p) = (st = 0 \<and> pm_queue p = q)"
| "pm_stops_with q (Waiting p) = (pm_queue p = q)"
| "pm_stops_with q Undefined = False"

lemma pm_loop_empty_fifo: "fifo_env E \<Longrightarrow> pm_inp p = [] \<Longrightarrow> pm_loop E p = Returned 0 (p\<lparr>pm_reads := pm_reads p + 1\<rparr>)"
  by (subst pm_loop.simps) (simp add: pm_packet_def pm_sync_def pm_read_def stream_read_def Let_def fifo_env_def)

lemma stuck_loop: "fifo_env E \<Longrightarrow> stuck q (pm_packet E p) \<Longrightarrow> pm_stops_with q (pm_loop E p)"
  by (subst pm_loop.simps) (auto simp: stuck_def pm_loop_empty_fifo)

lemma loops_agree: "same_product p r \<Longrightarrow> fifo_env E \<Longrightarrow>
  (case rn_loop E r of RWaiting r' \<Rightarrow> pm_stops_with (pm_queue (rn_pm r')) (pm_loop E p) | RUndefined \<Rightarrow> True | _ \<Rightarrow> False)"
proof (induction E r arbitrary: p rule: rn_loop.induct)
  case (1 E r)
  have nd: "\<not> rn_DONE r" using "1.prems"(1) by (rule same_productE)
  note s = sim_packet [OF "1.prems"]
  show ?case
  proof (cases "rn_packet E r")
    case (RGo r1)
    with s obtain p1 where p1: "pm_packet E p = Go p1" "same_product p1 r1" by auto
    then have "pm_loop E p = pm_loop E p1" by (subst pm_loop.simps) simp
    moreover have "rn_loop E r = rn_loop E r1" using RGo nd by (subst rn_loop.simps) simp
    ultimately show ?thesis using "1.IH"(1) [OF nd RGo p1(2) "1.prems"(2)] by (simp only:)
  next
    case (RCont r1)
    with s obtain p1 where p1: "pm_packet E p = Cont p1" "same_product p1 r1" by auto
    then have "pm_loop E p = pm_loop E p1" by (subst pm_loop.simps) simp
    moreover have "rn_loop E r = rn_loop E r1" using RCont nd by (subst rn_loop.simps) simp
    ultimately show ?thesis using "1.IH"(2) [OF nd RCont p1(2) "1.prems"(2)] by (simp only:)
  next
    case (RWait r1)
    with s stuck_loop [OF "1.prems"(2)] nd show ?thesis by (simp add: rn_loop.simps [of E r])
  qed (use s nd in \<open>simp_all add: rn_loop.simps [of E r]\<close>)
qed

section \<open>The program\<close>

text \<open>
  What \<open>main\<close> does once it has its input: \<open>mem\<close> is the memory its variables start with, of which it sets only
  these.
\<close>

definition rn_main :: "pm_env \<Rightarrow> pm \<Rightarrow> rsource \<Rightarrow> rn_result" where
  "rn_main E mem src =
     rn_loop E \<lparr>rn_pm = mem\<lparr>PNGINIT := False, pm_heap := (pm_heap mem)\<lparr>memheap := None\<rparr>, prod_head := None, prod_tail := None\<rparr>,
                rn_src = src, rn_DONE = False, rn_nmissed = 0, rn_last = - 1\<rparr>"

lemma rn_main_agrees:
  assumes "fifo_env E" "GetFailed \<notin> set rs" "pm_inp s = concat (map reply_bytes rs)"
  shows "case rn_main E s (Shm rs []) of
      RWaiting r \<Rightarrow> pm_stops_with (pm_queue (rn_pm r)) (pmStart E s)
    | RUndefined \<Rightarrow> True
    | _ \<Rightarrow> False"
proof -
  let ?s = "s\<lparr>last_sbn_runno := 2 ^ 64 - 1, PNGINIT := False, pm_heap := (pm_heap s)\<lparr>memheap := None\<rparr>, prod_head := None, prod_tail := None\<rparr>"
  let ?r = "\<lparr>rn_pm = s\<lparr>PNGINIT := False, pm_heap := (pm_heap s)\<lparr>memheap := None\<rparr>, prod_head := None, prod_tail := None\<rparr>,
      rn_src = Shm rs [], rn_DONE = False, rn_nmissed = 0, rn_last = - 1\<rparr>"
  have m: "same_product ?s ?r"
    using assms(2,3) by (intro same_productI [where x = "get_io s"]) (simp_all add: get_io_def put_io.simps)
  have st: "pm_stops_with q (pmStart E s)" if "pm_stops_with q (pm_loop E ?s)" for q
    using that by (cases "pm_loop E ?s") (auto simp: pmStart_def)
  show ?thesis
    using loops_agree [OF m assms(1)] st by (cases "rn_loop E ?r") (auto simp: rn_main_def)
qed

text \<open>
  C3: On the bytes that come out of a shared-memory FIFO, however they are cut into records, \<open>readnoaaport\<close> waits in the
  end with exactly the products in its queue that the product-maker of the threaded program makes of the same
  bytes, or it has met something C leaves undefined. It never ends by itself.
\<close>

theorem readnoaaport_makes_same_products:
  assumes "fifo_env E" "GetFailed \<notin> set rs" "pm_inp s = concat (map reply_bytes rs)"
  shows "case rn_main E s (Shm rs []) of
      RWaiting r \<Rightarrow> pm_stops_with (pm_queue (rn_pm r)) (pmStart E s)
    | RUndefined \<Rightarrow> True
    | _ \<Rightarrow> False"
  using assms by (rule rn_main_agrees)

section \<open>Header lengths that are not positive\<close>

text \<open>\<open>select\<close> is called again after a failure and after a timeout.\<close>

lemma fd_take_idle: "set idle \<subseteq> {SelectFailed, SelectTimeout} \<Longrightarrow> 0 < n \<Longrightarrow> fd_take n (idle @ es) = fd_take n es"
  by (induction idle) auto

text \<open>
  C17: A packet whose two header lengths do not fit together has a negative product-specific length. It is skipped, and neither
  the buffer nor the input is touched: with shared memory the read refuses the length, and with a file it asks for almost
  2^64 bytes, which \<open>read\<close> refuses; only failures and timeouts of \<open>select\<close> before it are gone.
\<close>

theorem negative_header_skipped:
  assumes "- 60 \<le> pdh_pshlen (pm_pdh (rn_pm r))" "pdh_pshlen (pm_pdh (rn_pm r)) < 0"
    "sbn_len (pm_sbn (rn_pm r)) + pdh_len (pm_pdh (rn_pm r)) \<le> int (length (pm_buf (rn_pm r)))"
  shows "(rn_src r = Shm rs left \<longrightarrow> rn_psh_header r = RCont r) \<and>
    (rn_src r = Fd (idle @ Chunk d # es) \<longrightarrow> set idle \<subseteq> {SelectFailed, SelectTimeout} \<longrightarrow>
       rn_psh_header r = RCont (r\<lparr>rn_src := Fd (Chunk d # es)\<rparr>))"
proof -
  let ?n = "pdh_pshlen (pm_pdh (rn_pm r))" and ?off = "nat (sbn_len (pm_sbn (rn_pm r)) + pdh_len (pm_pdh (rn_pm r)))"
  have b: "blit m k [] = m" if "k \<le> length m" for m :: "byte list" and k using that by (simp add: blit_def)
  note w = b [of ?off "pm_buf (rn_pm r)"]
  have "rn_psh_header r = RCont r" if s: "rn_src r = Shm rs left"
  proof -
    have "rn_read ?off ?n r = RGot (- 1) r"
      using assms s w by (simp add: rn_read_def bufread_def shm_bufread_def mem_write_def Let_def)
    then show ?thesis by (simp add: rn_psh_header_def Let_def)
  qed
  moreover have "rn_psh_header r = RCont (r\<lparr>rn_src := Fd (Chunk d # es)\<rparr>)"
    if s: "rn_src r = Fd (idle @ Chunk d # es)" "set idle \<subseteq> {SelectFailed, SelectTimeout}"
  proof -
    have "2 ^ 63 \<le> to_size ?n" using assms by (intro to_size_neg) simp_all
    then have "fd_take (to_size ?n) (idle @ Chunk d # es) = (Some (- 2), [], (Chunk d # es, False))"
      using fd_take_idle [OF s(2), of "to_size ?n"] by simp
    then have "rn_read ?off ?n r = RGot (- 2) (r\<lparr>rn_src := Fd (Chunk d # es)\<rparr>)"
      using assms s w by (simp add: rn_read_def bufread_def fd_bufread_def mem_write_def Let_def)
    then show ?thesis by (simp add: rn_psh_header_def Let_def)
  qed
  ultimately show ?thesis by blast
qed

section \<open>Counting\<close>

definition rn_counted :: "nat \<Rightarrow> rn \<Rightarrow> rn" where
  "rn_counted q r = rn_count (r\<lparr>rn_pm := (rn_pm r)\<lparr>pm_sbn := (pm_sbn (rn_pm r))\<lparr>sbn_seqno := q\<rparr>\<rparr>\<rparr>)"

lemma i64_id: "0 \<le> x \<Longrightarrow> x < 2 ^ 63 \<Longrightarrow> i64 x = x"
  unfolding i64_def by (rule signed_take_bit_int_eq_self) simp_all

lemma rn_counted_step:
  assumes "rn_last r = int a" "a < q" "q < 2 ^ 63" "rn_nmissed r + (q - a - 1) < 2 ^ 64"
  shows "rn_last (rn_counted q r) = int q \<and> rn_nmissed (rn_counted q r) = rn_nmissed r + (q - a - 1)"
proof -
  have a: "to_size (int a) = a" using assms(2,3) by (subst to_size_id) simp_all
  have "sz_add a 1 = a + 1" by (rule sz_add_eq) (use assms in simp)
  moreover have "sz_sub q a = q - a" by (rule sz_sub_eq) (use assms in simp_all)
  moreover have "sz_sub (q - a) 1 = q - a - 1" by (rule sz_sub_eq) (use assms in simp_all)
  moreover have "sz_add (rn_nmissed r) (q - a - 1) = rn_nmissed r + (q - a - 1)" by (rule sz_add_eq) (rule assms(4))
  ultimately have s: "sz_add a 1 = a + 1" "sz_sub q a = q - a" "sz_sub (q - a) 1 = q - a - 1"
    "sz_add (rn_nmissed r) (q - a - 1) = rn_nmissed r + (q - a - 1)" by blast+
  show ?thesis using assms(1-3) s by (auto simp: rn_counted_def rn_count_def Let_def a i64_id)
qed

text \<open>
  Over a run of packets whose sequence numbers rise, the count of missed packets grows by exactly the numbers that
  were left out.
\<close>

theorem rn_missed_counted:
  assumes "rn_last r = int a" "ascending a qs" "last (a # qs) < 2 ^ 63" "rn_nmissed r + (last (a # qs) - a) < 2 ^ 64"
  shows "rn_nmissed (fold rn_counted qs r) = rn_nmissed r + (last (a # qs) - a - length qs)"
  using assms
proof (induction qs arbitrary: r a)
  case (Cons q qs)
  have q: "a < q" "ascending q qs" using Cons.prems(2) by simp_all
  have l: "q + length qs \<le> last (q # qs)" using ascending_last [OF q(2)] .
  have e: "last (a # q # qs) = last (q # qs)" by simp
  have c: "rn_last (rn_counted q r) = int q" "rn_nmissed (rn_counted q r) = rn_nmissed r + (q - a - 1)"
    using Cons.prems(1,3,4) q l e by (auto dest!: rn_counted_step [of r a q])
  have "rn_nmissed (fold rn_counted qs (rn_counted q r)) = rn_nmissed (rn_counted q r) + (last (q # qs) - q - length qs)"
    using Cons.prems(3,4) q l e c by (intro Cons.IH) simp_all
  with c q l e show ?case by simp
qed simp

section \<open>Instances\<close>

theorem readnoaaport_makes_same_products_witness:
  "case rn_main (demo_env\<lparr>e_closed := \<lambda>_. False\<rparr>) (demo_pm [1, 255, 3]) (Shm [Record [1, 255], NoRecord, Record [3]] []) of
      RWaiting r \<Rightarrow> pm_stops_with (pm_queue (rn_pm r)) (pmStart (demo_env\<lparr>e_closed := \<lambda>_. False\<rparr>) (demo_pm [1, 255, 3]))
    | RUndefined \<Rightarrow> True
    | _ \<Rightarrow> False"
  by (rule readnoaaport_makes_same_products) (simp_all add: fifo_env_def demo_env_def demo_pm_def)

definition demo_rn :: "rsource \<Rightarrow> rn" where
  "demo_rn src = \<lparr>rn_pm = demo_pm []\<lparr>pm_pdh := demo_pdh\<lparr>pdh_pshlen := - 4\<rparr>\<rparr>, rn_src = src, rn_DONE = False, rn_nmissed = 0, rn_last = 10\<rparr>"

theorem negative_header_skipped_witness:
  "rn_psh_header (demo_rn (Shm [Record [1]] [])) = RCont (demo_rn (Shm [Record [1]] [])) \<and>
   rn_psh_header (demo_rn (Fd [SelectTimeout, Chunk [255], Chunk []])) = RCont (demo_rn (Fd [Chunk [255], Chunk []]))"
proof -
  have h: "- 60 \<le> pdh_pshlen (pm_pdh (rn_pm (demo_rn x)))" "pdh_pshlen (pm_pdh (rn_pm (demo_rn x))) < 0"
    "sbn_len (pm_sbn (rn_pm (demo_rn x))) + pdh_len (pm_pdh (rn_pm (demo_rn x))) \<le> int (length (pm_buf (rn_pm (demo_rn x))))"
    "rn_src (demo_rn x) = x" "demo_rn x\<lparr>rn_src := y\<rparr> = demo_rn y" for x y
    by (simp_all add: demo_rn_def demo_pm_def demo_pdh_def demo_sbn_def)
  from negative_header_skipped [OF h(1-3), where rs = "[Record [1]]" and left = "[]" and idle = "[SelectTimeout]" and d = "[255]" and es = "[Chunk []]"]
  show ?thesis by (auto simp: h(4,5))
qed

theorem rn_missed_counted_witness: "rn_nmissed (fold rn_counted [11, 14, 15] (demo_rn (Fd []))) = 2"
  using rn_missed_counted [of "demo_rn (Fd [])" 10 "[11, 14, 15]"] by (simp add: demo_rn_def)

end
