(* ===== verification/Dvbs_Multicast.thy ===== *)
theory Dvbs_Multicast
  imports Command_Line Shm_Admin
begin

text \<open>
  The stand-alone multicast reader (\<open>dvbs_multicast.c\<close>): its command line, how it comes to a socket and a
  shared-memory FIFO, the loop that puts the datagrams into the FIFO, and the loop of the child process that takes
  them out again.

  A process that sleeps in the FIFO ends a step with the semaphore it waits for. Log messages about sequence
  numbers are kept as values, other log messages are not modelled.
\<close>

section \<open>The command line\<close>

record dvopts =
  dv_logmask :: logmask
  dv_logfname :: "cstr option"
  dv_pqfname :: cstr
  dv_interface :: "cstr option"
  dv_rtflag :: bool
  dv_dumpflag :: bool
  dv_bufpag :: int
  dv_memsegflg :: bool
  dv_ipri :: int

definition CBUFPAG :: int where
  "CBUFPAG = 2000"

definition dv_init :: "cstr \<Rightarrow> dvopts" where
  "dv_init queuePath =
     \<lparr>dv_logmask = LOG_MASK LOG_ERR, dv_logfname = None, dv_pqfname = queuePath, dv_interface = None, dv_rtflag = False,
      dv_dumpflag = False, dv_bufpag = CBUFPAG, dv_memsegflg = False, dv_ipri = 0\<rparr>"

definition add_level :: "nat \<Rightarrow> dvopts \<Rightarrow> dvopts" where
  "add_level l p = p\<lparr>dv_logmask := dv_logmask p OR LOG_MASK l\<rparr>"

definition clamp_pages :: "int \<Rightarrow> int" where
  "clamp_pages n = (let n1 = (if n < 500 then 500 else n) in if 40000 < n1 then 40000 else n1)"

definition clamp_priority :: "int \<Rightarrow> int" where
  "clamp_priority n = (if n < - 20 then - 20 else if 20 < n then 20 else n)"

text \<open>The argument of \<open>-l\<close> that is taken for a missing one.\<close>

definition bad_logname :: "cstr \<Rightarrow> bool" where
  "bad_logname arg \<longleftrightarrow> (case arg of c # _ # _ \<Rightarrow> c = 45 | _ \<Rightarrow> False)"

text \<open>
  One result of \<open>getopt\<close>: \<open>Inl\<close> is an exit status (\<open>usage\<close> exits with 1), the outer \<open>None\<close> a number that does not
  fit an \<open>int\<close>.
\<close>

definition dv_option :: "char \<Rightarrow> cstr \<Rightarrow> dvopts \<Rightarrow> (int + dvopts) option" where
  "dv_option ch arg p =
     (if ch = CHR ''v'' then Some (Inr (add_level LOG_INFO p))
      else if ch = CHR ''x'' then Some (Inr (add_level LOG_DEBUG p))
      else if ch = CHR ''n'' then Some (Inr (add_level LOG_NOTICE p))
      else if ch = CHR ''l'' then Some (if bad_logname arg then Inl 1 else Inr (p\<lparr>dv_logfname := Some arg\<rparr>))
      else if ch = CHR ''q'' then Some (Inr (p\<lparr>dv_pqfname := arg\<rparr>))
      else if ch = CHR ''I'' then Some (Inr (p\<lparr>dv_interface := Some arg\<rparr>))
      else if ch = CHR ''r'' then Some (Inr (p\<lparr>dv_rtflag := True\<rparr>))
      else if ch = CHR ''d'' then Some (Inr (p\<lparr>dv_dumpflag := True\<rparr>))
      else if ch = CHR ''b'' then map_option (\<lambda>n. Inr (p\<lparr>dv_bufpag := clamp_pages n\<rparr>)) (atoi arg)
      else if ch = CHR ''m'' then Some (Inr (p\<lparr>dv_memsegflg := True\<rparr>))
      else if ch = CHR ''p'' then map_option (\<lambda>n. Inr (p\<lparr>dv_ipri := clamp_priority n\<rparr>)) (atoi arg)
      else if ch = CHR ''?'' then Some (Inl 1)
      else Some (Inr p))"

fun dv_options :: "(char \<times> cstr) list \<Rightarrow> dvopts \<Rightarrow> (int + dvopts) option" where
  "dv_options [] p = Some (Inr p)"
| "dv_options ((ch, arg) # os) p =
     (case dv_option ch arg p of
        None \<Rightarrow> None
      | Some (Inl st) \<Rightarrow> Some (Inl st)
      | Some (Inr q) \<Rightarrow> dv_options os q)"

section \<open>Up to the socket\<close>

text \<open>
  What the calls answer. \<open>dr_channel\<close> is what is in \<open>pid_channel\<close>, which is never set, when the address does not
  have four numbers; \<open>dr_fork\<close> is the result of \<open>fork\<close>, \<open>dr_attach\<close> whether the segment can be attached.
\<close>

record dv_env =
  dr_mcast :: mcast_env
  dr_channel :: int
  dr_ipc :: ipcres
  dr_pq_open :: "cstr \<Rightarrow> int"
  dr_atexit :: int
  dr_fork :: int
  dr_setpriv :: "shmhandle \<Rightarrow> bool" \<comment> \<open>\<open>shmfifo_setpriv\<close> returns\<close>

datatype dv_start = ExitStatus int | Parent shmhandle int ipc | Child shmhandle ipc | Stops

text \<open>\<open>Parent\<close> has a socket that is bound to that port and has joined the group.\<close>

definition dv_socket :: "dv_env \<Rightarrow> dvopts \<Rightarrow> cstr \<Rightarrow> int \<Rightarrow> shmhandle \<Rightarrow> ipc \<Rightarrow> dv_start" where
  "dv_socket D p spec port h k =
     (case m_host (dr_mcast D) spec of
        None \<Rightarrow> ExitStatus 1
      | Some addr \<Rightarrow>
          if length addr \<noteq> 4 then Stops
          else if \<not> IN_MULTICAST addr then ExitStatus 1
          else if m_socket (dr_mcast D) < 0 then ExitStatus 1
          else if m_bind (dr_mcast D) port < 0 then ExitStatus 1
          else let iface = (case dv_interface p of None \<Rightarrow> [0, 0, 0, 0] | Some i \<Rightarrow> m_inet_addr (dr_mcast D) i)
               in if m_join (dr_mcast D) addr iface < 0 then ExitStatus 1 else Parent h port k)"

definition dv_parent :: "dv_env \<Rightarrow> dvopts \<Rightarrow> cstr \<Rightarrow> int \<Rightarrow> shmhandle \<Rightarrow> ipc \<Rightarrow> dv_start" where
  "dv_parent D p spec port h k =
     (case shmfifo_attach (dr_ipc D) h of (st, h1) \<Rightarrow>
        if st = - 1 then ExitStatus 1
        else if \<not> dr_setpriv D h1 then Stops
        else dv_socket D p spec port h1 k)"

text \<open>\<open>sizeof(struct shmfifo_priv)\<close> is 4. A negative result of \<open>fork\<close> is taken for a child's identifier.\<close>

definition dv_setup :: "dv_env \<Rightarrow> dvopts \<Rightarrow> cstr \<Rightarrow> ipc \<Rightarrow> dv_start" where
  "dv_setup D p spec k =
     (if dv_dumpflag p \<and> dr_pq_open D (dv_pqfname p) \<noteq> 0 then ExitStatus 1
      else if dr_atexit D \<noteq> 0 then ExitStatus 1
      else let ch = (case scan_last_octet spec of None \<Rightarrow> dr_channel D | Some c \<Rightarrow> c)
           in if i32 ch \<noteq> ch then Stops
              else if ch < 1 \<or> MAX_DVBS_PID < ch then ExitStatus 1
              else (case shmfifo_create (dr_ipc D) (dv_bufpag p) 4 (if dv_memsegflg p then s_port ! nat (ch - 1) else - 1) k of
                      None \<Rightarrow> Stops
                    | Some (None, k1) \<Rightarrow> ExitStatus 1
                    | Some (Some h, k1) \<Rightarrow>
                        let port = s_port ! nat (ch - 1)
                        in if dv_memsegflg p \<or> dr_fork D \<noteq> 0
                           then dv_parent D p spec port h k1
                           else (case shmfifo_attach (dr_ipc D) h of (st, h1) \<Rightarrow>
                                   if st = - 1 then ExitStatus 1 else Child h1 k1)))"

section \<open>The server\<close>

definition MAX_MSG :: nat where
  "MAX_MSG = 10000"

text \<open>\<open>recvfrom\<close> gives a datagram, of which it keeps the first \<open>MAX_MSG\<close> bytes, or fails.\<close>

datatype recv = Datagram "byte list" | RecvFailed

datatype sbn_note = Retrograde nat nat | Gap nat nat nat | Number nat

record dvst =
  dv_msg :: "byte list"
  dv_last :: nat
  dv_haslogged :: bool
  dv_notes :: "sbn_note list"
  dv_shm :: shmst

datatype dv_step = Next dvst | Exit1 dvst | Asleep SemIndex "byte list" dvst | Aborts | BadMemory

text \<open>The four bytes are shifted as an \<open>int\<close> and then converted to an \<open>unsigned long\<close>.\<close>

definition sbn_number :: "byte list \<Rightarrow> nat" where
  "sbn_number m = to_size (be32 (m ! 8) (m ! 9) (m ! 10) (m ! 11))"

definition server_note :: "nat \<Rightarrow> nat \<Rightarrow> sbn_note" where
  "server_note lastnum sbnnum =
     (if sbnnum \<le> lastnum then Retrograde lastnum sbnnum
      else if lastnum \<noteq> 0 \<and> 0 < sbnnum - lastnum - 1 then Gap lastnum sbnnum (sbnnum - lastnum - 1)
      else Number sbnnum)"

definition server_put_done :: "dvst \<Rightarrow> byte list \<Rightarrow> int shm_out \<Rightarrow> dv_step" where
  "server_put_done s d r =
     (case r of
        Ret status st \<Rightarrow> if status \<noteq> 0 \<and> status \<noteq> E2BIG then Exit1 (s\<lparr>dv_shm := st\<rparr>) else Next (s\<lparr>dv_shm := st\<rparr>)
      | Blocked i st \<Rightarrow> Asleep i d (s\<lparr>dv_shm := st\<rparr>)
      | Aborted st \<Rightarrow> Aborts
      | BadMem \<Rightarrow> BadMemory)"

definition server_step :: "bool \<Rightarrow> int \<Rightarrow> shmhandle \<Rightarrow> recv \<Rightarrow> dvst \<Rightarrow> dv_step" where
  "server_step dbg pid h r s =
     (let d = (case r of Datagram x \<Rightarrow> take MAX_MSG x | RecvFailed \<Rightarrow> [])
      in if d = [] then Next (s\<lparr>dv_haslogged := True\<rparr>)
         else let msg = blit (dv_msg s) 0 d;
                  num = sbn_number msg;
                  s1 = s\<lparr>dv_msg := msg, dv_haslogged := False, dv_notes := dv_notes s @ [server_note (dv_last s) num], dv_last := num\<rparr>
              in server_put_done s1 d (shmfifo_put dbg pid h (dv_shm s1) msg (int (length d))))"

text \<open>The server wakes from its wait for room and goes on in the loop of \<open>shmfifo_put\<close>.\<close>

definition server_wake :: "int \<Rightarrow> shmhandle \<Rightarrow> byte list \<Rightarrow> dvst \<Rightarrow> dv_step" where
  "server_wake pid h d s =
     server_put_done s d
       (case wait_wake pid h (dv_shm s) SI_WRITER of
          Ret v st \<Rightarrow> put_tail pid h (if v = 0 then put_wait pid h st (length d + bh_size) else Ret v st) d
        | r \<Rightarrow> r)"

section \<open>The child\<close>







section \<open>Leaving\<close>

text \<open>
  \<open>cleanup\<close>, called at exit: what is done with the FIFO, the child and the queue, in order. \<open>child\<close> is the variable of
  that name, which is 0 also when no child has been made.
\<close>

datatype dv_action = Detach | WaitChild | Dealloc | CloseQueue

definition dv_cleanup :: "bool \<Rightarrow> bool \<Rightarrow> int \<Rightarrow> bool \<Rightarrow> dv_action list" where
  "dv_cleanup shm memsegflg child pq =
     (if shm then [Detach] else []) @
     (if \<not> memsegflg \<and> child = 0 then []
      else (if \<not> memsegflg then [WaitChild] else []) @ (if shm then [Dealloc] else []) @ (if pq then [CloseQueue] else []))"

text \<open>
  The signals: the status of \<open>exit\<close>, if it is called, and \<open>logmypriv\<close>. SIGUSR2 calls \<open>rollulogpri\<close> of the LDM, the
  others do nothing.
\<close>

datatype dv_signal = DvInt | DvTerm | DvPipe | DvUsr1 | DvUsr2

definition dv_signal_handler :: "dv_signal \<Rightarrow> bool \<Rightarrow> int option \<times> bool" where
  "dv_signal_handler sig logmypriv =
     (case sig of DvInt \<Rightarrow> (Some 0, logmypriv) | DvTerm \<Rightarrow> (Some 0, logmypriv) | DvPipe \<Rightarrow> (None, logmypriv)
      | DvUsr1 \<Rightarrow> (None, True) | DvUsr2 \<Rightarrow> (None, logmypriv))"

section \<open>The server with a reader of the FIFO\<close>

text \<open>
  The server, with what \<open>recvfrom\<close> will give, and a process that takes records out: the child, or \<open>readnoaaport\<close>.
  \<open>ms_asleep\<close> is the datagram the server sleeps with.
\<close>

record mcsys =
  ms_srv :: dvst
  ms_in :: "recv list"
  ms_asleep :: "byte list option"
  ms_taken :: "byte list list"

inductive mc_step :: "int \<Rightarrow> int \<Rightarrow> shmhandle \<Rightarrow> mcsys \<Rightarrow> mcsys \<Rightarrow> bool" for p q h where
  receive: "ms_asleep s = None \<Longrightarrow> ms_in s = r # rs \<Longrightarrow> server_step False p h r (ms_srv s) = Next v \<Longrightarrow>
    mc_step p q h s (s\<lparr>ms_srv := v, ms_in := rs\<rparr>)"
| sleep: "ms_asleep s = None \<Longrightarrow> ms_in s = r # rs \<Longrightarrow> server_step False p h r (ms_srv s) = Asleep i d v \<Longrightarrow>
    mc_step p q h s (s\<lparr>ms_srv := v, ms_in := rs, ms_asleep := Some d\<rparr>)"
| wake: "ms_asleep s = Some d \<Longrightarrow> writerVal (sem (dv_shm (ms_srv s))) \<noteq> 0 \<Longrightarrow> server_wake p h d (ms_srv s) = Next v \<Longrightarrow>
    mc_step p q h s (s\<lparr>ms_srv := v, ms_asleep := None\<rparr>)"
| sleep_again: "ms_asleep s = Some d \<Longrightarrow> writerVal (sem (dv_shm (ms_srv s))) \<noteq> 0 \<Longrightarrow> server_wake p h d (ms_srv s) = Asleep i d' v \<Longrightarrow>
    mc_step p q h s (s\<lparr>ms_srv := v, ms_asleep := Some d'\<rparr>)"
| get: "shmfifo_empty (Some h) (seg (dv_shm (ms_srv s))) = 0 \<Longrightarrow>
    shmfifo_get False q h (dv_shm (ms_srv s)) (int MAX_MSG) = Ret (0, Some n, Some d) st \<Longrightarrow>
    mc_step p q h s (s\<lparr>ms_srv := (ms_srv s)\<lparr>dv_shm := st\<rparr>, ms_taken := ms_taken s @ [d]\<rparr>)"

inductive_cases mc_stepE: "mc_step p q h s s'"

text \<open>The records that should come out: datagrams without data are dropped, the others cut at \<open>MAX_MSG\<close>.\<close>

fun payload :: "recv \<Rightarrow> byte list" where
  "payload (Datagram d) = take MAX_MSG d"
| "payload RecvFailed = []"

definition payloads :: "recv list \<Rightarrow> byte list list" where
  "payloads rs = filter (\<lambda>d. d \<noteq> []) (map payload rs)"

definition pending :: "mcsys \<Rightarrow> byte list list" where
  "pending s = (case ms_asleep s of None \<Rightarrow> [] | Some d \<Rightarrow> [d])"

definition mc_start :: "shmhandle \<Rightarrow> mcsys \<Rightarrow> bool" where
  "mc_start h s \<longleftrightarrow> h_mem h \<and> ready h (dv_shm (ms_srv s)) \<and> holds h (dv_shm (ms_srv s)) [] \<and> MAX_MSG + bh_size < ringsz h \<and>
     length (dv_msg (ms_srv s)) = MAX_MSG \<and> ms_asleep s = None \<and> ms_taken s = []"

text \<open>
  \<open>recs\<close> are the records in the FIFO. A sleeping server has been notified, or there is no room for its datagram.
\<close>

definition mc_inv :: "shmhandle \<Rightarrow> recv list \<Rightarrow> mcsys \<Rightarrow> byte list list \<Rightarrow> bool" where
  "mc_inv h all s recs \<longleftrightarrow> h_mem h \<and> ready h (dv_shm (ms_srv s)) \<and> holds h (dv_shm (ms_srv s)) recs \<and> MAX_MSG + bh_size < ringsz h \<and>
     length (dv_msg (ms_srv s)) = MAX_MSG \<and> (\<forall>d \<in> set recs. length d \<le> MAX_MSG) \<and>
     ms_taken s @ recs @ pending s @ payloads (ms_in s) = payloads all \<and>
     (case ms_asleep s of
        None \<Rightarrow> True
      | Some d \<Rightarrow> d \<noteq> [] \<and> length d \<le> MAX_MSG \<and>
          (writerVal (sem (dv_shm (ms_srv s))) \<noteq> 0 \<or> ringsz h \<le> shm_used h (seg (dv_shm (ms_srv s))) + (length d + bh_size)))"

lemma payloads_simps [simp]: "payloads [] = []" "payloads (r # rs) = (if payload r = [] then payloads rs else payload r # payloads rs)"
  by (simp_all add: payloads_def)

lemma put_buf: "shmfifo_put dbg p h st (blit m 0 d) (int (length d)) = shmfifo_put dbg p h st d (int (length d))"
proof -
  have "take (nat (int (length d))) (blit m 0 d) = take (nat (int (length d))) d" by (simp add: blit_def)
  moreover have "length (blit m 0 d) < nat (int (length d)) \<longleftrightarrow> length d < nat (int (length d))" by (simp add: blit_def)
  ultimately show ?thesis unfolding shmfifo_put_def by (simp only:)
qed

lemma put_sleeps:
  assumes "ready h st" "shm_inv h (seg st)" "ringsz h \<le> shm_used h (seg st) + (length d + bh_size)" "length d + bh_size \<le> ringsz h"
  shows "\<exists>st'. shmfifo_put False p h st d (int (length d)) = Blocked SI_WRITER st' \<and> ready h st' \<and> seg st' = seg st"
proof -
  obtain st' where "put_wait p h (take_lock p st) (length d + bh_size) = Blocked SI_WRITER st'" "ready h st'" "seg st' = seg st"
    using put_wait_full [OF held_take_lock [OF assms(1), of p], of "length d + bh_size"] assms(2,3) by auto
  then show ?thesis
    using assms(2,4) lock_ready [OF assms(1), of p] by (simp add: shmfifo_put_def put_locked_def Let_def shm_total put_tail_def)
qed

text \<open>A server that is awake puts its datagram or goes to sleep.\<close>

lemma server_puts:
  assumes "ready h st" "holds h st recs" "d \<noteq> []" "length d \<le> MAX_MSG" "MAX_MSG + bh_size < ringsz h"
  shows "(\<exists>st'. shmfifo_put False p h st d (int (length d)) = Ret 0 st' \<and> ready h st' \<and> holds h st' (recs @ [d])) \<or>
    (\<exists>st'. shmfifo_put False p h st d (int (length d)) = Blocked SI_WRITER st' \<and> ready h st' \<and> holds h st' recs \<and>
      ringsz h \<le> shm_used h (seg st') + (length d + bh_size))"
proof (cases "shm_used h (seg st) + bh_size + length d < ringsz h")
  case True
  with shmfifo_put_ok [OF assms(1) _ True, of p] assms(2,3) show ?thesis by (auto simp: holds_def)
next
  case False
  with put_sleeps [OF assms(1), of d p] assms show ?thesis by (fastforce simp: holds_def)
qed

lemma server_resumes:
  assumes "ready h st" "holds h st recs" "d \<noteq> []" "length d \<le> MAX_MSG" "MAX_MSG + bh_size < ringsz h" "writerVal (sem st) \<noteq> 0"
  shows "\<exists>st1. wait_wake p h st SI_WRITER = Ret 0 st1 \<and>
    ((\<exists>st'. put_tail p h (put_wait p h st1 (length d + bh_size)) d = Ret 0 st' \<and> ready h st' \<and> holds h st' (recs @ [d])) \<or>
     (\<exists>st'. put_tail p h (put_wait p h st1 (length d + bh_size)) d = Blocked SI_WRITER st' \<and> ready h st' \<and> holds h st' recs \<and>
       ringsz h \<le> shm_used h (seg st') + (length d + bh_size)))"
proof -
  let ?s = "st\<lparr>sem := set_semval SI_WRITER (writerVal (sem st) - 1) (sem st)\<rparr>"
  have rd: "ready h ?s" using assms(1) by (simp add: ready_def)
  have hd: "held p h (take_lock p ?s)" using rd by (rule held_take_lock)
  have i: "shm_inv h (seg (take_lock p ?s))" using assms(2) by (simp add: holds_def)
  have w: "wait_wake p h st SI_WRITER = Ret 0 (take_lock p ?s)"
    using assms(6) lock_ready [OF rd, of p] by (simp add: wait_wake_def)
  have big: "\<not> ringsz h < length d + bh_size" using assms(4,5) by simp
  show ?thesis
  proof (cases "shm_used h (seg st) + bh_size + length d < ringsz h")
    case True
    obtain s2 where s2: "put_locked p h (take_lock p ?s) d = Ret 0 (drop_lock (take_lock p ?s\<lparr>seg := s2, sem := sem (take_lock p ?s)\<lparr>readerVal := 1\<rparr>\<rparr>))"
      "shm_inv h s2" "shm_content h s2 = shm_content h (seg (take_lock p ?s)) @ frame d"
      using put_locked_ok [OF hd i, of d] True by auto
    have l: "put_locked p h (take_lock p ?s) d = put_tail p h (put_wait p h (take_lock p ?s) (length d + bh_size)) d"
      using big assms(2) by (simp add: put_locked_def Let_def shm_total holds_def)
    let ?t = "drop_lock (take_lock p ?s\<lparr>seg := s2, sem := sem (take_lock p ?s)\<lparr>readerVal := 1\<rparr>\<rparr>)"
    have "held p h (take_lock p ?s\<lparr>seg := s2, sem := sem (take_lock p ?s)\<lparr>readerVal := 1\<rparr>\<rparr>)" using hd by (simp add: held_def)
    then have "ready h ?t" by (rule ready_drop_lock)
    moreover have "holds h ?t (recs @ [d])" using s2(2,3) assms(2,3) by (simp add: holds_def)
    ultimately show ?thesis using w s2(1) l by auto
  next
    case False
    obtain st' where "put_wait p h (take_lock p ?s) (length d + bh_size) = Blocked SI_WRITER st'" "ready h st'" "seg st' = seg (take_lock p ?s)"
      using put_wait_full [OF hd i, of "length d + bh_size"] False by auto
    then show ?thesis using w False assms(2) by (auto simp: put_tail_def holds_def)
  qed
qed

lemma server_step_data:
  assumes "payload r \<noteq> []" "length (dv_msg s) = MAX_MSG"
  shows "\<exists>s1. server_step False p h r s = server_put_done s1 (payload r) (shmfifo_put False p h (dv_shm s) (payload r) (int (length (payload r)))) \<and>
    length (dv_msg s1) = MAX_MSG"
proof -
  obtain x where r: "r = Datagram x" using assms(1) by (cases r) auto
  let ?d = "take MAX_MSG x"
  let ?m = "blit (dv_msg s) 0 ?d"
  let ?s1 = "s\<lparr>dv_msg := ?m, dv_haslogged := False, dv_notes := dv_notes s @ [server_note (dv_last s) (sbn_number ?m)], dv_last := sbn_number ?m\<rparr>"
  have l: "length ?m = MAX_MSG" using assms(2) by (subst length_blit) simp_all
  have "server_step False p h r s = server_put_done ?s1 ?d (shmfifo_put False p h (dv_shm s) ?d (int (length ?d)))"
    using assms(1) r by (simp only: server_step_def recv.case Let_def put_buf payload.simps if_False) simp
  with l r show ?thesis by (intro exI [of _ ?s1]) simp
qed

lemma server_step_cases:
  assumes inv: "mc_inv h all s recs" and n: "ms_asleep s = None" and i: "ms_in s = r # rs"
  shows "(\<exists>v recs'. server_step False p h r (ms_srv s) = Next v \<and> mc_inv h all (s\<lparr>ms_srv := v, ms_in := rs\<rparr>) recs') \<or>
    (\<exists>v. server_step False p h r (ms_srv s) = Asleep SI_WRITER (payload r) v \<and>
      mc_inv h all (s\<lparr>ms_srv := v, ms_in := rs, ms_asleep := Some (payload r)\<rparr>) recs)"
proof (cases "payload r = []")
  case True
  have "server_step False p h r (ms_srv s) = Next ((ms_srv s)\<lparr>dv_haslogged := True\<rparr>)"
    using True by (cases r) (simp_all add: server_step_def)
  moreover have "mc_inv h all (s\<lparr>ms_srv := (ms_srv s)\<lparr>dv_haslogged := True\<rparr>, ms_in := rs\<rparr>) recs"
    using inv n i True by (simp add: mc_inv_def pending_def)
  ultimately show ?thesis by blast
next
  case False
  let ?d = "payload r" and ?st = "dv_shm (ms_srv s)"
  have l: "length ?d \<le> MAX_MSG" by (cases r) simp_all
  have v: "ready h ?st" "holds h ?st recs" "MAX_MSG + bh_size < ringsz h" "length (dv_msg (ms_srv s)) = MAX_MSG"
    using inv by (simp_all add: mc_inv_def)
  obtain s1 where s1: "server_step False p h r (ms_srv s) = server_put_done s1 ?d (shmfifo_put False p h ?st ?d (int (length ?d)))"
    "length (dv_msg s1) = MAX_MSG" using server_step_data [OF False v(4), of p h] by blast
  from server_puts [OF v(1,2) False l v(3), of p] show ?thesis
  proof (elim disjE exE conjE)
    fix st' assume a: "shmfifo_put False p h ?st ?d (int (length ?d)) = Ret 0 st'" "ready h st'" "holds h st' (recs @ [?d])"
    have "mc_inv h all (s\<lparr>ms_srv := s1\<lparr>dv_shm := st'\<rparr>, ms_in := rs\<rparr>) (recs @ [?d])"
      using inv n i False l a s1(2) by (simp add: mc_inv_def pending_def)
    then show ?thesis using s1(1) a(1) by (auto simp: server_put_done_def)
  next
    fix st' assume a: "shmfifo_put False p h ?st ?d (int (length ?d)) = Blocked SI_WRITER st'" "ready h st'" "holds h st' recs"
      "ringsz h \<le> shm_used h (seg st') + (length ?d + bh_size)"
    have "mc_inv h all (s\<lparr>ms_srv := s1\<lparr>dv_shm := st'\<rparr>, ms_in := rs, ms_asleep := Some ?d\<rparr>) recs"
      using inv n i False l a s1(2) by (simp add: mc_inv_def pending_def)
    then show ?thesis using s1(1) a(1) by (auto simp: server_put_done_def)
  qed
qed

lemma server_wake_cases:
  assumes inv: "mc_inv h all s recs" and n: "ms_asleep s = Some d" and w: "writerVal (sem (dv_shm (ms_srv s))) \<noteq> 0"
  shows "(\<exists>v recs'. server_wake p h d (ms_srv s) = Next v \<and> mc_inv h all (s\<lparr>ms_srv := v, ms_asleep := None\<rparr>) recs') \<or>
    (\<exists>v. server_wake p h d (ms_srv s) = Asleep SI_WRITER d v \<and> mc_inv h all (s\<lparr>ms_srv := v, ms_asleep := Some d\<rparr>) recs \<and>
      ringsz h \<le> shm_used h (seg (dv_shm v)) + (length d + bh_size))"
proof -
  let ?st = "dv_shm (ms_srv s)"
  have v: "ready h ?st" "holds h ?st recs" "d \<noteq> []" "length d \<le> MAX_MSG" "MAX_MSG + bh_size < ringsz h"
    using inv n by (simp_all add: mc_inv_def)
  obtain st1 where st1: "wait_wake p h ?st SI_WRITER = Ret 0 st1" and c:
    "(\<exists>st'. put_tail p h (put_wait p h st1 (length d + bh_size)) d = Ret 0 st' \<and> ready h st' \<and> holds h st' (recs @ [d])) \<or>
     (\<exists>st'. put_tail p h (put_wait p h st1 (length d + bh_size)) d = Blocked SI_WRITER st' \<and> ready h st' \<and> holds h st' recs \<and>
       ringsz h \<le> shm_used h (seg st') + (length d + bh_size))"
    using server_resumes [OF v w, of p] by blast
  from c show ?thesis
  proof (elim disjE exE conjE)
    fix st' assume a: "put_tail p h (put_wait p h st1 (length d + bh_size)) d = Ret 0 st'" "ready h st'" "holds h st' (recs @ [d])"
    have "mc_inv h all (s\<lparr>ms_srv := (ms_srv s)\<lparr>dv_shm := st'\<rparr>, ms_asleep := None\<rparr>) (recs @ [d])"
      using inv n v a by (simp add: mc_inv_def pending_def)
    then show ?thesis using st1 a(1) by (auto simp: server_wake_def server_put_done_def)
  next
    fix st' assume a: "put_tail p h (put_wait p h st1 (length d + bh_size)) d = Blocked SI_WRITER st'" "ready h st'" "holds h st' recs"
      "ringsz h \<le> shm_used h (seg st') + (length d + bh_size)"
    have "mc_inv h all (s\<lparr>ms_srv := (ms_srv s)\<lparr>dv_shm := st'\<rparr>, ms_asleep := Some d\<rparr>) recs"
      using inv n v a by (simp add: mc_inv_def pending_def)
    then show ?thesis using st1 a(1,4) by (auto simp: server_wake_def server_put_done_def)
  qed
qed

lemma reader_gets:
  assumes inv: "mc_inv h all s (d # recs)"
  shows "\<exists>st. shmfifo_get False q h (dv_shm (ms_srv s)) (int MAX_MSG) = Ret (0, Some (int (length d)), Some d) st \<and>
    mc_inv h all (s\<lparr>ms_srv := (ms_srv s)\<lparr>dv_shm := st\<rparr>, ms_taken := ms_taken s @ [d]\<rparr>) recs"
proof -
  let ?st = "dv_shm (ms_srv s)"
  have v: "ready h ?st" "shm_inv h (seg ?st)" "shm_content h (seg ?st) = frame d @ concat (map frame recs)" "d \<noteq> []"
    "int (length d) \<le> int MAX_MSG" using inv by (simp_all add: mc_inv_def holds_def)
  obtain st where st: "shmfifo_get False q h ?st (int MAX_MSG) = Ret (0, Some (int (length d)), Some d) st" "ready h st"
    "shm_inv h (seg st)" "shm_content h (seg st) = concat (map frame recs)" "writerVal (sem st) = 1"
    using shmfifo_get_ok [OF v, of q] by blast
  then have "mc_inv h all (s\<lparr>ms_srv := (ms_srv s)\<lparr>dv_shm := st\<rparr>, ms_taken := ms_taken s @ [d]\<rparr>) recs"
    using inv by (auto simp: mc_inv_def holds_def pending_def split: option.split)
  with st(1) show ?thesis by blast
qed

lemma nonempty_records: "mc_inv h all s recs \<Longrightarrow> shmfifo_empty (Some h) (seg (dv_shm (ms_srv s))) = 0 \<longleftrightarrow> recs \<noteq> []"
proof -
  assume inv: "mc_inv h all s recs"
  have "shm_content h (seg (dv_shm (ms_srv s))) = [] \<longleftrightarrow> recs = []"
    using inv by (cases recs) (auto simp: mc_inv_def holds_def frame_def le32_def)
  then show ?thesis
    using shmfifo_empty_iff [of h "seg (dv_shm (ms_srv s))"] inv
    by (auto simp: mc_inv_def holds_def shmfifo_empty_def split: if_splits)
qed

lemma mc_step_inv: "mc_step p q h s s' \<Longrightarrow> mc_inv h all s recs \<Longrightarrow> \<exists>recs'. mc_inv h all s' recs'"
proof (induction rule: mc_step.cases)
  case (receive s1 r rs v)
  then show ?case using server_step_cases [of h all s1 recs r rs p] by auto
next
  case (sleep s1 r rs i d v)
  then show ?case using server_step_cases [of h all s1 recs r rs p] by auto
next
  case (wake s1 d v)
  then show ?case using server_wake_cases [of h all s1 recs d p] by auto
next
  case (sleep_again s1 d i d' v)
  then show ?case using server_wake_cases [of h all s1 recs d p] by auto
next
  case (get s1 n d st)
  then obtain d0 recs0 where "recs = d0 # recs0" using nonempty_records [of h all s1 recs] by (cases recs) auto
  with get reader_gets [of h all s1 d0 recs0 q] show ?case by auto
qed

section \<open>Datagrams arrive in order\<close>

lemma mc_start_inv: "mc_start h s \<Longrightarrow> mc_inv h (ms_in s) s []"
  by (simp add: mc_start_def mc_inv_def pending_def)

lemma mc_reach_inv: "(mc_step p q h)\<^sup>*\<^sup>* s s' \<Longrightarrow> mc_inv h all s recs \<Longrightarrow> \<exists>recs'. mc_inv h all s' recs'"
  by (induction arbitrary: recs rule: rtranclp_induct) (blast dest: mc_step_inv)+

text \<open>Nothing more can happen.\<close>

definition mc_stuck :: "int \<Rightarrow> int \<Rightarrow> shmhandle \<Rightarrow> mcsys \<Rightarrow> bool" where
  "mc_stuck p q h s \<longleftrightarrow> \<not> (\<exists>s'. mc_step p q h s s')"

lemma stuck_delivered: "mc_inv h all s recs \<Longrightarrow> mc_stuck p q h s \<Longrightarrow> ms_taken s = payloads all"
proof -
  assume inv: "mc_inv h all s recs" and st: "mc_stuck p q h s"
  have r: "recs = []"
  proof (rule ccontr)
    assume "recs \<noteq> []"
    then obtain d recs0 where c: "recs = d # recs0" by (cases recs) auto
    then show False
      using reader_gets [of h all s d recs0 q] nonempty_records [OF inv] inv st unfolding mc_stuck_def by (blast intro: mc_step.get)
  qed
  have u: "shm_used h (seg (dv_shm (ms_srv s))) = 0"
    using inv r length_records [of h "dv_shm (ms_srv s)" "[]"] by (simp add: mc_inv_def)
  have a: "ms_asleep s = None"
  proof (rule ccontr)
    assume "ms_asleep s \<noteq> None"
    then obtain d where d: "ms_asleep s = Some d" by blast
    have "length d + bh_size < ringsz h" using inv d by (auto simp: mc_inv_def)
    then have w: "writerVal (sem (dv_shm (ms_srv s))) \<noteq> 0" using inv d u by (auto simp: mc_inv_def)
    from server_wake_cases [OF inv d w, of p] st d w show False unfolding mc_stuck_def by (blast intro: mc_step.wake mc_step.sleep_again)
  qed
  have "ms_in s = []"
  proof (rule ccontr)
    assume "ms_in s \<noteq> []"
    then obtain x xs where i: "ms_in s = x # xs" by (cases "ms_in s") auto
    from server_step_cases [OF inv a i, of p] st a i show False unfolding mc_stuck_def by (blast intro: mc_step.receive mc_step.sleep)
  qed
  with inv r a show ?thesis by (simp add: mc_inv_def pending_def)
qed

text \<open>The system can always come to rest: what is left to do is measured by \<open>mc_left\<close>.\<close>

definition mc_left :: "mcsys \<Rightarrow> byte list list \<Rightarrow> nat" where
  "mc_left s recs = 3 * length (ms_in s) + 2 * length (pending s) + length recs"

lemma empty_ring: "mc_inv h all s [] \<Longrightarrow> shm_used h (seg (dv_shm (ms_srv s))) = 0"
  using length_records [of h "dv_shm (ms_srv s)" "[]"] by (simp add: mc_inv_def)

lemma mc_progress:
  assumes inv: "mc_inv h all s recs" and "ms_taken s \<noteq> payloads all \<or> ms_in s \<noteq> []"
  shows "\<exists>s' recs'. mc_step p q h s s' \<and> mc_inv h all s' recs' \<and> mc_left s' recs' < mc_left s recs"
proof (cases recs)
  case (Cons d recs0)
  then show ?thesis
    using reader_gets [of h all s d recs0 q] nonempty_records [OF inv] inv
    by (fastforce simp: mc_left_def pending_def intro: mc_step.get)
next
  case r: Nil
  show ?thesis
  proof (cases "ms_asleep s")
    case (Some d)
    have n: "length d + bh_size < ringsz h" using inv Some by (auto simp: mc_inv_def)
    then have w: "writerVal (sem (dv_shm (ms_srv s))) \<noteq> 0" using inv Some empty_ring [of h all s] r by (auto simp: mc_inv_def)
    from server_wake_cases [OF inv Some w, of p] show ?thesis
    proof (elim disjE exE conjE)
      fix v recs' assume v: "server_wake p h d (ms_srv s) = Next v" "mc_inv h all (s\<lparr>ms_srv := v, ms_asleep := None\<rparr>) recs'"
      have "ms_taken s @ recs @ [d] @ payloads (ms_in s) = ms_taken s @ recs' @ payloads (ms_in s)"
        using inv v(2) Some by (simp add: mc_inv_def pending_def)
      then have "recs' = [d]" using r by simp
      with v Some r mc_step.wake [OF Some w v(1), of q] show ?thesis
        by (intro exI [of _ "s\<lparr>ms_srv := v, ms_asleep := None\<rparr>"] exI [of _ recs']) (simp add: mc_left_def pending_def)
    next
      fix v assume "mc_inv h all (s\<lparr>ms_srv := v, ms_asleep := Some d\<rparr>) recs" "ringsz h \<le> shm_used h (seg (dv_shm v)) + (length d + bh_size)"
      then show ?thesis using empty_ring [of h all "s\<lparr>ms_srv := v, ms_asleep := Some d\<rparr>"] r n by simp
    qed
  next
    case None
    have "ms_in s \<noteq> []" using assms r None by (auto simp: mc_inv_def pending_def)
    then obtain x xs where i: "ms_in s = x # xs" by (cases "ms_in s") auto
    from server_step_cases [OF inv None i, of p] show ?thesis
    proof (elim disjE exE conjE)
      fix v recs' assume v: "server_step False p h x (ms_srv s) = Next v" "mc_inv h all (s\<lparr>ms_srv := v, ms_in := xs\<rparr>) recs'"
      have "ms_taken s @ payloads (ms_in s) = ms_taken s @ recs' @ payloads xs"
        using inv v(2) None r by (simp add: mc_inv_def pending_def)
      then have "payloads (ms_in s) = recs' @ payloads xs" by simp
      then have "length recs' \<le> 1" using i by (auto split: if_splits)
      with v None r i mc_step.receive [OF None i v(1), of q] show ?thesis
        by (intro exI [of _ "s\<lparr>ms_srv := v, ms_in := xs\<rparr>"] exI [of _ recs']) (simp add: mc_left_def pending_def)
    next
      fix v assume v: "server_step False p h x (ms_srv s) = Asleep SI_WRITER (payload x) v"
        "mc_inv h all (s\<lparr>ms_srv := v, ms_in := xs, ms_asleep := Some (payload x)\<rparr>) recs"
      with None r i mc_step.sleep [OF None i v(1), of q] show ?thesis
        by (intro exI [of _ "s\<lparr>ms_srv := v, ms_in := xs, ms_asleep := Some (payload x)\<rparr>"] exI [of _ recs]) (simp add: mc_left_def pending_def)
    qed
  qed
qed

lemma mc_finishes: "mc_inv h all s recs \<Longrightarrow> \<exists>s'. (mc_step p q h)\<^sup>*\<^sup>* s s' \<and> ms_taken s' = payloads all \<and> ms_in s' = []"
proof (induction "mc_left s recs" arbitrary: s recs rule: less_induct)
  case less
  show ?case
  proof (cases "ms_taken s \<noteq> payloads all \<or> ms_in s \<noteq> []")
    case True
    from mc_progress [OF less.prems True, of p q] obtain s1 recs1 where
      s1: "mc_step p q h s s1" "mc_inv h all s1 recs1" "mc_left s1 recs1 < mc_left s recs" by blast
    from less.hyps [OF s1(3,2)] s1(1) show ?thesis by (meson converse_rtranclp_into_rtranclp)
  next
    case False
    then show ?thesis by blast
  qed
qed

lemma mc_comes_to_rest: "mc_start h s \<Longrightarrow> \<exists>s'. (mc_step p q h)\<^sup>*\<^sup>* s s' \<and> mc_stuck p q h s'"
proof -
  assume st: "mc_start h s"
  obtain s' where s': "(mc_step p q h)\<^sup>*\<^sup>* s s'" "ms_taken s' = payloads (ms_in s)" "ms_in s' = []"
    using mc_finishes [OF mc_start_inv [OF st]] by blast
  obtain recs where inv: "mc_inv h (ms_in s) s' recs" using mc_reach_inv [OF s'(1) mc_start_inv [OF st]] by blast
  then have e: "recs = []" "ms_asleep s' = None"
    using s'(2,3) by (auto simp: mc_inv_def pending_def split: option.splits)
  then have "shmfifo_empty (Some h) (seg (dv_shm (ms_srv s'))) \<noteq> 0" using nonempty_records [OF inv] by simp
  then have "mc_stuck p q h s'" using e s'(3) unfolding mc_stuck_def by (auto elim: mc_stepE)
  with s'(1) show ?thesis by blast
qed

lemma rest_delivered: "mc_start h s \<Longrightarrow> (mc_step p q h)\<^sup>*\<^sup>* s s' \<Longrightarrow> mc_stuck p q h s' \<Longrightarrow> ms_taken s' = payloads (ms_in s)"
  using mc_reach_inv mc_start_inv stuck_delivered by blast

text \<open>
  C13: However the server and a reader of the FIFO take turns, and however often the server has to wait for room: the
  records taken out are a beginning of the datagrams that were received, in order, each cut at 10000 bytes; and
  the two can only come to rest when every datagram has been taken out, which they can always still do.
\<close>

theorem datagrams_in_order:
  assumes "mc_start h s" "(mc_step p q h)\<^sup>*\<^sup>* s s'"
  shows "(\<exists>rest. ms_taken s' @ rest = payloads (ms_in s)) \<and> (mc_stuck p q h s' \<longrightarrow> ms_taken s' = payloads (ms_in s)) \<and>
    (\<exists>s''. (mc_step p q h)\<^sup>*\<^sup>* s' s'' \<and> ms_taken s'' = payloads (ms_in s))"
proof -
  obtain recs where inv: "mc_inv h (ms_in s) s' recs" using mc_reach_inv [OF assms(2) mc_start_inv [OF assms(1)]] by blast
  then have "ms_taken s' @ (recs @ pending s' @ payloads (ms_in s')) = payloads (ms_in s)" by (simp add: mc_inv_def)
  with stuck_delivered [OF inv] mc_finishes [OF inv, of p q] show ?thesis by blast
qed

section \<open>Sequence numbers\<close>

text \<open>
  The number of a datagram that ends before byte 8 is the one of the datagram before it, which is then reported as
  retrograde; and the number 2^31, which follows 2^31 - 1 on the wire, is reported as a gap of almost 2^64 packets.
\<close>

theorem sbn_number_faults:
  assumes "length d \<le> 8" "12 \<le> length m"
  shows "server_note (sbn_number m) (sbn_number (blit m 0 d)) = Retrograde (sbn_number m) (sbn_number m) \<and>
    (take 4 (drop 8 m) = [128, 0, 0, 0] \<longrightarrow> server_note (2 ^ 31 - 1) (sbn_number m) = Gap (2 ^ 31 - 1) (2 ^ 64 - 2 ^ 31) (2 ^ 64 - 2 ^ 32))"
proof -
  have n: "blit m 0 d ! i = m ! i" if "8 \<le> i" "i < 12" for i
    using assms that by (simp add: blit_def nth_append)
  have "sbn_number (blit m 0 d) = sbn_number m" by (simp add: sbn_number_def n)
  moreover have "sbn_number m = 2 ^ 64 - 2 ^ 31" if t: "take 4 (drop 8 m) = [128, 0, 0, 0]"
  proof -
    have e: "m ! (8 + i) = [128, 0, 0, 0] ! i" if "i < 4" for i
    proof -
      have "m ! (8 + i) = take 4 (drop 8 m) ! i" using that assms(2) by simp
      then show ?thesis unfolding t .
    qed
    have "m ! 8 = 128" "m ! 9 = 0" "m ! 10 = 0" "m ! 11 = 0" using e [of 0] e [of 1] e [of 2] e [of 3] by simp_all
    moreover have "i32 2147483648 = - 2147483648" by (simp add: i32_def signed_take_bit_eq_if_negative)
    ultimately show ?thesis by (simp add: sbn_number_def be32_def to_size_def)
  qed
  ultimately show ?thesis by (simp add: server_note_def)
qed

section \<open>The child\<close>



section \<open>Options\<close>

text \<open>The size of the FIFO is between 500 and 40000 pages, and the priority between -20 and 20, whatever the options are.\<close>

theorem dv_options_bounds:
  assumes "dv_options os (dv_init q) = Some (Inr p)"
  shows "500 \<le> dv_bufpag p \<and> dv_bufpag p \<le> 40000 \<and> - 20 \<le> dv_ipri p \<and> dv_ipri p \<le> 20"
proof -
  have c: "500 \<le> clamp_pages n" "clamp_pages n \<le> 40000" "- 20 \<le> clamp_priority n" "clamp_priority n \<le> 20" for n
    by (simp_all add: clamp_pages_def clamp_priority_def Let_def)
  have step: "500 \<le> dv_bufpag b \<and> dv_bufpag b \<le> 40000 \<and> - 20 \<le> dv_ipri b \<and> dv_ipri b \<le> 20"
    if "dv_option ch arg a = Some (Inr b)" "500 \<le> dv_bufpag a \<and> dv_bufpag a \<le> 40000 \<and> - 20 \<le> dv_ipri a \<and> dv_ipri a \<le> 20" for ch arg a b
    using that c by (auto simp: dv_option_def add_level_def split: if_splits)
  have "500 \<le> dv_bufpag p \<and> dv_bufpag p \<le> 40000 \<and> - 20 \<le> dv_ipri p \<and> dv_ipri p \<le> 20"
    if "dv_options os a = Some (Inr p)" "500 \<le> dv_bufpag a \<and> dv_bufpag a \<le> 40000 \<and> - 20 \<le> dv_ipri a \<and> dv_ipri a \<le> 20" for os a
    using that
  proof (induction os a rule: dv_options.induct)
    case (2 ch arg os a)
    then obtain b where "dv_option ch arg a = Some (Inr b)" "dv_options os b = Some (Inr p)"
      by (auto split: option.splits sum.splits)
    with 2 step show ?case by blast
  qed simp
  with assms show ?thesis by (simp add: dv_init_def CBUFPAG_def)
qed

section \<open>Instances\<close>

definition demo_shm :: shmhandle where
  "demo_shm = demo_h\<lparr>h_mem := True, h_privsz := 4, h_sz := 20000\<rparr>"

definition demo_shm_st :: shmst where
  "demo_shm_st = demo_st\<lparr>seg := \<lparr>counter = 0, s_read = 24, s_write = 24, s_sz = 20000, s_privsz = 4, mem = replicate 20000 0\<rparr>\<rparr>"

definition demo_server :: mcsys where
  "demo_server = \<lparr>ms_srv = \<lparr>dv_msg = replicate 10000 0, dv_last = 0, dv_haslogged = False, dv_notes = [], dv_shm = demo_shm_st\<rparr>,
     ms_in = [RecvFailed, Datagram [1, 2, 3], Datagram []], ms_asleep = None, ms_taken = []\<rparr>"

lemma demo_shm_ok: "h_mem demo_shm" "ready demo_shm demo_shm_st" "holds demo_shm demo_shm_st []" "ringsz demo_shm = 19976"
  "shm_used demo_shm (seg demo_shm_st) = 0"
  by (simp_all add: demo_shm_def demo_shm_st_def demo_h_def demo_st_def ready_def holds_def shm_inv_def base_def prefix_size_def
      shm_content_def shm_used_def ringsz_def)

theorem datagrams_in_order_witness:
  "\<exists>s'. mc_step 7 8 demo_shm demo_server s' \<and> (\<exists>rest. ms_taken s' @ rest = [[1, 2, 3]])"
proof -
  have st: "mc_start demo_shm demo_server"
    using demo_shm_ok by (simp add: mc_start_def demo_server_def MAX_MSG_def bh_size_def)
  let ?v = "(ms_srv demo_server)\<lparr>dv_haslogged := True\<rparr>"
  have "mc_step 7 8 demo_shm demo_server (demo_server\<lparr>ms_srv := ?v, ms_in := [Datagram [1, 2, 3], Datagram []]\<rparr>)"
    by (rule mc_step.receive [where r = RecvFailed]) (simp_all add: demo_server_def server_step_def)
  moreover from this have "(mc_step 7 8 demo_shm)\<^sup>*\<^sup>* demo_server (demo_server\<lparr>ms_srv := ?v, ms_in := [Datagram [1, 2, 3], Datagram []]\<rparr>)" by simp
  moreover have "payloads (ms_in demo_server) = [[1, 2, 3]]" by (simp add: demo_server_def payloads_def MAX_MSG_def)
  ultimately show ?thesis using datagrams_in_order [OF st] by metis
qed

theorem sbn_number_faults_witness:
  "server_note (sbn_number (replicate 12 7)) (sbn_number (blit (replicate 12 7) 0 [1])) = Retrograde (sbn_number (replicate 12 7)) (sbn_number (replicate 12 7))"
  using sbn_number_faults [of "[1]" "replicate 12 7"] by simp


theorem dv_options_bounds_witness:
  "\<exists>p. dv_options [(CHR ''b'', digits 7), (CHR ''m'', [])] (dv_init []) = Some (Inr p) \<and> 500 \<le> dv_bufpag p"
proof -
  have "dv_options [(CHR ''b'', digits 7), (CHR ''m'', [])] (dv_init []) = Some (Inr ((dv_init [])\<lparr>dv_bufpag := clamp_pages 7, dv_memsegflg := True\<rparr>))"
    using atoi_digits [of 7] by (simp add: dv_option_def)
  then show ?thesis using dv_options_bounds by blast
qed

end
