(* ===== verification/Readnoaaport_Main.thy ===== *)
theory Readnoaaport_Main
  imports Rn_Simulation Dvbs_Multicast
begin

text \<open>
  The command line of \<open>readnoaaport.c\<close>, how it finds the shared-memory FIFO, and what its \<open>main\<close> does before and
  after the loop; and the connection with \<open>dvbs_multicast\<close>, from the datagrams to the LDM queue.
\<close>

section \<open>Finding the FIFO\<close>

text \<open>
  \<open>shmfifo_shm_from_key\<close> is tried again while it returns -3, one second later, at most 30 times. \<open>tries\<close> is what the
  kernel answers at each try; there is no try beyond its end.
\<close>

fun rn_get_fifo :: "(ipcres \<times> ipc) list \<Rightarrow> shmhandle option \<Rightarrow> int \<Rightarrow> nat \<Rightarrow> (int \<times> shmhandle option) option" where
  "rn_get_fifo [] shm key cnt = None"
| "rn_get_fifo ((r, k) # tries) shm key cnt =
     (case shmfifo_shm_from_key r shm key k of (status, shm1) \<Rightarrow>
        if status = - 3 \<and> cnt < 30 then rn_get_fifo tries shm1 key (cnt + 1) else Some (status, shm1))"

text \<open>On a failure the handle is freed and \<open>shm\<close> is \<open>NULL\<close>.\<close>

definition rn_fifo :: "ipcres \<Rightarrow> (ipcres \<times> ipc) list \<Rightarrow> int \<Rightarrow> shmhandle option option" where
  "rn_fifo r0 tries ch =
     map_option (\<lambda>(status, shm). if status \<noteq> 0 then None else shm) (rn_get_fifo tries (shmfifo_new r0) (s_port ! nat (ch - 1)) 0)"

section \<open>The command line\<close>

record rnopts =
  ro_logmask :: logmask
  ro_logfname :: "cstr option"
  ro_logFacility :: nat
  ro_pqfname :: cstr
  ro_channel :: int
  ro_shm :: "shmhandle option"

definition rn_init :: "cstr \<Rightarrow> nat \<Rightarrow> rnopts" where
  "rn_init queuePath LOG_LDM =
     \<lparr>ro_logmask = LOG_MASK LOG_ERR, ro_logfname = None, ro_logFacility = LOG_LDM, ro_pqfname = queuePath, ro_channel = - 1,
      ro_shm = None\<rparr>"

definition rn_level :: "nat \<Rightarrow> rnopts \<Rightarrow> rnopts" where
  "rn_level l p = p\<lparr>ro_logmask := ro_logmask p OR LOG_MASK l\<rparr>"

text \<open>An address without four numbers leaves the channel of an earlier option.\<close>

definition rn_option_m :: "ipcres \<Rightarrow> (ipcres \<times> ipc) list \<Rightarrow> cstr \<Rightarrow> rnopts \<Rightarrow> rnopts option" where
  "rn_option_m r0 tries arg p =
     (let ch = (case scan_last_octet arg of None \<Rightarrow> ro_channel p | Some c \<Rightarrow> c)
      in if i32 ch \<noteq> ch then None
         else if ch < 1 \<or> MAX_DVBS_PID < ch then Some (p\<lparr>ro_channel := - 1\<rparr>)
         else map_option (\<lambda>shm. p\<lparr>ro_channel := ch, ro_shm := shm\<rparr>) (rn_fifo r0 tries ch))"

text \<open>As for \<^const>\<open>dv_option\<close>; \<open>tries\<close> serves every \<open>-m\<close> anew.\<close>

definition rn_option :: "ipcres \<Rightarrow> (ipcres \<times> ipc) list \<Rightarrow> char \<Rightarrow> cstr \<Rightarrow> rnopts \<Rightarrow> (int + rnopts) option" where
  "rn_option r0 tries ch arg p =
     (if ch = CHR ''v'' then Some (Inr (rn_level LOG_INFO p))
      else if ch = CHR ''x'' then Some (Inr (rn_level LOG_DEBUG p))
      else if ch = CHR ''n'' then Some (Inr (rn_level LOG_NOTICE p))
      else if ch = CHR ''l'' then Some (if bad_logname arg then Inl 1 else Inr (p\<lparr>ro_logfname := Some arg\<rparr>))
      else if ch = CHR ''q'' then Some (Inr (p\<lparr>ro_pqfname := arg\<rparr>))
      else if ch = CHR ''u''
      then map_option (\<lambda>i. Inr (if 0 \<le> i \<and> i \<le> 7 then p\<lparr>ro_logFacility := logFacilities ! nat i\<rparr> else p)) (atoi arg)
      else if ch = CHR ''m'' then map_option Inr (rn_option_m r0 tries arg p)
      else if ch = CHR ''?'' then Some (Inl 1)
      else Some (Inr p))"

fun rn_options :: "ipcres \<Rightarrow> (ipcres \<times> ipc) list \<Rightarrow> (char \<times> cstr) list \<Rightarrow> rnopts \<Rightarrow> (int + rnopts) option" where
  "rn_options r0 tries [] p = Some (Inr p)"
| "rn_options r0 tries ((ch, arg) # os) p =
     (case rn_option r0 tries ch arg p of
        None \<Rightarrow> None
      | Some (Inl st) \<Rightarrow> Some (Inl st)
      | Some (Inr q) \<Rightarrow> rn_options r0 tries os q)"

section \<open>Around the loop\<close>

text \<open>\<open>path_fd\<close> is the result of \<open>open\<close> on the path argument, if there is one, \<open>stdin_fd\<close> of \<open>fileno\<close>.\<close>

record rn_setup_env =
  re_path_fd :: "int option"
  re_stdin_fd :: int
  re_atexit :: int
  re_malloc :: bool
  re_lpq :: "cstr \<Rightarrow> int"

datatype rn_setup = RnExit int | RnRuns int bool

text \<open>The loop reads shared memory if there is a handle, whatever the descriptor is.\<close>

definition rn_prepare :: "rn_setup_env \<Rightarrow> rnopts \<Rightarrow> rn_setup" where
  "rn_prepare R p =
     (let fd = (case re_path_fd R of None \<Rightarrow> re_stdin_fd R | Some d \<Rightarrow> d)
      in if ro_shm p = None \<and> fd = - 1 then RnExit 0
         else if re_atexit R \<noteq> 0 then RnExit (- 1)
         else if \<not> re_malloc R then RnExit (- 1)
         else if re_lpq R (ro_pqfname p) \<noteq> 0 then RnExit 1
         else RnRuns fd (ro_shm p \<noteq> None))"

text \<open>What \<open>cleanup\<close> leaves: the handle is detached and freed.\<close>

definition rn_cleanup :: "rnopts \<Rightarrow> rnopts" where
  "rn_cleanup p = p\<lparr>ro_shm := None\<rparr>"

section \<open>The FIFO of dvbs_multicast is found\<close>

lemma key_missing:
  "sem_keys k (DVBS_ID + key) = None \<Longrightarrow> key \<noteq> - 1 \<Longrightarrow> shmfifo_shm_from_key r (Some h) key k = (- 3, Some h)"
  by (simp add: shmfifo_shm_from_key_def get_existing_def Let_def)

lemma rn_get_fifo_waits:
  assumes "\<forall>(r, k) \<in> set tries. sem_keys k (DVBS_ID + key) = None" "cnt + length tries \<le> 30" "key \<noteq> - 1"
    and "shmfifo_shm_from_key r (Some h) key k = (0, shm)"
  shows "rn_get_fifo (tries @ (r, k) # later) (Some h) key cnt = Some (0, shm)"
  using assms
proof (induction tries arbitrary: cnt)
  case (Cons t tries)
  obtain r1 k1 where t: "t = (r1, k1)" by (cases t)
  have "shmfifo_shm_from_key r1 (Some h) key k1 = (- 3, Some h)" using Cons.prems t by (intro key_missing) simp_all
  with Cons t show ?case by simp
qed simp

lemma rn_get_fifo_gives_up:
  assumes "\<forall>(r, k) \<in> set tries. sem_keys k (DVBS_ID + key) = None" "cnt \<le> 30" "30 < cnt + length tries" "key \<noteq> - 1"
  shows "rn_get_fifo tries (Some h) key cnt = Some (- 3, Some h)"
  using assms
proof (induction tries arbitrary: cnt)
  case (Cons t tries)
  obtain r1 k1 where t: "t = (r1, k1)" by (cases t)
  have "shmfifo_shm_from_key r1 (Some h) key k1 = (- 3, Some h)" using Cons.prems t by (intro key_missing) simp_all
  with Cons t show ?case by simp
qed simp

text \<open>The FIFO of \<open>dvbs_multicast\<close>: with \<open>-m\<close> it has the key of the channel, and without it none at all.\<close>

lemma dv_setup_fifo:
  assumes "dv_setup D p (dotted a b c d) k = Parent h port k'"
  shows "1 \<le> d \<and> d \<le> 8 \<and> (\<exists>h0. h = h0\<lparr>h_mem := True\<rparr> \<and>
    shmfifo_create (dr_ipc D) (dv_bufpag p) 4 (if dv_memsegflg p then int (1200 + d) else - 1) k = Some (Some h0, k'))"
proof -
  have "1 \<le> int d \<and> int d \<le> 8" using assms by (simp add: dv_setup_def scan_dotted MAX_DVBS_PID_def Let_def not_less split: if_splits)
  then have d: "1 \<le> d" "d \<le> 8" by linarith+
  have port: "s_port ! nat (int d - 1) = int (1200 + d)" using s_port_nth [OF d] d(1) by (simp add: nat_diff_distrib')
  show ?thesis
    using assms d unfolding dv_setup_def scan_dotted Let_def option.case port
    by (auto simp: dv_parent_def dv_socket_def shmfifo_attach_def Let_def split: if_splits option.splits)
qed

text \<open>
  C15: \<open>dvbs_multicast\<close> listens to the group of channel \<open>d\<close>, where no channel had a FIFO before. Up to 30 seconds earlier
  \<open>readnoaaport -m\<close> has begun to look for the FIFO of channel \<open>e\<close>. If the channels are the same, and
  \<open>dvbs_multicast\<close> was called with \<open>-m\<close>, it gets the handle that \<open>dvbs_multicast\<close> has; otherwise it gives up and has none.
\<close>

theorem fifo_found_by_channel:
  assumes "dv_setup D p (dotted a b c d) k = Parent h port k'" "\<forall>f. 1 \<le> f \<and> f \<le> 8 \<longrightarrow> sem_keys k (DVBS_ID + 1200 + f) = None"
    and "1 \<le> e" "e \<le> 8" "r_malloc r0" "\<forall>(r, k1) \<in> set tries. k1 = k" "length tries \<le> 30"
    and "r_semget r \<noteq> - 1" "r_shmget r \<noteq> - 1" "r_shmat r"
    and "\<forall>(r, k1) \<in> set later. k1 = k'" "30 \<le> length tries + length later"
  shows "\<exists>q'. rn_option_m r0 (tries @ (r, k') # later) (dotted x y z e) q = Some q' \<and> ro_channel q' = int e \<and>
    ro_shm q' = (if dv_memsegflg p \<and> e = d then Some h else None)"
proof -
  let ?key = "int (1200 + e)" and ?h0 = "\<lparr>h_sid = 0, h_mem = False, h_privsz = 0, h_semid = 0, h_sz = 0\<rparr>"
  let ?nkey = "if dv_memsegflg p then int (1200 + d) else - 1"
  obtain h0 where d: "1 \<le> d" "d \<le> 8" and h0: "h = h0\<lparr>h_mem := True\<rparr>" "shmfifo_create (dr_ipc D) (dv_bufpag p) 4 ?nkey k = Some (Some h0, k')"
    using dv_setup_fifo [OF assms(1)] by blast
  have new: "shmfifo_new r0 = Some ?h0" using assms(5) by (simp add: shmfifo_new_def)
  have none: "sem_keys k (DVBS_ID + ?key) = None" using assms(2-4) by (auto simp: add.assoc dest: spec [of _ "int e"])
  then have tr: "\<forall>(r, k1) \<in> set tries. sem_keys k1 (DVBS_ID + ?key) = None" using assms(6) by auto
  have get: "rn_get_fifo (tries @ (r, k') # later) (Some ?h0) ?key 0 = Some (if dv_memsegflg p \<and> e = d then (0, Some h) else (- 3, Some ?h0))"
  proof (cases "dv_memsegflg p \<and> e = d")
    case True
    then have "shmfifo_shm_from_key r (Some ?h0) ?key k' = (0, Some h)"
      unfolding h0(1) using h0(2) assms(8-10) by (intro created_found) (auto simp: DVBS_ID_def)
    then show ?thesis using tr assms(7) True by (subst rn_get_fifo_waits) auto
  next
    case False
    let ?k = "if ?nkey = - 1 then 0 else DVBS_ID + ?nkey"
    note C = shmfifo_created [OF h0(2)]
    have "fst (get_create (r_semget (dr_ipc D)) ?k (sem_keys k)) \<noteq> - 1" using C(3) by (subst (asm) C(1)) simp
    moreover have "DVBS_ID + ?key \<noteq> ?k" "?k = 0 \<or> ?k \<noteq> 0" using False by (auto simp: DVBS_ID_def)
    ultimately have "sem_keys k' (DVBS_ID + ?key) = None"
      using get_existing_created(2) [of "r_semget (dr_ipc D)" ?k "sem_keys k" "DVBS_ID + ?key"] none C(7)
      by (cases "?k = 0") (auto simp: get_create_private)
    then have "\<forall>(r, k1) \<in> set (tries @ (r, k') # later). sem_keys k1 (DVBS_ID + ?key) = None" using tr assms(11) by auto
    then show ?thesis using assms(12) False by (subst rn_get_fifo_gives_up) auto
  qed
  have port: "s_port ! nat (int e - 1) = ?key" using s_port_nth [OF assms(3,4)] assms(3) by (simp add: nat_diff_distrib')
  have i: "i32 (int e) = int e" using assms(4) by (intro i32_id) simp_all
  have "rn_fifo r0 (tries @ (r, k') # later) (int e) = Some (if dv_memsegflg p \<and> e = d then Some h else None)"
    unfolding rn_fifo_def port new get by simp
  then show ?thesis
    using assms(3,4) i by (simp add: rn_option_m_def scan_dotted Let_def MAX_DVBS_PID_def)
qed

text \<open>
  A channel out of range is not an error: \<open>readnoaaport -m\<close> goes on without shared memory and reads standard input.
\<close>

theorem bad_channel_reads_stdin:
  assumes "8 < d" "int d < 2 ^ 31" "re_path_fd R = None" "re_stdin_fd R = 0" "re_atexit R = 0" "re_malloc R" "re_lpq R q = 0"
  shows "\<exists>p. rn_options r0 tries [(CHR ''m'', dotted a b c d)] (rn_init q fac) = Some (Inr p) \<and> rn_prepare R p = RnRuns 0 False"
proof -
  have "i32 (int d) = int d" using assms(2) by (intro i32_id) simp_all
  then have "rn_option_m r0 tries (dotted a b c d) (rn_init q fac) = Some (rn_init q fac)"
    using assms(1) by (simp add: rn_option_m_def scan_dotted Let_def MAX_DVBS_PID_def rn_init_def)
  then show ?thesis
    using assms(3-7) by (simp add: rn_option_def rn_prepare_def rn_init_def Let_def)
qed

section \<open>From datagrams to products\<close>

text \<open>
  C2: The three stand-alone parts together: when \<open>dvbs_multicast\<close> has come to rest with the reader of its FIFO,
  \<open>readnoaaport\<close> has made the products that the product-maker makes of the datagrams' bytes in the order they were
  received, or has met something C leaves undefined.
\<close>

theorem broadcast_to_products:
  assumes "mc_start h s" "(mc_step p q h)\<^sup>*\<^sup>* s s'" "mc_stuck p q h s'" "fifo_env E" "pm_inp m = concat (payloads (ms_in s))"
  shows "case rn_main E m (Shm (map Record (ms_taken s')) []) of
      RWaiting r \<Rightarrow> pm_stops_with (pm_queue (rn_pm r)) (pmStart E m)
    | RUndefined \<Rightarrow> True
    | _ \<Rightarrow> False"
proof (rule rn_main_agrees [OF assms(4)])
  have "map reply_bytes (map Record xs) = xs" for xs by (induction xs) simp_all
  then show "pm_inp m = concat (map reply_bytes (map Record (ms_taken s')))"
    using rest_delivered [OF assms(1-3)] assms(5) by simp
qed auto

section \<open>Instances\<close>

definition demo_dv :: dv_env where
  "demo_dv = \<lparr>dr_mcast = demo_mcast, dr_channel = 0, dr_ipc = demo_res, dr_pq_open = (\<lambda>_. 0), dr_atexit = 0, dr_fork = 0, dr_setpriv = (\<lambda>_. True)\<rparr>"

lemma demo_dv_setup:
  "\<exists>h k'. dv_setup demo_dv (dv_init []\<lparr>dv_memsegflg := True\<rparr>) (dotted 224 0 1 3) demo_ipc = Parent h 1203 k'"
proof -
  have "\<exists>h k'. shmfifo_create demo_res 2000 4 1203 demo_ipc = Some (Some h, k') \<and> \<not> h_mem h"
    unfolding shmfifo_create_def Let_def
    by (simp add: demo_res_def demo_ipc_def i32_id shmfifo_new_def mem_write_def prefix_size_def get_create_def DVBS_ID_def)
  then show ?thesis
    by (auto simp: dv_setup_def demo_dv_def scan_dotted dv_init_def CBUFPAG_def i32_id MAX_DVBS_PID_def s_port_def dv_parent_def dv_socket_def
        shmfifo_attach_def demo_mcast_def IN_MULTICAST_def demo_res_def Let_def)
qed

theorem fifo_found_by_channel_witness:
  "\<exists>h k'. dv_setup demo_dv (dv_init []\<lparr>dv_memsegflg := True\<rparr>) (dotted 224 0 1 3) demo_ipc = Parent h 1203 k' \<and>
    (\<exists>q'. rn_option_m demo_res ([(demo_res, demo_ipc)] @ (demo_res, k') # replicate 30 (demo_res, k')) (dotted 224 0 1 3) (rn_init [] 0) = Some q' \<and>
      ro_shm q' = Some h) \<and>
    (\<exists>q'. rn_option_m demo_res ([(demo_res, demo_ipc)] @ (demo_res, k') # replicate 30 (demo_res, k')) (dotted 224 0 1 4) (rn_init [] 0) = Some q' \<and>
      ro_shm q' = None)"
proof -
  obtain h k' where d: "dv_setup demo_dv (dv_init []\<lparr>dv_memsegflg := True\<rparr>) (dotted 224 0 1 3) demo_ipc = Parent h 1203 k'"
    using demo_dv_setup by blast
  have r: "r_malloc demo_res" "r_semget demo_res \<noteq> - 1" "r_shmget demo_res \<noteq> - 1" "r_shmat demo_res" by (simp_all add: demo_res_def)
  have n: "\<forall>f. 1 \<le> f \<and> f \<le> 8 \<longrightarrow> sem_keys demo_ipc (DVBS_ID + 1200 + f) = None" by (simp add: demo_ipc_def)
  note t = fifo_found_by_channel [OF d n _ _ r(1) _ _ r(2-4), where tries = "[(demo_res, demo_ipc)]" and later = "replicate 30 (demo_res, k')"
      and x = 224 and y = 0 and z = 1 and q = "rn_init [] 0"]
  from t [of 3] t [of 4] d show ?thesis by (intro exI [of _ h] exI [of _ k']) auto
qed

theorem bad_channel_reads_stdin_witness:
  "\<exists>p. rn_options demo_res [] [(CHR ''m'', dotted 224 0 1 9)] (rn_init [] 0) = Some (Inr p) \<and>
    rn_prepare \<lparr>re_path_fd = None, re_stdin_fd = 0, re_atexit = 0, re_malloc = True, re_lpq = (\<lambda>_. 0)\<rparr> p = RnRuns 0 False"
  by (rule bad_channel_reads_stdin) simp_all

theorem broadcast_to_products_witness:
  "\<exists>s' :: mcsys. ms_taken s' = [[1, 2, 3]] \<and>
    (case rn_main (demo_env\<lparr>e_closed := \<lambda>_. False\<rparr>) (demo_pm [1, 2, 3]) (Shm (map Record (ms_taken s')) []) of
      RWaiting r \<Rightarrow> pm_stops_with (pm_queue (rn_pm r)) (pmStart (demo_env\<lparr>e_closed := \<lambda>_. False\<rparr>) (demo_pm [1, 2, 3]))
    | RUndefined \<Rightarrow> True
    | _ \<Rightarrow> False)"
proof -
  have st: "mc_start demo_shm demo_server"
    using demo_shm_ok by (simp add: mc_start_def demo_server_def MAX_MSG_def bh_size_def)
  obtain s' where s': "(mc_step 7 8 demo_shm)\<^sup>*\<^sup>* demo_server s'" "mc_stuck 7 8 demo_shm s'"
    using mc_comes_to_rest [OF st] by blast
  have E: "fifo_env (demo_env\<lparr>e_closed := \<lambda>_. False\<rparr>)" by (simp add: fifo_env_def demo_env_def)
  have p: "payloads (ms_in demo_server) = [[1, 2, 3]]" by (simp add: demo_server_def payloads_def MAX_MSG_def)
  have "pm_inp (demo_pm [1, 2, 3]) = concat (payloads (ms_in demo_server))" unfolding p by (simp add: demo_pm_def)
  from broadcast_to_products [OF st s' E this] rest_delivered [OF st s'] p show ?thesis by (intro exI [where x = s']) simp
qed

end
