(* ===== verification/G2_Bits.thy ===== *)
theory G2_Bits
  imports NP_Prelude
begin

text \<open>
  Bit fields of a GRIB2 message (\<open>gbits.c\<close> of the GRIB2 library): \<open>gbit\<close> and \<open>gbits\<close> take them out of the message,
  \<open>sbit\<close> and \<open>sbits\<close> put them in. \<open>g2int\<close> is a \<open>long\<close> of 64 bits; values are \<open>int\<close>, and a shift whose result does not fit
  is undefined. \<open>None\<close> is that, or an access outside the memory.
\<close>

section \<open>Extraction\<close>

definition ones :: "int list" where
  "ones = [1, 3, 7, 15, 31, 63, 127, 255]"

text \<open>\<open>x << k\<close> for a value that is not negative.\<close>

definition g2_shl :: "int \<Rightarrow> nat \<Rightarrow> int option" where
  "g2_shl x k = (if x * 2 ^ k < 2 ^ 63 then Some (x * 2 ^ k) else None)"

text \<open>Whole bytes; the result is the next index, the number of bits that are left and the value.\<close>

fun gbits_whole :: "byte list \<Rightarrow> nat \<Rightarrow> nat \<Rightarrow> int \<Rightarrow> (nat \<times> nat \<times> int) option" where
  "gbits_whole m index bitcnt itmp =
     (if 8 \<le> bitcnt
      then do { x \<leftarrow> g2_shl itmp 8; b \<leftarrow> rd m index; gbits_whole m (index + 1) (bitcnt - 8) (or x (uint b)) }
      else Some (index, bitcnt, itmp))"

declare gbits_whole.simps [simp del]

definition gbit :: "byte list \<Rightarrow> nat \<Rightarrow> nat \<Rightarrow> int option" where
  "gbit m iskip nbyte = do {
     let index = iskip div 8;
     let ibit = iskip mod 8;
     let tbit = (if nbyte < 8 - ibit then nbyte else 8 - ibit);
     b \<leftarrow> rd m index;
     let first = and (uint b) (ones ! (7 - ibit));
     let itmp = (if tbit \<noteq> 8 - ibit then drop_bit (8 - ibit - tbit) first else first);
     (index1, bitcnt, itmp1) \<leftarrow> gbits_whole m (index + 1) (nbyte - tbit) itmp;
     if 0 < bitcnt
     then do {
       x \<leftarrow> g2_shl itmp1 bitcnt;
       c \<leftarrow> rd m index1;
       Some (or x (and (drop_bit (8 - bitcnt) (uint c)) (ones ! (bitcnt - 1))))
     }
     else Some itmp1
   }"

fun gbits :: "byte list \<Rightarrow> nat \<Rightarrow> nat \<Rightarrow> nat \<Rightarrow> nat \<Rightarrow> int list option" where
  "gbits m iskip nbyte nskip 0 = Some []"
| "gbits m iskip nbyte nskip (Suc n) =
     do { v \<leftarrow> gbit m iskip nbyte; vs \<leftarrow> gbits m (iskip + nbyte + nskip) nbyte nskip n; Some (v # vs) }"

section \<open>Bits\<close>

text \<open>The bits of a byte and of a message, the most significant ones first, and the number that bits make.\<close>

definition byte_bits :: "byte \<Rightarrow> bool list" where
  "byte_bits b = rev (map (bit b) [0..<8])"

definition msg_bits :: "byte list \<Rightarrow> bool list" where
  "msg_bits m = concat (map byte_bits m)"

fun bits_acc :: "int \<Rightarrow> bool list \<Rightarrow> int" where
  "bits_acc a [] = a"
| "bits_acc a (x # xs) = bits_acc (2 * a + of_bool x) xs"

definition bits_val :: "bool list \<Rightarrow> int" where
  "bits_val xs = bits_acc 0 xs"

lemma bits_acc: "bits_acc a xs = a * 2 ^ length xs + bits_acc 0 xs"
proof (induction xs arbitrary: a)
  case (Cons x xs)
  show ?case using Cons [of "2 * a + of_bool x"] Cons [of "of_bool x"] by (simp add: algebra_simps)
qed simp

lemma bits_val_append: "bits_val (xs @ ys) = bits_val xs * 2 ^ length ys + bits_val ys"
proof -
  have "bits_acc a (xs @ ys) = bits_acc (bits_acc a xs) ys" for a by (induction xs arbitrary: a) simp_all
  then show ?thesis using bits_acc [of "bits_acc 0 xs" ys] by (simp add: bits_val_def)
qed

lemma bits_val_simps [simp]: "bits_val [] = 0" "bits_val [x] = of_bool x"
  by (simp_all add: bits_val_def)

lemma bits_val_bounds: "0 \<le> bits_val xs \<and> bits_val xs < 2 ^ length xs"
proof (induction xs rule: rev_induct)
  case (snoc x xs)
  then show ?case by (simp add: bits_val_append)
qed simp

lemma bits_val_div: "j \<le> length xs \<Longrightarrow> bits_val xs div 2 ^ j = bits_val (take (length xs - j) xs)"
proof -
  assume j: "j \<le> length xs"
  let ?a = "take (length xs - j) xs" and ?b = "drop (length xs - j) xs"
  have "bits_val xs = bits_val ?a * 2 ^ j + bits_val ?b"
    using bits_val_append [of ?a ?b] j by simp
  moreover have "0 \<le> bits_val ?b" "bits_val ?b < 2 ^ j" using bits_val_bounds [of ?b] j by simp_all
  ultimately show ?thesis by simp
qed

lemma bits_val_mod: "j \<le> length xs \<Longrightarrow> bits_val xs mod 2 ^ j = bits_val (drop (length xs - j) xs)"
proof -
  assume j: "j \<le> length xs"
  let ?a = "take (length xs - j) xs" and ?b = "drop (length xs - j) xs"
  have "bits_val xs = bits_val ?a * 2 ^ j + bits_val ?b"
    using bits_val_append [of ?a ?b] j by simp
  moreover have "0 \<le> bits_val ?b" "bits_val ?b < 2 ^ j" using bits_val_bounds [of ?b] j by simp_all
  ultimately show ?thesis by simp
qed

lemma length_byte_bits [simp]: "length (byte_bits b) = 8"
  by (simp add: byte_bits_def)

lemma length_msg_bits [simp]: "length (msg_bits m) = 8 * length m"
  by (induction m) (simp_all add: msg_bits_def)

lemma bits_val_byte: "bits_val (byte_bits b) = uint b"
proof -
  have h: "bits_val (rev xs) = horner_sum of_bool 2 xs" for xs :: "bool list"
    by (induction xs) (simp_all add: bits_val_append)
  have "bits_val (byte_bits b) = horner_sum of_bool 2 (map (bit b) [0..<8])"
    by (simp only: byte_bits_def h)
  also have "map (bit b) [0..<8] = map (bit (uint b)) [0..<8]" by (simp add: bit_uint_iff)
  also have "horner_sum of_bool 2 \<dots> = take_bit 8 (uint b)" by (rule horner_sum_bit_eq_take_bit)
  finally show ?thesis using byte_ge_0 [of b] byte_lt [of b] by (simp add: take_bit_int_eq_self)
qed

lemma ones_nth: "k < 8 \<Longrightarrow> ones ! k = 2 ^ (k + 1) - 1"
proof -
  assume "k < 8"
  then have "k = 0 \<or> k = 1 \<or> k = 2 \<or> k = 3 \<or> k = 4 \<or> k = 5 \<or> k = 6 \<or> k = 7" by arith
  then show ?thesis by (elim disjE) (simp_all add: ones_def)
qed

lemma and_ones: "k < 8 \<Longrightarrow> and x (ones ! k) = x mod 2 ^ (k + 1)"
proof -
  assume "k < 8"
  then have "and x (ones ! k) = and x (mask (k + 1))" by (simp only: ones_nth mask_eq_exp_minus_1)
  also have "\<dots> = take_bit (k + 1) x" by (simp only: take_bit_eq_mask)
  also have "\<dots> = x mod 2 ^ (k + 1)" by (rule take_bit_eq_mod)
  finally show ?thesis .
qed

lemma or_low: "0 \<le> y \<Longrightarrow> y < 2 ^ k \<Longrightarrow> or (x * 2 ^ k) y = x * 2 ^ k + (y::int)"
proof -
  assume y: "0 \<le> y" "y < 2 ^ k"
  have t: "take_bit k y = y" using y by (simp add: take_bit_int_eq_self)
  have "or (push_bit k x) (take_bit k y) = push_bit k x + take_bit k y"
    by (rule disjunctive_add [symmetric]) (simp add: bit_push_bit_iff bit_take_bit_iff)
  then show ?thesis by (simp add: t push_bit_eq_mult)
qed

section \<open>Extraction is exact\<close>

lemma msg_bits_byte: "i < length m \<Longrightarrow> drop (8 * i) (msg_bits m) = byte_bits (m ! i) @ drop (8 * (i + 1)) (msg_bits m)"
proof (induction m arbitrary: i)
  case (Cons b m)
  then show ?case by (cases i) (simp_all add: msg_bits_def)
qed simp

lemma rd_some: "i < length m \<Longrightarrow> rd m i = Some (m ! i)"
  by (simp add: rd_def)

lemma shl_bits: "length xs + k \<le> 63 \<Longrightarrow> g2_shl (bits_val xs) k = Some (bits_val xs * 2 ^ k)"
proof -
  assume k: "length xs + k \<le> 63"
  have "bits_val xs * 2 ^ k < 2 ^ length xs * 2 ^ k" using bits_val_bounds [of xs] by simp
  also have "\<dots> = (2::int) ^ (length xs + k)" by (simp add: power_add)
  also have "\<dots> \<le> 2 ^ 63" using k by (intro power_increasing) simp_all
  finally show ?thesis by (simp add: g2_shl_def)
qed

lemma or_bits: "or (bits_val xs * 2 ^ length ys) (bits_val ys) = bits_val (xs @ ys)"
  using bits_val_bounds [of ys] by (simp only: or_low bits_val_append)

lemma gbits_whole_spec:
  assumes "length xs + bitcnt \<le> 63" "8 * index + bitcnt \<le> 8 * length m"
  shows "gbits_whole m index bitcnt (bits_val xs) = Some (index + bitcnt div 8, bitcnt mod 8,
    bits_val (xs @ take (8 * (bitcnt div 8)) (drop (8 * index) (msg_bits m))))"
  using assms
proof (induction bitcnt arbitrary: index xs rule: less_induct)
  case (less bitcnt)
  show ?case
  proof (cases "8 \<le> bitcnt")
    case True
    have i: "index < length m" using less.prems True by linarith
    let ?b = "byte_bits (m ! index)"
    have s: "g2_shl (bits_val xs) 8 = Some (bits_val xs * 2 ^ 8)" using less.prems True by (intro shl_bits) simp
    have o: "or (bits_val xs * 2 ^ 8) (uint (m ! index)) = bits_val (xs @ ?b)"
      using or_bits [of xs ?b] by (simp add: bits_val_byte)
    have "gbits_whole m (index + 1) (bitcnt - 8) (bits_val (xs @ ?b)) = Some (index + 1 + (bitcnt - 8) div 8, (bitcnt - 8) mod 8,
        bits_val ((xs @ ?b) @ take (8 * ((bitcnt - 8) div 8)) (drop (8 * (index + 1)) (msg_bits m))))"
      using less.prems True by (intro less.IH) simp_all
    moreover have d: "bitcnt div 8 = Suc ((bitcnt - 8) div 8)" "bitcnt mod 8 = (bitcnt - 8) mod 8"
      using True by (simp_all add: le_div_geq le_mod_geq)
    moreover have "take (8 * (bitcnt div 8)) (drop (8 * index) (msg_bits m)) = ?b @ take (8 * ((bitcnt - 8) div 8)) (drop (8 * (index + 1)) (msg_bits m))"
      unfolding msg_bits_byte [OF i] d by simp
    ultimately show ?thesis
      using True o unfolding gbits_whole.simps [of m index] by (simp add: s rd_some [OF i])
  next
    case False
    then show ?thesis by (subst gbits_whole.simps) simp
  qed
qed

lemma first_bits:
  assumes "index < length m" "ibit < 8" "t \<le> 8 - ibit"
  shows "drop_bit (8 - ibit - t) (and (uint (m ! index)) (ones ! (7 - ibit))) = bits_val (take t (drop (8 * index + ibit) (msg_bits m)))"
proof -
  let ?b = "byte_bits (m ! index)"
  have "drop (8 * index + ibit) (msg_bits m) = drop ibit (drop (8 * index) (msg_bits m))" by (simp add: add.commute)
  also have "\<dots> = drop ibit ?b @ drop (8 * (index + 1)) (msg_bits m)" using assms(2) by (simp add: msg_bits_byte [OF assms(1)])
  finally have t: "take t (drop (8 * index + ibit) (msg_bits m)) = take t (drop ibit ?b)" using assms by simp
  have e: "Suc (7 - ibit) = 8 - ibit" using assms(2) by simp
  have "and (uint (m ! index)) (ones ! (7 - ibit)) = bits_val ?b mod 2 ^ (8 - ibit)"
    using assms(2) e by (simp add: and_ones bits_val_byte del: power_Suc)
  also have "\<dots> = bits_val (drop ibit ?b)" using assms(2) bits_val_mod [of "8 - ibit" ?b] by simp
  finally have "drop_bit (8 - ibit - t) (and (uint (m ! index)) (ones ! (7 - ibit))) = bits_val (drop ibit ?b) div 2 ^ (8 - ibit - t)"
    by (simp add: drop_bit_eq_div)
  also have "\<dots> = bits_val (take t (drop ibit ?b))" using assms bits_val_div [of "8 - ibit - t" "drop ibit ?b"] by simp
  finally show ?thesis using t by simp
qed

lemma gbit_exact:
  assumes "nbyte \<le> 63" "iskip + nbyte \<le> 8 * length m" "iskip div 8 < length m"
  shows "gbit m iskip nbyte = Some (bits_val (take nbyte (drop iskip (msg_bits m))))"
proof -
  define index where "index = iskip div 8"
  define ibit where "ibit = iskip mod 8"
  define t where "t = (if nbyte < 8 - ibit then nbyte else 8 - ibit)"
  have ib: "ibit < 8" "t \<le> 8 - ibit" "t \<le> nbyte" by (simp_all add: ibit_def t_def)
  have sk: "8 * index + ibit = iskip" by (simp add: index_def ibit_def)
  have i: "index < length m" using assms(3) by (simp add: index_def)
  let ?xs = "take t (drop iskip (msg_bits m))"
  have "(if t \<noteq> 8 - ibit then drop_bit (8 - ibit - t) (and (uint (m ! index)) (ones ! (7 - ibit)))
      else and (uint (m ! index)) (ones ! (7 - ibit))) = drop_bit (8 - ibit - t) (and (uint (m ! index)) (ones ! (7 - ibit)))"
    by simp
  also have "\<dots> = bits_val ?xs" using first_bits [OF i ib(1,2)] by (simp only: sk)
  finally have f: "(if t \<noteq> 8 - ibit then drop_bit (8 - ibit - t) (and (uint (m ! index)) (ones ! (7 - ibit)))
      else and (uint (m ! index)) (ones ! (7 - ibit))) = bits_val ?xs" .
  have start: "gbit m iskip nbyte = do {
     (index1, bitcnt, itmp1) \<leftarrow> gbits_whole m (index + 1) (nbyte - t) (bits_val ?xs);
     if 0 < bitcnt
     then do {
       x \<leftarrow> g2_shl itmp1 bitcnt;
       c \<leftarrow> rd m index1;
       Some (or x (and (drop_bit (8 - bitcnt) (uint c)) (ones ! (bitcnt - 1))))
     }
     else Some itmp1 }"
    unfolding gbit_def Let_def index_def [symmetric] ibit_def [symmetric] t_def [symmetric] rd_some [OF i] bind.bind_lunit f ..
  have lx: "length ?xs = t" using ib assms(2) by simp
  show ?thesis
  proof (cases "nbyte = t")
    case True
    then show ?thesis unfolding start by (subst gbits_whole.simps) simp
  next
    case False
    then have t8: "t = 8 - ibit" "t < nbyte" by (auto simp: t_def split: if_splits)
    let ?k = "nbyte - t" and ?q = "8 * ((nbyte - t) div 8)" and ?r = "(nbyte - t) mod 8"
    have next_byte: "8 * (index + 1) = iskip + t" using sk t8 ib by simp
    have w: "gbits_whole m (index + 1) ?k (bits_val ?xs) = Some (index + 1 + ?k div 8, ?r,
        bits_val (?xs @ take ?q (drop (8 * (index + 1)) (msg_bits m))))"
      using assms(1,2) ib(3) lx next_byte by (intro gbits_whole_spec) simp_all
    let ?ys = "?xs @ take ?q (drop (8 * (index + 1)) (msg_bits m))"
    have kq: "?q + ?r = ?k" by simp
    have ys: "?ys = take (t + ?q) (drop iskip (msg_bits m))"
      unfolding next_byte by (simp add: take_add add.commute)
    show ?thesis
    proof (cases "?r = 0")
      case True
      then have "t + ?q = nbyte" using kq t8 by simp
      then show ?thesis unfolding start w using True ys by simp
    next
      case r: False
      let ?j = "index + 1 + ?k div 8"
      have pos: "8 * ?j = iskip + t + ?q" using next_byte by simp
      have "?q < ?k" using kq r by (metis add_diff_cancel_left' diff_is_0_eq leI)
      then have "iskip + t + ?q < 8 * length m" using t8(2) assms(2) by linarith
      then have j: "?j < length m" unfolding pos [symmetric] by (simp only: mult_less_cancel1)
      have r8: "?r < 8" by simp
      have ly: "length ?ys = t + ?q" unfolding ys using kq t8 assms(2) by simp
      have s: "g2_shl (bits_val ?ys) ?r = Some (bits_val ?ys * 2 ^ ?r)"
        using ly kq t8 assms(1) by (intro shl_bits) linarith
      let ?c = "byte_bits (m ! ?j)"
      have "and (drop_bit (8 - ?r) (uint (m ! ?j))) (ones ! (?r - 1)) = (bits_val ?c div 2 ^ (8 - ?r)) mod 2 ^ ?r"
        using r by (simp add: and_ones drop_bit_eq_div bits_val_byte)
      also have "\<dots> = bits_val (take ?r ?c) mod 2 ^ ?r" using bits_val_div [of "8 - ?r" ?c] by simp
      also have "\<dots> = bits_val (take ?r ?c)" using bits_val_bounds [of "take ?r ?c"] by simp
      also have "take ?r ?c = take ?r (drop (8 * ?j) (msg_bits m))" unfolding msg_bits_byte [OF j] by simp
      finally have c: "and (drop_bit (8 - ?r) (uint (m ! ?j))) (ones ! (?r - 1)) = bits_val (take ?r (drop (8 * ?j) (msg_bits m)))" .
      have lz: "length (take ?r (drop (8 * ?j) (msg_bits m))) = ?r" using j by simp
      have o: "or (bits_val ?ys * 2 ^ ?r) (bits_val (take ?r (drop (8 * ?j) (msg_bits m)))) = bits_val (?ys @ take ?r (drop (8 * ?j) (msg_bits m)))"
        using or_bits [of ?ys "take ?r (drop (8 * ?j) (msg_bits m))"] by (simp only: lz)
      have "?ys @ take ?r (drop (8 * ?j) (msg_bits m)) = take (t + ?q + ?r) (drop iskip (msg_bits m))"
        unfolding ys pos take_add drop_drop by (simp add: add.commute add.left_commute add.assoc)
      also have "t + ?q + ?r = nbyte" using kq t8 by simp
      finally have "bits_val (?ys @ take ?r (drop (8 * ?j) (msg_bits m))) = bits_val (take nbyte (drop iskip (msg_bits m)))" by simp
      moreover have rp: "(0 < ?r) = True" using r by simp
      ultimately show ?thesis
        unfolding start w by (simp only: bind.bind_lunit prod.case s c o rd_some [OF j] if_True rp)
    qed
  qed
qed

section \<open>A part of the memory\<close>

text \<open>\<open>s\<close> stands in \<open>m\<close> from \<open>p\<close> on. What can be extracted from \<open>s\<close> is the same in \<open>m\<close>.\<close>

text \<open>A computation that may be undefined is the same where it is defined.\<close>

named_theorems below \<open>rules for comparing computations\<close>

definition below :: "'a option \<Rightarrow> 'a option \<Rightarrow> bool" where
  "below a b \<longleftrightarrow> a = None \<or> b = a"

lemma belowD: "below a b \<Longrightarrow> a = Some r \<Longrightarrow> b = Some r"
  by (auto simp: below_def)

lemma belowI: "(\<And>r. a = Some r \<Longrightarrow> b = Some r) \<Longrightarrow> below a b"
  by (cases a) (auto simp: below_def)

lemma below_rules [below]:
  "below a a" "below None b"
  "below a b \<Longrightarrow> (\<And>x. below (f x) (g x)) \<Longrightarrow> below (a \<bind> f) (b \<bind> g)"
  "below a b \<Longrightarrow> below (map_option h a) (map_option h b)"
  "(c \<Longrightarrow> below a b) \<Longrightarrow> (\<not> c \<Longrightarrow> below a' b') \<Longrightarrow> below (if c then a else a') (if c then b else b')"
  by (cases a; auto simp: below_def)+

lemma below_cases [below]:
  "(o' = None \<Longrightarrow> below a b) \<Longrightarrow> (\<And>x. o' = Some x \<Longrightarrow> below (f x) (g x)) \<Longrightarrow> below (case o' of None \<Rightarrow> a | Some x \<Rightarrow> f x) (case o' of None \<Rightarrow> b | Some x \<Rightarrow> g x)"
  "(\<And>x y. below (h x y) (k x y)) \<Longrightarrow> below (case q of (x, y) \<Rightarrow> h x y) (case q of (x, y) \<Rightarrow> k x y)"
  by (auto split: option.split prod.split)

definition stands :: "byte list \<Rightarrow> byte list \<Rightarrow> nat \<Rightarrow> bool" where
  "stands s m p \<longleftrightarrow> (\<exists>before behind. m = before @ s @ behind \<and> length before = p)"

lemma standsI: "stands s (before @ s @ behind) (length before)"
  by (auto simp: stands_def)

lemma rd_inside: "stands s m p \<Longrightarrow> rd s i = Some b \<Longrightarrow> rd m (p + i) = Some b"
  by (auto simp: stands_def rd_def nth_append split: if_splits)

lemma gbits_whole_inside: "stands s m p \<Longrightarrow> gbits_whole s i n x = Some (j, k, y) \<Longrightarrow> gbits_whole m (p + i) n x = Some (p + j, k, y)"
proof (induction s i n x rule: gbits_whole.induct)
  case (1 s i n x)
  show ?case
  proof (cases "8 \<le> n")
    case True
    from "1.prems"(2) True obtain x1 b where a: "g2_shl x 8 = Some x1" "rd s i = Some b"
      "gbits_whole s (i + 1) (n - 8) (or x1 (uint b)) = Some (j, k, y)"
      by (subst (asm) gbits_whole.simps) (auto simp: Option.bind_eq_Some_conv)
    have "gbits_whole m (p + (i + 1)) (n - 8) (or x1 (uint b)) = Some (p + j, k, y)"
      by (rule "1.IH" [OF True a(1,2) "1.prems"(1) a(3)])
    then show ?thesis
      using True a(1) rd_inside [OF "1.prems"(1) a(2)] by (subst gbits_whole.simps) (simp add: add.assoc)
  next
    case False
    from "1.prems"(2) False have "j = i" "k = n" "y = x"
      by (subst (asm) gbits_whole.simps; simp)+
    then show ?thesis using False by (subst gbits_whole.simps) simp
  qed
qed

definition gbit_rest :: "byte list \<Rightarrow> nat \<times> nat \<times> int \<Rightarrow> int option" where
  "gbit_rest m r =
     (case r of (index1, bitcnt, itmp1) \<Rightarrow>
        if 0 < bitcnt
        then do { x \<leftarrow> g2_shl itmp1 bitcnt; c \<leftarrow> rd m index1;
                  Some (or x (and (drop_bit (8 - bitcnt) (uint c)) (ones ! (bitcnt - 1)))) }
        else Some itmp1)"

lemma gbit_inside: "stands s m p \<Longrightarrow> gbit s i n = Some v \<Longrightarrow> gbit m (8 * p + i) n = Some v"
proof -
  assume st: "stands s m p" and g: "gbit s i n = Some v"
  let ?t = "if n < 8 - i mod 8 then n else 8 - i mod 8"
  let ?first = "\<lambda>b. and (uint b) (ones ! (7 - i mod 8))"
  let ?x = "\<lambda>b. if ?t \<noteq> 8 - i mod 8 then drop_bit (8 - i mod 8 - ?t) (?first b) else ?first b"
  have f: "gbit q (8 * k + i) n = do { b \<leftarrow> rd q (k + i div 8); r \<leftarrow> gbits_whole q (k + i div 8 + 1) (n - ?t) (?x b); gbit_rest q r }" for q k
    by (simp only: gbit_def Let_def gbit_rest_def) simp
  have "do { b \<leftarrow> rd s (i div 8); r \<leftarrow> gbits_whole s (i div 8 + 1) (n - ?t) (?x b); gbit_rest s r } = Some v"
    using g f [of s 0] by (simp only: mult_0_right add_0)
  then obtain b r where br: "rd s (i div 8) = Some b" "gbits_whole s (i div 8 + 1) (n - ?t) (?x b) = Some r" "gbit_rest s r = Some v"
    unfolding Option.bind_eq_Some_conv by blast
  obtain j k y where r: "r = (j, k, y)" by (cases r)
  have "gbits_whole m (p + (i div 8 + 1)) (n - ?t) (?x b) = Some (p + j, k, y)"
    by (rule gbits_whole_inside [OF st]) (use br(2) r in simp)
  moreover have "gbit_rest m (p + j, k, y) = Some v"
    using br(3) r by (auto simp: gbit_rest_def Option.bind_eq_Some_conv split: if_splits dest: rd_inside [OF st])
  ultimately show ?thesis
    unfolding f using rd_inside [OF st br(1)] by (simp add: add.assoc)
qed

lemma gbit_below [below]: "stands s m p \<Longrightarrow> below (gbit s i n) (gbit m (8 * p + i) n)"
  by (rule belowI) (rule gbit_inside)

lemma gbits_below [below]: "stands s m p \<Longrightarrow> below (gbits s i n k c) (gbits m (8 * p + i) n k c)"
proof (induction c arbitrary: i)
  case (Suc c)
  show ?case unfolding gbits.simps add.assoc by (intro below Suc)
qed (simp add: below_def)

section \<open>Octets\<close>

text \<open>The number that octets make, and extraction at an octet boundary.\<close>

definition be_uint :: "byte list \<Rightarrow> int" where
  "be_uint bs = bits_val (msg_bits bs)"

lemma be_uint_simps [simp]: "be_uint [] = 0" "be_uint (bs @ [b]) = be_uint bs * 256 + uint b" "be_uint [b] = uint b"
  by (simp_all add: be_uint_def msg_bits_def bits_val_append bits_val_byte)

lemma be_uint_Cons: "be_uint (b # bs) = uint b * 256 ^ length bs + be_uint bs"
proof -
  have "msg_bits (b # bs) = byte_bits b @ msg_bits bs" by (simp add: msg_bits_def)
  moreover have "(2::int) ^ (8 * length bs) = 256 ^ length bs" by (simp add: power_mult)
  ultimately show ?thesis by (simp add: be_uint_def bits_val_append bits_val_byte)
qed

lemma be_uint_bounds: "0 \<le> be_uint bs" "be_uint bs < 256 ^ length bs"
proof -
  have "(2::int) ^ (8 * length bs) = 256 ^ length bs" by (simp add: power_mult)
  then show "0 \<le> be_uint bs" "be_uint bs < 256 ^ length bs"
    using bits_val_bounds [of "msg_bits bs"] by (simp_all add: be_uint_def)
qed

lemma msg_bits_take: "take (8 * n) (msg_bits m) = msg_bits (take n m)"
proof (induction m arbitrary: n)
  case (Cons b m)
  then show ?case by (cases n) (simp_all add: msg_bits_def)
qed (simp add: msg_bits_def)

lemma msg_bits_drop: "drop (8 * n) (msg_bits m) = msg_bits (drop n m)"
proof (induction m arbitrary: n)
  case (Cons b m)
  then show ?case by (cases n) (simp_all add: msg_bits_def)
qed (simp add: msg_bits_def)

lemma gbit_octets: "0 < n \<Longrightarrow> n \<le> 7 \<Longrightarrow> p + n \<le> length m \<Longrightarrow> gbit m (8 * p) (8 * n) = Some (be_uint (take n (drop p m)))"
  using gbit_exact [of "8 * n" "8 * p" m] by (simp add: msg_bits_drop msg_bits_take be_uint_def)

end
