(* ===== verification/G2_Templates.thy ===== *)
theory G2_Templates
  imports G2_Bits
begin

text \<open>
  The templates of the GRIB2 library (\<open>gridtemplates\<close>, \<open>pdstemplates\<close>, \<open>drstemplates\<close>, each \<open>.h\<close> and \<open>.c\<close>): how many
  octets each value of a Section 3, 4 or 5 takes, negative for a value with a sign, and how a template goes on
  after its fixed part.
\<close>

section \<open>Tables\<close>

text \<open>
  Number, length, whether it has to be extended, widths. The arrays of the code have 200 entries; those after the
  length are not written here.
\<close>

type_synonym tmpl_row = "int \<times> nat \<times> bool \<times> int list"

definition templatesgrid :: "tmpl_row list" where
  "templatesgrid = [
     (0, 19, False, [1, 1, 4, 1, 4, 1, 4, 4, 4, 4, 4, - 4, 4, 1, - 4, 4, 4, 4, 1]),
     (1, 22, False, [1, 1, 4, 1, 4, 1, 4, 4, 4, 4, 4, - 4, 4, 1, - 4, 4, 4, 4, 1, - 4, 4, 4]),
     (2, 22, False, [1, 1, 4, 1, 4, 1, 4, 4, 4, 4, 4, - 4, 4, 1, - 4, 4, 4, 4, 1, - 4, 4, - 4]),
     (3, 25, False, [1, 1, 4, 1, 4, 1, 4, 4, 4, 4, 4, - 4, 4, 1, - 4, 4, 4, 4, 1, - 4, 4, 4, - 4, 4, - 4]),
     (10, 19, False, [1, 1, 4, 1, 4, 1, 4, 4, 4, - 4, 4, 1, - 4, - 4, 4, 1, 4, 4, 4]),
     (20, 18, False, [1, 1, 4, 1, 4, 1, 4, 4, 4, - 4, 4, 1, - 4, 4, 4, 4, 1, 1]),
     (30, 22, False, [1, 1, 4, 1, 4, 1, 4, 4, 4, - 4, 4, 1, - 4, 4, 4, 4, 1, 1, - 4, - 4, - 4, 4]),
     (31, 22, False, [1, 1, 4, 1, 4, 1, 4, 4, 4, - 4, 4, 1, - 4, 4, 4, 4, 1, 1, - 4, - 4, - 4, 4]),
     (40, 19, False, [1, 1, 4, 1, 4, 1, 4, 4, 4, 4, 4, - 4, 4, 1, - 4, 4, 4, 4, 1]),
     (41, 22, False, [1, 1, 4, 1, 4, 1, 4, 4, 4, 4, 4, - 4, 4, 1, - 4, 4, 4, 4, 1, - 4, 4, 4]),
     (42, 22, False, [1, 1, 4, 1, 4, 1, 4, 4, 4, 4, 4, - 4, 4, 1, - 4, 4, 4, 4, 1, - 4, 4, - 4]),
     (43, 25, False, [1, 1, 4, 1, 4, 1, 4, 4, 4, 4, 4, - 4, 4, 1, - 4, 4, 4, 4, 1, - 4, 4, 4, - 4, 4, - 4]),
     (50, 5, False, [4, 4, 4, 1, 1]),
     (51, 8, False, [4, 4, 4, 1, 1, - 4, 4, 4]),
     (52, 8, False, [4, 4, 4, 1, 1, - 4, 4, - 4]),
     (53, 11, False, [4, 4, 4, 1, 1, - 4, 4, 4, - 4, 4, - 4]),
     (90, 21, False, [1, 1, 4, 1, 4, 1, 4, 4, 4, - 4, 4, 1, 4, 4, 4, 4, 1, 4, 4, 4, 4]),
     (100, 11, False, [1, 1, 2, 1, - 4, 4, 4, 1, 1, 1, 4]),
     (110, 16, False, [1, 1, 4, 1, 4, 1, 4, 4, 4, - 4, 4, 1, 4, 4, 1, 1]),
     (120, 7, True, [4, 4, - 4, 4, 4, 4, 1]),
     (204, 19, False, [1, 1, 4, 1, 4, 1, 4, 4, 4, 4, 4, - 4, 4, 1, - 4, 4, 4, 4, 1]),
     (32768, 19, False, [1, 1, 4, 1, 4, 1, 4, 4, 4, 4, 4, - 4, 4, 1, - 4, 4, 4, 4, 1]),
     (1000, 20, True, [1, 1, 4, 1, 4, 1, 4, 4, 4, 4, - 4, 4, 1, 4, 4, 1, 2, 1, 1, 2]),
     (1100, 28, False, [1, 1, 4, 1, 4, 1, 4, 4, 4, 4, - 4, 4, 1, - 4, 4, 1, 4, 1, - 4, 1, 1, - 4, 2, 1, 1, 1, 1, 1]),
     (1200, 16, True, [4, 1, - 4, 1, 1, - 4, 2, 1, 1, 1, 1, 1, 2, 1, 1, 2])]"

definition templatespds :: "tmpl_row list" where
  "templatespds = [
     (0, 15, False, [1, 1, 1, 1, 1, 2, 1, 1, 4, 1, - 1, - 4, 1, - 1, - 4]),
     (1, 18, False, [1, 1, 1, 1, 1, 2, 1, 1, 4, 1, - 1, - 4, 1, - 1, - 4, 1, 1, 1]),
     (2, 17, False, [1, 1, 1, 1, 1, 2, 1, 1, 4, 1, - 1, - 4, 1, - 1, - 4, 1, 1]),
     (3, 31, True, [1, 1, 1, 1, 1, 2, 1, 1, 4, 1, - 1, - 4, 1, - 1, - 4, 1, 1, 1, 1, 1, 1, 1, - 4, - 4, 4, 4, 1, - 1, 4, - 1, 4]),
     (4, 30, True, [1, 1, 1, 1, 1, 2, 1, 1, 4, 1, - 1, - 4, 1, - 1, - 4, 1, 1, 1, 1, 1, 1, 1, - 4, 4, 4, 1, - 1, 4, - 1, 4]),
     (5, 22, False, [1, 1, 1, 1, 1, 2, 1, 1, 4, 1, - 1, - 4, 1, - 1, - 4, 1, 1, 1, - 1, - 4, - 1, - 4]),
     (6, 16, False, [1, 1, 1, 1, 1, 2, 1, 1, 4, 1, - 1, - 4, 1, - 1, - 4, 1]),
     (7, 15, False, [1, 1, 1, 1, 1, 2, 1, 1, 4, 1, - 1, - 4, 1, - 1, - 4]),
     (8, 29, True, [1, 1, 1, 1, 1, 2, 1, 1, 4, 1, - 1, - 4, 1, - 1, - 4, 2, 1, 1, 1, 1, 1, 1, 4, 1, 1, 1, 4, 1, 4]),
     (9, 36, True, [1, 1, 1, 1, 1, 2, 1, 1, 4, 1, - 1, - 4, 1, - 1, - 4, 1, 1, 1, - 1, - 4, - 1, - 4, 2, 1, 1, 1, 1, 1, 1, 4, 1, 1, 1, 4, 1, 4]),
     (10, 30, True, [1, 1, 1, 1, 1, 2, 1, 1, 4, 1, - 1, - 4, 1, - 1, - 4, 1, 2, 1, 1, 1, 1, 1, 1, 4, 1, 1, 1, 4, 1, 4]),
     (11, 32, True, [1, 1, 1, 1, 1, 2, 1, 1, 4, 1, - 1, - 4, 1, - 1, - 4, 1, 1, 1, 2, 1, 1, 1, 1, 1, 1, 4, 1, 1, 1, 4, 1, 4]),
     (12, 31, True, [1, 1, 1, 1, 1, 2, 1, 1, 4, 1, - 1, - 4, 1, - 1, - 4, 1, 1, 2, 1, 1, 1, 1, 1, 1, 4, 1, 1, 1, 4, 1, 4]),
     (13, 45, True, [1, 1, 1, 1, 1, 2, 1, 1, 4, 1, - 1, - 4, 1, - 1, - 4, 1, 1, 1, 1, 1, 1, 1, - 4, - 4, 4, 4, 1, - 1, 4, - 1, 4, 2, 1, 1, 1, 1, 1, 1, 4, 1, 1, 1, 4, 1, 4]),
     (14, 44, True, [1, 1, 1, 1, 1, 2, 1, 1, 4, 1, - 1, - 4, 1, - 1, - 4, 1, 1, 1, 1, 1, 1, 1, - 4, 4, 4, 1, - 1, 4, - 1, 4, 2, 1, 1, 1, 1, 1, 1, 4, 1, 1, 1, 4, 1, 4]),
     (15, 18, False, [1, 1, 1, 1, 1, 2, 1, 1, 4, 1, - 1, - 4, 1, - 1, - 4, 1, 1, 1]),
     (20, 19, False, [1, 1, 1, 1, 1, - 4, 4, 2, 4, 2, 1, 1, 1, 1, 1, 2, 1, 3, 2]),
     (30, 5, True, [1, 1, 1, 1, 1]),
     (31, 5, True, [1, 1, 1, 1, 1]),
     (254, 3, False, [1, 1, 4]),
     (1000, 9, False, [1, 1, 1, 1, 1, 2, 1, 1, 4]),
     (1001, 16, False, [1, 1, 1, 1, 1, 2, 1, 1, 4, 4, 1, 1, 1, 4, 1, 4]),
     (1002, 15, False, [1, 1, 1, 1, 1, 2, 1, 1, 4, 1, 1, 1, 4, 4, 2]),
     (1100, 15, False, [1, 1, 1, 1, 1, 2, 1, 1, 4, 1, - 1, - 4, 1, - 1, - 4]),
     (1101, 22, False, [1, 1, 1, 1, 1, 2, 1, 1, 4, 1, - 1, - 4, 1, - 1, - 4, 4, 1, 1, 1, 4, 1, 4])]"

definition templatesdrs :: "tmpl_row list" where
  "templatesdrs = [
     (0, 5, False, [4, - 2, - 2, 1, 1]),
     (2, 16, False, [4, - 2, - 2, 1, 1, 1, 1, 4, 4, 4, 1, 1, 4, 1, 4, 1]),
     (3, 18, False, [4, - 2, - 2, 1, 1, 1, 1, 4, 4, 4, 1, 1, 4, 1, 4, 1, 1, 1]),
     (50, 5, False, [4, - 2, - 2, 1, 4]),
     (51, 10, False, [4, - 2, - 2, 1, - 4, 2, 2, 2, 4, 1]),
     (40, 7, False, [4, - 2, - 2, 1, 1, 1, 1]),
     (41, 5, False, [4, - 2, - 2, 1, 1]),
     (40000, 7, False, [4, - 2, - 2, 1, 1, 1, 1]),
     (40010, 5, False, [4, - 2, - 2, 1, 1])]"

section \<open>Look-up\<close>

fun template_index :: "int \<Rightarrow> tmpl_row list \<Rightarrow> int \<Rightarrow> int" where
  "template_index j [] number = - 1"
| "template_index j ((num, len, ext, widths) # rows) number = (if number = num then j else template_index (j + 1) rows number)"

definition getgridindex :: "int \<Rightarrow> int" where
  "getgridindex number = template_index 0 templatesgrid number"

definition getpdsindex :: "int \<Rightarrow> int" where
  "getpdsindex number = template_index 0 templatespds number"

definition getdrsindex :: "int \<Rightarrow> int" where
  "getdrsindex number = template_index 0 templatesdrs number"

text \<open>\<open>gt_ext\<close> are the entries of \<open>ext\<close> that have been written. The structure itself can always be allocated.\<close>

record gtemplate =
  gt_type :: int
  gt_num :: int
  gt_maplen :: nat
  gt_needext :: bool
  gt_map :: "int list"
  gt_extlen :: int
  gt_ext :: "int list"

definition template_of :: "int \<Rightarrow> tmpl_row \<Rightarrow> gtemplate" where
  "template_of ty row =
     (case row of (num, len, ext, widths) \<Rightarrow>
        \<lparr>gt_type = ty, gt_num = num, gt_maplen = len, gt_needext = ext, gt_map = widths, gt_extlen = 0, gt_ext = []\<rparr>)"

definition getgridtemplate :: "int \<Rightarrow> gtemplate option" where
  "getgridtemplate number =
     (let index = getgridindex number in if index \<noteq> - 1 then Some (template_of 3 (templatesgrid ! nat index)) else None)"

definition getpdstemplate :: "int \<Rightarrow> gtemplate option" where
  "getpdstemplate number =
     (let index = getpdsindex number in if index \<noteq> - 1 then Some (template_of 4 (templatespds ! nat index)) else None)"

definition getdrstemplate :: "int \<Rightarrow> gtemplate option" where
  "getdrstemplate number =
     (let index = getdrsindex number in if index \<noteq> - 1 then Some (template_of 5 (templatesdrs ! nat index)) else None)"

section \<open>Extension\<close>

text \<open>
  \<open>mem n\<close> tells whether an allocation of \<open>n\<close> octets succeeds. The extension is allocated for \<open>extlen\<close> entries of eight
  octets and \<open>xs\<close> is written to it; without the memory, or with too little of it, that is undefined.
\<close>

definition set_ext :: "(nat \<Rightarrow> bool) \<Rightarrow> gtemplate \<Rightarrow> int \<Rightarrow> int list \<Rightarrow> gtemplate option" where
  "set_ext mem t extlen xs =
     (if xs = [] \<or> mem (to_size (8 * extlen)) \<and> int (length xs) \<le> extlen
      then Some (t\<lparr>gt_extlen := extlen, gt_ext := xs\<rparr>) else None)"

text \<open>In the next three, the result \<open>Some None\<close> is the null pointer; \<open>rd\<close> on the list of values stays inside the fixed part.\<close>

definition extgridtemplate :: "(nat \<Rightarrow> bool) \<Rightarrow> int \<Rightarrow> int list \<Rightarrow> gtemplate option option" where
  "extgridtemplate mem number vs =
     (case getgridtemplate number of
        None \<Rightarrow> Some None
      | Some t \<Rightarrow>
          if \<not> gt_needext t then Some (Some t)
          else if number = 120
          then do { n \<leftarrow> rd vs 1; map_option Some (set_ext mem t (n * 2) (map (\<lambda>i. if i mod 2 = 0 then 2 else - 2) [0..<nat (n * 2)])) }
          else if number = 1000 then do { n \<leftarrow> rd vs 19; map_option Some (set_ext mem t n (replicate (nat n) 4)) }
          else if number = 1200 then do { n \<leftarrow> rd vs 15; map_option Some (set_ext mem t n (replicate (nat n) 4)) }
          else Some (Some t))"

text \<open>The values of a time range once more for each range after the first: six of them, from \<open>off\<close>.\<close>

definition more_ranges :: "gtemplate \<Rightarrow> int \<Rightarrow> nat \<Rightarrow> int list" where
  "more_ranges t n off = concat (replicate (nat (n - 1)) (take 6 (drop off (gt_map t))))"

definition range_ext :: "(nat \<Rightarrow> bool) \<Rightarrow> gtemplate \<Rightarrow> int list \<Rightarrow> nat \<Rightarrow> nat \<Rightarrow> gtemplate option" where
  "range_ext mem t vs i off =
     do { n \<leftarrow> rd vs i; if 1 < n then set_ext mem t ((n - 1) * 6) (more_ranges t n off) else Some t }"

text \<open>A cluster of ensemble members in time ranges: the ranges, then one octet for each of the \<open>m\<close> members.\<close>

definition cluster_ext :: "(nat \<Rightarrow> bool) \<Rightarrow> gtemplate \<Rightarrow> int list \<Rightarrow> nat \<Rightarrow> nat \<Rightarrow> nat \<Rightarrow> gtemplate option" where
  "cluster_ext mem t vs i off j =
     do { n \<leftarrow> rd vs i; m \<leftarrow> rd vs j; set_ext mem t ((n - 1) * 6 + m) (more_ranges t n off @ replicate (nat m) 1) }"

definition band_ext :: "(nat \<Rightarrow> bool) \<Rightarrow> gtemplate \<Rightarrow> int list \<Rightarrow> gtemplate option" where
  "band_ext mem t vs = do { n \<leftarrow> rd vs 4; set_ext mem t (n * 5) (concat (replicate (nat n) [2, 2, 1, 1, 4])) }"

definition extpdstemplate :: "(nat \<Rightarrow> bool) \<Rightarrow> int \<Rightarrow> int list \<Rightarrow> gtemplate option option" where
  "extpdstemplate mem number vs =
     (case getpdstemplate number of
        None \<Rightarrow> Some None
      | Some t \<Rightarrow>
          if \<not> gt_needext t then Some (Some t)
          else if number = 3 then do { n \<leftarrow> rd vs 26; map_option Some (set_ext mem t n (replicate (nat n) 1)) }
          else if number = 4 then do { n \<leftarrow> rd vs 25; map_option Some (set_ext mem t n (replicate (nat n) 1)) }
          else if number = 8 then map_option Some (range_ext mem t vs 21 23)
          else if number = 9 then map_option Some (range_ext mem t vs 28 30)
          else if number = 10 then map_option Some (range_ext mem t vs 22 24)
          else if number = 11 then map_option Some (range_ext mem t vs 24 26)
          else if number = 12 then map_option Some (range_ext mem t vs 23 25)
          else if number = 13 then map_option Some (cluster_ext mem t vs 37 39 26)
          else if number = 14 then map_option Some (cluster_ext mem t vs 36 38 25)
          else if number = 30 then map_option Some (band_ext mem t vs)
          else if number = 31 then map_option Some (band_ext mem t vs)
          else Some (Some t))"

text \<open>Template 5.1, the only one that would be extended, is not in the table.\<close>

definition extdrstemplate :: "(nat \<Rightarrow> bool) \<Rightarrow> int \<Rightarrow> int list \<Rightarrow> gtemplate option option" where
  "extdrstemplate mem number vs =
     (case getdrstemplate number of
        None \<Rightarrow> Some None
      | Some t \<Rightarrow>
          if \<not> gt_needext t then Some (Some t)
          else if number = 1
          then do { a \<leftarrow> rd vs 10; b \<leftarrow> rd vs 12; map_option Some (set_ext mem t (a + b) (replicate (nat (a + b)) 4)) }
          else Some (Some t))"

end
