(* ===== verification/G2_Unpack.thy ===== *)
theory G2_Unpack
  imports G2_Templates
begin

text \<open>
  The sections of a GRIB2 message: \<open>g2_unpack1\<close> to \<open>g2_unpack5\<close> and \<open>g2_rdieee\<close>, each in the file of its name.
  The memory is read from \<open>cgrib\<close> on. The offset behind what has been read, which they also return, is not used
  by their caller and left out. Their other results go to the fields of the \<open>gribfield\<close> that the caller passes.

  \<open>None\<close> is undefined behaviour: a read beyond the memory, a write through a null pointer, a shift that overflows.
\<close>

section \<open>Data\<close>

text \<open>
  A float is \<open>m * 2 ^ e\<close>, with both numbers given. Pointers are options. A field that is not set holds what was in
  the memory.
\<close>

type_synonym g2float = "int \<times> int"

record gribfield =
  gf_version :: int
  gf_discipline :: int
  gf_idsect :: "int list option"
  gf_idsectlen :: int
  gf_local :: "byte list option"
  gf_locallen :: int
  gf_ifldnum :: int
  gf_griddef :: int
  gf_ngrdpts :: int
  gf_numoct_opt :: int
  gf_interp_opt :: int
  gf_num_opt :: int
  gf_list_opt :: "int list option"
  gf_igdtnum :: int
  gf_igdtlen :: int
  gf_igdtmpl :: "int list option"
  gf_ipdtnum :: int
  gf_ipdtlen :: int
  gf_ipdtmpl :: "int list option"
  gf_num_coord :: int
  gf_coord_list :: "g2float list option"
  gf_ndpts :: int
  gf_idrtnum :: int
  gf_idrtlen :: int
  gf_idrtmpl :: "int list option"
  gf_unpacked :: int
  gf_expanded :: int
  gf_ibmap :: int
  gf_bmap :: "int list option"
  gf_fld :: "g2float list option"

section \<open>Values\<close>

text \<open>Unsigned values of so many octets each, one after the other.\<close>

fun octets :: "byte list \<Rightarrow> nat \<Rightarrow> nat list \<Rightarrow> int list option" where
  "octets m iofst [] = Some []"
| "octets m iofst (w # ws) = do { v \<leftarrow> gbit m iofst (w * 8); vs \<leftarrow> octets m (iofst + w * 8) ws; Some (v # vs) }"

definition mapsec1 :: "nat list" where
  "mapsec1 = [2, 2, 1, 1, 1, 2, 1, 1, 1, 1, 1, 1, 1]"

text \<open>The length and the number at the start of a section.\<close>

definition section_head :: "byte list \<Rightarrow> nat \<Rightarrow> (int \<times> int) option" where
  "section_head m iofst = do { lensec \<leftarrow> gbit m iofst 32; isecnum \<leftarrow> gbit m (iofst + 32) 8; Some (lensec, isecnum) }"

definition tmpl_value :: "byte list \<Rightarrow> nat \<Rightarrow> int \<Rightarrow> int option" where
  "tmpl_value m iofst w =
     (let nbits = nat \<bar>w\<bar> * 8
      in if 0 \<le> w then gbit m iofst nbits
         else do { isign \<leftarrow> gbit m iofst 1; v \<leftarrow> gbit m (iofst + 1) (nbits - 1); Some (if isign = 1 then - v else v) })"

fun tmpl_values :: "byte list \<Rightarrow> nat \<Rightarrow> int list \<Rightarrow> int list option" where
  "tmpl_values m iofst [] = Some []"
| "tmpl_values m iofst (w # ws) = do { v \<leftarrow> tmpl_value m iofst w; vs \<leftarrow> tmpl_values m (iofst + nat \<bar>w\<bar> * 8) ws; Some (v # vs) }"

definition tmpl_octets :: "int list \<Rightarrow> nat" where
  "tmpl_octets ws = sum_list (map (\<lambda>w. nat \<bar>w\<bar>) ws)"

section \<open>Templates\<close>

text \<open>
  The values of a template, how many they are and how many octets they took. The extension: the array of values is
  reallocated, even if nothing is added to it.
\<close>

definition tmpl_extend :: "(nat \<Rightarrow> bool) \<Rightarrow> byte list \<Rightarrow> nat \<Rightarrow> gtemplate \<Rightarrow> int list \<Rightarrow> (int list option \<times> int \<times> nat) option" where
  "tmpl_extend mem m iofst t vs =
     (let newlen = int (gt_maplen t) + gt_extlen t
      in if gt_extlen t \<le> 0 then Some (if mem (to_size (8 * newlen)) then Some (take (nat newlen) vs) else None, newlen, 0)
         else if \<not> mem (to_size (8 * newlen)) \<or> int (length (gt_ext t)) < gt_extlen t then None
         else do {
           let ws = take (nat (gt_extlen t)) (gt_ext t);
           us \<leftarrow> tmpl_values m iofst ws;
           Some (Some (vs @ us), newlen, tmpl_octets ws)
         })"

text \<open>\<open>Some None\<close>: there is no memory for the values.\<close>

definition unpack_template ::
    "(nat \<Rightarrow> bool) \<Rightarrow> (int list \<Rightarrow> gtemplate option option) \<Rightarrow> byte list \<Rightarrow> nat \<Rightarrow> gtemplate \<Rightarrow> (int list option \<times> int \<times> nat) option option" where
  "unpack_template mem ext m iofst t =
     (if \<not> mem (8 * gt_maplen t) then Some None
      else do {
        let ws = take (gt_maplen t) (gt_map t);
        vs \<leftarrow> tmpl_values m iofst ws;
        if \<not> gt_needext t then Some (Some (Some vs, int (gt_maplen t), tmpl_octets ws))
        else do {
          e \<leftarrow> ext vs;
          t1 \<leftarrow> e;
          (p, n, k) \<leftarrow> tmpl_extend mem m (iofst + tmpl_octets ws * 8) t1 vs;
          Some (Some (p, n, tmpl_octets ws + k))
        }
      })"

section \<open>Sections 1 and 2\<close>

definition g2_unpack1 :: "(nat \<Rightarrow> bool) \<Rightarrow> byte list \<Rightarrow> nat \<Rightarrow> gribfield \<Rightarrow> (int \<times> gribfield) option" where
  "g2_unpack1 mem m iofst f =
     do {
       let f0 = f\<lparr>gf_idsectlen := 13, gf_idsect := None\<rparr>;
       (lensec, isecnum) \<leftarrow> section_head m iofst;
       if isecnum \<noteq> 1 then Some (2, f0)
       else if \<not> mem (13 * 8) then Some (6, f0)
       else do { ids \<leftarrow> octets m (iofst + 40) mapsec1; Some (0, f0\<lparr>gf_idsect := Some ids\<rparr>) }
     }"

definition g2_unpack2 :: "(nat \<Rightarrow> bool) \<Rightarrow> byte list \<Rightarrow> nat \<Rightarrow> gribfield \<Rightarrow> (int \<times> gribfield) option" where
  "g2_unpack2 mem m iofst f =
     do {
       (lensec, isecnum) \<leftarrow> section_head m iofst;
       let f0 = f\<lparr>gf_local := None, gf_locallen := 0\<rparr>;
       let lencsec2 = lensec - 5;
       if isecnum \<noteq> 2 then Some (2, f0)
       else if \<not> mem (to_size (lencsec2 + 1)) then Some (6, f0)
       else do {
         d \<leftarrow> mem_read m ((iofst + 40) div 8) (nat lencsec2);
         Some (0, f0\<lparr>gf_local := Some d, gf_locallen := lencsec2\<rparr>)
       }
     }"

section \<open>Section 3\<close>

text \<open>The list of the points in each row. The division is that of C; for a negative number the list is not read.\<close>

definition unpack3_list :: "(nat \<Rightarrow> bool) \<Rightarrow> byte list \<Rightarrow> nat \<Rightarrow> int \<Rightarrow> nat \<Rightarrow> int \<Rightarrow> gribfield \<Rightarrow> (int \<times> gribfield) option" where
  "unpack3_list mem m iofst lensec ibyttem numoct f =
     (if numoct \<noteq> 0
      then let n = (lensec - 14 - int ibyttem) div numoct
           in if n \<le> 0 \<or> \<not> mem (to_size (n * 8)) then Some (6, f\<lparr>gf_num_opt := 0, gf_list_opt := None\<rparr>)
              else do { xs \<leftarrow> gbits m iofst (nat (numoct * 8)) 0 (nat n); Some (0, f\<lparr>gf_num_opt := n, gf_list_opt := Some xs\<rparr>) }
      else Some (0, f\<lparr>gf_num_opt := 0, gf_list_opt := None\<rparr>))"

text \<open>The second result is \<open>igds\<close>, whose allocation is not checked.\<close>

definition g2_unpack3 :: "(nat \<Rightarrow> bool) \<Rightarrow> byte list \<Rightarrow> nat \<Rightarrow> gribfield \<Rightarrow> (int \<times> int list \<times> gribfield) option" where
  "g2_unpack3 mem m iofst f =
     do {
       let f0 = f\<lparr>gf_igdtmpl := None, gf_list_opt := None\<rparr>;
       (lensec, isecnum) \<leftarrow> section_head m iofst;
       if isecnum \<noteq> 3 then Some (2, [], f0\<lparr>gf_num_opt := 0, gf_igdtlen := 0\<rparr>)
       else if \<not> mem (5 * 8) then None
       else do {
         igds \<leftarrow> octets m (iofst + 40) [1, 4, 1, 1, 2];
         if igds ! 4 \<noteq> 65535
         then (case getgridtemplate (igds ! 4) of
                 None \<Rightarrow> Some (5, igds, f0)
               | Some t \<Rightarrow> do {
                   r \<leftarrow> unpack_template mem (extgridtemplate mem (igds ! 4)) m (iofst + 112) t;
                   case r of
                     None \<Rightarrow> Some (6, igds, f0\<lparr>gf_igdtlen := 0\<rparr>)
                   | Some (p, n, k) \<Rightarrow> do {
                       (ierr, g) \<leftarrow> unpack3_list mem m (iofst + 112 + k * 8) lensec k (igds ! 2) (f0\<lparr>gf_igdtmpl := p, gf_igdtlen := n\<rparr>);
                       Some (ierr, igds, g)
                     }
                 })
         else do {
           (ierr, g) \<leftarrow> unpack3_list mem m (iofst + 112) lensec 0 (igds ! 2) (f0\<lparr>gf_igdtlen := 0\<rparr>);
           Some (ierr, igds, g)
         }
       }
     }"

section \<open>Section 4\<close>

text \<open>One value in IEEE format, as the significand and the exponent of the float; infinity is read as \<open>1E+37\<close>.\<close>

definition rdieee :: "int \<Rightarrow> g2float" where
  "rdieee x =
     (let sign = (if bit x 31 then - 1 else 1);
          iexp = drop_bit 23 (and x 0x7F800000);
          imant = and x 0x007FFFFF
      in if 0 < iexp \<and> iexp < 255 then (sign * (2 ^ 23 + imant), iexp - 150)
         else if iexp = 0 then (sign * imant, - 149)
         else (sign * 15777218, 99))"

definition g2_rdieee :: "int list \<Rightarrow> g2float list" where
  "g2_rdieee xs = map rdieee xs"

definition unpack4_coords :: "(nat \<Rightarrow> bool) \<Rightarrow> byte list \<Rightarrow> nat \<Rightarrow> gribfield \<Rightarrow> (int \<times> gribfield) option" where
  "unpack4_coords mem m iofst f =
     (let n = gf_num_coord f
      in if n \<noteq> 0
         then if \<not> mem (to_size (n * 8)) \<or> \<not> mem (to_size (n * 4)) then Some (6, f\<lparr>gf_num_coord := 0, gf_coord_list := None\<rparr>)
              else do { xs \<leftarrow> gbits m iofst 32 0 (nat n); Some (0, f\<lparr>gf_coord_list := Some (g2_rdieee xs)\<rparr>) }
         else Some (0, f\<lparr>gf_coord_list := None\<rparr>))"

definition g2_unpack4 :: "(nat \<Rightarrow> bool) \<Rightarrow> byte list \<Rightarrow> nat \<Rightarrow> gribfield \<Rightarrow> (int \<times> gribfield) option" where
  "g2_unpack4 mem m iofst f =
     do {
       let f0 = f\<lparr>gf_ipdtmpl := None, gf_coord_list := None\<rparr>;
       (lensec, isecnum) \<leftarrow> section_head m iofst;
       if isecnum \<noteq> 4 then Some (2, f0\<lparr>gf_num_coord := 0, gf_ipdtlen := 0\<rparr>)
       else do {
         n \<leftarrow> gbit m (iofst + 40) 16;
         num \<leftarrow> gbit m (iofst + 56) 16;
         let f1 = f0\<lparr>gf_num_coord := n, gf_ipdtnum := num\<rparr>;
         case getpdstemplate num of
           None \<Rightarrow> Some (5, f1\<lparr>gf_ipdtlen := 0\<rparr>)
         | Some t \<Rightarrow> do {
             r \<leftarrow> unpack_template mem (extpdstemplate mem num) m (iofst + 72) t;
             case r of
               None \<Rightarrow> Some (6, f1\<lparr>gf_ipdtlen := 0\<rparr>)
             | Some (p, len, k) \<Rightarrow> unpack4_coords mem m (iofst + 72 + k * 8) (f1\<lparr>gf_ipdtmpl := p, gf_ipdtlen := len\<rparr>)
           }
       }
     }"

section \<open>Section 5\<close>

definition g2_unpack5 :: "(nat \<Rightarrow> bool) \<Rightarrow> byte list \<Rightarrow> nat \<Rightarrow> gribfield \<Rightarrow> (int \<times> gribfield) option" where
  "g2_unpack5 mem m iofst f =
     do {
       let f0 = f\<lparr>gf_idrtmpl := None\<rparr>;
       (lensec, isecnum) \<leftarrow> section_head m iofst;
       if isecnum \<noteq> 5 then Some (2, f0\<lparr>gf_ndpts := 0, gf_idrtlen := 0\<rparr>)
       else do {
         n \<leftarrow> gbit m (iofst + 40) 32;
         num \<leftarrow> gbit m (iofst + 72) 16;
         let f1 = f0\<lparr>gf_ndpts := n, gf_idrtnum := num\<rparr>;
         case getdrstemplate num of
           None \<Rightarrow> Some (7, f1\<lparr>gf_idrtlen := 0\<rparr>)
         | Some t \<Rightarrow> do {
             r \<leftarrow> unpack_template mem (extdrstemplate mem num) m (iofst + 88) t;
             case r of
               None \<Rightarrow> Some (6, f1\<lparr>gf_idrtlen := 0\<rparr>)
             | Some (p, len, k) \<Rightarrow> Some (0, f1\<lparr>gf_idrtmpl := p, gf_idrtlen := len\<rparr>)
           }
       }
     }"

section \<open>What a section holds\<close>

text \<open>A section that can be unpacked on its own is unpacked to the same where it stands in a message.\<close>

lemma octets_below [below]: "stands s m p \<Longrightarrow> below (octets s i ws) (octets m (8 * p + i) ws)"
proof (induction ws arbitrary: i)
  case (Cons w ws)
  show ?case unfolding octets.simps add.assoc by (intro below Cons)
qed (simp add: below_def)

lemma section_head_below [below]: "stands s m p \<Longrightarrow> below (section_head s i) (section_head m (8 * p + i))"
  unfolding section_head_def Let_def add.assoc by (intro below)

lemma tmpl_value_below [below]: "stands s m p \<Longrightarrow> below (tmpl_value s i w) (tmpl_value m (8 * p + i) w)"
  unfolding tmpl_value_def Let_def add.assoc by (intro below)

lemma tmpl_values_below [below]: "stands s m p \<Longrightarrow> below (tmpl_values s i ws) (tmpl_values m (8 * p + i) ws)"
proof (induction ws arbitrary: i)
  case (Cons w ws)
  show ?case unfolding tmpl_values.simps add.assoc by (intro below Cons)
qed (simp add: below_def)

lemma tmpl_extend_below [below]: "stands s m p \<Longrightarrow> below (tmpl_extend mem s i t vs) (tmpl_extend mem m (8 * p + i) t vs)"
  unfolding tmpl_extend_def Let_def add.assoc by (intro below)

lemma unpack_template_below [below]: "stands s m p \<Longrightarrow> below (unpack_template mem ext s i t) (unpack_template mem ext m (8 * p + i) t)"
  unfolding unpack_template_def Let_def add.assoc by (intro below)

lemma unpack3_list_below [below]: "stands s m p \<Longrightarrow> below (unpack3_list mem s i len k n f) (unpack3_list mem m (8 * p + i) len k n f)"
  unfolding unpack3_list_def Let_def add.assoc by (intro below)

lemma unpack4_coords_below [below]: "stands s m p \<Longrightarrow> below (unpack4_coords mem s i f) (unpack4_coords mem m (8 * p + i) f)"
  unfolding unpack4_coords_def Let_def add.assoc by (intro below)

lemma g2_unpack1_below [below]: "stands s m p \<Longrightarrow> below (g2_unpack1 mem s i f) (g2_unpack1 mem m (8 * p + i) f)"
  unfolding g2_unpack1_def Let_def add.assoc by (intro below)

lemma mem_read_below [below]: "stands s m p \<Longrightarrow> below (mem_read s i n) (mem_read m (p + i) n)"
  by (auto simp: stands_def mem_read_def below_def)

lemma g2_unpack2_below [below]: "stands s m p \<Longrightarrow> below (g2_unpack2 mem s i f) (g2_unpack2 mem m (8 * p + i) f)"
proof -
  have e: "(8 * p + (i + 40)) div 8 = p + (i + 40) div 8" by simp
  show "stands s m p \<Longrightarrow> ?thesis"
    unfolding g2_unpack2_def Let_def add.assoc e by (intro below)
qed

lemma g2_unpack3_below [below]: "stands s m p \<Longrightarrow> below (g2_unpack3 mem s i f) (g2_unpack3 mem m (8 * p + i) f)"
  unfolding g2_unpack3_def Let_def add.assoc by (intro below)

lemma g2_unpack4_below [below]: "stands s m p \<Longrightarrow> below (g2_unpack4 mem s i f) (g2_unpack4 mem m (8 * p + i) f)"
  unfolding g2_unpack4_def Let_def add.assoc by (intro below)

lemma g2_unpack5_below [below]: "stands s m p \<Longrightarrow> below (g2_unpack5 mem s i f) (g2_unpack5 mem m (8 * p + i) f)"
  unfolding g2_unpack5_def Let_def add.assoc by (intro below)

end
