(* ===== verification/G2_Values.thy ===== *)
theory G2_Values
  imports G2_Unpack Headers
begin

text \<open>
  What the bit extraction of a template amounts to: big-endian numbers of whole octets, the first bit of a signed one
  being its sign. And what a template extension does to the memory.
\<close>

section \<open>Values of whole octets\<close>

definition octets_int :: "int \<Rightarrow> byte list \<Rightarrow> int" where
  "octets_int w bs =
     (let x = be_uint bs; half = 2 ^ (8 * length bs - 1)
      in if 0 \<le> w \<or> x < half then x else - (x - half))"

fun octets_ints :: "int list \<Rightarrow> byte list \<Rightarrow> int list" where
  "octets_ints [] bs = []"
| "octets_ints (w # ws) bs = octets_int w (take (nat \<bar>w\<bar>) bs) # octets_ints ws (drop (nat \<bar>w\<bar>) bs)"

definition good_width :: "int \<Rightarrow> bool" where
  "good_width w \<longleftrightarrow> w \<noteq> 0 \<and> \<bar>w\<bar> \<le> 4"

lemma bits_val_Cons: "bits_val (x # xs) = of_bool x * 2 ^ length xs + bits_val xs"
  using bits_val_append [of "[x]" xs] by simp

lemma tmpl_value_octets:
  assumes "good_width w" "p + nat \<bar>w\<bar> \<le> length m"
  shows "tmpl_value m (8 * p) w = Some (octets_int w (take (nat \<bar>w\<bar>) (drop p m)))"
proof -
  let ?n = "nat \<bar>w\<bar>"
  let ?bs = "take ?n (drop p m)"
  have n: "0 < ?n" "?n \<le> 4" using assms(1) by (auto simp: good_width_def)
  have l: "length ?bs = ?n" using assms(2) by simp
  show ?thesis
  proof (cases "0 \<le> w")
    case True
    then show ?thesis using gbit_octets [of ?n p m] n assms(2) by (simp add: tmpl_value_def octets_int_def mult.commute)
  next
    case False
    let ?B = "take (8 * ?n) (drop (8 * p) (msg_bits m))"
    have lB: "length ?B = 8 * ?n" using assms(2) by simp
    then obtain x xs where B: "?B = x # xs" using n by (cases ?B) auto
    have lx: "length xs = 8 * ?n - 1" using lB B by simp
    have v: "be_uint ?bs = of_bool x * 2 ^ (8 * ?n - 1) + bits_val xs"
      by (simp only: be_uint_def msg_bits_take [symmetric] msg_bits_drop [symmetric] B bits_val_Cons lx)
    have h: "take 1 (drop (8 * p) (msg_bits m)) = [x]"
    proof -
      have "take 1 (drop (8 * p) (msg_bits m)) = take 1 ?B" using n by (simp add: min_def)
      then show ?thesis by (simp add: B)
    qed
    have t: "take (8 * ?n - 1) (drop (8 * p + 1) (msg_bits m)) = xs"
    proof -
      have "take (8 * ?n - 1) (drop 1 (drop (8 * p) (msg_bits m))) = drop 1 ?B" using n by (subst drop_take) simp
      then show ?thesis by (simp add: B)
    qed
    have g1: "gbit m (8 * p) 1 = Some (of_bool x)"
      using gbit_exact [of 1 "8 * p" m] assms(2) n h by simp
    have g2: "gbit m (8 * p + 1) (?n * 8 - 1) = Some (bits_val xs)"
      using gbit_exact [of "8 * ?n - 1" "8 * p + 1" m] assms(2) n t by (simp add: mult.commute)
    have "bits_val xs < 2 ^ (8 * ?n - 1)" "0 \<le> bits_val xs" using bits_val_bounds [of xs] lx by simp_all
    then have "octets_int w ?bs = (if x then - bits_val xs else bits_val xs)"
      unfolding octets_int_def Let_def l v using False by (cases x) simp_all
    then show ?thesis
      unfolding tmpl_value_def Let_def using False by (simp only: g1 g2 bind.bind_lunit if_False) (cases x; simp)
  qed
qed

lemma tmpl_values_octets:
  "list_all good_width ws \<Longrightarrow> p + tmpl_octets ws \<le> length m \<Longrightarrow> tmpl_values m (8 * p) ws = Some (octets_ints ws (drop p m))"
proof (induction ws arbitrary: p)
  case (Cons w ws)
  have "tmpl_values m (8 * (p + nat \<bar>w\<bar>)) ws = Some (octets_ints ws (drop (p + nat \<bar>w\<bar>) m))"
    using Cons.prems by (intro Cons.IH) (simp_all add: tmpl_octets_def)
  moreover have e: "8 * (p + nat \<bar>w\<bar>) = 8 * p + nat \<bar>w\<bar> * 8" by simp
  moreover have "tmpl_value m (8 * p) w = Some (octets_int w (take (nat \<bar>w\<bar>) (drop p m)))"
    using Cons.prems by (intro tmpl_value_octets) (simp_all add: tmpl_octets_def)
  ultimately show ?case
    unfolding tmpl_values.simps octets_ints.simps by (simp only: e bind.bind_lunit drop_drop add.commute)
qed simp

section \<open>The tables\<close>

definition row_ok :: "tmpl_row \<Rightarrow> bool" where
  "row_ok r = (case r of (num, len, ext, ws) \<Rightarrow> 0 \<le> num \<and> num < 65535 \<and> length ws = len \<and> list_all good_width ws)"

lemma rows_ok: "list_all row_ok templatesgrid" "list_all row_ok templatespds" "list_all row_ok templatesdrs"
  by (simp_all add: templatesgrid_def templatespds_def templatesdrs_def row_ok_def good_width_def)

lemma template_index_found: "template_index j rows number = - 1 \<or>
  j \<le> template_index j rows number \<and> nat (template_index j rows number - j) < length rows \<and>
  fst (rows ! nat (template_index j rows number - j)) = number" if "0 \<le> j"
  using that
proof (induction j rows number rule: template_index.induct)
  case (2 j num len ext widths rows number)
  show ?case
  proof (cases "number = num \<or> template_index (j + 1) rows number = - 1")
    case False
    let ?i = "template_index (j + 1) rows number"
    have "j + 1 \<le> ?i" "nat (?i - (j + 1)) < length rows" "fst (rows ! nat (?i - (j + 1))) = number"
      using "2.IH" "2.prems" False by auto
    moreover from this(1) have "nat (?i - j) = Suc (nat (?i - (j + 1)))" by linarith
    ultimately show ?thesis using False by simp
  qed (use "2.prems" in auto)
qed simp

text \<open>A template of the table: it has the number asked for, and a width of 1 to 4 octets for each value.\<close>

definition template_ok :: "int \<Rightarrow> gtemplate \<Rightarrow> bool" where
  "template_ok number t \<longleftrightarrow> gt_num t = number \<and> 0 \<le> number \<and> number < 65535 \<and> length (gt_map t) = gt_maplen t \<and>
     list_all good_width (gt_map t) \<and> gt_extlen t = 0 \<and> gt_ext t = []"

lemma table_template_ok:
  assumes "list_all row_ok rows" "template_index 0 rows number \<noteq> - 1"
  shows "template_ok number (template_of ty (rows ! nat (template_index 0 rows number)))"
proof -
  let ?i = "nat (template_index 0 rows number)"
  have i: "?i < length rows" "fst (rows ! ?i) = number" using template_index_found [of 0 rows number] assms(2) by auto
  then have "row_ok (rows ! ?i)" using assms(1) by (simp add: list_all_length)
  with i(2) show ?thesis by (cases "rows ! ?i") (simp add: row_ok_def template_of_def template_ok_def)
qed

lemma get_template_ok:
  "getgridtemplate number = Some t \<Longrightarrow> template_ok number t"
  "getpdstemplate number = Some t \<Longrightarrow> template_ok number t"
  "getdrstemplate number = Some t \<Longrightarrow> template_ok number t"
  using table_template_ok rows_ok
  by (auto simp: getgridtemplate_def getpdstemplate_def getdrstemplate_def getgridindex_def getpdsindex_def getdrsindex_def Let_def
      split: if_splits)

section \<open>Extensions\<close>

text \<open>
  What an extension has added: as many widths as it says, or none when the number is negative. The fixed part is as
  it was.
\<close>

definition ext_ok :: "gtemplate \<Rightarrow> gtemplate \<Rightarrow> bool" where
  "ext_ok t t1 \<longleftrightarrow> gt_maplen t1 = gt_maplen t \<and> gt_map t1 = gt_map t \<and> list_all good_width (gt_ext t1) \<and>
     (gt_extlen t1 = int (length (gt_ext t1)) \<or> gt_extlen t1 < 0 \<and> gt_ext t1 = [])"

lemma set_ext_ok:
  assumes "set_ext mem t n xs = Some t1" "list_all good_width xs" "n \<le> int (length xs)"
  shows "ext_ok t t1"
proof -
  from assms(1) have "t1 = t\<lparr>gt_extlen := n, gt_ext := xs\<rparr>" "xs = [] \<or> int (length xs) \<le> n" by (auto simp: set_ext_def split: if_splits)
  with assms(2,3) show ?thesis by (cases "xs = []") (auto simp: ext_ok_def)
qed

lemma same_template_ok: "template_ok number t \<Longrightarrow> ext_ok t t"
  by (simp add: template_ok_def ext_ok_def)

lemma widths_replicate: "list_all good_width xs \<Longrightarrow> list_all good_width (concat (replicate n xs))"
  by (induction n) simp_all

lemma length_concat_replicate: "length (concat (replicate n xs)) = n * length xs"
  by (induction n) simp_all

lemma more_ranges_ok:
  assumes "list_all good_width (gt_map t)" "off + 6 \<le> length (gt_map t)"
  shows "list_all good_width (more_ranges t n off)" "int (length (more_ranges t n off)) = (if 1 < n then (n - 1) * 6 else 0)"
proof -
  have "list_all good_width (take 6 (drop off (gt_map t)))"
    using assms(1) by (auto simp: list_all_iff dest: in_set_takeD in_set_dropD)
  then show "list_all good_width (more_ranges t n off)" unfolding more_ranges_def by (rule widths_replicate)
  show "int (length (more_ranges t n off)) = (if 1 < n then (n - 1) * 6 else 0)"
    using assms(2) by (simp add: more_ranges_def length_concat_replicate)
qed

lemma range_ext_ok:
  assumes "template_ok number t" "range_ext mem t vs i off = Some t1" "off + 6 \<le> gt_maplen t"
  shows "ext_ok t t1"
proof -
  from assms(2) obtain n where n: "(if 1 < n then set_ext mem t ((n - 1) * 6) (more_ranges t n off) else Some t) = Some t1"
    by (auto simp: range_ext_def Option.bind_eq_Some_conv)
  show ?thesis
  proof (cases "1 < n")
    case True
    then show ?thesis using n more_ranges_ok [of t off n] assms(1,3) by (intro set_ext_ok) (auto simp: template_ok_def)
  next
    case False
    then show ?thesis using n same_template_ok [OF assms(1)] by simp
  qed
qed

lemma cluster_ext_ok:
  assumes "template_ok number t" "cluster_ext mem t vs i off j = Some t1" "off + 6 \<le> gt_maplen t" "j < length vs" "0 \<le> vs ! j"
  shows "ext_ok t t1"
proof -
  from assms(2) obtain n where n: "set_ext mem t ((n - 1) * 6 + vs ! j) (more_ranges t n off @ replicate (nat (vs ! j)) 1) = Some t1"
    using assms(4) by (auto simp: cluster_ext_def rd_def Option.bind_eq_Some_conv split: if_splits)
  have t: "list_all good_width (gt_map t)" "off + 6 \<le> length (gt_map t)" using assms(1,3) by (simp_all add: template_ok_def)
  have "list_all good_width (replicate k 1)" for k by (simp add: good_width_def list_all_iff)
  then have "list_all good_width (more_ranges t n off @ replicate (nat (vs ! j)) 1)" using more_ranges_ok(1) [OF t] by simp
  moreover have "(n - 1) * 6 + vs ! j \<le> int (length (more_ranges t n off @ replicate (nat (vs ! j)) 1))"
    using more_ranges_ok(2) [OF t, of n] assms(5) by simp
  ultimately show ?thesis using n by (intro set_ext_ok)
qed

lemma band_ext_ok: "band_ext mem t vs = Some t1 \<Longrightarrow> ext_ok t t1"
proof -
  assume "band_ext mem t vs = Some t1"
  then obtain n where n: "set_ext mem t (n * 5) (concat (replicate (nat n) [2, 2, 1, 1, 4])) = Some t1"
    by (auto simp: band_ext_def Option.bind_eq_Some_conv)
  have "list_all good_width (concat (replicate (nat n) [2, 2, 1, 1, 4]))"
    by (rule widths_replicate) (simp add: good_width_def)
  then show ?thesis using n by (intro set_ext_ok) (auto simp: length_concat_replicate)
qed

lemma length_octets_ints [simp]: "length (octets_ints ws bs) = length ws"
  by (induction ws bs rule: octets_ints.induct) simp_all

lemma octets_ints_append: "octets_ints (ws @ us) bs = octets_ints ws bs @ octets_ints us (drop (tmpl_octets ws) bs)"
  by (induction ws arbitrary: bs) (simp_all add: tmpl_octets_def add.commute)

lemma octets_ints_nth: "i < length ws \<Longrightarrow> octets_ints ws bs ! i = octets_int (ws ! i) (take (nat \<bar>ws ! i\<bar>) (drop (tmpl_octets (take i ws)) bs))"
proof (induction ws arbitrary: i bs)
  case (Cons w ws)
  then show ?case by (cases i) (simp_all add: tmpl_octets_def add.commute)
qed simp

lemma octets_ints_unsigned: "i < length ws \<Longrightarrow> 0 \<le> ws ! i \<Longrightarrow> 0 \<le> octets_ints ws bs ! i"
  using be_uint_bounds(1) by (simp add: octets_ints_nth octets_int_def Let_def)

lemma cluster_size_unsigned: "getpdstemplate number = Some t \<Longrightarrow>
    (number = 13 \<longrightarrow> 26 < length (gt_map t) \<and> gt_map t ! 26 = 1) \<and> (number = 14 \<longrightarrow> 25 < length (gt_map t) \<and> gt_map t ! 25 = 1)"
  by (auto simp: getpdstemplate_def getpdsindex_def templatespds_def template_of_def)

lemma set_ext_replicate: "set_ext mem t n (replicate (nat n) w) = Some t1 \<Longrightarrow> good_width w \<Longrightarrow> ext_ok t t1"
  by (rule set_ext_ok) (auto simp: list_all_iff)

lemma extgridtemplate_ok:
  assumes "getgridtemplate number = Some t" "extgridtemplate mem number vs = Some (Some t1)"
  shows "ext_ok t t1"
proof -
  have ok: "template_ok number t" by (rule get_template_ok(1) [OF assms(1)])
  have w: "ext_ok t t1" if "set_ext mem t (n * 2) (map (\<lambda>i. if i mod 2 = 0 then 2 else - 2) [0..<nat (n * 2)]) = Some t1" for n
    using that by (rule set_ext_ok) (auto simp: good_width_def list_all_length)
  show ?thesis
    using assms(2) same_template_ok [OF ok]
    by (auto simp: extgridtemplate_def assms(1) good_width_def Option.bind_eq_Some_conv split: if_splits intro: w set_ext_replicate)
qed

lemma extdrstemplate_ok:
  assumes "getdrstemplate number = Some t" "extdrstemplate mem number vs = Some (Some t1)"
  shows "ext_ok t t1"
proof -
  have ok: "template_ok number t" by (rule get_template_ok(3) [OF assms(1)])
  show ?thesis
    using assms(2) same_template_ok [OF ok]
    by (auto simp: extdrstemplate_def assms(1) good_width_def Option.bind_eq_Some_conv split: if_splits intro: set_ext_replicate)
qed

lemma range_templates: "getpdstemplate number = Some t \<Longrightarrow>
    (number = 8 \<longrightarrow> gt_maplen t = 29) \<and> (number = 9 \<longrightarrow> gt_maplen t = 36) \<and> (number = 10 \<longrightarrow> gt_maplen t = 30) \<and>
    (number = 11 \<longrightarrow> gt_maplen t = 32) \<and> (number = 12 \<longrightarrow> gt_maplen t = 31) \<and> (number = 13 \<longrightarrow> gt_maplen t = 45) \<and>
    (number = 14 \<longrightarrow> gt_maplen t = 44)"
  by (auto simp: getpdstemplate_def getpdsindex_def templatespds_def template_of_def)

lemma extpdstemplate_groups:
  assumes "getpdstemplate number = Some t" "gt_needext t"
  shows "(number, i) \<in> {(3, 26), (4, 25)} \<Longrightarrow> extpdstemplate mem number vs = do { n \<leftarrow> rd vs i; map_option Some (set_ext mem t n (replicate (nat n) 1)) }"
    and "(number, i, off) \<in> {(8, 21, 23), (9, 28, 30), (10, 22, 24), (11, 24, 26), (12, 23, 25)} \<Longrightarrow>
      extpdstemplate mem number vs = map_option Some (range_ext mem t vs i off)"
    and "(number, i, off, j) \<in> {(13, 37, 39, 26), (14, 36, 38, 25)} \<Longrightarrow>
      extpdstemplate mem number vs = map_option Some (cluster_ext mem t vs i off j)"
    and "number \<in> {30, 31} \<Longrightarrow> extpdstemplate mem number vs = map_option Some (band_ext mem t vs)"
  using assms by (auto simp: extpdstemplate_def)

lemma extpdstemplate_ok:
  assumes "getpdstemplate number = Some t" "extpdstemplate mem number (octets_ints (gt_map t) bs) = Some (Some t1)"
  shows "ext_ok t t1"
proof -
  let ?vs = "octets_ints (gt_map t) bs"
  have ok: "template_ok number t" by (rule get_template_ok(2) [OF assms(1)])
  note len = range_templates [OF assms(1)]
  note grp = extpdstemplate_groups [OF assms(1), where mem = mem and vs = ?vs]
  consider (plain) "\<not> gt_needext t \<or> number \<notin> {3, 4, 8, 9, 10, 11, 12, 13, 14, 30, 31}"
    | (members) i where "gt_needext t" "(number, i) \<in> {(3, 26), (4::int, 25::nat)}"
    | (ranges) i off where "gt_needext t" "(number, i, off) \<in> {(8, 21, 23), (9, 28, 30), (10, 22, 24), (11, 24, 26), (12::int, 23::nat, 25::nat)}"
    | (cluster) i off j where "gt_needext t" "(number, i, off, j) \<in> {(13, 37, 39, 26), (14::int, 36::nat, 38::nat, 25::nat)}"
    | (bands) "gt_needext t" "number \<in> {30, 31}"
    by (cases "gt_needext t"; simp only: insert_iff empty_iff prod.inject; metis)
  then show ?thesis
  proof cases
    case plain
    then have "extpdstemplate mem number ?vs = Some (Some t)" by (cases "gt_needext t") (simp_all add: extpdstemplate_def assms(1))
    then show ?thesis using assms(2) same_template_ok [OF ok] by simp
  next
    case members
    then obtain n where "set_ext mem t n (replicate (nat n) 1) = Some t1"
      using assms(2) grp(1) [OF members] by (auto simp: Option.bind_eq_Some_conv)
    then show ?thesis by (rule set_ext_replicate) (simp add: good_width_def)
  next
    case ranges
    then have "range_ext mem t ?vs i off = Some t1" using assms(2) grp(2) [OF ranges] by simp
    moreover from ranges(2) have "off + 6 \<le> gt_maplen t" by (elim insertE emptyE) (simp_all add: len)
    ultimately show ?thesis by (rule range_ext_ok [OF ok])
  next
    case cluster
    then have c: "cluster_ext mem t ?vs i off j = Some t1" using assms(2) grp(3) [OF cluster] by simp
    from cluster(2) have "off + 6 \<le> gt_maplen t" "j < length (gt_map t)" "gt_map t ! j = 1"
      by (elim insertE emptyE; simp add: len cluster_size_unsigned [OF assms(1)])+
    then show ?thesis by (intro cluster_ext_ok [OF ok c]) (simp_all add: octets_ints_unsigned)
  next
    case bands
    then show ?thesis using assms(2) grp(4) [OF bands] by (auto intro: band_ext_ok)
  qed
qed

section \<open>Whole templates\<close>

text \<open>All widths of a template, those of its extension included.\<close>

definition all_widths :: "(int list \<Rightarrow> gtemplate option option) \<Rightarrow> gtemplate \<Rightarrow> byte list \<Rightarrow> int list option" where
  "all_widths ext t bs =
     (if \<not> gt_needext t then Some (gt_map t)
      else case ext (octets_ints (gt_map t) bs) of
             Some (Some t1) \<Rightarrow> if 0 \<le> gt_extlen t1 then Some (gt_map t @ gt_ext t1) else None
           | _ \<Rightarrow> None)"

lemma unpack_template_octets:
  assumes "template_ok number t" "all_widths ext t (drop p m) = Some ws" "p + tmpl_octets ws \<le> length m" "\<And>n. mem n"
    and "\<And>t1. ext (octets_ints (gt_map t) (drop p m)) = Some (Some t1) \<Longrightarrow> ext_ok t t1"
  shows "unpack_template mem ext m (8 * p) t = Some (Some (Some (octets_ints ws (drop p m)), int (length ws), tmpl_octets ws))"
proof -
  have l: "take (gt_maplen t) (gt_map t) = gt_map t" "gt_maplen t = length (gt_map t)" "list_all good_width (gt_map t)"
    using assms(1) by (simp_all add: template_ok_def)
  have o: "tmpl_octets (xs @ ys) = tmpl_octets xs + tmpl_octets ys" for xs ys by (simp add: tmpl_octets_def)
  show ?thesis
  proof (cases "gt_needext t")
    case False
    then have "ws = gt_map t" using assms(2) by (simp add: all_widths_def)
    then show ?thesis
      using False tmpl_values_octets [OF l(3), of p m] assms(3,4) l by (simp add: unpack_template_def Let_def)
  next
    case True
    then obtain t1 where t1: "ext (octets_ints (gt_map t) (drop p m)) = Some (Some t1)" "0 \<le> gt_extlen t1" "ws = gt_map t @ gt_ext t1"
      using assms(2) by (auto simp: all_widths_def split: option.splits if_splits)
    have e: "ext_ok t t1" by (rule assms(5) [OF t1(1)])
    have x: "gt_extlen t1 = int (length (gt_ext t1))" "gt_maplen t1 = length (gt_map t)" "list_all good_width (gt_ext t1)"
      using e t1(2) l(2) by (auto simp: ext_ok_def)
    have v: "tmpl_values m (8 * p) (gt_map t) = Some (octets_ints (gt_map t) (drop p m))"
      using assms(3) t1(3) by (intro tmpl_values_octets l(3)) (simp add: o)
    have u: "tmpl_values m (8 * (p + tmpl_octets (gt_map t))) (gt_ext t1) = Some (octets_ints (gt_ext t1) (drop (p + tmpl_octets (gt_map t)) m))"
      using assms(3) t1(3) by (intro tmpl_values_octets x(3)) (simp add: o)
    have ix: "8 * p + tmpl_octets (gt_map t) * 8 = 8 * (p + tmpl_octets (gt_map t))" by simp
    have "tmpl_extend mem m (8 * p + tmpl_octets (gt_map t) * 8) t1 (octets_ints (gt_map t) (drop p m)) =
        Some (Some (octets_ints ws (drop p m)), int (length ws), tmpl_octets (gt_ext t1))"
    proof (cases "gt_ext t1 = []")
      case True
      then show ?thesis using x assms(4) t1(3) by (simp add: tmpl_extend_def Let_def tmpl_octets_def)
    next
      case False
      then show ?thesis
        unfolding tmpl_extend_def Let_def ix using x assms(4) u t1(3) by (simp add: octets_ints_append add.commute)
    qed
    then show ?thesis
      unfolding unpack_template_def Let_def l(1) using True assms(4) v t1(1,3) by (simp add: o)
  qed
qed

section \<open>Sections as bytes\<close>

lemma be_uint_be32: "0 \<le> n \<Longrightarrow> n < 2 ^ 32 \<Longrightarrow> be_uint (be32_bytes n) = n"
proof -
  assume n: "0 \<le> n" "n < 2 ^ 32"
  then have "n < 4294967296" by simp
  note q = quot_parts [OF n(1) this]
  have "be_uint [a, b, c, d] = ((uint a * 256 + uint b) * 256 + uint c) * 256 + uint d" for a b c d by (simp add: be_uint_Cons)
  then show ?thesis by (simp only: be32_bytes_def uint_byte q)
qed

lemma be_uint_be16: "0 \<le> n \<Longrightarrow> n < 65536 \<Longrightarrow> be_uint (be16_bytes n) = n"
proof -
  have "be_uint [a, b] = be16 a b" for a b by (simp add: be_uint_Cons be16_def)
  then show "0 \<le> n \<Longrightarrow> n < 65536 \<Longrightarrow> ?thesis" by (simp only: be16_bytes_def be16_roundtrip)
qed

lemma length_be_bytes [simp]: "length (be32_bytes n) = 4" "length (be16_bytes n) = 2"
  by (simp_all add: be32_bytes_def be16_bytes_def)

definition grib_section :: "nat \<Rightarrow> byte list \<Rightarrow> byte list" where
  "grib_section num body = be32_bytes (int (length body) + 5) @ word_of_nat num # body"

lemma length_grib_section [simp]: "length (grib_section num body) = length body + 5"
  by (simp add: grib_section_def)

lemma gbit_field:
  assumes "m = before @ bs @ behind" "p = length before" "0 < length bs" "length bs \<le> 7"
  shows "gbit m (8 * p) (8 * length bs) = Some (be_uint bs)"
  using gbit_octets [of "length bs" p m] assms by simp

lemma section_head_section: "int (length body) + 5 < 2 ^ 32 \<Longrightarrow> num < 256 \<Longrightarrow> section_head (grib_section num body) 0 = Some (int (length body) + 5, int num)"
proof -
  assume l: "int (length body) + 5 < 2 ^ 32" and n: "num < 256"
  have a: "gbit (grib_section num body) 0 32 = Some (int (length body) + 5)"
    using gbit_field [of "grib_section num body" "[]" "be32_bytes (int (length body) + 5)" "word_of_nat num # body" 0] l
    by (simp add: grib_section_def be_uint_be32)
  have b: "gbit (grib_section num body) 32 8 = Some (int num)"
    using gbit_field [of "grib_section num body" "be32_bytes (int (length body) + 5)" "[word_of_nat num]" body 4] n
    by (simp add: grib_section_def be_uint_Cons unsigned_of_nat take_bit_nat_eq_self)
  show ?thesis by (simp add: section_head_def a b)
qed

lemma product_section:
  assumes "getpdstemplate num = Some t" "all_widths (extpdstemplate mem num) t bs = Some ws" "tmpl_octets ws \<le> length bs"
    and "\<And>n. mem n" "length bs < 2 ^ 31"
  shows "g2_unpack4 mem (grib_section 4 ([0, 0] @ be16_bytes num @ bs)) 0 f =
    Some (0, f\<lparr>gf_num_coord := 0, gf_ipdtnum := num, gf_ipdtmpl := Some (octets_ints ws bs), gf_ipdtlen := int (length ws), gf_coord_list := None\<rparr>)"
proof -
  define S where "S = grib_section 4 ([0, 0] @ be16_bytes num @ bs)"
  have n: "0 \<le> num" "num < 65535" using get_template_ok(2) [OF assms(1)] by (simp_all add: template_ok_def)
  have h: "section_head S 0 = Some (9 + int (length bs), 4)"
    using section_head_section [of "[0, 0] @ be16_bytes num @ bs" 4] assms(5) by (simp add: S_def)
  have a: "gbit S 40 16 = Some 0"
    using gbit_field [of S "be32_bytes (9 + int (length bs)) @ [4]" "[0, 0]" "be16_bytes num @ bs" 5]
    by (simp add: S_def grib_section_def be_uint_Cons)
  have b: "gbit S 56 16 = Some num"
    using gbit_field [of S "be32_bytes (9 + int (length bs)) @ [4, 0, 0]" "be16_bytes num" bs 7] n
    by (simp add: S_def grib_section_def be_uint_be16)
  have lS: "length S = 9 + length bs" by (simp add: S_def)
  have d: "drop 9 S = bs" by (simp add: S_def grib_section_def be32_bytes_def be16_bytes_def)
  have u: "unpack_template mem (extpdstemplate mem num) S 72 t = Some (Some (Some (octets_ints ws bs), int (length ws), tmpl_octets ws))"
    using unpack_template_octets [OF get_template_ok(2) [OF assms(1)], of "extpdstemplate mem num" 9 S ws mem] assms(2-4)
      extpdstemplate_ok [OF assms(1), of mem bs] by (simp add: d lS)
  show ?thesis
    unfolding S_def [symmetric] by (simp add: g2_unpack4_def Let_def h a b assms(1) u unpack4_coords_def)
qed

lemma octets_exact: "\<forall>w \<in> set ws. 0 < w \<and> w \<le> 4 \<Longrightarrow> p + sum_list ws \<le> length m \<Longrightarrow>
  octets m (8 * p) ws = Some (octets_ints (map int ws) (drop p m))"
proof (induction ws arbitrary: p)
  case (Cons w ws)
  have "octets m (8 * (p + w)) ws = Some (octets_ints (map int ws) (drop (p + w) m))"
    using Cons.prems by (intro Cons.IH) simp_all
  moreover have e: "8 * (p + w) = 8 * p + w * 8" by simp
  moreover have "gbit m (8 * p) (w * 8) = Some (octets_int (int w) (take w (drop p m)))"
    using gbit_octets [of w p m] Cons.prems by (simp add: octets_int_def mult.commute)
  ultimately show ?case
    unfolding octets.simps list.map octets_ints.simps by (simp only: e bind.bind_lunit drop_drop add.commute nat_int abs_of_nat)
qed simp

lemma grid_section:
  assumes "getgridtemplate num = Some t" "all_widths (extgridtemplate mem num) t bs = Some ws" "tmpl_octets ws \<le> length bs"
    and "\<And>n. mem n" "length bs < 2 ^ 31" "0 \<le> npts" "npts < 2 ^ 32"
  shows "g2_unpack3 mem (grib_section 3 ([src] @ be32_bytes npts @ [0, interp] @ be16_bytes num @ bs)) 0 f =
    Some (0, [uint src, npts, 0, uint interp, num],
          f\<lparr>gf_igdtmpl := Some (octets_ints ws bs), gf_igdtlen := int (length ws), gf_num_opt := 0, gf_list_opt := None\<rparr>)"
proof -
  define S where "S = grib_section 3 ([src] @ be32_bytes npts @ [0, interp] @ be16_bytes num @ bs)"
  let ?l = "be32_bytes (14 + int (length bs))"
  have n: "0 \<le> num" "num < 65535" using get_template_ok(1) [OF assms(1)] by (simp_all add: template_ok_def)
  have h: "section_head S 0 = Some (14 + int (length bs), 3)"
    using section_head_section [of "[src] @ be32_bytes npts @ [0, interp] @ be16_bytes num @ bs" 3] assms(5) by (simp add: S_def)
  have s: "S = ?l @ [3, src] @ be32_bytes npts @ [0, interp] @ be16_bytes num @ bs"
    by (simp add: S_def grib_section_def)
  have "octets S (8 * 5) [1, 4, 1, 1, 2] = Some (octets_ints (map int [1, 4, 1, 1, 2]) (drop 5 S))"
    by (rule octets_exact) (simp_all add: s)
  also have "drop 5 S = [src] @ be32_bytes npts @ [0, interp] @ be16_bytes num @ bs" unfolding s by (simp add: be32_bytes_def)
  also have "octets_ints (map int [1, 4, 1, 1, 2]) \<dots> = [uint src, npts, 0, uint interp, num]"
    using n assms(6,7) by (simp add: octets_int_def be_uint_be32 be_uint_be16)
  finally have o: "octets S 40 [1, 4, 1, 1, 2] = Some [uint src, npts, 0, uint interp, num]" by simp
  have lS: "length S = 14 + length bs" by (simp add: S_def)
  have d: "drop 14 S = bs" by (simp add: S_def grib_section_def be32_bytes_def be16_bytes_def)
  have u: "unpack_template mem (extgridtemplate mem num) S 112 t = Some (Some (Some (octets_ints ws bs), int (length ws), tmpl_octets ws))"
    using unpack_template_octets [OF get_template_ok(1) [OF assms(1)], of "extgridtemplate mem num" 14 S ws mem] assms(2-4)
      extgridtemplate_ok [OF assms(1), of mem "octets_ints (gt_map t) bs"] by (simp add: d lS)
  show ?thesis
    unfolding S_def [symmetric] using n by (simp add: g2_unpack3_def Let_def h o [unfolded One_nat_def] assms(1,4) u unpack3_list_def del: octets.simps)
qed

lemma representation_section:
  assumes "getdrstemplate num = Some t" "all_widths (extdrstemplate mem num) t bs = Some ws" "tmpl_octets ws \<le> length bs"
    and "\<And>n. mem n" "length bs < 2 ^ 31" "0 \<le> ndpts" "ndpts < 2 ^ 32"
  shows "g2_unpack5 mem (grib_section 5 (be32_bytes ndpts @ be16_bytes num @ bs)) 0 f =
    Some (0, f\<lparr>gf_ndpts := ndpts, gf_idrtnum := num, gf_idrtmpl := Some (octets_ints ws bs), gf_idrtlen := int (length ws)\<rparr>)"
proof -
  define S where "S = grib_section 5 (be32_bytes ndpts @ be16_bytes num @ bs)"
  let ?l = "be32_bytes (11 + int (length bs))"
  have n: "0 \<le> num" "num < 65535" using get_template_ok(3) [OF assms(1)] by (simp_all add: template_ok_def)
  have h: "section_head S 0 = Some (11 + int (length bs), 5)"
    using section_head_section [of "be32_bytes ndpts @ be16_bytes num @ bs" 5] assms(5) by (simp add: S_def)
  have s: "S = (?l @ [5]) @ be32_bytes ndpts @ be16_bytes num @ bs" "S = (?l @ [5] @ be32_bytes ndpts) @ be16_bytes num @ bs"
    by (simp_all add: S_def grib_section_def)
  have a: "gbit S 40 32 = Some ndpts"
    using gbit_field [OF s(1), of 5] be_uint_be32 [OF assms(6,7)] by simp
  have b: "gbit S 72 16 = Some num"
    using gbit_field [OF s(2), of 9] be_uint_be16 [of num] n by simp
  have lS: "length S = 11 + length bs" by (simp add: S_def)
  have d: "drop 11 S = bs" by (simp add: S_def grib_section_def be32_bytes_def be16_bytes_def)
  have u: "unpack_template mem (extdrstemplate mem num) S 88 t = Some (Some (Some (octets_ints ws bs), int (length ws), tmpl_octets ws))"
    using unpack_template_octets [OF get_template_ok(3) [OF assms(1)], of "extdrstemplate mem num" 11 S ws mem] assms(2-4)
      extdrstemplate_ok [OF assms(1), of mem "octets_ints (gt_map t) bs"] by (simp add: d lS)
  show ?thesis
    unfolding S_def [symmetric] by (simp add: g2_unpack5_def Let_def h a b assms(1) u)
qed

section \<open>Clusters without a time range\<close>

lemma template_13: "\<exists>t. getpdstemplate 13 = Some t \<and> gt_needext t \<and> length (gt_map t) = 45 \<and> tmpl_octets (gt_map t) = 83 \<and>
    gt_map t ! 26 = 1 \<and> tmpl_octets (take 26 (gt_map t)) = 48 \<and> gt_map t ! 37 = 1 \<and> tmpl_octets (take 37 (gt_map t)) = 66"
  by (simp add: getpdstemplate_def getpdsindex_def templatespds_def template_of_def tmpl_octets_def)

lemma one_octet: "i < length bs \<Longrightarrow> octets_int 1 (take 1 (drop i bs)) = uint (bs ! i)"
proof -
  assume "i < length bs"
  then have "take 1 (drop i bs) = [bs ! i]" by (simp add: take_Suc_conv_app_nth Cons_nth_drop_Suc [symmetric])
  then show ?thesis by (simp add: octets_int_def)
qed

text \<open>
  The templates are well formed: the number asked for, as many widths as values, each of one to four octets; and an
  extension that is there has as many widths as it says, of the same kind, and leaves the fixed part alone.
\<close>

theorem templates_well_formed:
  assumes "getpdstemplate number = Some t"
  shows "template_ok number t \<and>
    (\<forall>t1. extpdstemplate mem number (octets_ints (gt_map t) bs) = Some (Some t1) \<longrightarrow> ext_ok t t1)"
  using get_template_ok(2) [OF assms] extpdstemplate_ok [OF assms, of mem bs] by blast

text \<open>
  C40: Product template 4.13: the memory for the extension is six words for each time range but the first and one for each
  member of the cluster. With no time range at all that is six words too few, and the widths of the members are
  written behind it.
\<close>

theorem no_time_range_overruns_heap:
  assumes "83 \<le> length bs" "length bs < 2 ^ 31" "bs ! 66 = 0" "bs ! 48 \<noteq> 0" "\<And>n. mem n"
  shows "g2_unpack4 mem (grib_section 4 ([0, 0] @ be16_bytes 13 @ bs)) 0 f = None"
proof -
  obtain t where t: "getpdstemplate 13 = Some t" "gt_needext t" "length (gt_map t) = 45" "tmpl_octets (gt_map t) = 83"
    "gt_map t ! 26 = 1" "tmpl_octets (take 26 (gt_map t)) = 48" "gt_map t ! 37 = 1" "tmpl_octets (take 37 (gt_map t)) = 66"
    using template_13 by blast
  have ok: "template_ok 13 t" by (rule get_template_ok(2) [OF t(1)])
  define S where "S = grib_section 4 ([0, 0] @ be16_bytes 13 @ bs)"
  have h: "section_head S 0 = Some (9 + int (length bs), 4)"
    using section_head_section [of "[0, 0] @ be16_bytes 13 @ bs" 4] assms(2) by (simp add: S_def)
  have s: "S = (be32_bytes (9 + int (length bs)) @ [4]) @ [0, 0] @ be16_bytes 13 @ bs"
    "S = (be32_bytes (9 + int (length bs)) @ [4, 0, 0]) @ be16_bytes 13 @ bs"
    by (simp_all add: S_def grib_section_def)
  have a: "gbit S 40 16 = Some 0" using gbit_field [OF s(1), of 5] by (simp add: be_uint_Cons)
  have b: "gbit S 56 16 = Some 13" using gbit_field [OF s(2), of 7] be_uint_be16 [of 13] by simp
  have d: "drop 9 S = bs" "length S = 9 + length bs" by (simp_all add: S_def grib_section_def be32_bytes_def be16_bytes_def)
  let ?vs = "octets_ints (gt_map t) bs"
  have v: "tmpl_values S 72 (gt_map t) = Some ?vs"
    using tmpl_values_octets [of "gt_map t" 9 S] ok assms(1) t(4) d by (simp add: template_ok_def)
  have "?vs ! 37 = 0"
    using octets_ints_nth [of 37 "gt_map t" bs] t assms(1,3) one_octet [of 66 bs] by simp
  moreover have "?vs ! 26 = uint (bs ! 48)"
    using octets_ints_nth [of 26 "gt_map t" bs] t assms(1) one_octet [of 48 bs] by simp
  ultimately have r: "rd ?vs 37 = Some 0" "rd ?vs 26 = Some (uint (bs ! 48))" using t(3) by (simp_all add: rd_def)
  have pos: "0 < unat (bs ! 48)" using assms(4) by (simp add: unat_gt_0)
  have "set_ext mem t ((0 - 1) * 6 + uint (bs ! 48)) (more_ranges t 0 39 @ replicate (nat (uint (bs ! 48))) 1) = None"
    using pos by (simp add: set_ext_def more_ranges_def)
  then have "cluster_ext mem t ?vs 37 39 26 = None" by (simp add: cluster_ext_def r)
  then have e: "extpdstemplate mem 13 ?vs = None" using extpdstemplate_groups(3) [OF t(1,2), of 37 39 26 mem ?vs] by simp
  have "unpack_template mem (extpdstemplate mem 13) S 72 t = None"
    using ok t(2) assms(5) v e by (simp add: unpack_template_def template_ok_def)
  then show ?thesis
    unfolding S_def [symmetric] by (simp add: g2_unpack4_def Let_def h a b t(1))
qed

section \<open>Witnesses\<close>

definition demo_gribfield :: gribfield where
  "demo_gribfield =
     \<lparr>gf_version = 0, gf_discipline = 0, gf_idsect = None, gf_idsectlen = 0, gf_local = None, gf_locallen = 0, gf_ifldnum = 0,
      gf_griddef = 0, gf_ngrdpts = 0, gf_numoct_opt = 0, gf_interp_opt = 0, gf_num_opt = 0, gf_list_opt = None, gf_igdtnum = 0,
      gf_igdtlen = 0, gf_igdtmpl = None, gf_ipdtnum = 0, gf_ipdtlen = 0, gf_ipdtmpl = None, gf_num_coord = 0,
      gf_coord_list = None, gf_ndpts = 0, gf_idrtnum = 0, gf_idrtlen = 0, gf_idrtmpl = None, gf_unpacked = 0, gf_expanded = 0,
      gf_ibmap = 0, gf_bmap = None, gf_fld = None\<rparr>"

theorem templates_well_formed_witness:
  "\<exists>t. getpdstemplate 8 = Some t \<and> template_ok 8 t \<and>
    (\<forall>t1. extpdstemplate (\<lambda>_. True) 8 (octets_ints (gt_map t) (replicate 54 2)) = Some (Some t1) \<longrightarrow> ext_ok t t1)"
proof -
  obtain t where t: "getpdstemplate 8 = Some t" by (simp add: getpdstemplate_def getpdsindex_def templatespds_def)
  then show ?thesis using templates_well_formed [OF t, of "\<lambda>_. True" "replicate 54 2"] by blast
qed

theorem no_time_range_overruns_heap_witness:
  "g2_unpack4 (\<lambda>_. True) (grib_section 4 ([0, 0] @ be16_bytes 13 @ replicate 48 0 @ [7] @ replicate 34 0)) 0 demo_gribfield = None"
  by (rule no_time_range_overruns_heap) (simp_all add: nth_append)

end
