(* ===== verification/G2_Message.thy ===== *)
theory G2_Message
  imports G2_Values
begin

text \<open>
  A whole GRIB2 message: \<open>g2_info\<close> counts its fields and \<open>g2_getfld\<close> takes out the description of one field
  (\<open>g2_info.c\<close>, \<open>g2_getfld.c\<close>). Both walk over the sections, whose lengths come from the message. \<open>g2_getfld\<close> is
  modelled for \<open>unpack = 0\<close>, the only use in this program: Sections 6 and 7 are not unpacked.

  The loops have fuel, one unit for each section: nothing makes them end when a section has the length 0.
\<close>

datatype 'a run = Returns 'a | Undef | OutOfFuel

fun run_bind :: "'a option \<Rightarrow> ('a \<Rightarrow> 'b run) \<Rightarrow> 'b run" where
  "run_bind None k = Undef"
| "run_bind (Some x) k = k x"

section \<open>Marks\<close>

text \<open>Whether the memory holds these bytes at \<open>i\<close>; after the first that is different no more are read.\<close>

fun bytes_at :: "byte list \<Rightarrow> nat \<Rightarrow> byte list \<Rightarrow> bool option" where
  "bytes_at m i [] = Some True"
| "bytes_at m i (c # cs) = do { b \<leftarrow> rd m i; if b = c then bytes_at m (i + 1) cs else Some False }"

definition sevens :: "byte list" where
  "sevens = [55, 55, 55, 55]"

text \<open>The first \<open>GRIB\<close> at \<open>j\<close> or one of the \<open>n\<close> places from there, -1 if there is none.\<close>

fun find_grib :: "byte list \<Rightarrow> nat \<Rightarrow> nat \<Rightarrow> int option" where
  "find_grib m j 0 = Some (- 1)"
| "find_grib m j (Suc n) = do { b \<leftarrow> bytes_at m j (str ''GRIB''); if b then Some (int j) else find_grib m (j + 1) n }"

section \<open>g2_info\<close>

fun info_loop :: "nat \<Rightarrow> byte list \<Rightarrow> int \<Rightarrow> nat \<Rightarrow> int \<times> int \<Rightarrow> (int + int \<times> int) run" where
  "info_loop 0 m gend ipos n = OutOfFuel"
| "info_loop (Suc fuel) m gend ipos n =
     run_bind (bytes_at m ipos sevens) (\<lambda>b.
       if b then Returns (if int ipos + 4 \<noteq> gend then Inl 4 else Inr n)
       else run_bind (section_head m (ipos * 8)) (\<lambda>(lensec, isecnum).
         if gend < int ipos + lensec then Returns (Inl 5)
         else if 2 \<le> isecnum \<and> isecnum \<le> 7
         then info_loop fuel m gend (ipos + nat lensec)
                (if isecnum = 2 then (fst n, snd n + 1) else if isecnum = 4 then (fst n + 1, snd n) else n)
         else Returns (Inl 6)))"

text \<open>
  \<open>Inl\<close> is an error code; \<open>Inr\<close> are \<open>listsec0\<close>, \<open>listsec1\<close> and the numbers of fields and of local sections. The search for
  \<open>GRIB\<close> was meant to stop at \<open>sz\<close>, but the comma in its condition makes only \<open>j < 100\<close> count.
\<close>

definition g2_info :: "nat \<Rightarrow> byte list \<Rightarrow> int \<Rightarrow> (int + int list \<times> int list \<times> int \<times> int) run" where
  "g2_info fuel m sz =
     run_bind (find_grib m 0 100) (\<lambda>istart.
       if istart = - 1 then Returns (Inl 1)
       else let s = nat istart in
       run_bind (gbit m (8 * (s + 6)) 8) (\<lambda>disc.
       run_bind (gbit m (8 * (s + 7)) 8) (\<lambda>ver.
       run_bind (gbit m (8 * (s + 12)) 32) (\<lambda>lengrib.
       if sz + 1 < istart + lengrib then Returns (Inl 7)
       else if ver \<noteq> 2 then Returns (Inl 2)
       else run_bind (section_head m (8 * (s + 16))) (\<lambda>(lensec1, isecnum).
         if isecnum \<noteq> 1 then Returns (Inl 3)
         else run_bind (octets m (8 * (s + 21)) mapsec1) (\<lambda>listsec1.
           case info_loop fuel m (istart + lengrib) (s + 16 + nat lensec1) (0, 0) of
             Returns (Inl e) \<Rightarrow> Returns (Inl e)
           | Returns (Inr (nf, nl)) \<Rightarrow> Returns (Inr ([disc, ver, lengrib], listsec1, nf, nl))
           | Undef \<Rightarrow> Undef
           | OutOfFuel \<Rightarrow> OutOfFuel))))))"

section \<open>g2_getfld\<close>

record gfst =
  gs_fld :: gribfield
  gs_numfld :: int
  gs_have3 :: bool
  gs_have4 :: bool
  gs_have5 :: bool
  gs_have6 :: bool

definition store :: "int \<Rightarrow> gfst \<Rightarrow> int \<times> gribfield \<Rightarrow> (int \<times> gribfield) + gfst" where
  "store code s r = (case r of (jerr, f) \<Rightarrow> if jerr \<noteq> 0 then Inl (code, f) else Inr (s\<lparr>gs_fld := f\<rparr>))"

definition section3 :: "(nat \<Rightarrow> bool) \<Rightarrow> byte list \<Rightarrow> nat \<Rightarrow> gfst \<Rightarrow> ((int \<times> gribfield) + gfst) option" where
  "section3 mem m iofst s =
     do {
       (jerr, igds, f) \<leftarrow> g2_unpack3 mem m iofst (gs_fld s);
       Some (if jerr = 0
             then Inr (s\<lparr>gs_have3 := True,
                         gs_fld := f\<lparr>gf_griddef := igds ! 0, gf_ngrdpts := igds ! 1, gf_numoct_opt := igds ! 2,
                                     gf_interp_opt := igds ! 3, gf_igdtnum := igds ! 4\<rparr>\<rparr>)
             else Inl (10, f))
     }"

definition section4 :: "(nat \<Rightarrow> bool) \<Rightarrow> byte list \<Rightarrow> nat \<Rightarrow> int \<Rightarrow> int \<Rightarrow> int \<Rightarrow> gfst \<Rightarrow> ((int \<times> gribfield) + gfst) option" where
  "section4 mem m iofst disc ver ifldnum s =
     (let s1 = s\<lparr>gs_numfld := gs_numfld s + 1\<rparr>
      in if gs_numfld s1 = ifldnum
         then map_option (store 11 (s1\<lparr>gs_have4 := True\<rparr>))
                (g2_unpack4 mem m iofst
                  ((gs_fld s1)\<lparr>gf_discipline := disc, gf_version := ver, gf_ifldnum := ifldnum, gf_unpacked := 0, gf_expanded := 0\<rparr>))
         else Some (Inr s1))"

text \<open>Without unpacking, only the bitmap indicator is read.\<close>

definition section6 :: "byte list \<Rightarrow> nat \<Rightarrow> gfst \<Rightarrow> ((int \<times> gribfield) + gfst) option" where
  "section6 m iofst s =
     do { b \<leftarrow> gbit m (iofst + 40) 8; Some (Inr (s\<lparr>gs_fld := (gs_fld s)\<lparr>gf_ibmap := b\<rparr>, gs_have6 := True\<rparr>)) }"

text \<open>What is done for a section, before its length is added to the position.\<close>

definition getfld_section :: "(nat \<Rightarrow> bool) \<Rightarrow> byte list \<Rightarrow> nat \<Rightarrow> int \<Rightarrow> int \<Rightarrow> int \<Rightarrow> int \<Rightarrow> gfst \<Rightarrow> ((int \<times> gribfield) + gfst) option" where
  "getfld_section mem m iofst disc ver ifldnum isecnum s =
     (if isecnum = 1 then map_option (store 15 s) (g2_unpack1 mem m iofst (gs_fld s))
      else if isecnum = 2 then map_option (store 16 s) (g2_unpack2 mem m iofst (gs_fld s))
      else if isecnum = 3 then section3 mem m iofst s
      else if isecnum = 4 then section4 mem m iofst disc ver ifldnum s
      else if isecnum = 5 \<and> gs_numfld s = ifldnum
      then map_option (store 12 (s\<lparr>gs_have5 := True\<rparr>)) (g2_unpack5 mem m iofst (gs_fld s))
      else if isecnum = 6 then section6 m iofst s
      else Some (Inr s))"

definition have_all :: "gfst \<Rightarrow> bool" where
  "have_all s \<longleftrightarrow> gs_have3 s \<and> gs_have4 s \<and> gs_have5 s \<and> gs_have6 s"

fun getfld_loop :: "nat \<Rightarrow> (nat \<Rightarrow> bool) \<Rightarrow> byte list \<Rightarrow> int \<Rightarrow> int \<Rightarrow> int \<Rightarrow> int \<Rightarrow> nat \<Rightarrow> gfst \<Rightarrow> (int \<times> gribfield) run" where
  "getfld_loop 0 mem m gend disc ver ifldnum ipos s = OutOfFuel"
| "getfld_loop (Suc fuel) mem m gend disc ver ifldnum ipos s =
     run_bind (bytes_at m ipos sevens) (\<lambda>b.
       if b then Returns (if int ipos + 4 \<noteq> gend then 4 else 6, gs_fld s)
       else run_bind (section_head m (ipos * 8)) (\<lambda>(lensec, isecnum).
         if isecnum < 1 \<or> 7 < isecnum then Returns (8, gs_fld s)
         else run_bind (getfld_section mem m (ipos * 8) disc ver ifldnum isecnum s) (\<lambda>r.
           case r of
             Inl e \<Rightarrow> Returns e
           | Inr s1 \<Rightarrow>
               if gend < int ipos + lensec then Returns (7, gs_fld s1)
               else if have_all s1 then Returns (0, gs_fld s1)
               else getfld_loop fuel mem m gend disc ver ifldnum (ipos + nat lensec) s1)))"

text \<open>\<open>f\<close> is what is in the memory that the new \<open>gribfield\<close> gets.\<close>

definition new_gribfield :: "gribfield \<Rightarrow> gribfield" where
  "new_gribfield f =
     f\<lparr>gf_locallen := 0, gf_idsect := None, gf_local := None, gf_list_opt := None, gf_igdtmpl := None, gf_ipdtmpl := None,
       gf_idrtmpl := None, gf_coord_list := None, gf_bmap := None, gf_fld := None\<rparr>"

definition g2_getfld :: "nat \<Rightarrow> (nat \<Rightarrow> bool) \<Rightarrow> gribfield \<Rightarrow> byte list \<Rightarrow> int \<Rightarrow> (int \<times> gribfield) run" where
  "g2_getfld fuel mem f m ifldnum =
     (let g = new_gribfield f
      in if ifldnum \<le> 0 then Returns (3, g)
         else run_bind (find_grib m 0 100) (\<lambda>istart.
           if istart = - 1 then Returns (1, g)
           else let s = nat istart in
           run_bind (gbit m (8 * (s + 6)) 8) (\<lambda>disc.
           run_bind (gbit m (8 * (s + 7)) 8) (\<lambda>ver.
           run_bind (gbit m (8 * (s + 12)) 32) (\<lambda>lengrib.
           if ver \<noteq> 2 then Returns (2, g)
           else getfld_loop fuel mem m (istart + lengrib) disc ver ifldnum (s + 16)
                  \<lparr>gs_fld = g, gs_numfld = 0, gs_have3 = False, gs_have4 = False, gs_have5 = False, gs_have6 = False\<rparr>)))))"

section \<open>Messages as sections\<close>

type_synonym gsec = "nat \<times> byte list"

definition sections :: "gsec list \<Rightarrow> byte list" where
  "sections secs = concat (map (\<lambda>(num, body). grib_section num body) secs)"

lemma sections_simps [simp]: "sections [] = []" "sections ((num, body) # secs) = grib_section num body @ sections secs"
  by (simp_all add: sections_def)

definition grib_message :: "byte \<Rightarrow> gsec list \<Rightarrow> byte list" where
  "grib_message disc secs =
     str ''GRIB'' @ [0, 0, disc, 2, 0, 0, 0, 0] @ be32_bytes (int (length (sections secs)) + 20) @ sections secs @ sevens"

text \<open>No section is so long that its length reads as the end mark.\<close>

definition no_sevens :: int where
  "no_sevens = 926365495"

lemma be_uint_sevens: "be_uint sevens = no_sevens"
  by (simp add: sevens_def be_uint_Cons no_sevens_def)

lemma bytes_at_stands: "stands s m p \<Longrightarrow> length cs \<le> length s \<Longrightarrow> bytes_at m p cs = Some (take (length cs) s = cs)"
proof (induction cs arbitrary: s p)
  case (Cons c cs)
  then obtain b s' where s: "s = b # s'" by (cases s) auto
  have "rd m (p + 0) = Some b" using rd_inside [OF Cons.prems(1), of 0 b] s by (simp add: rd_def)
  moreover have "stands s' m (p + 1)"
  proof -
    obtain x y where "m = x @ s @ y" "length x = p" using Cons.prems(1) by (auto simp: stands_def)
    then show ?thesis unfolding stands_def s by (intro exI [of _ "x @ [b]"] exI [of _ y]) simp
  qed
  ultimately show ?case using Cons.IH [of s' "p + 1"] Cons.prems(2) s by simp
qed simp

lemma stands_first: "stands (s @ t) m p \<Longrightarrow> stands s m p"
  by (auto simp: stands_def)

lemma stands_rest: "stands (s @ t) m p \<Longrightarrow> stands t m (p + length s)"
proof -
  assume "stands (s @ t) m p"
  then obtain x y where "m = x @ (s @ t) @ y" "length x = p" by (auto simp: stands_def)
  then show ?thesis unfolding stands_def by (intro exI [of _ "x @ s"] exI [of _ y]) simp
qed

lemma at_end: "stands sevens m p \<Longrightarrow> bytes_at m p sevens = Some True"
  using bytes_at_stands [of sevens m p sevens] by simp

lemma section_at:
  assumes "stands (grib_section num body) m p" "int (length body) + 5 < no_sevens" "num < 256"
  shows "bytes_at m p sevens = Some False" "section_head m (p * 8) = Some (int (length body) + 5, int num)"
proof -
  have l: "0 \<le> int (length body) + 5" "int (length body) + 5 < 2 ^ 32" using assms(2) by (simp_all add: no_sevens_def)
  have l4: "length sevens = 4" by (simp add: sevens_def)
  have t4: "take 4 (grib_section num body) = be32_bytes (int (length body) + 5)" by (simp add: grib_section_def)
  moreover have "be_uint (be32_bytes (int (length body) + 5)) \<noteq> be_uint sevens"
    unfolding be_uint_be32 [OF l] be_uint_sevens using assms(2) by simp
  ultimately have "take (length sevens) (grib_section num body) \<noteq> sevens" unfolding l4 t4 by metis
  then show "bytes_at m p sevens = Some False"
    using bytes_at_stands [OF assms(1), of sevens] by (simp add: sevens_def)
  have "section_head m (8 * p + 0) = Some (int (length body) + 5, int num)"
    by (rule belowD [OF section_head_below [OF assms(1)] section_head_section [OF l(2) assms(3)]])
  then show "section_head m (p * 8) = Some (int (length body) + 5, int num)" by (simp add: mult.commute)
qed

section \<open>Counting fields\<close>

definition count_of :: "nat \<Rightarrow> gsec list \<Rightarrow> int" where
  "count_of k secs = int (length (filter (\<lambda>(num, body). num = k) secs))"

lemma count_of_simps [simp]: "count_of k [] = 0" "count_of k ((num, body) # secs) = (if num = k then 1 else 0) + count_of k secs"
  by (simp_all add: count_of_def)

lemma info_loop_counts:
  assumes "stands (sections secs @ sevens) m p" "gend = int p + int (length (sections secs)) + 4"
    and "int (length (sections secs)) < no_sevens" "\<forall>(num, body) \<in> set secs. 2 \<le> num \<and> num \<le> 7"
  shows "info_loop (Suc (length secs) + k) m gend p n = Returns (Inr (fst n + count_of 4 secs, snd n + count_of 2 secs))"
  using assms
proof (induction secs arbitrary: p n)
  case Nil
  then show ?case using at_end [of m p] by simp
next
  case (Cons sec secs)
  obtain num body where sec: "sec = (num, body)" by (cases sec)
  have num: "2 \<le> num" "num \<le> 7" "num < 256" using Cons.prems(4) sec by auto
  have st: "stands (grib_section num body) m p" "stands (sections secs @ sevens) m (p + (length body + 5))"
    using stands_first [of "grib_section num body" "sections secs @ sevens" m p]
      stands_rest [of "grib_section num body" "sections secs @ sevens" m p] Cons.prems(1) sec by simp_all
  have l: "int (length body) + 5 < no_sevens" using Cons.prems(3) sec by simp
  note at = section_at [OF st(1) l num(3)]
  have ge: "\<not> gend < int p + (int (length body) + 5)" using Cons.prems(2) sec by simp
  have pos: "p + nat (int (length body) + 5) = p + (length body + 5)" by simp
  let ?n = "if int num = 2 then (fst n, snd n + 1) else if int num = 4 then (fst n + 1, snd n) else n"
  have "info_loop (Suc (Suc (length secs) + k)) m gend p n = info_loop (Suc (length secs) + k) m gend (p + (length body + 5)) ?n"
    using num ge by (simp only: info_loop.simps at run_bind.simps prod.case pos) simp
  also have "\<dots> = Returns (Inr (fst ?n + count_of 4 secs, snd ?n + count_of 2 secs))"
    using Cons.prems(2-4) sec by (intro Cons.IH st(2)) simp_all
  finally show ?case using sec by simp
qed

lemma head_with_length:
  assumes "m = str ''GRIB'' @ [0, 0, disc, 2, 0, 0, 0, 0] @ be32_bytes l @ s @ rest" "0 \<le> l" "l < 2 ^ 32"
  shows "find_grib m 0 100 = Some 0" "gbit m 48 8 = Some (uint disc)" "gbit m 56 8 = Some 2" "gbit m 96 32 = Some l" "stands s m 16"
proof -
  have m: "m = [] @ str ''GRIB'' @ [0, 0, disc, 2, 0, 0, 0, 0] @ be32_bytes l @ s @ rest" using assms(1) by simp
  have g: "stands (str ''GRIB'') m 0" unfolding stands_def using m by blast
  have "bytes_at m 0 (str ''GRIB'') = Some True"
    using bytes_at_stands [OF g, of "str ''GRIB''"] by (simp del: str_Cons bytes_at.simps)
  then have "find_grib m 0 (Suc 99) = Some 0" by (simp only: find_grib.simps bind.bind_lunit if_True) simp
  then show "find_grib m 0 100 = Some 0" by simp
  have lg: "length (str ''GRIB'') = 4" by simp
  have "m = (str ''GRIB'' @ [0, 0]) @ [disc] @ [2, 0, 0, 0, 0] @ be32_bytes l @ s @ rest" using m by simp
  from gbit_field [OF this, of 6] lg show "gbit m 48 8 = Some (uint disc)" by simp
  have "m = (str ''GRIB'' @ [0, 0, disc]) @ [2] @ [0, 0, 0, 0] @ be32_bytes l @ s @ rest" using m by simp
  from gbit_field [OF this, of 7] lg show "gbit m 56 8 = Some 2" by simp
  have "m = (str ''GRIB'' @ [0, 0, disc, 2, 0, 0, 0, 0]) @ be32_bytes l @ s @ rest" using m by simp
  from gbit_field [OF this, of 12] lg assms(2,3) show "gbit m 96 32 = Some l" by (simp add: be_uint_be32)
  have "m = (str ''GRIB'' @ [0, 0, disc, 2, 0, 0, 0, 0] @ be32_bytes l) @ s @ rest" using m by simp
  moreover have "length (str ''GRIB'' @ [0, 0, disc, 2, 0, 0, 0, 0] @ be32_bytes l) = 16" by simp
  ultimately show "stands s m 16" unfolding stands_def by blast
qed

lemma message_head:
  assumes "m = grib_message disc secs @ rest" "int (length (sections secs)) < no_sevens"
  shows "find_grib m 0 100 = Some 0" "gbit m 48 8 = Some (uint disc)" "gbit m 56 8 = Some 2"
    "gbit m 96 32 = Some (int (length (sections secs)) + 20)" "stands (sections secs @ sevens) m 16"
proof -
  have l: "0 \<le> int (length (sections secs)) + 20" "int (length (sections secs)) + 20 < 2 ^ 32" using assms(2) by (simp_all add: no_sevens_def)
  have "m = str ''GRIB'' @ [0, 0, disc, 2, 0, 0, 0, 0] @ be32_bytes (int (length (sections secs)) + 20) @ (sections secs @ sevens) @ rest"
    using assms(1) by (simp add: grib_message_def)
  from head_with_length [OF this l] show "find_grib m 0 100 = Some 0" "gbit m 48 8 = Some (uint disc)" "gbit m 56 8 = Some 2"
    "gbit m 96 32 = Some (int (length (sections secs)) + 20)" "stands (sections secs @ sevens) m 16" by simp_all
qed

lemma g2_info_message:
  assumes "16 \<le> length b1" "\<forall>(num, body) \<in> set secs. 2 \<le> num \<and> num \<le> 7"
    and "int (length (sections ((1, b1) # secs))) < no_sevens" "int (length (sections ((1, b1) # secs))) + 19 \<le> sz"
  shows "g2_info (Suc (length secs) + k) (grib_message disc ((1, b1) # secs) @ rest) sz =
    Returns (Inr ([uint disc, 2, int (length (sections ((1, b1) # secs))) + 20],
                  octets_ints [2, 2, 1, 1, 1, 2, 1, 1, 1, 1, 1, 1, 1] b1, count_of 4 secs, count_of 2 secs))"
proof -
  define m where "m = grib_message disc ((1, b1) # secs) @ rest"
  define L where "L = int (length (sections ((1, b1) # secs)))"
  note head = message_head [OF m_def assms(3), folded L_def]
  have st: "stands (grib_section 1 b1) m 16" "stands (sections secs @ sevens) m (16 + (length b1 + 5))"
    using stands_first [of "grib_section 1 b1" "sections secs @ sevens" m 16]
      stands_rest [of "grib_section 1 b1" "sections secs @ sevens" m 16] head(5) by simp_all
  have l1: "int (length b1) + 5 < no_sevens" using assms(3) by simp
  have sec1: "section_head m 128 = Some (int (length b1) + 5, 1)" using section_at(2) [OF st(1) l1] by simp
  have "octets (grib_section 1 b1) (8 * 5) mapsec1 = Some (octets_ints (map int mapsec1) (drop 5 (grib_section 1 b1)))"
    using assms(1) by (intro octets_exact) (simp_all add: mapsec1_def)
  then have o: "octets m 168 mapsec1 = Some (octets_ints [2, 2, 1, 1, 1, 2, 1, 1, 1, 1, 1, 1, 1] b1)"
    using belowD [OF octets_below [OF st(1), of 40 mapsec1]] by (simp add: mapsec1_def grib_section_def be32_bytes_def)
  have lp: "info_loop (Suc (length secs) + k) m (0 + (L + 20)) (0 + 16 + nat (int (length b1) + 5)) (0, 0) =
      Returns (Inr (count_of 4 secs, count_of 2 secs))"
    using info_loop_counts [of secs m "16 + (length b1 + 5)" "L + 20" k "(0, 0)"] st(2) assms(2,3)
    by (simp add: L_def nat_add_distrib add.commute del: info_loop.simps)
  have sz: "\<not> sz + 1 < 0 + (L + 20)" using assms(4) by (simp add: L_def)
  show ?thesis
    unfolding m_def [symmetric] L_def [symmetric] g2_info_def head(1) run_bind.simps Let_def
    using head(2-4) sec1 o lp sz by simp
qed

text \<open>
  C24: \<open>g2_info\<close> accepts every message that is put together from sections with their lengths, and reports the number of fields
  and of local sections in it, the numbers at the start of Section 1 and its length. As many units of fuel as there are
  sections are enough.
\<close>

theorem g2_info_counts:
  assumes "16 \<le> length b1" "\<forall>(num, body) \<in> set secs. 2 \<le> num \<and> num \<le> 7"
    and "int (length (sections ((1, b1) # secs))) < no_sevens" "int (length (sections ((1, b1) # secs))) + 19 \<le> sz"
  shows "g2_info (Suc (length secs) + k) (grib_message disc ((1, b1) # secs) @ rest) sz =
    Returns (Inr ([uint disc, 2, int (length (sections ((1, b1) # secs))) + 20],
                  octets_ints [2, 2, 1, 1, 1, 2, 1, 1, 1, 1, 1, 1, 1] b1, count_of 4 secs, count_of 2 secs))"
  using assms by (rule g2_info_message)

section \<open>Taking out a field\<close>

text \<open>The walk over a list of sections, each seen on its own.\<close>

fun walk :: "(nat \<Rightarrow> bool) \<Rightarrow> int \<Rightarrow> int \<Rightarrow> gsec list \<Rightarrow> gfst \<Rightarrow> (int \<times> gribfield) option" where
  "walk mem disc ifldnum [] s = Some (6, gs_fld s)"
| "walk mem disc ifldnum ((num, body) # secs) s =
     do {
       r \<leftarrow> getfld_section mem (grib_section num body) 0 disc 2 ifldnum (int num) s;
       case r of Inl e \<Rightarrow> Some e | Inr s1 \<Rightarrow> if have_all s1 then Some (0, gs_fld s1) else walk mem disc ifldnum secs s1
     }"

lemma section3_below [below]: "stands s m p \<Longrightarrow> below (section3 mem s i x) (section3 mem m (8 * p + i) x)"
  unfolding section3_def Let_def by (intro below)

lemma section4_below [below]: "stands s m p \<Longrightarrow> below (section4 mem s i d v n x) (section4 mem m (8 * p + i) d v n x)"
  unfolding section4_def Let_def by (intro below)

lemma section6_below [below]: "stands s m p \<Longrightarrow> below (section6 s i x) (section6 m (8 * p + i) x)"
  unfolding section6_def Let_def add.assoc by (intro below)

lemma getfld_section_below: "stands s m p \<Longrightarrow> below (getfld_section mem s i d v n num x) (getfld_section mem m (8 * p + i) d v n num x)"
  unfolding getfld_section_def Let_def add.assoc by (intro below)

lemma getfld_walk:
  assumes "stands (sections secs @ sevens) m p" "gend = int p + int (length (sections secs)) + 4"
    and "int (length (sections secs)) < no_sevens" "\<forall>(num, body) \<in> set secs. 1 \<le> num \<and> num \<le> 7"
    and "walk mem disc ifldnum secs s = Some r"
  shows "getfld_loop (Suc (length secs) + k) mem m gend disc 2 ifldnum p s = Returns r"
  using assms
proof (induction secs arbitrary: p s)
  case Nil
  then show ?case using at_end [of m p] by simp
next
  case (Cons sec secs)
  obtain num body where sec: "sec = (num, body)" by (cases sec)
  have num: "1 \<le> num" "num \<le> 7" "num < 256" using Cons.prems(4) sec by auto
  have st: "stands (grib_section num body) m p" "stands (sections secs @ sevens) m (p + (length body + 5))"
    using stands_first [of "grib_section num body" "sections secs @ sevens" m p]
      stands_rest [of "grib_section num body" "sections secs @ sevens" m p] Cons.prems(1) sec by simp_all
  have l: "int (length body) + 5 < no_sevens" using Cons.prems(3) sec by simp
  note at = section_at [OF st(1) l num(3)]
  have ge: "\<not> gend < int p + (int (length body) + 5)" using Cons.prems(2) sec by simp
  have pos: "p + nat (int (length body) + 5) = p + (length body + 5)" by simp
  obtain x where x: "getfld_section mem (grib_section num body) 0 disc 2 ifldnum (int num) s = Some x"
    "(case x of Inl e \<Rightarrow> Some e | Inr s1 \<Rightarrow> if have_all s1 then Some (0, gs_fld s1) else walk mem disc ifldnum secs s1) = Some r"
    using Cons.prems(5) sec by (auto simp: Option.bind_eq_Some_conv)
  have gx: "getfld_section mem m (p * 8) disc 2 ifldnum (int num) s = Some x"
    using belowD [OF getfld_section_below [OF st(1)] x(1)] by (simp add: mult.commute)
  have step: "getfld_loop (Suc (length (sec # secs)) + k) mem m gend disc 2 ifldnum p s =
      (case x of Inl e \<Rightarrow> Returns e
       | Inr s1 \<Rightarrow> if have_all s1 then Returns (0, gs_fld s1)
                  else getfld_loop (Suc (length secs) + k) mem m gend disc 2 ifldnum (p + (length body + 5)) s1)"
    using num ge by (cases x) (simp_all only: list.size add_Suc getfld_loop.simps at run_bind.simps prod.case pos gx sum.case if_False, simp_all)
  show ?case
  proof (cases x)
    case (Inl e)
    then show ?thesis using step x(2) by simp
  next
    case (Inr s1)
    show ?thesis
    proof (cases "have_all s1")
      case True
      then show ?thesis using step x(2) Inr by simp
    next
      case False
      have "getfld_loop (Suc (length secs) + k) mem m gend disc 2 ifldnum (p + (length body + 5)) s1 = Returns r"
        using Cons.prems(2-4) sec x(2) Inr False by (intro Cons.IH st(2)) simp_all
      then show ?thesis using step Inr False by simp
    qed
  qed
qed

definition first_gfst :: "gribfield \<Rightarrow> gfst" where
  "first_gfst f = \<lparr>gs_fld = new_gribfield f, gs_numfld = 0, gs_have3 = False, gs_have4 = False, gs_have5 = False, gs_have6 = False\<rparr>"

lemma getfld_message:
  assumes "walk mem (uint disc) ifldnum secs (first_gfst f) = Some r" "0 < ifldnum"
    and "int (length (sections secs)) < no_sevens" "\<forall>(num, body) \<in> set secs. 1 \<le> num \<and> num \<le> 7"
  shows "g2_getfld (Suc (length secs) + k) mem f (grib_message disc secs @ rest) ifldnum = Returns r"
proof -
  define m where "m = grib_message disc secs @ rest"
  define L where "L = int (length (sections secs))"
  note head = message_head [OF m_def assms(3), folded L_def]
  have lp: "getfld_loop (Suc (length secs) + k) mem m (L + 20) (uint disc) 2 ifldnum 16 (first_gfst f) = Returns r"
    by (rule getfld_walk [OF head(5) _ assms(3,4,1)]) (simp add: L_def)
  show ?thesis
    unfolding m_def [symmetric] g2_getfld_def Let_def head(1) run_bind.simps
    using head(2-4) lp assms(2) by (simp add: first_gfst_def del: getfld_loop.simps)
qed

section \<open>Messages with several fields on one grid\<close>

record g2field =
  fd_pnum :: int
  fd_pds :: "byte list"
  fd_ndpts :: int
  fd_dnum :: int
  fd_drs :: "byte list"
  fd_ibmap :: byte
  fd_bitmap :: "byte list"
  fd_data :: "byte list"

definition field_secs :: "g2field \<Rightarrow> gsec list" where
  "field_secs d =
     [(4, [0, 0] @ be16_bytes (fd_pnum d) @ fd_pds d), (5, be32_bytes (fd_ndpts d) @ be16_bytes (fd_dnum d) @ fd_drs d),
      (6, fd_ibmap d # fd_bitmap d), (7, fd_data d)]"

definition grid_body :: "byte \<Rightarrow> int \<Rightarrow> byte \<Rightarrow> int \<Rightarrow> byte list \<Rightarrow> byte list" where
  "grid_body src npts interp num bs = [src] @ be32_bytes npts @ [0, interp] @ be16_bytes num @ bs"

definition grid_widths :: "(nat \<Rightarrow> bool) \<Rightarrow> int \<Rightarrow> byte list \<Rightarrow> int list option" where
  "grid_widths mem num bs = do { t \<leftarrow> getgridtemplate num; all_widths (extgridtemplate mem num) t bs }"

definition product_widths :: "(nat \<Rightarrow> bool) \<Rightarrow> int \<Rightarrow> byte list \<Rightarrow> int list option" where
  "product_widths mem num bs = do { t \<leftarrow> getpdstemplate num; all_widths (extpdstemplate mem num) t bs }"

definition data_widths :: "(nat \<Rightarrow> bool) \<Rightarrow> int \<Rightarrow> byte list \<Rightarrow> int list option" where
  "data_widths mem num bs = do { t \<leftarrow> getdrstemplate num; all_widths (extdrstemplate mem num) t bs }"

definition with_product :: "int \<Rightarrow> int \<Rightarrow> g2field \<Rightarrow> int list \<Rightarrow> gribfield \<Rightarrow> gribfield" where
  "with_product disc n d pws f =
     f\<lparr>gf_discipline := disc, gf_version := 2, gf_ifldnum := n, gf_unpacked := 0, gf_expanded := 0, gf_num_coord := 0,
       gf_ipdtnum := fd_pnum d, gf_ipdtmpl := Some (octets_ints pws (fd_pds d)), gf_ipdtlen := int (length pws), gf_coord_list := None\<rparr>"

definition with_data :: "g2field \<Rightarrow> int list \<Rightarrow> gribfield \<Rightarrow> gribfield" where
  "with_data d dws f =
     f\<lparr>gf_ndpts := fd_ndpts d, gf_idrtnum := fd_dnum d, gf_idrtmpl := Some (octets_ints dws (fd_drs d)), gf_idrtlen := int (length dws)\<rparr>"

lemma ibmap_section: "gbit (grib_section 6 (b # bs)) 40 8 = Some (uint b)"
  using gbit_field [of "grib_section 6 (b # bs)" "be32_bytes (int (length (b # bs)) + 5) @ [6]" "[b]" bs 5] by (simp add: grib_section_def)

lemma walk_other_field:
  assumes "\<not> gs_have4 s" "gs_numfld s + 1 \<noteq> n"
  shows "walk mem disc n (field_secs d @ secs) s =
    walk mem disc n secs (s\<lparr>gs_numfld := gs_numfld s + 1, gs_fld := (gs_fld s)\<lparr>gf_ibmap := uint (fd_ibmap d)\<rparr>, gs_have6 := True\<rparr>)"
  using assms by (simp add: field_secs_def getfld_section_def section4_def section6_def Let_def have_all_def ibmap_section)

lemma walk_field:
  assumes "gs_have3 s" "\<not> gs_have4 s" "\<not> gs_have5 s" "gs_numfld s + 1 = n"
    and "product_widths mem (fd_pnum d) (fd_pds d) = Some pws" "tmpl_octets pws \<le> length (fd_pds d)" "length (fd_pds d) < 2 ^ 31"
    and "data_widths mem (fd_dnum d) (fd_drs d) = Some dws" "tmpl_octets dws \<le> length (fd_drs d)" "length (fd_drs d) < 2 ^ 31"
    and "0 \<le> fd_ndpts d" "fd_ndpts d < 2 ^ 32" "\<And>k. mem k"
  shows "walk mem disc n (field_secs d @ secs) s =
    Some (0, (let f = with_data d dws (with_product disc n d pws (gs_fld s))
              in if gs_have6 s then f else f\<lparr>gf_ibmap := uint (fd_ibmap d)\<rparr>))"
proof -
  obtain pt where pt: "getpdstemplate (fd_pnum d) = Some pt" "all_widths (extpdstemplate mem (fd_pnum d)) pt (fd_pds d) = Some pws"
    using assms(5) by (auto simp: product_widths_def Option.bind_eq_Some_conv)
  obtain dt where dt: "getdrstemplate (fd_dnum d) = Some dt" "all_widths (extdrstemplate mem (fd_dnum d)) dt (fd_drs d) = Some dws"
    using assms(8) by (auto simp: data_widths_def Option.bind_eq_Some_conv)
  note u4 = product_section [OF pt assms(6,13,7)] and u5 = representation_section [OF dt assms(9,13,10,11,12)]
  show ?thesis
  proof (cases "gs_have6 s")
    case True
    then show ?thesis
      using assms(1-4) by (simp add: field_secs_def getfld_section_def section4_def section6_def store_def Let_def have_all_def u4 [simplified] u5
          with_product_def with_data_def)
  next
    case False
    then show ?thesis
      using assms(1-4) by (simp add: field_secs_def getfld_section_def section4_def section6_def store_def Let_def have_all_def u4 [simplified] u5 ibmap_section
          with_product_def with_data_def)
  qed
qed

fun skip_fields :: "g2field list \<Rightarrow> gfst \<Rightarrow> gfst" where
  "skip_fields [] s = s"
| "skip_fields (d # ds) s =
     skip_fields ds (s\<lparr>gs_numfld := gs_numfld s + 1, gs_fld := (gs_fld s)\<lparr>gf_ibmap := uint (fd_ibmap d)\<rparr>, gs_have6 := True\<rparr>)"

lemma skip_fields_simps [simp]:
  "gs_numfld (skip_fields ds s) = gs_numfld s + int (length ds)" "gs_have3 (skip_fields ds s) = gs_have3 s"
  "gs_have4 (skip_fields ds s) = gs_have4 s" "gs_have5 (skip_fields ds s) = gs_have5 s"
  "gs_have6 (skip_fields ds s) = (gs_have6 s \<or> ds \<noteq> [])"
  "gs_fld (skip_fields ds s) = (if ds = [] then gs_fld s else (gs_fld s)\<lparr>gf_ibmap := uint (fd_ibmap (last ds))\<rparr>)"
  by (induction ds s rule: skip_fields.induct) auto

lemma walk_skip: "\<not> gs_have4 s \<Longrightarrow> gs_numfld s + int (length ds) < n \<Longrightarrow>
  walk mem disc n (concat (map field_secs ds) @ secs) s = walk mem disc n secs (skip_fields ds s)"
proof (induction ds arbitrary: s)
  case (Cons d ds)
  then show ?case using walk_other_field [of s n mem disc d "concat (map field_secs ds) @ secs"] by simp
qed simp

lemma section_length: "(num, body) \<in> set secs \<Longrightarrow> length body \<le> length (sections secs)"
  by (induction secs) auto

definition with_grid :: "byte list \<Rightarrow> byte \<Rightarrow> int \<Rightarrow> byte \<Rightarrow> int \<Rightarrow> byte list \<Rightarrow> int list \<Rightarrow> gribfield \<Rightarrow> gribfield" where
  "with_grid b1 src npts interp num bs gws f =
     f\<lparr>gf_idsectlen := 13, gf_idsect := Some (octets_ints [2, 2, 1, 1, 1, 2, 1, 1, 1, 1, 1, 1, 1] b1),
       gf_igdtmpl := Some (octets_ints gws bs), gf_igdtlen := int (length gws), gf_num_opt := 0, gf_list_opt := None,
       gf_griddef := uint src, gf_ngrdpts := npts, gf_numoct_opt := 0, gf_interp_opt := uint interp, gf_igdtnum := num\<rparr>"

lemma identification_section: "16 \<le> length b1 \<Longrightarrow> length b1 < 2 ^ 31 \<Longrightarrow> mem (13 * 8) \<Longrightarrow>
  g2_unpack1 mem (grib_section 1 b1) 0 f =
    Some (0, f\<lparr>gf_idsectlen := 13, gf_idsect := Some (octets_ints [2, 2, 1, 1, 1, 2, 1, 1, 1, 1, 1, 1, 1] b1)\<rparr>)"
proof -
  assume a: "16 \<le> length b1" "length b1 < 2 ^ 31" "mem (13 * 8)"
  have "octets (grib_section 1 b1) (8 * 5) mapsec1 = Some (octets_ints (map int mapsec1) (drop 5 (grib_section 1 b1)))"
    using a(1) by (intro octets_exact) (simp_all add: mapsec1_def)
  then have "octets (grib_section 1 b1) 40 mapsec1 = Some (octets_ints [2, 2, 1, 1, 1, 2, 1, 1, 1, 1, 1, 1, 1] b1)"
    by (simp add: mapsec1_def grib_section_def be32_bytes_def)
  moreover have "section_head (grib_section 1 b1) 0 = Some (int (length b1) + 5, 1)" using section_head_section [of b1 1] a(2) by simp
  ultimately show ?thesis using a(3) by (simp add: g2_unpack1_def Let_def)
qed

lemma walk_start:
  assumes "16 \<le> length b1" "length b1 < 2 ^ 31" "grid_widths mem gn gbs = Some gws" "tmpl_octets gws \<le> length gbs" "length gbs < 2 ^ 31"
    and "0 \<le> npts" "npts < 2 ^ 32" "\<And>k. mem k"
  shows "walk mem disc n ((1, b1) # (3, grid_body src npts interp gn gbs) # secs) (first_gfst f) =
    walk mem disc n secs ((first_gfst f)\<lparr>gs_have3 := True, gs_fld := with_grid b1 src npts interp gn gbs gws (new_gribfield f)\<rparr>)"
proof -
  obtain t where t: "getgridtemplate gn = Some t" "all_widths (extgridtemplate mem gn) t gbs = Some gws"
    using assms(3) by (auto simp: grid_widths_def Option.bind_eq_Some_conv)
  note u1 = identification_section [OF assms(1,2,8)] and u3 = grid_section [OF t assms(4,8,5,6,7)]
  show ?thesis
    by (simp add: first_gfst_def getfld_section_def section3_def store_def have_all_def u1 [unfolded One_nat_def] u3 [simplified]
        grid_body_def with_grid_def del: octets_ints.simps)
qed

lemma field_of_message:
  assumes "16 \<le> length b1" "grid_widths mem gn gbs = Some gws" "tmpl_octets gws \<le> length gbs" "0 \<le> npts" "npts < 2 ^ 32" "\<And>k. mem k"
    and "i < length ds" "product_widths mem (fd_pnum (ds ! i)) (fd_pds (ds ! i)) = Some pws" "tmpl_octets pws \<le> length (fd_pds (ds ! i))"
    and "data_widths mem (fd_dnum (ds ! i)) (fd_drs (ds ! i)) = Some dws" "tmpl_octets dws \<le> length (fd_drs (ds ! i))"
    and "0 \<le> fd_ndpts (ds ! i)" "fd_ndpts (ds ! i) < 2 ^ 32"
    and "secs = (1, b1) # (3, grid_body src npts interp gn gbs) # concat (map field_secs ds)" "int (length (sections secs)) < no_sevens"
  shows "g2_getfld (Suc (length secs) + k) mem f (grib_message disc secs @ rest) (int i + 1) =
    Returns (0, with_data (ds ! i) dws (with_product (uint disc) (int i + 1) (ds ! i) pws
      ((with_grid b1 src npts interp gn gbs gws (new_gribfield f))\<lparr>gf_ibmap := uint (fd_ibmap (ds ! (i - 1)))\<rparr>)))"
proof -
  have small: "length body < 2 ^ 31" if "(num, body) \<in> set secs" for num body
    using section_length [OF that] assms(15) by (simp add: no_sevens_def)
  have "field_secs (ds ! i) \<in> set (map field_secs ds)" using assms(7) by simp
  then have in_secs: "x \<in> set secs" if "x \<in> set (field_secs (ds ! i))" for x using that by (auto simp: assms(14))
  have "(4, [0, 0] @ be16_bytes (fd_pnum (ds ! i)) @ fd_pds (ds ! i)) \<in> set secs"
    "(5, be32_bytes (fd_ndpts (ds ! i)) @ be16_bytes (fd_dnum (ds ! i)) @ fd_drs (ds ! i)) \<in> set secs"
    by (rule in_secs; simp add: field_secs_def)+
  note this [THEN small]
  then have l: "length (fd_pds (ds ! i)) < 2 ^ 31" "length (fd_drs (ds ! i)) < 2 ^ 31" by simp_all
  have l1: "length b1 < 2 ^ 31" using small [of 1 b1] by (simp add: assms(14))
  have lg: "length gbs < 2 ^ 31" using small [of 3 "grid_body src npts interp gn gbs"] by (simp add: assms(14) grid_body_def)
  let ?s = "(first_gfst f)\<lparr>gs_have3 := True, gs_fld := with_grid b1 src npts interp gn gbs gws (new_gribfield f)\<rparr>"
  let ?pre = "take i ds" and ?post = "concat (map field_secs (drop (Suc i) ds))"
  have split: "concat (map field_secs ds) = concat (map field_secs ?pre) @ field_secs (ds ! i) @ ?post"
    using id_take_nth_drop [OF assms(7)] by (metis concat.simps(2) concat_append list.simps(9) map_append)
  have "walk mem (uint disc) (int i + 1) secs (first_gfst f) =
      walk mem (uint disc) (int i + 1) (concat (map field_secs ?pre) @ field_secs (ds ! i) @ ?post) ?s"
    unfolding assms(14) split by (rule walk_start [OF assms(1) l1 assms(2,3) lg assms(4-6)])
  also have "\<dots> = walk mem (uint disc) (int i + 1) (field_secs (ds ! i) @ ?post) (skip_fields ?pre ?s)"
    using assms(7) by (intro walk_skip) (simp_all add: first_gfst_def)
  also have "\<dots> = Some (0, (let f = with_data (ds ! i) dws (with_product (uint disc) (int i + 1) (ds ! i) pws (gs_fld (skip_fields ?pre ?s)))
      in if gs_have6 (skip_fields ?pre ?s) then f else f\<lparr>gf_ibmap := uint (fd_ibmap (ds ! i))\<rparr>))"
    using assms(7) by (intro walk_field assms(6,8-13) l) (simp_all add: first_gfst_def)
  also have "\<dots> = Some (0, with_data (ds ! i) dws (with_product (uint disc) (int i + 1) (ds ! i) pws
      ((with_grid b1 src npts interp gn gbs gws (new_gribfield f))\<lparr>gf_ibmap := uint (fd_ibmap (ds ! (i - 1)))\<rparr>)))"
  proof (cases i)
    case 0
    then show ?thesis by (simp add: first_gfst_def with_data_def with_product_def)
  next
    case (Suc j)
    then have "?pre \<noteq> []" "last ?pre = ds ! j" using assms(7) by (simp_all add: take_Suc_conv_app_nth)
    then show ?thesis using Suc by (simp add: Let_def)
  qed
  finally have w: "walk mem (uint disc) (int i + 1) secs (first_gfst f) = \<dots>" .
  have r: "\<forall>(num, body) \<in> set secs. 1 \<le> num \<and> num \<le> 7" by (auto simp: assms(14) field_secs_def)
  show ?thesis by (rule getfld_message [OF w _ assms(15) r]) simp
qed

text \<open>
  C23: \<open>g2_getfld\<close> for field \<open>i + 1\<close> of a message whose fields share a grid: the identification, the grid, the product and the
  data representation are those of the message, each value the big-endian number in its octets.
\<close>

theorem g2_getfld_decodes:
  assumes "16 \<le> length b1" "grid_widths mem gn gbs = Some gws" "tmpl_octets gws \<le> length gbs" "0 \<le> npts" "npts < 2 ^ 32" "\<And>k. mem k"
    and "i < length ds" "product_widths mem (fd_pnum (ds ! i)) (fd_pds (ds ! i)) = Some pws" "tmpl_octets pws \<le> length (fd_pds (ds ! i))"
    and "data_widths mem (fd_dnum (ds ! i)) (fd_drs (ds ! i)) = Some dws" "tmpl_octets dws \<le> length (fd_drs (ds ! i))"
    and "0 \<le> fd_ndpts (ds ! i)" "fd_ndpts (ds ! i) < 2 ^ 32"
    and "secs = (1, b1) # (3, grid_body src npts interp gn gbs) # concat (map field_secs ds)" "int (length (sections secs)) < no_sevens"
  shows "\<exists>g. g2_getfld (Suc (length secs) + k) mem f (grib_message disc secs @ rest) (int i + 1) = Returns (0, g) \<and>
    gf_discipline g = uint disc \<and> gf_idsect g = Some (octets_ints [2, 2, 1, 1, 1, 2, 1, 1, 1, 1, 1, 1, 1] b1) \<and>
    gf_griddef g = uint src \<and> gf_ngrdpts g = npts \<and> gf_igdtnum g = gn \<and> gf_igdtmpl g = Some (octets_ints gws gbs) \<and>
    gf_ipdtnum g = fd_pnum (ds ! i) \<and> gf_ipdtmpl g = Some (octets_ints pws (fd_pds (ds ! i))) \<and>
    gf_ndpts g = fd_ndpts (ds ! i) \<and> gf_idrtnum g = fd_dnum (ds ! i) \<and> gf_idrtmpl g = Some (octets_ints dws (fd_drs (ds ! i)))"
  by (intro exI conjI, rule field_of_message [OF assms]) (simp_all add: with_data_def with_product_def with_grid_def)

text \<open>
  The bitmap indicator that is returned for a field after the first is that of the field before it: the loop ends at
  Section 5, because it still knows that it has seen a Section 6.
\<close>

theorem bitmap_of_field_before:
  assumes "16 \<le> length b1" "grid_widths mem gn gbs = Some gws" "tmpl_octets gws \<le> length gbs" "0 \<le> npts" "npts < 2 ^ 32" "\<And>k. mem k"
    and "i < length ds" "product_widths mem (fd_pnum (ds ! i)) (fd_pds (ds ! i)) = Some pws" "tmpl_octets pws \<le> length (fd_pds (ds ! i))"
    and "data_widths mem (fd_dnum (ds ! i)) (fd_drs (ds ! i)) = Some dws" "tmpl_octets dws \<le> length (fd_drs (ds ! i))"
    and "0 \<le> fd_ndpts (ds ! i)" "fd_ndpts (ds ! i) < 2 ^ 32"
    and "secs = (1, b1) # (3, grid_body src npts interp gn gbs) # concat (map field_secs ds)" "int (length (sections secs)) < no_sevens"
  shows "\<exists>g. g2_getfld (Suc (length secs) + k) mem f (grib_message disc secs @ rest) (int i + 1) = Returns (0, g) \<and>
    gf_ibmap g = uint (fd_ibmap (ds ! (i - 1)))"
  by (intro exI conjI, rule field_of_message [OF assms]) (simp add: with_data_def with_product_def)

section \<open>Lengths that are not checked\<close>

lemma info_loop_stuck: "stands [0, 0, 0, 0, num] m p \<Longrightarrow> 2 \<le> uint num \<Longrightarrow> uint num \<le> 7 \<Longrightarrow> int p \<le> gend \<Longrightarrow>
  info_loop fuel m gend p n = OutOfFuel"
proof (induction fuel arbitrary: n)
  case (Suc fuel)
  have b: "bytes_at m p sevens = Some False"
    using bytes_at_stands [OF Suc.prems(1), of sevens] by (simp add: sevens_def)
  have "gbit [0, 0, 0, 0, num] 0 32 = Some 0" "gbit [0, 0, 0, 0, num] 32 8 = Some (uint num)"
    using gbit_field [of "[0, 0, 0, 0, num]" "[]" "[0, 0, 0, 0]" "[num]" 0] gbit_field [of "[0, 0, 0, 0, num]" "[0, 0, 0, 0]" "[num]" "[]" 4]
    by (simp_all add: be_uint_Cons)
  then have "section_head [0, 0, 0, 0, num] 0 = Some (0, uint num)" by (simp add: section_head_def)
  then have h: "section_head m (p * 8) = Some (0, uint num)"
    using belowD [OF section_head_below [OF Suc.prems(1)], of 0] by (simp add: mult.commute)
  show ?case
    using Suc.prems by (simp only: info_loop.simps b h run_bind.simps prod.case) (simp add: Suc.IH)
qed simp

text \<open>C39: A section whose length is given as 0 makes \<open>g2_info\<close> look at it again and again, whatever the fuel.\<close>

theorem empty_section_hangs:
  assumes "m = str ''GRIB'' @ [0, 0, disc, 2, 0, 0, 0, 0] @ be32_bytes l @ grib_section 1 b1 @ [0, 0, 0, 0, num] @ rest"
    and "16 \<le> length b1" "2 \<le> uint num" "uint num \<le> 7" "int (length b1) + 21 \<le> l" "l < 2 ^ 31" "l \<le> sz + 1"
  shows "g2_info fuel m sz = OutOfFuel"
proof -
  have l32: "0 \<le> l" "l < 2 ^ 32" using assms(5,6) by simp_all
  have m: "m = str ''GRIB'' @ [0, 0, disc, 2, 0, 0, 0, 0] @ be32_bytes l @ (grib_section 1 b1 @ [0, 0, 0, 0, num]) @ rest" using assms(1) by simp
  note head = head_with_length [OF m l32]
  have st: "stands (grib_section 1 b1) m 16" "stands [0, 0, 0, 0, num] m (16 + (length b1 + 5))"
    using stands_first [OF head(5)] stands_rest [OF head(5)] by simp_all
  have sec1: "section_head m 128 = Some (int (length b1) + 5, 1)"
    using belowD [OF section_head_below [OF st(1)] section_head_section] assms(5,6) by fastforce
  have "octets (grib_section 1 b1) (8 * 5) mapsec1 = Some (octets_ints (map int mapsec1) (drop 5 (grib_section 1 b1)))"
    using assms(2) by (intro octets_exact) (simp_all add: mapsec1_def)
  then obtain v where o: "octets m 168 mapsec1 = Some v"
    using belowD [OF octets_below [OF st(1), of 40 mapsec1]] by simp
  have "info_loop fuel m l (16 + (length b1 + 5)) (0, 0) = OutOfFuel"
    by (rule info_loop_stuck [OF st(2) assms(3,4)]) (use assms(5) in simp)
  then show ?thesis
    unfolding g2_info_def head(1) run_bind.simps Let_def
    using head(2-4) sec1 o assms(7) by (simp add: nat_add_distrib add.commute)
qed

section \<open>Witnesses\<close>

definition demo_g2field :: "byte \<Rightarrow> g2field" where
  "demo_g2field b =
     \<lparr>fd_pnum = 254, fd_pds = [1, 2, 0, 0, 1, 0], fd_ndpts = 9, fd_dnum = 0, fd_drs = [0, 0, 0, 0, 128, 3, 0, 2, 8, 0],
      fd_ibmap = b, fd_bitmap = [], fd_data = [5, 6]\<rparr>"

definition demo_g2secs :: "gsec list" where
  "demo_g2secs = (1, replicate 16 3) # (3, grid_body 0 9 0 50 (replicate 14 1)) # concat (map field_secs [demo_g2field 0, demo_g2field 255])"

lemma demo_widths:
  "grid_widths (\<lambda>_. True) 50 (replicate 14 1) = Some [4, 4, 4, 1, 1]"
  "product_widths (\<lambda>_. True) 254 [1, 2, 0, 0, 1, 0] = Some [1, 1, 4]"
  "data_widths (\<lambda>_. True) 0 [0, 0, 0, 0, 128, 3, 0, 2, 8, 0] = Some [4, - 2, - 2, 1, 1]"
  by (simp_all add: grid_widths_def product_widths_def data_widths_def getgridtemplate_def getpdstemplate_def getdrstemplate_def
      getgridindex_def getpdsindex_def getdrsindex_def templatesgrid_def templatespds_def templatesdrs_def template_of_def all_widths_def)

lemma demo_g2_small: "int (length (sections demo_g2secs)) < no_sevens" "length demo_g2secs = 10"
  by (simp_all add: demo_g2secs_def field_secs_def demo_g2field_def grid_body_def no_sevens_def)

theorem g2_info_counts_witness:
  "g2_info 2 (grib_message 0 [(1, replicate 16 3), (6, [255])] @ [1]) 1000 =
    Returns (Inr ([0, 2, 47], octets_ints [2, 2, 1, 1, 1, 2, 1, 1, 1, 1, 1, 1, 1] (replicate 16 3), 0, 0))"
  using g2_info_counts [of "replicate 16 3" "[(6, [255])]" 1000 0 0 "[1]"] by (simp add: no_sevens_def numeral_2_eq_2)

theorem g2_getfld_decodes_witness:
  "\<exists>g. g2_getfld 11 (\<lambda>_. True) demo_gribfield (grib_message 0 demo_g2secs @ []) 2 = Returns (0, g) \<and>
    gf_ipdtmpl g = Some (octets_ints [1, 1, 4] [1, 2, 0, 0, 1, 0])"
  using g2_getfld_decodes [of "replicate 16 3" "\<lambda>_. True" 50 "replicate 14 1" "[4, 4, 4, 1, 1]" 9 1 "[demo_g2field 0, demo_g2field 255]"
      "[1, 1, 4]" "[4, - 2, - 2, 1, 1]" demo_g2secs 0 0 0 demo_gribfield 0 "[]"] demo_g2_small
  by (auto simp: demo_widths demo_g2secs_def demo_g2field_def tmpl_octets_def)

theorem bitmap_of_field_before_witness:
  "\<exists>g. g2_getfld 11 (\<lambda>_. True) demo_gribfield (grib_message 0 demo_g2secs @ []) 2 = Returns (0, g) \<and> gf_ibmap g = 0"
  using bitmap_of_field_before [of "replicate 16 3" "\<lambda>_. True" 50 "replicate 14 1" "[4, 4, 4, 1, 1]" 9 1 "[demo_g2field 0, demo_g2field 255]"
      "[1, 1, 4]" "[4, - 2, - 2, 1, 1]" demo_g2secs 0 0 0 demo_gribfield 0 "[]"] demo_g2_small
  by (auto simp: demo_widths demo_g2secs_def demo_g2field_def tmpl_octets_def)

theorem empty_section_hangs_witness:
  "g2_info 1000 (str ''GRIB'' @ [0, 0, 0, 2, 0, 0, 0, 0] @ be32_bytes 50 @ grib_section 1 (replicate 16 3) @ [0, 0, 0, 0, 7] @ []) 50 = OutOfFuel"
  by (rule empty_section_hangs [OF refl]) simp_all

end
