(* ===== verification/Grib1_Meta.thy ===== *)
theory Grib1_Meta
  imports Wmo
begin

text \<open>
  The metadata of GRIB edition 1 products, from \<open>wmo_header.c\<close> down to \<open>gribid.c\<close> and \<open>wgrib.c\<close>.
\<close>

section \<open>Names\<close>

text \<open>What \<open>s_pds_model\<close> returns, without the static buffers.\<close>

definition model_text :: "byte \<Rightarrow> byte \<Rightarrow> cstr" where
  "model_text center model =
     (let num = dec (uint model); with_id = (\<lambda>s. str s @ [95] @ num)
      in if center = 7
         then (case map_of ncep_table (uint model) of Some (Name s) \<Rightarrow> str s | Some (With_id s) \<Rightarrow> with_id s | None \<Rightarrow> num)
         else if center = 8 \<or> center = 9 then with_id ''NWS''
         else if center = 98 then with_id ''ECMWF''
         else if center = 74 then with_id ''UKM''
         else if center = 59 then (if model = 105 then str ''RUC2'' else with_id ''FSL'')
         else if center = 54 then (if model = 36 then str ''GEM'' else with_id ''CMS'')
         else if center = 60 then with_id ''NCAR''
         else num)"

lemma s_pds_model_text:
  "s_pds_model c b st = Some (r, st') \<Longrightarrow> deref st' r = model_text c b \<and> user_names st' = user_names st"
  using ncep_entries [of "uint b"]
  by (auto simp: s_pds_model_def model_text_def s_byte_Some s_model_id_Some Let_def split: if_splits option.splits entry.splits)

lemma s_pds_model_ex:
  obtains r st' where "s_pds_model c b st = Some (r, st')" "deref st' r = model_text c b" "user_names st' = user_names st"
    "0 < length (model_text c b)" "length (model_text c b) \<le> 14"
  using s_pds_model_fits [of c b st] s_pds_model_text [of c b st] by fastforce

lemma both_names_text:
  assumes "map_of center_table (uint c) = Some name"
  obtains st' where "both_names rtl c b st = Some (str name, model_text c b, st')" "user_names st' = user_names st"
proof -
  obtain r st' where m: "s_pds_model c b st = Some (r, st')" "deref st' r = model_text c b" "user_names st' = user_names st"
    by (rule s_pds_model_ex)
  have c: "s_pds_center c s = Some (Lit (str name), s)" for s using assms by (simp add: s_pds_center_def named_def)
  have "both_names rtl c b st = Some (str name, model_text c b, st')" using m c by (simp add: both_names_def)
  with m that show ?thesis by blast
qed

lemma center_names: "map_of center_table k = Some s \<Longrightarrow> length s \<le> 6"
  using map_of_SomeD [of center_table k s] by (auto simp: center_table_def)

section \<open>Lengths\<close>

lemma length_dec_pad_le: "0 \<le> x \<Longrightarrow> x < 10 ^ k \<Longrightarrow> w \<le> k \<Longrightarrow> 0 < k \<Longrightarrow> length (dec_pad w x) \<le> k"
  using length_digits_le [of "nat x" k] by (simp add: dec_pad_def nat_less_iff)

lemma length_dec: "0 \<le> x \<Longrightarrow> x < 10 ^ k \<Longrightarrow> 0 < k \<Longrightarrow> length (dec x) \<le> k"
  using length_digits_le [of "nat x" k] by (simp add: dec_def nat_less_iff)

lemma length_dec_5: "0 \<le> x \<Longrightarrow> x < 100000 \<Longrightarrow> length (dec x) \<le> 5"
  using length_dec [of x 5] by simp

lemma length_fixed: "0 \<le> x \<Longrightarrow> x < 100000 \<Longrightarrow> k = 2 \<or> k = 4 \<Longrightarrow> length (fixed k x) \<le> 10"
proof -
  assume x: "0 \<le> x" "x < 100000" and k: "k = 2 \<or> k = 4"
  have "0 \<le> x div 10 ^ k" using x k by (auto simp: pos_imp_zdiv_nonneg_iff)
  moreover have "x div 10 ^ k < 100000" using x k using zdiv_mono2 [of x 1 "10 ^ k"] by auto
  moreover have "x mod 10 ^ k < 10 ^ 4" using k pos_mod_bound [of 100 x] by auto
  ultimately show ?thesis
    using length_dec_5 [of "x div 10 ^ k"] length_dec_pad_le [of "x mod 10 ^ k" 4 k] k by (auto simp: fixed_def)
qed

lemma length_if: "length x \<le> n \<Longrightarrow> length y \<le> n \<Longrightarrow> length (if b then x else y) \<le> n"
  by simp

text \<open>The text of a level fits its buffer of 256 bytes by far.\<close>

lemma levels_length: "length (levels (uint k) (uint (a::byte)) (uint (b::byte))) \<le> 27"
proof -
  have ab: "0 \<le> uint a" "uint a < 256" "0 \<le> uint b" "uint b < 256" using byte_lt [of a] byte_lt [of b] by simp_all
  then have "length (dec (uint a)) \<le> 5" "length (dec (uint b)) \<le> 5" "length (dec (uint a * 256 + uint b)) \<le> 5"
    "length (dec (uint a * 10)) \<le> 5" "length (dec (uint b * 10)) \<le> 5"
    "length (dec (uint a * 100)) \<le> 5" "length (dec (uint b * 100)) \<le> 5"
    "length (dec (475 - uint a)) \<le> 5" "length (dec (475 - uint b)) \<le> 5"
    "length (dec (1100 - uint a)) \<le> 5" "length (dec (1100 - uint b)) \<le> 5"
    "length (fixed 4 (uint a * 256 + uint b)) \<le> 10" "length (fixed 2 (uint a)) \<le> 10" "length (fixed 2 (uint b)) \<le> 10"
    by (intro length_dec_5 length_fixed; linarith | simp)+
  then show ?thesis unfolding levels_def Let_def by (intro length_if) simp_all
qed

section \<open>The metadata\<close>

text \<open>The text for a centre, a model, a grid, a time of reference, hours of forecast, a parameter and a level.\<close>

definition grib1_text :: "cstr \<Rightarrow> cstr \<Rightarrow> int \<Rightarrow> int \<times> int \<times> int \<Rightarrow> int \<times> int \<Rightarrow> int \<Rightarrow> cstr \<Rightarrow> cstr \<Rightarrow> cstr" where
  "grib1_text center model grid date time hours parm level =
     (case (date, time) of ((y, mo, d), (h, mi)) \<Rightarrow>
        str ''grib/'' @ center @ str ''/'' @ model @ str ''/#'' @ dec_pad 3 grid @ str ''/'' @
        dec_pad 4 y @ dec_pad 2 mo @ dec_pad 2 d @ dec_pad 2 h @ dec_pad 2 mi @ str ''/F'' @ dec_pad 3 hours @ str ''/'' @
        parm @ str ''/'' @ level @ str ''/ '')"

text \<open>A \<open>mktime\<close> for a clock without changes: seconds since some day.\<close>

definition steady_clock :: "(int \<times> int \<times> int \<times> int \<times> int \<Rightarrow> int) \<Rightarrow> bool" where
  "steady_clock f \<longleftrightarrow> (\<exists>k. \<forall>y mo d h mi. real_date (y, mo, d) \<longrightarrow>
     f (y - 1900, mo - 1, d, h, mi) = 86400 * day_number (y, mo, d) + 3600 * h + 60 * mi + k)"

lemma clock_difference:
  assumes "steady_clock f" and t: "real_date (y, mo, d)" and "(next_day ^^ nat n) (y, mo, d) = (y1, mo1, d1)" and "0 \<le> n"
  shows "f (y1 - 1900, mo1 - 1, d1, h1, 0) - f (y - 1900, mo - 1, d, h, mi) = 86400 * n + 3600 * h1 - (3600 * h + 60 * mi)"
proof -
  obtain k where k: "\<And>y mo d h mi. real_date (y, mo, d) \<Longrightarrow>
      f (y - 1900, mo - 1, d, h, mi) = 86400 * day_number (y, mo, d) + 3600 * h + 60 * mi + k"
    using assms(1) unfolding steady_clock_def by blast
  have "real_date (y1, mo1, d1)" "day_number (y1, mo1, d1) = day_number (y, mo, d) + n"
    using next_days_real [OF t, of "nat n"] assms(3,4) by simp_all
  then show ?thesis using k t by simp
qed

lemma hours_bound:
  assumes "clock_hours unit (time_increment pds) = Some hs"
  shows "hs \<le> 24 * 65535"
proof -
  have t: "0 \<le> time_increment pds" "time_increment pds \<le> 65535"
    using byte_lt [of "pds ! 18"] byte_lt [of "pds ! 19"] by (auto simp: time_increment_def Let_def)
  then have "time_increment pds div 60 \<le> 65535" "time_increment pds div 3600 \<le> 65535" by simp_all
  with clock_hours_cases [OF assms] t show ?thesis by (elim disjE conjE) simp_all
qed

lemma length_byte_pad: "length (dec_pad 2 (uint (b::byte))) \<le> 3" "length (dec_pad 3 (uint (b::byte))) \<le> 3"
  using byte_lt [of b] by (intro length_dec_pad_le; simp)+

lemma length_hours: "- 10 < F \<Longrightarrow> F < 10 ^ 7 \<Longrightarrow> length (dec_pad 3 F) \<le> 8"
  using length_dec_pad_le [of F 7 3] length_digits_le [of "nat (- F)" 1] digits_nonempty [of "nat (- F)"]
  by (cases "F < 0") (auto simp: dec_pad_def nat_less_iff)

lemma grib1_meta_spec:
  assumes g: "mem_read m p 34 = Some g" and pds: "pds = take 25 (drop 8 g)"
    and center: "map_of center_table (uint (g ! 12)) = Some cn"
    and date: "PDS_date4 pds = (y, mo, d, h)" "real_date (y, mo, d)" "h < 24" "0 < g ! 20 \<and> 1 \<le> uint (g ! 32)"
    and fc: "clock_hours (uint (g ! 25)) (time_increment pds) = Some hs"
    and span: "day_of_year (y, mo, d) + (h + hs) div 24 < 36525" "\<not> whole_chunks y (day_of_year (y, mo, d) + (h + hs) div 24)"
    and clock: "steady_clock (mktime W)"
    and parm: "k5toa (gribtab W) (drop (p + 8) m) (user_names st) = Some (parm, u)" "length parm \<le> 100"
  shows "\<exists>st'. grib1_meta W rtl m p st =
    Some (grib1_text (str cn) (model_text (g ! 12) (g ! 13)) (uint (g ! 14)) (y, mo, d) (h, uint (g ! 24))
            (quot (3600 * hs - 60 * uint (g ! 24)) 3600) parm (levels (uint (g ! 17)) (uint (g ! 18)) (uint (g ! 19))),
          str ''/m'' @ model_text (g ! 12) (g ! 13), st')"
proof -
  have lg: "length g = 34" using g by (rule mem_read_length)
  have m: "p + 34 \<le> length m" "g = take 34 (drop p m)" using g by (auto simp: mem_read_def split: if_splits)
  have g33: "mem_read m p 33 = Some (take 33 g)" using m by (simp add: mem_read_def min_def)
  have "take 25 (drop (p + 8) m) = pds" using m by (simp add: pds drop_take add.commute)
  then have p25: "mem_read (drop (p + 8) m) 0 25 = Some pds" using m(1) by (simp add: mem_read_def)
  have n: "pds ! i = g ! (8 + i)" if "i < 25" for i using lg that by (simp add: pds)
  have n17: "clock_hours (uint (pds ! 17)) (time_increment pds) = Some hs" using fc by (simp add: n)
  have dt: "y = uint (g ! 20) + 100 * (uint (g ! 32) - 1)" "mo = uint (g ! 21)" "d = uint (g ! 22)" "h = uint (g ! 23)"
    using date(1) by (auto simp: PDS_date4_def PDS_Year4_def n)
  obtain y1 mo1 d1 where nd: "(next_day ^^ nat ((h + hs) div 24)) (y, mo, d) = (y1, mo1, d1)" by (metis prod_cases3)
  have v: "verf_time (drop (p + 8) m) = Some (0, (y1, mo1, d1, (h + hs) mod 24))"
    using verf_days [OF p25 date(1-3) n17 span(1)] span(2) nd by simp
  have h0: "0 \<le> h" "0 \<le> hs" using dt clock_unit_hours(2) [OF n17 time_increment_ge, of h] date(3) by simp_all
  then have n0: "0 \<le> (h + hs) div 24" by (simp add: pos_imp_zdiv_nonneg_iff)
  have cd: "mktime W (y1 - 1900, mo1 - 1, d1, (h + hs) mod 24, 0) - mktime W (y - 1900, mo - 1, d, h, mi) = 3600 * hs - 60 * mi" for mi
    using clock_difference [OF clock date(2) nd n0, of "(h + hs) mod 24" h mi] div_mult_mod_eq [of "h + hs" 24] by linarith
  have Y: "uint (g ! 32 - 1) * 100 + uint (g ! 20) = y" 
  proof -
    have "uint (g ! 32 - 1) = uint (g ! 32) - 1" using date(4) by (subst uint_sub_lem [THEN iffD1]) simp_all
    then show ?thesis using dt(1) by simp
  qed
  have g20: "0 < uint (g ! 20)" using date(4) by (simp add: word_less_def)
  have mi: "0 \<le> uint (g ! 24)" "uint (g ! 24) < 256" using byte_lt [of "g ! 24"] by simp_all
  have hs: "hs \<le> 24 * 65535" using hours_bound [OF n17] .
  define F where "F = quot (3600 * hs - 60 * uint (g ! 24)) 3600"
  have "(3600 * hs - 60 * uint (g ! 24)) div 3600 \<le> hs"
    using zdiv_mono1 [of "3600 * hs - 60 * uint (g ! 24)" "3600 * hs" 3600] mi by simp
  then have F: "- 10 < F" "F < 10 ^ 7" using mi hs h0(2) by (auto simp: F_def quot_def div_less_iff_less_mult)
  obtain sb where bn: "both_names rtl (g ! 12) (g ! 13) st = Some (str cn, model_text (g ! 12) (g ! 13), sb)" "user_names sb = user_names st"
    by (rule both_names_text [OF center])
  obtain r st2 where md: "s_pds_model (g ! 12) (g ! 13) (sb\<lparr>user_names := u\<rparr>) = Some (r, st2)" "deref st2 r = model_text (g ! 12) (g ! 13)"
    "length (model_text (g ! 12) (g ! 13)) \<le> 14"
    by (rule s_pds_model_ex)
  let ?text = "grib1_text (str cn) (model_text (g ! 12) (g ! 13)) (uint (g ! 14)) (y, mo, d) (h, uint (g ! 24)) F parm
    (levels (uint (g ! 17)) (uint (g ! 18)) (uint (g ! 19)))"
  have "length ?text < 256"
    using center_names [OF center] md(3) parm(2) levels_length [of "g ! 17" "g ! 18" "g ! 19"] dt byte_lt [of "g ! 20"] byte_lt [of "g ! 32"]
      length_byte_pad [of "g ! 14"] length_byte_pad [of "g ! 21"] length_byte_pad [of "g ! 22"] length_byte_pad [of "g ! 23"]
      length_byte_pad [of "g ! 24"] length_dec_pad_le [of y 5 4] length_hours [OF F] \<open>real_date (y, mo, d)\<close>
    by (simp add: grib1_text_def real_date_def)
  then have fit: "fits_buf 256 ?text = Some ?text" by (simp add: fits_buf_def)
  have "grib1_meta W rtl m p st = Some (?text, str ''/m'' @ model_text (g ! 12) (g ! 13), st2)"
    using fit bn md parm(1) F g20
    by (simp add: grib1_meta_def g33 v Let_def Y dt(2-4) [symmetric] cd i32_id F_def [symmetric] grib1_text_def)
  then show ?thesis unfolding F_def by blast
qed

section \<open>Products\<close>

text \<open>A product with a standard heading and a GRIB edition 1 message behind it.\<close>

definition grib1_product :: "byte list \<Rightarrow> cstr \<Rightarrow> cstr \<Rightarrow> cstr \<Rightarrow> cstr \<Rightarrow> cstr \<Rightarrow> byte list \<Rightarrow> bool" where
  "grib1_product m TT AA ii CCCC DDHHMM g \<longleftrightarrow>
     heading_ok TT AA ii CCCC DDHHMM \<and> length g = 34 \<and> take 4 g = str ''GRIB'' \<and> (g ! 7 = 0 \<or> g ! 7 = 1) \<and>
     (\<exists>rest. m = heading_line TT AA ii CCCC DDHHMM @ g @ rest \<and> 0 \<in> set (g @ rest))"

lemma grib1_product_header:
  assumes "grib1_product m TT AA ii CCCC DDHHMM g"
  shows "mem_read m 21 34 = Some g" and
    "wmo_header W rtl m n st =
      (case grib1_meta W rtl m 21 st of
         None \<Rightarrow> None
       | Some (meta, model, st1) \<Rightarrow>
           Some (wmo_finish (init_wmo_header\<lparr>hdr_TT := TT, hdr_AA := AA, hdr_ii := scan_int ii, hdr_CCCC := CCCC,
                   hdr_DDHHMM := DDHHMM, hdr_model := model\<rparr>) \<lparr>w_head = None, w_meta = Some meta, w_off = None\<rparr> st1))"
proof -
  obtain rest where h: "heading_ok TT AA ii CCCC DDHHMM" "m = heading_line TT AA ii CCCC DDHHMM @ g @ rest" "0 \<in> set (g @ rest)"
    and g: "length g = 34" "take 4 g = str ''GRIB''" "g ! 7 = 0 \<or> g ! 7 = 1"
    using assms by (auto simp: grib1_product_def)
  note w = wmo_words_heading [OF h]
  have gl: "get_line m 18 30 = Some (Some 21)"
    using get_line_found [of 18 m "[13, 13]" "g @ rest" 30] w(2) by simp
  have d: "drop 21 m = g @ rest" using arg_cong [OF w(2), of "drop 3"] by simp
  have l: "21 + (34 + length rest) = length m" using arg_cong [OF d, of length] g(1) by simp
  show "mem_read m 21 34 = Some g" using d l g(1) by (simp add: mem_read_def)
  have four: "mem_read m 21 4 = Some (str ''GRIB'')" using d l g(1,2) by (simp add: mem_read_def)
  have "m ! (21 + 7) = (g @ rest) ! 7" using d l by (metis add_leD1 le_add1 nth_drop)
  then have v: "rd m 28 = Some (g ! 7)" using l g(1) by (simp add: rd_def nth_append)
  show "wmo_header W rtl m n st =
      (case grib1_meta W rtl m 21 st of
         None \<Rightarrow> None
       | Some (meta, model, st1) \<Rightarrow>
           Some (wmo_finish (init_wmo_header\<lparr>hdr_TT := TT, hdr_AA := AA, hdr_ii := scan_int ii, hdr_CCCC := CCCC,
                   hdr_DDHHMM := DDHHMM, hdr_model := model\<rparr>) \<lparr>w_head = None, w_meta = Some meta, w_off = None\<rparr> st1))"
    unfolding wmo_header_def Let_def w(1) option.case prod.case gl four
    using g(3) v by (auto split: option.split)
qed

text \<open>
  C20: The heading and the metadata of a GRIB edition 1 product, all the way from the heading line through the tables of
  centres, models, parameters and levels to the verification time. The hours of the forecast in the metadata are the
  increment of the message, whatever calendar days lie in between, when the time of reference is a full hour; each minute
  of it is taken off. The clock of \<open>mktime\<close> has no changes, like the one of UTC.
\<close>

theorem wmo_header_grib1:
  assumes prod: "grib1_product m TT AA ii CCCC DDHHMM g" and pds: "pds = take 25 (drop 8 g)"
    and center: "map_of center_table (uint (g ! 12)) = Some cn"
    and date: "PDS_date4 pds = (y, mo, d, h)" "real_date (y, mo, d)" "h < 24" "0 < g ! 20 \<and> 1 \<le> uint (g ! 32)"
    and fc: "clock_hours (uint (g ! 25)) (time_increment pds) = Some hs"
    and span: "day_of_year (y, mo, d) + (h + hs) div 24 < 36525" "\<not> whole_chunks y (day_of_year (y, mo, d) + (h + hs) div 24)"
    and clock: "steady_clock (mktime W)"
    and parm: "k5toa (gribtab W) (drop 29 m) (user_names st) = Some (parm, u)" "length parm \<le> 100"
  shows "\<exists>st'. wmo_header W rtl m n st =
    Some (0, \<lparr>w_head = Some (TT @ AA @ ii @ str '' '' @ CCCC @ str '' '' @ DDHHMM @ str '' /m'' @ model_text (g ! 12) (g ! 13)),
              w_meta = Some (grib1_text (str cn) (model_text (g ! 12) (g ! 13)) (uint (g ! 14)) (y, mo, d) (h, uint (g ! 24))
                (quot (3600 * hs - 60 * uint (g ! 24)) 3600) parm (levels (uint (g ! 17)) (uint (g ! 18)) (uint (g ! 19)))),
              w_off = None\<rparr>, st')"
proof -
  have ok: "heading_ok TT AA ii CCCC DDHHMM" using prod by (simp add: grib1_product_def)
  then have len: "length TT = 2" "length AA = 2" "length ii = 2" "length CCCC = 4" "length DDHHMM = 6"
    by (simp_all add: heading_ok_def)
  have ml: "length (model_text (g ! 12) (g ! 13)) \<le> 14" by (rule s_pds_model_ex)
  have id: "wmo_id (init_wmo_header\<lparr>hdr_TT := TT, hdr_AA := AA, hdr_ii := scan_int ii, hdr_CCCC := CCCC,
      hdr_DDHHMM := DDHHMM, hdr_model := str ''/m'' @ x\<rparr>) = TT @ AA @ ii @ str '' '' @ CCCC @ str '' '' @ DDHHMM @ str '' /m'' @ x" for x
    using two_digits [of ii] ok by (auto simp: wmo_id_def init_wmo_header_def heading_ok_def)
  note h = grib1_product_header [OF prod]
  have p: "k5toa (gribtab W) (drop (21 + 8) m) (user_names st) = Some (parm, u)" using parm(1) by simp
  from grib1_meta_spec [OF h(1) pds center date fc span clock p parm(2), where rtl = rtl] show ?thesis
    unfolding h(2) by (elim exE) (use len ml in \<open>auto simp: wmo_finish_def Let_def id simp del: str_Cons\<close>)
qed

text \<open>
  Where the month of the message is none, or the days up to the verification time make whole four-year periods, the
  day is looked up outside its table, and what follows is undefined. Nothing in the program checks the message before.
\<close>

theorem wmo_header_bad_date:
  assumes prod: "grib1_product m TT AA ii CCCC DDHHMM g" and pds: "pds = take 25 (drop 8 g)"
    and date: "PDS_date4 pds = (y, mo, d, h)" "h < 24"
    and fc: "clock_hours (uint (g ! 25)) (time_increment pds) = Some hs" "0 < time_increment pds"
    and bad: "mo < 1 \<or> 12 < mo \<or> real_date (y, mo, d) \<and> day_of_year (y, mo, d) + (h + hs) div 24 < 36525 \<and>
      whole_chunks y (day_of_year (y, mo, d) + (h + hs) div 24)"
  shows "wmo_header W rtl m n st = None"
proof -
  note h = grib1_product_header [OF prod]
  have m: "55 \<le> length m" "g = take 34 (drop 21 m)" using h(1) by (auto simp: mem_read_def split: if_splits)
  have "mem_read (drop (21 + 8) m) 0 25 = Some pds" using m by (simp add: mem_read_def pds drop_take)
  note v = verf_time_bad [OF this date(1,2) _ fc(2)]
  have "pds ! 17 = g ! 25" using h(1) mem_read_length [OF h(1)] by (simp add: pds)
  with v fc(1) bad have "verf_time (drop (21 + 8) m) = None" by simp
  then have "grib1_meta W rtl m 21 st = None" by (simp add: grib1_meta_def Let_def split: option.split)
  with h(2) show ?thesis by simp
qed

section \<open>Examples\<close>

text \<open>The heights of a forecast for 36 hours from the last day of 2011.\<close>

definition demo_grib1 :: "byte \<Rightarrow> byte list" where
  "demo_grib1 month = str ''GRIB'' @ [0, 0, 100, 1] @
     [0, 0, 28, 2, 7, 96, 3, 128, 11, 100, 1, 244, 11, month, 31, 18, 0, 1, 36, 0, 0, 0, 0, 0, 21, 0]"

definition demo_grib1_product :: "byte \<Rightarrow> byte list" where
  "demo_grib1_product month =
     heading_line (str ''HT'') (str ''US'') (str ''50'') (str ''KWBC'') (str ''311800'') @ demo_grib1 month"

definition demo_clock :: wgrib_fns where
  "demo_clock = \<lparr>gribtab = (\<lambda>_. None),
     mktime = (\<lambda>(y, mo, d, h, mi). 86400 * day_number (y + 1900, mo + 1, d) + 3600 * h + 60 * mi)\<rparr>"

lemma demo_grib1:
  "grib1_product (demo_grib1_product month) (str ''HT'') (str ''US'') (str ''50'') (str ''KWBC'') (str ''311800'') (demo_grib1 month)"
  by (simp add: grib1_product_def demo_grib1_product_def demo_grib1_def heading_ok_def is_alnum_def is_digit_def)

lemma demo_clock: "steady_clock (mktime demo_clock)"
  unfolding steady_clock_def by (intro exI [of _ 0]) (simp add: demo_clock_def)

lemma demo_pds: "take 25 (drop 8 (demo_grib1 month)) =
  [0, 0, 28, 2, 7, 96, 3, 128, 11, 100, 1, 244, 11, month, 31, 18, 0, 1, 36, 0, 0, 0, 0, 0, 21]"
  by (simp add: demo_grib1_def)

lemma demo_pds_date:
  "PDS_date4 [0, 0, 28, 2, 7, 96, 3, 128, 11, 100, 1, 244, 11, month, 31, 18, 0, 1, 36, 0, 0, 0, 0, 0, 21] = (2011, uint month, 31, 18)"
  "time_increment [0, 0, 28, 2, 7, 96, 3, 128, 11, 100, 1, 244, 11, month, 31, 18, 0, 1, 36, 0, 0, 0, 0, 0, 21] = 36"
  by (simp_all add: PDS_date4_def PDS_Year4_def time_increment_def)

lemma demo_grib1_nth: "uint (demo_grib1 month ! 12) = 7" "demo_grib1 month ! 12 = 7" "demo_grib1 month ! 13 = 96" "demo_grib1 month ! 14 = 3"
  "demo_grib1 month ! 17 = 100" "demo_grib1 month ! 18 = 1" "demo_grib1 month ! 19 = 244" "demo_grib1 month ! 20 = 11"
  "demo_grib1 month ! 24 = 0" "demo_grib1 month ! 25 = 1" "demo_grib1 month ! 32 = 21"
  by (simp_all add: demo_grib1_def)

lemma demo_k5toa: "k5toa (gribtab demo_clock) (drop 29 (demo_grib1_product month)) (user_names demo_statics) = Some (str ''TMP'', user_tab0)"
  by (simp add: demo_clock_def demo_statics_def demo_grib1_product_def demo_grib1_def heading_line_def k5toa_def mem_read_def Parm_Table_def
      NMC_def parm_table_ncep_opn_def)

theorem wmo_header_grib1_witness:
  "\<exists>st. wmo_header demo_clock False (demo_grib1_product 12) 60 demo_statics =
    Some (0, \<lparr>w_head = Some (str ''HTUS50 KWBC 311800 /mGFS''),
              w_meta = Some (str ''grib/ncep/GFS/#003/201112311800/F036/TMP/500 mb/ ''), w_off = None\<rparr>, st)"
proof -
  have c: "map_of center_table (uint (demo_grib1 12 ! 12)) = Some ''ncep''" by (simp add: demo_grib1_nth center_table_def)
  have d: "real_date (2011, 12, 31)" by (simp add: real_date_def month_length_def)
  have f: "clock_hours (uint (demo_grib1 12 ! 25)) (time_increment (take 25 (drop 8 (demo_grib1 12)))) = Some 36"
    by (simp add: demo_pds demo_pds_date demo_grib1_nth clock_hours_def HOUR_def)
  have w: "day_of_year (2011, 12, 31) + (18 + 36) div 24 < 36525" "\<not> whole_chunks 2011 (day_of_year (2011, 12, 31) + (18 + 36) div 24)"
    by (simp_all add: day_of_year_def monthjday_def leap_def c_rem_def quot_def whole_chunks_def)
  have a: "PDS_date4 (take 25 (drop 8 (demo_grib1 12))) = (2011, 12, 31, 18)" by (simp add: demo_pds demo_pds_date)
  have y: "0 < demo_grib1 12 ! 20 \<and> 1 \<le> uint (demo_grib1 12 ! 32)" by (simp add: demo_grib1_nth)
  have l: "length (str ''TMP'') \<le> 100" by simp
  have r: "replicate 2 (48 :: byte) = [48, 48]" by (simp add: numeral_2_eq_2)
  have t: "grib1_text (str ''ncep'') (model_text 7 96) (uint (3::byte)) (2011, 12, 31) (18, uint (0::byte)) (quot (3600 * 36 - 60 * uint (0::byte)) 3600)
      (str ''TMP'') (levels (uint (100::byte)) (uint (1::byte)) (uint (244::byte))) = str ''grib/ncep/GFS/#003/201112311800/F036/TMP/500 mb/ ''"
    "model_text 7 96 = str ''GFS''"
    by (simp_all add: grib1_text_def model_text_def ncep_table_def levels_def dec_def dec_pad_def digits.simps quot_def Let_def r)
  show ?thesis
    using wmo_header_grib1 [OF demo_grib1 refl c a d _ y f w demo_clock demo_k5toa l, of False 60] t(1) unfolding demo_grib1_nth t(2) by simp
qed

theorem wmo_header_bad_date_witness:
  "wmo_header demo_clock False (demo_grib1_product 13) 60 demo_statics = None"
proof -
  have f: "clock_hours (uint (demo_grib1 13 ! 25)) (time_increment (take 25 (drop 8 (demo_grib1 13)))) = Some 36"
    "0 < time_increment (take 25 (drop 8 (demo_grib1 13)))"
    by (simp_all add: demo_pds demo_pds_date demo_grib1_nth clock_hours_def HOUR_def)
  have a: "PDS_date4 (take 25 (drop 8 (demo_grib1 13))) = (2011, 13, 31, 18)" by (simp add: demo_pds demo_pds_date)
  show ?thesis by (rule wmo_header_bad_date [OF demo_grib1 refl a _ f]) simp_all
qed

end
