(* ===== verification/Gem_Strings.thy ===== *)
theory Gem_Strings
  imports Scanning
begin

text \<open>
  The string functions of \<open>gempak\<close> that the naming of GRIB edition 2 products uses: \<open>cst_*\<close>. A function that writes its
  result over its argument is a function from the string before to the string after; what it needs of memory is up to
  the caller.
\<close>

section \<open>Blanks, and strings as integers\<close>

definition is_blank :: "byte \<Rightarrow> bool" where
  "is_blank b \<longleftrightarrow> b = 9 \<or> b = 32"

text \<open>\<open>cst_rmbl\<close>: all blanks and tabs are taken out.\<close>

definition cst_rmbl :: "cstr \<Rightarrow> cstr" where
  "cst_rmbl s = filter (\<lambda>b. \<not> is_blank b) s"

text \<open>\<open>cst_rxbl\<close>: one blank for each run of them, none at the beginning.\<close>

function cst_rxbl :: "cstr \<Rightarrow> cstr" where
  "cst_rxbl s =
     (if s = [] then []
      else let w = takeWhile (\<lambda>b. \<not> is_blank b) s; r = dropWhile (\<lambda>b. \<not> is_blank b) s
           in if w \<noteq> [] then w @ (if r = [] then [] else 32 # cst_rxbl (tl r))
              else cst_rxbl (dropWhile is_blank s))"
  by auto
termination
proof (relation "measure length")
  fix s :: cstr and w r
  assume "s \<noteq> []" "w = takeWhile (\<lambda>b. \<not> is_blank b) s" "r = dropWhile (\<lambda>b. \<not> is_blank b) s" "w \<noteq> []" "r \<noteq> []"
  then show "(tl r, s) \<in> measure length"
    using length_dropWhile_le [of "\<lambda>b. \<not> is_blank b" s] by (cases s) (auto simp: less_Suc_eq_le le_diff_conv split: if_splits)
next
  fix s :: cstr and w r
  assume "s \<noteq> []" "w = takeWhile (\<lambda>b. \<not> is_blank b) s" "r = dropWhile (\<lambda>b. \<not> is_blank b) s" "\<not> w \<noteq> []"
  then show "(dropWhile is_blank s, s) \<in> measure length"
    using length_dropWhile_le [of is_blank "tl s"] by (cases s) (auto simp: less_Suc_eq_le split: if_splits)
qed simp

declare cst_rxbl.simps [simp del]

text \<open>\<open>cst_itoc\<close> of one integer: its bytes, the least significant first, without leading NULs.\<close>

definition cst_itoc :: "int \<Rightarrow> cstr" where
  "cst_itoc v = takeWhile (\<lambda>b. b \<noteq> 0) (dropWhile (\<lambda>b. b = 0) (le32 (v mod 2 ^ 32)))"

text \<open>\<open>strstr\<close>, as an offset, and \<open>cst_rmst\<close>: the position of the first occurrence (-1 for none), and the string without it.\<close>

fun str_find :: "cstr \<Rightarrow> cstr \<Rightarrow> nat option" where
  "str_find [] sub = (if sub = [] then Some 0 else None)"
| "str_find (c # s) sub = (if take (length sub) (c # s) = sub then Some 0 else map_option Suc (str_find s sub))"

definition cst_rmst :: "cstr \<Rightarrow> cstr \<Rightarrow> int \<times> cstr" where
  "cst_rmst s sub =
     (case str_find s sub of
        None \<Rightarrow> (- 1, s)
      | Some k \<Rightarrow> (int k, take k s @ drop (k + length sub) s))"

lemma str_find_fits: "str_find s sub = Some k \<Longrightarrow> k + length sub \<le> length s"
proof (induction s sub arbitrary: k rule: str_find.induct)
  case (2 c s sub)
  then show ?case
    by (cases "take (length sub) (c # s) = sub") (auto dest: arg_cong [of _ _ length] split: if_splits)
qed (simp split: if_splits)

lemma cst_rmst_shorter: "cst_rmst s sub = (pos, s') \<Longrightarrow> 0 \<le> pos \<Longrightarrow> length s' + length sub = length s"
  by (auto simp: cst_rmst_def dest: str_find_fits split: option.splits)

text \<open>\<open>while ( ilen > 0 ) cst_rmst(fdats, slashstr, &ilen, fdats, &ier)\<close>: a slash at the beginning ends the loop as well.\<close>

function rm_slashes :: "cstr \<Rightarrow> cstr" where
  "rm_slashes s = (case cst_rmst s [47] of (pos, s') \<Rightarrow> if 0 < pos then rm_slashes s' else s')"
  by auto
termination
proof (relation "measure length")
  fix s :: cstr and pos s'
  assume "(pos, s') = cst_rmst s [47]" "0 < pos"
  then show "(s', s) \<in> measure length" using cst_rmst_shorter [of s "[47]" pos s'] by simp
qed simp

declare rm_slashes.simps [simp del]

text \<open>\<open>cst_ctoi\<close> of one string: its first four bytes as an integer, whatever they are.\<close>

definition cst_ctoi :: "byte list \<Rightarrow> int option" where
  "cst_ctoi buf = map_option (\<lambda>bs. i32 (le_uint bs)) (mem_read buf 0 4)"

text \<open>\<open>cst_lstr\<close>: the length without white space at the end.\<close>

definition cst_lstr :: "cstr \<Rightarrow> nat" where
  "cst_lstr s = length s - length (takeWhile is_c_space (rev s))"

text \<open>\<open>cst_ncat\<close>: what is in memory before the white space at the end is cut off, and after.\<close>

definition ncat_raw :: "cstr \<Rightarrow> cstr \<Rightarrow> cstr" where
  "ncat_raw s1 s2 = s1 @ take (cst_lstr s1 + cst_lstr s2 + 2) s2"

definition cst_ncat :: "cstr \<Rightarrow> cstr \<Rightarrow> cstr" where
  "cst_ncat s1 s2 = (let s = ncat_raw s1 s2 in take (cst_lstr s) s)"

text \<open>\<open>cst_rpst\<close>: the first occurrence of a substring is replaced.\<close>

definition cst_rpst :: "cstr \<Rightarrow> cstr \<Rightarrow> cstr \<Rightarrow> cstr" where
  "cst_rpst s sub rep =
     (if s = [] \<or> sub = [] then s
      else case str_find s sub of
             None \<Rightarrow> s
           | Some k \<Rightarrow> take k s @ rep @ drop (k + length sub) s)"

text \<open>\<open>cst_uclc\<close>: upper case letters become lower case.\<close>

definition cst_uclc :: "cstr \<Rightarrow> cstr" where
  "cst_uclc s = map (\<lambda>b. if 65 \<le> b \<and> b \<le> 90 then b + 32 else b) s"

section \<open>Lengths\<close>

lemma length_rmbl: "length (cst_rmbl s) \<le> length s"
  by (simp add: cst_rmbl_def)

lemma length_rxbl: "length (cst_rxbl s) \<le> length s"
proof (induction s rule: cst_rxbl.induct)
  case (1 s)
  show ?case
  proof (cases "s = []")
    case False
    define w where "w = takeWhile (\<lambda>b. \<not> is_blank b) s"
    define r where "r = dropWhile (\<lambda>b. \<not> is_blank b) s"
    have l: "length w + length r = length s" unfolding w_def r_def by (metis length_append takeWhile_dropWhile_id)
    show ?thesis
    proof (cases "w = []")
      case True
      then have "length (cst_rxbl (dropWhile is_blank s)) \<le> length (dropWhile is_blank s)" using 1(2) False by (simp add: w_def)
      then show ?thesis
        using False True length_dropWhile_le [of is_blank s] by (simp add: cst_rxbl.simps [of s] w_def Let_def)
    next
      case wn: False
      show ?thesis
      proof (cases "r = []")
        case True
        then show ?thesis using False wn l by (simp add: cst_rxbl.simps [of s] w_def [symmetric] r_def [symmetric] Let_def)
      next
        case rn: False
        then have "length (cst_rxbl (tl r)) \<le> length (tl r)" using 1(1) False wn by (simp add: w_def r_def)
        with rn have "Suc (length (cst_rxbl (tl r))) \<le> length r" by (cases r) simp_all
        with False wn rn l show ?thesis by (simp add: cst_rxbl.simps [of s] w_def [symmetric] r_def [symmetric] Let_def)
      qed
    qed
  qed (simp add: cst_rxbl.simps)
qed

lemma length_itoc: "length (cst_itoc v) \<le> 4"
proof -
  have "length (cst_itoc v) \<le> length (le32 (v mod 2 ^ 32))"
    unfolding cst_itoc_def by (rule order_trans [OF length_takeWhile_le length_dropWhile_le])
  then show ?thesis by simp
qed

lemma length_uclc [simp]: "length (cst_uclc s) = length s"
  by (simp add: cst_uclc_def)

section \<open>Four characters in an integer\<close>

lemma byte_of_le_uint: "(word_of_int (uint b + 256 * x) :: byte) = b"
proof (rule word_uint_eqI)
  have "uint (word_of_int (uint b + 256 * x) :: byte) = (uint b + 256 * x) mod 256" by (rule uint_byte)
  also have "\<dots> = uint b mod 256" by simp
  also have "\<dots> = uint b" using uint_byte_bounds [of b] by simp
  finally show "uint (word_of_int (uint b + 256 * x) :: byte) = uint b" .
qed

lemma le_uint_div: "(uint (b::byte) + 256 * x) div 256 = x"
  using uint_byte_bounds [of b] by (intro int_div_pos_eq [of _ _ _ "uint b"]) simp_all

lemma le32_le_uint: "length bs = 4 \<Longrightarrow> le32 (le_uint bs) = bs"
proof -
  assume "length bs = 4"
  then obtain a b c d where bs: "bs = [a, b, c, d]" by (auto simp: length_Suc_conv numeral_nat)
  define x3 x2 x1 where "x3 = uint d" and "x2 = uint c + 256 * x3" and "x1 = uint b + 256 * x2"
  have d1: "le_uint bs = uint a + 256 * x1" by (simp add: bs x1_def x2_def x3_def)
  have "le_uint bs div 256 = x1" "x1 div 256 = x2" "x2 div 256 = x3" unfolding d1 x1_def x2_def by (rule le_uint_div)+
  moreover have "le_uint bs div 65536 = le_uint bs div 256 div 256" "le_uint bs div 16777216 = le_uint bs div 256 div 256 div 256"
    using zdiv_zmult2_eq [of 256 "le_uint bs" 256] zdiv_zmult2_eq [of 256 "le_uint bs" 65536] zdiv_zmult2_eq [of 256 "le_uint bs div 256" 256] by simp_all
  ultimately have "le32 (le_uint bs) = [word_of_int (uint a + 256 * x1), word_of_int (uint b + 256 * x2), word_of_int (uint c + 256 * x3), word_of_int x3]"
    by (simp only: le32_def d1) (simp only: x1_def x2_def)
  then show ?thesis by (simp only: byte_of_le_uint bs) (simp add: x3_def)
qed

lemma le_uint_bound: "0 \<le> le_uint bs \<and> le_uint bs < 256 ^ length bs"
proof (induction bs)
  case (Cons b bs)
  then show ?case using uint_byte_bounds [of b] by simp
qed simp

text \<open>A name of up to four characters survives the way through an integer, whatever is behind its end.\<close>

lemma itoc_ctoi:
  assumes "s \<noteq> []" "0 \<notin> set s" "length (s @ [0] @ junk) \<ge> 4" "length s \<le> 4"
  shows "\<exists>v. cst_ctoi (s @ [0] @ junk) = Some v \<and> cst_itoc v = s"
proof -
  let ?bs = "take 4 (s @ [0] @ junk)"
  have l: "length ?bs = 4" using assms(3) by simp
  have "le_uint ?bs mod 2 ^ 32 = le_uint ?bs" using le_uint_bound [of ?bs] unfolding l by (intro mod_pos_pos_trivial) simp_all
  then have "le32 (i32 (le_uint ?bs) mod 2 ^ 32) = ?bs" unfolding i32_mod by (simp only: le32_le_uint [OF l])
  moreover have "dropWhile (\<lambda>b. b = 0) ?bs = ?bs" using assms(1,2) by (cases s) auto
  moreover have "takeWhile (\<lambda>b. b \<noteq> 0) ?bs = s"
  proof (cases "length s = 4")
    case True
    then show ?thesis using assms(2) by (auto simp: takeWhile_eq_all_conv)
  next
    case False
    then have "?bs = s @ 0 # take (3 - length s) junk" using assms(4) by (simp add: take_Cons')
    moreover have "takeWhile (\<lambda>b. b \<noteq> 0) (s @ 0 # r) = s" for r using assms(2) by (subst takeWhile_append2) auto
    ultimately show ?thesis by simp
  qed
  ultimately show ?thesis using l assms(3) by (simp add: cst_ctoi_def mem_read_def cst_itoc_def del: append.simps)
qed

end
