(* ===== verification/Gem_Tables.thy ===== *)
theory Gem_Tables
  imports Gem_Strings
begin

text \<open>
  The tables of GEMPAK by which the fields of GRIB edition 2 are named: how a file is read (\<open>cfl_trln\<close>, \<open>cfl_tbnr\<close>,
  \<open>ctb_g2rdvar\<close>, \<open>ctb_g2rdlvl\<close>, \<open>ctb_g2rdcntr\<close>), how a table is kept until another one is asked for (\<open>gb2_gt*\<close>), and how
  an entry is found (\<open>gb2_skvar\<close>, \<open>gb2_sklvl\<close>). Allocation is taken to succeed. Columns that only other programs use are
  not kept: long names, scales of values, missing values.
\<close>

section \<open>Lines of a file\<close>

text \<open>\<open>fgets ( readbuf, 256, fptr )\<close>, and \<open>None\<close> when the end of the file has been met, even behind a last line without newline.\<close>

definition fgets_256 :: "byte list \<Rightarrow> (cstr \<times> byte list) option" where
  "fgets_256 inp =
     (let chunk = take 255 inp; n = length (takeWhile (\<lambda>b. b \<noteq> 10) chunk)
      in if n < length chunk then Some (cstr_of (take (n + 1) chunk), drop (n + 1) inp)
         else if length chunk = 255 then Some (cstr_of chunk, drop 255 inp)
         else None)"

lemma fgets_256_shorter: "fgets_256 inp = Some (line, rest) \<Longrightarrow> length rest < length inp"
  by (auto simp: fgets_256_def Let_def split: if_splits)

definition is_data :: "cstr \<Rightarrow> bool" where
  "is_data line = (let r = dropWhile is_blank line in r \<noteq> [] \<and> hd r \<noteq> 33 \<and> hd r \<noteq> 10)"

text \<open>The next record that is not a comment, without white space at its end.\<close>

function cfl_trln :: "byte list \<Rightarrow> (cstr \<times> byte list) option" where
  "cfl_trln inp =
     (case fgets_256 inp of
        None \<Rightarrow> None
      | Some (line, rest) \<Rightarrow> if is_data line then Some (take (cst_lstr line) line, rest) else cfl_trln rest)"
  by auto
termination by (relation "measure length") (auto dest: fgets_256_shorter)

declare cfl_trln.simps [simp del]

lemma cfl_trln_shorter: "cfl_trln inp = Some (line, rest) \<Longrightarrow> length rest < length inp"
proof (induction inp rule: cfl_trln.induct)
  case (1 inp)
  then show ?case
    using fgets_256_shorter [of inp] by (fastforce simp: cfl_trln.simps [of inp] split: option.splits if_splits)
qed

function cfl_tbnr :: "byte list \<Rightarrow> nat" where
  "cfl_tbnr inp = (case cfl_trln inp of None \<Rightarrow> 0 | Some (line, rest) \<Rightarrow> Suc (cfl_tbnr rest))"
  by auto
termination by (relation "measure length") (auto dest: cfl_trln_shorter)

declare cfl_tbnr.simps [simp del]

text \<open>The loops \<open>while ( n < nr )\<close>: a record at a time.\<close>

fun ctb_lines :: "nat \<Rightarrow> byte list \<Rightarrow> cstr list" where
  "ctb_lines 0 inp = []"
| "ctb_lines (Suc nr) inp = (case cfl_trln inp of None \<Rightarrow> [] | Some (line, rest) \<Rightarrow> line # ctb_lines nr rest)"

section \<open>Entries\<close>

record vinfo =
  discpln :: int
  categry :: int
  paramtr :: int
  pdtnmbr :: int
  gemname :: cstr

record level =
  id1 :: int
  id2 :: int
  lv_scale :: int
  lv_unit :: "byte list"
  abbrev :: cstr

record center =
  cn_id :: int
  cn_abbrev :: cstr

text \<open>
  Conversions of \<open>sscanf\<close>. \<open>%20c\<close> takes that many characters, or all there are, into an array that had other contents; \<open>%s\<close>
  takes a word, which has to fit.
\<close>

definition get_d :: "cstr \<Rightarrow> (int \<times> cstr) option" where
  "get_d s = map_option (\<lambda>(v, r). (c_atoi s, r)) (scan_d s)"

definition get_c :: "nat \<Rightarrow> byte list \<Rightarrow> cstr \<Rightarrow> (byte list \<times> cstr) option" where
  "get_c n buf s = (let r = dropWhile is_c_space s in if r = [] then None else Some (take n r @ drop (length r) buf, drop n r))"

definition get_s :: "cstr \<Rightarrow> (cstr \<times> cstr) option" where
  "get_s s =
     (let r = dropWhile is_c_space s; w = takeWhile (\<lambda>b. \<not> is_c_space b) r
      in if w = [] then None else Some (w, drop (length w) r))"

text \<open>
  A record is scanned into variables that keep what they had when a conversion fails; the variables before the first
  record are arguments. \<open>None\<close> is a word that is too long for its array.
\<close>

definition row_var :: "vinfo \<Rightarrow> cstr \<Rightarrow> vinfo option" where
  "row_var v0 s0 =
     (case get_d s0 of None \<Rightarrow> Some v0 | Some (disc, s1) \<Rightarrow> let v1 = v0\<lparr>discpln := disc\<rparr> in
      case get_d s1 of None \<Rightarrow> Some v1 | Some (cat, s2) \<Rightarrow> let v2 = v1\<lparr>categry := cat\<rparr> in
      case get_d s2 of None \<Rightarrow> Some v2 | Some (parm, s3) \<Rightarrow> let v3 = v2\<lparr>paramtr := parm\<rparr> in
      case get_d s3 of None \<Rightarrow> Some v3 | Some (pdtn, s4) \<Rightarrow> let v4 = v3\<lparr>pdtnmbr := pdtn\<rparr> in
      case get_c 32 [] s4 of None \<Rightarrow> Some v4 | Some (name, s5) \<Rightarrow>
      case get_c 20 [] s5 of None \<Rightarrow> Some v4 | Some (unts, s6) \<Rightarrow>
      case get_s s6 of None \<Rightarrow> Some v4 | Some (gname, s7) \<Rightarrow> if length gname < 13 then Some (v4\<lparr>gemname := gname\<rparr>) else None)"

definition row_lvl :: "level \<Rightarrow> cstr \<Rightarrow> level option" where
  "row_lvl v0 s0 =
     (case get_d s0 of None \<Rightarrow> Some v0 | Some (a, s1) \<Rightarrow> let v1 = v0\<lparr>id1 := a\<rparr> in
      case get_d s1 of None \<Rightarrow> Some v1 | Some (b, s2) \<Rightarrow> let v2 = v1\<lparr>id2 := b\<rparr> in
      case get_c 33 [] s2 of None \<Rightarrow> Some v2 | Some (name, s3) \<Rightarrow>
      case get_c 20 (lv_unit v2) s3 of None \<Rightarrow> Some v2 | Some (unit, s4) \<Rightarrow> let v3 = v2\<lparr>lv_unit := unit\<rparr> in
      case get_s s4 of None \<Rightarrow> Some v3 | Some (w, s5) \<Rightarrow>
        if length w < 5
        then let v4 = v3\<lparr>abbrev := w\<rparr>
             in case get_d s5 of None \<Rightarrow> Some v4 | Some (scale, s6) \<Rightarrow> Some (v4\<lparr>lv_scale := scale\<rparr>)
        else None)"

definition row_cntr :: "center \<Rightarrow> cstr \<Rightarrow> center option" where
  "row_cntr v0 s0 =
     (case get_d s0 of None \<Rightarrow> Some v0 | Some (a, s1) \<Rightarrow> let v1 = v0\<lparr>cn_id := a\<rparr> in
      case get_c 64 [] s1 of None \<Rightarrow> Some v1 | Some (name, s2) \<Rightarrow>
      case get_s s2 of None \<Rightarrow> Some v1 | Some (w, s3) \<Rightarrow> if length w < 9 then Some (v1\<lparr>cn_abbrev := w\<rparr>) else None)"

fun scan_rows :: "('a \<Rightarrow> cstr \<Rightarrow> 'a option) \<Rightarrow> 'a \<Rightarrow> cstr list \<Rightarrow> 'a list option" where
  "scan_rows row v [] = Some []"
| "scan_rows row v (l # ls) = do { v1 \<leftarrow> row v l; vs \<leftarrow> scan_rows row v1 ls; Some (v1 # vs) }"

text \<open>The rows of a file that is there and has any; the inner \<open>None\<close> is the failure that the code reports.\<close>

definition read_table :: "('a \<Rightarrow> cstr \<Rightarrow> 'a option) \<Rightarrow> 'a \<Rightarrow> byte list option \<Rightarrow> 'a list option option" where
  "read_table row v file =
     (case file of
        None \<Rightarrow> Some None
      | Some inp \<Rightarrow> let nr = cfl_tbnr inp in if nr = 0 then Some None else map_option Some (scan_rows row v (ctb_lines nr inp)))"

definition ctb_g2rdvar :: "vinfo \<Rightarrow> byte list option \<Rightarrow> vinfo list option option" where
  "ctb_g2rdvar = read_table row_var"

definition ctb_g2rdlvl :: "level \<Rightarrow> byte list option \<Rightarrow> level list option option" where
  "ctb_g2rdlvl = read_table row_lvl"

definition ctb_g2rdcntr :: "center \<Rightarrow> byte list option \<Rightarrow> center list option option" where
  "ctb_g2rdcntr = read_table row_cntr"

section \<open>The table that is kept\<close>

text \<open>The name of the table that was read last, and its entries. A table that cannot be read leaves the name of the one before.\<close>

record 'a cache =
  currtable :: cstr
  tinfo :: "'a list"

definition fetch :: "(cstr \<Rightarrow> 'a list option option) \<Rightarrow> cstr \<Rightarrow> 'a cache \<Rightarrow> (bool \<times> 'a cache) option" where
  "fetch rdtable tmpname c =
     (if tmpname \<noteq> currtable c
      then (case rdtable tmpname of
              None \<Rightarrow> None
            | Some None \<Rightarrow> Some (False, c\<lparr>tinfo := []\<rparr>)
            | Some (Some rows) \<Rightarrow> Some (True, \<lparr>currtable = tmpname, tinfo = rows\<rparr>))
      else Some (True, c))"

text \<open>The files that are found by a name, and the contents of variables before they are set.\<close>

record tables =
  grid_file :: "cstr \<Rightarrow> byte list option"
  var0 :: vinfo
  lvl0 :: level
  cntr0 :: center

definition rdvar :: "tables \<Rightarrow> cstr \<Rightarrow> vinfo list option option" where
  "rdvar T name = ctb_g2rdvar (var0 T) (grid_file T name)"

definition rdlvl :: "tables \<Rightarrow> cstr \<Rightarrow> level list option option" where
  "rdlvl T name = ctb_g2rdlvl (lvl0 T) (grid_file T name)"

definition rdcntr :: "tables \<Rightarrow> cstr \<Rightarrow> center list option option" where
  "rdcntr T name = ctb_g2rdcntr (cntr0 T) (grid_file T name)"

definition gb2_gtwmovartbl :: "tables \<Rightarrow> int \<Rightarrow> vinfo cache \<Rightarrow> (bool \<times> vinfo cache) option" where
  "gb2_gtwmovartbl T iver c = fetch (rdvar T) (str ''g2varswmo'' @ dec iver @ str ''.tbl'') c"

definition gb2_gtlclvartbl :: "tables \<Rightarrow> cstr \<Rightarrow> int \<Rightarrow> vinfo cache \<Rightarrow> (bool \<times> vinfo cache) option" where
  "gb2_gtlclvartbl T cntr lclver c = fetch (rdvar T) (str ''g2vars'' @ cntr @ dec lclver @ str ''.tbl'') c"

definition gb2_gtwmolvltbl :: "tables \<Rightarrow> int \<Rightarrow> level cache \<Rightarrow> (bool \<times> level cache) option" where
  "gb2_gtwmolvltbl T iver c = fetch (rdlvl T) (str ''g2vcrdwmo'' @ dec iver @ str ''.tbl'') c"

definition gb2_gtlcllvltbl :: "tables \<Rightarrow> cstr \<Rightarrow> int \<Rightarrow> level cache \<Rightarrow> (bool \<times> level cache) option" where
  "gb2_gtlcllvltbl T cntr lclver c = fetch (rdlvl T) (str ''g2vcrd'' @ cntr @ dec lclver @ str ''.tbl'') c"

definition gb2_skvar :: "int \<Rightarrow> int \<Rightarrow> int \<Rightarrow> int \<Rightarrow> vinfo list \<Rightarrow> vinfo option" where
  "gb2_skvar disc cat parm pdtn rows = find (\<lambda>v. disc = discpln v \<and> cat = categry v \<and> parm = paramtr v \<and> pdtn = pdtnmbr v) rows"

definition gb2_sklvl :: "int \<Rightarrow> int \<Rightarrow> level list \<Rightarrow> level option" where
  "gb2_sklvl lvl1 lvl2 rows = find (\<lambda>v. lvl1 = id1 v \<and> lvl2 = id2 v) rows"

text \<open>The abbreviation of a centre; where there is none the caller's array is not written.\<close>

definition gb2_gtcntr :: "tables \<Rightarrow> int \<Rightarrow> center cache \<Rightarrow> (cstr option \<times> center cache) option" where
  "gb2_gtcntr T cntrid c =
     do {
       (ok, c1) \<leftarrow> fetch (rdcntr T) (str ''wmocenter.tbl'') c;
       if \<not> ok then Some (None, c1)
       else (case find (\<lambda>r. cntrid = cn_id r) (tinfo c1) of
               None \<Rightarrow> Some (None, c1)
             | Some r \<Rightarrow> do { wmocntr \<leftarrow> fits_buf 8 (cn_abbrev r); Some (Some wmocntr, c1) })
     }"

section \<open>Keeping a table\<close>

lemma scan_rows_length: "scan_rows row v ls = Some vs \<Longrightarrow> length vs = length ls"
  by (induction row v ls arbitrary: vs rule: scan_rows.induct) (auto split: Option.bind_splits)

lemma ctb_lines_length: "length (ctb_lines (cfl_tbnr inp) inp) = cfl_tbnr inp"
proof (induction inp rule: cfl_tbnr.induct)
  case (1 inp)
  then show ?case by (cases "cfl_trln inp") (auto simp: cfl_tbnr.simps [of inp])
qed

lemma read_table_nonempty: "read_table row v file = Some (Some rows) \<Longrightarrow> rows \<noteq> []"
  using ctb_lines_length
  by (force simp: read_table_def Let_def dest!: scan_rows_length split: option.splits if_splits)

text \<open>
  The contract of the readers of tables, by the name of a table: what a client can rely on as long as all tables that it
  asks for are there, and what happens when one is not.
\<close>

definition cache_ok :: "(cstr \<Rightarrow> 'a list option option) \<Rightarrow> 'a cache \<Rightarrow> bool" where
  "cache_ok rdt c \<longleftrightarrow> currtable c = [] \<or> rdt (currtable c) = Some (Some (tinfo c))"

locale kept_table =
  fixes rdt :: "cstr \<Rightarrow> 'a list option option"
    and nm :: "'k \<Rightarrow> cstr"
  assumes nm_nonempty: "nm k \<noteq> []"
    and rows_nonempty: "rdt name = Some (Some rows) \<Longrightarrow> rows \<noteq> []"
begin

lemma fetch_kept:
  assumes "cache_ok rdt c" "rdt (nm k) = Some (Some rows)"
  shows "\<exists>c'. fetch rdt (nm k) c = Some (True, c') \<and> cache_ok rdt c' \<and> tinfo c' = rows \<and> currtable c' = nm k"
  using assms nm_nonempty [of k] by (auto simp: fetch_def cache_ok_def)

lemma fetch_fresh:
  assumes "cache_ok rdt c" "currtable e = []" "fetch rdt (nm k) e = Some (True, e')"
  shows "\<exists>c'. fetch rdt (nm k) c = Some (True, c') \<and> cache_ok rdt c' \<and> tinfo c' = tinfo e' \<and> currtable c' = nm k"
proof -
  have "rdt (nm k) = Some (Some (tinfo e'))"
    using assms(2,3) nm_nonempty [of k] by (auto simp: fetch_def split: option.splits if_splits)
  then show ?thesis using fetch_kept [OF assms(1), of k] by simp
qed

lemma fetch_forgets:
  assumes "cache_ok rdt c" "currtable c = nm k" "nm k' \<noteq> nm k" "rdt (nm k') = Some None"
  shows "tinfo c \<noteq> [] \<and> (\<exists>c'. fetch rdt (nm k') c = Some (False, c') \<and> fetch rdt (nm k) c' = Some (True, c') \<and> tinfo c' = [])"
  using assms nm_nonempty [of k] rows_nonempty by (auto simp: fetch_def cache_ok_def)

end

interpretation wmovar: kept_table "rdvar T" "\<lambda>iver. str ''g2varswmo'' @ dec iver @ str ''.tbl''"
  by unfold_locales (auto simp: rdvar_def ctb_g2rdvar_def dest: read_table_nonempty)

interpretation lclvar: kept_table "rdvar T" "\<lambda>(cntr, lclver). str ''g2vars'' @ cntr @ dec lclver @ str ''.tbl''"
  by unfold_locales (auto simp: rdvar_def ctb_g2rdvar_def dest: read_table_nonempty)

interpretation wmolvl: kept_table "rdlvl T" "\<lambda>iver. str ''g2vcrdwmo'' @ dec iver @ str ''.tbl''"
  by unfold_locales (auto simp: rdlvl_def ctb_g2rdlvl_def dest: read_table_nonempty)

interpretation lcllvl: kept_table "rdlvl T" "\<lambda>(cntr, lclver). str ''g2vcrd'' @ cntr @ dec lclver @ str ''.tbl''"
  by unfold_locales (auto simp: rdlvl_def ctb_g2rdlvl_def dest: read_table_nonempty)

interpretation cntrs: kept_table "rdcntr T" "\<lambda>_. str ''wmocenter.tbl''"
  by unfold_locales (auto simp: rdcntr_def ctb_g2rdcntr_def dest: read_table_nonempty)

text \<open>
  C36: A local table that is not there makes \<open>gb2_gtlclvartbl\<close> forget the one it has, but not its name: when the table
  from before is asked for again it is taken to be there, without an entry, and every parameter in it is unknown.
\<close>

theorem missing_table_forgets:
  assumes "cache_ok (rdvar T) c" "currtable c = str ''g2vars'' @ cntr @ dec ver @ str ''.tbl''"
    and "str ''g2vars'' @ cntr' @ dec ver' @ str ''.tbl'' \<noteq> str ''g2vars'' @ cntr @ dec ver @ str ''.tbl''"
    and "rdvar T (str ''g2vars'' @ cntr' @ dec ver' @ str ''.tbl'') = Some None"
  shows "\<exists>c'. gb2_gtlclvartbl T cntr' ver' c = Some (False, c') \<and> gb2_gtlclvartbl T cntr ver c' = Some (True, c') \<and>
    tinfo c \<noteq> [] \<and> gb2_skvar disc cat parm pdtn (tinfo c') = None"
  using lclvar.fetch_forgets [of T c "(cntr, ver)" "(cntr', ver')"] assms
  by (auto simp: gb2_gtlclvartbl_def gb2_skvar_def simp del: str_Cons)

section \<open>Writing and reading a table\<close>

text \<open>An entry in the columns of the files: numbers of three digits, a name of 32 characters, a unit of 20, the short name, and the rest.\<close>

definition var_line :: "vinfo \<Rightarrow> cstr \<Rightarrow> cstr \<Rightarrow> cstr \<Rightarrow> cstr" where
  "var_line v name units rest =
     dec_pad 3 (discpln v) @ [32] @ dec_pad 3 (categry v) @ [32] @ dec_pad 3 (paramtr v) @ [32] @ dec_pad 3 (pdtnmbr v) @ [32] @
     name @ [32] @ units @ [32] @ gemname v @ rest"

definition var_ok :: "vinfo \<Rightarrow> bool" where
  "var_ok v \<longleftrightarrow> 0 \<le> discpln v \<and> discpln v < 1000 \<and> 0 \<le> categry v \<and> categry v < 1000 \<and> 0 \<le> paramtr v \<and> paramtr v < 1000 \<and>
     0 \<le> pdtnmbr v \<and> pdtnmbr v < 1000 \<and> gemname v \<noteq> [] \<and> length (gemname v) < 13 \<and> (\<forall>b \<in> set (gemname v). \<not> is_c_space b)"

definition columns_ok :: "vinfo \<Rightarrow> cstr \<Rightarrow> cstr \<Rightarrow> cstr \<Rightarrow> bool" where
  "columns_ok v name units rest \<longleftrightarrow> var_ok v \<and> length name = 32 \<and> \<not> is_c_space (hd name) \<and> length units = 20 \<and> \<not> is_c_space (hd units) \<and>
     (rest = [] \<or> is_c_space (hd rest) \<and> \<not> is_c_space (last rest)) \<and> length rest < 150 \<and>
     (\<forall>b \<in> set (name @ units @ gemname v @ rest). b \<noteq> 0 \<and> b \<noteq> 10)"

lemma digits_val_zeros: "digits_val (replicate k 48 @ ds) = digits_val ds"
proof (induction ds rule: rev_induct)
  case Nil
  have "foldl (\<lambda>v d. 10 * v + digit_val d) 0 (replicate k 48) = 0" by (induction k) (simp_all add: digit_val_def)
  then show ?case by (simp add: digits_val_def)
next
  case (snoc d ds)
  then show ?case unfolding append_assoc [symmetric] digits_val_append by simp
qed

lemma dec_pad_scan:
  assumes "0 \<le> x"
  shows "(\<forall>b \<in> set (dec_pad k x). is_digit b) \<and> digits_val (dec_pad k x) = x \<and> dec_pad k x \<noteq> []"
proof -
  have "is_digit 48" by (simp add: is_digit_def)
  then show ?thesis using assms digits_scan [of "nat x"] digits_val_zeros by (auto simp: dec_pad_def)
qed

lemma digit_not_space: "is_digit b \<Longrightarrow> \<not> is_c_space b \<and> b \<noteq> 45 \<and> b \<noteq> 43 \<and> \<not> is_blank b \<and> b \<noteq> 33 \<and> b \<noteq> 10 \<and> b \<noteq> 0"
proof -
  assume d: "is_digit b"
  have "b \<noteq> c" if "c < 48" for c using d that by (auto simp: is_digit_def)
  then have "b \<noteq> 0" "b \<noteq> 9" "b \<noteq> 10" "b \<noteq> 32" "b \<noteq> 33" "b \<noteq> 43" "b \<noteq> 45" by simp_all
  moreover have "\<not> b \<le> 13"
  proof
    assume "b \<le> 13"
    moreover have "48 \<le> b" using d by (simp add: is_digit_def)
    ultimately have "(48::byte) \<le> 13" by (rule order_trans [rotated])
    then show False by simp
  qed
  ultimately show ?thesis by (simp add: is_c_space_def is_blank_def)
qed

lemma get_d_pad:
  assumes "0 \<le> x" "x < 1000" "sp = [] \<or> sp = [32]"
  shows "get_d (sp @ dec_pad 3 x @ [32] @ r) = Some (x, [32] @ r)"
proof -
  note d = dec_pad_scan [OF assms(1), of 3]
  obtain b bs where e: "dec_pad 3 x = b # bs" using d by (cases "dec_pad 3 x") auto
  have b: "\<not> is_c_space b" "b \<noteq> 45" "b \<noteq> 43" using d e digit_not_space [of b] by auto
  have sp: "dropWhile is_c_space (sp @ dec_pad 3 x @ [32] @ r) = dec_pad 3 x @ [32] @ r"
    using assms(3) b by (auto simp: e is_c_space_def)
  have n32: "\<not> is_digit 32" by (simp add: is_digit_def)
  have t: "takeWhile is_digit (dec_pad 3 x @ [32] @ r) = dec_pad 3 x" "dropWhile is_digit (dec_pad 3 x @ [32] @ r) = [32] @ r"
    using d n32 by (simp_all add: takeWhile_append2 dropWhile_append2)
  have s: "scan_d (sp @ dec_pad 3 x @ [32] @ r) = Some (x, [32] @ r)"
    unfolding scan_d_def sp Let_def using b d t by (simp add: e)
  have "c_atoi (sp @ dec_pad 3 x @ [32] @ r) = x" using s assms by (simp add: c_atoi_def i32_id)
  with s show ?thesis by (simp add: get_d_def)
qed

lemma space_32 [simp]: "is_c_space 32"
  by (simp add: is_c_space_def)

lemma get_c_column: "length w = n \<Longrightarrow> 0 < n \<Longrightarrow> \<not> is_c_space (hd w) \<Longrightarrow> get_c n buf ([32] @ w @ r) = Some (w @ drop (n + length r) buf, r)"
  by (cases w) (auto simp: get_c_def)

lemma get_s_word:
  "w \<noteq> [] \<Longrightarrow> \<forall>b \<in> set w. \<not> is_c_space b \<Longrightarrow> r = [] \<or> is_c_space (hd r) \<Longrightarrow> get_s ([32] @ w @ r) = Some (w, r)"
proof -
  assume a: "w \<noteq> []" "\<forall>b \<in> set w. \<not> is_c_space b" "r = [] \<or> is_c_space (hd r)"
  have "dropWhile is_c_space ([32] @ w @ r) = w @ r" using a(1,2) by (cases w) simp_all
  moreover have "takeWhile (\<lambda>b. \<not> is_c_space b) (w @ r) = w" using a(2,3) by (cases r) (simp_all add: takeWhile_append2)
  ultimately show ?thesis using a(1) by (simp add: get_s_def Let_def)
qed

lemma row_var_line: "columns_ok v name units rest \<Longrightarrow> row_var v0 (var_line v name units rest) = Some v"
proof -
  assume c: "columns_ok v name units rest"
  then have v: "var_ok v" and n: "length name = 32" "\<not> is_c_space (hd name)" "length units = 20" "\<not> is_c_space (hd units)"
    and r: "rest = [] \<or> is_c_space (hd rest)" by (auto simp: columns_ok_def)
  note g = get_d_pad [of _ "[]", simplified append.simps(1)] get_d_pad [of _ "[32]"]
  have 1: "get_d (var_line v name units rest) = Some (discpln v, [32] @ dec_pad 3 (categry v) @ [32] @ dec_pad 3 (paramtr v) @ [32] @
      dec_pad 3 (pdtnmbr v) @ [32] @ name @ [32] @ units @ [32] @ gemname v @ rest)"
    unfolding var_line_def using v by (intro g(1)) (simp_all add: var_ok_def)
  have 2: "get_d ([32] @ dec_pad 3 (categry v) @ [32] @ s) = Some (categry v, [32] @ s)"
    "get_d ([32] @ dec_pad 3 (paramtr v) @ [32] @ s) = Some (paramtr v, [32] @ s)"
    "get_d ([32] @ dec_pad 3 (pdtnmbr v) @ [32] @ s) = Some (pdtnmbr v, [32] @ s)" for s
    using v by (intro g(2); simp add: var_ok_def)+
  have 3: "get_s ([32] @ gemname v @ rest) = Some (gemname v, rest)" "length (gemname v) < 13"
    using v r by (auto intro!: get_s_word simp: var_ok_def simp del: append.simps)
  have 4: "get_c 32 [] ([32] @ name @ r) = Some (name, r)" "get_c 20 [] ([32] @ units @ r) = Some (units, r)" for r
    using n by (simp_all add: get_c_column del: append.simps)
  show ?thesis
    unfolding row_var_def 1 2 4 3 option.case prod.case Let_def using 3(2) by simp
qed

text \<open>A file of comments and entries.\<close>

type_synonym table_text = "cstr + vinfo \<times> cstr \<times> cstr \<times> cstr"

fun table_line :: "table_text \<Rightarrow> cstr" where
  "table_line (Inl c) = 33 # c"
| "table_line (Inr (v, name, units, rest)) = var_line v name units rest"

fun table_line_ok :: "table_text \<Rightarrow> bool" where
  "table_line_ok (Inl c) \<longleftrightarrow> length c < 254 \<and> (\<forall>b \<in> set c. b \<noteq> 0 \<and> b \<noteq> 10)"
| "table_line_ok (Inr (v, name, units, rest)) \<longleftrightarrow> columns_ok v name units rest"

fun entries :: "table_text list \<Rightarrow> vinfo list" where
  "entries [] = []"
| "entries (Inl c # ls) = entries ls"
| "entries (Inr e # ls) = fst e # entries ls"

definition table_file :: "table_text list \<Rightarrow> byte list" where
  "table_file ls = concat (map (\<lambda>l. table_line l @ [10]) ls)"

lemma var_line_bytes:
  assumes c: "columns_ok v name units rest"
  defines "l \<equiv> var_line v name units rest"
  shows "length l < 255" "\<forall>b \<in> set l. b \<noteq> 0 \<and> b \<noteq> 10" "l \<noteq> []" "is_digit (hd l)" "\<not> is_c_space (last l)"
proof -
  have v: "var_ok v" using c by (simp add: columns_ok_def)
  then show "length l < 255" using c by (simp add: l_def var_line_def columns_ok_def var_ok_def length_dec_pad)
  have d: "b \<noteq> 0 \<and> b \<noteq> 10" if "0 \<le> x" "b \<in> set (dec_pad 3 x)" for b x
    using dec_pad_scan [OF that(1), of 3] that(2) digit_not_space by blast
  show "\<forall>b \<in> set l. b \<noteq> 0 \<and> b \<noteq> 10" using c v d by (auto simp: l_def var_line_def columns_ok_def var_ok_def)
  show "l \<noteq> []" by (simp add: l_def var_line_def)
  show "is_digit (hd l)" using v dec_pad_scan [of "discpln v" 3] by (auto simp: l_def var_line_def var_ok_def hd_append)
  show "\<not> is_c_space (last l)" using c v by (cases "rest = []") (auto simp: l_def var_line_def columns_ok_def var_ok_def)
qed

lemma fgets_256_line:
  assumes "length l < 255" "\<forall>b \<in> set l. b \<noteq> 0 \<and> b \<noteq> 10"
  shows "fgets_256 (l @ [10] @ inp) = Some (l @ [10], inp)"
proof -
  have t: "take 255 (l @ [10] @ inp) = l @ [10] @ take (254 - length l) inp" using assms(1) by (simp add: take_Cons')
  have w: "takeWhile (\<lambda>b. b \<noteq> 10) (l @ [10] @ r) = l" for r using assms(2) by (subst takeWhile_append2) auto
  have c: "cstr_of (l @ [10]) = l @ [10]" using assms(2) by (auto simp: cstr_of_def takeWhile_eq_all_conv)
  show ?thesis unfolding fgets_256_def Let_def t w using c by simp
qed

lemma trln_comment: "table_line_ok (Inl c) \<Longrightarrow> cfl_trln (table_line (Inl c) @ [10] @ inp) = cfl_trln inp"
  using fgets_256_line [of "33 # c" inp] by (simp add: cfl_trln.simps [of "33 # c @ 10 # inp"] is_data_def is_blank_def)

lemma trln_entry: "table_line_ok (Inr e) \<Longrightarrow> cfl_trln (table_line (Inr e) @ [10] @ inp) = Some (table_line (Inr e), inp)"
proof -
  assume ok: "table_line_ok (Inr e)"
  obtain v name units rest where e: "e = (v, name, units, rest)" by (rule prod_cases4)
  define l where "l = var_line v name units rest"
  note b = var_line_bytes [of v name units rest, folded l_def]
  have c: "columns_ok v name units rest" using ok e by simp
  obtain x xs where x: "l = x # xs" using b(3) [OF c] by (cases l) auto
  have data: "is_data (l @ [10])" using b(4) [OF c] digit_not_space [of x] by (simp add: is_data_def x)
  have "takeWhile is_c_space (rev (l @ [10])) = [10]"
    using b(5) [OF c] b(3) [OF c] by (cases l rule: rev_cases) (simp_all add: is_c_space_def [of 10])
  then have "cst_lstr (l @ [10]) = length l" by (simp add: cst_lstr_def)
  then show ?thesis
    using fgets_256_line [OF b(1,2) [OF c], of inp] data by (simp add: e l_def [symmetric] cfl_trln.simps [of "l @ 10 # inp"])
qed

lemma trln_empty: "cfl_trln [] = None"
  by (simp add: cfl_trln.simps fgets_256_def)

lemma table_lines:
  "\<forall>l \<in> set ls. table_line_ok l \<Longrightarrow>
   cfl_tbnr (table_file ls) = length (entries ls) \<and>
   (\<forall>v0. scan_rows row_var v0 (ctb_lines (length (entries ls)) (table_file ls)) = Some (entries ls))"
proof (induction ls rule: entries.induct)
  case 1
  then show ?case by (simp add: table_file_def cfl_tbnr.simps trln_empty)
next
  case (2 c ls)
  have t: "table_file (Inl c # ls) = table_line (Inl c) @ [10] @ table_file ls" by (simp add: table_file_def)
  have r: "cfl_trln (table_file (Inl c # ls)) = cfl_trln (table_file ls)" unfolding t using 2 by (intro trln_comment) simp
  then have "cfl_tbnr (table_file (Inl c # ls)) = cfl_tbnr (table_file ls)" by (simp add: cfl_tbnr.simps)
  moreover have "ctb_lines n (table_file (Inl c # ls)) = ctb_lines n (table_file ls)" for n by (cases n) (simp_all add: r)
  ultimately show ?case using 2 by simp
next
  case (3 e ls)
  obtain v name units rest where e: "e = (v, name, units, rest)" by (rule prod_cases4)
  have t: "table_file (Inr e # ls) = table_line (Inr e) @ [10] @ table_file ls" by (simp add: table_file_def)
  have r: "cfl_trln (table_file (Inr e # ls)) = Some (table_line (Inr e), table_file ls)" unfolding t using 3 by (intro trln_entry) simp
  have "row_var v0 (table_line (Inr e)) = Some (fst e)" for v0 using 3 by (simp add: e row_var_line)
  then show ?case using 3 r by (simp add: cfl_tbnr.simps [of "table_file (Inr e # ls)"])
qed

lemma table_read:
  assumes "\<forall>l \<in> set ls. table_line_ok l" "entries ls \<noteq> []"
  shows "ctb_g2rdvar v0 (Some (table_file ls)) = Some (Some (entries ls))"
  using table_lines [OF assms(1)] assms(2) by (simp add: ctb_g2rdvar_def read_table_def)

text \<open>
  C29: A table of parameters that is written in the columns of the distributed files, with comments between the entries, is
  read back to its entries, in their order.
\<close>

theorem table_roundtrip:
  assumes "\<forall>l \<in> set ls. table_line_ok l" "entries ls \<noteq> []"
  shows "ctb_g2rdvar v0 (Some (table_file ls)) = Some (Some (entries ls))"
  using assms by (rule table_read)

definition pad_to :: "nat \<Rightarrow> string \<Rightarrow> cstr" where
  "pad_to n s = str s @ replicate (n - length s) 32"

text \<open>The first lines of the local table of NCEP.\<close>

definition demo_vars :: "table_text list" where
  "demo_vars =
     [Inl (str '' GRIB2  - NCEP Local Parameter Table''),
      Inl [],
      Inr (\<lparr>discpln = 0, categry = 0, paramtr = 192, pdtnmbr = 0, gemname = str ''FXSN''\<rparr>,
           pad_to 32 ''Snow Phase Change Heat Flux'', pad_to 20 ''W m**-2'', str ''             0  -9999.00''),
      Inr (\<lparr>discpln = 0, categry = 0, paramtr = 193, pdtnmbr = 0, gemname = str ''TTRAD''\<rparr>,
           pad_to 32 ''Temperature tend by all rad'', pad_to 20 ''K s**-1'', str ''            0  -9999.00'')]"

lemma demo_vars_ok: "\<forall>l \<in> set demo_vars. table_line_ok l"
  by (simp add: demo_vars_def columns_ok_def var_ok_def pad_to_def is_c_space_def)

theorem table_roundtrip_witness:
  "\<exists>v w. ctb_g2rdvar \<lparr>discpln = 0, categry = 0, paramtr = 0, pdtnmbr = 0, gemname = []\<rparr> (Some (table_file demo_vars)) = Some (Some [v, w]) \<and> gemname v = str ''FXSN'' \<and> gemname w = str ''TTRAD''"
  using table_roundtrip [OF demo_vars_ok] by (simp add: demo_vars_def)

text \<open>The local table of NCEP is there, and no other.\<close>

definition demo_local :: tables where
  "demo_local =
     \<lparr>grid_file = (\<lambda>f. if f = str ''g2varsncep1.tbl'' then Some (table_file demo_vars) else None),
      var0 = \<lparr>discpln = 0, categry = 0, paramtr = 0, pdtnmbr = 0, gemname = []\<rparr>,
      lvl0 = \<lparr>id1 = 0, id2 = 0, lv_scale = 0, lv_unit = replicate 20 0, abbrev = []\<rparr>, cntr0 = \<lparr>cn_id = 0, cn_abbrev = []\<rparr>\<rparr>"

theorem missing_table_forgets_witness:
  "\<exists>c'. gb2_gtlclvartbl demo_local (str ''ecmwf'') 1 \<lparr>currtable = str ''g2varsncep1.tbl'', tinfo = entries demo_vars\<rparr> = Some (False, c') \<and>
    gb2_gtlclvartbl demo_local (str ''ncep'') 1 c' = Some (True, c') \<and>
    entries demo_vars \<noteq> [] \<and> gb2_skvar 0 0 192 0 (tinfo c') = None"
proof -
  let ?c = "\<lparr>currtable = str ''g2varsncep1.tbl'', tinfo = entries demo_vars\<rparr>"
  have d: "dec 1 = str ''1''" by (simp add: dec_def digits.simps)
  have "entries demo_vars \<noteq> []" by (simp add: demo_vars_def)
  then have "cache_ok (rdvar demo_local) ?c"
    using table_read [OF demo_vars_ok] by (simp add: cache_ok_def rdvar_def demo_local_def)
  moreover have "rdvar demo_local (str ''g2vars'' @ str ''ecmwf'' @ dec 1 @ str ''.tbl'') = Some None"
    by (simp add: rdvar_def ctb_g2rdvar_def read_table_def demo_local_def d)
  ultimately show ?thesis
    using missing_table_forgets [of demo_local ?c "str ''ncep''" 1 "str ''ecmwf''" 1 0 0 192 0] d by simp
qed

end
