(* ===== verification/Gem_Time.thy ===== *)
theory Gem_Time
  imports Wgrib_Time G2_Unpack
begin

text \<open>
  Times of GRIB edition 2 products: the functions \<open>ti_*\<close> and \<open>tg_itoc\<close> on dates, and \<open>gb2_fcsm\<close> and \<open>gb2_ftim\<close>, in the
  directory \<open>gempak\<close>. A date is the array of five \<open>int\<close>: year, month, day, hour, minute. \<open>None\<close> is undefined behaviour.
\<close>

section \<open>Dates\<close>

type_synonym tiarr = "int \<times> int \<times> int \<times> int \<times> int"

text \<open>An \<open>int\<close> that did not overflow.\<close>

definition in_int :: "int \<Rightarrow> int option" where
  "in_int x = (if - (2 ^ 31) \<le> x \<and> x < 2 ^ 31 then Some x else None)"

lemma in_int_Some [cmem]: "- (2 ^ 31) \<le> x \<Longrightarrow> x < 2 ^ 31 \<Longrightarrow> in_int x = Some x"
  by (simp add: in_int_def)

definition ti_daym :: "int \<Rightarrow> int \<Rightarrow> int" where
  "ti_daym iyear imonth =
     (if imonth = 2
      then (if c_rem iyear 4 = 0 \<and> (c_rem iyear 100 \<noteq> 0 \<or> c_rem iyear 400 = 0) then 29 else 28)
      else if imonth \<in> {1, 3, 5, 7, 8, 10, 12} then 31 else 30)"

definition ti_itoj :: "tiarr \<Rightarrow> int \<times> int" where
  "ti_itoj t = (case t of (y, m, d, _, _) \<Rightarrow> (y, fold (\<lambda>i j. j + ti_daym y i) [1..m - 1] d))"

text \<open>\<open>for ( i=iyr1; i < iyr2; i++)\<close>: the days of the years are added.\<close>

fun add_years :: "nat \<Rightarrow> int \<Rightarrow> int \<Rightarrow> int" where
  "add_years 0 i jday = jday"
| "add_years (Suc n) i jday = add_years n (i + 1) (if ti_daym i 2 = 29 then jday + 365 + 1 else jday + 365)"

definition ti_mdif :: "tiarr \<Rightarrow> tiarr \<Rightarrow> (int \<times> int) option" where
  "ti_mdif t1 t2 =
     (case (t1, t2) of ((iyr1, _, _, h1, mi1), (iyr2, _, _, h2, mi2)) \<Rightarrow>
        if iyr1 < 0 \<or> iyr2 < 0 then Some (- 12, 0)
        else do {
          let jday1 = snd (ti_itoj t1);
          let jday2 = snd (ti_itoj t2);
          let jday2' = (if iyr1 < iyr2 then add_years (nat (iyr2 - iyr1)) iyr1 jday2 else jday2);
          let jday1' = (if iyr2 < iyr1 then add_years (nat (iyr1 - iyr2)) iyr2 jday1 else jday1);
          nmin1 \<leftarrow> in_int (jday1' * 1440 + h1 * 60 + mi1);
          nmin2 \<leftarrow> in_int (jday2' * 1440 + h2 * 60 + mi2);
          nmin \<leftarrow> in_int (nmin1 - nmin2);
          Some (0, nmin)
        })"

text \<open>One day later, as in the loop of \<open>ti_addm\<close>.\<close>

definition ti_next :: "int \<times> int \<times> int \<Rightarrow> int \<times> int \<times> int" where
  "ti_next t =
     (case t of (y, m, d) \<Rightarrow>
        if d = ti_daym y m then (if m + 1 = 13 then (y + 1, 1, 1) else (y, m + 1, 1)) else (y, m, d + 1))"

text \<open>The status, and the array that results; on an error it stays as it is.\<close>

definition ti_addm :: "tiarr \<Rightarrow> int \<Rightarrow> int \<times> tiarr" where
  "ti_addm t imin =
     (case t of (iyear, imonth, iday, ihour, iminut) \<Rightarrow>
        if imin < 0 then (- 16, t)
        else if imonth < 1 \<or> imonth > 12 then (- 8, t)
        else if iyear < 0 then (- 7, t)
        else if iday < 1 \<or> iday > ti_daym iyear imonth then (- 9, t)
        else let jmin = c_rem imin 60; jtmp = quot imin 60;
                 jhr = c_rem jtmp 24; jday = quot jtmp 24;
                 (mi, jhr) = (if iminut + jmin > 59 then (iminut + jmin - 60, jhr + 1) else (iminut + jmin, jhr));
                 (h, jday) = (if ihour + jhr > 23 then (ihour + jhr - 24, jday + 1) else (ihour + jhr, jday));
                 (y, m, d) = (ti_next ^^ nat jday) (iyear, imonth, iday)
             in (0, (if iyear < 100 then c_rem y 100 else y, m, d, h, mi)))"

section \<open>Forecast times\<close>

text \<open>A time in minutes.\<close>

definition gb2_fcsm :: "int \<Rightarrow> int \<Rightarrow> int option" where
  "gb2_fcsm ifcst unit =
     (if unit = 0 then Some ifcst
      else if unit = 1 then in_int (ifcst * 60)
      else if unit = 2 then in_int (ifcst * 60 * 24)
      else if unit = 10 then in_int (ifcst * 3 * 60)
      else if unit = 11 then in_int (ifcst * 6 * 60)
      else if unit = 12 then in_int (ifcst * 12 * 60)
      else if unit = 13 then Some (quot ifcst 60)
      else Some 0)"

definition ftype :: "int \<Rightarrow> cstr" where
  "ftype iftype =
     (if iftype = 0 then str ''A'' else if iftype = 1 then str ''F'' else if iftype = 2 then str ''G''
      else if iftype = 3 then str ''I'' else str ''N'')"

text \<open>\<open>tg_itoc\<close> with a result of at most \<open>len\<close> characters.\<close>

definition tg_itoc :: "int \<times> int \<times> int \<Rightarrow> nat \<Rightarrow> (int \<times> cstr) option" where
  "tg_itoc intdtf len =
     (case intdtf of (d, t, f) \<Rightarrow>
        if d = 0 \<and> t = 0 \<and> f = 0 then Some (- 1, [])
        else do {
          gtemp \<leftarrow> fits_buf 21 (dec_pad 8 d @ str ''/'' @ dec_pad 4 t);
          if f > 0
          then do {
            let iftime = c_rem f 100000;
            fstr \<leftarrow> fits_buf 7 (if c_rem f 100 \<noteq> 0 then ftype (quot f 100000) @ dec_pad 5 iftime
                                else ftype (quot f 100000) @ dec_pad 3 (quot iftime 100));
            gtemp1 \<leftarrow> fits_buf 21 (gtemp @ fstr);
            Some (0, take len gtemp1)
          }
          else Some (0, [])
        })"

definition IMISSD :: int where "IMISSD = - 9999"

definition endloc :: "nat list" where
  "endloc = [0, 0, 0, 0, 0, 0, 0, 0, 15, 22, 16, 18, 17, 31, 30, 0, 0, 0, 0, 0]"

text \<open>The values of a message are \<open>g2int\<close>, 64 bits wide, and are converted to \<open>int\<close>.\<close>

definition rd_int :: "int list \<Rightarrow> nat \<Rightarrow> int option" where
  "rd_int xs i = map_option i32 (rd xs i)"

lemma rd_int_Some: "rd xs i = Some x \<Longrightarrow> rd_int xs i = Some (i32 x)"
  by (simp add: rd_int_def)

text \<open>The forecast and the length of its period in minutes, of a template with a period.\<close>

definition period_times :: "tiarr \<Rightarrow> int list \<Rightarrow> int \<Rightarrow> (int \<times> int) option" where
  "period_times istart tmpl template =
     do {
       let ipos = endloc ! nat template;
       y \<leftarrow> rd_int tmpl ipos; m \<leftarrow> rd_int tmpl (ipos + 1); d \<leftarrow> rd_int tmpl (ipos + 2); h \<leftarrow> rd_int tmpl (ipos + 3);
       mi \<leftarrow> rd_int tmpl (ipos + 4);
       let iend = (y, m, d, h, mi);
       (ier, ifcst) \<leftarrow> ti_mdif iend istart;
       fc \<leftarrow> rd_int tmpl 8;
       unit \<leftarrow> rd_int tmpl 7;
       itmp \<leftarrow> gb2_fcsm fc unit;
       let istart1 = snd (ti_addm istart itmp);
       (ier, iaccm) \<leftarrow> ti_mdif iend istart1;
       Some (ifcst, quot iaccm 60)
     }"

text \<open>The status, the date and time string, and the accumulation time.\<close>

definition gb2_ftim :: "gribfield \<Rightarrow> (int \<times> cstr \<times> int) option" where
  "gb2_ftim gfld =
     do {
       ids \<leftarrow> gf_idsect gfld;
       year \<leftarrow> rd_int ids 5; month \<leftarrow> rd_int ids 6; day \<leftarrow> rd_int ids 7; hour \<leftarrow> rd_int ids 8; minute \<leftarrow> rd_int ids 9;
       let template = i32 (gf_ipdtnum gfld);
       (iret, iafgi, ifcst, iaccm) \<leftarrow>
         (if 0 \<le> template \<and> template \<le> 7
          then do {
            tmpl \<leftarrow> gf_ipdtmpl gfld;
            fc \<leftarrow> rd_int tmpl 8; unit \<leftarrow> rd_int tmpl 7;
            ifcst \<leftarrow> gb2_fcsm fc unit;
            Some (0, 1, ifcst, IMISSD)
          }
          else if 8 \<le> template \<and> template \<le> 14
          then do {
            tmpl \<leftarrow> gf_ipdtmpl gfld;
            (ifcst, iaccm) \<leftarrow> period_times (year, month, day, hour, minute) tmpl template;
            Some (0, 1, ifcst, iaccm)
          }
          else Some (- 27, 0, 0, IMISSD));
       let ihhh = quot ifcst 60;
       let imm = c_rem ifcst 60;
       h100 \<leftarrow> in_int (ihhh * 100);
       f \<leftarrow> in_int (iafgi * 100000 + h100 + imm);
       (ier, gdattm) \<leftarrow> tg_itoc (year * 10000 + month * 100 + day, hour * 100 + minute, f) 20;
       Some (iret, gdattm, iaccm)
     }"

section \<open>The calendar\<close>

definition real_time :: "tiarr \<Rightarrow> bool" where
  "real_time t = (case t of (y, m, d, h, mi) \<Rightarrow> real_date (y, m, d) \<and> 0 \<le> h \<and> h < 24 \<and> 0 \<le> mi \<and> mi < 60)"

text \<open>The minute of a time, and the time some minutes later.\<close>

definition minute_number :: "tiarr \<Rightarrow> int" where
  "minute_number t = (case t of (y, m, d, h, mi) \<Rightarrow> day_number (y, m, d) * 1440 + h * 60 + mi)"

definition later :: "tiarr \<Rightarrow> int \<Rightarrow> tiarr" where
  "later t n =
     (case t of (y, m, d, h, mi) \<Rightarrow>
        let k = h * 60 + mi + n
        in case (next_day ^^ nat (k div 1440)) (y, m, d) of (y1, m1, d1) \<Rightarrow> (y1, m1, d1, k mod 1440 div 60, k mod 60))"

lemma minutes_split: "(k::int) = 1440 * a + 60 * b + c \<Longrightarrow> 0 \<le> b \<Longrightarrow> b < 24 \<Longrightarrow> 0 \<le> c \<Longrightarrow> c < 60 \<Longrightarrow>
    k div 1440 = a \<and> k mod 1440 div 60 = b \<and> k mod 60 = c"
proof (intro conjI)
  assume k: "k = 1440 * a + 60 * b + c" "0 \<le> b" "b < 24" "0 \<le> c" "c < 60"
  show a: "k div 1440 = a" by (rule int_div_pos_eq [of _ _ _ "60 * b + c"]) (use k in simp_all)
  have "k mod 1440 = 60 * b + c" by (rule int_mod_pos_eq [of _ _ a]) (use k in simp_all)
  then show "k mod 1440 div 60 = b" using int_div_pos_eq [of "60 * b + c" 60 b c] k by simp
  show "k mod 60 = c" by (rule int_mod_pos_eq [of _ _ "24 * a + b"]) (use k in simp_all)
qed

lemma later_real:
  assumes "real_time t" "0 \<le> n"
  shows "real_time (later t n) \<and> minute_number (later t n) = minute_number t + n"
proof -
  obtain y m d h mi where t: "t = (y, m, d, h, mi)" by (rule prod_cases5)
  define k where "k = h * 60 + mi + n"
  obtain y1 m1 d1 where e: "(next_day ^^ nat (k div 1440)) (y, m, d) = (y1, m1, d1)" by (rule prod_cases3)
  have r: "real_date (y, m, d)" "0 \<le> k" using assms by (simp_all add: t real_time_def k_def)
  have d: "real_date (y1, m1, d1)" "day_number (y1, m1, d1) = day_number (y, m, d) + k div 1440"
    using next_days_real [OF r(1), of "nat (k div 1440)"] r(2) by (simp_all add: e)
  define q r H MI where "q = k div 1440" and "r = k mod 1440" and "H = r div 60" and "MI = k mod 60"
  have "r mod 60 = MI" unfolding r_def MI_def by (rule mod_mod_cancel) simp
  moreover have "r = 60 * H + r mod 60" by (simp add: H_def)
  ultimately have "r = 60 * H + MI" by simp
  moreover have "k = 1440 * q + r" by (simp add: q_def r_def)
  ultimately have k: "k = 1440 * q + r" "r = 60 * H + MI" by blast+
  have "0 \<le> r" "r < 1440" "0 \<le> MI" "MI < 60" by (simp_all add: r_def MI_def)
  with k(2) have b: "0 \<le> H" "H < 24" "0 \<le> MI" "MI < 60" by simp_all
  have "later t n = (y1, m1, d1, H, MI)"
    unfolding later_def t prod.case k_def [symmetric] Let_def e by (simp add: H_def r_def MI_def)
  moreover have "day_number (y1, m1, d1) * 1440 + H * 60 + MI = day_number (y, m, d) * 1440 + k"
    unfolding d(2) q_def [symmetric] using k by simp
  ultimately show ?thesis using d(1) b by (simp add: t real_time_def minute_number_def) (simp add: k_def)
qed

section \<open>The functions on dates are the calendar\<close>

lemma ti_daym_month: "0 \<le> y \<Longrightarrow> 1 \<le> m \<Longrightarrow> m \<le> 12 \<Longrightarrow> ti_daym y m = month_length y m"
  using twelve_months [of m] by (auto simp: ti_daym_def month_length_def c_rem_pos mod_eq_0_iff_dvd)

lemma ti_next_day: "real_date t \<Longrightarrow> ti_next t = next_day t"
  by (cases t) (auto simp: ti_next_def next_day.simps real_date_def ti_daym_month)

lemma ti_next_days: "real_date t \<Longrightarrow> (ti_next ^^ n) t = (next_day ^^ n) t"
  by (induction n) (simp_all add: ti_next_day next_days_real)

lemma months_before: "0 \<le> y \<Longrightarrow> int k < 12 \<Longrightarrow> fold (\<lambda>i j. j + ti_daym y i) [1..int k] d = d + before_month y (1 + int k)"
proof (induction k)
  case (Suc k)
  have "[1..int (Suc k)] = [1..int k] @ [int k + 1]" using upto_rec2 [of 1 "int k + 1"] by (simp add: ac_simps)
  then show ?case
    using Suc before_month_Suc [of y "1 + int k"] ti_daym_month [of y "1 + int k"] by (simp add: ac_simps)
qed simp

lemma ti_itoj_day: "real_date (y, m, d) \<Longrightarrow> ti_itoj (y, m, d, h, mi) = (y, day_of_year (y, m, d))"
  using months_before [of y "nat (m - 1)" d] by (simp add: ti_itoj_def real_date_def day_of_year_eq)

lemma add_years_days: "1 \<le> i \<Longrightarrow> add_years n i j = j + (year_days (i + int n) - year_days i)"
proof (induction n arbitrary: i j)
  case (Suc n)
  have "ti_daym i 2 = 28 + leap i" using Suc.prems by (simp add: ti_daym_month month_length_leap)
  then show ?case
    using Suc.IH [of "i + 1"] Suc.prems leap_cases [of i] year_days_Suc [of i] by (auto simp: ac_simps)
qed simp

lemma ti_mdif_minutes:
  assumes "real_time a" "real_time b" and d: "\<bar>minute_number a - minute_number b\<bar> < 2 ^ 30"
  shows "ti_mdif a b = Some (0, minute_number a - minute_number b)"
proof -
  obtain y m d h mi where a: "a = (y, m, d, h, mi)" by (rule prod_cases5)
  obtain y' m' d' h' mi' where b: "b = (y', m', d', h', mi')" by (rule prod_cases5)
  have ra: "real_date (y, m, d)" "1 \<le> y" "0 \<le> h" "h < 24" "0 \<le> mi" "mi < 60"
    and rb: "real_date (y', m', d')" "1 \<le> y'" "0 \<le> h'" "h' < 24" "0 \<le> mi'" "mi' < 60"
    using assms(1,2) by (simp_all add: a b real_time_def real_date_def)
  note da = year_of_date [OF ra(1)] and db = year_of_date [OF rb(1)]
  let ?y0 = "year_days (min y y')"
  have ja: "(if y' < y then add_years (nat (y - y')) y' (day_of_year (y, m, d)) else day_of_year (y, m, d)) = day_number (y, m, d) - ?y0"
    using rb(2) by (simp add: add_years_days day_number_def)
  have jb: "(if y < y' then add_years (nat (y' - y)) y (day_of_year (y', m', d')) else day_of_year (y', m', d')) = day_number (y', m', d') - ?y0"
    using ra(2) by (simp add: add_years_days day_number_def)
  define A B where "A = (day_number (y, m, d) - ?y0) * 1440 + h * 60 + mi"
    and "B = (day_number (y', m', d') - ?y0) * 1440 + h' * 60 + mi'"
  have AB: "A - B = minute_number a - minute_number b" by (simp add: A_def B_def a b minute_number_def algebra_simps)
  have "y' \<le> y \<Longrightarrow> year_days y' \<le> year_days y" "y \<le> y' \<Longrightarrow> year_days y \<le> year_days y'"
    using year_days_mono [of y' "nat (y - y')"] year_days_mono [of y "nat (y' - y)"] ra(2) rb(2) by simp_all
  then have pos: "0 \<le> A" "0 \<le> B"
    using da db ra rb leap_cases [of y] leap_cases [of y']
    by (auto simp: A_def B_def day_number_def min_def)
  have "A < 600000 \<or> B < 600000"
    using da db ra rb leap_cases [of y] leap_cases [of y'] by (auto simp: A_def B_def day_number_def min_def)
  with pos AB d have "in_int A = Some A" "in_int B = Some B" "in_int (A - B) = Some (A - B)"
    by (auto intro!: in_int_Some)
  then show ?thesis
    using ra(2) rb(2) AB unfolding ti_mdif_def a b prod.case ti_itoj_day [OF ra(1)] ti_itoj_day [OF rb(1)] snd_conv Let_def ja jb A_def [symmetric] B_def [symmetric]
    by simp
qed

lemma ti_addm_later:
  assumes t: "real_time t" "100 \<le> fst t" and n: "0 \<le> n"
  shows "ti_addm t n = (0, later t n)"
proof -
  obtain y m d h mi where e: "t = (y, m, d, h, mi)" by (rule prod_cases5)
  have r: "real_date (y, m, d)" "100 \<le> y" "0 \<le> h" "h < 24" "0 \<le> mi" "mi < 60" using t by (simp_all add: e real_time_def)
  have ok: "\<not> (m < 1 \<or> m > 12)" "\<not> y < 0" "\<not> (d < 1 \<or> d > ti_daym y m)"
    using r by (auto simp: real_date_def ti_daym_month)
  define r1 q1 r2 q2 where "r1 = n mod 60" and "q1 = n div 60" and "r2 = q1 mod 24" and "q2 = q1 div 24"
  then have n1: "n = 60 * q1 + r1" "q1 = 24 * q2 + r2" by simp_all
  define a where "a = mi + r1"
  define MI where "MI = (if a > 59 then a - 60 else a)"
  define b where "b = h + (if a > 59 then r2 + 1 else r2)"
  define H where "H = (if b > 23 then b - 24 else b)"
  define K where "K = (if b > 23 then q2 + 1 else q2)"
  have k: "h * 60 + mi + n = 1440 * K + 60 * H + MI" unfolding n1 by (auto simp: a_def MI_def b_def H_def K_def)
  have "0 \<le> r1" "r1 < 60" "0 \<le> r2" "r2 < 24" by (simp_all add: r1_def r2_def)
  then have "0 \<le> MI" "MI < 60" "0 \<le> H" "H < 24" using r by (auto simp: a_def MI_def b_def H_def)
  note s = minutes_split [OF k this(3,4,1,2)]
  have q: "c_rem n 60 = r1" "quot n 60 = q1" "c_rem q1 24 = r2" "quot q1 24 = q2"
    using n by (simp_all add: c_rem_pos quot_pos r1_def q1_def r2_def q2_def)
  show ?thesis
    using n ok r(2) s unfolding ti_addm_def later_def e prod.case Let_def q ti_next_days [OF r(1)]
    by (simp add: MI_def H_def K_def a_def b_def split: prod.splits)
qed

text \<open>
  Adding minutes to a date and subtracting the date again gives the minutes, over months and leap years.
\<close>

theorem ti_addm_mdif:
  assumes "real_time t" "100 \<le> fst t" "0 \<le> n" "n < 2 ^ 30"
  shows "case ti_addm t n of (ier, t') \<Rightarrow> ier = 0 \<and> real_time t' \<and> ti_mdif t' t = Some (0, n)"
  using ti_mdif_minutes [of "later t n" t] later_real [of t n] assms by (simp add: ti_addm_later)

theorem ti_addm_mdif_witness: "ti_mdif (snd (ti_addm (2011, 12, 31, 23, 30) 86400)) (2011, 12, 31, 23, 30) = Some (0, 86400)"
  using ti_addm_mdif [of "(2011, 12, 31, 23, 30)" 86400] by (simp add: real_time_def real_date_def month_length_def split: prod.splits)

section \<open>Forecasts of a period\<close>

lemma digits_5: "n < 100000 \<Longrightarrow> length (digits n) \<le> 5"
  using length_digits_le [of n 5] by simp

text \<open>The string for a date, and a forecast with full hours or with minutes.\<close>

definition forecast_text :: "tiarr \<Rightarrow> int \<Rightarrow> cstr" where
  "forecast_text t f =
     (case t of (y, m, d, h, mi) \<Rightarrow>
        dec_pad 8 (y * 10000 + m * 100 + d) @ str ''/'' @ dec_pad 4 (h * 100 + mi) @ str ''F'' @
        (if f mod 60 = 0 then dec_pad 3 (f div 60) else dec_pad 5 (f div 60 * 100 + f mod 60)))"

lemma month_length_le: "month_length y m \<le> 31"
  by (simp add: month_length_def)

lemma tg_itoc_forecast:
  assumes "real_time (y, m, d, h, mi)" "y < 10000" "0 \<le> f" "f < 60000"
  shows "tg_itoc (y * 10000 + m * 100 + d, h * 100 + mi, 100000 + f div 60 * 100 + f mod 60) 20 = Some (0, forecast_text (y, m, d, h, mi) f)"
proof -
  have r: "1 \<le> y" "1 \<le> m" "m \<le> 12" "1 \<le> d" "d \<le> 31" "0 \<le> h" "h < 24" "0 \<le> mi" "mi < 60"
    using assms(1) month_length_le [of y m] by (auto simp: real_time_def real_date_def)
  define a b F where "a = f div 60" and "b = f mod 60" and "F = 100000 + a * 100 + b"
  have ab: "0 \<le> a" "a < 1000" "0 \<le> b" "b < 60" using assms(3,4) by (auto simp: a_def b_def)
  have l: "length (dec_pad 8 (y * 10000 + m * 100 + d)) = 8" "length (dec_pad 4 (h * 100 + mi)) = 4"
    "length (dec_pad 3 a) = 3" "length (dec_pad 5 (a * 100 + b)) = 5"
    using r assms(2) ab by (auto intro!: length_dec_pad)
  have F: "0 < F" "F = 100000 * 1 + (a * 100 + b)" "F = 100 * (1000 + a) + b" "a * 100 + b < 100000" using ab by (simp_all add: F_def)
  have Fd: "F div 100000 = 1" "F mod 100000 = a * 100 + b" "F mod 100 = b"
    using int_div_pos_eq [OF F(2)] int_mod_pos_eq [OF F(2)] int_mod_pos_eq [OF F(3)] F(4) ab by simp_all
  have q: "quot F 100000 = 1" "c_rem F 100000 = a * 100 + b" "c_rem F 100 = b" "quot (a * 100 + b) 100 = (a * 100 + b) div 100"
    using F(1) Fd ab by (simp_all add: quot_pos c_rem_pos)
  have q2: "(a * 100 + b) div 100 = a" using ab by (intro int_div_pos_eq [of _ _ _ b]) simp_all
  have f: "fits_buf 21 (dec_pad 8 (y * 10000 + m * 100 + d) @ str ''/'' @ dec_pad 4 (h * 100 + mi)) =
    Some (dec_pad 8 (y * 10000 + m * 100 + d) @ str ''/'' @ dec_pad 4 (h * 100 + mi))" using l by (simp add: fits_buf_def)
  have n: "y * 10000 + m * 100 + d \<noteq> 0" using r by simp
  show ?thesis
    unfolding a_def [symmetric] b_def [symmetric] F_def [symmetric] tg_itoc_def prod.case forecast_text_def q f Let_def
    using n F(1) l by (auto simp: q q2 fits_buf_def ftype_def)
qed

text \<open>The product definition template of a forecast of some minutes, with or without a period.\<close>

definition at_end :: "int list \<Rightarrow> int \<Rightarrow> tiarr \<Rightarrow> bool" where
  "at_end tmpl template t =
     (let ipos = endloc ! nat template
      in case t of (y, m, d, h, mi) \<Rightarrow> ipos + 5 \<le> length tmpl \<and> map i32 (take 5 (drop ipos tmpl)) = [y, m, d, h, mi])"

lemma at_endD:
  assumes "at_end tmpl template (y, m, d, h, mi)"
  defines "p \<equiv> endloc ! nat template"
  shows "rd_int tmpl p = Some y" "rd_int tmpl (p + 1) = Some m" "rd_int tmpl (p + 2) = Some d" "rd_int tmpl (p + 3) = Some h" "rd_int tmpl (p + 4) = Some mi"
proof -
  have l: "p + 5 \<le> length tmpl" and t: "map i32 (take 5 (drop p tmpl)) = [y, m, d, h, mi]"
    using assms by (simp_all add: at_end_def Let_def)
  have "i32 (tmpl ! (p + i)) = [y, m, d, h, mi] ! i" if "i < 5" for i
    using that l arg_cong [OF t, of "\<lambda>x. x ! i"] by simp
  from this [of 0] this [of 1] this [of 2] this [of 3] this [of 4] l
  show "rd_int tmpl p = Some y" "rd_int tmpl (p + 1) = Some m" "rd_int tmpl (p + 2) = Some d" "rd_int tmpl (p + 3) = Some h" "rd_int tmpl (p + 4) = Some mi"
    by (simp_all add: rd_int_def rd_def numeral_nat)
qed

text \<open>The time of reference is not changed by the conversion.\<close>

lemma ids_int:
  assumes "real_time (y, m, d, h, mi)" "y < 10000"
  defines "ids \<equiv> \<lambda>a b c e k rest. a # b # c # e # k # y # m # d # h # mi # rest"
  shows "rd_int (ids a b c e k rest) 5 = Some y" "rd_int (ids a b c e k rest) 6 = Some m" "rd_int (ids a b c e k rest) 7 = Some d"
    "rd_int (ids a b c e k rest) 8 = Some h" "rd_int (ids a b c e k rest) 9 = Some mi"
proof -
  have "1 \<le> y" "1 \<le> m" "m \<le> 12" "1 \<le> d" "d \<le> 31" "0 \<le> h" "h < 24" "0 \<le> mi" "mi < 60"
    using assms(1) month_length_le [of y m] by (auto simp: real_time_def real_date_def)
  then have "i32 y = y" "i32 m = m" "i32 d = d" "i32 h = h" "i32 mi = mi" using assms(2) by (simp_all add: i32_id)
  then show "rd_int (ids a b c e k rest) 5 = Some y" "rd_int (ids a b c e k rest) 6 = Some m" "rd_int (ids a b c e k rest) 7 = Some d"
    "rd_int (ids a b c e k rest) 8 = Some h" "rd_int (ids a b c e k rest) 9 = Some mi"
    by (simp_all add: rd_int_def ids_def rd_def)
qed

lemma gb2_ftim_period:
  assumes ids: "gf_idsect g = Some (a # b # c # e # k # y # m # d # h # mi # rest)" and t: "real_time (y, m, d, h, mi)" "100 \<le> y" "y < 10000"
    and tmpl: "gf_ipdtmpl g = Some tmpl" "8 \<le> gf_ipdtnum g" "gf_ipdtnum g \<le> 14"
    and fc: "rd tmpl 8 = Some v" "rd tmpl 7 = Some unit" "gb2_fcsm (i32 v) (i32 unit) = Some f" "0 \<le> f" "0 \<le> p" "f + p < 60000"
    and e: "at_end tmpl (gf_ipdtnum g) (later (y, m, d, h, mi) (f + p))"
  shows "gb2_ftim g = Some (0, forecast_text (y, m, d, h, mi) (f + p), p div 60)"
proof -
  let ?t = "(y, m, d, h, mi)"
  obtain y' m' d' h' mi' where l: "later ?t (f + p) = (y', m', d', h', mi')" by (rule prod_cases5)
  note le = later_real [OF t(1), of "f + p", unfolded l] and ls = later_real [OF t(1) fc(4)]
  have ad: "ti_addm ?t f = (0, later ?t f)" using ti_addm_later [OF t(1) _ fc(4)] t(2) by simp
  have m1: "ti_mdif (later ?t (f + p)) ?t = Some (0, f + p)"
    using ti_mdif_minutes [of "later ?t (f + p)" ?t] le t(1) fc(4-6) by (simp add: l)
  have m2: "ti_mdif (later ?t (f + p)) (later ?t f) = Some (0, p)"
    using ti_mdif_minutes [of "later ?t (f + p)" "later ?t f"] le ls fc(4-6) by (simp add: l)
  have pt: "period_times ?t tmpl (gf_ipdtnum g) = Some (f + p, p div 60)"
    using at_endD [OF e [unfolded l]] m1 m2 rd_int_Some [OF fc(1)] rd_int_Some [OF fc(2)] fc(3,5) ad by (simp add: period_times_def Let_def l quot_pos)
  define F H M where "F = f + p" and "H = F div 60" and "M = F mod 60"
  have F: "0 \<le> H" "H < 1000" "0 \<le> M" "M < 60" "0 \<le> F" using fc(4-6) by (auto simp: F_def H_def M_def)
  note r = ids_int [OF t(1,3), of a b c e k rest]
  have q: "quot F 60 = H" "c_rem F 60 = M" using F(5) by (simp_all add: quot_pos c_rem_pos H_def M_def)
  have i: "in_int (H * 100) = Some (H * 100)" "in_int (100000 + H * 100 + M) = Some (100000 + H * 100 + M)"
    using F by (simp_all add: in_int_def)
  have tg: "tg_itoc (y * 10000 + m * 100 + d, h * 100 + mi, 100000 + H * 100 + M) 20 = Some (0, forecast_text ?t F)"
    unfolding H_def M_def using fc(6) F(5) by (intro tg_itoc_forecast [OF t(1,3)]) (simp_all add: F_def)
  show ?thesis
    unfolding gb2_ftim_def F_def [symmetric] using tmpl pt by (simp add: ids r q i tg F_def [symmetric] Let_def i32_id)
qed

text \<open>
  C22: The date and time of a forecast with a period, such as a sum of rain: when the end of the period in the message is the
  time of reference with the forecast and the period added, on the calendar, the string names the end of the period, and the
  accumulation time is the period in hours.
\<close>

theorem forecast_period:
  assumes "gf_idsect g = Some (a # b # c # e # k # y # m # d # h # mi # rest)" "real_time (y, m, d, h, mi)" "100 \<le> y" "y < 10000"
    and "gf_ipdtmpl g = Some tmpl" "8 \<le> gf_ipdtnum g" "gf_ipdtnum g \<le> 14"
    and "rd tmpl 8 = Some v" "rd tmpl 7 = Some unit" "gb2_fcsm (i32 v) (i32 unit) = Some f" "0 \<le> f" "0 \<le> p" "f + p < 60000"
    and "at_end tmpl (gf_ipdtnum g) (later (y, m, d, h, mi) (f + p))"
  shows "gb2_ftim g = Some (0, forecast_text (y, m, d, h, mi) (f + p), p div 60)"
  using assms by (rule gb2_ftim_period)

text \<open>
  A forecast of 1000 hours or more carries into the digit of the type: it is printed as type \<open>G\<close>, a guess, and the
  thousand hours are gone.
\<close>

theorem long_forecast_is_guess:
  assumes t: "real_time (y, m, d, h, mi)" "y < 10000" "gf_idsect g = Some (a # b # c # e # k # y # m # d # h # mi # rest)"
    and g: "0 \<le> gf_ipdtnum g" "gf_ipdtnum g \<le> 7" "gf_ipdtmpl g = Some tmpl" "rd tmpl 8 = Some hours" "rd tmpl 7 = Some 1"
    and hours: "1000 \<le> hours" "hours < 2000"
  shows "gb2_ftim g =
    Some (0, dec_pad 8 (y * 10000 + m * 100 + d) @ str ''/'' @ dec_pad 4 (h * 100 + mi) @ str ''G'' @ dec_pad 3 (hours - 1000), IMISSD)"
proof -
  define n where "n = hours - 1000"
  have n: "0 \<le> n" "n < 1000" "hours = 1000 + n" using hours by (simp_all add: n_def)
  have r: "1 \<le> y" "1 \<le> m" "m \<le> 12" "1 \<le> d" "d \<le> 31" "0 \<le> h" "h < 24" "0 \<le> mi" "mi < 60"
    using t(1) month_length_le [of y m] by (auto simp: real_time_def real_date_def)
  have l: "length (dec_pad 8 (y * 10000 + m * 100 + d)) = 8" "length (dec_pad 4 (h * 100 + mi)) = 4" "length (dec_pad 3 n) = 3"
    using r t(2) n by (auto intro!: length_dec_pad)
  have q: "quot (hours * 60) 60 = hours" "c_rem (hours * 60) 60 = 0" using n by (simp_all add: quot_pos c_rem_pos)
  have i: "gb2_fcsm hours 1 = Some (hours * 60)" "in_int (hours * 100) = Some (hours * 100)"
      "in_int (100000 + hours * 100) = Some (200000 + n * 100)"
    using n by (simp_all add: gb2_fcsm_def in_int_def)
  have f: "fits_buf 21 (dec_pad 8 (y * 10000 + m * 100 + d) @ str ''/'' @ dec_pad 4 (h * 100 + mi)) =
    Some (dec_pad 8 (y * 10000 + m * 100 + d) @ str ''/'' @ dec_pad 4 (h * 100 + mi))" using l by (simp add: fits_buf_def)
  have F: "200000 + n * 100 = 100000 * 2 + n * 100" "200000 + n * 100 = 100 * (2000 + n) + 0" "n * 100 < 100000" using n by simp_all
  have Fd: "quot (200000 + n * 100) 100000 = 2" "c_rem (200000 + n * 100) 100000 = n * 100" "c_rem (200000 + n * 100) 100 = 0" "quot (n * 100) 100 = n"
    using int_div_pos_eq [OF F(1)] int_mod_pos_eq [OF F(1)] int_mod_pos_eq [OF F(2)] n by (simp_all add: quot_pos c_rem_pos)
  have tg: "tg_itoc (y * 10000 + m * 100 + d, h * 100 + mi, 200000 + n * 100) 20 =
    Some (0, dec_pad 8 (y * 10000 + m * 100 + d) @ str ''/'' @ dec_pad 4 (h * 100 + mi) @ str ''G'' @ dec_pad 3 n)"
    unfolding tg_itoc_def prod.case f Let_def Fd using n(1) r l by (simp add: fits_buf_def ftype_def)
  have h: "rd_int tmpl 8 = Some hours" "rd_int tmpl 7 = Some 1" using g(4,5) n by (simp_all add: rd_int_def i32_id)
  show ?thesis
    unfolding gb2_ftim_def n_def [symmetric] using g h t(3) by (simp add: ids_int [OF t(1,2)] q i tg Let_def i32_id)
qed

definition demo_forecast :: "int \<Rightarrow> int list \<Rightarrow> gribfield" where
  "demo_forecast num tmpl =
     \<lparr>gf_version = 2, gf_discipline = 0, gf_idsect = Some [7, 0, 2, 1, 1, 2011, 12, 31, 18, 0, 0, 0, 1], gf_idsectlen = 13, gf_local = None,
      gf_locallen = 0, gf_ifldnum = 1, gf_griddef = 0, gf_ngrdpts = 0, gf_numoct_opt = 0, gf_interp_opt = 0, gf_num_opt = 0,
      gf_list_opt = None, gf_igdtnum = 0, gf_igdtlen = 0, gf_igdtmpl = None, gf_ipdtnum = num, gf_ipdtlen = int (length tmpl),
      gf_ipdtmpl = Some tmpl, gf_num_coord = 0, gf_coord_list = None, gf_ndpts = 0, gf_idrtnum = 0, gf_idrtlen = 0, gf_idrtmpl = None,
      gf_unpacked = 0, gf_expanded = 0, gf_ibmap = 255, gf_bmap = None, gf_fld = None\<rparr>"

theorem long_forecast_is_guess_witness:
  "gb2_ftim (demo_forecast 0 [3, 5, 2, 0, 96, 0, 0, 1, 1080, 100, 0, 50000, 255, 0, 0]) = Some (0, str ''20111231/1800G080'', IMISSD)"
proof -
  let ?t = "[3, 5, 2, 0, 96, 0, 0, 1, 1080, 100, 0, 50000, 255, 0, 0] :: int list"
  have "real_time (2011, 12, 31, 18, 0)" by (simp add: real_time_def real_date_def month_length_def)
  moreover have "gf_idsect (demo_forecast 0 ?t) = Some (7 # 0 # 2 # 1 # 1 # 2011 # 12 # 31 # 18 # 0 # [0, 0, 1])" by (simp add: demo_forecast_def)
  moreover have "rd ?t 8 = Some 1080" "rd ?t 7 = Some 1" by (simp_all add: rd_def)
  ultimately show ?thesis
    using long_forecast_is_guess [of 2011 12 31 18 0 "demo_forecast 0 ?t" 7 0 2 1 1 "[0, 0, 1]" ?t 1080]
    by (simp add: demo_forecast_def dec_pad_def digits.simps)
qed

theorem forecast_period_witness:
  "gb2_ftim (demo_forecast 8 ([1, 8, 2, 0, 96, 0, 0, 1, 6, 1, 0, 0, 255, 0, 0] @ [2012, 1, 1, 6, 0, 0] @ replicate 8 0)) =
    Some (0, str ''20111231/1800F012'', 6)"
proof -
  let ?t = "[1, 8, 2, 0, 96, 0, 0, 1, 6, 1, 0, 0, 255, 0, 0] @ [2012, 1, 1, 6, 0, 0] @ replicate 8 0 :: int list"
  have "real_time (2011, 12, 31, 18, 0)" by (simp add: real_time_def real_date_def month_length_def)
  moreover have "gf_idsect (demo_forecast 8 ?t) = Some (7 # 0 # 2 # 1 # 1 # 2011 # 12 # 31 # 18 # 0 # [0, 0, 1])" by (simp add: demo_forecast_def)
  moreover have "rd ?t 8 = Some 6" "rd ?t 7 = Some 1" "gb2_fcsm (i32 6) (i32 1) = Some 360" by (simp_all add: rd_def gb2_fcsm_def in_int_def i32_id)
  moreover have "later (2011, 12, 31, 18, 0) (360 + 360) = (2012, 1, 1, 6, 0)" by (simp add: later_def next_day.simps month_length_def)
  then have "at_end ?t 8 (later (2011, 12, 31, 18, 0) (360 + 360))" unfolding at_end_def endloc_def by (simp add: i32_id)
  ultimately show ?thesis
    using forecast_period [of "demo_forecast 8 ?t" 7 0 2 1 1 2011 12 31 18 0 "[0, 0, 1]" ?t 6 1 360 360]
    by (simp add: demo_forecast_def forecast_text_def dec_pad_def digits.simps)
qed

end
