(* ===== verification/Gem_Names.thy ===== *)
theory Gem_Names
  imports Gem_Tables Gem_Time
begin

text \<open>
  What GEMPAK makes of a field of a GRIB edition 2 message: the name of its parameter (\<open>gb2_param\<close> with \<open>gb2_ctim\<close>,
  \<open>gb2_prob\<close>, \<open>gb2_proc\<close>), its level (\<open>gb2_vcrd\<close>, \<open>gb2_vlev\<close>), and all of it together (\<open>gb2_2gem\<close>).
\<close>

section \<open>The surroundings\<close>

text \<open>
  Arithmetic on \<open>float\<close> is a parameter, with a \<open>float\<close> as its 32 bits: \<open>scaled v s\<close> is \<open>(float)v * pow(10, -s)\<close> as a
  \<open>float\<close>, \<open>to_level x s\<close> is \<open>(int)rint(x * pow(10, s))\<close>, and \<open>to_int x\<close> is \<open>(int)x\<close>. \<open>wmocntr0\<close> and \<open>abbrev0\<close> are what
  two arrays contain before they are set.
\<close>

type_synonym f32 = "32 word"

record gempak =
  g_tables :: tables
  decode_g2gnum :: "gribfield \<Rightarrow> int"
  scaled :: "int \<Rightarrow> int \<Rightarrow> f32"
  to_level :: "f32 \<Rightarrow> int \<Rightarrow> int"
  to_int :: "f32 \<Rightarrow> int"
  wmocntr0 :: "byte list"
  abbrev0 :: "byte list"

definition f32_zero :: f32 where "f32_zero = 0"
definition f32_minus1 :: f32 where "f32_minus1 = 0xBF800000"

text \<open>The static variables of the functions that get tables.\<close>

record gstate =
  st_cntr :: "center cache"
  st_wmovar :: "vinfo cache"
  st_lclvar :: "vinfo cache"
  st_wmolvl :: "level cache"
  st_lcllvl :: "level cache"

definition empty_cache :: "'a cache" where
  "empty_cache = \<lparr>currtable = [], tinfo = []\<rparr>"

definition gstate0 :: gstate where
  "gstate0 = \<lparr>st_cntr = empty_cache, st_wmovar = empty_cache, st_lclvar = empty_cache, st_wmolvl = empty_cache, st_lcllvl = empty_cache\<rparr>"

record geminfo =
  gm_parm :: cstr
  gm_gdattm1 :: cstr
  gm_gdattm2 :: cstr
  gm_level0 :: int
  gm_level1 :: int
  gm_vcord :: int
  gm_unit :: cstr

section \<open>The name of a parameter\<close>

text \<open>The arrays for the name have 13 bytes.\<close>

definition gb2_ctim :: "int \<Rightarrow> cstr \<Rightarrow> cstr option" where
  "gb2_ctim time param =
     (let ctim = (if time \<noteq> IMISSD then (if 0 \<le> time \<and> time < 10 then dec_pad 2 time else dec time) else str ''XX'')
      in if str_find param (str ''--'') \<noteq> None then fits_buf 13 (cst_rpst param (str ''--'') ctim)
         else if time > 0 then map_option (\<lambda>_. cst_ncat param ctim) (fits_buf 13 (ncat_raw param ctim))
         else Some param)"

text \<open>\<open>strncat ( param, cpds, 12 - strlen(param) )\<close>.\<close>

definition cat12 :: "cstr \<Rightarrow> cstr \<Rightarrow> cstr" where
  "cat12 param cpds = param @ take (12 - length param) cpds"

definition gb2_prob :: "gempak \<Rightarrow> gribfield \<Rightarrow> cstr \<Rightarrow> cstr option" where
  "gb2_prob G gfld param =
     (if gf_ipdtnum gfld = 5 \<or> gf_ipdtnum gfld = 9
      then do {
        tmpl \<leftarrow> gf_ipdtmpl gfld;
        prob_type \<leftarrow> rd_int tmpl 17;
        cpds \<leftarrow>
          (if prob_type = 0
           then do { s \<leftarrow> rd tmpl 18; v \<leftarrow> rd tmpl 19; Some (dec_pad 4 (to_int G (scaled G v s)) @ str ''PB'') }
           else if prob_type = 1
           then do { s \<leftarrow> rd tmpl 20; v \<leftarrow> rd tmpl 21; Some (dec_pad 4 (to_int G (scaled G v s)) @ str ''PA'') }
           else if prob_type = 2
           then do { s \<leftarrow> rd tmpl 18; v \<leftarrow> rd tmpl 19; s' \<leftarrow> rd tmpl 20; v' \<leftarrow> rd tmpl 21;
                     Some (dec_pad 4 (to_int G (scaled G v s)) @ dec_pad 4 (to_int G (scaled G v' s'))) }
           else Some []);
        Some (cat12 param cpds)
      }
      else Some param)"

definition gb2_proc :: "gribfield \<Rightarrow> cstr \<Rightarrow> cstr option" where
  "gb2_proc gfld param =
     (if gf_ipdtnum gfld = 0
      then do {
        tmpl \<leftarrow> gf_ipdtmpl gfld;
        p \<leftarrow> rd tmpl 2;
        Some (cat12 param (if p = 6 then str ''FERR'' else if p = 7 then str ''AERR'' else []))
      }
      else Some param)"

text \<open>The entry of the parameter, in the table of the WMO or the local one; the inner \<open>None\<close> is that there is none.\<close>

definition var_lookup :: "gempak \<Rightarrow> cstr \<Rightarrow> int \<times> int \<Rightarrow> int \<times> int \<times> int \<times> int \<Rightarrow> gstate \<Rightarrow> (vinfo option \<times> gstate) option" where
  "var_lookup G origcntr vers key s =
     (case (vers, key) of ((iver, lclver), (disc, cat, parm, pdtn)) \<Rightarrow>
        if iver \<noteq> 255 \<and> (disc < 192 \<or> disc = 255) \<and> (cat < 192 \<or> cat = 255) \<and> (parm < 192 \<or> parm = 255) \<and> (pdtn < 32768 \<or> pdtn = 65535)
        then do {
          (ok, c) \<leftarrow> gb2_gtwmovartbl (g_tables G) iver (st_wmovar s);
          Some (if ok then gb2_skvar disc cat parm pdtn (tinfo c) else None, s\<lparr>st_wmovar := c\<rparr>)
        }
        else do {
          (ok, c) \<leftarrow> gb2_gtlclvartbl (g_tables G) origcntr lclver (st_lclvar s);
          Some (if ok then gb2_skvar disc cat parm pdtn (tinfo c) else None, s\<lparr>st_lclvar := c\<rparr>)
        })"

definition gb2_param :: "gempak \<Rightarrow> gribfield \<Rightarrow> cstr \<Rightarrow> int \<Rightarrow> gstate \<Rightarrow> (cstr option \<times> gstate) option" where
  "gb2_param G gfld origcntr tmrange s =
     do {
       ids \<leftarrow> gf_idsect gfld;
       iver \<leftarrow> rd_int ids 2;
       lclver \<leftarrow> rd_int ids 3;
       tmpl \<leftarrow> gf_ipdtmpl gfld;
       cat \<leftarrow> rd_int tmpl 0;
       parm \<leftarrow> rd_int tmpl 1;
       (g2var, s1) \<leftarrow> var_lookup G origcntr (iver, lclver) (i32 (gf_discipline gfld), cat, parm, i32 (gf_ipdtnum gfld)) s;
       case g2var of
         None \<Rightarrow> Some (None, s1)
       | Some v \<Rightarrow>
           do {
             n1 \<leftarrow> gb2_ctim tmrange (gemname v);
             n2 \<leftarrow> gb2_prob G gfld n1;
             n3 \<leftarrow> gb2_proc gfld n2;
             Some (Some (take 12 n3 @ replicate (12 - length n3) 32), s1)
           }
     }"

section \<open>The level\<close>

definition gb2_vlev :: "gempak \<Rightarrow> gribfield \<Rightarrow> (int \<times> f32 \<times> f32) option" where
  "gb2_vlev G gfld =
     (if gf_ipdtnum gfld < 20
      then do {
        tmpl \<leftarrow> gf_ipdtmpl gfld;
        t9 \<leftarrow> rd tmpl 9;
        r0 \<leftarrow> if t9 \<noteq> 255
              then do { s \<leftarrow> rd tmpl 10; v \<leftarrow> rd tmpl 11;
                        Some (if v = - 0x7fffffff then f32_zero else scaled G v (if s = - 127 then 0 else s)) }
              else Some f32_minus1;
        t12 \<leftarrow> rd tmpl 12;
        if t12 \<noteq> 255
        then do { s \<leftarrow> rd tmpl 13; v \<leftarrow> rd tmpl 14;
                  Some (if v = - 0x7fffffff then (0, f32_minus1, f32_minus1)
                        else (0, r0, scaled G v (if s = - 127 then 0 else s))) }
        else Some (0, r0, f32_minus1)
      }
      else Some (- 27, f32_minus1, f32_minus1))"

definition lvl_lookup :: "gempak \<Rightarrow> cstr \<Rightarrow> int \<times> int \<Rightarrow> int \<times> int \<Rightarrow> gstate \<Rightarrow> (level option \<times> gstate) option" where
  "lvl_lookup G origcntr vers key s =
     (case (vers, key) of ((iver, lclver), (lvl1, lvl2)) \<Rightarrow>
        if (lvl1 < 192 \<or> lvl1 = 255) \<and> (lvl2 < 192 \<or> lvl2 = 255)
        then do {
          (ok, c) \<leftarrow> gb2_gtwmolvltbl (g_tables G) iver (st_wmolvl s);
          Some (if ok then gb2_sklvl lvl1 lvl2 (tinfo c) else None, s\<lparr>st_wmolvl := c\<rparr>)
        }
        else do {
          (ok, c) \<leftarrow> gb2_gtlcllvltbl (g_tables G) origcntr lclver (st_lcllvl s);
          Some (if ok then gb2_sklvl lvl1 lvl2 (tinfo c) else None, s\<lparr>st_lcllvl := c\<rparr>)
        })"

text \<open>The levels, the coordinate and the unit of an entry; the inner \<open>None\<close> is a template that is not known.\<close>

definition level_of :: "gempak \<Rightarrow> gribfield \<Rightarrow> int \<Rightarrow> level \<Rightarrow> (int \<times> int \<times> int \<times> cstr) option option" where
  "level_of G gfld lvl1 lev =
     do {
       buf \<leftarrow> mem_write (abbrev0 G) 0 (abbrev lev @ [0]);
       vcord \<leftarrow> cst_ctoi buf;
       unit \<leftarrow> fits_buf 21 (cst_rmbl (cstr_of (lv_unit lev)));
       let unit1 = (if unit = str ''Pa'' \<and> lv_scale lev = - 2 then str ''hPa'' else unit);
       (ier, r0, r1) \<leftarrow> gb2_vlev G gfld;
       Some (if ier \<noteq> 0 then None
             else if lvl1 = 1 then Some (0, - 1, vcord, unit1)
             else Some (to_level G r0 (lv_scale lev), if r1 = f32_minus1 then - 1 else to_level G r1 (lv_scale lev), vcord, unit1))
     }"

definition gb2_vcrd :: "gempak \<Rightarrow> gribfield \<Rightarrow> cstr \<Rightarrow> gstate \<Rightarrow> ((int \<times> int \<times> int \<times> cstr) option \<times> gstate) option" where
  "gb2_vcrd G gfld origcntr s =
     do {
       ids \<leftarrow> gf_idsect gfld;
       iver \<leftarrow> rd_int ids 2;
       lclver \<leftarrow> rd_int ids 3;
       tmpl \<leftarrow> gf_ipdtmpl gfld;
       lvl1 \<leftarrow> rd_int tmpl 9;
       lvl2 \<leftarrow> rd_int tmpl 12;
       (g2lev, s1) \<leftarrow> lvl_lookup G origcntr (iver, lclver) (lvl1, lvl2) s;
       case g2lev of
         None \<Rightarrow> Some (None, s1)
       | Some lev \<Rightarrow> do { r \<leftarrow> level_of G gfld lvl1 lev; Some (r, s1) }
     }"

section \<open>All together\<close>

text \<open>The abbreviation of the centre in lower case; where there is none, what the array happens to contain.\<close>

definition orig_cntr :: "gempak \<Rightarrow> gribfield \<Rightarrow> gstate \<Rightarrow> (cstr \<times> gstate) option" where
  "orig_cntr G gfld s =
     do {
       ids \<leftarrow> gf_idsect gfld;
       cntrid \<leftarrow> rd_int ids 0;
       (w, c) \<leftarrow> gb2_gtcntr (g_tables G) cntrid (st_cntr s);
       wmocntr \<leftarrow> (case w of
                     Some x \<Rightarrow> Some x
                   | None \<Rightarrow> if 0 \<in> set (take 8 (wmocntr0 G)) then Some (cstr_of (wmocntr0 G)) else None);
       Some (cst_uclc wmocntr, s\<lparr>st_cntr := c\<rparr>)
     }"

text \<open>The second date and time is twenty blanks. The inner \<open>None\<close> is a status other than 0.\<close>

definition gb2_2gem :: "gempak \<Rightarrow> gribfield \<Rightarrow> gstate \<Rightarrow> (geminfo option \<times> gstate) option" where
  "gb2_2gem G gfld s =
     do {
       (origcntr, s1) \<leftarrow> orig_cntr G gfld s;
       (iret, gdattm1, iaccm) \<leftarrow> gb2_ftim gfld;
       (p, s2) \<leftarrow> gb2_param G gfld origcntr iaccm s1;
       case p of
         None \<Rightarrow> Some (None, s2)
       | Some parm \<Rightarrow>
           do {
             (v, s3) \<leftarrow> gb2_vcrd G gfld origcntr s2;
             Some (case v of
                     None \<Rightarrow> None
                   | Some (l0, l1, vcord, unit) \<Rightarrow>
                       if iret \<noteq> 0 then None
                       else Some \<lparr>gm_parm = parm, gm_gdattm1 = gdattm1, gm_gdattm2 = replicate 20 32, gm_level0 = l0, gm_level1 = l1,
                                  gm_vcord = vcord, gm_unit = unit\<rparr>, s3)
           }
     }"

section \<open>Tables that are kept\<close>

definition caches_ok :: "gempak \<Rightarrow> gstate \<Rightarrow> bool" where
  "caches_ok G s \<longleftrightarrow>
     cache_ok (rdcntr (g_tables G)) (st_cntr s) \<and> currtable (st_cntr s) \<in> {[], str ''wmocenter.tbl''} \<and>
     cache_ok (rdvar (g_tables G)) (st_wmovar s) \<and> cache_ok (rdvar (g_tables G)) (st_lclvar s) \<and>
     cache_ok (rdlvl (g_tables G)) (st_wmolvl s) \<and> cache_ok (rdlvl (g_tables G)) (st_lcllvl s)"

lemma caches_ok_0: "caches_ok G gstate0"
  by (simp add: caches_ok_def gstate0_def empty_cache_def cache_ok_def)

definition no_vars :: "gstate \<Rightarrow> bool" where
  "no_vars s \<longleftrightarrow> currtable (st_wmovar s) = [] \<and> currtable (st_lclvar s) = []"

definition no_lvls :: "gstate \<Rightarrow> bool" where
  "no_lvls s \<longleftrightarrow> currtable (st_wmolvl s) = [] \<and> currtable (st_lcllvl s) = []"

lemma gtcntr_kept:
  assumes "cache_ok (rdcntr T) c" "currtable c \<in> {[], str ''wmocenter.tbl''}" "currtable e = []" "gb2_gtcntr T cntrid e = Some (w, e')"
  shows "\<exists>c'. gb2_gtcntr T cntrid c = Some (w, c') \<and> cache_ok (rdcntr T) c' \<and> currtable c' \<in> {[], str ''wmocenter.tbl''}"
proof -
  let ?nm = "str ''wmocenter.tbl''"
  obtain ok e1 where f: "fetch (rdcntr T) ?nm e = Some (ok, e1)" using assms(4) by (auto simp: gb2_gtcntr_def simp del: str_Cons split: Option.bind_splits)
  show ?thesis
  proof (cases ok)
    case True
    then have f1: "fetch (rdcntr T) ?nm e = Some (True, e1)" using f by simp
    obtain c1 where c1: "fetch (rdcntr T) ?nm c = Some (True, c1)" "cache_ok (rdcntr T) c1" "tinfo c1 = tinfo e1" "currtable c1 = ?nm"
      using cntrs.fetch_fresh [OF assms(1,3) f1] by blast
    then show ?thesis
      using assms(4) f True
      by (cases "find (\<lambda>r. cntrid = cn_id r) (tinfo e1)") (auto simp: gb2_gtcntr_def fits_buf_def simp del: str_Cons split: if_splits)
  next
    case False
    have "e1 = e\<lparr>tinfo := []\<rparr>" and n: "rdcntr T ?nm = Some None"
      using f False by (auto simp: fetch_def simp del: str_Cons split: option.splits if_splits)
    then have "currtable c = []" using assms(1,2) by (auto simp: cache_ok_def simp del: str_Cons)
    then have "fetch (rdcntr T) ?nm c = Some (False, c\<lparr>tinfo := []\<rparr>)" using n by (simp add: fetch_def)
    then show ?thesis using assms(4) f False \<open>currtable c = []\<close> by (simp add: gb2_gtcntr_def cache_ok_def del: str_Cons)
  qed
qed

lemma orig_cntr_kept:
  assumes "caches_ok G s" "currtable (st_cntr e) = []" "orig_cntr G g e = Some (oc, e')"
  shows "\<exists>s'. orig_cntr G g s = Some (oc, s') \<and> caches_ok G s' \<and> s' = s\<lparr>st_cntr := st_cntr s'\<rparr> \<and> e' = e\<lparr>st_cntr := st_cntr e'\<rparr>"
proof -
  obtain ids cntrid w c where i: "gf_idsect g = Some ids" "rd_int ids 0 = Some cntrid" "gb2_gtcntr (g_tables G) cntrid (st_cntr e) = Some (w, c)"
    using assms(3) by (auto simp: orig_cntr_def split: Option.bind_splits)
  then obtain c' where "gb2_gtcntr (g_tables G) cntrid (st_cntr s) = Some (w, c')" "cache_ok (rdcntr (g_tables G)) c'"
    "currtable c' \<in> {[], str ''wmocenter.tbl''}"
    using gtcntr_kept [OF _ _ assms(2) i(3)] assms(1) by (auto simp: caches_ok_def)
  with i assms(1,3) show ?thesis by (auto simp: orig_cntr_def caches_ok_def split: option.splits if_splits)
qed

lemma var_lookup_kept:
  assumes "caches_ok G s" "no_vars e" "var_lookup G oc vers key e = Some (Some v, e')"
  shows "\<exists>s'. var_lookup G oc vers key s = Some (Some v, s') \<and> caches_ok G s' \<and> (no_lvls e \<longrightarrow> no_lvls e')"
proof -
  obtain iver lclver disc cat parm pdtn where vk: "vers = (iver, lclver)" "key = (disc, cat, parm, pdtn)" by (metis surj_pair)
  let ?wmo = "iver \<noteq> 255 \<and> (disc < 192 \<or> disc = 255) \<and> (cat < 192 \<or> cat = 255) \<and> (parm < 192 \<or> parm = 255) \<and> (pdtn < 32768 \<or> pdtn = 65535)"
  have c: "cache_ok (rdvar (g_tables G)) (st_wmovar s)" "cache_ok (rdvar (g_tables G)) (st_lclvar s)"
    and n: "currtable (st_wmovar e) = []" "currtable (st_lclvar e) = []"
    using assms(1,2) by (simp_all add: caches_ok_def no_vars_def)
  show ?thesis
  proof (cases ?wmo)
    case True
    then obtain c1 where f: "gb2_gtwmovartbl (g_tables G) iver (st_wmovar e) = Some (True, c1)" "gb2_skvar disc cat parm pdtn (tinfo c1) = Some v"
        "e' = e\<lparr>st_wmovar := c1\<rparr>"
      using assms(3) unfolding var_lookup_def vk prod.case if_P [OF True] by (auto split: Option.bind_splits if_splits)
    obtain c' where "gb2_gtwmovartbl (g_tables G) iver (st_wmovar s) = Some (True, c')" "cache_ok (rdvar (g_tables G)) c'" "tinfo c' = tinfo c1"
      using wmovar.fetch_fresh [OF c(1) n(1)] f(1) unfolding gb2_gtwmovartbl_def by blast
    then show ?thesis
      using assms(1) f(2,3) unfolding var_lookup_def vk prod.case if_P [OF True] by (auto simp: caches_ok_def no_lvls_def)
  next
    case False
    then obtain c1 where f: "gb2_gtlclvartbl (g_tables G) oc lclver (st_lclvar e) = Some (True, c1)" "gb2_skvar disc cat parm pdtn (tinfo c1) = Some v"
        "e' = e\<lparr>st_lclvar := c1\<rparr>"
      using assms(3) unfolding var_lookup_def vk prod.case if_not_P [OF False] by (auto split: Option.bind_splits if_splits)
    obtain c' where "gb2_gtlclvartbl (g_tables G) oc lclver (st_lclvar s) = Some (True, c')" "cache_ok (rdvar (g_tables G)) c'" "tinfo c' = tinfo c1"
      using lclvar.fetch_fresh [OF c(2) n(2), of "(oc, lclver)"] f(1) unfolding gb2_gtlclvartbl_def prod.case by blast
    then show ?thesis
      using assms(1) f(2,3) unfolding var_lookup_def vk prod.case if_not_P [OF False] by (auto simp: caches_ok_def no_lvls_def)
  qed
qed

lemma lvl_lookup_kept:
  assumes "caches_ok G s" "no_lvls e" "lvl_lookup G oc vers key e = Some (Some v, e')"
  shows "\<exists>s'. lvl_lookup G oc vers key s = Some (Some v, s') \<and> caches_ok G s'"
proof -
  obtain iver lclver lvl1 lvl2 where vk: "vers = (iver, lclver)" "key = (lvl1, lvl2)" by (metis surj_pair)
  let ?wmo = "(lvl1 < 192 \<or> lvl1 = 255) \<and> (lvl2 < 192 \<or> lvl2 = 255)"
  have c: "cache_ok (rdlvl (g_tables G)) (st_wmolvl s)" "cache_ok (rdlvl (g_tables G)) (st_lcllvl s)"
    and n: "currtable (st_wmolvl e) = []" "currtable (st_lcllvl e) = []"
    using assms(1,2) by (simp_all add: caches_ok_def no_lvls_def)
  show ?thesis
  proof (cases ?wmo)
    case True
    then obtain c1 where f: "gb2_gtwmolvltbl (g_tables G) iver (st_wmolvl e) = Some (True, c1)" "gb2_sklvl lvl1 lvl2 (tinfo c1) = Some v"
      using assms(3) unfolding lvl_lookup_def vk prod.case if_P [OF True] by (auto split: Option.bind_splits if_splits)
    obtain c' where "gb2_gtwmolvltbl (g_tables G) iver (st_wmolvl s) = Some (True, c')" "cache_ok (rdlvl (g_tables G)) c'" "tinfo c' = tinfo c1"
      using wmolvl.fetch_fresh [OF c(1) n(1)] f(1) unfolding gb2_gtwmolvltbl_def by blast
    then show ?thesis
      using assms(1) f(2) unfolding lvl_lookup_def vk prod.case if_P [OF True] by (auto simp: caches_ok_def)
  next
    case False
    then obtain c1 where f: "gb2_gtlcllvltbl (g_tables G) oc lclver (st_lcllvl e) = Some (True, c1)" "gb2_sklvl lvl1 lvl2 (tinfo c1) = Some v"
      using assms(3) unfolding lvl_lookup_def vk prod.case if_not_P [OF False] by (auto split: Option.bind_splits if_splits)
    obtain c' where "gb2_gtlcllvltbl (g_tables G) oc lclver (st_lcllvl s) = Some (True, c')" "cache_ok (rdlvl (g_tables G)) c'" "tinfo c' = tinfo c1"
      using lcllvl.fetch_fresh [OF c(2) n(2), of "(oc, lclver)"] f(1) unfolding gb2_gtlcllvltbl_def prod.case by blast
    then show ?thesis
      using assms(1) f(2) unfolding lvl_lookup_def vk prod.case if_not_P [OF False] by (auto simp: caches_ok_def)
  qed
qed

lemma param_kept:
  assumes "caches_ok G s" "no_vars e" "gb2_param G g oc tm e = Some (Some p, e')"
  shows "\<exists>s'. gb2_param G g oc tm s = Some (Some p, s') \<and> caches_ok G s' \<and> (no_lvls e \<longrightarrow> no_lvls e')"
proof -
  obtain ids iver lclver tmpl cat parm v where d: "gf_idsect g = Some ids" "rd_int ids 2 = Some iver" "rd_int ids 3 = Some lclver" "gf_ipdtmpl g = Some tmpl"
    "rd_int tmpl 0 = Some cat" "rd_int tmpl 1 = Some parm"
    "var_lookup G oc (iver, lclver) (i32 (gf_discipline g), cat, parm, i32 (gf_ipdtnum g)) e = Some (Some v, e')"
    using assms(3) by (auto simp: gb2_param_def split: Option.bind_splits option.splits)
  from var_lookup_kept [OF assms(1,2) d(7)] assms(3) d show ?thesis by (auto simp: gb2_param_def split: Option.bind_splits)
qed

lemma vcrd_kept:
  assumes "caches_ok G s" "no_lvls e" "gb2_vcrd G g oc e = Some (Some r, e')"
  shows "\<exists>s'. gb2_vcrd G g oc s = Some (Some r, s') \<and> caches_ok G s'"
proof -
  obtain ids iver lclver tmpl lvl1 lvl2 v where d: "gf_idsect g = Some ids" "rd_int ids 2 = Some iver" "rd_int ids 3 = Some lclver" "gf_ipdtmpl g = Some tmpl"
    "rd_int tmpl 9 = Some lvl1" "rd_int tmpl 12 = Some lvl2" "lvl_lookup G oc (iver, lclver) (lvl1, lvl2) e = Some (Some v, e')"
    using assms(3) by (auto simp: gb2_vcrd_def split: Option.bind_splits option.splits)
  from lvl_lookup_kept [OF assms(1,2) d(7)] assms(3) d show ?thesis by (auto simp: gb2_vcrd_def split: Option.bind_splits)
qed

text \<open>The information on a field does not depend on the tables that were read before, as long as all were there.\<close>

lemma gem_kept:
  assumes s: "caches_ok G s" and g: "gb2_2gem G g gstate0 = Some (Some gm, e')"
  shows "\<exists>s'. gb2_2gem G g s = Some (Some gm, s') \<and> caches_ok G s'"
proof -
  obtain oc e1 iret gd ia p e2 v where d: "orig_cntr G g gstate0 = Some (oc, e1)" "gb2_ftim g = Some (iret, gd, ia)"
    "gb2_param G g oc ia e1 = Some (Some p, e2)" "gb2_vcrd G g oc e2 = Some (Some v, e')"
    using g by (auto simp: gb2_2gem_def split: Option.bind_splits option.splits)
  have "currtable (st_cntr gstate0) = []" by (simp add: gstate0_def empty_cache_def)
  from orig_cntr_kept [OF s this d(1)] obtain s1 where s1: "orig_cntr G g s = Some (oc, s1)" "caches_ok G s1" "e1 = gstate0\<lparr>st_cntr := st_cntr e1\<rparr>" by blast
  have "st_wmovar e1 = empty_cache" "st_lclvar e1 = empty_cache" "st_wmolvl e1 = empty_cache" "st_lcllvl e1 = empty_cache"
    by (subst s1(3), simp add: gstate0_def)+
  then have n: "no_vars e1" "no_lvls e1" by (simp_all add: no_vars_def no_lvls_def empty_cache_def)
  from param_kept [OF s1(2) n(1) d(3)] n(2) obtain s2 where s2: "gb2_param G g oc ia s1 = Some (Some p, s2)" "caches_ok G s2" "no_lvls e2" by blast
  from vcrd_kept [OF s2(2,3) d(4)] obtain s3 where "gb2_vcrd G g oc s2 = Some (Some v, s3)" "caches_ok G s3" by blast
  with s1(1) s2(1) d g show ?thesis by (auto simp: gb2_2gem_def)
qed

text \<open>
  C25: The functions that get tables keep the last one. For a field that is known to a program that starts, every program
  that has found all its tables so far returns the same information: keeping tables changes nothing.
\<close>

theorem tables_are_kept:
  assumes "caches_ok G s" "gb2_2gem G g gstate0 = Some (Some gm, e')"
  shows "\<exists>s'. gb2_2gem G g s = Some (Some gm, s') \<and> caches_ok G s'"
  using assms by (rule gem_kept)

end
