(* ===== verification/Grib2_Name.thy ===== *)
theory Grib2_Name
  imports G2_Message Grib1_Meta Prod_Store Gem_Names
begin

text \<open>
  The name of a GRIB edition 2 product: \<open>grib2name.c\<close>. What is left open of GEMPAK, its files, the number of a grid and
  arithmetic on \<open>float\<close>, is the record \<open>gempak\<close>.
\<close>

section \<open>The name of a field\<close>

text \<open>The variables of \<open>grib2name\<close> that the loop over the fields sets; \<open>None\<close> is not yet.\<close>

record nstate =
  ns_model :: "int option"
  ns_grid :: "int option"
  ns_fdats :: "cstr option"
  ns_levels :: "cstr option"
  ns_prods :: cstr

definition level_text :: "geminfo \<Rightarrow> cstr" where
  "level_text gm =
     (let unit = cst_rxbl (gm_unit gm); unit1 = (if unit = [] then str ''-'' else unit);
          lev = (if gm_level1 gm = - 1 then dec (gm_level0 gm) else dec (gm_level0 gm) @ str ''-'' @ dec (gm_level1 gm))
      in lev @ str '' '' @ unit1 @ str '' '' @ cst_itoc (gm_vcord gm))"

definition time_text :: "geminfo \<Rightarrow> cstr" where
  "time_text gm =
     (let t1 = cst_rmbl (gm_gdattm1 gm); t2 = cst_rmbl (gm_gdattm2 gm)
      in if t2 \<noteq> [] then t1 @ str ''-'' @ t2 else t1)"

definition name_field :: "gempak \<Rightarrow> (nat \<Rightarrow> bool) \<Rightarrow> nat \<Rightarrow> gribfield \<Rightarrow> nstate \<Rightarrow> gstate \<Rightarrow> (nstate \<times> gstate) option" where
  "name_field G mem n g s gs =
     do {
       tmpl \<leftarrow> gf_ipdtmpl g;
       model \<leftarrow> rd tmpl 4;
       let grid = (if gf_griddef g = 0 then decode_g2gnum G g else i32 (gf_griddef g));
       let s1 = s\<lparr>ns_model := Some (i32 model), ns_grid := Some grid\<rparr>;
       (info, gs1) \<leftarrow> gb2_2gem G g gs;
       case info of
         None \<Rightarrow> Some (s1\<lparr>ns_levels := Some (str ''LVL''), ns_fdats := Some (str ''FHRS'')\<rparr>, gs1)
       | Some gm \<Rightarrow>
           do {
             g2name \<leftarrow> fits_buf 13 (gm_parm gm);
             prods \<leftarrow> if 0 < n then fits_buf 128 (ns_prods s1 @ str '';'') else Some (ns_prods s1);
             prods1 \<leftarrow> fits_buf 128 (prods @ cst_rmbl g2name);
             strptr \<leftarrow> if mem 12 then Some () else None;
             levelstmp \<leftarrow> fits_buf 80 (level_text gm);
             fdats \<leftarrow> fits_buf 80 (time_text gm);
             Some (s1\<lparr>ns_prods := prods1, ns_levels := Some levelstmp, ns_fdats := Some (rm_slashes fdats)\<rparr>, gs1)
           }
     }"

fun name_fields :: "gempak \<Rightarrow> nat \<Rightarrow> (nat \<Rightarrow> bool) \<Rightarrow> (nat \<Rightarrow> gribfield) \<Rightarrow> byte list \<Rightarrow> nat \<Rightarrow> nat \<Rightarrow> nstate \<Rightarrow> gstate \<Rightarrow> (nstate \<times> gstate) run" where
  "name_fields G fuel mem junk m 0 n s gs = Returns (s, gs)"
| "name_fields G fuel mem junk m (Suc k) n s gs =
     (case g2_getfld fuel mem (junk n) m (int n + 1) of
        Returns (ier, g) \<Rightarrow> run_bind (name_field G mem n g s gs) (\<lambda>(s1, gs1). name_fields G fuel mem junk m k (n + 1) s1 gs1)
      | Undef \<Rightarrow> Undef
      | OutOfFuel \<Rightarrow> OutOfFuel)"

section \<open>The identifier\<close>

definition wmo_grid :: "cstr \<Rightarrow> int \<Rightarrow> int option" where
  "wmo_grid wmohead grid =
     (if grid = 0 \<and> 11 < length wmohead \<and> wmohead ! 7 = 75 \<and> wmohead ! 8 = 87
      then do { n \<leftarrow> wmo_to_gridid (wmohead ! 0) (wmohead ! 2); Some (if 0 < n then n else grid) }
      else Some grid)"

definition grib2_ident :: "bool \<Rightarrow> statics \<Rightarrow> int list \<Rightarrow> cstr \<Rightarrow> nstate \<Rightarrow> (cstr \<times> statics) option" where
  "grib2_ident rtl st listsec1 wmohead s =
     do {
       grid0 \<leftarrow> ns_grid s;
       grid \<leftarrow> wmo_grid wmohead grid0;
       model \<leftarrow> ns_model s;
       fdats \<leftarrow> ns_fdats s;
       levelstmp \<leftarrow> ns_levels s;
       (cn, mn, st1) \<leftarrow> both_names rtl (word_of_int (listsec1 ! 0)) (word_of_int model) st;
       ident \<leftarrow> fits_buf 255 (str ''grib2/'' @ cn @ str ''/'' @ mn @ str ''/#'' @ dec_pad 3 grid @ str ''/'' @ fdats @ str ''/'' @
         ns_prods s @ str ''/'' @ levelstmp);
       Some (ident, st1)
     }"

text \<open>What is written to \<open>ident\<close>, if anything, and the static variables afterwards.\<close>

definition grib2name ::
  "gempak \<Rightarrow> nat \<Rightarrow> (nat \<Rightarrow> bool) \<Rightarrow> (nat \<Rightarrow> gribfield) \<Rightarrow> bool \<Rightarrow> statics \<Rightarrow> gstate \<Rightarrow> byte list \<Rightarrow> nat \<Rightarrow> cstr \<Rightarrow>
   (cstr option \<times> statics \<times> gstate) run" where
  "grib2name G fuel mem junk rtl st gs m sz wmohead =
     (case g2_info fuel m (i32 (int sz)) of
        Returns (Inl ier) \<Rightarrow> Returns (None, st, gs)
      | Returns (Inr (listsec0, listsec1, field_tot, numlocal)) \<Rightarrow>
          (case name_fields G fuel mem junk m (nat field_tot) 0
                  \<lparr>ns_model = None, ns_grid = None, ns_fdats = None, ns_levels = None, ns_prods = []\<rparr> gs of
             Returns (s, gs1) \<Rightarrow> run_bind (grib2_ident rtl st listsec1 wmohead s) (\<lambda>(ident, st1). Returns (Some ident, st1, gs1))
           | Undef \<Rightarrow> Undef
           | OutOfFuel \<Rightarrow> OutOfFuel)
      | Undef \<Rightarrow> Undef
      | OutOfFuel \<Rightarrow> OutOfFuel)"

section \<open>Lengths\<close>

lemma length_dec_int: "- (2 ^ 31) \<le> x \<Longrightarrow> x < 2 ^ 31 \<Longrightarrow> length (dec x) \<le> 11"
  using length_digits_le [of "nat x" 10] length_digits_le [of "nat (- x)" 10] by (auto simp: dec_def nat_less_iff)

text \<open>The information on a grid fits the arrays of \<open>struct geminfo\<close>.\<close>

definition geminfo_ok :: "geminfo \<Rightarrow> bool" where
  "geminfo_ok gm \<longleftrightarrow> length (gm_parm gm) < 13 \<and> length (gm_gdattm1 gm) < 21 \<and> length (gm_gdattm2 gm) < 21 \<and> length (gm_unit gm) < 21 \<and>
     - (2 ^ 31) \<le> gm_level0 gm \<and> gm_level0 gm < 2 ^ 31 \<and> - (2 ^ 31) \<le> gm_level1 gm \<and> gm_level1 gm < 2 ^ 31"

definition levels_int :: "gempak \<Rightarrow> bool" where
  "levels_int G \<longleftrightarrow> (\<forall>x s. - (2 ^ 31) \<le> to_level G x s \<and> to_level G x s < 2 ^ 31)"

lemma gb2_ftim_fits: "gb2_ftim g = Some (ier, t, a) \<Longrightarrow> length t \<le> 20"
  by (auto simp: gb2_ftim_def tg_itoc_def Let_def split: Option.bind_splits if_splits prod.splits)

lemma gem_info_ok:
  assumes G: "levels_int G" and g: "gb2_2gem G g gs = Some (Some gm, gs')"
  shows "geminfo_ok gm"
proof -
  obtain oc gs1 gd ia p gs2 l0 l1 vc un gs3 where d: "gb2_ftim g = Some (0, gd, ia)" "gb2_param G g oc ia gs1 = Some (Some p, gs2)"
    "gb2_vcrd G g oc gs2 = Some (Some (l0, l1, vc, un), gs3)"
    "gm = \<lparr>gm_parm = p, gm_gdattm1 = gd, gm_gdattm2 = replicate 20 32, gm_level0 = l0, gm_level1 = l1, gm_vcord = vc, gm_unit = un\<rparr>"
    using g by (auto simp: gb2_2gem_def split: Option.bind_splits option.splits if_splits)
  have "length p = 12" using d(2) by (auto simp: gb2_param_def split: Option.bind_splits option.splits)
  moreover obtain lvl1 lev where "level_of G g lvl1 lev = Some (Some (l0, l1, vc, un))"
    using d(3) by (auto simp: gb2_vcrd_def split: Option.bind_splits option.splits)
  then have "length un < 21 \<and> - (2 ^ 31) \<le> l0 \<and> l0 < 2 ^ 31 \<and> - (2 ^ 31) \<le> l1 \<and> l1 < 2 ^ 31"
    using G by (auto simp: level_of_def levels_int_def fits_buf_def Let_def split: Option.bind_splits if_splits)
  ultimately show ?thesis using gb2_ftim_fits [OF d(1)] d(4) by (simp add: geminfo_ok_def)
qed

lemma level_text_fits: "geminfo_ok gm \<Longrightarrow> length (level_text gm) < 50"
  using length_dec_int [of "gm_level0 gm"] length_dec_int [of "gm_level1 gm"] length_rxbl [of "gm_unit gm"] length_itoc [of "gm_vcord gm"]
  by (auto simp: geminfo_ok_def level_text_def Let_def)

lemma time_text_fits: "geminfo_ok gm \<Longrightarrow> length (time_text gm) < 42"
  using length_rmbl [of "gm_gdattm1 gm"] length_rmbl [of "gm_gdattm2 gm"] by (auto simp: geminfo_ok_def time_text_def Let_def)

section \<open>The loop over the fields\<close>

text \<open>The names of the parameters with semicolons between them.\<close>

fun join_names :: "cstr list \<Rightarrow> cstr" where
  "join_names [] = []"
| "join_names (x # xs) = (if xs = [] then x else x @ [59] @ join_names xs)"

lemma join_names_snoc: "join_names (xs @ [x]) = (if xs = [] then x else join_names xs @ [59] @ x)"
  by (induction xs) auto

lemma join_names_mono: "length (join_names xs) \<le> length (join_names (xs @ ys))"
  by (induction xs) (auto simp: neq_Nil_conv)

definition parm_name :: "geminfo \<Rightarrow> cstr" where
  "parm_name gm = cst_rmbl (gm_parm gm)"

definition grid_number :: "gempak \<Rightarrow> gribfield \<Rightarrow> int" where
  "grid_number G g = (if gf_griddef g = 0 then decode_g2gnum G g else i32 (gf_griddef g))"

text \<open>What the variables are after field \<open>j\<close>, when every field up to it has a name.\<close>

definition named_state :: "gempak \<Rightarrow> (nat \<Rightarrow> gribfield) \<Rightarrow> (nat \<Rightarrow> geminfo) \<Rightarrow> nat \<Rightarrow> nstate" where
  "named_state G F gms j =
     \<lparr>ns_model = Some (i32 (the (gf_ipdtmpl (F j)) ! 4)), ns_grid = Some (grid_number G (F j)),
      ns_fdats = Some (rm_slashes (time_text (gms j))), ns_levels = Some (level_text (gms j)),
      ns_prods = join_names (map (\<lambda>i. parm_name (gms i)) [0..<Suc j])\<rparr>"

definition named_field :: "gempak \<Rightarrow> (nat \<Rightarrow> gribfield) \<Rightarrow> (nat \<Rightarrow> geminfo) \<Rightarrow> nat \<Rightarrow> bool" where
  "named_field G F gms j \<longleftrightarrow> (\<exists>t. gf_ipdtmpl (F j) = Some t \<and> 5 \<le> length t) \<and> (\<exists>e. gb2_2gem G (F j) gstate0 = Some (Some (gms j), e)) \<and> geminfo_ok (gms j)"

lemma name_field_named:
  assumes "named_field G F gms j" "mem 12" "ns_prods s = join_names (map (\<lambda>i. parm_name (gms i)) [0..<j])" "caches_ok G gs"
  shows "\<exists>gs'. caches_ok G gs' \<and> name_field G mem j (F j) s gs =
    (if length (join_names (map (\<lambda>i. parm_name (gms i)) [0..<Suc j])) < 128 then Some (named_state G F gms j, gs') else None)"
proof -
  obtain t e where t: "gf_ipdtmpl (F j) = Some t" "5 \<le> length t" "gb2_2gem G (F j) gstate0 = Some (Some (gms j), e)" and ok: "geminfo_ok (gms j)"
    using assms(1) by (auto simp: named_field_def)
  obtain gs' where gs': "gb2_2gem G (F j) gs = Some (Some (gms j), gs')" "caches_ok G gs'" using gem_kept [OF assms(4) t(3)] by blast
  have r: "rd t 4 = Some (t ! 4)" using t(2) by (simp add: rd_def)
  have f: "fits_buf 13 (gm_parm (gms j)) = Some (gm_parm (gms j))" "fits_buf 80 (level_text (gms j)) = Some (level_text (gms j))"
    "fits_buf 80 (time_text (gms j)) = Some (time_text (gms j))"
    using ok level_text_fits [OF ok] time_text_fits [OF ok] by (simp_all add: fits_buf_def geminfo_ok_def)
  define Q where "Q = join_names (map (\<lambda>i. parm_name (gms i)) [0..<Suc j])"
  have p: "Q = (if 0 < j then ns_prods s @ str '';'' else ns_prods s) @ parm_name (gms j)"
    using join_names_snoc [of "map (\<lambda>i. parm_name (gms i)) [0..<j]" "parm_name (gms j)"] assms(3) by (simp add: Q_def)
  have ns: "named_state G F gms j = \<lparr>ns_model = Some (i32 (t ! 4)), ns_grid = Some (grid_number G (F j)),
      ns_fdats = Some (rm_slashes (time_text (gms j))), ns_levels = Some (level_text (gms j)), ns_prods = Q\<rparr>"
    by (simp add: named_state_def t Q_def)
  have "name_field G mem j (F j) s gs =
      do {
        prods \<leftarrow> if 0 < j then fits_buf 128 (ns_prods s @ str '';'') else Some (ns_prods s);
        prods1 \<leftarrow> fits_buf 128 (prods @ parm_name (gms j));
        Some (s\<lparr>ns_model := Some (i32 (t ! 4)), ns_grid := Some (grid_number G (F j)), ns_prods := prods1,
               ns_levels := Some (level_text (gms j)), ns_fdats := Some (rm_slashes (time_text (gms j)))\<rparr>, gs')
      }"
    using assms(2) by (simp add: name_field_def t(1,2) gs'(1) r f Let_def grid_number_def parm_name_def)
  then show ?thesis
    using gs'(2) unfolding Q_def [symmetric] ns p by (cases s) (auto simp: fits_buf_def)
qed

lemma name_fields_named:
  assumes "\<And>i. i \<le> n + k \<Longrightarrow> g2_getfld fuel mem (junk i) m (int i + 1) = Returns (0, F i)" "\<And>i. i \<le> n + k \<Longrightarrow> named_field G F gms i"
    and "mem 12" "length (join_names (map (\<lambda>i. parm_name (gms i)) [0..<Suc (n + k)])) < 128"
    and "ns_prods s = join_names (map (\<lambda>i. parm_name (gms i)) [0..<n])" "caches_ok G gs"
  shows "\<exists>gs'. name_fields G fuel mem junk m (Suc k) n s gs = Returns (named_state G F gms (n + k), gs') \<and> caches_ok G gs'"
  using assms
proof (induction k arbitrary: n s gs)
  case 0
  show ?case
    using name_field_named [of G F gms n mem s gs] 0(1) [of n] 0(2) [of n] 0(3-6) by auto
next
  case (Suc k)
  have l: "[0..<Suc (n + Suc k)] = [0..<Suc n] @ [Suc n..<Suc (n + Suc k)]"
    using upt_add_eq_append [of 0 "Suc n" "Suc k"] by simp
  have "length (join_names (map (\<lambda>i. parm_name (gms i)) [0..<Suc n])) < 128"
    using Suc.prems(4) join_names_mono [of "map (\<lambda>i. parm_name (gms i)) [0..<Suc n]" "map (\<lambda>i. parm_name (gms i)) [Suc n..<Suc (n + Suc k)]"]
    unfolding l map_append by linarith
  then obtain gs1 where "name_field G mem n (F n) s gs = Some (named_state G F gms n, gs1)" "caches_ok G gs1"
    using name_field_named [of G F gms n mem s gs] Suc.prems(2) [of n] Suc.prems(3,5,6) by auto
  moreover from this(2) have "\<exists>gs'. name_fields G fuel mem junk m (Suc k) (n + 1) (named_state G F gms n) gs1 =
      Returns (named_state G F gms (n + 1 + k), gs') \<and> caches_ok G gs'"
    using Suc.prems by (intro Suc.IH) (simp_all add: named_state_def)
  ultimately show ?case using Suc.prems(1) [of n] by auto
qed

section \<open>Whole messages\<close>

text \<open>A message whose fields share a grid, and what \<open>g2_getfld\<close> finds in it.\<close>

record g2msg =
  mg_b1 :: "byte list"
  mg_src :: byte
  mg_npts :: int
  mg_interp :: byte
  mg_gridnum :: int
  mg_grid :: "byte list"
  mg_fields :: "g2field list"

definition msg_secs :: "g2msg \<Rightarrow> gsec list" where
  "msg_secs M = (1, mg_b1 M) # (3, grid_body (mg_src M) (mg_npts M) (mg_interp M) (mg_gridnum M) (mg_grid M)) # concat (map field_secs (mg_fields M))"

definition field_ok :: "(nat \<Rightarrow> bool) \<Rightarrow> g2field \<Rightarrow> bool" where
  "field_ok mem d \<longleftrightarrow> 0 \<le> fd_ndpts d \<and> fd_ndpts d < 2 ^ 32 \<and>
     (\<exists>pws dws. product_widths mem (fd_pnum d) (fd_pds d) = Some pws \<and> tmpl_octets pws \<le> length (fd_pds d) \<and> 5 \<le> length pws \<and>
        data_widths mem (fd_dnum d) (fd_drs d) = Some dws \<and> tmpl_octets dws \<le> length (fd_drs d))"

definition msg_ok :: "(nat \<Rightarrow> bool) \<Rightarrow> g2msg \<Rightarrow> bool" where
  "msg_ok mem M \<longleftrightarrow> 16 \<le> length (mg_b1 M) \<and> 0 \<le> mg_npts M \<and> mg_npts M < 2 ^ 32 \<and>
     (\<exists>gws. grid_widths mem (mg_gridnum M) (mg_grid M) = Some gws \<and> tmpl_octets gws \<le> length (mg_grid M)) \<and>
     list_all (field_ok mem) (mg_fields M) \<and> int (length (sections (msg_secs M))) < no_sevens - 20 \<and> mg_fields M \<noteq> []"

definition msg_field :: "(nat \<Rightarrow> bool) \<Rightarrow> byte \<Rightarrow> g2msg \<Rightarrow> (nat \<Rightarrow> gribfield) \<Rightarrow> nat \<Rightarrow> gribfield" where
  "msg_field mem disc M junk i =
     (let d = mg_fields M ! i
      in with_data d (the (data_widths mem (fd_dnum d) (fd_drs d)))
           (with_product (uint disc) (int i + 1) d (the (product_widths mem (fd_pnum d) (fd_pds d)))
             ((with_grid (mg_b1 M) (mg_src M) (mg_npts M) (mg_interp M) (mg_gridnum M) (mg_grid M)
                 (the (grid_widths mem (mg_gridnum M) (mg_grid M))) (new_gribfield (junk i)))
               \<lparr>gf_ibmap := uint (fd_ibmap (mg_fields M ! (i - 1)))\<rparr>)))"

lemma msg_getfld:
  assumes "msg_ok mem M" "\<And>k. mem k" "i < length (mg_fields M)"
  shows "g2_getfld (Suc (length (msg_secs M)) + k) mem (junk i) (grib_message disc (msg_secs M) @ rest) (int i + 1) =
      Returns (0, msg_field mem disc M junk i)"
    and "gf_griddef (msg_field mem disc M junk i) = uint (mg_src M)"
    and "\<exists>t. gf_ipdtmpl (msg_field mem disc M junk i) = Some t \<and> 5 \<le> length t \<and>
      t = octets_ints (the (product_widths mem (fd_pnum (mg_fields M ! i)) (fd_pds (mg_fields M ! i)))) (fd_pds (mg_fields M ! i))"
proof -
  obtain gws where g: "grid_widths mem (mg_gridnum M) (mg_grid M) = Some gws" "tmpl_octets gws \<le> length (mg_grid M)"
    using assms(1) by (auto simp: msg_ok_def)
  have "field_ok mem (mg_fields M ! i)" using assms(1,3) by (simp add: msg_ok_def list_all_length)
  then obtain pws dws where d: "0 \<le> fd_ndpts (mg_fields M ! i)" "fd_ndpts (mg_fields M ! i) < 2 ^ 32"
    "product_widths mem (fd_pnum (mg_fields M ! i)) (fd_pds (mg_fields M ! i)) = Some pws"
    "tmpl_octets pws \<le> length (fd_pds (mg_fields M ! i))" "5 \<le> length pws"
    "data_widths mem (fd_dnum (mg_fields M ! i)) (fd_drs (mg_fields M ! i)) = Some dws"
    "tmpl_octets dws \<le> length (fd_drs (mg_fields M ! i))" by (auto simp: field_ok_def)
  have s: "int (length (sections (msg_secs M))) < no_sevens" "16 \<le> length (mg_b1 M)" "0 \<le> mg_npts M" "mg_npts M < 2 ^ 32"
    using assms(1) by (simp_all add: msg_ok_def)
  show "g2_getfld (Suc (length (msg_secs M)) + k) mem (junk i) (grib_message disc (msg_secs M) @ rest) (int i + 1) =
      Returns (0, msg_field mem disc M junk i)"
    using field_of_message [OF s(2) g s(3,4) assms(2,3) d(3,4) d(6,7) d(1,2) msg_secs_def s(1)]
    by (simp add: msg_field_def g d Let_def)
  show "gf_griddef (msg_field mem disc M junk i) = uint (mg_src M)"
    by (simp add: msg_field_def Let_def with_data_def with_product_def with_grid_def)
  show "\<exists>t. gf_ipdtmpl (msg_field mem disc M junk i) = Some t \<and> 5 \<le> length t \<and>
      t = octets_ints (the (product_widths mem (fd_pnum (mg_fields M ! i)) (fd_pds (mg_fields M ! i)))) (fd_pds (mg_fields M ! i))"
    using d(3,5) by (simp add: msg_field_def Let_def with_data_def with_product_def with_grid_def)
qed

lemma count_of_append: "count_of k (xs @ ys) = count_of k xs + count_of k ys"
  by (simp add: count_of_def)

lemma count_fields: "count_of 4 (concat (map field_secs ds)) = int (length ds)"
  by (induction ds) (simp_all add: count_of_append field_secs_def count_of_def)

lemma msg_info:
  assumes "msg_ok mem M" "int (length (sections (msg_secs M))) + 19 \<le> sz"
  shows "\<exists>l0 nl. g2_info (Suc (length (msg_secs M)) + k) (grib_message disc (msg_secs M) @ rest) sz =
    Returns (Inr (l0, octets_ints [2, 2, 1, 1, 1, 2, 1, 1, 1, 1, 1, 1, 1] (mg_b1 M), int (length (mg_fields M)), nl))"
proof -
  let ?secs = "(3, grid_body (mg_src M) (mg_npts M) (mg_interp M) (mg_gridnum M) (mg_grid M)) # concat (map field_secs (mg_fields M))"
  have s: "int (length (sections ((1, mg_b1 M) # ?secs))) < no_sevens" "16 \<le> length (mg_b1 M)" "msg_secs M = (1, mg_b1 M) # ?secs"
    using assms(1) by (simp_all add: msg_ok_def msg_secs_def)
  have r: "\<forall>(num, body) \<in> set ?secs. 2 \<le> num \<and> num \<le> 7" by (auto simp: field_secs_def)
  have f: "Suc (length (msg_secs M)) + k = Suc (length ?secs) + Suc k" by (simp add: s(3))
  have "count_of 4 ?secs = int (length (mg_fields M))" using count_fields [of "mg_fields M"] by simp
  then show ?thesis
    using g2_info_message [OF s(2) r s(1), of sz "Suc k" disc rest] assms(2) unfolding f s(3) by (auto simp: s(3))
qed

text \<open>The identifier of a message whose fields all have names: grid and level are those of the last field.\<close>

definition grib2_text :: "cstr \<Rightarrow> cstr \<Rightarrow> int \<Rightarrow> geminfo list \<Rightarrow> cstr" where
  "grib2_text center model grid gms =
     str ''grib2/'' @ center @ str ''/'' @ model @ str ''/#'' @ dec_pad 3 grid @ str ''/'' @ rm_slashes (time_text (last gms)) @ str ''/'' @
     join_names (map parm_name gms) @ str ''/'' @ level_text (last gms)"

text \<open>The number of the generating process, the fifth value of a product definition.\<close>

definition process_of :: "(nat \<Rightarrow> bool) \<Rightarrow> g2field \<Rightarrow> int" where
  "process_of mem d = octets_ints (the (product_widths mem (fd_pnum d) (fd_pds d))) (fd_pds d) ! 4"

lemma map_nth_upt: "length gms = n \<Longrightarrow> map (\<lambda>i. f (gms ! i)) [0..<n] = map f gms"
  by (rule nth_equalityI) simp_all

lemma grib2name_text:
  assumes M: "msg_ok mem M" "\<And>k. mem k" and n: "length gms = length (mg_fields M)"
    and G: "levels_int G" "caches_ok G gs"
    and gem: "\<And>i. i < length gms \<Longrightarrow> \<exists>e. gb2_2gem G (msg_field mem disc M junk i) gstate0 = Some (Some (gms ! i), e)"
    and p: "length (join_names (map parm_name gms)) < 128"
    and c: "map_of center_table (uint (word_of_int (octets_ints [2] (mg_b1 M) ! 0) :: byte)) = Some cn"
    and mdl: "model = model_text (word_of_int (octets_ints [2] (mg_b1 M) ! 0)) (word_of_int (i32 (process_of mem (last (mg_fields M)))))"
    and g: "wmo_grid wmohead (grid_number G (msg_field mem disc M junk (length gms - 1))) = Some grid"
    and l: "length (grib2_text (str cn) model grid gms) < 255"
    and sz: "int (length (sections (msg_secs M))) + 20 = int sz"
  shows "\<exists>st' gs'. grib2name G (Suc (length (msg_secs M)) + k) mem junk rtl st gs (grib_message disc (msg_secs M) @ rest) sz wmohead =
    Returns (Some (grib2_text (str cn) model grid gms), st', gs') \<and> caches_ok G gs'"
proof -
  have ne: "mg_fields M \<noteq> []" using M(1) by (simp add: msg_ok_def)
  then obtain j where j: "length gms = Suc j" using n by (cases gms) auto
  have lf: "length (mg_fields M) = Suc j" and gn: "gms \<noteq> []" using n j by auto
  have last: "last (mg_fields M) = mg_fields M ! j" "last gms = gms ! j"
    using last_conv_nth [OF ne] last_conv_nth [OF gn] lf j by simp_all
  have small: "int sz < 2 ^ 31" using M(1) sz by (simp add: msg_ok_def no_sevens_def)
  then have isz: "i32 (int sz) = int sz" by (intro i32_id) simp_all
  have sz19: "int (length (sections (msg_secs M))) + 19 \<le> int sz" using sz by simp
  obtain l0 nl where info: "g2_info (Suc (length (msg_secs M)) + k) (grib_message disc (msg_secs M) @ rest) (int sz) =
      Returns (Inr (l0, octets_ints [2, 2, 1, 1, 1, 2, 1, 1, 1, 1, 1, 1, 1] (mg_b1 M), int (length (mg_fields M)), nl))"
    using msg_info [OF M(1) sz19] by blast
  let ?F = "msg_field mem disc M junk"
  have nf: "named_field G ?F (\<lambda>i. gms ! i) i" if "i \<le> 0 + j" for i
    using msg_getfld(3) [OF M, of i] gem [of i] gem_info_ok [OF G(1)] that n j by (fastforce simp: named_field_def)
  have "\<exists>gs'. name_fields G (Suc (length (msg_secs M)) + k) mem junk (grib_message disc (msg_secs M) @ rest) (Suc j) 0
      \<lparr>ns_model = None, ns_grid = None, ns_fdats = None, ns_levels = None, ns_prods = []\<rparr> gs = Returns (named_state G ?F (\<lambda>i. gms ! i) (0 + j), gs') \<and>
      caches_ok G gs'"
    using msg_getfld(1) [OF M] n j p map_nth_upt [OF j, of parm_name]
    by (intro name_fields_named nf M(2) G(2)) (simp_all del: upt_Suc)
  then obtain gs' where "name_fields G (Suc (length (msg_secs M)) + k) mem junk (grib_message disc (msg_secs M) @ rest) (Suc j) 0
      \<lparr>ns_model = None, ns_grid = None, ns_fdats = None, ns_levels = None, ns_prods = []\<rparr> gs = Returns (named_state G ?F (\<lambda>i. gms ! i) (0 + j), gs')"
      "caches_ok G gs'" by blast
  moreover have "named_state G ?F (\<lambda>i. gms ! i) (0 + j) =
      \<lparr>ns_model = Some (i32 (process_of mem (last (mg_fields M)))), ns_grid = Some (grid_number G (?F j)),
       ns_fdats = Some (rm_slashes (time_text (last gms))), ns_levels = Some (level_text (last gms)), ns_prods = join_names (map parm_name gms)\<rparr>"
    using msg_getfld(3) [OF M, of j] n j last map_nth_upt [OF j, of parm_name]
    by (auto simp: named_state_def process_of_def simp del: upt_Suc)
  moreover obtain st' where "both_names rtl (word_of_int (octets_ints [2] (mg_b1 M) ! 0)) (word_of_int (i32 (process_of mem (last (mg_fields M))))) st =
      Some (str cn, model, st')"
    using both_names_text [OF c] mdl by metis
  moreover have "octets_ints [2, 2, 1, 1, 1, 2, 1, 1, 1, 1, 1, 1, 1] (mg_b1 M) ! 0 = octets_ints [2] (mg_b1 M) ! 0" by simp
  moreover have "nat (1 + int j) = Suc j" by simp
  ultimately show ?thesis
    using g l j n unfolding grib2name_def isz info
    by (simp add: grib2_ident_def fits_buf_def grib2_text_def del: name_fields.simps octets_ints.simps)
qed

section \<open>Products\<close>

text \<open>\<open>grib2name\<close> as \<open>process_prod\<close> calls it: what it writes, and \<open>None\<close> where it does not return.\<close>

definition g2_of ::
  "gempak \<Rightarrow> nat \<Rightarrow> (nat \<Rightarrow> bool) \<Rightarrow> (nat \<Rightarrow> gribfield) \<Rightarrow> bool \<Rightarrow> statics \<Rightarrow> gstate \<Rightarrow> byte list \<Rightarrow> nat \<Rightarrow> cstr \<Rightarrow> cstr option option" where
  "g2_of G fuel mem junk rtl st gs data sz wmohead =
     (case grib2name G fuel mem junk rtl st gs data sz wmohead of Returns (ident, st1, gs1) \<Rightarrow> Some ident | _ \<Rightarrow> None)"

lemma grib_message_head:
  "take 4 (grib_message disc secs) = str ''GRIB''" "length (grib_message disc secs) = length (sections secs) + 20"
  "drop 12 (take 16 (grib_message disc secs)) = be32_bytes (int (length (sections secs)) + 20)"
  by (simp_all add: grib_message_def be32_bytes_def sevens_def)

text \<open>
  C19: The identifier of a GRIB edition 2 product. When the fields of a message share a grid and GEMPAK knows each of
  them, the product that is handed to the queue is named by the heading, the centre, the generating process of the last
  field, the grid, the times and the level of the last field, and the parameters of all fields with semicolons between them.
\<close>

theorem grib2_product_named:
  assumes M: "msg_ok mem M" "\<And>k. mem k" and n: "length gms = length (mg_fields M)"
    and G: "levels_int G" "caches_ok G gs"
    and gem: "\<And>i. i < length gms \<Longrightarrow> \<exists>e. gb2_2gem G (msg_field mem disc M junk i) gstate0 = Some (Some (gms ! i), e)"
    and p: "length (join_names (map parm_name gms)) < 128"
    and c: "map_of center_table (uint (word_of_int (octets_ints [2] (mg_b1 M) ! 0) :: byte)) = Some cn"
    and mdl: "model = model_text (word_of_int (octets_ints [2] (mg_b1 M) ! 0)) (word_of_int (i32 (process_of mem (last (mg_fields M)))))"
    and g: "wmo_grid PROD_NAME (grid_number G (msg_field mem disc M junk (length gms - 1))) = Some grid"
    and l: "length (grib2_text (str cn) model grid gms) < 255" "length PROD_NAME \<le> 128"
    and heap: "heap = head @ grib_message disc (msg_secs M) @ rest" "head \<noteq> []" "heapsize \<le> length heap" "length heap < 2 ^ 31"
    and off: "psh_metadata psh = str '' !grib2/''" "psh_metaoff psh = int (length head)" "length head + 16 < heapsize"
  shows "process_prod (g2_of G (Suc (length (msg_secs M)) + k) mem junk rtl st gs) seqno PROD_NAME heap heapsize digest psh sbn =
    (let psh1 = psh\<lparr>psh_metadata := str '' !'' @ grib2_text (str cn) model grid gms\<rparr>
     in Some (Some \<lparr>p_feedtype = feedtype_of sbn psh1, p_seqno = seqno mod 2 ^ 32, p_data = take heapsize heap,
                    p_ident = PROD_NAME @ psh_metadata psh1, p_signature = digest\<rparr>, psh1))"
proof -
  let ?msg = "grib_message disc (msg_secs M)" and ?ident = "grib2_text (str cn) model grid gms"
  define L where "L = int (length (sections (msg_secs M))) + 20"
  have L: "0 \<le> L" "L < 2 ^ 31" using M(1) by (simp_all add: L_def msg_ok_def no_sevens_def)
  have d: "drop (length head) heap = ?msg @ rest" by (simp add: heap(1))
  define hd16 where "hd16 = take 16 ?msg"
  have lm: "16 \<le> length ?msg" by (simp add: grib_message_def be32_bytes_def)
  have h16: "mem_read heap (length head) 16 = Some hd16"
    using d lm heap(1) by (simp add: mem_read_def hd16_def)
  have "hd16 = str ''GRIB'' @ [0, 0, disc, 2, 0, 0, 0, 0] @ be32_bytes L"
    by (simp add: hd16_def grib_message_def be32_bytes_def L_def)
  then have b: "take 4 hd16 = str ''GRIB''" "be32 (hd16 ! 12) (hd16 ! 13) (hd16 ! 14) (hd16 ! 15) = L"
    using be32_roundtrip [OF L] by (simp_all add: be32_bytes_def)
  have sz: "to_size L = nat L" using L by (simp add: to_size_id)
  obtain st' gs' where gn: "grib2name G (Suc (length (msg_secs M)) + k) mem junk rtl st gs (?msg @ rest) (nat L) PROD_NAME = Returns (Some ?ident, st', gs')"
    using grib2name_text [OF M n G gem p c mdl g l(1), of "nat L" k rtl st rest] by (auto simp: L_def)
  have g2: "g2_of G (Suc (length (msg_secs M)) + k) mem junk rtl st gs (?msg @ rest) (nat L) PROD_NAME = Some (Some ?ident)"
    unfolding g2_of_def gn by simp
  have hs: "heapsize < 2 ^ 31" using heap(3,4) by simp
  have o: "0 < psh_metaoff psh" "to_size (psh_metaoff psh) < sz_sub heapsize 16" "nat (psh_metaoff psh) = length head"
    using off(2,3) heap(2) hs by (simp_all add: to_size_id sz_sub_eq)
  have f1: "fits_buf 512 (take 2 (str '' !grib2/'') @ ?ident) = Some (str '' !'' @ ?ident)" using l(1) by (simp add: fits_buf_def)
  have gm: "grib2_meta (g2_of G (Suc (length (msg_secs M)) + k) mem junk rtl st gs) PROD_NAME heap heapsize psh =
      Some (psh\<lparr>psh_metadata := str '' !'' @ ?ident\<rparr>)"
    unfolding grib2_meta_def off(1) o(3) using o(1,2) h16 b sz g2 d f1 by (simp del: str_Cons)
  have f2: "fits_buf 1024 (PROD_NAME @ str '' !'' @ ?ident) = Some (PROD_NAME @ str '' !'' @ ?ident)" using l by (simp add: fits_buf_def)
  have z: "heapsize mod 2 ^ 32 = heapsize" "0 < heapsize" using hs off(3) by simp_all
  show ?thesis
    unfolding process_prod_def gm using f2 z heap(3) by (simp add: Let_def mem_read_Some del: str_Cons)
qed

section \<open>Messages that the code does not expect\<close>

lemma unknown_product_section:
  assumes "getpdstemplate num = None" "0 \<le> num" "num < 65536" "length bs < 2 ^ 31"
  shows "\<exists>f'. g2_unpack4 mem (grib_section 4 ([ca, cb] @ be16_bytes num @ bs)) 0 f = Some (5, f') \<and> gf_ipdtmpl f' = None"
proof -
  define S where "S = grib_section 4 ([ca, cb] @ be16_bytes num @ bs)"
  have h: "section_head S 0 = Some (9 + int (length bs), 4)"
    using section_head_section [of "[ca, cb] @ be16_bytes num @ bs" 4] assms(4) by (simp add: S_def)
  have a: "gbit S 40 16 = Some (be_uint [ca, cb])"
    using gbit_field [of S "be32_bytes (9 + int (length bs)) @ [4]" "[ca, cb]" "be16_bytes num @ bs" 5]
    by (simp add: S_def grib_section_def)
  have b: "gbit S 56 16 = Some num"
    using gbit_field [of S "be32_bytes (9 + int (length bs)) @ [4, ca, cb]" "be16_bytes num" bs 7] assms(2,3)
    by (simp add: S_def grib_section_def be_uint_be16)
  show ?thesis unfolding S_def [symmetric] by (simp add: g2_unpack4_def Let_def h a b assms(1))
qed

text \<open>
  C37: The first field has a product definition whose template is not in the table: \<open>g2_getfld\<close> fails and leaves no template,
  and \<open>grib2name\<close>, which does not look at its status, reads through a null pointer.
\<close>

theorem unknown_template_crashes:
  assumes "16 \<le> length idsec" "grid_widths mem gn gbs = Some gws" "tmpl_octets gws \<le> length gbs" "0 \<le> npts" "npts < 2 ^ 32" "\<And>k. mem k"
    and t: "getpdstemplate num = None" "0 \<le> num" "num < 65536"
    and secs: "secs = (1, idsec) # (3, grid_body src npts interp gn gbs) # (4, [ca, cb] @ be16_bytes num @ bs) # others"
    and r: "\<forall>(num, body) \<in> set others. 2 \<le> num \<and> num \<le> 7"
    and s: "int (length (sections secs)) < no_sevens" "int (length (sections secs)) + 20 = int sz"
  shows "grib2name G (Suc (length secs) + k) mem junk rtl st gs (grib_message disc secs @ rest) sz wmohead = Undef"
proof -
  have small: "length body < 2 ^ 31" if "(num, body) \<in> set secs" for num body
    using section_length [OF that] s(1) by (simp add: no_sevens_def)
  have l: "length idsec < 2 ^ 31" "length gbs < 2 ^ 31" "length bs < 2 ^ 31"
    using small [of 1 idsec] small [of 3 "grid_body src npts interp gn gbs"] small [of 4 "[ca, cb] @ be16_bytes num @ bs"]
    by (simp_all add: secs grid_body_def)
  let ?s = "(first_gfst (junk 0))\<lparr>gs_have3 := True, gs_fld := with_grid idsec src npts interp gn gbs gws (new_gribfield (junk 0))\<rparr>"
  have "walk mem (uint disc) 1 secs (first_gfst (junk 0)) = walk mem (uint disc) 1 ((4, [ca, cb] @ be16_bytes num @ bs) # others) ?s"
    unfolding secs by (rule walk_start [OF assms(1) l(1) assms(2,3) l(2) assms(4-6)])
  then obtain f' where w: "walk mem (uint disc) 1 secs (first_gfst (junk 0)) = Some (11, f')" "gf_ipdtmpl f' = None"
    using unknown_product_section [OF t l(3), of mem ca cb
        "(gs_fld ?s)\<lparr>gf_discipline := uint disc, gf_version := 2, gf_ifldnum := 1, gf_unpacked := 0, gf_expanded := 0\<rparr>"]
    by (auto simp: getfld_section_def section4_def Let_def first_gfst_def store_def)
  have rs: "\<forall>(num, body) \<in> set secs. 1 \<le> num \<and> num \<le> 7" using r by (auto simp: secs)
  have gf: "g2_getfld (Suc (length secs) + k) mem (junk 0) (grib_message disc secs @ rest) 1 = Returns (11, f')"
    by (rule getfld_message [OF w(1) _ s(1) rs]) simp
  let ?secs' = "(3, grid_body src npts interp gn gbs) # (4, [ca, cb] @ be16_bytes num @ bs) # others"
  have si: "i32 (int sz) = int sz" using s by (intro i32_id) (simp_all add: no_sevens_def)
  have r': "\<forall>(num, body) \<in> set ?secs'. 2 \<le> num \<and> num \<le> 7" using r by auto
  have f: "Suc (length ?secs') + Suc k = Suc (length secs) + k" by (simp add: secs)
  have s': "int (length (sections ((1, idsec) # ?secs'))) < no_sevens" "int (length (sections ((1, idsec) # ?secs'))) + 19 \<le> int sz"
    using s by (simp_all add: secs)
  have "nat (count_of 4 ?secs') = Suc (nat (count_of 4 others))" by (simp add: count_of_def)
  moreover obtain l0 l1 nl where info: "g2_info (Suc (length secs) + k) (grib_message disc secs @ rest) (int sz) =
      Returns (Inr (l0, l1, count_of 4 ?secs', nl))"
    using g2_info_message [OF assms(1) r' s', of "Suc k" disc rest, unfolded f, folded secs] by blast
  ultimately show ?thesis
    unfolding grib2name_def si info using gf w(2) by (simp add: name_field_def)
qed

lemma name_fields_overflow:
  assumes "\<And>i. i \<le> n + k \<Longrightarrow> g2_getfld fuel mem (junk i) m (int i + 1) = Returns (0, F i)" "\<And>i. i \<le> n + k \<Longrightarrow> named_field G F gms i"
    and "mem 12" "128 \<le> length (join_names (map (\<lambda>i. parm_name (gms i)) [0..<Suc (n + k)]))"
    and "ns_prods s = join_names (map (\<lambda>i. parm_name (gms i)) [0..<n])" "caches_ok G gs"
  shows "name_fields G fuel mem junk m (Suc k) n s gs = Undef"
  using assms
proof (induction k arbitrary: n s gs)
  case 0
  show ?case using name_field_named [of G F gms n mem s gs] 0(1) [of n] 0(2) [of n] 0(3-6) by auto
next
  case (Suc k)
  obtain gs1 where f: "caches_ok G gs1" "name_field G mem n (F n) s gs =
      (if length (join_names (map (\<lambda>i. parm_name (gms i)) [0..<Suc n])) < 128 then Some (named_state G F gms n, gs1) else None)"
    using name_field_named [of G F gms n mem s, OF Suc.prems(2) [OF le_add1] Suc.prems(3,5,6)] by blast
  show ?case
  proof (cases "length (join_names (map (\<lambda>i. parm_name (gms i)) [0..<Suc n])) < 128")
    case True
    have "name_fields G fuel mem junk m (Suc k) (n + 1) (named_state G F gms n) gs1 = Undef"
      using Suc.prems f(1) by (intro Suc.IH) (simp_all add: named_state_def)
    with True f(2) show ?thesis using Suc.prems(1) [of n] by (simp del: upt_Suc)
  next
    case False
    with f(2) show ?thesis using Suc.prems(1) [of n] by (simp del: upt_Suc)
  qed
qed

text \<open>
  C38: The names of the parameters of a message go into an array of 128 bytes one behind the other, without a check: a
  message with enough fields overruns it.
\<close>

theorem many_fields_overflow:
  assumes M: "msg_ok mem M" "\<And>k. mem k" and n: "length gms = length (mg_fields M)"
    and G: "levels_int G" "caches_ok G gs"
    and gem: "\<And>i. i < length gms \<Longrightarrow> \<exists>e. gb2_2gem G (msg_field mem disc M junk i) gstate0 = Some (Some (gms ! i), e)"
    and p: "128 \<le> length (join_names (map parm_name gms))"
    and sz: "int (length (sections (msg_secs M))) + 20 = int sz"
  shows "grib2name G (Suc (length (msg_secs M)) + k) mem junk rtl st gs (grib_message disc (msg_secs M) @ rest) sz wmohead = Undef"
proof -
  have "mg_fields M \<noteq> []" using M(1) by (simp add: msg_ok_def)
  then obtain j where j: "length gms = Suc j" using n by (cases gms) auto
  have si: "i32 (int sz) = int sz" using M(1) sz by (intro i32_id) (simp_all add: msg_ok_def no_sevens_def)
  have sz19: "int (length (sections (msg_secs M))) + 19 \<le> int sz" using sz by simp
  obtain l0 nl where info: "g2_info (Suc (length (msg_secs M)) + k) (grib_message disc (msg_secs M) @ rest) (int sz) =
      Returns (Inr (l0, octets_ints [2, 2, 1, 1, 1, 2, 1, 1, 1, 1, 1, 1, 1] (mg_b1 M), int (length (mg_fields M)), nl))"
    using msg_info [OF M(1) sz19] by blast
  let ?F = "msg_field mem disc M junk"
  have nf: "named_field G ?F (\<lambda>i. gms ! i) i" if "i \<le> 0 + j" for i
    using msg_getfld(3) [OF M, of i] gem [of i] gem_info_ok [OF G(1)] that n j by (fastforce simp: named_field_def)
  have "name_fields G (Suc (length (msg_secs M)) + k) mem junk (grib_message disc (msg_secs M) @ rest) (Suc j) 0
      \<lparr>ns_model = None, ns_grid = None, ns_fdats = None, ns_levels = None, ns_prods = []\<rparr> gs = Undef"
    using msg_getfld(1) [OF M] n j p map_nth_upt [OF j, of parm_name]
    by (intro name_fields_overflow [of 0 j _ _ _ _ ?F _ "\<lambda>i. gms ! i"] nf M(2) G(2)) (simp_all del: upt_Suc)
  moreover have "int (length (mg_fields M)) = 1 + int j" "nat (1 + int j) = Suc j" using n j by simp_all
  ultimately show ?thesis unfolding grib2name_def si info by (simp del: name_fields.simps octets_ints.simps)
qed

text \<open>What GEMPAK looks at.\<close>

definition gem_key :: "gribfield \<Rightarrow> int list option \<times> int \<times> int \<times> int list option" where
  "gem_key g = (gf_idsect g, gf_discipline g, gf_ipdtnum g, gf_ipdtmpl g)"

lemma gem_cong: "gem_key g = gem_key g' \<Longrightarrow> gb2_2gem G g s = gb2_2gem G g' s"
proof -
  assume "gem_key g = gem_key g'"
  then have k: "gf_idsect g = gf_idsect g'" "gf_discipline g = gf_discipline g'" "gf_ipdtnum g = gf_ipdtnum g'" "gf_ipdtmpl g = gf_ipdtmpl g'"
    by (simp_all add: gem_key_def)
  have 1: "orig_cntr G g s = orig_cntr G g' s" for s unfolding orig_cntr_def k ..
  have 2: "gb2_ftim g = gb2_ftim g'" unfolding gb2_ftim_def k ..
  have 3: "gb2_prob G g p = gb2_prob G g' p" "gb2_proc g p = gb2_proc g' p" for p unfolding gb2_prob_def gb2_proc_def k by (rule refl)+
  have 4: "gb2_vlev G g = gb2_vlev G g'" unfolding gb2_vlev_def k ..
  have 5: "gb2_param G g oc t s = gb2_param G g' oc t s" for oc t s unfolding gb2_param_def k 3 ..
  have 6: "level_of G g l e = level_of G g' l e" for l e unfolding level_of_def 4 ..
  have 7: "gb2_vcrd G g oc s = gb2_vcrd G g' oc s" for oc s unfolding gb2_vcrd_def k 6 ..
  show ?thesis unfolding gb2_2gem_def 1 2 5 7 ..
qed

lemma msg_field_key:
  "gem_key (msg_field mem disc M junk i) =
     (Some (octets_ints [2, 2, 1, 1, 1, 2, 1, 1, 1, 1, 1, 1, 1] (mg_b1 M)), uint disc, fd_pnum (mg_fields M ! i),
      Some (octets_ints (the (product_widths mem (fd_pnum (mg_fields M ! i)) (fd_pds (mg_fields M ! i)))) (fd_pds (mg_fields M ! i))))"
  by (simp add: gem_key_def msg_field_def Let_def with_data_def with_product_def with_grid_def)

section \<open>Examples\<close>

definition demo_field :: g2field where
  "demo_field = \<lparr>fd_pnum = 0, fd_pds = [0, 0, 2, 0, 96, 0, 0, 0, 1, 0, 0, 0, 36, 100, 0, 0, 0, 195, 80, 255, 0, 0, 0, 0, 0], fd_ndpts = 9, fd_dnum = 0,
     fd_drs = [0, 0, 0, 0, 128, 3, 0, 2, 8, 0], fd_ibmap = 255, fd_bitmap = [], fd_data = [5, 6]\<rparr>"

definition demo_g2msg :: "nat \<Rightarrow> g2msg" where
  "demo_g2msg n = \<lparr>mg_b1 = [0, 7, 0, 0, 2, 1, 1, 7, 219, 1, 1, 0, 0, 0, 0, 1], mg_src = 0, mg_npts = 9, mg_interp = 0, mg_gridnum = 50,
     mg_grid = replicate 14 1, mg_fields = replicate n demo_field\<rparr>"

text \<open>Tables with one entry each, and a \<open>float\<close> that is only right for small numbers.\<close>

definition demo_entry :: "cstr \<Rightarrow> table_text" where
  "demo_entry name =
     Inr (\<lparr>discpln = 0, categry = 0, paramtr = 0, pdtnmbr = 0, gemname = name\<rparr>, pad_to 32 ''Temperature'', pad_to 20 ''K'', str ''  0  -9999.00'')"

definition demo_levels :: "byte list" where
  "demo_levels = str ''100 255 '' @ pad_to 33 ''Isobaric surface'' @ str '' '' @ pad_to 20 ''Pa'' @ str '' PRES    -2'' @ [10]"

definition demo_centers :: "byte list" where
  "demo_centers = str ''007 '' @ pad_to 64 ''US Weather Svc - National Centers for Environmental Prediction'' @ str '' NCEP'' @ [10]"

definition demo_tables :: "cstr \<Rightarrow> tables" where
  "demo_tables name =
     \<lparr>grid_file = (\<lambda>f. if f = str ''wmocenter.tbl'' then Some demo_centers
                       else if f = str ''g2varswmo2.tbl'' then Some (table_file [demo_entry name])
                       else if f = str ''g2vcrdwmo2.tbl'' then Some demo_levels else None),
      var0 = \<lparr>discpln = 0, categry = 0, paramtr = 0, pdtnmbr = 0, gemname = []\<rparr>,
      lvl0 = \<lparr>id1 = 0, id2 = 0, lv_scale = 0, lv_unit = replicate 20 0, abbrev = []\<rparr>, cntr0 = \<lparr>cn_id = 0, cn_abbrev = []\<rparr>\<rparr>"

definition demo_gempak :: "cstr \<Rightarrow> gempak" where
  "demo_gempak name = \<lparr>g_tables = demo_tables name, decode_g2gnum = (\<lambda>_. 3), scaled = (\<lambda>v s. word_of_int v),
     to_level = (\<lambda>x s. if s = - 2 then sint x div 100 else sint x), to_int = sint, wmocntr0 = replicate 8 0, abbrev0 = replicate 5 1\<rparr>"

lemma demo_rdlvl: "ctb_g2rdlvl \<lparr>id1 = 0, id2 = 0, lv_scale = 0, lv_unit = replicate 20 0, abbrev = []\<rparr> (Some demo_levels) =
    Some (Some [\<lparr>id1 = 100, id2 = 255, lv_scale = - 2, lv_unit = pad_to 20 ''Pa'', abbrev = str ''PRES''\<rparr>])"
  by code_simp

lemma demo_rdcntr: "ctb_g2rdcntr \<lparr>cn_id = 0, cn_abbrev = []\<rparr> (Some demo_centers) = Some (Some [\<lparr>cn_id = 7, cn_abbrev = str ''NCEP''\<rparr>])"
  by code_simp

lemma demo_levels_int: "levels_int (demo_gempak name)"
proof -
  have s: "- (2 ^ 31) \<le> sint (x :: 32 word) \<and> sint x < 2 ^ 31" for x using sint_greater_eq [of x] sint_less [of x] by simp
  have "- (2 ^ 31) \<le> v div 100 \<and> v div 100 < 2 ^ 31" if "- (2 ^ 31) \<le> v" "v < 2 ^ 31" for v :: int
  proof -
    have "- (2 ^ 31) div 100 \<le> v div 100" "v div 100 \<le> 2 ^ 31 div 100" using that by (simp_all add: zdiv_mono1)
    then show ?thesis by simp
  qed
  with s show ?thesis by (simp add: levels_int_def demo_gempak_def)
qed

lemma demo_rdvar:
  "name \<noteq> [] \<Longrightarrow> length name < 13 \<Longrightarrow> \<forall>b \<in> set name. \<not> is_c_space b \<and> b \<noteq> 0 \<Longrightarrow>
   ctb_g2rdvar v0 (Some (table_file [demo_entry name])) = Some (Some [\<lparr>discpln = 0, categry = 0, paramtr = 0, pdtnmbr = 0, gemname = name\<rparr>])"
proof -
  assume n: "name \<noteq> []" "length name < 13" "\<forall>b \<in> set name. \<not> is_c_space b \<and> b \<noteq> 0"
  then have "\<forall>b \<in> set name. b \<noteq> 0 \<and> b \<noteq> 10" by (auto simp: is_c_space_def)
  then have "table_line_ok (demo_entry name)"
    using n by (simp add: demo_entry_def columns_ok_def var_ok_def pad_to_def is_c_space_def)
  then show ?thesis using table_read [of "[demo_entry name]" v0] by (simp add: demo_entry_def)
qed

lemma fetch_new:
  "nm \<noteq> [] \<Longrightarrow> rdt nm = Some (Some rows) \<Longrightarrow> fetch rdt nm empty_cache = Some (True, \<lparr>currtable = nm, tinfo = rows\<rparr>)"
  by (simp add: fetch_def empty_cache_def)

definition demo_forecast36 :: gribfield where
  "demo_forecast36 = (demo_forecast 0 [0, 0, 2, 0, 96, 0, 0, 1, 36, 100, 0, 50000, 255, 0, 0])\<lparr>gf_idsect := Some [7, 0, 2, 1, 1, 2011, 1, 1, 0, 0, 0, 0, 1]\<rparr>"

definition demo_geminfo :: "cstr \<Rightarrow> geminfo" where
  "demo_geminfo name = \<lparr>gm_parm = name @ replicate (12 - length name) 32, gm_gdattm1 = str ''20110101/0000F036'', gm_gdattm2 = replicate 20 32,
     gm_level0 = 500, gm_level1 = - 1, gm_vcord = 1397051984, gm_unit = str ''hPa''\<rparr>"

lemma demo_gem:
  assumes n: "name \<noteq> []" "length name < 13" "\<forall>b \<in> set name. \<not> is_c_space b \<and> b \<noteq> 0 \<and> b \<noteq> 45"
  shows "\<exists>e. gb2_2gem (demo_gempak name) demo_forecast36 gstate0 = Some (Some (demo_geminfo name), e)"
proof -
  let ?G = "demo_gempak name" and ?g = demo_forecast36
  have r: "rdcntr (demo_tables name) (str ''wmocenter.tbl'') = Some (Some [\<lparr>cn_id = 7, cn_abbrev = str ''NCEP''\<rparr>])"
    "rdvar (demo_tables name) (str ''g2varswmo'' @ dec 2 @ str ''.tbl'') =
       Some (Some [\<lparr>discpln = 0, categry = 0, paramtr = 0, pdtnmbr = 0, gemname = name\<rparr>])"
    "rdlvl (demo_tables name) (str ''g2vcrdwmo'' @ dec 2 @ str ''.tbl'') =
       Some (Some [\<lparr>id1 = 100, id2 = 255, lv_scale = - 2, lv_unit = pad_to 20 ''Pa'', abbrev = str ''PRES''\<rparr>])"
    using demo_rdvar [OF n(1,2)] n(3) demo_rdlvl demo_rdcntr
    by (simp_all add: rdcntr_def rdvar_def rdlvl_def demo_tables_def dec_def digits.simps)
  obtain s1 where 1: "orig_cntr ?G ?g gstate0 = Some (str ''ncep'', s1)" "st_wmovar s1 = empty_cache" "st_wmolvl s1 = empty_cache"
    using r(1) by (simp add: orig_cntr_def gb2_gtcntr_def fetch_def demo_gempak_def demo_forecast36_def demo_forecast_def rd_int_def i32_id rd_def gstate0_def empty_cache_def
        fits_buf_def cst_uclc_def)
  have z: "replicate 3 (48 :: byte) = [48, 48, 48]" by (simp add: numeral_3_eq_3)
  have 2: "gb2_ftim ?g = Some (0, str ''20110101/0000F036'', IMISSD)"
    by (simp add: gb2_ftim_def demo_forecast36_def demo_forecast_def rd_int_def i32_id rd_def gb2_fcsm_def in_int_def quot_def c_rem_def tg_itoc_def fits_buf_def dec_pad_def
        digits.simps ftype_def Let_def z)
  have "str_find s (str ''--'') = None" if "45 \<notin> set s" for s
    using that by (induction s) auto
  moreover have "45 \<notin> set name" using n(3) by auto
  ultimately have "str_find name (str ''--'') = None" .
  then have ct: "gb2_ctim IMISSD name = Some name" by (simp add: gb2_ctim_def IMISSD_def Let_def)
  have T: "g_tables ?G = demo_tables name" by (simp add: demo_gempak_def)
  let ?v = "\<lparr>discpln = 0, categry = 0, paramtr = 0, pdtnmbr = 0, gemname = name\<rparr>"
  let ?l = "\<lparr>id1 = 100, id2 = 255, lv_scale = - 2, lv_unit = pad_to 20 ''Pa'', abbrev = str ''PRES''\<rparr>"
  obtain c where "gb2_gtwmovartbl (demo_tables name) 2 (st_wmovar s1) = Some (True, c)" "tinfo c = [?v]"
    unfolding gb2_gtwmovartbl_def 1(2) using fetch_new [of _ "rdvar (demo_tables name)", OF _ r(2)] by simp
  then have v: "var_lookup ?G (str ''ncep'') (2, 1) (0, 0, 0, 0) s1 = Some (Some ?v, s1\<lparr>st_wmovar := c\<rparr>)"
    by (simp add: var_lookup_def T gb2_skvar_def del: str_Cons)
  have g: "gf_idsect ?g = Some [7, 0, 2, 1, 1, 2011, 1, 1, 0, 0, 0, 0, 1]" "gf_ipdtmpl ?g = Some [0, 0, 2, 0, 96, 0, 0, 1, 36, 100, 0, 50000, 255, 0, 0]"
    "gf_discipline ?g = 0" "gf_ipdtnum ?g = 0"
    by (simp_all add: demo_forecast36_def demo_forecast_def)
  have r0: "rd [7, 0, 2, 1, 1, 2011, 1, 1, 0, 0, 0, 0, 1] 2 = Some 2" "rd [7, 0, 2, 1, 1, 2011, 1, 1, 0, 0, 0, 0, 1] 3 = Some 1"
    "rd [0, 0, 2, 0, 96, 0, 0, 1, 36, 100, 0, 50000, 255, 0, 0] 0 = Some 0" "rd [0, 0, 2, 0, 96, 0, 0, 1, 36, 100, 0, 50000, 255, 0, 0] 1 = Some 0"
    "rd [0, 0, 2, 0, 96, 0, 0, 1, 36, 100, 0, 50000, 255, 0, 0] 2 = Some 2" "rd [0, 0, 2, 0, 96, 0, 0, 1, 36, 100, 0, 50000, 255, 0, 0] 9 = Some 100"
    "rd [0, 0, 2, 0, 96, 0, 0, 1, 36, 100, 0, 50000, 255, 0, 0] 10 = Some 0" "rd [0, 0, 2, 0, 96, 0, 0, 1, 36, 100, 0, 50000, 255, 0, 0] 11 = Some 50000"
    "rd [0, 0, 2, 0, 96, 0, 0, 1, 36, 100, 0, 50000, 255, 0, 0] 12 = Some 255"
    by (simp_all add: rd_def)
  have r1: "rd_int xs i = Some (i32 x)" if "rd xs i = Some x" for xs i x using that by (rule rd_int_Some)
  note ri = r0 [THEN r1]
  have 3: "gb2_param ?G ?g (str ''ncep'') IMISSD s1 = Some (Some (name @ replicate (12 - length name) 32), s1\<lparr>st_wmovar := c\<rparr>)"
    using n(2) unfolding gb2_param_def g gb2_prob_def gb2_proc_def by (simp add: r0 ri ri [unfolded One_nat_def] i32_id v ct cat12_def del: str_Cons)
  obtain d where d: "gb2_gtwmolvltbl (demo_tables name) 2 (st_wmolvl s1) = Some (True, d)" "tinfo d = [?l]"
    unfolding gb2_gtwmolvltbl_def 1(3) using fetch_new [of _ "rdlvl (demo_tables name)", OF _ r(3)] by simp
  then have l: "lvl_lookup ?G (str ''ncep'') (2, 1) (100, 255) (s1\<lparr>st_wmovar := c\<rparr>) = Some (Some ?l, s1\<lparr>st_wmovar := c, st_wmolvl := d\<rparr>)"
    by (simp add: lvl_lookup_def T gb2_sklvl_def del: str_Cons)
  have lv: "gb2_vlev ?G ?g = Some (0, 50000, f32_minus1)"
    unfolding gb2_vlev_def g by (simp add: r0 demo_gempak_def)
  have u: "cst_rmbl (cstr_of (pad_to 20 ''Pa'')) = str ''Pa''" "mem_write (abbrev0 ?G) 0 (str ''PRES'' @ [0]) = Some (str ''PRES'' @ [0])"
    "cst_ctoi (str ''PRES'' @ [0]) = Some 1397051984"
    by code_simp+
  have lo: "level_of ?G ?g 100 ?l = Some (Some (500, - 1, 1397051984, str ''hPa''))"
    unfolding level_of_def lv using u by (simp add: demo_gempak_def fits_buf_def Let_def)
  have 4: "gb2_vcrd ?G ?g (str ''ncep'') (s1\<lparr>st_wmovar := c\<rparr>) = Some (Some (500, - 1, 1397051984, str ''hPa''), s1\<lparr>st_wmovar := c, st_wmolvl := d\<rparr>)"
    unfolding gb2_vcrd_def g by (simp add: ri i32_id l lo del: str_Cons)
  show ?thesis using 2 3 4 1(1) by (simp add: gb2_2gem_def demo_geminfo_def)
qed

lemma demo_g2_widths:
  "grid_widths (\<lambda>_. True) 50 (replicate 14 1) = Some [4, 4, 4, 1, 1]"
  "product_widths (\<lambda>_. True) 0 (fd_pds demo_field) = Some [1, 1, 1, 1, 1, 2, 1, 1, 4, 1, - 1, - 4, 1, - 1, - 4]"
  "data_widths (\<lambda>_. True) 0 [0, 0, 0, 0, 128, 3, 0, 2, 8, 0] = Some [4, - 2, - 2, 1, 1]"
  by (simp_all add: grid_widths_def product_widths_def data_widths_def getgridtemplate_def getpdstemplate_def getdrstemplate_def
      getgridindex_def getpdsindex_def getdrsindex_def templatesgrid_def templatespds_def templatesdrs_def template_of_def all_widths_def demo_field_def)

lemma demo_pds_octets: "octets_ints (the (product_widths (\<lambda>_. True) 0 (fd_pds demo_field))) (fd_pds demo_field) =
    [0, 0, 2, 0, 96, 0, 0, 1, 36, 100, 0, 50000, 255, 0, 0]"
  unfolding demo_g2_widths(2) by (simp add: demo_field_def octets_int_def be_uint_Cons i32_def)

lemma demo_sections: "length (sections (concat (replicate n (field_secs demo_field)))) = 68 * n"
  by (induction n) (simp_all add: field_secs_def demo_field_def sections_def)

lemma demo_g2msg_length: "length (sections (msg_secs (demo_g2msg n))) = 49 + 68 * n"
  using demo_sections [of n] by (simp add: msg_secs_def demo_g2msg_def grid_body_def map_replicate_const)

lemma demo_g2msg_ok: "0 < n \<Longrightarrow> n < 1000 \<Longrightarrow> msg_ok (\<lambda>_. True) (demo_g2msg n)"
  using demo_g2_widths demo_g2msg_length [of n]
  by (simp add: msg_ok_def field_ok_def list_all_iff no_sevens_def)
    (auto simp: demo_g2msg_def demo_field_def tmpl_octets_def)

lemma demo_key: "i < n \<Longrightarrow> gem_key (msg_field (\<lambda>_. True) 0 (demo_g2msg n) junk i) = gem_key demo_forecast36"
proof -
  assume i: "i < n"
  have "octets_ints [2, 2, 1, 1, 1, 2, 1, 1, 1, 1, 1, 1, 1] [0, 7, 0, 0, 2, 1, 1, 7, 219, 1, 1, 0, 0, 0, 0, 1] = [7, 0, 2, 1, 1, 2011, 1, 1, 0, 0, 0, 0, 1]"
    by (simp add: octets_int_def be_uint_Cons i32_def)
  then show ?thesis
    using i demo_pds_octets unfolding msg_field_key
    by (simp add: demo_g2msg_def gem_key_def demo_forecast36_def demo_forecast_def) (simp add: demo_field_def)
qed

lemma demo_fields_named:
  assumes "name \<noteq> []" "length name < 13" "\<forall>b \<in> set name. \<not> is_c_space b \<and> b \<noteq> 0 \<and> b \<noteq> 45" "i < n"
  shows "\<exists>e. gb2_2gem (demo_gempak name) (msg_field (\<lambda>_. True) 0 (demo_g2msg n) junk i) gstate0 = Some (Some (demo_geminfo name), e)"
  using demo_gem [OF assms(1-3)] gem_cong [OF demo_key [OF assms(4)]] by simp

lemma demo_names: "cst_rmbl (str ''TMPK'' @ replicate 8 32) = str ''TMPK''" "cst_rmbl (replicate 12 65) = replicate 12 65"
  "cst_rmbl (str ''20110101/0000F036'') = str ''20110101/0000F036''" "cst_rxbl (str ''hPa'') = str ''hPa''" "cst_rmbl (replicate 20 32) = []"
  "rm_slashes (str ''20110101/0000F036'') = str ''201101010000F036''"
  by (simp_all add: cst_rmbl_def is_blank_def cst_rxbl.simps rm_slashes.simps cst_rmst_def Let_def)

lemma demo_texts: "time_text (demo_geminfo name) = str ''20110101/0000F036''" "level_text (demo_geminfo name) = str ''500 hPa PRES''"
  using demo_names by (simp_all add: time_text_def level_text_def demo_geminfo_def dec_def digits.simps cst_itoc_def le32_def)

lemma demo_process: "process_of (\<lambda>_. True) demo_field = 96"
  using demo_pds_octets by (simp add: process_of_def) (simp add: demo_field_def)

theorem grib2_product_named_witness:
  "\<exists>p psh. process_prod (g2_of (demo_gempak (str ''TMPK'')) 11 (\<lambda>_. True) (\<lambda>_. demo_gribfield) False demo_statics gstate0) 1 (str ''YTPS50 KWBC'')
      (str ''YTPS50 KWBC'' @ grib_message 0 (msg_secs (demo_g2msg 2)) @ []) 216 []
      (demo_psh\<lparr>psh_metadata := str '' !grib2/'', psh_metaoff := 11\<rparr>) demo_sbn = Some (Some p, psh) \<and>
    p_ident p = str ''YTPS50 KWBC !grib2/ncep/GFS/#003/201101010000F036/TMPK;TMPK/500 hPa PRES''"
proof -
  let ?M = "demo_g2msg 2" and ?gms = "[demo_geminfo (str ''TMPK''), demo_geminfo (str ''TMPK'')]" and ?G = "demo_gempak (str ''TMPK'')"
  have M: "msg_ok (\<lambda>_. True) ?M" by (rule demo_g2msg_ok) simp_all
  have n: "length ?gms = length (mg_fields ?M)" by (simp add: demo_g2msg_def)
  have "\<forall>b \<in> set (str ''TMPK''). \<not> is_c_space b \<and> b \<noteq> 0 \<and> b \<noteq> 45" by (simp add: is_c_space_def)
  note f = demo_fields_named [OF _ _ this, of _ 2 "\<lambda>_. demo_gribfield"]
  have gem: "\<exists>e. gb2_2gem ?G (msg_field (\<lambda>_. True) 0 ?M (\<lambda>_. demo_gribfield) i) gstate0 = Some (Some (?gms ! i), e)" if "i < length ?gms" for i
    using that f [of i] by (auto simp: less_Suc_eq simp del: str_Cons)
  have pn: "parm_name (demo_geminfo (str ''TMPK'')) = str ''TMPK''" using demo_names(1) by (simp add: parm_name_def demo_geminfo_def del: str_Cons)
  have c7: "octets_ints [2] (mg_b1 ?M) ! 0 = 7" by (simp add: demo_g2msg_def octets_int_def be_uint_Cons)
  have p96: "process_of (\<lambda>_. True) (last (mg_fields ?M)) = 96" by (simp add: demo_g2msg_def demo_process)
  have c: "map_of center_table (uint (word_of_int (octets_ints [2] (mg_b1 ?M) ! 0) :: byte)) = Some ''ncep''" unfolding c7 by (simp add: center_table_def)
  have mdl: "str ''GFS'' = model_text (word_of_int (octets_ints [2] (mg_b1 ?M) ! 0)) (word_of_int (i32 (process_of (\<lambda>_. True) (last (mg_fields ?M)))))"
    unfolding c7 p96 by (simp add: i32_id model_text_def ncep_table_def Let_def)
  have "gf_griddef (msg_field (\<lambda>_. True) 0 ?M (\<lambda>_. demo_gribfield) (Suc 0)) = 0"
    using msg_getfld(2) [OF M TrueI, of "Suc 0" 0 "\<lambda>_. demo_gribfield"] by (simp add: demo_g2msg_def)
  then have g: "wmo_grid (str ''YTPS50 KWBC'') (grid_number ?G (msg_field (\<lambda>_. True) 0 ?M (\<lambda>_. demo_gribfield) (length ?gms - 1))) = Some 3"
    by (simp add: grid_number_def wmo_grid_def demo_gempak_def)
  have t: "grib2_text (str ''ncep'') (str ''GFS'') 3 ?gms = str ''grib2/ncep/GFS/#003/201101010000F036/TMPK;TMPK/500 hPa PRES''"
    using demo_names(6) pn by (simp add: grib2_text_def demo_texts dec_pad_def digits.simps numeral_2_eq_2 del: str_Cons) simp
  have ls: "Suc (length (msg_secs ?M)) + 0 = 11" by (simp add: msg_secs_def demo_g2msg_def field_secs_def numeral_2_eq_2)
  have hl: "length (str ''YTPS50 KWBC'' @ grib_message 0 (msg_secs ?M) @ []) = 216"
    using demo_g2msg_length [of 2] grib_message_head(2) [of 0 "msg_secs ?M"] by simp
  note th = grib2_product_named [OF M TrueI n demo_levels_int caches_ok_0 gem _ c mdl g, where heap = "str ''YTPS50 KWBC'' @ grib_message 0 (msg_secs ?M) @ []" and k = 0
      and heapsize = 216 and psh = "demo_psh\<lparr>psh_metadata := str '' !grib2/'', psh_metaoff := 11\<rparr>" and digest = "[]" and seqno = 1 and sbn = demo_sbn
      and rtl = False and st = demo_statics, OF _ _ _ _ refl]
  show ?thesis unfolding ls [symmetric] by (subst th) (simp_all add: pn [simplified] t [simplified] hl [simplified] Let_def demo_psh_def del: One_nat_def)
qed

theorem unknown_template_crashes_witness:
  "grib2name (demo_gempak []) 5 (\<lambda>_. True) (\<lambda>_. demo_gribfield) False demo_statics gstate0
     (grib_message 0 [(1, replicate 16 3), (3, grid_body 0 9 0 50 (replicate 14 1)), (4, [0, 0] @ be16_bytes 400 @ [1]), (7, [1])] @ []) 85 [] = Undef"
proof -
  have u: "getpdstemplate 400 = None" by (simp add: getpdstemplate_def getpdsindex_def templatespds_def)
  show ?thesis
    using unknown_template_crashes [where idsec = "replicate 16 3" and mem = "\<lambda>_. True" and gn = 50 and gbs = "replicate 14 1" and npts = 9
        and num = 400 and src = 0 and interp = 0 and bs = "[1]" and others = "[(7, [1])]" and sz = 85 and G = "demo_gempak []" and k = 0
        and junk = "\<lambda>_. demo_gribfield" and rtl = False and st = demo_statics and gs = gstate0 and disc = 0 and rest = "[]" and wmohead = "[]",
        OF _ demo_g2_widths(1) _ _ _ _ u _ _ refl] 
    by (simp add: tmpl_octets_def no_sevens_def grid_body_def numeral_eq_Suc)
qed

theorem many_fields_overflow_witness:
  "grib2name (demo_gempak (replicate 12 65)) 43 (\<lambda>_. True) (\<lambda>_. demo_gribfield) False demo_statics gstate0
     (grib_message 0 (msg_secs (demo_g2msg 10)) @ []) 749 [] = Undef"
proof -
  let ?M = "demo_g2msg 10" and ?gms = "replicate 10 (demo_geminfo (replicate 12 65))" and ?G = "demo_gempak (replicate 12 65)"
  have M: "msg_ok (\<lambda>_. True) ?M" by (rule demo_g2msg_ok) simp_all
  have n: "length ?gms = length (mg_fields ?M)" by (simp add: demo_g2msg_def)
  have "\<forall>b \<in> set (replicate 12 65). \<not> is_c_space b \<and> b \<noteq> 0 \<and> b \<noteq> 45" by (simp add: is_c_space_def)
  note f = demo_fields_named [OF _ _ this, of _ 10 "\<lambda>_. demo_gribfield"]
  have gem: "\<exists>e. gb2_2gem ?G (msg_field (\<lambda>_. True) 0 ?M (\<lambda>_. demo_gribfield) i) gstate0 = Some (Some (?gms ! i), e)" if "i < length ?gms" for i
    using that f [of i] by simp
  have "parm_name (demo_geminfo (replicate 12 65)) = replicate 12 65" using demo_names(2) by (simp add: parm_name_def demo_geminfo_def)
  then have p: "128 \<le> length (join_names (map parm_name ?gms))" by (simp add: map_replicate_const numeral_eq_Suc)
  have ls: "Suc (length (msg_secs ?M)) + 0 = 43" by (simp add: msg_secs_def demo_g2msg_def field_secs_def length_concat map_replicate_const sum_list_replicate)
  show ?thesis
    using many_fields_overflow [OF M TrueI n demo_levels_int caches_ok_0 gem p, where sz = 749 and k = 0 and rtl = False and st = demo_statics and rest = "[]" and wmohead = "[]"]
      demo_g2msg_length [of 10] ls by simp
qed

text \<open>The same field a second time, when its tables are kept.\<close>

theorem tables_are_kept_witness:
  "\<exists>s1 s2. gb2_2gem (demo_gempak (str ''TMPK'')) demo_forecast36 gstate0 = Some (Some (demo_geminfo (str ''TMPK'')), s1) \<and>
    gb2_2gem (demo_gempak (str ''TMPK'')) demo_forecast36 s1 = Some (Some (demo_geminfo (str ''TMPK'')), s2) \<and>
    caches_ok (demo_gempak (str ''TMPK'')) s2"
proof -
  have "\<forall>b \<in> set (str ''TMPK''). \<not> is_c_space b \<and> b \<noteq> 0 \<and> b \<noteq> 45" by (simp add: is_c_space_def)
  from demo_gem [OF _ _ this] obtain e where e: "gb2_2gem (demo_gempak (str ''TMPK'')) demo_forecast36 gstate0 = Some (Some (demo_geminfo (str ''TMPK'')), e)" by auto
  from tables_are_kept [OF caches_ok_0 e] obtain s1
    where s1: "gb2_2gem (demo_gempak (str ''TMPK'')) demo_forecast36 gstate0 = Some (Some (demo_geminfo (str ''TMPK'')), s1)"
      "caches_ok (demo_gempak (str ''TMPK'')) s1" by blast
  from tables_are_kept [OF s1(2) e] s1(1) show ?thesis by blast
qed

end
