(* ===== verification/Spec2Isabelle.thy ===== *)
theory Spec2Isabelle
  imports Fifo_Threads Shm_Admin Npl_Log Ingester Readnoaaport_Main G2_Message Grib1_Meta Grib2_Name Gem_Time
begin

text \<open>
  A model of the NOAAPORT ingester. The programs take the packets of the NOAAPORT satellite broadcast from a file or a
  multicast socket, put the data-products together again and give them to the LDM product-queue.

  There are two ways to do it. \<open>noaaportIngester\<close> is one program of several threads: a data-reader fills a FIFO in memory,
  and a product-maker takes the packets out of it. The other is two programs with a FIFO in shared memory between
  them: \<open>dvbs_multicast\<close> puts each datagram into it, and \<open>readnoaaport\<close> makes the products. The last property of the
  composed programs says that both make the same products from the same bytes.

  \<^bold>\<open>How the code is modelled.\<close> A C function is a HOL function over the state it works on: a record for a struct, a list of
  bytes for an object in memory, with an offset where the code has a pointer. \<open>None\<close> (or \<open>Crash\<close>, \<open>Overrun\<close>, \<open>Undef\<close>) is
  undefined behaviour of C: a read or write outside an object, a signed overflow. C integers are \<open>int\<close> or \<open>nat\<close> with the
  conversions of an LP64 machine written out (\<open>i32\<close>, \<open>sz_add\<close>, ...), bytes are 8-bit words, and a \<open>read\<close> of more than
  \<open>SSIZE_MAX\<close> bytes is refused as by Linux. Results of system calls and of \<open>malloc\<close> are arguments, so that every
  error path of the code is a branch of the model. What blocks for ever is a value
  of its own (\<open>Wait\<close>, \<open>Forever\<close>).

  \<^bold>\<open>The theories.\<close> In the order of the imports:

  \<^item> \<open>NP_Prelude\<close>: bytes, C strings, integer conversions, memory with checked bounds, and rule collections
    (\<open>cmem\<close>, \<open>csize\<close>, \<open>ring\<close>).
  \<^item> \<open>Byte_Queue\<close>: the contract of a bounded byte queue, as two locales: \<open>byte_queue\<close>, and \<open>strict_byte_queue\<close> where a
    refused operation changes nothing. \<open>Fifo\<close> interprets the second one on \<open>fifo.c\<close>, \<open>Shm_Fifo\<close> the first on \<open>shmfifo.c\<close>.
  \<^item> \<open>Fifo\<close>, \<open>Fifo_Threads\<close>: \<open>fifo.c\<close>. The first has its functions, one call at a time; the second any number of threads
    that share one FIFO, as a step relation, with an invariant over all reachable states.
  \<^item> \<open>Shm_Fifo\<close>, \<open>Shm_Sync\<close>, \<open>Shm_Records\<close>, \<open>Shm_Properties\<close>, \<open>Shm_Admin\<close>: \<open>shmfifo.c\<close> from the ring of bytes up to
    locks and notifications (a semaphore set), records with their sentinel, and creation, search by key and removal of the
    segment.
  \<^item> \<open>Npl_Log\<close>: the message lists of \<open>noaaportLog.c\<close>.
  \<^item> \<open>Reader\<close>, \<open>Readers_New\<close>: \<open>reader.c\<close>, \<open>fileReader.c\<close>, \<open>multicastReader.c\<close>. \<open>Command_Line\<close>: log levels and masks.
  \<^item> \<open>Headers\<close>: \<open>readsbn.c\<close>, \<open>readpdh.c\<close> and the structures of \<open>nport.h\<close>; encoders of the headers are the specification
    for round trips. \<open>Ccb\<close>: \<open>readpsh.c\<close>. \<open>Grib_Id\<close>: \<open>gribid.c\<close> and \<open>getFacilityName.c\<close>. \<open>Wmo\<close>: \<open>wmo_header.c\<close>.
    \<open>Redbook\<close>: \<open>redbook_header.c\<close>. \<open>Pdb\<close>: \<open>readpdb.c\<close>. \<open>Png_Io\<close>: \<open>png_io.c\<close>.
  \<^item> \<open>Prod_Store\<close>: \<open>process_prod.c\<close> and \<open>ldmProductQueue.c\<close>: fragments, the product heap, the hand-over.
  \<^item> \<open>Product_Maker\<close>, \<open>Pm_Loop\<close>, \<open>Pm_Assembly\<close>, \<open>Pm_Product\<close>, \<open>Pm_Faults\<close>: \<open>productMaker.c\<close>. The definitions are in the
    first two; then termination, the assembly of fragments, whole products, and input that is out of order.
  \<^item> \<open>Ingester\<close>: \<open>noaaportIngester.c\<close>, and the composition of reader, FIFO and product-maker.
  \<^item> \<open>Bufread\<close>, \<open>Readnoaaport\<close>, \<open>Rn_Simulation\<close>, \<open>Dvbs_Multicast\<close>, \<open>Readnoaaport_Main\<close>: \<open>readnoaaport.c\<close> and
    \<open>dvbs_multicast.c\<close>, a simulation between the two builders of products, and the composition of the two programs.
  \<^item> \<open>G2_Bits\<close>, \<open>G2_Templates\<close>, \<open>G2_Unpack\<close>, \<open>G2_Values\<close>, \<open>G2_Message\<close>: what \<open>grib2name\<close> uses of the GRIB2 library (\<open>g2/\<close>).
  \<^item> \<open>Scanning\<close>: numbers in text. \<open>Wgrib_Tables\<close>, \<open>Wgrib_Names\<close>, \<open>Wgrib_Time\<close>: what \<open>wmo_header\<close> calls of \<open>wgrib.c\<close>, the
    names of parameters and levels and the verification time. \<open>Grib1_Meta\<close>: the heading of a GRIB edition 1 product.
  \<^item> \<open>Gem_Time\<close>: the dates of GEMPAK (\<open>gempak/\<close>). \<open>Gem_Strings\<close>: its string functions (\<open>cst*.c\<close>). \<open>Gem_Tables\<close>: its tables of
    parameters, levels and centres, how they are read (\<open>cfl*.c\<close>, \<open>ctbg2rd*.c\<close>) and kept (\<open>gb2gt*.c\<close>), with the locale
    \<open>kept_table\<close>, which is interpreted on the five functions that keep one. \<open>Gem_Names\<close>: what \<open>gb22gem.c\<close> makes of a field.
  \<^item> \<open>Grib2_Name\<close>: \<open>grib2name.c\<close>, and the product of a GRIB edition 2 message.

  \<^bold>\<open>What the lemmas show.\<close> Each theory of a component proves what its operations do on every branch, and an invariant that
  they keep. The refinements say that a component is what its client takes it for: both FIFOs are byte queues, \<open>fifoRead\<close> is
  a read of a stream, \<open>verf_time\<close> and \<open>ti_addm\<close> are the calendar day by day, and a program that keeps tables names fields as
  one that reads them each time. The composed properties follow bytes from a reader to the product-queue. Theorems about
  errors say where the code does not do what it is meant to.

  \<^bold>\<open>Bounds.\<close> The loops over the sections of a GRIB edition 2 message have fuel, one unit for each section and one more; the
  theorems give that much, and more does not matter. Messages are shorter than the number that \<open>7777\<close> reads as, which the
  library takes for the end. The verification time is within 100 years, the minutes between two dates of GEMPAK below
  2 to the 30th, increments of time have at most 16 bits. Waiting loops need none: they end or are a value of their own.

  \<^bold>\<open>Not modelled.\<close> The bundled libraries \<open>libpng\<close> and \<open>zlib\<close>, whose calls are parameters; the rest of \<open>wgrib.c\<close> (a program of
  its own that is linked in) and of the GRIB2 library (unpacking of data and packing, which naming does not reach). Of GEMPAK,
  the number of a grid (\<open>decode_g2gnum\<close>, which compares floating-point numbers), arithmetic on \<open>float\<close>, the search for the file of
  a table and the bytes of arrays before they are set are fields of the record \<open>gempak\<close>; columns of the tables that only other
  programs use are left out. Also left out are the table of statistics in floating-point numbers, the one-line wrappers of
  the logging functions, usage texts, and build files. The LDM's product-queue, \<open>mktime\<close>, the system calls and \<open>pthread\<close> functions are not part of the sources.
\<close>

end
